(* ===== verification/CSP_Prelude.thy ===== *)
theory CSP_Prelude
  imports Main "HOL-Library.Word"
begin

text \<open>
  Prelude of the development: the machine types of the C sources, byte memories with
  \<^verbatim>\<open>memcpy\<close> as explicit reads and writes, the byte-order conversions of
  \<^verbatim>\<open>endian.h\<close> as byte lists, the error codes of \<^verbatim>\<open>csp_error.h\<close>, and the
  generic lemmas on them that the component theories share.
\<close>

unbundle bit_operations_syntax

section \<open>Machine types and addresses\<close>

type_synonym u8 = "8 word"
type_synonym u16 = "16 word"
type_synonym u32 = "32 word"
type_synonym u64 = "64 word"

text \<open>
  An object of a statically allocated C array (a packet buffer, an interface, a
  connection, a socket) is named by its address, a natural number; a pointer that may be
  \<^verbatim>\<open>NULL\<close> is an optional address.
\<close>

type_synonym addr = nat
type_synonym mem = "nat \<Rightarrow> u8"

named_theorems mem_simps \<open>reads after writes on byte memories\<close>
named_theorems frame_simps \<open>state components an operation leaves alone\<close>

section \<open>Error codes\<close>

abbreviation (input) CSP_ERR_NONE :: int where "CSP_ERR_NONE \<equiv> 0"
abbreviation (input) CSP_ERR_NOMEM :: int where "CSP_ERR_NOMEM \<equiv> -1"
abbreviation (input) CSP_ERR_INVAL :: int where "CSP_ERR_INVAL \<equiv> -2"
abbreviation (input) CSP_ERR_TIMEDOUT :: int where "CSP_ERR_TIMEDOUT \<equiv> -3"
abbreviation (input) CSP_ERR_USED :: int where "CSP_ERR_USED \<equiv> -4"
abbreviation (input) CSP_ERR_NOTSUP :: int where "CSP_ERR_NOTSUP \<equiv> -5"
abbreviation (input) CSP_ERR_ALREADY :: int where "CSP_ERR_ALREADY \<equiv> -7"
abbreviation (input) CSP_ERR_RESET :: int where "CSP_ERR_RESET \<equiv> -8"
abbreviation (input) CSP_ERR_NOBUFS :: int where "CSP_ERR_NOBUFS \<equiv> -9"
abbreviation (input) CSP_ERR_DRIVER :: int where "CSP_ERR_DRIVER \<equiv> -11"
abbreviation (input) CSP_ERR_AGAIN :: int where "CSP_ERR_AGAIN \<equiv> -12"
abbreviation (input) CSP_ERR_HMAC :: int where "CSP_ERR_HMAC \<equiv> -100"
abbreviation (input) CSP_ERR_CRC32 :: int where "CSP_ERR_CRC32 \<equiv> -102"
abbreviation (input) CSP_ERR_SFP :: int where "CSP_ERR_SFP \<equiv> -103"

section \<open>Byte memories\<close>

text \<open>
  \<open>mem_read m off n\<close> is the byte sequence a \<^verbatim>\<open>memcpy\<close> of \<open>n\<close> bytes from offset
  \<open>off\<close> reads; \<open>mem_write m off bs\<close> is the memory after a \<^verbatim>\<open>memcpy\<close> of \<open>bs\<close> to
  offset \<open>off\<close>.
\<close>

definition mem_read :: "mem \<Rightarrow> nat \<Rightarrow> nat \<Rightarrow> u8 list" where
  "mem_read m off n = map (\<lambda>i. m (off + i)) [0..<n]"

definition mem_write :: "mem \<Rightarrow> nat \<Rightarrow> u8 list \<Rightarrow> mem" where
  "mem_write m off bs = (\<lambda>i. if off \<le> i \<and> i < off + length bs then bs ! (i - off) else m i)"

lemma length_mem_read [simp]: "length (mem_read m off n) = n"
  by (simp add: mem_read_def)

lemma nth_mem_read [simp]: "i < n \<Longrightarrow> mem_read m off n ! i = m (off + i)"
  by (simp add: mem_read_def)

lemma mem_read_0 [simp]: "mem_read m off 0 = []"
  by (simp add: mem_read_def)

lemma mem_read_Suc: "mem_read m off (Suc n) = m off # mem_read m (Suc off) n"
  by (simp add: mem_read_def upt_conv_Cons map_Suc_upt [symmetric] comp_def del: upt_Suc)

lemma mem_read_append: "mem_read m off (a + b) = mem_read m off a @ mem_read m (off + a) b"
  by (rule nth_equalityI) (auto simp: nth_append add.assoc)

lemma take_mem_read [simp]: "take k (mem_read m off n) = mem_read m off (min k n)"
  by (rule nth_equalityI) auto

lemma drop_mem_read [simp]: "drop k (mem_read m off n) = mem_read m (off + k) (n - k)"
  by (rule nth_equalityI) (auto simp: add.assoc)

lemma mem_read_cong: "(\<And>i. off \<le> i \<Longrightarrow> i < off + n \<Longrightarrow> m i = m' i) \<Longrightarrow> mem_read m off n = mem_read m' off n"
  by (simp add: mem_read_def)

lemma mem_write_Nil [simp]: "mem_write m off [] = m"
  by (rule ext) (auto simp: mem_write_def)

lemma mem_write_same [mem_simps]:
  "n = length bs \<Longrightarrow> mem_read (mem_write m off bs) off n = bs"
  by (rule nth_equalityI) (auto simp: mem_write_def)

lemma mem_write_disjoint [mem_simps]:
  "a + n \<le> off \<or> off + length bs \<le> a \<Longrightarrow> mem_read (mem_write m off bs) a n = mem_read m a n"
  by (rule mem_read_cong) (auto simp: mem_write_def)

lemma mem_write_inside:
  "off \<le> a \<Longrightarrow> a + n \<le> off + length bs \<Longrightarrow>
     mem_read (mem_write m off bs) a n = take n (drop (a - off) bs)"
  by (rule nth_equalityI) (auto simp: mem_write_def)

lemma mem_write_outside:
  "i < off \<or> off + length bs \<le> i \<Longrightarrow> mem_write m off bs i = m i"
  by (auto simp: mem_write_def)

lemma mem_write_append:
  "mem_write (mem_write m off xs) (off + length xs) ys = mem_write m off (xs @ ys)"
  by (rule ext) (auto simp: mem_write_def nth_append)

lemma mem_write_one: "mem_write m off [b] = m(off := b)"
  by (rule ext) (auto simp: mem_write_def)

section \<open>Byte order\<close>

text \<open>
  \<^verbatim>\<open>htobe32\<close> followed by a \<^verbatim>\<open>memcpy\<close> of the word stores its bytes most significant
  first, whatever the host order is; \<open>be_bytes n w\<close> is that sequence for the low \<open>n\<close> bytes
  of \<open>w\<close> and \<open>be_word\<close> reads it back (\<^verbatim>\<open>memcpy\<close> and \<^verbatim>\<open>be32toh\<close>).
\<close>

fun be_bytes :: "nat \<Rightarrow> 'a::len word \<Rightarrow> u8 list" where
  "be_bytes 0 w = []"
| "be_bytes (Suc n) w = be_bytes n (drop_bit 8 w) @ [ucast w]"

definition be_word :: "u8 list \<Rightarrow> 'a::len word" where
  "be_word bs = foldl (\<lambda>a b. push_bit 8 a OR ucast b) 0 bs"

definition le_bytes :: "nat \<Rightarrow> 'a::len word \<Rightarrow> u8 list" where
  "le_bytes n w = rev (be_bytes n w)"

definition le_word :: "u8 list \<Rightarrow> 'a::len word" where
  "le_word bs = be_word (rev bs)"

lemma length_be_bytes [simp]: "length (be_bytes n w) = n"
  by (induction n arbitrary: w) auto

lemma length_le_bytes [simp]: "length (le_bytes n w) = n"
  by (simp add: le_bytes_def)

lemma be_word_Nil [simp]: "be_word [] = 0"
  by (simp add: be_word_def)

lemma be_word_snoc: "be_word (bs @ [b]) = push_bit 8 (be_word bs) OR ucast b"
  by (simp add: be_word_def)

lemma push_take_ucast:
  "push_bit 8 (take_bit n (drop_bit 8 w)) OR ucast (ucast w :: u8) = take_bit (8 + n) (w :: 'a::len word)"
proof (rule bit_word_eqI)
  fix k assume "k < LENGTH('a)"
  then show "bit (push_bit 8 (take_bit n (drop_bit 8 w)) OR ucast (ucast w :: u8)) k
      \<longleftrightarrow> bit (take_bit (8 + n) w) k"
    by (cases "k < 8") (auto simp: bit_simps)
qed

lemma be_word_be_bytes: "be_word (be_bytes n w) = take_bit (8 * n) (w :: 'a::len word)"
proof (induction n arbitrary: w)
  case 0
  show ?case by simp
next
  case (Suc n)
  then show ?case by (simp add: be_word_snoc push_take_ucast)
qed

lemma be_word_be_bytes_id:
  "8 * n = LENGTH('a) \<Longrightarrow> be_word (be_bytes n w) = (w :: 'a::len word)"
  by (simp add: be_word_be_bytes)

lemma le_word_le_bytes_id:
  "8 * n = LENGTH('a) \<Longrightarrow> le_word (le_bytes n w) = (w :: 'a::len word)"
  by (simp add: le_word_def le_bytes_def be_word_be_bytes)

lemma be_word_be_bytes_16 [simp]: "be_word (be_bytes 2 w) = (w :: u16)"
  by (rule be_word_be_bytes_id) simp

lemma be_word_be_bytes_32 [simp]: "be_word (be_bytes 4 w) = (w :: u32)"
  by (rule be_word_be_bytes_id) simp

lemma le_word_le_bytes_32 [simp]: "le_word (le_bytes 4 w) = (w :: u32)"
  by (rule le_word_le_bytes_id) simp

lemma drop_bit_8_snoc:
  assumes "8 * Suc n \<le> LENGTH('a)" and "w = take_bit (8 * n) (w :: 'a::len word)"
  shows "drop_bit 8 (push_bit 8 w OR ucast (b :: u8)) = w"
    and "ucast (push_bit 8 w OR ucast b) = b"
proof -
  show "drop_bit 8 (push_bit 8 w OR ucast b) = w"
  proof (rule bit_word_eqI)
    fix k assume k: "k < LENGTH('a)"
    have "bit w k \<Longrightarrow> k < 8 * n"
      using assms(2) by (metis bit_take_bit_iff)
    with k assms(1) show "bit (drop_bit 8 (push_bit 8 w OR ucast b)) k \<longleftrightarrow> bit w k"
      by (auto simp: bit_simps dest: bit_imp_le_length)
  qed
  show "ucast (push_bit 8 w OR ucast b) = b"
    by (rule bit_word_eqI) (use assms(1) in \<open>auto simp: bit_simps\<close>)
qed

lemma be_word_bound: "be_word bs = take_bit (8 * length bs) (be_word bs :: 'a::len word)"
proof (induction bs rule: rev_induct)
  case Nil
  show ?case by simp
next
  case (snoc b bs)
  have "take_bit (8 * length bs + 8) (push_bit 8 (be_word bs) OR ucast b)
      = push_bit 8 (take_bit (8 * length bs) (be_word bs)) OR (ucast b :: 'a word)"
    by (rule bit_word_eqI) (auto simp: bit_simps dest: bit_imp_le_length)
  then show ?case
    using snoc.IH by (simp add: be_word_snoc add.commute)
qed

lemma be_bytes_be_word:
  "8 * length bs \<le> LENGTH('a) \<Longrightarrow> be_bytes (length bs) (be_word bs :: 'a::len word) = bs"
proof (induction bs rule: rev_induct)
  case Nil
  show ?case by simp
next
  case (snoc b bs)
  then have len: "8 * Suc (length bs) \<le> LENGTH('a)" by simp
  show ?case
    using snoc.IH len drop_bit_8_snoc [OF len be_word_bound]
    by (simp add: be_word_snoc)
qed

lemma be_bytes_inj:
  assumes "be_bytes n v = be_bytes n w" and "8 * n = LENGTH('a)"
  shows "v = (w :: 'a::len word)"
  using assms be_word_be_bytes_id by metis

section \<open>Word arithmetic\<close>

lemma unat_add_small:
  "unat a + unat b < 2 ^ LENGTH('a) \<Longrightarrow> unat (a + b) = unat a + unat (b :: 'a::len word)"
  by (simp add: unat_word_ariths)

lemma unat_diff_small: "b \<le> a \<Longrightarrow> unat (a - b) = unat a - unat (b :: 'a::len word)"
  by (rule unat_sub)

lemma unat_Suc_small:
  "unat a + 1 < 2 ^ LENGTH('a) \<Longrightarrow> unat (a + 1) = Suc (unat (a :: 'a::len word))"
  by (simp add: unat_word_ariths)

lemma unat_of_nat_small: "n < 2 ^ LENGTH('a) \<Longrightarrow> unat (of_nat n :: 'a::len word) = n"
  by (simp add: unat_of_nat take_bit_nat_eq_self)

lemma of_nat_eq_word:
  "n < 2 ^ LENGTH('a) \<Longrightarrow> of_nat n = w \<longleftrightarrow> n = unat (w :: 'a::len word)"
  using unat_of_nat_small [of n, where 'a = 'a] by auto

end
