(* ===== verification/CSP_Sha1.thy ===== *)
theory CSP_Sha1
  imports CSP_Prelude
begin

text \<open>
  SHA-1, \<^verbatim>\<open>src/src/crypto/csp_sha1.c\<close>: the unrolled compression function, the buffering of
  partial blocks and the padding, against the textbook definition of the hash of a whole
  message.
\<close>

section \<open>Compression as the code writes it\<close>

abbreviation (input) CSP_SHA1_BLOCKSIZE :: nat where "CSP_SHA1_BLOCKSIZE \<equiv> 64"
abbreviation (input) CSP_SHA1_DIGESTSIZE :: nat where "CSP_SHA1_DIGESTSIZE \<equiv> 20"

type_synonym sha1_regs = "u32 \<times> u32 \<times> u32 \<times> u32 \<times> u32"

record csp_sha1_state =
  sha_length :: u64
  sha_state :: sha1_regs
  sha_curlen :: nat
  sha_buf :: mem

definition ROL :: "u32 \<Rightarrow> nat \<Rightarrow> u32" where
  "ROL x y = push_bit y x OR drop_bit (32 - y) x"

definition LOAD32H :: "mem \<Rightarrow> nat \<Rightarrow> u32" where
  "LOAD32H m off = push_bit 24 (ucast (m off AND 0xff)) OR push_bit 16 (ucast (m (off + 1) AND 0xff))
     OR push_bit 8 (ucast (m (off + 2) AND 0xff)) OR ucast (m (off + 3) AND 0xff)"

definition STORE32H :: "u32 \<Rightarrow> u8 list" where
  "STORE32H x = [ucast (drop_bit 24 x AND 0xff), ucast (drop_bit 16 x AND 0xff),
     ucast (drop_bit 8 x AND 0xff), ucast (x AND 0xff)]"

definition STORE64H :: "u64 \<Rightarrow> u8 list" where
  "STORE64H x = [ucast (drop_bit 56 x AND 0xff), ucast (drop_bit 48 x AND 0xff),
     ucast (drop_bit 40 x AND 0xff), ucast (drop_bit 32 x AND 0xff),
     ucast (drop_bit 24 x AND 0xff), ucast (drop_bit 16 x AND 0xff),
     ucast (drop_bit 8 x AND 0xff), ucast (x AND 0xff)]"

definition F0 :: "u32 \<Rightarrow> u32 \<Rightarrow> u32 \<Rightarrow> u32" where "F0 x y z = z XOR (x AND (y XOR z))"
definition F1 :: "u32 \<Rightarrow> u32 \<Rightarrow> u32 \<Rightarrow> u32" where "F1 x y z = x XOR y XOR z"
definition F2 :: "u32 \<Rightarrow> u32 \<Rightarrow> u32 \<Rightarrow> u32" where "F2 x y z = (x AND y) OR (z AND (x OR y))"
definition F3 :: "u32 \<Rightarrow> u32 \<Rightarrow> u32 \<Rightarrow> u32" where "F3 x y z = x XOR y XOR z"

text \<open>
  The macros \<^verbatim>\<open>FF_0\<close> to \<^verbatim>\<open>FF_3\<close> assign to \<^verbatim>\<open>e\<close> and \<^verbatim>\<open>b\<close>; \<open>FF f k\<close> returns the two. A round
  of the loops is five of them with the roles of the variables rotated.
\<close>

definition FF :: "(u32 \<Rightarrow> u32 \<Rightarrow> u32 \<Rightarrow> u32) \<Rightarrow> u32 \<Rightarrow> u32 \<Rightarrow> u32 \<Rightarrow> u32 \<Rightarrow> u32 \<Rightarrow> u32 \<Rightarrow> u32 \<Rightarrow> u32 \<times> u32" where
  "FF f k a b c d e w = (ROL a 5 + f b c d + e + w + k, ROL b 30)"

definition sha1_round5 ::
  "(u32 \<Rightarrow> u32 \<Rightarrow> u32 \<Rightarrow> u32) \<Rightarrow> u32 \<Rightarrow> (nat \<Rightarrow> u32) \<Rightarrow> nat \<Rightarrow> sha1_regs \<Rightarrow> sha1_regs" where
  "sha1_round5 f k W i r =
     (let (a, b, c, d, e) = r;
          (e, b) = FF f k a b c d e (W i);
          (d, a) = FF f k e a b c d (W (i + 1));
          (c, e) = FF f k d e a b c (W (i + 2));
          (b, d) = FF f k c d e a b (W (i + 3));
          (a, c) = FF f k b c d e a (W (i + 4))
      in (a, b, c, d, e))"

text \<open>The message schedule: the array \<^verbatim>\<open>W\<close> is filled in increasing order.\<close>

definition sha1_expand_step :: "nat \<Rightarrow> (nat \<Rightarrow> u32) \<Rightarrow> nat \<Rightarrow> u32" where
  "sha1_expand_step i W = W(i := ROL (W (i - 3) XOR W (i - 8) XOR W (i - 14) XOR W (i - 16)) 1)"

definition sha1_schedule :: "mem \<Rightarrow> nat \<Rightarrow> u32" where
  "sha1_schedule buf =
     fold sha1_expand_step [16..<80] (fold (\<lambda>i W. W(i := LOAD32H buf (4 * i))) [0..<16] (\<lambda>_. 0))"

definition csp_sha1_compress :: "csp_sha1_state \<Rightarrow> mem \<Rightarrow> csp_sha1_state" where
  "csp_sha1_compress sha1 buf =
     (let W = sha1_schedule buf;
          r = sha_state sha1;
          r = fold (sha1_round5 F0 0x5a827999 W) [0, 5, 10, 15] r;
          r = fold (sha1_round5 F1 0x6ed9eba1 W) [20, 25, 30, 35] r;
          r = fold (sha1_round5 F2 0x8f1bbcdc W) [40, 45, 50, 55] r;
          r = fold (sha1_round5 F3 0xca62c1d6 W) [60, 65, 70, 75] r;
          (a, b, c, d, e) = r;
          (s0, s1, s2, s3, s4) = sha_state sha1
      in sha1\<lparr>sha_state := (s0 + a, s1 + b, s2 + c, s3 + d, s4 + e)\<rparr>)"

section \<open>Hashing\<close>

definition csp_sha1_init :: "csp_sha1_state \<Rightarrow> csp_sha1_state" where
  "csp_sha1_init sha1 = sha1\<lparr>sha_state := (0x67452301, 0xefcdab89, 0x98badcfe, 0x10325476, 0xc3d2e1f0),
     sha_curlen := 0, sha_length := 0\<rparr>"

text \<open>A byte list as a memory, for the pointer \<^verbatim>\<open>in\<close>.\<close>

definition list_mem :: "u8 list \<Rightarrow> mem" where
  "list_mem bs = mem_write (\<lambda>_. 0) 0 bs"

text \<open>
  The loop of \<^verbatim>\<open>csp_sha1_process\<close>. Every round consumes input while the buffer is not full,
  so as many rounds as bytes are enough (\<open>csp_sha1_process_stream\<close>).
\<close>

fun sha1_process_loop :: "nat \<Rightarrow> csp_sha1_state \<Rightarrow> u8 list \<Rightarrow> csp_sha1_state" where
  "sha1_process_loop 0 sha1 inp = sha1"
| "sha1_process_loop (Suc fuel) sha1 inp =
     (if length inp = 0 then sha1
      else if sha_curlen sha1 = 0 \<and> length inp \<ge> CSP_SHA1_BLOCKSIZE
      then let sha1 = csp_sha1_compress sha1 (list_mem inp);
               sha1 = sha1\<lparr>sha_length := sha_length sha1 + of_nat (CSP_SHA1_BLOCKSIZE * 8)\<rparr>
           in sha1_process_loop fuel sha1 (drop CSP_SHA1_BLOCKSIZE inp)
      else let n = min (length inp) (CSP_SHA1_BLOCKSIZE - sha_curlen sha1);
               sha1 = sha1\<lparr>sha_buf := mem_write (sha_buf sha1) (sha_curlen sha1) (take n inp),
                           sha_curlen := sha_curlen sha1 + n\<rparr>;
               inp = drop n inp;
               sha1 = (if sha_curlen sha1 = CSP_SHA1_BLOCKSIZE
                       then let sha1 = csp_sha1_compress sha1 (sha_buf sha1)
                            in sha1\<lparr>sha_length := sha_length sha1 + of_nat (CSP_SHA1_BLOCKSIZE * 8), sha_curlen := 0\<rparr>
                       else sha1)
           in sha1_process_loop fuel sha1 inp)"

definition csp_sha1_process :: "csp_sha1_state \<Rightarrow> u8 list \<Rightarrow> csp_sha1_state" where
  "csp_sha1_process sha1 data = sha1_process_loop (length data) sha1 data"

text \<open>The loop \<^verbatim>\<open>while (sha1->curlen < n) sha1->buf[sha1->curlen++] = 0\<close>.\<close>

definition sha1_zero_to :: "nat \<Rightarrow> csp_sha1_state \<Rightarrow> csp_sha1_state" where
  "sha1_zero_to n sha1 =
     (if sha_curlen sha1 < n
      then sha1\<lparr>sha_buf := mem_write (sha_buf sha1) (sha_curlen sha1) (replicate (n - sha_curlen sha1) 0), sha_curlen := n\<rparr>
      else sha1)"

definition csp_sha1_done :: "csp_sha1_state \<Rightarrow> u8 list \<times> csp_sha1_state" where
  "csp_sha1_done sha1 =
     (let sha1 = sha1\<lparr>sha_length := sha_length sha1 + of_nat (sha_curlen sha1 * 8)\<rparr>;
          sha1 = sha1\<lparr>sha_buf := mem_write (sha_buf sha1) (sha_curlen sha1) [0x80], sha_curlen := sha_curlen sha1 + 1\<rparr>;
          sha1 = (if sha_curlen sha1 > 56
                  then let sha1 = sha1_zero_to 64 sha1
                       in (csp_sha1_compress sha1 (sha_buf sha1))\<lparr>sha_curlen := 0\<rparr>
                  else sha1);
          sha1 = sha1_zero_to 56 sha1;
          sha1 = sha1\<lparr>sha_buf := mem_write (sha_buf sha1) 56 (STORE64H (sha_length sha1))\<rparr>;
          sha1 = csp_sha1_compress sha1 (sha_buf sha1);
          (s0, s1, s2, s3, s4) = sha_state sha1
      in (STORE32H s0 @ STORE32H s1 @ STORE32H s2 @ STORE32H s3 @ STORE32H s4, sha1))"

text \<open>The local variable \<^verbatim>\<open>md\<close> is not initialised before \<^verbatim>\<open>csp_sha1_init\<close>.\<close>

definition csp_sha1_memory :: "csp_sha1_state \<Rightarrow> u8 list \<Rightarrow> u8 list" where
  "csp_sha1_memory md msg = fst (csp_sha1_done (csp_sha1_process (csp_sha1_init md) msg))"

section \<open>The textbook hash\<close>

fun sha1_f :: "nat \<Rightarrow> u32 \<Rightarrow> u32 \<Rightarrow> u32 \<Rightarrow> u32" where
  "sha1_f t x y z =
     (if t < 20 then (x AND y) XOR (NOT x AND z)
      else if 40 \<le> t \<and> t < 60 then (x AND y) XOR (x AND z) XOR (y AND z)
      else x XOR y XOR z)"

definition sha1_k :: "nat \<Rightarrow> u32" where
  "sha1_k t = (if t < 20 then 0x5a827999 else if t < 40 then 0x6ed9eba1
     else if t < 60 then 0x8f1bbcdc else 0xca62c1d6)"

fun sha1_w :: "u8 list \<Rightarrow> nat \<Rightarrow> u32" where
  "sha1_w block t =
     (if t < 16 then be_word (take 4 (drop (4 * t) block))
      else ROL (sha1_w block (t - 3) XOR sha1_w block (t - 8) XOR sha1_w block (t - 14) XOR sha1_w block (t - 16)) 1)"

declare sha1_w.simps [simp del] sha1_f.simps [simp del]

definition sha1_step :: "u8 list \<Rightarrow> nat \<Rightarrow> sha1_regs \<Rightarrow> sha1_regs" where
  "sha1_step block t = (\<lambda>(a, b, c, d, e). (ROL a 5 + sha1_f t b c d + e + sha1_k t + sha1_w block t, a, ROL b 30, c, d))"

definition sha1_block :: "u8 list \<Rightarrow> sha1_regs \<Rightarrow> sha1_regs" where
  "sha1_block block h =
     (let (a, b, c, d, e) = fold (sha1_step block) [0..<80] h; (h0, h1, h2, h3, h4) = h
      in (h0 + a, h1 + b, h2 + c, h3 + d, h4 + e))"

text \<open>The full blocks of a message, in order.\<close>

fun sha1_blocks :: "u8 list \<Rightarrow> u8 list list" where
  "sha1_blocks m = (if length m < 64 then [] else take 64 m # sha1_blocks (drop 64 m))"

declare sha1_blocks.simps [simp del]

definition sha1_pad :: "u8 list \<Rightarrow> u8 list" where
  "sha1_pad m = m @ [0x80] @ replicate ((119 - length m mod 64) mod 64) 0 @ be_bytes 8 (of_nat (8 * length m) :: u64)"

definition sha1_iv :: sha1_regs where
  "sha1_iv = (0x67452301, 0xefcdab89, 0x98badcfe, 0x10325476, 0xc3d2e1f0)"

definition sha1_ref :: "u8 list \<Rightarrow> u8 list" where
  "sha1_ref m = (let (h0, h1, h2, h3, h4) = fold sha1_block (sha1_blocks (sha1_pad m)) sha1_iv
     in be_bytes 4 h0 @ be_bytes 4 h1 @ be_bytes 4 h2 @ be_bytes 4 h3 @ be_bytes 4 h4)"

section \<open>The compression function\<close>

lemma LOAD32H_be_word: "LOAD32H m off = be_word (mem_read m off 4)"
proof -
  have rd: "mem_read m off 4 = [m off, m (off + 1), m (off + 2), m (off + 3)]"
    by (simp add: mem_read_def upt_rec numeral_eq_Suc)
  have "(be_word [w, x, y, z] :: u32) = push_bit 24 (ucast w) OR push_bit 16 (ucast x) OR push_bit 8 (ucast y) OR ucast z"
    for w x y z :: u8
    by (simp add: be_word_def push_bit_or or.assoc)
  moreover have "x AND 0xff = x" for x :: u8
    using take_bit_length_eq [of x] by (simp add: take_bit_eq_mask mask_eq_exp_minus_1)
  ultimately show ?thesis
    by (simp add: LOAD32H_def rd)
qed

lemma ucast_low: "ucast (x AND 0xff) = (ucast (x :: 'a::len word) :: u8)"
proof -
  have "x AND 0xff = take_bit 8 x" by (simp add: take_bit_eq_mask mask_eq_exp_minus_1)
  then show ?thesis by (intro bit_word_eqI) (auto simp: bit_simps)
qed

lemma STORE32H_be: "STORE32H x = be_bytes 4 x"
  by (simp add: STORE32H_def ucast_low numeral_eq_Suc)

lemma STORE64H_be: "STORE64H x = be_bytes 8 x"
  by (simp add: STORE64H_def ucast_low numeral_eq_Suc)

lemma round_functions:
  "t < 20 \<Longrightarrow> F0 x y z = sha1_f t x y z"
  "20 \<le> t \<Longrightarrow> t < 40 \<Longrightarrow> F1 x y z = sha1_f t x y z"
  "40 \<le> t \<Longrightarrow> t < 60 \<Longrightarrow> F2 x y z = sha1_f t x y z"
  "60 \<le> t \<Longrightarrow> F3 x y z = sha1_f t x y z"
  by (auto simp: F0_def F1_def F2_def F3_def sha1_f.simps bit_eq_iff bit_simps)

lemma sha1_w_low: "t < 16 \<Longrightarrow> sha1_w b t = be_word (take 4 (drop (4 * t) b))"
  by (subst sha1_w.simps) simp

lemma schedule_load:
  "n \<le> 16 \<Longrightarrow> j < n \<Longrightarrow>
     fold (\<lambda>i W. W(i := LOAD32H buf (4 * i))) [0..<n] W0 j = sha1_w (mem_read buf 0 64) j"
  by (induction n) (auto simp: less_Suc_eq LOAD32H_be_word sha1_w_low min_def)

lemma schedule_expand:
  assumes "\<And>j. j < 16 \<Longrightarrow> W0 j = sha1_w b j"
  shows "16 \<le> n \<Longrightarrow> n \<le> 80 \<Longrightarrow> j < n \<Longrightarrow> fold sha1_expand_step [16..<n] W0 j = sha1_w b j"
proof (induction n arbitrary: j rule: dec_induct)
  case base
  then show ?case using assms by simp
next
  case (step n)
  then have "fold sha1_expand_step [16..<n] W0 i = sha1_w b i" if "i < n" for i
    using that by simp
  with step show ?case
    by (auto simp: sha1_expand_step_def less_Suc_eq sha1_w.simps [of b n])
qed

lemma sha1_schedule_eq: "t < 80 \<Longrightarrow> sha1_schedule buf t = sha1_w (mem_read buf 0 64) t"
  unfolding sha1_schedule_def by (rule schedule_expand) (simp_all add: schedule_load)

lemma sha1_round5_steps:
  assumes "\<And>j. j < 5 \<Longrightarrow> f = sha1_f (i + j) \<and> k = sha1_k (i + j) \<and> W (i + j) = sha1_w b (i + j)"
  shows "sha1_round5 f k W i r = fold (sha1_step b) [i..<i + 5] r"
proof -
  obtain a b' c d e where r: "r = (a, b', c, d, e)" by (metis prod_cases5)
  have up: "[i..<i + 5] = [i, i + 1, i + 2, i + 3, i + 4]"
    by (simp add: upt_rec numeral_eq_Suc)
  have st: "sha1_step b (i + j) (a, b', c, d, e)
      = (fst (FF f k a b' c d e (W (i + j))), a, snd (FF f k a b' c d e (W (i + j))), c, d)"
    if "j < 5" for j a b' c d e
    using assms [OF that] by (simp add: sha1_step_def FF_def ac_simps)
  have lt: "(0::nat) < 5" "(1::nat) < 5" "(2::nat) < 5" "(3::nat) < 5" "(4::nat) < 5" by simp_all
  show ?thesis
    unfolding up r sha1_round5_def
    by (simp only: fold_simps st [OF lt(1), unfolded add_0_right] st [OF lt(2)] st [OF lt(3)] st [OF lt(4)]
        st [OF lt(5)] Let_def split_beta fst_conv snd_conv)
qed

lemma sha1_round5_fold:
  assumes "\<And>t. lo \<le> t \<Longrightarrow> t < lo + 5 * n \<Longrightarrow> f = sha1_f t \<and> k = sha1_k t \<and> W t = sha1_w b t"
  shows "fold (sha1_round5 f k W) (map (\<lambda>i. lo + 5 * i) [0..<n]) r = fold (sha1_step b) [lo..<lo + 5 * n] r"
  using assms
proof (induction n)
  case (Suc n)
  have "sha1_round5 f k W (lo + 5 * n) r = fold (sha1_step b) [lo + 5 * n..<lo + 5 * n + 5] r" for r
    by (rule sha1_round5_steps) (use Suc.prems in simp)
  moreover have "[lo..<lo + 5 * n + 5] = [lo..<lo + 5 * n] @ [lo + 5 * n..<lo + 5 * n + 5]"
    by (rule upt_add_eq_append) simp
  ultimately show ?case using Suc by (simp add: add.commute add.left_commute)
qed simp

lemma sha1_compress_block:
  "sha_state (csp_sha1_compress sha1 buf) = sha1_block (mem_read buf 0 64) (sha_state sha1)"
proof -
  let ?b = "mem_read buf 0 64" and ?W = "sha1_schedule buf"
  have quad: "map (\<lambda>i. lo + 5 * i) [0..<4] = [lo, lo + 5, lo + 10, lo + 15]" for lo :: nat
    by (simp add: upt_rec numeral_eq_Suc)
  note rounds = sha1_round5_fold [where n = 4 and W = ?W and b = ?b, unfolded quad]
  have r0: "fold (sha1_round5 F0 0x5a827999 ?W) [0, 5, 10, 15] r = fold (sha1_step ?b) [0..<20] r" for r
    using rounds [of 0 F0 "0x5a827999" r] by (simp add: fun_eq_iff round_functions sha1_k_def sha1_schedule_eq)
  have r1: "fold (sha1_round5 F1 0x6ed9eba1 ?W) [20, 25, 30, 35] r = fold (sha1_step ?b) [20..<40] r" for r
    using rounds [of 20 F1 "0x6ed9eba1" r] by (simp add: fun_eq_iff round_functions sha1_k_def sha1_schedule_eq)
  have r2: "fold (sha1_round5 F2 0x8f1bbcdc ?W) [40, 45, 50, 55] r = fold (sha1_step ?b) [40..<60] r" for r
    using rounds [of 40 F2 "0x8f1bbcdc" r] by (simp add: fun_eq_iff round_functions sha1_k_def sha1_schedule_eq)
  have r3: "fold (sha1_round5 F3 0xca62c1d6 ?W) [60, 65, 70, 75] r = fold (sha1_step ?b) [60..<80] r" for r
    using rounds [of 60 F3 "0xca62c1d6" r] by (simp add: fun_eq_iff round_functions sha1_k_def sha1_schedule_eq)
  have up: "[0..<80] = [0..<20] @ [20..<40] @ [40..<60] @ [60..<80::nat]"
    using upt_add_eq_append [of 0 20 60] upt_add_eq_append [of 20 40 40] upt_add_eq_append [of 40 60 20] by simp
  show ?thesis
    unfolding csp_sha1_compress_def sha1_block_def up Let_def r0 r1 r2 r3
    by (simp only: fold_append comp_apply split: prod.splits) simp
qed

lemma csp_sha1_compress_frame [simp]:
  "sha_length (csp_sha1_compress sha1 buf) = sha_length sha1"
  "sha_curlen (csp_sha1_compress sha1 buf) = sha_curlen sha1"
  "sha_buf (csp_sha1_compress sha1 buf) = sha_buf sha1"
  by (simp_all add: csp_sha1_compress_def Let_def split: prod.splits)

section \<open>Streaming\<close>

text \<open>Blocks of a message cut at a block boundary.\<close>

lemma sha1_blocks_append:
  "length m mod 64 = 0 \<Longrightarrow> sha1_blocks (m @ n) = sha1_blocks m @ sha1_blocks n"
proof (induction m rule: sha1_blocks.induct)
  case (1 m)
  show ?case
  proof (cases "length m < 64")
    case True
    then have "m = []" using "1.prems" by simp
    then show ?thesis by (simp add: sha1_blocks.simps [of "[]"])
  next
    case False
    then have "length (drop 64 m) mod 64 = 0" using "1.prems" by (simp add: le_mod_geq)
    with False "1.IH" show ?thesis
      by (simp add: sha1_blocks.simps [of "m @ n"] sha1_blocks.simps [of m])
  qed
qed

lemma sha1_blocks_short: "length m < 64 \<Longrightarrow> sha1_blocks m = []"
  by (simp add: sha1_blocks.simps)

lemma sha1_blocks_one: "length m = 64 \<Longrightarrow> sha1_blocks m = [m]"
  by (simp add: sha1_blocks.simps [of m] sha1_blocks_short)

text \<open>
  The state represents the message \<open>m\<close> consumed so far: its full blocks are in the registers
  and counted in bits, the rest is in the buffer.
\<close>

definition sha1_rep :: "csp_sha1_state \<Rightarrow> u8 list \<Rightarrow> bool" where
  "sha1_rep sha1 m \<longleftrightarrow> (\<exists>full rest. m = full @ rest \<and> length full mod 64 = 0 \<and> length rest < 64
     \<and> sha_state sha1 = fold sha1_block (sha1_blocks full) sha1_iv
     \<and> sha_length sha1 = of_nat (8 * length full)
     \<and> sha_curlen sha1 = length rest \<and> mem_read (sha_buf sha1) 0 (length rest) = rest)"

lemma sha1_rep_init: "sha1_rep (csp_sha1_init md) []"
  by (simp add: sha1_rep_def csp_sha1_init_def sha1_iv_def sha1_blocks_short)

text \<open>A block is compressed: directly from the input, or once the buffer is full.\<close>

lemma sha1_compress_full:
  assumes "sha_state sha1 = fold sha1_block (sha1_blocks full) sha1_iv" "length full mod 64 = 0"
    and "sha_length sha1 = of_nat (8 * length full)" "mem_read buf 0 64 = b" "length b = 64"
  shows "sha_state (csp_sha1_compress sha1 buf) = fold sha1_block (sha1_blocks (full @ b)) sha1_iv"
    and "sha_length sha1 + 512 = of_nat (8 * length (full @ b))" and "length (full @ b) mod 64 = 0"
  using assms by (simp_all add: sha1_compress_block sha1_blocks_append sha1_blocks_one algebra_simps)

lemma mem_read_list_mem: "n \<le> length bs \<Longrightarrow> mem_read (list_mem bs) 0 n = take n bs"
  unfolding list_mem_def by (subst mem_write_inside) simp_all

lemma sha1_process_loop_rep:
  "sha1_rep sha1 m \<Longrightarrow> length inp \<le> fuel \<Longrightarrow> sha1_rep (sha1_process_loop fuel sha1 inp) (m @ inp)"
proof (induction fuel arbitrary: sha1 m inp)
  case 0
  then show ?case by simp
next
  case (Suc fuel)
  from Suc.prems(1) obtain full rest where rep: "m = full @ rest" "length full mod 64 = 0" "length rest < 64"
    "sha_state sha1 = fold sha1_block (sha1_blocks full) sha1_iv" "sha_length sha1 = of_nat (8 * length full)"
    "sha_curlen sha1 = length rest" "mem_read (sha_buf sha1) 0 (length rest) = rest"
    by (auto simp: sha1_rep_def)
  consider (empty) "inp = []" | (block) "inp \<noteq> []" "rest = []" "64 \<le> length inp"
    | (partial) "inp \<noteq> []" "rest \<noteq> [] \<or> length inp < 64"
    by linarith
  then show ?case
  proof cases
    case empty
    then show ?thesis using Suc.prems(1) by simp
  next
    case block
    let ?s = "(csp_sha1_compress sha1 (list_mem inp))\<lparr>sha_length := sha_length sha1 + 512\<rparr>"
    have "length (take 64 inp) = 64" "mem_read (list_mem inp) 0 64 = take 64 inp"
      using block by (simp_all add: mem_read_list_mem)
    note full = sha1_compress_full [OF rep(4,2,5) this(2,1)]
    have "sha1_rep ?s (m @ take 64 inp)"
      unfolding sha1_rep_def using full rep block by (intro exI [of _ "full @ take 64 inp"] exI [of _ "[]"]) simp
    from Suc.IH [OF this, of "drop 64 inp"] Suc.prems(2) block rep show ?thesis by simp
  next
    case partial
    let ?n = "min (length inp) (64 - length rest)"
    let ?buf = "mem_write (sha_buf sha1) (length rest) (take ?n inp)"
    let ?s = "sha1\<lparr>sha_buf := ?buf, sha_curlen := length rest + ?n\<rparr>"
    have n: "0 < ?n" using partial(1) rep(3) by simp
    have split: "m @ inp = (m @ take ?n inp) @ drop ?n inp" by simp
    have rd: "mem_read ?buf 0 (length rest + ?n) = rest @ take ?n inp"
      using rep(7) by (simp add: mem_read_append mem_write_disjoint mem_write_same)
    show ?thesis
    proof (cases "length rest + ?n = 64")
      case True
      let ?s' = "(csp_sha1_compress ?s ?buf)\<lparr>sha_length := sha_length sha1 + 512, sha_curlen := 0\<rparr>"
      have "length (rest @ take ?n inp) = 64" "mem_read ?buf 0 64 = rest @ take ?n inp"
        using True rd by simp_all
      note full = sha1_compress_full [of ?s, simplified, OF rep(4,2) _ this(2,1)]
      have "sha1_rep ?s' (m @ take ?n inp)"
        unfolding sha1_rep_def using full rep
        by (intro exI [of _ "full @ rest @ take ?n inp"] exI [of _ "[]"]) simp
      from Suc.IH [OF this, of "drop ?n inp"] Suc.prems(2) n True partial rep(6) show ?thesis
        unfolding split by (auto simp: Let_def)
    next
      case False
      then have lt: "length rest + ?n < 64" using rep(3) by simp
      have "sha1_rep ?s (m @ take ?n inp)"
        unfolding sha1_rep_def using rep lt rd
        by (intro exI [of _ full] exI [of _ "rest @ take ?n inp"]) simp
      from Suc.IH [OF this, of "drop ?n inp"] Suc.prems(2) n False partial rep(6) show ?thesis
        unfolding split by (auto simp: Let_def)
    qed
  qed
qed

lemma csp_sha1_process_stream:
  "sha1_rep sha1 m \<Longrightarrow> sha1_rep (csp_sha1_process sha1 data) (m @ data)"
  unfolding csp_sha1_process_def by (rule sha1_process_loop_rep) simp_all

text \<open>Padding: the last one or two blocks.\<close>

lemma sha1_pad_blocks:
  assumes "m = full @ rest" "length full mod 64 = 0" "length rest < 64"
  shows "sha1_blocks (sha1_pad m) = sha1_blocks full @
    (if length rest < 56
     then [rest @ [0x80] @ replicate (55 - length rest) 0 @ be_bytes 8 (of_nat (8 * length m) :: u64)]
     else [rest @ [0x80] @ replicate (63 - length rest) 0,
           replicate 56 0 @ be_bytes 8 (of_nat (8 * length m) :: u64)])"
proof -
  have mod: "length m mod 64 = length rest" using assms by (simp add: mod_add_left_eq [symmetric])
  let ?l = "be_bytes 8 (of_nat (8 * length m) :: u64)"
  show ?thesis
  proof (cases "length rest < 56")
    case True
    then have "(119 - length rest) mod 64 = 55 - length rest" using assms(3) by (simp add: mod_if)
    then have "sha1_pad m = full @ (rest @ [0x80] @ replicate (55 - length rest) 0 @ ?l)"
      using mod assms(1) by (simp add: sha1_pad_def)
    with True assms(2) show ?thesis by (simp add: sha1_blocks_append sha1_blocks_one)
  next
    case False
    then have "(119 - length rest) mod 64 = (63 - length rest) + 56" using assms(3) by simp
    then have "replicate ((119 - length rest) mod 64) (0 :: u8) = replicate (63 - length rest) 0 @ replicate 56 0"
      by (simp only: replicate_add)
    then have "sha1_pad m = full @ ((rest @ [0x80] @ replicate (63 - length rest) 0) @ (replicate 56 0 @ ?l))"
      using mod assms(1) by (simp add: sha1_pad_def)
    moreover have "length (rest @ [0x80] @ replicate (63 - length rest) 0) = 64" using assms(3) False by simp
    ultimately show ?thesis
      using False assms(2) sha1_blocks_append [of "rest @ [0x80] @ replicate (63 - length rest) 0"]
      by (simp add: sha1_blocks_append sha1_blocks_one)
  qed
qed

text \<open>The bytes collected in the buffer.\<close>

definition buffered :: "csp_sha1_state \<Rightarrow> u8 list \<Rightarrow> bool" where
  "buffered sha1 xs \<longleftrightarrow> sha_curlen sha1 = length xs \<and> mem_read (sha_buf sha1) 0 (length xs) = xs"

lemma buffered_write:
  "buffered sha1 xs \<Longrightarrow> buffered (sha1\<lparr>sha_buf := mem_write (sha_buf sha1) (sha_curlen sha1) ys,
     sha_curlen := sha_curlen sha1 + length ys\<rparr>) (xs @ ys)"
  by (simp add: buffered_def mem_read_append mem_write_disjoint mem_write_same)

lemma buffered_zero_to:
  assumes "buffered sha1 xs" "length xs \<le> n"
  shows "buffered (sha1_zero_to n sha1) (xs @ replicate (n - length xs) 0)"
    and "sha_state (sha1_zero_to n sha1) = sha_state sha1" "sha_length (sha1_zero_to n sha1) = sha_length sha1"
  using assms buffered_write [OF assms(1), of "replicate (n - length xs) 0"]
  by (auto simp: sha1_zero_to_def) (auto simp: buffered_def)

text \<open>The tail of \<open>csp_sha1_done\<close>: zeros to 56 bytes, the length, and the last block.\<close>

lemma sha1_finish:
  assumes "buffered sha1 xs" "length xs \<le> 56"
  shows "sha_state (csp_sha1_compress ((sha1_zero_to 56 sha1)\<lparr>sha_buf := mem_write (sha_buf (sha1_zero_to 56 sha1)) 56
      (STORE64H (sha_length (sha1_zero_to 56 sha1)))\<rparr>)
      (mem_write (sha_buf (sha1_zero_to 56 sha1)) 56 (STORE64H (sha_length (sha1_zero_to 56 sha1)))))
    = sha1_block (xs @ replicate (56 - length xs) 0 @ be_bytes 8 (sha_length sha1)) (sha_state sha1)"
proof -
  let ?z = "sha1_zero_to 56 sha1" and ?l = "be_bytes 8 (sha_length sha1)"
  note z = buffered_zero_to [OF assms]
  have "mem_read (mem_write (sha_buf ?z) 56 ?l) 0 (56 + 8) = (xs @ replicate (56 - length xs) 0) @ ?l"
    using z(1) assms(2) unfolding mem_read_append by (simp add: mem_write_disjoint mem_write_same buffered_def)
  then show ?thesis by (simp add: sha1_compress_block STORE64H_be z(2,3))
qed

lemma csp_sha1_done_ref:
  assumes "sha1_rep sha1 m"
  shows "fst (csp_sha1_done sha1) = sha1_ref m"
proof -
  from assms obtain full rest where rep: "m = full @ rest" "length full mod 64 = 0" "length rest < 64"
    "sha_state sha1 = fold sha1_block (sha1_blocks full) sha1_iv" "sha_length sha1 = of_nat (8 * length full)"
    "sha_curlen sha1 = length rest" "mem_read (sha_buf sha1) 0 (length rest) = rest"
    by (auto simp: sha1_rep_def)
  define s1 where "s1 = (let t = sha1\<lparr>sha_length := sha_length sha1 + of_nat (sha_curlen sha1 * 8)\<rparr>
    in t\<lparr>sha_buf := mem_write (sha_buf t) (sha_curlen t) [0x80], sha_curlen := sha_curlen t + 1\<rparr>)"
  define s2 where "s2 = (if 56 < sha_curlen s1
    then (csp_sha1_compress (sha1_zero_to 64 s1) (sha_buf (sha1_zero_to 64 s1)))\<lparr>sha_curlen := 0\<rparr> else s1)"
  have len: "sha_length sha1 + of_nat (length rest * 8) = of_nat (8 * length m)"
    using rep by (simp add: algebra_simps)
  have s1: "s1 = sha1\<lparr>sha_length := of_nat (8 * length m), sha_buf := mem_write (sha_buf sha1) (length rest) [0x80],
      sha_curlen := Suc (length rest)\<rparr>"
    using len rep(6) by (simp add: s1_def)
  have b1: "buffered s1 (rest @ [0x80])" "sha_curlen s1 = Suc (length rest)"
    using buffered_write [of sha1 rest "[0x80]"] rep(6,7) by (simp_all add: s1 buffered_def)
  define xs where "xs = (if length rest < 56 then rest @ [0x80] else [])"
  have b2: "buffered s2 xs" "length xs \<le> 56" "sha_length s2 = of_nat (8 * length m)"
    using b1 buffered_zero_to(3) [OF b1(1), of 64] rep(3)
    by (auto simp: s2_def xs_def buffered_def) (auto simp: s1)
  have st2: "sha_state s2 = fold sha1_block (if length rest < 56 then []
      else [rest @ [0x80] @ replicate (63 - length rest) 0]) (fold sha1_block (sha1_blocks full) sha1_iv)"
  proof (cases "length rest < 56")
    case False
    then have "mem_read (sha_buf (sha1_zero_to 64 s1)) 0 64 = rest @ [0x80] @ replicate (63 - length rest) 0"
      using buffered_zero_to(1) [OF b1(1), of 64] rep(3) by (simp add: buffered_def)
    with False b1(2) buffered_zero_to(2) [OF b1(1), of 64] rep(3,4) show ?thesis
      by (simp add: s2_def sha1_compress_block s1 [THEN arg_cong [of _ _ sha_state]])
  qed (use b1(2) rep(4) in \<open>simp_all add: s2_def s1\<close>)
  have blocks: "fold sha1_block (sha1_blocks (sha1_pad m)) sha1_iv
      = sha1_block (xs @ replicate (56 - length xs) 0 @ be_bytes 8 (sha_length s2)) (sha_state s2)"
    unfolding sha1_pad_blocks [OF rep(1,2,3)] st2 b2(3) by (simp add: xs_def)
  show ?thesis
    unfolding sha1_ref_def blocks sha1_finish [OF b2(1,2), symmetric]
    unfolding csp_sha1_done_def Let_def s1_def [unfolded Let_def, symmetric] s2_def [symmetric]
    by (simp only: STORE32H_be fst_conv split: prod.splits) simp
qed

section \<open>Properties\<close>

text \<open>C6. SHA-1 is SHA-1: hashing a message in any number of pieces, whatever their lengths,
  gives the textbook hash (padding to 64-byte blocks, eighty steps per block) of the whole
  message; \<open>csp_sha1_memory\<close> is the case of one piece.\<close>

theorem csp_sha1_correct:
  "fst (csp_sha1_done (fold (\<lambda>d sha1. csp_sha1_process sha1 d) pieces (csp_sha1_init md))) = sha1_ref (concat pieces)
   \<and> csp_sha1_memory md msg = sha1_ref msg"
proof -
  have "sha1_rep sha1 m \<Longrightarrow> sha1_rep (fold (\<lambda>d sha1. csp_sha1_process sha1 d) pieces sha1) (m @ concat pieces)"
    for sha1 m pieces
  proof (induction pieces arbitrary: sha1 m)
    case (Cons d ds)
    from Cons.IH [OF csp_sha1_process_stream [OF Cons.prems, of d]] show ?case by simp
  qed simp
  from csp_sha1_done_ref [OF this [OF sha1_rep_init]] csp_sha1_done_ref [OF csp_sha1_process_stream [OF sha1_rep_init]]
  show ?thesis by (simp add: csp_sha1_memory_def)
qed

end
