(* ===== verification/CSP_Queue.thy ===== *)
theory CSP_Queue
  imports CSP_Prelude
begin

text \<open>
  The queue of the POSIX port (\<^verbatim>\<open>src/src/arch/posix/pthread_queue.c\<close> and
  \<^verbatim>\<open>csp_queue.c\<close>): a ring buffer with an insert and an extract index. The interface every
  component uses is the locale \<open>fifo_queue\<close>; the ring buffer is its interpretation
  \<open>csp_q\<close>.

  Each operation holds the queue's mutex, so it is one atomic step. A caller that waits on
  a condition variable is modelled by the outcome of the wait: when the queue is still full
  (or empty) at the deadline the operation fails, and when another task makes room first
  the operation is the step after that task's.
\<close>

section \<open>Deadlines\<close>

text \<open>A \<^verbatim>\<open>struct timespec\<close>; \<^verbatim>\<open>clock_gettime\<close> gives the argument of \<open>get_deadline\<close>.\<close>

record timespec =
  tv_sec :: int
  tv_nsec :: int

definition get_deadline :: "timespec \<Rightarrow> u32 \<Rightarrow> timespec" where
  "get_deadline ts timeout_ms =
     (let sec = timeout_ms div 1000;
          nsec = (timeout_ms - 1000 * sec) * 1000000;
          s' = tv_sec ts + uint sec;
          s'' = (if tv_nsec ts + uint nsec \<ge> 1000000000 then s' + 1 else s')
      in \<lparr>tv_sec = s'', tv_nsec = (tv_nsec ts + uint nsec) mod 1000000000\<rparr>)"

definition timespec_ns :: "timespec \<Rightarrow> int" where
  "timespec_ns ts = tv_sec ts * 1000000000 + tv_nsec ts"

definition timespec_norm :: "timespec \<Rightarrow> bool" where
  "timespec_norm ts \<longleftrightarrow> 0 \<le> tv_nsec ts \<and> tv_nsec ts < 1000000000"

section \<open>The queue interface\<close>

abbreviation (input) CSP_QUEUE_OK :: int where "CSP_QUEUE_OK \<equiv> 0"
abbreviation (input) CSP_QUEUE_ERROR :: int where "CSP_QUEUE_ERROR \<equiv> -1"

text \<open>
  What a client of a queue relies on. \<open>contents\<close> lists the queued items from the oldest
  on, \<open>capacity\<close> is the fixed number of slots.
\<close>

locale fifo_queue =
  fixes enqueue :: "'q \<Rightarrow> 'a \<Rightarrow> int \<times> 'q"
    and dequeue :: "'q \<Rightarrow> 'a option \<times> 'q"
    and size_of :: "'q \<Rightarrow> nat"
    and free_of :: "'q \<Rightarrow> nat"
    and clear :: "'q \<Rightarrow> 'q"
    and contents :: "'q \<Rightarrow> 'a list"
    and capacity :: "'q \<Rightarrow> nat"
    and ok :: "'q \<Rightarrow> bool"
  assumes ok_bound: "ok q \<Longrightarrow> length (contents q) \<le> capacity q"
    and enqueue_room: "ok q \<Longrightarrow> length (contents q) < capacity q \<Longrightarrow>
      fst (enqueue q x) = CSP_QUEUE_OK \<and> contents (snd (enqueue q x)) = contents q @ [x]
      \<and> ok (snd (enqueue q x)) \<and> capacity (snd (enqueue q x)) = capacity q"
    and enqueue_full: "ok q \<Longrightarrow> length (contents q) = capacity q \<Longrightarrow>
      enqueue q x = (CSP_QUEUE_ERROR, q)"
    and dequeue_some: "ok q \<Longrightarrow> contents q = x # xs \<Longrightarrow>
      fst (dequeue q) = Some x \<and> contents (snd (dequeue q)) = xs
      \<and> ok (snd (dequeue q)) \<and> capacity (snd (dequeue q)) = capacity q"
    and dequeue_none: "ok q \<Longrightarrow> contents q = [] \<Longrightarrow> dequeue q = (None, q)"
    and size_of_contents: "ok q \<Longrightarrow> size_of q = length (contents q)"
    and free_of_contents: "ok q \<Longrightarrow> free_of q = capacity q - length (contents q)"
    and clear_contents: "ok q \<Longrightarrow> contents (clear q) = [] \<and> ok (clear q) \<and> capacity (clear q) = capacity q"
begin

lemma enqueue_ok: "ok q \<Longrightarrow> ok (snd (enqueue q x))"
  using ok_bound [of q] enqueue_room [of q x] enqueue_full [of q x]
  by (cases "length (contents q) < capacity q") auto

lemma enqueue_capacity: "ok q \<Longrightarrow> capacity (snd (enqueue q x)) = capacity q"
  using ok_bound [of q] enqueue_room [of q x] enqueue_full [of q x]
  by (cases "length (contents q) < capacity q") auto

lemma dequeue_ok: "ok q \<Longrightarrow> ok (snd (dequeue q))"
  using dequeue_some [of q] dequeue_none [of q] by (cases "contents q") auto

lemma dequeue_capacity: "ok q \<Longrightarrow> capacity (snd (dequeue q)) = capacity q"
  using dequeue_some [of q] dequeue_none [of q] by (cases "contents q") auto

lemma enqueue_cases:
  assumes "ok q"
  obtains (room) q' where "enqueue q x = (CSP_QUEUE_OK, q')" "length (contents q) < capacity q"
      "contents q' = contents q @ [x]" "ok q'" "capacity q' = capacity q"
    | (full) "enqueue q x = (CSP_QUEUE_ERROR, q)" "length (contents q) = capacity q"
proof (cases "length (contents q) < capacity q")
  case True
  obtain r q' where "enqueue q x = (r, q')" by (cases "enqueue q x")
  with room [of q'] enqueue_room [OF assms True, of x] True show thesis by simp
next
  case False
  with ok_bound [OF assms] have "length (contents q) = capacity q" by simp
  with full enqueue_full [OF assms, of x] show thesis by simp
qed

lemma dequeue_cases:
  assumes "ok q"
  obtains (item) x q' where "dequeue q = (Some x, q')" "contents q = x # contents q'" "ok q'"
      "capacity q' = capacity q"
    | (empty) "dequeue q = (None, q)" "contents q = []"
proof (cases "contents q")
  case Nil
  with empty dequeue_none [OF assms] show thesis by simp
next
  case (Cons x xs)
  obtain r q' where "dequeue q = (r, q')" by (cases "dequeue q")
  with item [of x q'] dequeue_some [OF assms Cons] Cons show thesis by simp
qed

lemma enqueue_dequeue_fifo:
  assumes "ok q" and "length (contents q) < capacity q"
  shows "fst (dequeue (snd (enqueue q x))) = Some (case contents q of [] \<Rightarrow> x | y # _ \<Rightarrow> y)"
proof -
  have "contents (snd (enqueue q x)) = contents q @ [x]" "ok (snd (enqueue q x))"
    using enqueue_room [OF assms, of x] by auto
  then show ?thesis
    using dequeue_some [of "snd (enqueue q x)"] by (cases "contents q") auto
qed

end

section \<open>The POSIX ring buffer\<close>

record 'a pthread_queue =
  q_buffer :: "nat \<Rightarrow> 'a"
  q_size :: nat
  q_items :: nat
  q_in :: nat
  q_out :: nat

definition pthread_queue_create :: "nat \<Rightarrow> (nat \<Rightarrow> 'a) \<Rightarrow> 'a pthread_queue" where
  "pthread_queue_create len garbage =
     \<lparr>q_buffer = garbage, q_size = len, q_items = 0, q_in = 0, q_out = 0\<rparr>"

definition wait_slot_available :: "'a pthread_queue \<Rightarrow> int" where
  "wait_slot_available q = (if q_items q = q_size q then CSP_QUEUE_ERROR else CSP_QUEUE_OK)"

definition pthread_queue_enqueue :: "'a pthread_queue \<Rightarrow> 'a \<Rightarrow> int \<times> 'a pthread_queue" where
  "pthread_queue_enqueue q v =
     (let ret = wait_slot_available q
      in if ret = CSP_QUEUE_OK
         then (ret, q\<lparr>q_buffer := (q_buffer q)(q_in q := v), q_items := q_items q + 1,
                      q_in := (q_in q + 1) mod q_size q\<rparr>)
         else (ret, q))"

definition wait_item_available :: "'a pthread_queue \<Rightarrow> int" where
  "wait_item_available q = (if q_items q = 0 then CSP_QUEUE_ERROR else CSP_QUEUE_OK)"

definition pthread_queue_dequeue :: "'a pthread_queue \<Rightarrow> 'a option \<times> 'a pthread_queue" where
  "pthread_queue_dequeue q =
     (let ret = wait_item_available q
      in if ret = CSP_QUEUE_OK
         then (Some (q_buffer q (q_out q)),
               q\<lparr>q_items := q_items q - 1, q_out := (q_out q + 1) mod q_size q\<rparr>)
         else (None, q))"

definition pthread_queue_items :: "'a pthread_queue \<Rightarrow> nat" where
  "pthread_queue_items q = q_items q"

definition pthread_queue_free :: "'a pthread_queue \<Rightarrow> nat" where
  "pthread_queue_free q = q_size q - q_items q"

definition pthread_queue_empty :: "'a pthread_queue \<Rightarrow> 'a pthread_queue" where
  "pthread_queue_empty q = q\<lparr>q_items := 0, q_in := 0, q_out := 0\<rparr>"

text \<open>
  The portable names; the interrupt variants only clear the wake-up flag before they call
  the task variant with no timeout.
\<close>

definition csp_queue_create_static :: "nat \<Rightarrow> (nat \<Rightarrow> 'a) \<Rightarrow> 'a pthread_queue" where
  "csp_queue_create_static len garbage = pthread_queue_create len garbage"

definition csp_queue_enqueue :: "'a pthread_queue \<Rightarrow> 'a \<Rightarrow> int \<times> 'a pthread_queue" where
  "csp_queue_enqueue q v = pthread_queue_enqueue q v"

definition csp_queue_enqueue_isr :: "'a pthread_queue \<Rightarrow> 'a \<Rightarrow> int \<times> 'a pthread_queue" where
  "csp_queue_enqueue_isr q v = csp_queue_enqueue q v"

definition csp_queue_dequeue :: "'a pthread_queue \<Rightarrow> 'a option \<times> 'a pthread_queue" where
  "csp_queue_dequeue q = pthread_queue_dequeue q"

definition csp_queue_dequeue_isr :: "'a pthread_queue \<Rightarrow> 'a option \<times> 'a pthread_queue" where
  "csp_queue_dequeue_isr q = csp_queue_dequeue q"

definition csp_queue_size :: "'a pthread_queue \<Rightarrow> nat" where
  "csp_queue_size q = pthread_queue_items q"

definition csp_queue_free :: "'a pthread_queue \<Rightarrow> nat" where
  "csp_queue_free q = pthread_queue_free q"

definition csp_queue_empty :: "'a pthread_queue \<Rightarrow> 'a pthread_queue" where
  "csp_queue_empty q = pthread_queue_empty q"

section \<open>The ring buffer implements the interface\<close>

definition queue_list :: "'a pthread_queue \<Rightarrow> 'a list" where
  "queue_list q = map (\<lambda>i. q_buffer q ((q_out q + i) mod q_size q)) [0..<q_items q]"

definition queue_ok :: "'a pthread_queue \<Rightarrow> bool" where
  "queue_ok q \<longleftrightarrow> 0 < q_size q \<and> q_items q \<le> q_size q \<and> q_out q < q_size q
     \<and> q_in q = (q_out q + q_items q) mod q_size q"

lemmas csp_queue_defs =
  csp_queue_create_static_def csp_queue_enqueue_def csp_queue_enqueue_isr_def
  csp_queue_dequeue_def csp_queue_dequeue_isr_def csp_queue_size_def csp_queue_free_def
  csp_queue_empty_def pthread_queue_create_def pthread_queue_enqueue_def
  pthread_queue_dequeue_def pthread_queue_items_def pthread_queue_free_def
  pthread_queue_empty_def wait_slot_available_def wait_item_available_def

lemma length_queue_list [simp]: "length (queue_list q) = q_items q"
  by (simp add: queue_list_def)

text \<open>Two distinct offsets below the size land in distinct slots of the ring.\<close>

lemma ring_slot_le:
  fixes out i j n :: nat
  assumes "i \<le> j" "j < n" "(out + i) mod n = (out + j) mod n"
  shows "i = j"
proof -
  have "n dvd (out + j) - (out + i)"
    using assms by (metis add_le_cancel_left mod_eq_dvd_iff_nat)
  then have "n dvd j - i" by simp
  with assms(1,2) show ?thesis
    by (metis diff_is_0_eq dvd_imp_le le_antisym less_imp_diff_less not_gr_zero not_le)
qed

lemma ring_slot_distinct:
  fixes out i j n :: nat
  assumes "i < n" "j < n" "(out + i) mod n = (out + j) mod n"
  shows "i = j"
  using ring_slot_le [of i j n out] ring_slot_le [of j i n out] assms by (cases "i \<le> j") auto

lemma queue_list_enqueue:
  assumes "queue_ok q" and "q_items q < q_size q"
  shows "queue_list (snd (csp_queue_enqueue q v)) = queue_list q @ [v]"
proof -
  have "(q_out q + i) mod q_size q \<noteq> (q_out q + q_items q) mod q_size q" if "i < q_items q" for i
    using ring_slot_distinct [of i "q_size q" "q_items q" "q_out q"] that assms(2) by auto
  then show ?thesis
    using assms by (auto simp: queue_list_def queue_ok_def csp_queue_defs)
qed

lemma queue_ok_enqueue: "queue_ok q \<Longrightarrow> queue_ok (snd (csp_queue_enqueue q v))"
  by (auto simp: queue_ok_def csp_queue_defs mod_Suc_eq)

lemma queue_list_dequeue:
  assumes "queue_ok q" and "queue_list q = x # xs"
  shows "fst (csp_queue_dequeue q) = Some x" and "queue_list (snd (csp_queue_dequeue q)) = xs"
proof -
  have pos: "0 < q_items q"
    using arg_cong [OF assms(2), of length] by simp
  then have split: "[0..<q_items q] = 0 # map Suc [0..<q_items q - 1]"
    by (simp add: upt_conv_Cons map_Suc_upt)
  have slot: "((q_out q + 1) mod q_size q + i) mod q_size q = (q_out q + Suc i) mod q_size q" for i
    by (simp add: mod_simps)
  show "fst (csp_queue_dequeue q) = Some x"
    using assms pos by (auto simp: queue_list_def queue_ok_def csp_queue_defs split)
  show "queue_list (snd (csp_queue_dequeue q)) = xs"
    using assms pos slot by (auto simp: queue_list_def csp_queue_defs split comp_def)
qed

lemma queue_ok_dequeue: "queue_ok q \<Longrightarrow> queue_ok (snd (csp_queue_dequeue q))"
  by (auto simp: queue_ok_def csp_queue_defs mod_simps)

interpretation csp_q: fifo_queue csp_queue_enqueue csp_queue_dequeue csp_queue_size
    csp_queue_free csp_queue_empty queue_list q_size queue_ok
proof
  fix q :: "'a pthread_queue" and x xs
  assume ok: "queue_ok q"
  show "length (queue_list q) \<le> q_size q"
    using ok by (simp add: queue_ok_def)
  show "csp_queue_size q = length (queue_list q)"
    by (simp add: csp_queue_defs)
  show "csp_queue_free q = q_size q - length (queue_list q)"
    by (simp add: csp_queue_defs)
  show "queue_list (csp_queue_empty q) = [] \<and> queue_ok (csp_queue_empty q) \<and> q_size (csp_queue_empty q) = q_size q"
    using ok by (simp add: queue_list_def queue_ok_def csp_queue_defs)
  show "fst (csp_queue_enqueue q x) = CSP_QUEUE_OK \<and> queue_list (snd (csp_queue_enqueue q x)) = queue_list q @ [x]
      \<and> queue_ok (snd (csp_queue_enqueue q x)) \<and> q_size (snd (csp_queue_enqueue q x)) = q_size q"
    if "length (queue_list q) < q_size q"
    using that ok queue_list_enqueue [OF ok] queue_ok_enqueue [OF ok] by (simp add: csp_queue_defs)
  show "csp_queue_enqueue q x = (CSP_QUEUE_ERROR, q)" if "length (queue_list q) = q_size q"
    using that by (simp add: csp_queue_defs)
  show "fst (csp_queue_dequeue q) = Some x \<and> queue_list (snd (csp_queue_dequeue q)) = xs
      \<and> queue_ok (snd (csp_queue_dequeue q)) \<and> q_size (snd (csp_queue_dequeue q)) = q_size q"
    if "queue_list q = x # xs"
    using that ok queue_list_dequeue [OF ok that] queue_ok_dequeue [OF ok] by (auto simp: csp_queue_defs)
  show "csp_queue_dequeue q = (None, q)" if "queue_list q = []"
    using arg_cong [OF that, of length] by (simp add: csp_queue_defs)
qed

lemma csp_queue_create_static_ok [simp]:
  "0 < n \<Longrightarrow> queue_ok (csp_queue_create_static n g)"
  "queue_list (csp_queue_create_static n g) = []"
  "q_size (csp_queue_create_static n g) = n"
  by (simp_all add: queue_ok_def queue_list_def csp_queue_defs)

lemma csp_queue_isr_eq [simp]:
  "csp_queue_enqueue_isr = csp_queue_enqueue" "csp_queue_dequeue_isr = csp_queue_dequeue"
  by (simp_all add: fun_eq_iff csp_queue_enqueue_isr_def csp_queue_dequeue_isr_def)

lemmas csp_queue_cases = csp_q.enqueue_cases csp_q.dequeue_cases

section \<open>Properties\<close>

lemma mod_wrap_once: "n \<le> x \<Longrightarrow> x < 2 * n \<Longrightarrow> x mod n = x - (n :: int)"
  by (metis add_diff_cancel_left' diff_ge_0_iff_ge diff_less_eq minus_mod_self2
      mod_pos_pos_trivial mult_2)

lemma uint_deadline_nsec:
  fixes t :: u32
  shows "uint ((t - 1000 * (t div 1000)) * 1000000) = (uint t mod 1000) * 1000000"
proof -
  have "t - 1000 * (t div 1000) = t mod 1000"
    by (simp add: minus_mult_div_eq_mod)
  moreover have "uint (t mod 1000) = uint t mod 1000"
    by (simp add: uint_mod)
  ultimately show ?thesis
    by (simp add: uint_word_ariths)
qed

text \<open>The deadline of a blocking queue operation: \<open>get_deadline\<close> returns a normalised
  time exactly \<open>timeout_ms\<close> milliseconds after the clock reading, for every 32-bit timeout
  (the nanosecond product never wraps).\<close>

theorem get_deadline_exact:
  assumes "timespec_norm ts"
  shows "timespec_norm (get_deadline ts t)
    \<and> timespec_ns (get_deadline ts t) = timespec_ns ts + uint t * 1000000"
proof -
  define n where "n = (uint t mod 1000) * 1000000"
  have n: "0 \<le> n" "n \<le> 999 * 1000000"
    by (simp_all add: n_def)
  have t: "uint t * 1000000 = (uint t div 1000) * 1000000000 + n"
    unfolding n_def by presburger
  have "uint (t div 1000) = uint t div 1000"
    by (simp add: uint_div)
  with assms n t show ?thesis
    unfolding get_deadline_def timespec_norm_def timespec_ns_def Let_def uint_deadline_nsec n_def [symmetric]
    by (auto simp: mod_pos_pos_trivial mod_wrap_once)
qed

end
