(* ===== verification/CSP_Packet.thy ===== *)
theory CSP_Packet
  imports CSP_Queue
begin

text \<open>
  The data model of \<^verbatim>\<open>csp_types.h\<close> and \<^verbatim>\<open>csp.h\<close>: identifiers, packets, packet
  buffers and the configuration; and the record \<open>csp_core\<close> of the static variables that
  the packet operations work on: configuration, clock, the debug counters of
  \<^verbatim>\<open>csp_debug.c\<close>, the packet pool (the heap every packet pointer points into) and the
  queue of free buffers.
\<close>

section \<open>Identifiers and packets\<close>

record csp_id =
  id_pri :: u8
  id_flags :: u8
  id_src :: u16
  id_dst :: u16
  id_dport :: u8
  id_sport :: u8

abbreviation (input) CSP_FFRAG :: u8 where "CSP_FFRAG \<equiv> 0x10"
abbreviation (input) CSP_FHMAC :: u8 where "CSP_FHMAC \<equiv> 0x08"
abbreviation (input) CSP_FRDP :: u8 where "CSP_FRDP \<equiv> 0x02"
abbreviation (input) CSP_FCRC32 :: u8 where "CSP_FCRC32 \<equiv> 0x01"

text \<open>Compile-time sizes, with the defaults of \<^verbatim>\<open>CMakeLists.txt\<close>.\<close>

abbreviation (input) CSP_BUFFER_SIZE :: nat where "CSP_BUFFER_SIZE \<equiv> 256"
abbreviation (input) CSP_BUFFER_COUNT :: nat where "CSP_BUFFER_COUNT \<equiv> 15"
abbreviation (input) CSP_PACKET_PADDING_BYTES :: nat where "CSP_PACKET_PADDING_BYTES \<equiv> 8"
abbreviation (input) CSP_QFIFO_LEN :: nat where "CSP_QFIFO_LEN \<equiv> 15"
abbreviation (input) CSP_PORT_MAX_BIND :: nat where "CSP_PORT_MAX_BIND \<equiv> 16"
abbreviation (input) CSP_CONN_RXQUEUE_LEN :: nat where "CSP_CONN_RXQUEUE_LEN \<equiv> 16"
abbreviation (input) CSP_CONN_MAX :: nat where "CSP_CONN_MAX \<equiv> 8"
abbreviation (input) CSP_RDP_MAX_WINDOW :: nat where "CSP_RDP_MAX_WINDOW \<equiv> 5"
abbreviation (input) CSP_RTABLE_SIZE :: nat where "CSP_RTABLE_SIZE \<equiv> 10"

text \<open>
  The members \<^verbatim>\<open>header\<close> and \<^verbatim>\<open>data\<close> of a packet are adjacent; \<open>pkt_mem\<close> is both, with
  \<^verbatim>\<open>data\<close> at offset \<open>DATA_OFF\<close> and the end of \<^verbatim>\<open>data\<close> at \<open>DATA_END\<close>.
  \<open>frame_begin\<close> points into the memory of a packet: the address of that packet's buffer
  and the offset in its \<open>pkt_mem\<close>. It need not be the packet's own buffer: a
  \<^verbatim>\<open>memcpy\<close> of the structure copies the pointer.
\<close>

abbreviation (input) DATA_OFF :: nat where "DATA_OFF \<equiv> CSP_PACKET_PADDING_BYTES"
abbreviation (input) DATA_END :: nat where "DATA_END \<equiv> CSP_PACKET_PADDING_BYTES + CSP_BUFFER_SIZE"

record csp_packet =
  timestamp_tx :: u32
  pkt_conn :: "addr option"
  rx_count :: u16
  remain :: u16
  cfpid :: u32
  last_used :: u32
  frame_begin :: "addr \<times> nat"
  frame_length :: u16
  pkt_length :: u16
  pkt_id :: csp_id
  pkt_next :: "addr option"
  pkt_mem :: mem

text \<open>The buffer header \<^verbatim>\<open>csp_skbf_t\<close> of \<^verbatim>\<open>csp_buffer.c\<close>.\<close>

record csp_skbf =
  refcount :: u32
  skbf_addr :: addr
  skbf_data :: csp_packet

definition csp_id_clear :: "csp_id \<Rightarrow> csp_id" where
  "csp_id_clear target = target\<lparr>id_pri := 0, id_dst := 0, id_src := 0, id_dport := 0, id_sport := 0, id_flags := 0\<rparr>"

definition csp_id_copy :: "csp_id \<Rightarrow> csp_id \<Rightarrow> csp_id" where
  "csp_id_copy target source = target\<lparr>id_pri := id_pri source, id_dst := id_dst source,
     id_src := id_src source, id_dport := id_dport source, id_sport := id_sport source,
     id_flags := id_flags source\<rparr>"

lemma csp_id_copy_eq [simp]: "csp_id_copy t i = i"
  by (simp add: csp_id_copy_def)

section \<open>Interfaces\<close>

text \<open>
  \<^verbatim>\<open>struct csp_iface_s\<close> of \<^verbatim>\<open>csp_interface.h\<close>. The function pointer \<^verbatim>\<open>nexthop\<close> is the name of
  the transmit function it was set to (or \<open>Nexthop_user\<close> for one outside the library).
\<close>

datatype nexthop =
    Csp_lo_tx | Csp_can1_tx | Csp_can2_tx | Csp_kiss_tx | Csp_i2c_tx | Csp_eth_tx
  | Csp_if_udp_tx | Csp_if_tun_tx | Csp_zmqhub_tx | Nexthop_user nat

record csp_iface =
  if_addr :: u16
  if_netmask :: u16
  if_name :: "string option"
  interface_data :: "addr option"
  driver_data :: "addr option"
  if_nexthop :: nexthop
  is_default :: u8
  if_tx :: u32
  if_rx :: u32
  if_tx_error :: u32
  if_rx_error :: u32
  if_drop :: u32
  if_autherr :: u32
  if_frame :: u32
  if_txbytes :: u32
  if_rxbytes :: u32
  if_irq :: u32
  if_next :: "addr option"

section \<open>Configuration, clock, counters and packet memory\<close>

record csp_conf =
  version :: u8
  hostname :: string
  model :: string
  revision :: string
  conn_dfl_so :: u32
  dedup :: u8

record csp_core =
  csp_conf :: csp_conf
  csp_ms :: u32
  csp_dbg_buffer_out :: u8
  csp_dbg_errno :: u8
  csp_dbg_conn_out :: u8
  csp_dbg_conn_ovf :: u8
  csp_dbg_can_errno :: u8
  csp_dbg_inval_reply :: u8
  csp_buffer_pool :: "addr \<Rightarrow> csp_skbf"
  csp_buffers :: "addr pthread_queue"

abbreviation (input) CSP_DBG_ERR_CORRUPT_BUFFER :: u8 where "CSP_DBG_ERR_CORRUPT_BUFFER \<equiv> 1"
abbreviation (input) CSP_DBG_ERR_ALREADY_FREE :: u8 where "CSP_DBG_ERR_ALREADY_FREE \<equiv> 3"
abbreviation (input) CSP_DBG_ERR_REFCOUNT :: u8 where "CSP_DBG_ERR_REFCOUNT \<equiv> 4"
abbreviation (input) CSP_DBG_ERR_INVALID_RTABLE_ENTRY :: u8 where "CSP_DBG_ERR_INVALID_RTABLE_ENTRY \<equiv> 6"
abbreviation (input) CSP_DBG_ERR_UNSUPPORTED :: u8 where "CSP_DBG_ERR_UNSUPPORTED \<equiv> 7"
abbreviation (input) CSP_DBG_ERR_INVALID_BIND_PORT :: u8 where "CSP_DBG_ERR_INVALID_BIND_PORT \<equiv> 8"
abbreviation (input) CSP_DBG_ERR_PORT_ALREADY_IN_USE :: u8 where "CSP_DBG_ERR_PORT_ALREADY_IN_USE \<equiv> 9"
abbreviation (input) CSP_DBG_ERR_ALREADY_CLOSED :: u8 where "CSP_DBG_ERR_ALREADY_CLOSED \<equiv> 10"
abbreviation (input) CSP_DBG_ERR_INVALID_POINTER :: u8 where "CSP_DBG_ERR_INVALID_POINTER \<equiv> 11"

text \<open>Reading and updating the packet a pointer points to.\<close>

definition packet :: "csp_core \<Rightarrow> addr \<Rightarrow> csp_packet" where
  "packet s p = skbf_data (csp_buffer_pool s p)"

definition upd_skbf :: "addr \<Rightarrow> (csp_skbf \<Rightarrow> csp_skbf) \<Rightarrow> csp_core \<Rightarrow> csp_core" where
  "upd_skbf p f s = s\<lparr>csp_buffer_pool := (csp_buffer_pool s)(p := f (csp_buffer_pool s p))\<rparr>"

definition upd_packet :: "addr \<Rightarrow> (csp_packet \<Rightarrow> csp_packet) \<Rightarrow> csp_core \<Rightarrow> csp_core" where
  "upd_packet p f s = upd_skbf p (skbf_data_update f) s"

definition csp_version :: "csp_core \<Rightarrow> u8" where
  "csp_version s = version (csp_conf s)"

text \<open>The bytes at \<^verbatim>\<open>frame_begin\<close>, and the first bytes of \<^verbatim>\<open>data\<close>.\<close>

definition frame_bytes :: "csp_core \<Rightarrow> addr \<Rightarrow> nat \<Rightarrow> u8 list" where
  "frame_bytes s p n = (let (b, off) = frame_begin (packet s p) in mem_read (pkt_mem (packet s b)) off n)"

definition data_bytes :: "csp_core \<Rightarrow> addr \<Rightarrow> nat \<Rightarrow> u8 list" where
  "data_bytes s p n = mem_read (pkt_mem (packet s p)) DATA_OFF n"

text \<open>The payload \<^verbatim>\<open>data[0 .. length)\<close> of a packet.\<close>

definition payload :: "csp_core \<Rightarrow> addr \<Rightarrow> u8 list" where
  "payload s p = data_bytes s p (unat (pkt_length (packet s p)))"

text \<open>\<^verbatim>\<open>memcpy(packet->frame_begin + off, bs, n)\<close> and \<^verbatim>\<open>memcpy(&packet->data[off], bs, n)\<close>.\<close>

definition write_frame :: "addr \<Rightarrow> nat \<Rightarrow> u8 list \<Rightarrow> csp_core \<Rightarrow> csp_core" where
  "write_frame p off bs s = (let (b, o') = frame_begin (packet s p)
     in upd_packet b (pkt_mem_update (\<lambda>m. mem_write m (o' + off) bs)) s)"

definition write_data :: "addr \<Rightarrow> nat \<Rightarrow> u8 list \<Rightarrow> csp_core \<Rightarrow> csp_core" where
  "write_data p off bs s = upd_packet p (pkt_mem_update (\<lambda>m. mem_write m (DATA_OFF + off) bs)) s"

lemma length_payload: "length (payload s p) = unat (pkt_length (packet s p))"
  by (simp add: payload_def data_bytes_def)

lemma packet_upd_packet [simp]:
  "packet (upd_packet p f s) q = (if q = p then f (packet s p) else packet s q)"
  by (simp add: packet_def upd_packet_def upd_skbf_def)

lemma upd_packet_frame [simp]:
  "csp_conf (upd_packet p f s) = csp_conf s"
  "csp_ms (upd_packet p f s) = csp_ms s"
  "csp_dbg_buffer_out (upd_packet p f s) = csp_dbg_buffer_out s"
  "csp_dbg_errno (upd_packet p f s) = csp_dbg_errno s"
  "csp_dbg_conn_out (upd_packet p f s) = csp_dbg_conn_out s"
  "csp_dbg_conn_ovf (upd_packet p f s) = csp_dbg_conn_ovf s"
  "csp_version (upd_packet p f s) = csp_version s"
  "csp_dbg_can_errno (upd_packet p f s) = csp_dbg_can_errno s"
  "csp_buffers (upd_packet p f s) = csp_buffers s"
  "refcount (csp_buffer_pool (upd_packet p f s) q) = refcount (csp_buffer_pool s q)"
  "skbf_addr (csp_buffer_pool (upd_packet p f s) q) = skbf_addr (csp_buffer_pool s q)"
  by (simp_all add: upd_packet_def upd_skbf_def csp_version_def)

lemma upd_packet_comp [simp]:
  "upd_packet p f (upd_packet p g s) = upd_packet p (\<lambda>x. f (g x)) s"
  by (simp add: upd_packet_def upd_skbf_def comp_def)

lemma upd_packet_cong: "f (packet s p) = g (packet s p) \<Longrightarrow> upd_packet p f s = upd_packet p g s"
  by (cases "csp_buffer_pool s p") (simp add: upd_packet_def upd_skbf_def packet_def)

end
