(* ===== verification/CSP_Buffer.thy ===== *)
theory CSP_Buffer
  imports CSP_Packet
begin

text \<open>
  The packet buffer pool, \<^verbatim>\<open>src/src/csp_buffer.c\<close>. A packet pointer is the address of its
  buffer (\<^verbatim>\<open>CONTAINER_OF\<close> converts between the two), the free buffers are queued in
  \<open>csp_buffers\<close>. The contract of the pool is the reference count of every buffer
  (\<open>buf_refs\<close>), stated as the locale \<open>refcounted_pool\<close> and interpreted on the operations
  below.
\<close>

section \<open>Operations\<close>

definition zero_id :: csp_id where
  "zero_id = \<lparr>id_pri = 0, id_flags = 0, id_src = 0, id_dst = 0, id_dport = 0, id_sport = 0\<rparr>"

definition zero_packet :: csp_packet where
  "zero_packet = \<lparr>timestamp_tx = 0, pkt_conn = None, rx_count = 0, remain = 0, cfpid = 0, last_used = 0,
     frame_begin = (0, 0), frame_length = 0, pkt_length = 0, pkt_id = zero_id, pkt_next = None,
     pkt_mem = (\<lambda>_. 0)\<rparr>"

text \<open>One round of the loop of \<^verbatim>\<open>csp_buffer_init\<close>: set the self pointer, queue the buffer.\<close>

definition csp_buffer_init_step :: "addr \<Rightarrow> csp_core \<Rightarrow> csp_core" where
  "csp_buffer_init_step i s =
     (let s' = upd_skbf i (\<lambda>b. b\<lparr>skbf_addr := i\<rparr>) s
      in s'\<lparr>csp_buffers := snd (csp_queue_enqueue (csp_buffers s') i)\<rparr>)"

definition csp_buffer_init :: "csp_core \<Rightarrow> csp_core" where
  "csp_buffer_init s =
     fold csp_buffer_init_step [0..<CSP_BUFFER_COUNT]
       (s\<lparr>csp_buffers := csp_queue_create_static CSP_BUFFER_COUNT (q_buffer (csp_buffers s))\<rparr>)"

definition csp_packet_init :: "addr \<Rightarrow> csp_core \<Rightarrow> csp_core" where
  "csp_packet_init p s =
     upd_packet p (\<lambda>_. zero_packet\<lparr>pkt_length := 0, frame_begin := (p, DATA_OFF), frame_length := 0,
       pkt_id := csp_id_clear (pkt_id zero_packet)\<rparr>) s"

definition csp_buffer_get_actual :: "nat \<Rightarrow> bool \<Rightarrow> csp_core \<Rightarrow> addr option \<times> csp_core" where
  "csp_buffer_get_actual reserve isr s =
     (let remain = csp_queue_size (csp_buffers s)
      in if remain < reserve then (None, s)
         else let (b, q) = (if isr then csp_queue_dequeue_isr (csp_buffers s) else csp_queue_dequeue (csp_buffers s));
                  s = s\<lparr>csp_buffers := q\<rparr>
              in case b of
                   None \<Rightarrow> (None, s\<lparr>csp_dbg_buffer_out := csp_dbg_buffer_out s + 1\<rparr>)
                 | Some buf \<Rightarrow>
                     if buf \<noteq> skbf_addr (csp_buffer_pool s buf)
                     then (None, s\<lparr>csp_dbg_errno := CSP_DBG_ERR_CORRUPT_BUFFER\<rparr>)
                     else (Some buf, csp_packet_init buf (upd_skbf buf (\<lambda>b. b\<lparr>refcount := 1\<rparr>) s)))"

definition csp_buffer_free_isr :: "addr option \<Rightarrow> csp_core \<Rightarrow> csp_core" where
  "csp_buffer_free_isr pkt s =
     (case pkt of
        None \<Rightarrow> s
      | Some buf \<Rightarrow>
          if skbf_addr (csp_buffer_pool s buf) \<noteq> buf then s\<lparr>csp_dbg_errno := CSP_DBG_ERR_CORRUPT_BUFFER\<rparr>
          else if refcount (csp_buffer_pool s buf) = 0 then s\<lparr>csp_dbg_errno := CSP_DBG_ERR_ALREADY_FREE\<rparr>
          else let s = upd_skbf buf (\<lambda>b. b\<lparr>refcount := refcount b - 1\<rparr>) s
               in if refcount (csp_buffer_pool s buf) > 0 then s\<lparr>csp_dbg_errno := CSP_DBG_ERR_REFCOUNT\<rparr>
                  else s\<lparr>csp_buffers := snd (csp_queue_enqueue_isr (csp_buffers s) buf)\<rparr>)"

definition csp_buffer_free :: "addr option \<Rightarrow> csp_core \<Rightarrow> csp_core" where
  "csp_buffer_free pkt s =
     (case pkt of
        None \<Rightarrow> s
      | Some buf \<Rightarrow>
          if skbf_addr (csp_buffer_pool s buf) \<noteq> buf then s\<lparr>csp_dbg_errno := CSP_DBG_ERR_CORRUPT_BUFFER\<rparr>
          else if refcount (csp_buffer_pool s buf) = 0 then s\<lparr>csp_dbg_errno := CSP_DBG_ERR_ALREADY_FREE\<rparr>
          else let s = upd_skbf buf (\<lambda>b. b\<lparr>refcount := refcount b - 1\<rparr>) s
               in if refcount (csp_buffer_pool s buf) > 0 then s\<lparr>csp_dbg_errno := CSP_DBG_ERR_REFCOUNT\<rparr>
                  else s\<lparr>csp_buffers := snd (csp_queue_enqueue (csp_buffers s) buf)\<rparr>)"

definition csp_buffer_copy :: "addr option \<Rightarrow> addr option \<Rightarrow> csp_core \<Rightarrow> csp_core" where
  "csp_buffer_copy src dst s =
     (case (src, dst) of
        (Some p, Some d) \<Rightarrow> upd_packet d (\<lambda>_. packet s p) s
      | _ \<Rightarrow> s)"

definition csp_buffer_get :: "csp_core \<Rightarrow> addr option \<times> csp_core" where
  "csp_buffer_get s = csp_buffer_get_actual 2 False s"

definition csp_buffer_get_isr :: "csp_core \<Rightarrow> addr option \<times> csp_core" where
  "csp_buffer_get_isr s = csp_buffer_get_actual 2 True s"

text \<open>
  The \<^verbatim>\<open>always\<close> variants call \<^verbatim>\<open>csp_panic\<close> and then loop forever when no buffer is left:
  the result \<open>None\<close> is the call that never returns.
\<close>

definition csp_buffer_get_always :: "csp_core \<Rightarrow> addr option \<times> csp_core" where
  "csp_buffer_get_always s = csp_buffer_get_actual 0 False s"

definition csp_buffer_get_always_isr :: "csp_core \<Rightarrow> addr option \<times> csp_core" where
  "csp_buffer_get_always_isr s = csp_buffer_get_actual 0 True s"

definition csp_buffer_clone :: "addr option \<Rightarrow> csp_core \<Rightarrow> addr option \<times> csp_core" where
  "csp_buffer_clone pkt s =
     (case pkt of
        None \<Rightarrow> (None, s)
      | Some p \<Rightarrow> let (clone, s) = csp_buffer_get s in (clone, csp_buffer_copy (Some p) clone s))"

definition csp_buffer_refc_inc :: "addr option \<Rightarrow> csp_core \<Rightarrow> csp_core" where
  "csp_buffer_refc_inc buffer s =
     (case buffer of
        None \<Rightarrow> s\<lparr>csp_dbg_errno := CSP_DBG_ERR_INVALID_POINTER\<rparr>
      | Some buf \<Rightarrow>
          if skbf_addr (csp_buffer_pool s buf) \<noteq> buf then s\<lparr>csp_dbg_errno := CSP_DBG_ERR_CORRUPT_BUFFER\<rparr>
          else upd_skbf buf (\<lambda>b. b\<lparr>refcount := refcount b + 1\<rparr>) s)"

definition csp_buffer_remaining :: "csp_core \<Rightarrow> nat" where
  "csp_buffer_remaining s = csp_queue_size (csp_buffers s)"

section \<open>The pool invariant and the reference counts\<close>

definition free_list :: "csp_core \<Rightarrow> addr list" where
  "free_list s = queue_list (csp_buffers s)"

definition buf_inv :: "csp_core \<Rightarrow> bool" where
  "buf_inv s \<longleftrightarrow> queue_ok (csp_buffers s) \<and> q_size (csp_buffers s) = CSP_BUFFER_COUNT
     \<and> distinct (free_list s) \<and> set (free_list s) \<subseteq> {..<CSP_BUFFER_COUNT}
     \<and> (\<forall>i<CSP_BUFFER_COUNT. skbf_addr (csp_buffer_pool s i) = i)
     \<and> (\<forall>i<CSP_BUFFER_COUNT. i \<notin> set (free_list s) \<longrightarrow> refcount (csp_buffer_pool s i) \<noteq> 0)"

text \<open>The number of references to a buffer that the program still holds; 0 for a free one.\<close>

definition buf_refs :: "csp_core \<Rightarrow> addr \<Rightarrow> nat" where
  "buf_refs s p = (if p < CSP_BUFFER_COUNT \<and> p \<notin> set (free_list s)
     then unat (refcount (csp_buffer_pool s p)) else 0)"

lemma buf_invD:
  assumes "buf_inv s"
  shows "queue_ok (csp_buffers s)" "q_size (csp_buffers s) = CSP_BUFFER_COUNT"
    "distinct (free_list s)" "set (free_list s) \<subseteq> {..<CSP_BUFFER_COUNT}"
    "\<And>i. i < CSP_BUFFER_COUNT \<Longrightarrow> skbf_addr (csp_buffer_pool s i) = i"
    "\<And>i. i < CSP_BUFFER_COUNT \<Longrightarrow> i \<notin> set (free_list s) \<Longrightarrow> refcount (csp_buffer_pool s i) \<noteq> 0"
  using assms by (auto simp: buf_inv_def)

lemma buf_refs_pos: "buf_inv s \<Longrightarrow> 0 < buf_refs s p \<longleftrightarrow> p < CSP_BUFFER_COUNT \<and> p \<notin> set (free_list s)"
  using buf_invD(6) [of s p] by (auto simp: buf_refs_def unat_gt_0)

text \<open>Every buffer is either free or referenced: none is lost.\<close>

lemma buf_conservation:
  assumes "buf_inv s"
  shows "length (free_list s) + card {p. 0 < buf_refs s p} = CSP_BUFFER_COUNT"
proof -
  have eq: "{p. 0 < buf_refs s p} = {..<CSP_BUFFER_COUNT} - set (free_list s)"
    using buf_refs_pos [OF assms] by auto
  have "card (set (free_list s)) = length (free_list s)"
    using buf_invD(3) [OF assms] by (rule distinct_card)
  moreover have "card {..<CSP_BUFFER_COUNT} = CSP_BUFFER_COUNT"
    by simp
  ultimately show ?thesis
    using buf_invD(4) [OF assms] card_mono [OF _ buf_invD(4) [OF assms]]
    unfolding eq by (subst card_Diff_subset) auto
qed

lemma csp_buffer_remaining_eq: "csp_buffer_remaining s = length (free_list s)"
  by (simp add: csp_buffer_remaining_def free_list_def csp_queue_defs)

text \<open>Changes to a packet's contents alone.\<close>

lemma upd_packet_pool [simp]:
  "free_list (upd_packet p f s) = free_list s"
  "buf_inv (upd_packet p f s) = buf_inv s"
  "buf_refs (upd_packet p f s) = buf_refs s"
  by (simp_all add: free_list_def buf_inv_def buf_refs_def fun_eq_iff)

lemma dbg_update_pool [simp]:
  "free_list (s\<lparr>csp_dbg_errno := e\<rparr>) = free_list s"
  "buf_inv (s\<lparr>csp_dbg_errno := e\<rparr>) = buf_inv s"
  "buf_refs (s\<lparr>csp_dbg_errno := e\<rparr>) = buf_refs s"
  "packet (s\<lparr>csp_dbg_errno := e\<rparr>) = packet s"
  "free_list (s\<lparr>csp_dbg_buffer_out := n\<rparr>) = free_list s"
  "buf_inv (s\<lparr>csp_dbg_buffer_out := n\<rparr>) = buf_inv s"
  "buf_refs (s\<lparr>csp_dbg_buffer_out := n\<rparr>) = buf_refs s"
  "packet (s\<lparr>csp_dbg_buffer_out := n\<rparr>) = packet s"
  by (simp_all add: free_list_def buf_inv_def buf_refs_def packet_def fun_eq_iff)

lemma csp_buffer_free_isr_eq [simp]: "csp_buffer_free_isr = csp_buffer_free"
  by (intro ext) (simp only: csp_buffer_free_isr_def csp_buffer_free_def csp_queue_isr_eq)

lemma csp_buffer_get_actual_isr [simp]: "csp_buffer_get_actual r True = csp_buffer_get_actual r False"
  by (intro ext) (simp add: csp_buffer_get_actual_def)

lemma csp_buffer_get_variants [simp]:
  "csp_buffer_get_isr = csp_buffer_get" "csp_buffer_get_always_isr = csp_buffer_get_always"
  by (intro ext; simp add: csp_buffer_get_isr_def csp_buffer_get_def csp_buffer_get_always_isr_def
      csp_buffer_get_always_def)+

section \<open>Allocation\<close>

definition fresh_packet :: "addr \<Rightarrow> csp_packet" where
  "fresh_packet p = zero_packet\<lparr>frame_begin := (p, DATA_OFF)\<rparr>"

lemma csp_packet_init_eq: "csp_packet_init p s = upd_packet p (\<lambda>_. fresh_packet p) s"
  by (simp add: csp_packet_init_def fresh_packet_def zero_packet_def zero_id_def csp_id_clear_def)

lemma get_actual_fail:
  assumes "buf_inv s" and "length (free_list s) < reserve \<or> free_list s = []"
  shows "fst (csp_buffer_get_actual reserve isr s) = None
    \<and> free_list (snd (csp_buffer_get_actual reserve isr s)) = free_list s
    \<and> csp_buffer_pool (snd (csp_buffer_get_actual reserve isr s)) = csp_buffer_pool s
    \<and> csp_buffers (snd (csp_buffer_get_actual reserve isr s)) = csp_buffers s"
  using buf_invD(1) [OF assms(1)]
proof (cases rule: csp_q.dequeue_cases)
  case (item x q')
  with assms(2) show ?thesis
    by (cases isr) (auto simp: csp_buffer_get_actual_def free_list_def csp_queue_defs)
next
  case empty
  then show ?thesis
    by (cases isr) (auto simp: csp_buffer_get_actual_def free_list_def csp_queue_size_def
        pthread_queue_items_def)
qed

lemma get_actual_succeed:
  assumes inv: "buf_inv s" and fl: "free_list s = p # ps" and enough: "reserve \<le> length (free_list s)"
  obtains s' where "csp_buffer_get_actual reserve isr s = (Some p, s')"
    "free_list s' = ps" "buf_inv s'" "buf_refs s' = (buf_refs s)(p := 1)"
    "packet s' = (packet s)(p := fresh_packet p)"
    "csp_conf s' = csp_conf s" "csp_ms s' = csp_ms s"
  using buf_invD(1) [OF inv]
proof (cases rule: csp_q.dequeue_cases)
  case (item x q')
  then have x: "x = p" and ps: "queue_list q' = ps"
    using fl by (auto simp: free_list_def)
  have p: "p < CSP_BUFFER_COUNT" "skbf_addr (csp_buffer_pool s p) = p"
    using buf_invD(4,5) [OF inv] fl by auto
  define s' where "s' = csp_packet_init p (upd_skbf p (\<lambda>b. b\<lparr>refcount := 1\<rparr>) (s\<lparr>csp_buffers := q'\<rparr>))"
  have get: "csp_buffer_get_actual reserve isr s = (Some p, s')"
    using item(1) p enough x
    by (cases isr) (simp_all add: csp_buffer_get_actual_def s'_def free_list_def csp_queue_size_def
        pthread_queue_items_def)
  have fl': "free_list s' = ps"
    using ps by (simp add: s'_def csp_packet_init_eq free_list_def upd_skbf_def)
  have dist: "p \<notin> set ps" "distinct ps" "set ps \<subseteq> {..<CSP_BUFFER_COUNT}"
    using buf_invD(3,4) [OF inv] fl by auto
  have pool: "skbf_addr (csp_buffer_pool s' i) = skbf_addr (csp_buffer_pool s i)"
    "refcount (csp_buffer_pool s' i) = (if i = p then 1 else refcount (csp_buffer_pool s i))" for i
    by (simp_all add: s'_def csp_packet_init_eq upd_skbf_def)
  have inv': "buf_inv s'"
    using inv item fl' dist pool fl
    by (auto simp: buf_inv_def s'_def csp_packet_init_eq upd_skbf_def)
  have refs: "buf_refs s' = (buf_refs s)(p := 1)"
    using dist p fl by (auto simp: buf_refs_def fl' pool fun_eq_iff)
  have pkt: "packet s' = (packet s)(p := fresh_packet p)"
    by (auto simp: s'_def csp_packet_init_eq packet_def upd_packet_def upd_skbf_def)
  show thesis
    by (rule that [OF get fl' inv' refs pkt]) (simp_all add: s'_def csp_packet_init_eq upd_skbf_def)
next
  case empty
  with fl show thesis by (simp add: free_list_def)
qed

section \<open>Release\<close>

lemma free_last_ref:
  assumes inv: "buf_inv s" and refs: "buf_refs s p = 1"
  obtains s' where "csp_buffer_free (Some p) s = s'" "free_list s' = free_list s @ [p]"
    "buf_inv s'" "buf_refs s' = (buf_refs s)(p := 0)" "packet s' = packet s"
    "refcount (csp_buffer_pool s' p) = 0"
    "csp_conf s' = csp_conf s" "csp_ms s' = csp_ms s"
proof -
  have p: "p < CSP_BUFFER_COUNT" "p \<notin> set (free_list s)"
    using buf_refs_pos [OF inv, of p] refs by auto
  have "unat (refcount (csp_buffer_pool s p)) = 1"
    using refs p by (simp add: buf_refs_def)
  then have one: "refcount (csp_buffer_pool s p) = 1"
    by (metis unat_1 word_unat_eq_iff)
  have "length (free_list s) < CSP_BUFFER_COUNT"
    using buf_conservation [OF inv] refs
    by (metis (mono_tags, lifting) card_gt_0_iff emptyE finite_nat_set_iff_bounded mem_Collect_eq
        less_add_same_cancel1 buf_refs_pos [OF inv] zero_less_one)
  then have room: "length (queue_list (csp_buffers s)) < q_size (csp_buffers s)"
    using buf_invD(2) [OF inv] by (simp add: free_list_def)
  note enq = csp_q.enqueue_room [OF buf_invD(1) [OF inv] room, of p]
  define s' where "s' = (upd_skbf p (\<lambda>b. b\<lparr>refcount := refcount b - 1\<rparr>) s)
     \<lparr>csp_buffers := snd (csp_queue_enqueue (csp_buffers s) p)\<rparr>"
  have fr: "csp_buffer_free (Some p) s = s'"
    using one buf_invD(5) [OF inv p(1)] by (simp add: csp_buffer_free_def s'_def upd_skbf_def)
  have fl: "free_list s' = free_list s @ [p]"
    using enq by (simp add: s'_def free_list_def upd_skbf_def)
  have pool: "skbf_addr (csp_buffer_pool s' i) = skbf_addr (csp_buffer_pool s i)"
    "refcount (csp_buffer_pool s' i) = (if i = p then 0 else refcount (csp_buffer_pool s i))" for i
    using one by (simp_all add: s'_def upd_skbf_def)
  have inv': "buf_inv s'"
    using inv enq fl p pool by (auto simp: buf_inv_def s'_def upd_skbf_def)
  have refs': "buf_refs s' = (buf_refs s)(p := 0)"
    by (auto simp: buf_refs_def fl pool fun_eq_iff)
  have pkt: "packet s' = packet s"
    by (auto simp: s'_def packet_def upd_skbf_def)
  show thesis
    by (rule that [OF fr fl inv' refs' pkt]) (simp_all add: pool, simp_all add: s'_def upd_skbf_def)
qed

lemma free_shared_ref:
  assumes inv: "buf_inv s" and refs: "1 < buf_refs s p"
  obtains s' where "csp_buffer_free (Some p) s = s'" "free_list s' = free_list s"
    "buf_inv s'" "buf_refs s' = (buf_refs s)(p := buf_refs s p - 1)" "packet s' = packet s"
    "csp_conf s' = csp_conf s" "csp_ms s' = csp_ms s"
proof -
  have p: "p < CSP_BUFFER_COUNT" "p \<notin> set (free_list s)"
    using buf_refs_pos [OF inv, of p] refs by auto
  have gt: "1 < unat (refcount (csp_buffer_pool s p))"
    using refs p by (simp add: buf_refs_def)
  then have "(1 :: u32) \<le> refcount (csp_buffer_pool s p)"
    by (simp add: word_le_nat_alt)
  then have sub: "unat (refcount (csp_buffer_pool s p) - 1) = unat (refcount (csp_buffer_pool s p)) - 1"
    by (simp add: unat_diff_small)
  with gt have nz: "0 < refcount (csp_buffer_pool s p) - 1"
    by (metis One_nat_def unat_gt_0 word_neq_0_conv zero_less_diff)
  define s' where "s' = (upd_skbf p (\<lambda>b. b\<lparr>refcount := refcount b - 1\<rparr>) s)\<lparr>csp_dbg_errno := CSP_DBG_ERR_REFCOUNT\<rparr>"
  have fr: "csp_buffer_free (Some p) s = s'"
    using gt nz buf_invD(5) [OF inv p(1)]
    by (auto simp: csp_buffer_free_def s'_def upd_skbf_def)
  have fl: "free_list s' = free_list s"
    by (simp add: s'_def free_list_def upd_skbf_def)
  have pool: "skbf_addr (csp_buffer_pool s' i) = skbf_addr (csp_buffer_pool s i)"
    "refcount (csp_buffer_pool s' i) = (if i = p then refcount (csp_buffer_pool s p) - 1
       else refcount (csp_buffer_pool s i))" for i
    by (simp_all add: s'_def upd_skbf_def)
  have inv': "buf_inv s'"
    using inv nz fl pool by (auto simp: buf_inv_def s'_def upd_skbf_def)
  have refs': "buf_refs s' = (buf_refs s)(p := buf_refs s p - 1)"
    using sub p by (auto simp: buf_refs_def fl pool fun_eq_iff)
  have pkt: "packet s' = packet s"
    by (auto simp: s'_def packet_def upd_skbf_def)
  show thesis
    by (rule that [OF fr fl inv' refs' pkt]) (simp_all add: s'_def upd_skbf_def)
qed

lemma free_again:
  assumes "buf_inv s" and "p < CSP_BUFFER_COUNT" and "refcount (csp_buffer_pool s p) = 0"
  shows "csp_buffer_free (Some p) s = s\<lparr>csp_dbg_errno := CSP_DBG_ERR_ALREADY_FREE\<rparr>"
  using assms buf_invD(5) [OF assms(1,2)] by (simp add: csp_buffer_free_def)

lemma refc_inc_ref:
  assumes inv: "buf_inv s" and refs: "0 < buf_refs s p" and nowrap: "buf_refs s p < 2 ^ 32 - 1"
  shows "buf_inv (csp_buffer_refc_inc (Some p) s)
    \<and> buf_refs (csp_buffer_refc_inc (Some p) s) = (buf_refs s)(p := buf_refs s p + 1)"
proof -
  have p: "p < CSP_BUFFER_COUNT" "p \<notin> set (free_list s)"
    using buf_refs_pos [OF inv, of p] refs by auto
  have r: "buf_refs s p = unat (refcount (csp_buffer_pool s p))"
    using p by (simp add: buf_refs_def)
  have "unat (refcount (csp_buffer_pool s p)) + 1 < 2 ^ 32"
    using nowrap unfolding r by simp
  then have inc: "unat (refcount (csp_buffer_pool s p) + 1) = Suc (unat (refcount (csp_buffer_pool s p)))"
    by (intro unat_Suc_small) simp
  then have nz: "refcount (csp_buffer_pool s p) + 1 \<noteq> 0"
    by (metis nat.distinct(1) unat_0)
  define s' where "s' = upd_skbf p (\<lambda>b. b\<lparr>refcount := refcount b + 1\<rparr>) s"
  have eq: "csp_buffer_refc_inc (Some p) s = s'"
    using buf_invD(5) [OF inv p(1)] by (simp add: csp_buffer_refc_inc_def s'_def)
  have fl: "free_list s' = free_list s"
    by (simp add: s'_def free_list_def upd_skbf_def)
  have pool: "skbf_addr (csp_buffer_pool s' i) = skbf_addr (csp_buffer_pool s i)"
    "refcount (csp_buffer_pool s' i) = (if i = p then refcount (csp_buffer_pool s p) + 1
       else refcount (csp_buffer_pool s i))" for i
    by (simp_all add: s'_def upd_skbf_def)
  have "buf_inv s'"
    using inv nz fl pool by (auto simp: buf_inv_def s'_def upd_skbf_def)
  moreover have "buf_refs s' = (buf_refs s)(p := buf_refs s p + 1)"
    using inc p by (auto simp: buf_refs_def fl pool fun_eq_iff)
  ultimately show ?thesis using eq by simp
qed

section \<open>Initialisation\<close>

lemma csp_buffer_init_prefix:
  fixes s :: csp_core
  assumes "k \<le> CSP_BUFFER_COUNT"
  defines "t \<equiv> fold csp_buffer_init_step [0..<k]
    (s\<lparr>csp_buffers := csp_queue_create_static CSP_BUFFER_COUNT (q_buffer (csp_buffers s))\<rparr>)"
  shows "queue_ok (csp_buffers t) \<and> q_size (csp_buffers t) = CSP_BUFFER_COUNT
    \<and> free_list t = [0..<k] \<and> (\<forall>i<k. skbf_addr (csp_buffer_pool t i) = i)"
  using assms(1) unfolding t_def
proof (induction k)
  case 0
  show ?case by (simp add: free_list_def)
next
  case (Suc k)
  define u where "u = fold csp_buffer_init_step [0..<k]
    (s\<lparr>csp_buffers := csp_queue_create_static CSP_BUFFER_COUNT (q_buffer (csp_buffers s))\<rparr>)"
  have IH: "queue_ok (csp_buffers u)" "q_size (csp_buffers u) = CSP_BUFFER_COUNT"
    "free_list u = [0..<k]" "\<forall>i<k. skbf_addr (csp_buffer_pool u i) = i"
    using Suc by (auto simp: u_def)
  have room: "length (queue_list (csp_buffers u)) < q_size (csp_buffers u)"
    using IH Suc.prems arg_cong [OF IH(3), of length] by (simp add: free_list_def)
  note enq = csp_q.enqueue_room [OF IH(1) room, of k]
  have step: "fold csp_buffer_init_step [0..<Suc k]
      (s\<lparr>csp_buffers := csp_queue_create_static CSP_BUFFER_COUNT (q_buffer (csp_buffers s))\<rparr>)
    = csp_buffer_init_step k u"
    by (simp add: u_def)
  show ?case
    unfolding step using IH enq by (auto simp: csp_buffer_init_step_def upd_skbf_def free_list_def less_Suc_eq)
qed

lemma csp_buffer_init_inv: "buf_inv (csp_buffer_init s)"
  and csp_buffer_init_free: "free_list (csp_buffer_init s) = [0..<CSP_BUFFER_COUNT]"
  using csp_buffer_init_prefix [of CSP_BUFFER_COUNT s]
  by (auto simp: buf_inv_def csp_buffer_init_def)

section \<open>The contract of a reference-counted pool\<close>

locale refcounted_pool =
  fixes get :: "'s \<Rightarrow> addr option \<times> 's"
    and release :: "addr option \<Rightarrow> 's \<Rightarrow> 's"
    and inv :: "'s \<Rightarrow> bool"
    and refs :: "'s \<Rightarrow> addr \<Rightarrow> nat"
  assumes get_none: "inv s \<Longrightarrow> get s = (None, s') \<Longrightarrow> inv s' \<and> refs s' = refs s"
    and get_some: "inv s \<Longrightarrow> get s = (Some p, s') \<Longrightarrow>
      inv s' \<and> refs s p = 0 \<and> refs s' = (refs s)(p := 1)"
    and release_null: "release None s = s"
    and release_some: "inv s \<Longrightarrow> 0 < refs s p \<Longrightarrow>
      inv (release (Some p) s) \<and> refs (release (Some p) s) = (refs s)(p := refs s p - 1)"
begin

lemma get_inv: "inv s \<Longrightarrow> inv (snd (get s))"
  using get_none [of s "snd (get s)"] get_some [of s _ "snd (get s)"]
  by (cases "fst (get s)") (simp_all add: prod_eq_iff)

lemma get_release: "inv s \<Longrightarrow> get s = (Some p, s') \<Longrightarrow> refs (release (Some p) s') = refs s"
  using get_some [of s p s'] release_some [of s' p] by (auto simp: fun_eq_iff)

lemma release_all:
  "inv s \<Longrightarrow> distinct ps \<Longrightarrow> \<forall>p\<in>set ps. refs s p = 1 \<Longrightarrow>
     inv (fold (\<lambda>p. release (Some p)) ps s)
     \<and> refs (fold (\<lambda>p. release (Some p)) ps s) = (\<lambda>p. if p \<in> set ps then 0 else refs s p)"
proof (induction ps arbitrary: s)
  case Nil
  then show ?case by simp
next
  case (Cons p ps)
  from Cons.prems release_some [of s p]
  have step: "inv (release (Some p) s)" "refs (release (Some p) s) = (refs s)(p := 0)"
    by auto
  moreover have "\<forall>q\<in>set ps. refs (release (Some p) s) q = 1"
    using Cons.prems step(2) by auto
  ultimately have "inv (fold (\<lambda>p. release (Some p)) ps (release (Some p) s))
     \<and> refs (fold (\<lambda>p. release (Some p)) ps (release (Some p) s))
       = (\<lambda>q. if q \<in> set ps then 0 else refs (release (Some p) s) q)"
    using Cons.prems by (intro Cons.IH) auto
  then show ?case
    by (auto simp: step(2) fun_eq_iff)
qed

end

lemma get_actual_pool:
  assumes "buf_inv s" and get: "csp_buffer_get_actual r isr s = (res, s')"
  shows "(res = None \<longrightarrow> buf_inv s' \<and> buf_refs s' = buf_refs s)
    \<and> (\<forall>p. res = Some p \<longrightarrow> buf_inv s' \<and> buf_refs s p = 0 \<and> buf_refs s' = (buf_refs s)(p := 1))"
proof (cases "length (free_list s) < r \<or> free_list s = []")
  case True
  have "buf_inv s' \<and> buf_refs s' = buf_refs s"
    using get_actual_fail [OF assms(1) True, of isr] get assms(1)
    by (simp add: buf_inv_def buf_refs_def fun_eq_iff)
  then show ?thesis
    using get_actual_fail [OF assms(1) True, of isr] get by simp
next
  case False
  then obtain p ps where fl: "free_list s = p # ps" and "r \<le> length (free_list s)"
    by (cases "free_list s") auto
  then obtain t where t: "csp_buffer_get_actual r isr s = (Some p, t)" "buf_inv t"
      "buf_refs t = (buf_refs s)(p := 1)"
    using get_actual_succeed [OF assms(1) fl] by metis
  moreover have "buf_refs s p = 0"
    using fl by (simp add: buf_refs_def)
  ultimately show ?thesis using get by auto
qed

lemma free_pool:
  assumes "buf_inv s" and "0 < buf_refs s p"
  shows "buf_inv (csp_buffer_free (Some p) s)
    \<and> buf_refs (csp_buffer_free (Some p) s) = (buf_refs s)(p := buf_refs s p - 1)"
proof (cases "buf_refs s p = 1")
  case True
  with free_last_ref [OF assms(1) True] show ?thesis by auto
next
  case False
  with assms(2) have "1 < buf_refs s p" by simp
  with free_shared_ref [OF assms(1)] show ?thesis by auto
qed

lemma get_actual_refcounted:
  "refcounted_pool (csp_buffer_get_actual r isr) csp_buffer_free buf_inv buf_refs"
proof
  fix s s' :: csp_core and p
  assume inv: "buf_inv s"
  show "buf_inv s' \<and> buf_refs s' = buf_refs s" if "csp_buffer_get_actual r isr s = (None, s')"
    using get_actual_pool [OF inv that] by simp
  show "buf_inv s' \<and> buf_refs s p = 0 \<and> buf_refs s' = (buf_refs s)(p := 1)"
    if "csp_buffer_get_actual r isr s = (Some p, s')"
    using get_actual_pool [OF inv that] by simp
  show "buf_inv (csp_buffer_free (Some p) s)
      \<and> buf_refs (csp_buffer_free (Some p) s) = (buf_refs s)(p := buf_refs s p - 1)"
    if "0 < buf_refs s p"
    using free_pool [OF inv that] .
qed (simp add: csp_buffer_free_def)

interpretation buf: refcounted_pool csp_buffer_get csp_buffer_free buf_inv buf_refs
  unfolding csp_buffer_get_def [abs_def] by (rule get_actual_refcounted)

interpretation buf_always: refcounted_pool csp_buffer_get_always csp_buffer_free buf_inv buf_refs
  unfolding csp_buffer_get_always_def [abs_def] by (rule get_actual_refcounted)

section \<open>Clones\<close>

lemma csp_buffer_clone_none:
  assumes "buf_inv s" and "length (free_list s) < 2"
  obtains s' where "csp_buffer_clone (Some p) s = (None, s')" "free_list s' = free_list s"
    "buf_inv s'" "buf_refs s' = buf_refs s" "packet s' = packet s"
proof -
  have "length (free_list s) < 2 \<or> free_list s = []" using assms(2) by simp
  note fail = get_actual_fail [OF assms(1) this, of False]
  then show thesis
    using assms(1) by (intro that [of "snd (csp_buffer_get s)"])
      (auto simp: csp_buffer_clone_def csp_buffer_get_def csp_buffer_copy_def split_beta
        buf_inv_def buf_refs_def packet_def fun_eq_iff)
qed

lemma csp_buffer_clone_some:
  assumes inv: "buf_inv s" and fl: "free_list s = c # c' # cs"
  obtains s' where "csp_buffer_clone (Some p) s = (Some c, s')" "free_list s' = c' # cs"
    "buf_inv s'" "buf_refs s' = (buf_refs s)(c := 1)"
    "packet s' = (packet s)(c := (if p = c then fresh_packet c else packet s p))"
proof -
  obtain t where t: "csp_buffer_get_actual 2 False s = (Some c, t)" "free_list t = c' # cs"
      "buf_inv t" "buf_refs t = (buf_refs s)(c := 1)" "packet t = (packet s)(c := fresh_packet c)"
    using get_actual_succeed [OF inv fl, of 2 False] fl by auto
  show thesis
  proof (rule that)
    show "csp_buffer_clone (Some p) s = (Some c, csp_buffer_copy (Some p) (Some c) t)"
      using t(1) by (simp add: csp_buffer_clone_def csp_buffer_get_def)
  qed (use t in \<open>auto simp: csp_buffer_copy_def\<close>)
qed

section \<open>Properties\<close>

text \<open>
  The states of the pool a program can bring about: it starts from \<^verbatim>\<open>csp_buffer_init\<close>,
  takes buffers with any of the four allocation functions, changes packets it holds,
  copies the reference of one, and gives back references it holds; a reference given back
  twice is rejected. (A buffer has fewer than \<open>2 ^ 32 - 1\<close> holders.)
\<close>

inductive pool_reach :: "csp_core \<Rightarrow> bool" where
  init: "pool_reach (csp_buffer_init s)"
| get: "pool_reach s \<Longrightarrow> pool_reach (snd (csp_buffer_get_actual r isr s))"
| clone: "pool_reach s \<Longrightarrow> pool_reach (snd (csp_buffer_clone (Some p) s))"
| change: "pool_reach s \<Longrightarrow> 0 < buf_refs s p \<Longrightarrow> pool_reach (upd_packet p f s)"
| share: "pool_reach s \<Longrightarrow> 0 < buf_refs s p \<Longrightarrow> buf_refs s p < 2 ^ 32 - 1 \<Longrightarrow>
    pool_reach (csp_buffer_refc_inc (Some p) s)"
| release: "pool_reach s \<Longrightarrow> 0 < buf_refs s p \<Longrightarrow> pool_reach (csp_buffer_free (Some p) s)"
| again: "pool_reach s \<Longrightarrow> p < CSP_BUFFER_COUNT \<Longrightarrow> refcount (csp_buffer_pool s p) = 0 \<Longrightarrow>
    pool_reach (csp_buffer_free (Some p) s)"

lemma csp_buffer_clone_inv: "buf_inv s \<Longrightarrow> buf_inv (snd (csp_buffer_clone (Some p) s))"
  using buf.get_inv [of s]
  by (auto simp: csp_buffer_clone_def csp_buffer_copy_def split_beta split: option.splits)

lemma pool_reach_buf_inv: "pool_reach s \<Longrightarrow> buf_inv s"
proof (induction rule: pool_reach.induct)
  case (init s)
  show ?case by (rule csp_buffer_init_inv)
next
  case (get s r isr)
  then show ?case
    using refcounted_pool.get_inv [OF get_actual_refcounted] by blast
next
  case (clone s p)
  then show ?case using csp_buffer_clone_inv by blast
next
  case (change s p f)
  then show ?case by simp
next
  case (share s p)
  then show ?case using refc_inc_ref by blast
next
  case (release s p)
  then show ?case using free_pool by blast
next
  case (again s p)
  then show ?case using free_again by simp
qed

text \<open>C1. No packet buffer is ever lost or handed out twice: in every reachable state of the
  pool the free queue holds distinct valid buffers, every buffer outside it has a nonzero
  reference count, and the number of free buffers and the number of referenced ones add
  up to the size of the pool.\<close>

theorem pool_conservation:
  assumes "pool_reach s"
  shows "buf_inv s \<and> csp_buffer_remaining s + card {p. 0 < buf_refs s p} = CSP_BUFFER_COUNT"
  using pool_reach_buf_inv [OF assms] buf_conservation by (simp add: csp_buffer_remaining_eq)

text \<open>A concrete start state, for the witnesses: all static memory zero.\<close>

definition conf0 :: csp_conf where
  "conf0 = \<lparr>version = 2, hostname = [], model = [], revision = [], conn_dfl_so = 0, dedup = 0\<rparr>"

definition core0 :: csp_core where
  "core0 = \<lparr>csp_conf = conf0, csp_ms = 0, csp_dbg_buffer_out = 0, csp_dbg_errno = 0, csp_dbg_conn_out = 0,
     csp_dbg_conn_ovf = 0, csp_dbg_can_errno = 0, csp_dbg_inval_reply = 0,
     csp_buffer_pool = (\<lambda>_. \<lparr>refcount = 0, skbf_addr = 0, skbf_data = zero_packet\<rparr>),
     csp_buffers = csp_queue_create_static CSP_BUFFER_COUNT (\<lambda>_. 0)\<rparr>"

abbreviation core1 :: csp_core where "core1 \<equiv> csp_buffer_init core0"

theorem pool_conservation_witness:
  "csp_buffer_remaining (snd (csp_buffer_get_actual 0 False core1))
   + card {p. 0 < buf_refs (snd (csp_buffer_get_actual 0 False core1)) p} = CSP_BUFFER_COUNT"
  using pool_conservation [OF pool_reach.get [OF pool_reach.init [of core0], of 0 False]] by simp

text \<open>\<open>csp_buffer_get\<close> either takes the oldest free buffer, initialised and with one
  reference, or fails and changes neither the pool nor the queue; it succeeds exactly when
  two buffers are left, so one buffer always stays in reserve.\<close>

theorem csp_buffer_get_spec:
  assumes "buf_inv s"
  shows "case csp_buffer_get s of
      (None, s') \<Rightarrow> csp_buffer_remaining s < 2 \<and> free_list s' = free_list s \<and> packet s' = packet s
    | (Some p, s') \<Rightarrow> 2 \<le> csp_buffer_remaining s \<and> free_list s = p # free_list s'
        \<and> 1 \<le> csp_buffer_remaining s' \<and> buf_refs s p = 0 \<and> buf_refs s' = (buf_refs s)(p := 1)
        \<and> packet s' = (packet s)(p := fresh_packet p) \<and> buf_inv s'"
proof (cases "length (free_list s) < 2")
  case True
  then have "length (free_list s) < 2 \<or> free_list s = []" by simp
  from get_actual_fail [OF assms this, of False] True show ?thesis
    by (cases "csp_buffer_get s") (simp add: csp_buffer_get_def csp_buffer_remaining_eq packet_def fun_eq_iff)
next
  case False
  then obtain p p' ps where fl: "free_list s = p # p' # ps"
    by (cases "free_list s"; cases "tl (free_list s)") auto
  obtain s' where "csp_buffer_get_actual 2 False s = (Some p, s')" "free_list s' = p' # ps" "buf_inv s'"
    "buf_refs s' = (buf_refs s)(p := 1)" "packet s' = (packet s)(p := fresh_packet p)"
    using get_actual_succeed [OF assms fl, of 2 False] fl by auto
  then show ?thesis
    using fl by (simp add: csp_buffer_get_def csp_buffer_remaining_eq buf_refs_def)
qed

text \<open>Giving a buffer back twice is caught: after the last reference is released the
  buffer is queued exactly once, and a second release of the same pointer changes nothing
  but the error number.\<close>

theorem csp_buffer_double_free:
  assumes "buf_inv s" and "buf_refs s p = 1"
  shows "count_list (free_list (csp_buffer_free (Some p) s)) p = 1
    \<and> csp_buffer_free (Some p) (csp_buffer_free (Some p) s)
      = (csp_buffer_free (Some p) s)\<lparr>csp_dbg_errno := CSP_DBG_ERR_ALREADY_FREE\<rparr>"
proof -
  obtain s' where s': "csp_buffer_free (Some p) s = s'" "free_list s' = free_list s @ [p]" "buf_inv s'"
    "refcount (csp_buffer_pool s' p) = 0"
    using free_last_ref [OF assms] by metis
  have p: "p < CSP_BUFFER_COUNT" "p \<notin> set (free_list s)"
    using buf_refs_pos [OF assms(1), of p] assms(2) by auto
  then have "count_list (free_list s @ [p]) p = 1"
    by (simp add: count_list_0_iff)
  with s' free_again [OF s'(3) p(1) s'(4)] show ?thesis by simp
qed

end
