(* ===== verification/CSP_Id.thy ===== *)
theory CSP_Id
  imports CSP_Buffer
begin

text \<open>
  Packing and parsing of the CSP identifier, \<^verbatim>\<open>src/src/csp_id.c\<close>: the 32-bit header of
  CSP 1.x and the 48-bit header of CSP 2.x, written in front of the packet data
  (\<^verbatim>\<open>prepend\<close>) and read back (\<^verbatim>\<open>strip\<close>), and the address helpers.
\<close>

section \<open>CSP 1.x\<close>

abbreviation (input) CSP_ID1_HOST_SIZE :: nat where "CSP_ID1_HOST_SIZE \<equiv> 5"
abbreviation (input) CSP_ID1_PORT_SIZE :: nat where "CSP_ID1_PORT_SIZE \<equiv> 6"
abbreviation (input) CSP_ID1_HEADER_SIZE :: nat where "CSP_ID1_HEADER_SIZE \<equiv> 4"
abbreviation (input) CSP_ID2_HOST_SIZE :: nat where "CSP_ID2_HOST_SIZE \<equiv> 14"
abbreviation (input) CSP_ID2_PORT_SIZE :: nat where "CSP_ID2_PORT_SIZE \<equiv> 6"
abbreviation (input) CSP_ID2_HEADER_SIZE :: nat where "CSP_ID2_HEADER_SIZE \<equiv> 6"

definition id1_raw :: "csp_id \<Rightarrow> u32" where
  "id1_raw i = push_bit 30 (ucast (id_pri i)) OR push_bit 20 (ucast (id_dst i))
     OR push_bit 25 (ucast (id_src i)) OR push_bit 14 (ucast (id_dport i))
     OR push_bit 8 (ucast (id_sport i)) OR push_bit 0 (ucast (id_flags i))"

definition csp_id1_prepend :: "addr \<Rightarrow> bool \<Rightarrow> csp_core \<Rightarrow> csp_core" where
  "csp_id1_prepend p cspv1_fixup s =
     (let raw = id1_raw (pkt_id (packet s p));
          id1 = be_bytes 4 raw;
          id1 = (if cspv1_fixup then le_bytes 4 raw else id1);
          s = upd_packet p (\<lambda>k. k\<lparr>frame_begin := (p, DATA_OFF - CSP_ID1_HEADER_SIZE),
                frame_length := pkt_length k + of_nat CSP_ID1_HEADER_SIZE\<rparr>) s
      in write_frame p 0 id1 s)"

definition csp_id1_strip :: "addr \<Rightarrow> bool \<Rightarrow> csp_core \<Rightarrow> int \<times> csp_core" where
  "csp_id1_strip p cspv1_fixup s =
     (if unat (frame_length (packet s p)) < CSP_ID1_HEADER_SIZE then (-1, s)
      else let raw = frame_bytes s p CSP_ID1_HEADER_SIZE;
               s = upd_packet p (\<lambda>k. k\<lparr>pkt_length := frame_length k - of_nat CSP_ID1_HEADER_SIZE\<rparr>) s;
               id1 = (be_word raw :: u32);
               id1 = (if cspv1_fixup then le_word raw else id1)
           in (0, upd_packet p (\<lambda>k. k\<lparr>pkt_id := \<lparr>
                 id_pri = ucast (drop_bit 30 id1 AND 0x3),
                 id_flags = ucast (drop_bit 0 id1 AND 0xFF),
                 id_src = ucast (drop_bit 25 id1 AND 0x1F),
                 id_dst = ucast (drop_bit 20 id1 AND 0x1F),
                 id_dport = ucast (drop_bit 14 id1 AND 0x3F),
                 id_sport = ucast (drop_bit 8 id1 AND 0x3F)\<rparr>\<rparr>) s))"

definition csp_id1_setup_rx :: "addr \<Rightarrow> csp_core \<Rightarrow> csp_core" where
  "csp_id1_setup_rx p s =
     upd_packet p (\<lambda>k. k\<lparr>frame_begin := (p, DATA_OFF - CSP_ID1_HEADER_SIZE), frame_length := 0\<rparr>) s"

section \<open>CSP 2.x\<close>

text \<open>
  The ports and flags are shifted as \<^verbatim>\<open>int\<close> (at most 8 + 12 bits, so no sign bit) before
  they are converted to 64 bits.
\<close>

definition id2_raw :: "csp_id \<Rightarrow> u64" where
  "id2_raw i = push_bit 46 (ucast (id_pri i)) OR push_bit 32 (ucast (id_dst i))
     OR push_bit 18 (ucast (id_src i)) OR push_bit 12 (ucast (id_dport i))
     OR push_bit 6 (ucast (id_sport i)) OR push_bit 0 (ucast (id_flags i))"

definition csp_id2_prepend :: "addr \<Rightarrow> csp_core \<Rightarrow> csp_core" where
  "csp_id2_prepend p s =
     (let id2 = be_bytes 8 (push_bit 16 (id2_raw (pkt_id (packet s p))));
          s = upd_packet p (\<lambda>k. k\<lparr>frame_begin := (p, DATA_OFF - CSP_ID2_HEADER_SIZE),
                frame_length := pkt_length k + of_nat CSP_ID2_HEADER_SIZE\<rparr>) s
      in write_frame p 0 (take CSP_ID2_HEADER_SIZE id2) s)"

definition csp_id2_strip :: "addr \<Rightarrow> csp_core \<Rightarrow> int \<times> csp_core" where
  "csp_id2_strip p s =
     (if unat (frame_length (packet s p)) < CSP_ID2_HEADER_SIZE then (-1, s)
      else let id2 = frame_bytes s p CSP_ID2_HEADER_SIZE @ [0, 0];
               s = upd_packet p (\<lambda>k. k\<lparr>pkt_length := frame_length k - of_nat CSP_ID2_HEADER_SIZE\<rparr>) s;
               id2 = drop_bit 16 (be_word id2 :: u64)
           in (0, upd_packet p (\<lambda>k. k\<lparr>pkt_id := \<lparr>
                 id_pri = ucast (drop_bit 46 id2 AND 0x3),
                 id_flags = ucast (drop_bit 0 id2 AND 0x3F),
                 id_src = ucast (drop_bit 18 id2 AND 0x3FFF),
                 id_dst = ucast (drop_bit 32 id2 AND 0x3FFF),
                 id_dport = ucast (drop_bit 12 id2 AND 0x3F),
                 id_sport = ucast (drop_bit 6 id2 AND 0x3F)\<rparr>\<rparr>) s))"

definition csp_id2_setup_rx :: "addr \<Rightarrow> csp_core \<Rightarrow> csp_core" where
  "csp_id2_setup_rx p s =
     upd_packet p (\<lambda>k. k\<lparr>frame_begin := (p, DATA_OFF - CSP_ID2_HEADER_SIZE), frame_length := 0\<rparr>) s"

section \<open>Dispatch on the protocol version\<close>

definition csp_id_prepend :: "addr \<Rightarrow> csp_core \<Rightarrow> csp_core" where
  "csp_id_prepend p s = (if csp_version s = 2 then csp_id2_prepend p s else csp_id1_prepend p False s)"

definition csp_id_strip :: "addr \<Rightarrow> csp_core \<Rightarrow> int \<times> csp_core" where
  "csp_id_strip p s = (if csp_version s = 2 then csp_id2_strip p s else csp_id1_strip p False s)"

definition csp_id_prepend_fixup_cspv1 :: "addr \<Rightarrow> csp_core \<Rightarrow> csp_core" where
  "csp_id_prepend_fixup_cspv1 p s =
     (if csp_version s = 2 then csp_id2_prepend p s else csp_id1_prepend p True s)"

definition csp_id_strip_fixup_cspv1 :: "addr \<Rightarrow> csp_core \<Rightarrow> int \<times> csp_core" where
  "csp_id_strip_fixup_cspv1 p s =
     (if csp_version s = 2 then csp_id2_strip p s else csp_id1_strip p True s)"

definition csp_id_setup_rx :: "addr \<Rightarrow> csp_core \<Rightarrow> nat \<times> csp_core" where
  "csp_id_setup_rx p s =
     (if csp_version s = 2 then (CSP_ID2_HEADER_SIZE, csp_id2_setup_rx p s)
      else (CSP_ID1_HEADER_SIZE, csp_id1_setup_rx p s))"

definition csp_id_get_host_bits :: "u8 \<Rightarrow> nat" where
  "csp_id_get_host_bits ver = (if ver = 2 then CSP_ID2_HOST_SIZE else CSP_ID1_HOST_SIZE)"

definition csp_id_get_max_nodeid :: "u8 \<Rightarrow> nat" where
  "csp_id_get_max_nodeid ver = (if ver = 2 then 2 ^ CSP_ID2_HOST_SIZE - 1 else 2 ^ CSP_ID1_HOST_SIZE - 1)"

definition csp_id_get_max_port :: "u8 \<Rightarrow> nat" where
  "csp_id_get_max_port ver = (if ver = 2 then 2 ^ CSP_ID2_PORT_SIZE - 1 else 2 ^ CSP_ID1_PORT_SIZE - 1)"

text \<open>
  The shift count \<^verbatim>\<open>csp_id_get_host_bits() - iface->netmask\<close> is defined for a netmask of at
  most the host bits, the range every netmask of the library is clamped to.
\<close>

definition csp_id_is_broadcast :: "u8 \<Rightarrow> u16 \<Rightarrow> csp_iface \<Rightarrow> bool" where
  "csp_id_is_broadcast ver a iface =
     (let hostmask = (of_nat (2 ^ (csp_id_get_host_bits ver - unat (if_netmask iface)) - 1) :: u16);
          netmask = (of_nat (2 ^ csp_id_get_host_bits ver - 1) - hostmask :: u16)
      in if a AND hostmask = hostmask \<and> a AND netmask = if_addr iface AND netmask then True
         else unat a = csp_id_get_max_nodeid ver)"

section \<open>What prepend writes and strip reads\<close>

definition id1_bytes :: "bool \<Rightarrow> csp_id \<Rightarrow> u8 list" where
  "id1_bytes fixup i = (if fixup then le_bytes 4 (id1_raw i) else be_bytes 4 (id1_raw i))"

definition id2_bytes :: "csp_id \<Rightarrow> u8 list" where
  "id2_bytes i = take CSP_ID2_HEADER_SIZE (be_bytes 8 (push_bit 16 (id2_raw i)))"

definition id1_parse :: "u32 \<Rightarrow> csp_id" where
  "id1_parse id1 = \<lparr>id_pri = ucast (drop_bit 30 id1 AND 0x3), id_flags = ucast (drop_bit 0 id1 AND 0xFF),
     id_src = ucast (drop_bit 25 id1 AND 0x1F), id_dst = ucast (drop_bit 20 id1 AND 0x1F),
     id_dport = ucast (drop_bit 14 id1 AND 0x3F), id_sport = ucast (drop_bit 8 id1 AND 0x3F)\<rparr>"

definition id2_parse :: "u64 \<Rightarrow> csp_id" where
  "id2_parse id2 = \<lparr>id_pri = ucast (drop_bit 46 id2 AND 0x3), id_flags = ucast (drop_bit 0 id2 AND 0x3F),
     id_src = ucast (drop_bit 18 id2 AND 0x3FFF), id_dst = ucast (drop_bit 32 id2 AND 0x3FFF),
     id_dport = ucast (drop_bit 12 id2 AND 0x3F), id_sport = ucast (drop_bit 6 id2 AND 0x3F)\<rparr>"

lemma length_id_bytes [simp]: "length (id1_bytes fixup i) = 4" "length (id2_bytes i) = 6"
  by (simp_all add: id1_bytes_def id2_bytes_def)

lemma write_frame_own:
  "frame_begin (packet s p) = (p, off) \<Longrightarrow>
     write_frame p n bs s = upd_packet p (\<lambda>k. k\<lparr>pkt_mem := mem_write (pkt_mem k) (off + n) bs\<rparr>) s"
  by (simp add: write_frame_def) (rule upd_packet_cong, simp)

lemma csp_id1_prepend_eq:
  "csp_id1_prepend p fixup s = upd_packet p (\<lambda>k. k\<lparr>frame_begin := (p, 4),
     frame_length := pkt_length k + 4, pkt_mem := mem_write (pkt_mem k) 4 (id1_bytes fixup (pkt_id k))\<rparr>) s"
  by (simp add: csp_id1_prepend_def write_frame_own id1_bytes_def Let_def)
    (intro conjI impI; rule upd_packet_cong; simp)

lemma csp_id2_prepend_eq:
  "csp_id2_prepend p s = upd_packet p (\<lambda>k. k\<lparr>frame_begin := (p, 2),
     frame_length := pkt_length k + 6, pkt_mem := mem_write (pkt_mem k) 2 (id2_bytes (pkt_id k))\<rparr>) s"
  by (simp add: csp_id2_prepend_def write_frame_own id2_bytes_def Let_def)
    (rule upd_packet_cong, simp)

lemma csp_id1_strip_eq:
  "csp_id1_strip p fixup s = (if frame_length (packet s p) < 4 then (-1, s)
     else (0, upd_packet p (\<lambda>k. k\<lparr>pkt_length := frame_length k - 4,
       pkt_id := id1_parse ((if fixup then le_word else be_word) (frame_bytes s p 4))\<rparr>) s))"
  by (simp add: csp_id1_strip_def id1_parse_def word_less_nat_alt Let_def)

lemma csp_id2_strip_eq:
  "csp_id2_strip p s = (if frame_length (packet s p) < 6 then (-1, s)
     else (0, upd_packet p (\<lambda>k. k\<lparr>pkt_length := frame_length k - 6,
       pkt_id := id2_parse (drop_bit 16 (be_word (frame_bytes s p 6 @ [0, 0])))\<rparr>) s))"
  by (simp add: csp_id2_strip_def id2_parse_def word_less_nat_alt Let_def)

section \<open>The two header codecs\<close>

text \<open>An identifier whose fields fit the widths of the header.\<close>

definition id1_fits :: "csp_id \<Rightarrow> bool" where
  "id1_fits i \<longleftrightarrow> id_pri i < 4 \<and> id_src i < 32 \<and> id_dst i < 32 \<and> id_dport i < 64 \<and> id_sport i < 64"

definition id2_fits :: "csp_id \<Rightarrow> bool" where
  "id2_fits i \<longleftrightarrow> id_pri i < 4 \<and> id_src i < 0x4000 \<and> id_dst i < 0x4000 \<and> id_dport i < 64
     \<and> id_sport i < 64 \<and> id_flags i < 64"

lemma and_masks:
  "x AND 0x3 = take_bit 2 (x :: 'a::len word)" "x AND 0x1F = take_bit 5 x" "x AND 0x3F = take_bit 6 x"
  "x AND 0xFF = take_bit 8 x" "x AND 0x3FFF = take_bit 14 x"
  by (simp_all add: take_bit_eq_mask mask_eq_exp_minus_1)

text \<open>A value below \<open>2 ^ n\<close> has no bit at or above \<open>n\<close>.\<close>

lemma bit_less_exp:
  fixes w :: "'a::len word"
  assumes "w < 2 ^ n" and "n < LENGTH('a)"
  shows "bit w k \<Longrightarrow> k < n"
proof -
  have "take_bit n w = w"
    using assms by (simp add: less_mask_eq take_bit_eq_mask mask_eq_exp_minus_1 [symmetric])
  then show "bit w k \<Longrightarrow> k < n"
    by (metis bit_take_bit_iff)
qed

lemma id1_fits_bits:
  assumes "id1_fits i"
  shows "bit (id_pri i) k \<Longrightarrow> k < 2" "bit (id_src i) k \<Longrightarrow> k < 5" "bit (id_dst i) k \<Longrightarrow> k < 5"
    "bit (id_dport i) k \<Longrightarrow> k < 6" "bit (id_sport i) k \<Longrightarrow> k < 6" "bit (id_flags i) k \<Longrightarrow> k < 8"
  using assms bit_less_exp [of "id_pri i" 2 k] bit_less_exp [of "id_src i" 5 k]
    bit_less_exp [of "id_dst i" 5 k] bit_less_exp [of "id_dport i" 6 k]
    bit_less_exp [of "id_sport i" 6 k] bit_imp_le_length [of "id_flags i" k]
  by (auto simp: id1_fits_def)

lemma id2_fits_bits:
  assumes "id2_fits i"
  shows "bit (id_pri i) k \<Longrightarrow> k < 2" "bit (id_src i) k \<Longrightarrow> k < 14" "bit (id_dst i) k \<Longrightarrow> k < 14"
    "bit (id_dport i) k \<Longrightarrow> k < 6" "bit (id_sport i) k \<Longrightarrow> k < 6" "bit (id_flags i) k \<Longrightarrow> k < 6"
  using assms bit_less_exp [of "id_pri i" 2 k] bit_less_exp [of "id_src i" 14 k]
    bit_less_exp [of "id_dst i" 14 k] bit_less_exp [of "id_dport i" 6 k]
    bit_less_exp [of "id_sport i" 6 k] bit_less_exp [of "id_flags i" 6 k]
  by (auto simp: id2_fits_def)

lemma id1_raw_bit:
  "bit (id1_raw i) n \<longleftrightarrow> n < 32 \<and> (30 \<le> n \<and> bit (id_pri i) (n - 30) \<or> 20 \<le> n \<and> bit (id_dst i) (n - 20)
     \<or> 25 \<le> n \<and> bit (id_src i) (n - 25) \<or> 14 \<le> n \<and> bit (id_dport i) (n - 14)
     \<or> 8 \<le> n \<and> bit (id_sport i) (n - 8) \<or> bit (id_flags i) n)"
  by (auto simp: id1_raw_def bit_simps dest: bit_imp_le_length)

lemma id2_raw_bit:
  "bit (id2_raw i) n \<longleftrightarrow> n < 64 \<and> (46 \<le> n \<and> bit (id_pri i) (n - 46) \<or> 32 \<le> n \<and> bit (id_dst i) (n - 32)
     \<or> 18 \<le> n \<and> bit (id_src i) (n - 18) \<or> 12 \<le> n \<and> bit (id_dport i) (n - 12)
     \<or> 6 \<le> n \<and> bit (id_sport i) (n - 6) \<or> bit (id_flags i) n)"
  by (auto simp: id2_raw_def bit_simps dest: bit_imp_le_length)

lemma id1_raw_field:
  assumes "id1_fits i"
  shows "k < 2 \<Longrightarrow> bit (id1_raw i) (30 + k) = bit (id_pri i) k"
    "k < 5 \<Longrightarrow> bit (id1_raw i) (25 + k) = bit (id_src i) k"
    "k < 5 \<Longrightarrow> bit (id1_raw i) (20 + k) = bit (id_dst i) k"
    "k < 6 \<Longrightarrow> bit (id1_raw i) (14 + k) = bit (id_dport i) k"
    "k < 6 \<Longrightarrow> bit (id1_raw i) (8 + k) = bit (id_sport i) k"
    "k < 8 \<Longrightarrow> bit (id1_raw i) k = bit (id_flags i) k"
  using id1_fits_bits [OF assms] by (fastforce simp: id1_raw_bit)+

lemma id2_raw_field:
  assumes "id2_fits i"
  shows "k < 2 \<Longrightarrow> bit (id2_raw i) (46 + k) = bit (id_pri i) k"
    "k < 14 \<Longrightarrow> bit (id2_raw i) (32 + k) = bit (id_dst i) k"
    "k < 14 \<Longrightarrow> bit (id2_raw i) (18 + k) = bit (id_src i) k"
    "k < 6 \<Longrightarrow> bit (id2_raw i) (12 + k) = bit (id_dport i) k"
    "k < 6 \<Longrightarrow> bit (id2_raw i) (6 + k) = bit (id_sport i) k"
    "k < 6 \<Longrightarrow> bit (id2_raw i) k = bit (id_flags i) k"
  using id2_fits_bits [OF assms] by (fastforce simp: id2_raw_bit)+

lemma id1_parse_raw:
  assumes "id1_fits i"
  shows "id1_parse (id1_raw i) = i"
proof -
  note raw = id1_raw_field [OF assms] and fits = id1_fits_bits [OF assms]
  have "ucast (take_bit 2 (drop_bit 30 (id1_raw i))) = id_pri i"
    by (rule bit_word_eqI) (use raw(1) fits(1) in \<open>auto simp: bit_simps\<close>)
  moreover have "ucast (take_bit 8 (id1_raw i)) = id_flags i"
    by (rule bit_word_eqI) (use raw(6) fits(6) in \<open>auto simp: bit_simps\<close>)
  moreover have "ucast (take_bit 5 (drop_bit 25 (id1_raw i))) = id_src i"
    by (rule bit_word_eqI) (use raw(2) fits(2) in \<open>auto simp: bit_simps\<close>)
  moreover have "ucast (take_bit 5 (drop_bit 20 (id1_raw i))) = id_dst i"
    by (rule bit_word_eqI) (use raw(3) fits(3) in \<open>auto simp: bit_simps\<close>)
  moreover have "ucast (take_bit 6 (drop_bit 14 (id1_raw i))) = id_dport i"
    by (rule bit_word_eqI) (use raw(4) fits(4) in \<open>auto simp: bit_simps\<close>)
  moreover have "ucast (take_bit 6 (drop_bit 8 (id1_raw i))) = id_sport i"
    by (rule bit_word_eqI) (use raw(5) fits(5) in \<open>auto simp: bit_simps\<close>)
  ultimately show ?thesis
    by (simp add: id1_parse_def and_masks)
qed

lemma id2_parse_raw:
  assumes "id2_fits i"
  shows "id2_parse (id2_raw i) = i"
proof -
  note raw = id2_raw_field [OF assms] and fits = id2_fits_bits [OF assms]
  have "ucast (take_bit 2 (drop_bit 46 (id2_raw i))) = id_pri i"
    by (rule bit_word_eqI) (use raw(1) fits(1) in \<open>auto simp: bit_simps\<close>)
  moreover have "ucast (take_bit 6 (id2_raw i)) = id_flags i"
    by (rule bit_word_eqI) (use raw(6) fits(6) in \<open>auto simp: bit_simps\<close>)
  moreover have "ucast (take_bit 14 (drop_bit 32 (id2_raw i))) = id_dst i"
    by (rule bit_word_eqI) (use raw(2) fits(3) in \<open>auto simp: bit_simps\<close>)
  moreover have "ucast (take_bit 14 (drop_bit 18 (id2_raw i))) = id_src i"
    by (rule bit_word_eqI) (use raw(3) fits(2) in \<open>auto simp: bit_simps\<close>)
  moreover have "ucast (take_bit 6 (drop_bit 12 (id2_raw i))) = id_dport i"
    by (rule bit_word_eqI) (use raw(4) fits(4) in \<open>auto simp: bit_simps\<close>)
  moreover have "ucast (take_bit 6 (drop_bit 6 (id2_raw i))) = id_sport i"
    by (rule bit_word_eqI) (use raw(5) fits(5) in \<open>auto simp: bit_simps\<close>)
  ultimately show ?thesis
    by (simp add: id2_parse_def and_masks)
qed

text \<open>The other direction: every header is the encoding of the identifier parsed from it.\<close>

lemma id1_parse_bits:
  "30 \<le> n \<and> bit (id_pri (id1_parse w)) (n - 30) \<longleftrightarrow> 30 \<le> n \<and> n < 32 \<and> bit w n"
  "25 \<le> n \<and> bit (id_src (id1_parse w)) (n - 25) \<longleftrightarrow> 25 \<le> n \<and> n < 30 \<and> bit w n"
  "20 \<le> n \<and> bit (id_dst (id1_parse w)) (n - 20) \<longleftrightarrow> 20 \<le> n \<and> n < 25 \<and> bit w n"
  "14 \<le> n \<and> bit (id_dport (id1_parse w)) (n - 14) \<longleftrightarrow> 14 \<le> n \<and> n < 20 \<and> bit w n"
  "8 \<le> n \<and> bit (id_sport (id1_parse w)) (n - 8) \<longleftrightarrow> 8 \<le> n \<and> n < 14 \<and> bit w n"
  "bit (id_flags (id1_parse w)) n \<longleftrightarrow> n < 8 \<and> bit w n"
  by (auto simp: id1_parse_def and_masks bit_simps)

lemma id2_parse_bits:
  "46 \<le> n \<and> bit (id_pri (id2_parse w)) (n - 46) \<longleftrightarrow> 46 \<le> n \<and> n < 48 \<and> bit w n"
  "32 \<le> n \<and> bit (id_dst (id2_parse w)) (n - 32) \<longleftrightarrow> 32 \<le> n \<and> n < 46 \<and> bit w n"
  "18 \<le> n \<and> bit (id_src (id2_parse w)) (n - 18) \<longleftrightarrow> 18 \<le> n \<and> n < 32 \<and> bit w n"
  "12 \<le> n \<and> bit (id_dport (id2_parse w)) (n - 12) \<longleftrightarrow> 12 \<le> n \<and> n < 18 \<and> bit w n"
  "6 \<le> n \<and> bit (id_sport (id2_parse w)) (n - 6) \<longleftrightarrow> 6 \<le> n \<and> n < 12 \<and> bit w n"
  "bit (id_flags (id2_parse w)) n \<longleftrightarrow> n < 6 \<and> bit w n"
  by (auto simp: id2_parse_def and_masks bit_simps)

lemma id1_raw_parse: "id1_raw (id1_parse w) = w"
  by (rule bit_word_eqI) (auto simp: id1_raw_bit id1_parse_bits)

lemma id2_raw_parse: "id2_raw (id2_parse w) = take_bit 48 w"
  by (rule bit_word_eqI) (auto simp: id2_raw_bit id2_parse_bits bit_take_bit_iff)

lemma unat_ucast_take_bit: "unat (ucast (take_bit n w) :: 'b::len word) < 2 ^ n"
proof -
  have "unat (ucast (take_bit n w) :: 'b word) \<le> unat (take_bit n w)"
    by (simp add: unsigned_ucast_eq)
  also have "\<dots> < 2 ^ n"
    by (simp add: unsigned_take_bit_eq)
  finally show ?thesis .
qed

lemma id1_parse_fits: "id1_fits (id1_parse w)"
  using unat_ucast_take_bit [of 2 "drop_bit 30 w", where 'b = 8]
    unat_ucast_take_bit [of 5 "drop_bit 25 w", where 'b = 16] unat_ucast_take_bit [of 5 "drop_bit 20 w", where 'b = 16]
    unat_ucast_take_bit [of 6 "drop_bit 14 w", where 'b = 8] unat_ucast_take_bit [of 6 "drop_bit 8 w", where 'b = 8]
  by (simp add: id1_fits_def id1_parse_def and_masks word_less_nat_alt)

lemma id2_parse_fits: "id2_fits (id2_parse w)"
  using unat_ucast_take_bit [of 2 "drop_bit 46 w", where 'b = 8] unat_ucast_take_bit [of 6 w, where 'b = 8]
    unat_ucast_take_bit [of 14 "drop_bit 32 w", where 'b = 16] unat_ucast_take_bit [of 14 "drop_bit 18 w", where 'b = 16]
    unat_ucast_take_bit [of 6 "drop_bit 12 w", where 'b = 8] unat_ucast_take_bit [of 6 "drop_bit 6 w", where 'b = 8]
  by (simp add: id2_fits_def id2_parse_def and_masks word_less_nat_alt)

lemma drop_push_16: "drop_bit 16 (push_bit 16 w) = take_bit 48 (w :: u64)"
  by (rule bit_word_eqI) (auto simp: bit_simps)

lemma id2_parse_take: "id2_parse (take_bit 48 w) = id2_parse w"
  using id2_parse_raw [OF id2_parse_fits, of w] by (simp add: id2_raw_parse)

lemma id2_bytes_eq: "id2_bytes i = be_bytes 6 (take_bit 48 (id2_raw i))"
proof -
  have "be_bytes 8 w = be_bytes 6 (drop_bit 16 w) @ [ucast (drop_bit 8 w), ucast w]" for w :: u64
    by (simp add: eval_nat_numeral)
  then show ?thesis
    by (simp add: id2_bytes_def drop_push_16)
qed

lemma be_word_pad16:
  fixes bs :: "u8 list"
  shows "length bs = 6 \<Longrightarrow> drop_bit 16 (be_word (bs @ [0, 0]) :: u64) = be_word bs"
proof -
  assume len: "length bs = 6"
  have two: "be_word (bs @ [0, 0]) = (push_bit 16 (be_word bs) :: u64)"
    using be_word_snoc [of "bs @ [0]" 0, where 'a = 64] be_word_snoc [of bs 0, where 'a = 64]
    by (simp add: push_bit_push_bit)
  have "take_bit 48 (be_word bs) = (be_word bs :: u64)"
    using be_word_bound [of bs, where 'a = 64] len by simp
  with two show ?thesis
    by (simp add: drop_push_16)
qed

lemma id2_bytes_parse:
  assumes "id2_fits i"
  shows "id2_parse (drop_bit 16 (be_word (id2_bytes i @ [0, 0]))) = i"
proof -
  have "be_word (id2_bytes i) = take_bit 48 (id2_raw i)"
    by (simp add: id2_bytes_eq be_word_be_bytes)
  then show ?thesis
    by (simp add: be_word_pad16 id2_parse_take id2_parse_raw assms)
qed

lemma id1_bytes_parse:
  "id1_fits i \<Longrightarrow> id1_parse ((if fixup then le_word else be_word) (id1_bytes fixup i)) = i"
  by (simp add: id1_bytes_def id1_parse_raw)

lemma id2_bytes_of_parse:
  assumes "length bs = 6"
  shows "id2_bytes (id2_parse (drop_bit 16 (be_word (bs @ [0, 0])))) = bs"
proof -
  have "take_bit 48 (be_word bs) = (be_word bs :: u64)"
    using be_word_bound [of bs, where 'a = 64] assms by simp
  then show ?thesis
    using be_bytes_be_word [of bs, where 'a = 64] assms
    by (simp add: id2_bytes_eq be_word_pad16 id2_raw_parse)
qed

lemma id1_bytes_of_parse:
  "length bs = 4 \<Longrightarrow> id1_bytes False (id1_parse (be_word bs)) = bs"
  using be_bytes_be_word [of bs, where 'a = 32] by (simp add: id1_bytes_def id1_raw_parse)

section \<open>Effects on packets\<close>

definition hdr_size :: "csp_core \<Rightarrow> nat" where
  "hdr_size s = (if csp_version s = 2 then CSP_ID2_HEADER_SIZE else CSP_ID1_HEADER_SIZE)"

definition id_bytes :: "csp_core \<Rightarrow> csp_id \<Rightarrow> u8 list" where
  "id_bytes s i = (if csp_version s = 2 then id2_bytes i else id1_bytes False i)"

definition id_fits :: "csp_core \<Rightarrow> csp_id \<Rightarrow> bool" where
  "id_fits s i = (if csp_version s = 2 then id2_fits i else id1_fits i)"

lemma hdr_size_cases: "hdr_size s = 4 \<or> hdr_size s = 6"
  by (simp add: hdr_size_def)

lemma length_id_bytes_hdr [simp]: "length (id_bytes s i) = hdr_size s"
  by (simp add: id_bytes_def hdr_size_def)

lemma csp_id_prepend_eq:
  "csp_id_prepend p s = upd_packet p (\<lambda>k. k\<lparr>frame_begin := (p, DATA_OFF - hdr_size s),
     frame_length := pkt_length k + of_nat (hdr_size s),
     pkt_mem := mem_write (pkt_mem k) (DATA_OFF - hdr_size s) (id_bytes s (pkt_id k))\<rparr>) s"
  by (simp add: csp_id_prepend_def csp_id1_prepend_eq csp_id2_prepend_eq hdr_size_def id_bytes_def)

lemma csp_id_prepend_frame [simp]:
  "csp_conf (csp_id_prepend p s) = csp_conf s" "csp_ms (csp_id_prepend p s) = csp_ms s"
  "csp_version (csp_id_prepend p s) = csp_version s" "hdr_size (csp_id_prepend p s) = hdr_size s"
  "csp_buffers (csp_id_prepend p s) = csp_buffers s" "buf_inv (csp_id_prepend p s) = buf_inv s"
  "buf_refs (csp_id_prepend p s) = buf_refs s" "free_list (csp_id_prepend p s) = free_list s"
  by (simp_all add: csp_id_prepend_eq hdr_size_def)

lemma csp_id_prepend_other: "q \<noteq> p \<Longrightarrow> packet (csp_id_prepend p s) q = packet s q"
  by (simp add: csp_id_prepend_eq)

lemma csp_id_prepend_self [simp]:
  "pkt_id (packet (csp_id_prepend p s) p) = pkt_id (packet s p)"
  "pkt_length (packet (csp_id_prepend p s) p) = pkt_length (packet s p)"
  "frame_length (packet (csp_id_prepend p s) p) = pkt_length (packet s p) + of_nat (hdr_size s)"
  "frame_begin (packet (csp_id_prepend p s) p) = (p, DATA_OFF - hdr_size s)"
  "timestamp_tx (packet (csp_id_prepend p s) p) = timestamp_tx (packet s p)"
  "pkt_conn (packet (csp_id_prepend p s) p) = pkt_conn (packet s p)"
  "pkt_next (packet (csp_id_prepend p s) p) = pkt_next (packet s p)"
  by (simp_all add: csp_id_prepend_eq)

lemma data_bytes_prepend [simp]: "data_bytes (csp_id_prepend p s) q n = data_bytes s q n"
  using hdr_size_cases [of s]
  by (auto simp: data_bytes_def csp_id_prepend_eq mem_write_disjoint)

lemma payload_prepend [simp]: "payload (csp_id_prepend p s) q = payload s q"
  unfolding payload_def by (cases "q = p") (simp_all add: csp_id_prepend_other)

lemma frame_bytes_prepend:
  "frame_bytes (csp_id_prepend p s) p (hdr_size s + n) = id_bytes s (pkt_id (packet s p)) @ data_bytes s p n"
  using hdr_size_cases [of s]
  by (auto simp: frame_bytes_def csp_id_prepend_eq mem_read_append mem_write_same data_bytes_def
      mem_write_disjoint)

lemma csp_id_strip_eq:
  "csp_id_strip p s = (if unat (frame_length (packet s p)) < hdr_size s then (-1, s)
     else (0, upd_packet p (\<lambda>k. k\<lparr>pkt_length := frame_length k - of_nat (hdr_size s),
       pkt_id := (if csp_version s = 2 then id2_parse (drop_bit 16 (be_word (frame_bytes s p 6 @ [0, 0])))
                  else id1_parse (be_word (frame_bytes s p 4)))\<rparr>) s))"
  by (simp add: csp_id_strip_def csp_id1_strip_eq csp_id2_strip_eq hdr_size_def word_less_nat_alt)

lemma csp_id_strip_frame [simp]:
  "csp_conf (snd (csp_id_strip p s)) = csp_conf s" "csp_ms (snd (csp_id_strip p s)) = csp_ms s"
  "csp_buffers (snd (csp_id_strip p s)) = csp_buffers s" "buf_inv (snd (csp_id_strip p s)) = buf_inv s"
  "buf_refs (snd (csp_id_strip p s)) = buf_refs s" "free_list (snd (csp_id_strip p s)) = free_list s"
  "data_bytes (snd (csp_id_strip p s)) q n = data_bytes s q n"
  by (simp_all add: csp_id_strip_eq data_bytes_def)

lemma csp_id_setup_rx_eq: "snd (csp_id_setup_rx q t) = upd_packet q (\<lambda>k. k\<lparr>frame_begin := (q, DATA_OFF - hdr_size t), frame_length := 0\<rparr>) t"
  by (simp add: csp_id_setup_rx_def csp_id1_setup_rx_def csp_id2_setup_rx_def hdr_size_def)

text \<open>A receiver that has stored a frame at \<^verbatim>\<open>frame_begin\<close>.\<close>

definition rx_frame_stored :: "addr \<Rightarrow> u8 list \<Rightarrow> csp_core \<Rightarrow> csp_core" where
  "rx_frame_stored q fr t = upd_packet q (\<lambda>k. k\<lparr>frame_length := of_nat (length fr)\<rparr>) (write_frame q 0 fr (snd (csp_id_setup_rx q t)))"

lemma stored_frame:
  assumes len: "length fr < 2 ^ 16"
  shows "n \<le> length fr \<Longrightarrow> frame_bytes (rx_frame_stored q fr t) q n = take n fr"
    "unat (frame_length (packet (rx_frame_stored q fr t) q)) = length fr"
    "hdr_size t + n \<le> length fr \<Longrightarrow> data_bytes (rx_frame_stored q fr t) q n = take n (drop (hdr_size t) fr)"
    "csp_version (rx_frame_stored q fr t) = csp_version t" "hdr_size (rx_frame_stored q fr t) = hdr_size t"
    "r \<noteq> q \<Longrightarrow> packet (rx_frame_stored q fr t) r = packet t r"
  using len hdr_size_cases [of t]
  by (auto simp: rx_frame_stored_def csp_id_setup_rx_eq write_frame_def frame_bytes_def data_bytes_def mem_write_inside unat_of_nat_small hdr_size_def csp_version_def)

section \<open>Properties\<close>

text \<open>C3. Header round trip between two nodes: for both protocol versions, a receiver that stores the
  frame bytes of a packet to which the header was prepended in one of its own packets, whatever
  that packet held before, gets from \<open>csp_id_strip\<close> the identifier, the length and the payload of the sender,
  and changes no other packet; for every identifier whose fields fit the header and every
  length that does not overflow the 16-bit frame length.\<close>

theorem csp_id_roundtrip:
  assumes fits: "id_fits s (pkt_id (packet s p))"
    and len: "unat (pkt_length (packet s p)) + hdr_size s < 2 ^ 16"
    and ver: "csp_version t = csp_version s"
    and fr: "fr = frame_bytes (csp_id_prepend p s) p (unat (frame_length (packet (csp_id_prepend p s) p)))"
  shows "\<exists>t'. csp_id_strip q (rx_frame_stored q fr t) = (0, t')
    \<and> pkt_id (packet t' q) = pkt_id (packet s p) \<and> pkt_length (packet t' q) = pkt_length (packet s p)
    \<and> payload t' q = payload s p \<and> (\<forall>r. r \<noteq> q \<longrightarrow> packet t' r = packet t r)"
proof -
  let ?t = "rx_frame_stored q fr t" and ?i = "pkt_id (packet s p)" and ?n = "unat (pkt_length (packet s p))"
  have hs: "unat (of_nat (hdr_size s) :: u16) = hdr_size s" using hdr_size_cases [of s] by auto
  have same: "hdr_size t = hdr_size s" "id_bytes t = id_bytes s" using ver by (simp_all add: hdr_size_def id_bytes_def fun_eq_iff)
  have "unat (frame_length (packet (csp_id_prepend p s) p)) = hdr_size s + ?n"
    using len by (simp add: unat_add_small hs)
  then have frame: "fr = id_bytes s ?i @ payload s p" using fr by (simp add: frame_bytes_prepend payload_def)
  have n: "length fr = hdr_size s + ?n" "length fr < 2 ^ 16" using len by (simp_all add: frame length_payload)
  note st = stored_frame [OF n(2), where t = t and q = q]
  have "take (hdr_size s) fr = id_bytes s ?i" "take ?n (drop (hdr_size s) fr) = payload s p" by (simp_all add: frame length_payload)
  then have parts: "frame_bytes ?t q (hdr_size s) = id_bytes s ?i" "data_bytes ?t q ?n = payload s p"
    using st(1) [of "hdr_size s"] st(3) [of ?n] n(1) same(1) by (simp_all add: length_payload)
  have hdr: "(if csp_version ?t = 2 then id2_parse (drop_bit 16 (be_word (frame_bytes ?t q 6 @ [0, 0]))) else id1_parse (be_word (frame_bytes ?t q 4))) = ?i"
    using parts(1) fits id1_bytes_parse [of _ False] by (auto simp: st(4) ver hdr_size_def id_bytes_def id_fits_def id2_bytes_parse)
  have flen: "frame_length (packet ?t q) - of_nat (hdr_size s) = pkt_length (packet s p)"
    by (simp add: word_unat_eq_iff unat_sub_if' st(2) n hs)
  have run: "csp_id_strip q ?t = (0, upd_packet q (\<lambda>k. k\<lparr>pkt_length := frame_length k - of_nat (hdr_size s), pkt_id := ?i\<rparr>) ?t)"
    using hdr by (simp add: csp_id_strip_eq st(2,5) same(1) n(1))
  show ?thesis
    unfolding run using parts(2) by (auto simp: flen payload_def data_bytes_def st(6))
qed

definition example_id :: csp_id where
  "example_id = \<lparr>id_pri = 2, id_flags = 1, id_src = 5, id_dst = 10, id_dport = 7, id_sport = 33\<rparr>"

definition example_core :: csp_core where
  "example_core = upd_packet 0 (\<lambda>k. k\<lparr>pkt_id := example_id, pkt_length := 3\<rparr>) core1"

lemma core1_conf [simp]: "csp_version core1 = 2"
  by (simp add: csp_version_def csp_buffer_init_def core0_def conf0_def csp_buffer_init_step_def
      upd_skbf_def Let_def upt_rec)

theorem csp_id_roundtrip_witness:
  "\<exists>t'. csp_id_strip 1 (rx_frame_stored 1 (frame_bytes (csp_id_prepend 0 example_core) 0 9) core1) = (0, t')
     \<and> pkt_id (packet t' 1) = example_id \<and> pkt_length (packet t' 1) = 3 \<and> payload t' 1 = payload example_core 0"
proof -
  have f: "id_fits example_core (pkt_id (packet example_core 0))"
    and l: "unat (pkt_length (packet example_core 0)) + hdr_size example_core < 2 ^ 16"
    and v: "csp_version core1 = csp_version example_core"
    and n: "unat (frame_length (packet (csp_id_prepend 0 example_core) 0)) = 9"
    by (simp_all add: example_core_def id_fits_def id2_fits_def example_id_def hdr_size_def)
  show ?thesis
    using csp_id_roundtrip [OF f l v refl, unfolded n, of 1] by (auto simp: example_core_def)
qed

text \<open>The header codec is onto: a received frame that \<open>csp_id_strip\<close> accepts yields an
  identifier that fits the header, and prepending it again reproduces the received header
  bytes, so no two headers decode alike.\<close>

theorem csp_id_canonical:
  assumes acc: "csp_id_strip p s = (0, s')"
  shows "id_fits s' (pkt_id (packet s' p))
    \<and> frame_bytes (csp_id_prepend p s') p (hdr_size s) = frame_bytes s p (hdr_size s)"
proof -
  have ok: "\<not> unat (frame_length (packet s p)) < hdr_size s"
    using acc by (auto simp: csp_id_strip_eq)
  then have s': "s' = snd (csp_id_strip p s)" using acc by simp
  have ver: "csp_version s' = csp_version s" "hdr_size s' = hdr_size s"
    by (simp_all add: s' hdr_size_def csp_version_def)
  have id: "pkt_id (packet s' p) = (if csp_version s = 2
      then id2_parse (drop_bit 16 (be_word (frame_bytes s p 6 @ [0, 0])))
      else id1_parse (be_word (frame_bytes s p 4)))"
    using ok by (simp add: s' csp_id_strip_eq)
  have len: "length (frame_bytes s p n) = n" for n
    by (simp add: frame_bytes_def split_beta)
  have "id_bytes s' (pkt_id (packet s' p)) = frame_bytes s p (hdr_size s)"
    by (simp add: id id_bytes_def ver hdr_size_def len id2_bytes_of_parse id1_bytes_of_parse)
  moreover have "id_fits s' (pkt_id (packet s' p))"
    by (simp add: id id_fits_def ver id2_parse_fits id1_parse_fits)
  ultimately show ?thesis
    using frame_bytes_prepend [of p s' 0] by (simp add: ver data_bytes_def)
qed

end
