(* ===== verification/CSP_Hmac.thy ===== *)
theory CSP_Hmac
  imports CSP_Sha1 CSP_Id
begin

text \<open>
  HMAC-SHA-1 and the authentication of packets with it, \<^verbatim>\<open>src/src/crypto/csp_hmac.c\<close>.
  The static key is the argument \<open>key\<close> of the packet operations.
\<close>

section \<open>HMAC\<close>

abbreviation (input) HMAC_KEY_LENGTH :: nat where "HMAC_KEY_LENGTH \<equiv> 16"
abbreviation (input) CSP_HMAC_LENGTH :: nat where "CSP_HMAC_LENGTH \<equiv> 4"

record hmac_state =
  hm_md :: csp_sha1_state
  hm_key :: "u8 list"

text \<open>The error \<^verbatim>\<open>CSP_ERR_INVAL\<close> is \<open>None\<close>; the pointers are never null.\<close>

definition csp_hmac_init :: "hmac_state \<Rightarrow> u8 list \<Rightarrow> hmac_state option" where
  "csp_hmac_init hmac key =
     (if length key < 1 then None
      else let k = (if length key > CSP_SHA1_BLOCKSIZE
                    then csp_sha1_memory (hm_md hmac) key @ replicate (CSP_SHA1_BLOCKSIZE - CSP_SHA1_DIGESTSIZE) 0
                    else key @ replicate (CSP_SHA1_BLOCKSIZE - length key) 0);
               buf = map (\<lambda>b. b XOR 0x36) k;
               md = csp_sha1_process (csp_sha1_init (hm_md hmac)) buf
           in Some (hmac\<lparr>hm_key := k, hm_md := md\<rparr>))"

definition csp_hmac_process :: "hmac_state \<Rightarrow> u8 list \<Rightarrow> hmac_state option" where
  "csp_hmac_process hmac inp = Some (hmac\<lparr>hm_md := csp_sha1_process (hm_md hmac) inp\<rparr>)"

definition csp_hmac_done :: "hmac_state \<Rightarrow> u8 list option" where
  "csp_hmac_done hmac =
     (let (isha, md) = csp_sha1_done (hm_md hmac);
          buf = map (\<lambda>b. b XOR 0x5C) (hm_key hmac);
          md = csp_sha1_init md;
          md = csp_sha1_process md buf;
          md = csp_sha1_process md isha;
          (buf', md) = csp_sha1_done md
      in Some (take CSP_SHA1_DIGESTSIZE buf'))"

text \<open>\<open>state\<close> is the uninitialised local variable of \<^verbatim>\<open>csp_hmac_memory\<close>.\<close>

definition csp_hmac_memory :: "hmac_state \<Rightarrow> u8 list \<Rightarrow> u8 list \<Rightarrow> u8 list option" where
  "csp_hmac_memory state key data =
     (case csp_hmac_init state key of
        None \<Rightarrow> None
      | Some st \<Rightarrow> (case csp_hmac_process st data of None \<Rightarrow> None | Some st \<Rightarrow> csp_hmac_done st))"

definition csp_hmac_set_key :: "csp_sha1_state \<Rightarrow> u8 list \<Rightarrow> u8 list" where
  "csp_hmac_set_key md key = take HMAC_KEY_LENGTH (csp_sha1_memory md key)"

text \<open>An uninitialised local state, zeroed here; the result does not depend on it.\<close>

definition hmac_local :: hmac_state where
  "hmac_local = \<lparr>hm_md = \<lparr>sha_length = 0, sha_state = (0, 0, 0, 0, 0), sha_curlen = 0, sha_buf = (\<lambda>_. 0)\<rparr>, hm_key = []\<rparr>"

section \<open>Packets\<close>

text \<open>
  The bytes \<^verbatim>\<open>hmac\<close> that \<^verbatim>\<open>csp_hmac_memory\<close> leaves in the local array; the key of the packet
  operations is never empty, so the call succeeds.
\<close>

definition hmac_bytes :: "u8 list \<Rightarrow> u8 list \<Rightarrow> u8 list" where
  "hmac_bytes key data = (case csp_hmac_memory hmac_local key data of Some h \<Rightarrow> h | None \<Rightarrow> replicate CSP_SHA1_DIGESTSIZE 0)"

definition csp_hmac_append :: "u8 list \<Rightarrow> addr \<Rightarrow> bool \<Rightarrow> csp_core \<Rightarrow> int \<times> csp_core" where
  "csp_hmac_append key p include_header s =
     (if unat (pkt_length (packet s p)) + CSP_HMAC_LENGTH > CSP_BUFFER_SIZE then (CSP_ERR_NOMEM, s)
      else if include_header
      then let n = unat (frame_length (packet s p));
               hmac = hmac_bytes key (frame_bytes s p n);
               s = write_frame p n (take CSP_HMAC_LENGTH hmac) s
           in (CSP_ERR_NONE, upd_packet p (\<lambda>k. k\<lparr>frame_length := frame_length k + of_nat CSP_HMAC_LENGTH,
                 pkt_length := pkt_length k + of_nat CSP_HMAC_LENGTH\<rparr>) s)
      else let n = unat (pkt_length (packet s p));
               hmac = hmac_bytes key (data_bytes s p n);
               s = write_data p n (take CSP_HMAC_LENGTH hmac) s
           in (CSP_ERR_NONE, upd_packet p (\<lambda>k. k\<lparr>pkt_length := pkt_length k + of_nat CSP_HMAC_LENGTH\<rparr>) s))"

definition csp_hmac_verify :: "u8 list \<Rightarrow> addr \<Rightarrow> bool \<Rightarrow> csp_core \<Rightarrow> int \<times> csp_core" where
  "csp_hmac_verify key p include_header s =
     (if unat (pkt_length (packet s p)) < CSP_HMAC_LENGTH then (CSP_ERR_HMAC, s)
      else if include_header
      then let n = unat (frame_length (packet s p));
               hmac = hmac_bytes key (frame_bytes s p (n - CSP_HMAC_LENGTH))
           in if drop (n - CSP_HMAC_LENGTH) (frame_bytes s p n) \<noteq> take CSP_HMAC_LENGTH hmac then (CSP_ERR_HMAC, s)
              else (CSP_ERR_NONE, upd_packet p (\<lambda>k. k\<lparr>frame_length := frame_length k - of_nat CSP_HMAC_LENGTH\<rparr>) s)
      else let n = unat (pkt_length (packet s p));
               hmac = hmac_bytes key (data_bytes s p (n - CSP_HMAC_LENGTH))
           in if drop (n - CSP_HMAC_LENGTH) (data_bytes s p n) \<noteq> take CSP_HMAC_LENGTH hmac then (CSP_ERR_HMAC, s)
              else (CSP_ERR_NONE, upd_packet p (\<lambda>k. k\<lparr>pkt_length := pkt_length k - of_nat CSP_HMAC_LENGTH\<rparr>) s))"

section \<open>The keyed hash\<close>

text \<open>RFC 2104: the key padded to a block, hashed first when it is longer than one.\<close>

definition hmac_key_block :: "u8 list \<Rightarrow> u8 list" where
  "hmac_key_block key = (let k = (if length key > 64 then sha1_ref key else key) in k @ replicate (64 - length k) 0)"

definition hmac_ref :: "u8 list \<Rightarrow> u8 list \<Rightarrow> u8 list" where
  "hmac_ref key data = sha1_ref (map (\<lambda>b. b XOR 0x5C) (hmac_key_block key)
     @ sha1_ref (map (\<lambda>b. b XOR 0x36) (hmac_key_block key) @ data))"

lemma length_sha1_ref [simp]: "length (sha1_ref m) = 20"
  by (simp add: sha1_ref_def split: prod.splits)

lemma sha1_memory_ref: "csp_sha1_memory md msg = sha1_ref msg"
  unfolding csp_sha1_memory_def by (rule csp_sha1_done_ref) (use csp_sha1_process_stream [OF sha1_rep_init] in simp)

lemma sha1_two_pieces:
  "fst (csp_sha1_done (csp_sha1_process (csp_sha1_process (csp_sha1_init md) a) b)) = sha1_ref (a @ b)"
  by (rule csp_sha1_done_ref)
    (use csp_sha1_process_stream [OF csp_sha1_process_stream [OF sha1_rep_init], of md a b] in simp)

lemma hmac_memory_ref: "key \<noteq> [] \<Longrightarrow> csp_hmac_memory st key data = Some (hmac_ref key data)"
proof -
  assume ne: "key \<noteq> []"
  let ?k = "hmac_key_block key" and ?md = "hm_md st"
  let ?st = "st\<lparr>hm_key := ?k, hm_md := csp_sha1_process (csp_sha1_init ?md) (map (\<lambda>b. b XOR 0x36) ?k)\<rparr>"
  have "csp_hmac_init st key = Some ?st"
    using ne by (simp add: csp_hmac_init_def hmac_key_block_def sha1_memory_ref Let_def Suc_le_eq)
  moreover have "csp_hmac_done (?st\<lparr>hm_md := csp_sha1_process (hm_md ?st) data\<rparr>) = Some (hmac_ref key data)"
    using sha1_two_pieces [of ?md "map (\<lambda>b. b XOR 0x36) ?k" data]
    by (simp add: csp_hmac_done_def hmac_ref_def split_beta sha1_two_pieces)
  ultimately show ?thesis by (simp add: csp_hmac_memory_def csp_hmac_process_def)
qed

lemma hmac_memory_Nil [simp]: "csp_hmac_memory st [] data = None"
  by (simp add: csp_hmac_memory_def csp_hmac_init_def)

lemma hmac_bytes_ref: "key \<noteq> [] \<Longrightarrow> hmac_bytes key data = hmac_ref key data"
  by (simp add: hmac_bytes_def hmac_memory_ref)

lemma length_hmac_ref [simp]: "length (hmac_ref key data) = 20"
  by (simp add: hmac_ref_def)

lemma length_hmac_bytes [simp]: "length (hmac_bytes key data) = 20"
  by (cases "key = []") (simp_all add: hmac_bytes_def hmac_memory_ref)

section \<open>Effects on packets\<close>

lemma csp_hmac_append_ok:
  assumes "unat (pkt_length (packet s p)) + 4 \<le> CSP_BUFFER_SIZE"
  shows "csp_hmac_append key p False s = (0, upd_packet p (\<lambda>k. k\<lparr>pkt_length := pkt_length k + 4,
      pkt_mem := mem_write (pkt_mem k) (DATA_OFF + unat (pkt_length k)) (take 4 (hmac_bytes key (payload s p)))\<rparr>) s)"
  using assms by (simp add: csp_hmac_append_def Let_def write_data_def payload_def)
    (rule upd_packet_cong, simp)

lemma payload_extended:
  assumes "unat (pkt_length (packet s p)) + length tag \<le> CSP_BUFFER_SIZE"
  shows "payload (upd_packet p (\<lambda>k. k\<lparr>pkt_length := pkt_length k + of_nat (length tag),
      pkt_mem := mem_write (pkt_mem k) (DATA_OFF + unat (pkt_length k)) tag\<rparr>) s) p = payload s p @ tag"
proof -
  have "unat (of_nat (length tag) :: u16) = length tag" using assms by (intro unat_of_nat_small) simp
  then have "unat (pkt_length (packet s p) + of_nat (length tag)) = unat (pkt_length (packet s p)) + length tag"
    using assms by (subst unat_add_small) simp_all
  then show ?thesis
    by (simp add: payload_def data_bytes_def mem_read_append mem_write_same mem_write_disjoint)
qed

lemma csp_hmac_verify_False:
  "csp_hmac_verify key p False s = (let n = unat (pkt_length (packet s p)) - 4 in
    if unat (pkt_length (packet s p)) < 4 \<or> drop n (payload s p) \<noteq> take 4 (hmac_bytes key (take n (payload s p)))
    then (CSP_ERR_HMAC, s) else (0, upd_packet p (\<lambda>k. k\<lparr>pkt_length := pkt_length k - 4\<rparr>) s))"
  by (simp add: csp_hmac_verify_def payload_def data_bytes_def Let_def)

section \<open>Properties\<close>

text \<open>C7. The keyed hash is HMAC of RFC 2104 over SHA-1, for every non-empty key, longer than a
  block or not, and every message.\<close>

theorem csp_hmac_is_rfc2104:
  "csp_hmac_memory st key data = (if key = [] then None else Some (hmac_ref key data))"
  by (simp add: hmac_memory_ref)

text \<open>Authentication of packets: a packet whose payload was extended by \<open>csp_hmac_append\<close> under a
  key is accepted by \<open>csp_hmac_verify\<close> under the same key, which restores the payload; and
  \<open>csp_hmac_verify\<close> accepts a packet only if its last four bytes are the first four of the
  HMAC of the bytes before, under its own key.\<close>

theorem csp_hmac_roundtrip:
  assumes room: "unat (pkt_length (packet s p)) + CSP_HMAC_LENGTH \<le> CSP_BUFFER_SIZE" and key: "key \<noteq> []"
    and app: "csp_hmac_append key p False s = (r, s')"
    and recv: "payload t q = payload s' p" "pkt_length (packet t q) = pkt_length (packet s' p)"
  shows "r = CSP_ERR_NONE \<and> (\<exists>t'. csp_hmac_verify key q False t = (CSP_ERR_NONE, t') \<and> payload t' q = payload s p)
    \<and> (\<forall>u q' key'. key' \<noteq> [] \<longrightarrow> fst (csp_hmac_verify key' q' False u) = CSP_ERR_NONE \<longrightarrow>
        (\<exists>m. payload u q' = m @ take CSP_HMAC_LENGTH (hmac_ref key' m)))"
proof -
  let ?n = "unat (pkt_length (packet s p))"
  have lp: "length (payload u q) = unat (pkt_length (packet u q))" for u q by (simp add: payload_def data_bytes_def)
  have s': "s' = snd (csp_hmac_append key p False s)" and r: "r = 0"
    using app room by (simp_all add: csp_hmac_append_ok)
  have pay: "payload t q = payload s p @ take 4 (hmac_bytes key (payload s p))"
    using recv(1) room payload_extended [of s p "take 4 (hmac_bytes key (payload s p))"]
    by (simp add: s' csp_hmac_append_ok)
  have len: "unat (pkt_length (packet t q)) = ?n + 4"
    using arg_cong [OF pay, of length] by (simp add: lp)
  let ?t' = "upd_packet q (\<lambda>k. k\<lparr>pkt_length := pkt_length k - 4\<rparr>) t"
  have acc: "csp_hmac_verify key q False t = (0, ?t')"
    using len pay lp [of s p] by (simp add: csp_hmac_verify_False Let_def)
  have "unat (pkt_length (packet t q) - 4) = ?n"
    using len by (subst unat_diff_small) (simp_all add: word_le_nat_alt)
  then have "payload ?t' q = take ?n (payload t q)"
    using len by (simp add: payload_def data_bytes_def)
  then have restored: "payload ?t' q = payload s p" using pay lp [of s p] by simp
  have only: "\<exists>m. payload u q' = m @ take 4 (hmac_ref key' m)"
    if "key' \<noteq> []" "fst (csp_hmac_verify key' q' False u) = 0" for u q' key'
  proof
    let ?k = "unat (pkt_length (packet u q')) - 4"
    have "drop ?k (payload u q') = take 4 (hmac_ref key' (take ?k (payload u q')))"
      using that by (auto simp: csp_hmac_verify_False Let_def hmac_bytes_ref split: if_splits)
    then show "payload u q' = take ?k (payload u q') @ take 4 (hmac_ref key' (take ?k (payload u q')))"
      by (metis append_take_drop_id)
  qed
  from r acc restored only show ?thesis by blast
qed

end
