(* ===== verification/CSP_Crc32.thy ===== *)
theory CSP_Crc32
  imports CSP_Id
begin

text \<open>
  The CRC-32C checksum of \<^verbatim>\<open>src/src/csp_crc32.c\<close>: the table-driven update, and appending to
  and verifying on packets. The reference the table is checked against is the bitwise
  division by the reflected polynomial \<open>0x82F63B78\<close>.
\<close>

section \<open>Table and update\<close>

definition crc_tab :: "u32 list" where
  "crc_tab = [
     0x00000000, 0xF26B8303, 0xE13B70F7, 0x1350F3F4, 0xC79A971F, 0x35F1141C, 0x26A1E7E8, 0xD4CA64EB,
     0x8AD958CF, 0x78B2DBCC, 0x6BE22838, 0x9989AB3B, 0x4D43CFD0, 0xBF284CD3, 0xAC78BF27, 0x5E133C24,
     0x105EC76F, 0xE235446C, 0xF165B798, 0x030E349B, 0xD7C45070, 0x25AFD373, 0x36FF2087, 0xC494A384,
     0x9A879FA0, 0x68EC1CA3, 0x7BBCEF57, 0x89D76C54, 0x5D1D08BF, 0xAF768BBC, 0xBC267848, 0x4E4DFB4B,
     0x20BD8EDE, 0xD2D60DDD, 0xC186FE29, 0x33ED7D2A, 0xE72719C1, 0x154C9AC2, 0x061C6936, 0xF477EA35,
     0xAA64D611, 0x580F5512, 0x4B5FA6E6, 0xB93425E5, 0x6DFE410E, 0x9F95C20D, 0x8CC531F9, 0x7EAEB2FA,
     0x30E349B1, 0xC288CAB2, 0xD1D83946, 0x23B3BA45, 0xF779DEAE, 0x05125DAD, 0x1642AE59, 0xE4292D5A,
     0xBA3A117E, 0x4851927D, 0x5B016189, 0xA96AE28A, 0x7DA08661, 0x8FCB0562, 0x9C9BF696, 0x6EF07595,
     0x417B1DBC, 0xB3109EBF, 0xA0406D4B, 0x522BEE48, 0x86E18AA3, 0x748A09A0, 0x67DAFA54, 0x95B17957,
     0xCBA24573, 0x39C9C670, 0x2A993584, 0xD8F2B687, 0x0C38D26C, 0xFE53516F, 0xED03A29B, 0x1F682198,
     0x5125DAD3, 0xA34E59D0, 0xB01EAA24, 0x42752927, 0x96BF4DCC, 0x64D4CECF, 0x77843D3B, 0x85EFBE38,
     0xDBFC821C, 0x2997011F, 0x3AC7F2EB, 0xC8AC71E8, 0x1C661503, 0xEE0D9600, 0xFD5D65F4, 0x0F36E6F7,
     0x61C69362, 0x93AD1061, 0x80FDE395, 0x72966096, 0xA65C047D, 0x5437877E, 0x4767748A, 0xB50CF789,
     0xEB1FCBAD, 0x197448AE, 0x0A24BB5A, 0xF84F3859, 0x2C855CB2, 0xDEEEDFB1, 0xCDBE2C45, 0x3FD5AF46,
     0x7198540D, 0x83F3D70E, 0x90A324FA, 0x62C8A7F9, 0xB602C312, 0x44694011, 0x5739B3E5, 0xA55230E6,
     0xFB410CC2, 0x092A8FC1, 0x1A7A7C35, 0xE811FF36, 0x3CDB9BDD, 0xCEB018DE, 0xDDE0EB2A, 0x2F8B6829,
     0x82F63B78, 0x709DB87B, 0x63CD4B8F, 0x91A6C88C, 0x456CAC67, 0xB7072F64, 0xA457DC90, 0x563C5F93,
     0x082F63B7, 0xFA44E0B4, 0xE9141340, 0x1B7F9043, 0xCFB5F4A8, 0x3DDE77AB, 0x2E8E845F, 0xDCE5075C,
     0x92A8FC17, 0x60C37F14, 0x73938CE0, 0x81F80FE3, 0x55326B08, 0xA759E80B, 0xB4091BFF, 0x466298FC,
     0x1871A4D8, 0xEA1A27DB, 0xF94AD42F, 0x0B21572C, 0xDFEB33C7, 0x2D80B0C4, 0x3ED04330, 0xCCBBC033,
     0xA24BB5A6, 0x502036A5, 0x4370C551, 0xB11B4652, 0x65D122B9, 0x97BAA1BA, 0x84EA524E, 0x7681D14D,
     0x2892ED69, 0xDAF96E6A, 0xC9A99D9E, 0x3BC21E9D, 0xEF087A76, 0x1D63F975, 0x0E330A81, 0xFC588982,
     0xB21572C9, 0x407EF1CA, 0x532E023E, 0xA145813D, 0x758FE5D6, 0x87E466D5, 0x94B49521, 0x66DF1622,
     0x38CC2A06, 0xCAA7A905, 0xD9F75AF1, 0x2B9CD9F2, 0xFF56BD19, 0x0D3D3E1A, 0x1E6DCDEE, 0xEC064EED,
     0xC38D26C4, 0x31E6A5C7, 0x22B65633, 0xD0DDD530, 0x0417B1DB, 0xF67C32D8, 0xE52CC12C, 0x1747422F,
     0x49547E0B, 0xBB3FFD08, 0xA86F0EFC, 0x5A048DFF, 0x8ECEE914, 0x7CA56A17, 0x6FF599E3, 0x9D9E1AE0,
     0xD3D3E1AB, 0x21B862A8, 0x32E8915C, 0xC083125F, 0x144976B4, 0xE622F5B7, 0xF5720643, 0x07198540,
     0x590AB964, 0xAB613A67, 0xB831C993, 0x4A5A4A90, 0x9E902E7B, 0x6CFBAD78, 0x7FAB5E8C, 0x8DC0DD8F,
     0xE330A81A, 0x115B2B19, 0x020BD8ED, 0xF0605BEE, 0x24AA3F05, 0xD6C1BC06, 0xC5914FF2, 0x37FACCF1,
     0x69E9F0D5, 0x9B8273D6, 0x88D28022, 0x7AB90321, 0xAE7367CA, 0x5C18E4C9, 0x4F48173D, 0xBD23943E,
     0xF36E6F75, 0x0105EC76, 0x12551F82, 0xE03E9C81, 0x34F4F86A, 0xC69F7B69, 0xD5CF889D, 0x27A40B9E,
     0x79B737BA, 0x8BDCB4B9, 0x988C474D, 0x6AE7C44E, 0xBE2DA0A5, 0x4C4623A6, 0x5F16D052, 0xAD7D5351]"

text \<open>
  The pointer to the running checksum is passed by value and returned; the sources' guards
  against a null pointer in \<^verbatim>\<open>init\<close>, \<^verbatim>\<open>update\<close> and \<^verbatim>\<open>final\<close> do not arise here.
\<close>

definition csp_crc32_init :: u32 where
  "csp_crc32_init = 0xFFFFFFFF"

fun csp_crc32_update :: "u32 \<Rightarrow> u8 list \<Rightarrow> u32" where
  "csp_crc32_update crc [] = crc"
| "csp_crc32_update crc (b # bs) =
     csp_crc32_update (crc_tab ! unat ((crc XOR ucast b) AND 0xFF) XOR drop_bit 8 crc) bs"

definition csp_crc32_final :: "u32 \<Rightarrow> u32" where
  "csp_crc32_final crc = crc XOR 0xFFFFFFFF"

definition csp_crc32_memory :: "u8 list \<Rightarrow> u32" where
  "csp_crc32_memory bs = csp_crc32_final (csp_crc32_update csp_crc32_init bs)"

section \<open>Packets\<close>

text \<open>
  \<^verbatim>\<open>sizeof(packet->data)\<close> is \<^verbatim>\<open>CSP_BUFFER_SIZE\<close>. The checksum of an outgoing packet covers
  the data only (\<^verbatim>\<open>CSP_21\<close> is not defined by the build).
\<close>

definition csp_crc32_append :: "addr \<Rightarrow> csp_core \<Rightarrow> int \<times> csp_core" where
  "csp_crc32_append p s =
     (if unat (pkt_length (packet s p)) + 4 > CSP_BUFFER_SIZE then (CSP_ERR_NOMEM, s)
      else let crc = csp_crc32_memory (data_bytes s p (unat (pkt_length (packet s p))));
               s = write_data p (unat (pkt_length (packet s p))) (be_bytes 4 crc) s
           in (CSP_ERR_NONE, upd_packet p (\<lambda>k. k\<lparr>pkt_length := pkt_length k + 4\<rparr>) s))"

definition csp_crc32_verify :: "addr \<Rightarrow> csp_core \<Rightarrow> int \<times> csp_core" where
  "csp_crc32_verify p s =
     (if unat (pkt_length (packet s p)) < 4 then (CSP_ERR_CRC32, s)
      else let s = csp_id_prepend p s;
               crc = csp_crc32_memory (frame_bytes s p (unat (frame_length (packet s p)) - 4));
               stored = mem_read (pkt_mem (packet s p)) (DATA_OFF + unat (pkt_length (packet s p)) - 4) 4
           in if stored \<noteq> be_bytes 4 crc
              then let crc = csp_crc32_memory (data_bytes s p (unat (pkt_length (packet s p)) - 4))
                   in if stored \<noteq> be_bytes 4 crc then (CSP_ERR_CRC32, s)
                      else (CSP_ERR_NONE, upd_packet p (\<lambda>k. k\<lparr>pkt_length := pkt_length k - 4\<rparr>) s)
              else (CSP_ERR_NONE, upd_packet p (\<lambda>k. k\<lparr>pkt_length := pkt_length k - 4\<rparr>) s))"

section \<open>The bitwise reference\<close>

definition crc_step :: "u32 \<Rightarrow> u32" where
  "crc_step c = drop_bit 1 c XOR (if bit c 0 then 0x82F63B78 else 0)"

definition crc_byte :: "u32 \<Rightarrow> u8 \<Rightarrow> u32" where
  "crc_byte c b = (crc_step ^^ 8) (c XOR ucast b)"

definition crc_ref :: "u8 list \<Rightarrow> u32" where
  "crc_ref bs = foldl crc_byte 0xFFFFFFFF bs XOR 0xFFFFFFFF"

lemma crc_step_xor: "crc_step (a XOR b) = crc_step a XOR crc_step b"
  by (simp add: crc_step_def drop_bit_xor bit_xor_iff ac_simps)

lemma crc_steps_xor: "(crc_step ^^ n) (a XOR b) = (crc_step ^^ n) a XOR (crc_step ^^ n) b"
  by (induction n) (simp_all add: crc_step_xor)

text \<open>The most significant bit of a step is the bit that was shifted out, so a step can be undone.\<close>

lemma crc_step_msb: "bit (crc_step c) 31 = bit c 0"
proof -
  have "bit (0x82F63B78 :: u32) 31" by simp
  then show ?thesis
    by (auto simp: crc_step_def bit_xor_iff bit_drop_bit_eq dest: bit_imp_le_length)
qed

lemma crc_step_inj: "crc_step a = crc_step b \<Longrightarrow> a = b"
proof -
  assume eq: "crc_step a = crc_step b"
  then have low: "bit a 0 = bit b 0" by (metis crc_step_msb)
  with eq have "drop_bit 1 a XOR (if bit a 0 then 0x82F63B78 else 0)
      = drop_bit 1 b XOR (if bit a 0 then 0x82F63B78 else 0)"
    by (simp add: crc_step_def)
  from arg_cong [OF this, of "\<lambda>x. x XOR (if bit a 0 then 0x82F63B78 else 0)"]
  have dr: "drop_bit 1 a = drop_bit 1 b"
    by (simp add: xor.assoc)
  show "a = b"
  proof (rule bit_word_eqI)
    fix n
    show "bit a n = bit b n"
    proof (cases n)
      case 0
      with low show ?thesis by simp
    next
      case (Suc m)
      have "bit (drop_bit 1 a) m = bit (drop_bit 1 b) m" using dr by simp
      with Suc show ?thesis by (simp add: bit_drop_bit_eq)
    qed
  qed
qed

lemma crc_steps_inj: "(crc_step ^^ n) a = (crc_step ^^ n) b \<Longrightarrow> a = b"
  by (induction n) (auto dest: crc_step_inj)

lemma crc_steps_shift:
  "take_bit n c = 0 \<Longrightarrow> (crc_step ^^ n) c = drop_bit n c"
proof (induction n)
  case 0
  show ?case by simp
next
  case (Suc n)
  have "take_bit n c = 0"
    using Suc.prems by (metis le_add2 min_def plus_1_eq_Suc take_bit_of_0 take_bit_take_bit)
  moreover have "\<not> bit c n"
    using Suc.prems by (metis bit_0_eq bit_take_bit_iff bot_apply bot_bool_def lessI)
  ultimately show ?case
    using Suc.IH by (simp add: crc_step_def bit_drop_bit_eq)
qed

text \<open>
  The table holds the eight steps of every byte. By linearity, the entries of the bytes below
  \<open>2 ^ Suc k\<close> are those below \<open>2 ^ k\<close>, followed by the same XORed with the entry of \<open>2 ^ k\<close>,
  so only the eight powers of two need evaluating.
\<close>

definition crc_low :: "nat \<Rightarrow> u32 list" where
  "crc_low k = map (\<lambda>i. (crc_step ^^ 8) (of_nat i)) [0..<2 ^ k]"

lemma of_nat_high_bit:
  assumes "i < 2 ^ k"
  shows "(of_nat (2 ^ k + i) :: u32) = 2 ^ k XOR of_nat i"
proof -
  have "(of_nat i :: u32) = take_bit k (of_nat i)"
    using assms by (simp add: take_bit_of_nat take_bit_nat_eq_self)
  then have "bit (of_nat i :: u32) n \<Longrightarrow> n < k" for n
    by (metis bit_take_bit_iff)
  then have "(2 ^ k :: u32) AND of_nat i = 0"
    by (intro bit_word_eqI) (auto simp: bit_simps)
  then show ?thesis
    by (simp add: disjunctive_xor_eq_or disjunctive_add_eq_or)
qed

lemma crc_low_Suc: "crc_low (Suc k) = crc_low k @ map (\<lambda>x. (crc_step ^^ 8) (2 ^ k) XOR x) (crc_low k)"
proof (rule nth_equalityI)
  show "length (crc_low (Suc k)) = length (crc_low k @ map (\<lambda>x. (crc_step ^^ 8) (2 ^ k) XOR x) (crc_low k))"
    by (simp add: crc_low_def)
  fix i assume "i < length (crc_low (Suc k))"
  then have i: "i < 2 ^ k + 2 ^ k" by (simp add: crc_low_def)
  show "crc_low (Suc k) ! i = (crc_low k @ map (\<lambda>x. (crc_step ^^ 8) (2 ^ k) XOR x) (crc_low k)) ! i"
  proof (cases "i < 2 ^ k")
    case True
    with i show ?thesis by (simp add: crc_low_def nth_append)
  next
    case False
    define j where "j = i - 2 ^ k"
    with False i have j: "i = 2 ^ k + j" "j < 2 ^ k" by simp_all
    show ?thesis
      using j(2) of_nat_high_bit [OF j(2)] unfolding j(1)
      by (simp add: crc_low_def nth_append crc_steps_xor)
  qed
qed

lemma crc_steps_8: "(crc_step ^^ 8) c =
    crc_step (crc_step (crc_step (crc_step (crc_step (crc_step (crc_step (crc_step c)))))))"
  by (simp add: eval_nat_numeral)

lemma crc_basis:
  "(crc_step ^^ 8) 0 = 0"
  "(crc_step ^^ 8) 1 = 0xF26B8303"
  "(crc_step ^^ 8) 2 = 0xE13B70F7"
  "(crc_step ^^ 8) 4 = 0xC79A971F"
  "(crc_step ^^ 8) 8 = 0x8AD958CF"
  "(crc_step ^^ 8) 16 = 0x105EC76F"
  "(crc_step ^^ 8) 32 = 0x20BD8EDE"
  "(crc_step ^^ 8) 64 = 0x417B1DBC"
  "(crc_step ^^ 8) 128 = 0x82F63B78"
  unfolding crc_steps_8 by (simp_all add: crc_step_def)

lemma crc_low_numerals:
  "crc_low 0 = [0]"
  "crc_low 1 = [0, 0xF26B8303]"
  "crc_low 2 = [0, 0xF26B8303, 0xE13B70F7, 0x1350F3F4]"
  using crc_low_Suc [of 0] crc_low_Suc [of 1]
  by (simp_all add: crc_basis crc_low_def [of 0] numeral_2_eq_2 [symmetric])

lemma crc_tab_low: "crc_tab = crc_low 8"
  using crc_low_Suc [of 2] crc_low_Suc [of 3] crc_low_Suc [of 4] crc_low_Suc [of 5]
    crc_low_Suc [of 6] crc_low_Suc [of 7]
  by (simp add: crc_tab_def crc_low_numerals crc_basis)

lemma crc_tab_nth: "i < 256 \<Longrightarrow> crc_tab ! i = (crc_step ^^ 8) (of_nat i)"
  by (simp add: crc_tab_low crc_low_def)

text \<open>One round of the table-driven loop is eight steps of the division.\<close>

lemma crc_update_byte:
  "crc_tab ! unat ((crc XOR ucast b) AND 0xFF) XOR drop_bit 8 crc = crc_byte crc b"
proof -
  define x where "x = crc XOR (ucast b :: u32)"
  have split: "x = (x AND 0xFF) XOR push_bit 8 (drop_bit 8 x)"
    by (rule bit_word_eqI) (auto simp: bit_simps and_masks)
  have hi: "(crc_step ^^ 8) (push_bit 8 (drop_bit 8 x)) = drop_bit 8 (push_bit 8 (drop_bit 8 x))"
    by (rule crc_steps_shift) (simp add: take_bit_push_bit)
  have "drop_bit 8 (push_bit 8 (drop_bit 8 x)) = drop_bit 8 crc"
    by (rule bit_word_eqI) (auto simp: x_def bit_simps dest: bit_imp_le_length)
  moreover have low: "unat (x AND 0xFF) < 256"
    using take_bit_nat_less_exp [of 8 "unat x"] by (simp add: and_masks unsigned_take_bit_eq)
  ultimately have "(crc_step ^^ 8) x = (crc_step ^^ 8) (x AND 0xFF) XOR drop_bit 8 crc"
    using hi crc_steps_xor [of 8 "x AND 0xFF" "push_bit 8 (drop_bit 8 x)"] split by simp
  with low show ?thesis
    by (simp add: crc_tab_nth crc_byte_def x_def)
qed

lemma csp_crc32_update_ref: "csp_crc32_update crc bs = foldl crc_byte crc bs"
  by (induction crc bs rule: csp_crc32_update.induct) (simp_all add: crc_update_byte)

lemma csp_crc32_update_append:
  "csp_crc32_update crc (xs @ ys) = csp_crc32_update (csp_crc32_update crc xs) ys"
  by (simp add: csp_crc32_update_ref)

text \<open>The checksum registers are permuted by every byte, so different registers stay different.\<close>

lemma crc_byte_inj: "crc_byte c b = crc_byte c' b \<Longrightarrow> c = c'"
proof -
  assume "crc_byte c b = crc_byte c' b"
  then have "c XOR ucast b = c' XOR (ucast b :: u32)"
    unfolding crc_byte_def by (rule crc_steps_inj)
  from arg_cong [OF this, of "\<lambda>x. x XOR ucast b"] show "c = c'"
    by (simp add: xor.assoc)
qed

lemma crc_byte_inj_byte: "crc_byte c b = crc_byte c b' \<Longrightarrow> b = b'"
proof -
  assume "crc_byte c b = crc_byte c b'"
  then have "c XOR ucast b = c XOR (ucast b' :: u32)"
    unfolding crc_byte_def by (rule crc_steps_inj)
  from arg_cong [OF this, of "\<lambda>x. c XOR x"] have "(ucast b :: u32) = ucast b'"
    by (simp add: xor.assoc [symmetric])
  then have "bit (ucast b :: u32) n = bit (ucast b' :: u32) n" for n by simp
  then show "b = b'" by (intro bit_word_eqI) (fastforce simp: bit_simps)
qed

lemma crc_bytes_inj: "foldl crc_byte c bs = foldl crc_byte c' bs \<Longrightarrow> c = c'"
  by (induction bs arbitrary: c c') (auto dest: crc_byte_inj)

section \<open>Effects on packets\<close>

lemma csp_crc32_append_ok:
  assumes "unat (pkt_length (packet s p)) + 4 \<le> CSP_BUFFER_SIZE"
  shows "csp_crc32_append p s = (0, upd_packet p (\<lambda>k. k\<lparr>pkt_length := pkt_length k + 4,
      pkt_mem := mem_write (pkt_mem k) (DATA_OFF + unat (pkt_length k)) (be_bytes 4 (csp_crc32_memory (payload s p)))\<rparr>) s)"
  using assms by (simp add: csp_crc32_append_def Let_def write_data_def payload_def)
    (rule upd_packet_cong, simp)

lemma payload_append_crc:
  assumes "unat (pkt_length (packet s p)) + 4 \<le> CSP_BUFFER_SIZE"
  shows "payload (snd (csp_crc32_append p s)) p = payload s p @ be_bytes 4 (csp_crc32_memory (payload s p))"
proof -
  have "unat (pkt_length (packet s p) + 4) = unat (pkt_length (packet s p)) + 4"
    using assms by (subst unat_add_small) simp_all
  then show ?thesis
    using assms by (simp add: csp_crc32_append_ok payload_def [of "upd_packet _ _ _"] data_bytes_def
        mem_read_append mem_write_same mem_write_disjoint)
      (simp add: payload_def data_bytes_def)
qed

text \<open>The stored checksum, and the two checksums a received packet may carry.\<close>

definition crc_accepts :: "csp_core \<Rightarrow> addr \<Rightarrow> bool" where
  "crc_accepts s p \<longleftrightarrow> (let n = unat (pkt_length (packet s p)) - 4; body = take n (payload s p);
       stored = drop n (payload s p)
     in stored = be_bytes 4 (csp_crc32_memory (id_bytes s (pkt_id (packet s p)) @ body))
        \<or> stored = be_bytes 4 (csp_crc32_memory body))"

lemma csp_crc32_verify_cases:
  assumes "unat (pkt_length (packet s p)) + hdr_size s < 2 ^ 16"
  shows "csp_crc32_verify p s =
    (if unat (pkt_length (packet s p)) < 4 then (CSP_ERR_CRC32, s)
     else if crc_accepts s p
          then (0, upd_packet p (\<lambda>k. k\<lparr>pkt_length := pkt_length k - 4\<rparr>) (csp_id_prepend p s))
          else (CSP_ERR_CRC32, csp_id_prepend p s))"
proof (cases "unat (pkt_length (packet s p)) < 4")
  case True
  then show ?thesis by (simp add: csp_crc32_verify_def)
next
  case False
  let ?t = "csp_id_prepend p s" and ?n = "unat (pkt_length (packet s p)) - 4"
  have "unat (of_nat (hdr_size s) :: u16) = hdr_size s"
    using hdr_size_cases [of s] by auto
  then have "unat (frame_length (packet ?t p)) - 4 = hdr_size s + ?n"
    using assms False by (simp add: unat_add_small)
  then have hdr: "frame_bytes ?t p (unat (frame_length (packet ?t p)) - 4)
      = id_bytes s (pkt_id (packet s p)) @ data_bytes s p ?n"
    by (simp only: frame_bytes_prepend)
  have "mem_read (pkt_mem (packet ?t p)) (DATA_OFF + unat (pkt_length (packet s p)) - 4) 4
      = drop ?n (payload ?t p)"
    using False by (simp add: payload_def data_bytes_def)
  then have stored: "mem_read (pkt_mem (packet ?t p)) (DATA_OFF + unat (pkt_length (packet s p)) - 4) 4
      = drop ?n (payload s p)" by simp
  have body: "take ?n (payload s p) = data_bytes s p ?n"
    using False by (simp add: payload_def data_bytes_def)
  show ?thesis
    using False hdr stored body by (simp add: csp_crc32_verify_def crc_accepts_def Let_def)
qed

section \<open>Properties\<close>

text \<open>C5. The table-driven checksum is CRC-32C: for every input it equals the bitwise
  division of the message by the reflected Castagnoli polynomial.\<close>

theorem csp_crc32_is_crc32c: "csp_crc32_memory bs = crc_ref bs"
  by (simp add: csp_crc32_memory_def csp_crc32_final_def csp_crc32_init_def csp_crc32_update_ref crc_ref_def)

text \<open>The checksum detects every corruption confined to one byte: two messages that differ
  in exactly one byte, at any position of a message of any length, have different
  checksums.\<close>

theorem csp_crc32_detects_byte:
  "csp_crc32_memory (xs @ b # ys) = csp_crc32_memory (xs @ b' # ys) \<longleftrightarrow> b = b'"
proof
  assume eq: "csp_crc32_memory (xs @ b # ys) = csp_crc32_memory (xs @ b' # ys)"
  have cancel: "x = y" if "x XOR 0xFFFFFFFF = y XOR (0xFFFFFFFF :: u32)" for x y
    using arg_cong [OF that, of "\<lambda>z. z XOR 0xFFFFFFFF"] by (simp add: xor.assoc)
  have reg: "foldl crc_byte (crc_byte (foldl crc_byte 0xFFFFFFFF xs) b) ys
      = foldl crc_byte (crc_byte (foldl crc_byte 0xFFFFFFFF xs) b') ys"
    by (rule cancel) (use eq in \<open>simp add: csp_crc32_memory_def csp_crc32_final_def csp_crc32_init_def
        csp_crc32_update_ref\<close>)
  from crc_byte_inj_byte [OF crc_bytes_inj [OF reg]] show "b = b'" .
qed simp

text \<open>C4. Checksum round trip between two nodes: when a packet of node \<open>t\<close> has the payload
  that \<open>csp_crc32_append\<close> produced on node \<open>s\<close>, \<open>csp_crc32_verify\<close> accepts it there and
  leaves the payload the sender had before appending, whatever header the receiver sees.\<close>

theorem csp_crc32_roundtrip:
  assumes room: "unat (pkt_length (packet s p)) + 4 \<le> CSP_BUFFER_SIZE"
    and app: "csp_crc32_append p s = (r, s')" and recv: "payload t q = payload s' p"
    and len: "pkt_length (packet t q) = pkt_length (packet s' p)"
  shows "r = CSP_ERR_NONE \<and> (\<exists>t'. csp_crc32_verify q t = (CSP_ERR_NONE, t') \<and> payload t' q = payload s p)"
proof -
  let ?n = "unat (pkt_length (packet s p))"
  have s': "s' = snd (csp_crc32_append p s)" and r: "r = 0"
    using app room by (simp_all add: csp_crc32_append_ok)
  have lp: "length (payload s p) = ?n" by (simp add: payload_def data_bytes_def)
  have len': "unat (pkt_length (packet t q)) = ?n + 4"
    using room len by (simp add: s' csp_crc32_append_ok) (subst unat_add_small, simp_all)
  have pay: "payload t q = payload s p @ be_bytes 4 (csp_crc32_memory (payload s p))"
    using recv room by (simp add: s' payload_append_crc)
  have acc: "crc_accepts t q"
    using pay len' lp by (simp add: crc_accepts_def Let_def)
  have bound: "unat (pkt_length (packet t q)) + hdr_size t < 2 ^ 16"
    using len' room hdr_size_cases [of t] by auto
  have shorter: "unat (pkt_length (packet t q) - 4) = ?n"
    using len' by (subst unat_diff_small) (simp_all add: word_le_nat_alt)
  let ?t' = "upd_packet q (\<lambda>k. k\<lparr>pkt_length := pkt_length k - 4\<rparr>) (csp_id_prepend q t)"
  have "payload ?t' q = take ?n (payload (csp_id_prepend q t) q)"
    using shorter len' by (simp add: payload_def data_bytes_def)
  then have "payload ?t' q = payload s p" using pay lp by simp
  then show ?thesis
    using r acc len' csp_crc32_verify_cases [OF bound] by simp
qed

theorem csp_crc32_roundtrip_witness:
  "\<exists>s' t'. csp_crc32_append 0 example_core = (CSP_ERR_NONE, s')
     \<and> csp_crc32_verify 0 s' = (CSP_ERR_NONE, t') \<and> payload t' 0 = payload example_core 0"
proof -
  have room: "unat (pkt_length (packet example_core 0)) + 4 \<le> CSP_BUFFER_SIZE"
    by (simp add: example_core_def)
  obtain r s' where app: "csp_crc32_append 0 example_core = (r, s')" by fastforce
  show ?thesis
    using app csp_crc32_roundtrip [OF room app refl refl] by blast
qed

end
