(* ===== verification/CSP_Dedup.thy ===== *)
theory CSP_Dedup
  imports CSP_Crc32
begin

text \<open>
  Duplicate suppression, \<^verbatim>\<open>src/src/csp_dedup.c\<close>: a ring of the checksums and arrival times
  of the last packets. The specification is the history of accepted packets, newest
  first: a packet is a duplicate when one of the fifteen newest entries, with no entry
  older than the window before it, has its checksum.
\<close>

section \<open>State and operations\<close>

abbreviation (input) CSP_DEDUP_COUNT :: nat where "CSP_DEDUP_COUNT \<equiv> 16"
abbreviation (input) CSP_DEDUP_WINDOW_MS :: u32 where "CSP_DEDUP_WINDOW_MS \<equiv> 100"

record csp_dedup =
  csp_dedup_array :: "nat \<Rightarrow> u32"
  csp_dedup_timestamp :: "nat \<Rightarrow> u32"
  csp_dedup_in :: u32

text \<open>
  The scan from the newest entry. Index \<open>i\<close> is unsigned and wraps; the fuel bounds the rounds
  and \<open>dedup_scan_spec\<close> shows that sixteen are enough.
\<close>

fun dedup_scan :: "nat \<Rightarrow> csp_dedup \<Rightarrow> u32 \<Rightarrow> u32 \<Rightarrow> u32 \<Rightarrow> bool" where
  "dedup_scan 0 d crc time i = False"
| "dedup_scan (Suc fuel) d crc time i =
     (if i = csp_dedup_in d then False
      else if time > csp_dedup_timestamp d (unat i) + CSP_DEDUP_WINDOW_MS then False
      else if crc = csp_dedup_array d (unat i) then True
      else dedup_scan fuel d crc time ((i - 1) AND 15))"

definition csp_dedup_is_duplicate :: "addr \<Rightarrow> csp_core \<Rightarrow> csp_dedup \<Rightarrow> bool \<times> csp_core \<times> csp_dedup" where
  "csp_dedup_is_duplicate p s d =
     (let s = csp_id_prepend p s;
          crc = csp_crc32_memory (frame_bytes s p (unat (frame_length (packet s p))));
          time = csp_ms s
      in if dedup_scan CSP_DEDUP_COUNT d crc time ((csp_dedup_in d - 1) mod 16) then (True, s, d)
         else (False, s, d\<lparr>csp_dedup_array := (csp_dedup_array d)(unat (csp_dedup_in d) := crc),
                          csp_dedup_timestamp := (csp_dedup_timestamp d)(unat (csp_dedup_in d) := time),
                          csp_dedup_in := (csp_dedup_in d + 1) mod 16\<rparr>))"

section \<open>History\<close>

definition dedup_ok :: "csp_dedup \<Rightarrow> bool" where
  "dedup_ok d \<longleftrightarrow> unat (csp_dedup_in d) < CSP_DEDUP_COUNT"

definition dedup_slot :: "csp_dedup \<Rightarrow> nat \<Rightarrow> nat" where
  "dedup_slot d j = (unat (csp_dedup_in d) + 15 - j) mod 16"

text \<open>The entries of the ring, newest first; the oldest slot is the next to be overwritten.\<close>

definition dedup_hist :: "csp_dedup \<Rightarrow> (u32 \<times> u32) list" where
  "dedup_hist d = map (\<lambda>j. (csp_dedup_array d (dedup_slot d j), csp_dedup_timestamp d (dedup_slot d j))) [0..<15]"

definition dedup_spec :: "u32 \<Rightarrow> u32 \<Rightarrow> (u32 \<times> u32) list \<Rightarrow> bool" where
  "dedup_spec crc time h \<longleftrightarrow>
     crc \<in> set (map fst (takeWhile (\<lambda>(_, t). \<not> time > t + CSP_DEDUP_WINDOW_MS) h))"

lemma dedup_spec_Nil [simp]: "\<not> dedup_spec crc time []"
  by (simp add: dedup_spec_def)

lemma dedup_spec_Cons [simp]:
  "dedup_spec crc time ((c, t) # h) \<longleftrightarrow> \<not> time > t + CSP_DEDUP_WINDOW_MS \<and> (crc = c \<or> dedup_spec crc time h)"
  by (cases "t + CSP_DEDUP_WINDOW_MS < time") (simp_all add: dedup_spec_def del: set_map image_iff)

lemma of_nat_mod_16: "(of_nat n :: u32) mod 16 = of_nat (n mod 16)"
proof -
  have "(of_nat n :: u32) mod 2 ^ 4 = of_nat (n mod 2 ^ 4)"
    by (simp only: take_bit_eq_mod [symmetric] take_bit_of_nat)
  then show ?thesis by simp
qed

lemma and_15_mod: "(x :: u32) AND 15 = x mod 16"
proof -
  have "x AND 15 = take_bit 4 x" by (simp add: take_bit_eq_mask mask_eq_exp_minus_1)
  then show ?thesis by (simp add: take_bit_eq_mod)
qed

lemma pred_mod_16: "n < 16 \<Longrightarrow> ((of_nat n :: u32) - 1) mod 16 = of_nat ((n + 15) mod 16)"
proof (cases n)
  case 0
  have "(-1 :: u32) mod 16 = 15" by (simp add: and_15_mod [symmetric])
  with 0 show ?thesis by simp
next
  case (Suc m)
  then show "n < 16 \<Longrightarrow> ?thesis" using of_nat_mod_16 [of m] by simp
qed

lemma dedup_slot_less [simp]: "dedup_slot d j < 16"
  by (simp add: dedup_slot_def)

lemma dedup_slot_0: "dedup_ok d \<Longrightarrow> (csp_dedup_in d - 1) mod 16 = of_nat (dedup_slot d 0)"
  using pred_mod_16 [of "unat (csp_dedup_in d)"] by (simp add: dedup_ok_def dedup_slot_def)

lemma dedup_slot_Suc:
  assumes "dedup_ok d" "j < 15"
  shows "((of_nat (dedup_slot d j) :: u32) - 1) AND 15 = of_nat (dedup_slot d (Suc j))"
proof -
  have "(dedup_slot d j + 15) mod 16 = dedup_slot d (Suc j)"
  proof -
    have "unat (csp_dedup_in d) + 15 - j + 15 = (unat (csp_dedup_in d) + 15 - Suc j) + 16" using assms by simp
    then show ?thesis unfolding dedup_slot_def by (metis mod_add_left_eq mod_add_self2)
  qed
  then show ?thesis
    by (simp add: and_15_mod pred_mod_16)
qed

lemma dedup_slot_in:
  assumes "dedup_ok d" "j \<le> 15"
  shows "of_nat (dedup_slot d j) = csp_dedup_in d \<longleftrightarrow> j = 15"
proof -
  have "(of_nat (dedup_slot d j) = csp_dedup_in d) = (dedup_slot d j = unat (csp_dedup_in d))"
    using less_trans [OF dedup_slot_less [of d j], of "2 ^ 32"] by (intro of_nat_eq_word) simp
  also have "\<dots> \<longleftrightarrow> j = 15"
    using assms by (auto simp: dedup_slot_def dedup_ok_def mod_if split: if_splits)
  finally show ?thesis .
qed

lemma dedup_scan_spec:
  assumes "dedup_ok d" "k \<le> 15"
  shows "dedup_scan (Suc k) d crc time (of_nat (dedup_slot d (15 - k)))
    = dedup_spec crc time (drop (15 - k) (dedup_hist d))"
  using assms(2)
proof (induction k)
  case 0
  then show ?case
    using dedup_slot_in [OF assms(1), of 15] by (simp add: dedup_hist_def)
next
  case (Suc k)
  define j where "j = 15 - Suc k"
  have j: "j < 15" "15 - k = Suc j" using Suc.prems by (simp_all add: j_def)
  have unat: "unat (of_nat (dedup_slot d j) :: u32) = dedup_slot d j"
    using less_trans [OF dedup_slot_less [of d j], of "2 ^ 32"] by (intro unat_of_nat_small) simp
  have "drop j (dedup_hist d) = dedup_hist d ! j # drop (Suc j) (dedup_hist d)"
    using j Cons_nth_drop_Suc [of j "dedup_hist d"] by (simp add: dedup_hist_def)
  moreover have "dedup_hist d ! j = (csp_dedup_array d (dedup_slot d j), csp_dedup_timestamp d (dedup_slot d j))"
    using j by (simp add: dedup_hist_def)
  ultimately show ?case
    using Suc j dedup_slot_in [OF assms(1), of j] dedup_slot_Suc [OF assms(1) j(1)]
    unfolding j_def [symmetric] dedup_scan.simps(2) [of "Suc k"] by (simp add: unat del: dedup_scan.simps)
qed

lemma dedup_insert_slot:
  assumes "dedup_ok d" and "j < 16"
  shows "(Suc (unat (csp_dedup_in d)) mod 16 + 15 - j) mod 16
    = (if j = 0 then unat (csp_dedup_in d) else dedup_slot d (j - 1))"
  using assms by (auto simp: dedup_ok_def dedup_slot_def mod_if split: if_splits)

section \<open>Properties\<close>

text \<open>C8. Duplicate suppression: \<open>csp_dedup_is_duplicate\<close> answers yes exactly when the
  specification finds the packet's checksum in the history; then the history stays, and
  otherwise the packet enters it as the newest of fifteen entries. The index stays inside
  the ring.\<close>

theorem csp_dedup_refines:
  assumes ok: "dedup_ok d" and run: "csp_dedup_is_duplicate p s d = (dup, s', d')"
    and crc: "crc = csp_crc32_memory (frame_bytes s' p (unat (frame_length (packet s' p))))"
  shows "dup = dedup_spec crc (csp_ms s) (dedup_hist d)
    \<and> dedup_hist d' = (if dup then dedup_hist d else (crc, csp_ms s) # butlast (dedup_hist d))
    \<and> dedup_ok d' \<and> s' = csp_id_prepend p s"
proof -
  have s': "s' = csp_id_prepend p s"
    using run by (auto simp: csp_dedup_is_duplicate_def Let_def split: if_splits)
  have scan: "dedup_scan 16 d crc (csp_ms s) ((csp_dedup_in d - 1) mod 16)
      = dedup_spec crc (csp_ms s) (dedup_hist d)"
    using dedup_scan_spec [OF ok, of 15] dedup_slot_0 [OF ok] by (simp add: eval_nat_numeral)
  then have dup: "dup = dedup_spec crc (csp_ms s) (dedup_hist d)"
    and d': "d' = (if dup then d else d\<lparr>csp_dedup_array := (csp_dedup_array d)(unat (csp_dedup_in d) := crc),
       csp_dedup_timestamp := (csp_dedup_timestamp d)(unat (csp_dedup_in d) := csp_ms s),
       csp_dedup_in := (csp_dedup_in d + 1) mod 16\<rparr>)"
    using run by (auto simp: csp_dedup_is_duplicate_def Let_def s' crc split: if_splits)
  have next_in: "unat ((csp_dedup_in d + 1) mod 16) = Suc (unat (csp_dedup_in d)) mod 16"
  proof -
    have "unat (csp_dedup_in d + 1) = Suc (unat (csp_dedup_in d))"
      using ok by (intro unat_Suc_small) (simp add: dedup_ok_def)
    then show ?thesis by (simp add: unat_mod)
  qed
  have "dedup_hist d' = (crc, csp_ms s) # butlast (dedup_hist d)" if "\<not> dup"
  proof (rule nth_equalityI)
    fix i assume "i < length (dedup_hist d')"
    then have i: "i < 15" by (simp add: dedup_hist_def)
    have ne: "dedup_slot d (i - 1) \<noteq> unat (csp_dedup_in d)" if "0 < i"
      using dedup_slot_in [OF ok, of "i - 1"] i of_nat_eq_word [of "dedup_slot d (i - 1)" "csp_dedup_in d"]
        less_trans [OF dedup_slot_less [of d "i - 1"], of "2 ^ 32"] that
      by (simp; linarith)
    show "dedup_hist d' ! i = ((crc, csp_ms s) # butlast (dedup_hist d)) ! i"
      using i that ne dedup_insert_slot [OF ok, of i]
      by (cases i) (simp_all add: d' dedup_hist_def dedup_slot_def [of "csp_dedup_in_update _ _"] next_in nth_butlast)
  qed (simp add: dedup_hist_def)
  moreover have "dedup_ok d'" using ok by (simp add: d' dedup_ok_def next_in)
  ultimately show ?thesis using dup s' d' by simp
qed

theorem csp_dedup_refines_witness:
  "\<exists>dup s' d'. csp_dedup_is_duplicate 0 example_core \<lparr>csp_dedup_array = (\<lambda>_. 0), csp_dedup_timestamp = (\<lambda>_. 0), csp_dedup_in = 0\<rparr>
     = (dup, s', d') \<and> dedup_ok d'"
proof -
  let ?d = "\<lparr>csp_dedup_array = (\<lambda>_. 0), csp_dedup_timestamp = (\<lambda>_. 0), csp_dedup_in = 0\<rparr>"
  have ok: "dedup_ok ?d" by (simp add: dedup_ok_def)
  obtain dup s' d' where r: "csp_dedup_is_duplicate 0 example_core ?d = (dup, s', d')"
    by (metis prod_cases3)
  show ?thesis using r csp_dedup_refines [OF ok r refl] by blast
qed

end
