(* ===== verification/CSP_Iflist.thy ===== *)
theory CSP_Iflist
  imports CSP_Id
begin

text \<open>
  The list of interfaces, \<^verbatim>\<open>src/src/csp_iflist.c\<close>: interface objects on a heap, chained
  through \<^verbatim>\<open>next\<close>. The invariant is a finite chain without repetition from
  \<open>interfaces\<close> to \<^verbatim>\<open>NULL\<close>; under it every search is a search in the list of the chain, and
  adding and removing act on that list.
\<close>

section \<open>State\<close>

record csp_iflist =
  ifaces :: "addr \<Rightarrow> csp_iface"
  interfaces :: "addr option"

text \<open>
  The interface objects of the program have addresses below \<open>IF_MAX\<close>, the loopback interface
  \<^verbatim>\<open>csp_if_lo\<close> the first. A chain without repetition has at most \<open>IF_MAX\<close> members, so that many
  rounds of a loop over the chain reach its end.
\<close>

abbreviation (input) IF_MAX :: nat where "IF_MAX \<equiv> 256"
abbreviation (input) csp_if_lo :: addr where "csp_if_lo \<equiv> 0"
abbreviation (input) CSP_IFLIST_NAME_MAX :: nat where "CSP_IFLIST_NAME_MAX \<equiv> 10"

text \<open>\<^verbatim>\<open>strncmp(a, b, n) == 0\<close> on two C strings.\<close>

definition strncmp_eq :: "nat \<Rightarrow> string option \<Rightarrow> string option \<Rightarrow> bool" where
  "strncmp_eq n a b = (case (a, b) of (Some x, Some y) \<Rightarrow> take n x = take n y | _ \<Rightarrow> False)"

section \<open>Operations\<close>

definition csp_iflist_is_within_subnet :: "u8 \<Rightarrow> u16 \<Rightarrow> csp_iface option \<Rightarrow> bool" where
  "csp_iflist_is_within_subnet ver a iface =
     (case iface of
        None \<Rightarrow> False
      | Some ifc \<Rightarrow>
          let netmask = push_bit (csp_id_get_host_bits ver - unat (if_netmask ifc))
                (push_bit (unat (if_netmask ifc)) 1 - 1 :: u16);
              network_a = if_addr ifc AND netmask;
              network_b = a AND netmask
          in network_a = network_b)"

text \<open>The loop \<^verbatim>\<open>while (ifc) { if (test) return ifc; ifc = ifc->next; }\<close>.\<close>

fun if_find :: "nat \<Rightarrow> (addr \<Rightarrow> bool) \<Rightarrow> (addr \<Rightarrow> csp_iface) \<Rightarrow> addr option \<Rightarrow> addr option" where
  "if_find 0 test h ifc = None"
| "if_find (Suc n) test h None = None"
| "if_find (Suc n) test h (Some i) = (if test i then Some i else if_find n test h (if_next (h i)))"

definition if_start :: "addr option \<Rightarrow> csp_iflist \<Rightarrow> addr option" where
  "if_start ifc l = (case ifc of None \<Rightarrow> interfaces l | Some i \<Rightarrow> if_next (ifaces l i))"

definition csp_iflist_get_by_subnet :: "u8 \<Rightarrow> u16 \<Rightarrow> addr option \<Rightarrow> csp_iflist \<Rightarrow> addr option" where
  "csp_iflist_get_by_subnet ver a ifc l =
     if_find (Suc IF_MAX) (\<lambda>i. if_netmask (ifaces l i) \<noteq> 0 \<and> csp_iflist_is_within_subnet ver a (Some (ifaces l i)))
       (ifaces l) (if_start ifc l)"

definition csp_iflist_get_by_isdfl :: "addr option \<Rightarrow> csp_iflist \<Rightarrow> addr option" where
  "csp_iflist_get_by_isdfl ifc l =
     if_find (Suc IF_MAX) (\<lambda>i. is_default (ifaces l i) = 1) (ifaces l) (if_start ifc l)"

definition csp_iflist_iterate :: "addr option \<Rightarrow> csp_iflist \<Rightarrow> addr option" where
  "csp_iflist_iterate ifc l = if_start ifc l"

fun check_dfl_loop :: "nat \<Rightarrow> addr option \<Rightarrow> csp_iflist \<Rightarrow> csp_iflist" where
  "check_dfl_loop 0 iface l = l"
| "check_dfl_loop (Suc n) iface l =
     (case csp_iflist_iterate iface l of
        None \<Rightarrow> l
      | Some i \<Rightarrow>
          if i = csp_if_lo then check_dfl_loop n (Some i) l
          else check_dfl_loop n (Some i) (l\<lparr>ifaces := (ifaces l)(i := (ifaces l i)\<lparr>is_default := 1\<rparr>)\<rparr>))"

definition csp_iflist_check_dfl :: "csp_iflist \<Rightarrow> csp_iflist" where
  "csp_iflist_check_dfl l =
     (case csp_iflist_get_by_isdfl None l of
        Some _ \<Rightarrow> l
      | None \<Rightarrow> check_dfl_loop (Suc IF_MAX) None l)"

definition csp_iflist_get_by_addr :: "u16 \<Rightarrow> csp_iflist \<Rightarrow> addr option" where
  "csp_iflist_get_by_addr a l = if_find (Suc IF_MAX) (\<lambda>i. if_addr (ifaces l i) = a) (ifaces l) (interfaces l)"

definition csp_iflist_get_by_name :: "string \<Rightarrow> csp_iflist \<Rightarrow> addr option" where
  "csp_iflist_get_by_name nm l =
     if_find (Suc IF_MAX) (\<lambda>i. strncmp_eq CSP_IFLIST_NAME_MAX (if_name (ifaces l i)) (Some nm)) (ifaces l) (interfaces l)"

fun index_loop :: "nat \<Rightarrow> (addr \<Rightarrow> csp_iface) \<Rightarrow> addr option \<Rightarrow> addr option" where
  "index_loop idx h None = None"
| "index_loop 0 h (Some i) = Some i"
| "index_loop (Suc idx) h (Some i) = index_loop idx h (if_next (h i))"

text \<open>A negative index is never counted down to zero: the loop ends at the end of the list.\<close>

definition csp_iflist_get_by_index :: "int \<Rightarrow> csp_iflist \<Rightarrow> addr option" where
  "csp_iflist_get_by_index idx l = (if idx < 0 then None else index_loop (nat idx) (ifaces l) (interfaces l))"

text \<open>
  The loop of \<^verbatim>\<open>csp_iflist_add\<close>: \<open>Some last\<close> when the end was reached, \<open>None\<close> on the early
  return for an interface already there.
\<close>

fun add_loop :: "nat \<Rightarrow> addr \<Rightarrow> (addr \<Rightarrow> csp_iface) \<Rightarrow> addr option \<Rightarrow> addr \<Rightarrow> addr option" where
  "add_loop 0 ifc h i lst = None"
| "add_loop (Suc n) ifc h None lst = Some lst"
| "add_loop (Suc n) ifc h (Some i) lst =
     (if i = ifc \<or> strncmp_eq CSP_IFLIST_NAME_MAX (if_name (h ifc)) (if_name (h i)) then None
      else add_loop n ifc h (if_next (h i)) i)"

definition csp_iflist_add :: "addr option \<Rightarrow> csp_iflist \<Rightarrow> csp_iflist" where
  "csp_iflist_add ifc l =
     (case ifc of
        None \<Rightarrow> l
      | Some i \<Rightarrow>
          if if_name (ifaces l i) = None then l
          else let l = l\<lparr>ifaces := (ifaces l)(i := (ifaces l i)\<lparr>if_next := None\<rparr>)\<rparr>
               in case interfaces l of
                    None \<Rightarrow> l\<lparr>interfaces := Some i\<rparr>
                  | Some f \<Rightarrow>
                      (case add_loop (Suc (Suc IF_MAX)) i (ifaces l) (interfaces l) f of
                         None \<Rightarrow> l
                       | Some lst \<Rightarrow> l\<lparr>ifaces := (ifaces l)(lst := (ifaces l lst)\<lparr>if_next := Some i\<rparr>)\<rparr>))"

text \<open>The member whose successor is the interface to remove.\<close>

definition csp_iflist_remove :: "addr option \<Rightarrow> csp_iflist \<Rightarrow> csp_iflist" where
  "csp_iflist_remove ifc l =
     (case ifc of
        None \<Rightarrow> l
      | Some i \<Rightarrow>
          if interfaces l = Some i
          then l\<lparr>interfaces := if_next (ifaces l i), ifaces := (ifaces l)(i := (ifaces l i)\<lparr>if_next := None\<rparr>)\<rparr>
          else case if_find (Suc IF_MAX) (\<lambda>cur. if_next (ifaces l cur) = Some i) (ifaces l) (interfaces l) of
                 None \<Rightarrow> l
               | Some cur \<Rightarrow>
                   let h = (ifaces l)(cur := (ifaces l cur)\<lparr>if_next := if_next (ifaces l i)\<rparr>)
                   in l\<lparr>ifaces := h(i := (h i)\<lparr>if_next := None\<rparr>)\<rparr>)"

definition csp_iflist_get :: "csp_iflist \<Rightarrow> addr option" where
  "csp_iflist_get l = interfaces l"

definition csp_bytesize :: "nat \<Rightarrow> nat \<times> char" where
  "csp_bytesize bytes =
     (if bytes \<ge> 1024 * 1024 then (bytes div (1024 * 1024), CHR ''M'')
      else if bytes \<ge> 1024 then (bytes div 1024, CHR ''K'')
      else (bytes, CHR ''B''))"

section \<open>The chain\<close>

fun chain :: "(addr \<Rightarrow> csp_iface) \<Rightarrow> addr option \<Rightarrow> addr list \<Rightarrow> bool" where
  "chain h p [] = (p = None)"
| "chain h p (x # xs) = (p = Some x \<and> chain h (if_next (h x)) xs)"

text \<open>A segment of the chain from \<open>p\<close> through \<open>xs\<close> to the pointer \<open>q\<close>.\<close>

fun chain_to :: "(addr \<Rightarrow> csp_iface) \<Rightarrow> addr option \<Rightarrow> addr list \<Rightarrow> addr option \<Rightarrow> bool" where
  "chain_to h p [] q = (p = q)"
| "chain_to h p (x # xs) q = (p = Some x \<and> chain_to h (if_next (h x)) xs q)"

definition iflist_is :: "csp_iflist \<Rightarrow> addr list \<Rightarrow> bool" where
  "iflist_is l xs \<longleftrightarrow> chain (ifaces l) (interfaces l) xs \<and> distinct xs \<and> set xs \<subseteq> {..<IF_MAX}
     \<and> (\<forall>i\<in>set xs. if_name (ifaces l i) \<noteq> None)"

lemma chain_length: "iflist_is l xs \<Longrightarrow> length xs \<le> IF_MAX"
  using card_mono [of "{..<IF_MAX}" "set xs"] by (auto simp: iflist_is_def distinct_card)

lemma chain_cong: "(\<And>x. x \<in> set xs \<Longrightarrow> if_next (h x) = if_next (h' x)) \<Longrightarrow> chain h p xs = chain h' p xs"
  by (induction xs arbitrary: p) auto

lemma chain_append: "chain h p (xs @ ys) \<longleftrightarrow> (\<exists>q. chain_to h p xs q \<and> chain h q ys)"
  by (induction xs arbitrary: p) auto

lemma chain_to_append: "chain_to h p (xs @ ys) q \<longleftrightarrow> (\<exists>r. chain_to h p xs r \<and> chain_to h r ys q)"
  by (induction xs arbitrary: p) auto

lemma chain_eq_chain_to: "chain h p xs \<longleftrightarrow> chain_to h p xs None"
  by (induction xs arbitrary: p) auto

lemma chain_to_cong:
  "(\<And>x. x \<in> set xs \<Longrightarrow> if_next (h x) = if_next (h' x)) \<Longrightarrow> chain_to h p xs q = chain_to h' p xs q"
  by (induction xs arbitrary: p) auto

text \<open>Redirecting the last member of a segment.\<close>

lemma chain_to_redirect:
  assumes "chain_to h p (xs @ [x]) r" "x \<notin> set xs" "if_next (h' x) = q"
    and "\<And>y. y \<in> set xs \<Longrightarrow> if_next (h' y) = if_next (h y)"
  shows "chain_to h' p (xs @ [x]) q"
proof -
  have "chain_to h' p xs r = chain_to h p xs r" for r
    by (rule chain_to_cong) (use assms(4) in auto)
  then show ?thesis using assms(1,3) by (simp add: chain_to_append)
qed

lemma if_find_chain:
  "chain h p xs \<Longrightarrow> length xs < n \<Longrightarrow> if_find n test h p = find test xs"
proof (induction xs arbitrary: n p)
  case Nil
  then show ?case by (cases n) auto
next
  case (Cons x xs)
  then show ?case by (cases n) auto
qed

lemma if_find_iflist:
  assumes "iflist_is l (xs @ ys)" and "chain (ifaces l) p ys"
  shows "if_find (Suc IF_MAX) test (ifaces l) p = find test ys"
  using chain_length [OF assms(1)] by (intro if_find_chain assms(2)) simp

lemma iflist_tail:
  "iflist_is l (xs @ i # ys) \<Longrightarrow> chain (ifaces l) (if_next (ifaces l i)) ys"
  by (auto simp: iflist_is_def chain_append)

lemma iflist_next:
  "iflist_is l (xs @ i # ys) \<Longrightarrow> if_next (ifaces l i) = (case ys of [] \<Rightarrow> None | y # _ \<Rightarrow> Some y)"
  using iflist_tail [of l xs i ys] by (auto split: list.splits)

lemma index_loop_chain:
  "chain h p xs \<Longrightarrow> index_loop n h p = (if n < length xs then Some (xs ! n) else None)"
proof (induction xs arbitrary: n p)
  case (Cons x xs)
  then show ?case by (cases n) auto
qed simp

text \<open>The loop of \<open>csp_iflist_add\<close> finds the end of the chain, or a member with the same address or name.\<close>

abbreviation (input) same_if :: "csp_iflist \<Rightarrow> addr \<Rightarrow> addr \<Rightarrow> bool" where
  "same_if l i j \<equiv> j = i \<or> strncmp_eq CSP_IFLIST_NAME_MAX (if_name (ifaces l i)) (if_name (ifaces l j))"

lemma add_loop_chain:
  "chain h p xs \<Longrightarrow> length xs < n \<Longrightarrow>
   add_loop n i h p l = (if \<exists>j\<in>set xs. j = i \<or> strncmp_eq CSP_IFLIST_NAME_MAX (if_name (h i)) (if_name (h j)) then None
     else Some (last (l # xs)))"
proof (induction xs arbitrary: n p l)
  case Nil
  then show ?case by (cases n) auto
next
  case (Cons x xs)
  then show ?case by (cases n) auto
qed

lemma strncmp_eq_refl: "a \<noteq> None \<Longrightarrow> strncmp_eq n a a"
  by (auto simp: strncmp_eq_def)

lemma iflist_add_new:
  assumes l: "iflist_is l xs" and i: "i < IF_MAX" "i \<notin> set xs" "if_name (ifaces l i) \<noteq> None"
    and fresh: "\<not> (\<exists>j\<in>set xs. strncmp_eq CSP_IFLIST_NAME_MAX (if_name (ifaces l i)) (if_name (ifaces l j)))"
  shows "iflist_is (csp_iflist_add (Some i) l) (xs @ [i])"
proof -
  let ?h = "(ifaces l)(i := (ifaces l i)\<lparr>if_next := None\<rparr>)"
  have ch: "chain ?h (interfaces l) xs"
    using l i(2) by (subst chain_cong [of _ _ "ifaces l"]) (auto simp: iflist_is_def)
  have len: "length xs < Suc (Suc IF_MAX)" using chain_length [OF l] by simp
  show ?thesis
  proof (cases xs rule: rev_cases)
    case Nil
    then show ?thesis
      using l i by (auto simp: csp_iflist_add_def iflist_is_def Let_def)
  next
    case (snoc ys y)
    then obtain f where f: "interfaces l = Some f"
      using ch by (cases ys) auto
    have loop: "add_loop (Suc (Suc IF_MAX)) i ?h (interfaces l) f = Some y"
      using add_loop_chain [OF ch len, of i f] i(2) fresh snoc by (auto split: if_splits)
    have y: "y \<noteq> i" "y \<notin> set ys" "distinct ys" using l i(2) snoc by (auto simp: iflist_is_def)
    let ?h' = "?h(y := (?h y)\<lparr>if_next := Some i\<rparr>)"
    have "chain_to ?h' (interfaces l) (ys @ [y]) (Some i)"
      by (rule chain_to_redirect [of ?h _ _ _ None]) (use ch snoc y in \<open>auto simp: chain_eq_chain_to\<close>)
    then have "chain ?h' (interfaces l) (xs @ [i])"
      using y(1) snoc by (auto simp: chain_append chain_to_append)
    moreover have "csp_iflist_add (Some i) l = l\<lparr>ifaces := ?h'\<rparr>"
      using i(3) f loop by (auto simp: csp_iflist_add_def Let_def)
    ultimately show ?thesis
      using l i snoc by (auto simp: iflist_is_def)
  qed
qed

text \<open>An interface already in the list: its \<^verbatim>\<open>next\<close> is cleared before the check for it.\<close>

lemma iflist_add_member:
  assumes l: "iflist_is l (xs @ i # ys)"
  shows "iflist_is (csp_iflist_add (Some i) l) (xs @ [i])"
proof -
  let ?h = "(ifaces l)(i := (ifaces l i)\<lparr>if_next := None\<rparr>)"
  have d: "distinct (xs @ i # ys)" "if_name (ifaces l i) \<noteq> None" using l by (auto simp: iflist_is_def)
  have "chain_to (ifaces l) (interfaces l) (xs @ [i]) (if_next (ifaces l i))"
    using l by (auto simp: iflist_is_def chain_append chain_to_append)
  then have ch: "chain ?h (interfaces l) (xs @ [i])"
    unfolding chain_eq_chain_to by (rule chain_to_redirect) (use d in auto)
  have len: "length (xs @ [i]) < Suc (Suc IF_MAX)" using chain_length [OF l] by simp
  have none: "add_loop (Suc (Suc IF_MAX)) i ?h (interfaces l) f = None" for f
    using add_loop_chain [OF ch len, of i f] by (simp split: if_splits)
  obtain f where "interfaces l = Some f" using ch by (cases xs) auto
  then have "csp_iflist_add (Some i) l = l\<lparr>ifaces := ?h\<rparr>"
    using d(2) none by (auto simp: csp_iflist_add_def Let_def)
  then show ?thesis using l ch by (auto simp: iflist_is_def)
qed

lemma iflist_remove:
  assumes l: "iflist_is l xs"
  shows "iflist_is (csp_iflist_remove (Some i) l) (remove1 i xs)"
proof (cases "interfaces l = Some i")
  case True
  then obtain ys where xs: "xs = i # ys" using l by (cases xs) (auto simp: iflist_is_def)
  let ?h = "(ifaces l)(i := (ifaces l i)\<lparr>if_next := None\<rparr>)"
  have "chain ?h (if_next (ifaces l i)) ys"
    using l xs by (subst chain_cong [of _ _ "ifaces l"]) (auto simp: iflist_is_def)
  then show ?thesis
    using l xs True by (auto simp: csp_iflist_remove_def iflist_is_def)
next
  case False
  let ?test = "\<lambda>cur. if_next (ifaces l cur) = Some i"
  have fnd: "if_find (Suc IF_MAX) ?test (ifaces l) (interfaces l) = find ?test xs"
    using if_find_iflist [of l "[]" xs] l by (simp add: iflist_is_def)
  show ?thesis
  proof (cases "i \<in> set xs")
    case False
    have "find ?test xs = None"
    proof -
      have "\<not> ?test x" if "x \<in> set xs" for x
      proof
        assume t: "?test x"
        from that obtain a b where ab: "xs = a @ x # b" by (auto simp: in_set_conv_decomp)
        then show False
          using l t False iflist_next [of l a x b] by (auto split: list.splits)
      qed
      then show ?thesis by (simp add: find_None_iff)
    qed
    with False \<open>interfaces l \<noteq> Some i\<close> fnd l show ?thesis
      by (simp add: csp_iflist_remove_def remove1_idem)
  next
    case True
    then obtain as b where ab: "xs = as @ i # b" by (auto simp: in_set_conv_decomp)
    then obtain a cur where a: "as = a @ [cur]"
      using l False by (cases as rule: rev_cases) (auto simp: iflist_is_def)
    have xs: "xs = a @ cur # i # b" using ab a by simp
    have d: "distinct xs" using l by (simp add: iflist_is_def)
    have ncur: "?test cur" using iflist_next [of l a cur "i # b"] l xs by simp
    have "\<not> ?test x" if "x \<in> set a" for x
    proof -
      from that obtain a1 a2 where a12: "a = a1 @ x # a2" by (auto simp: in_set_conv_decomp)
      then show ?thesis
        using iflist_next [of l a1 x "a2 @ cur # i # b"] l d xs by (cases a2) auto
    qed
    then have fcur: "find ?test xs = Some cur"
      using ncur unfolding xs by (induction a) auto
    let ?h = "(ifaces l)(cur := (ifaces l cur)\<lparr>if_next := if_next (ifaces l i)\<rparr>, i := (ifaces l i)\<lparr>if_next := None\<rparr>)"
    have rem: "csp_iflist_remove (Some i) l = l\<lparr>ifaces := ?h\<rparr>"
      using \<open>interfaces l \<noteq> Some i\<close> fnd fcur d xs by (auto simp: csp_iflist_remove_def Let_def)
    have seg: "chain_to (ifaces l) (interfaces l) (a @ [cur]) (Some i)"
      and tl: "chain (ifaces l) (if_next (ifaces l i)) b"
      using l xs by (auto simp: iflist_is_def chain_append chain_to_append)
    have "chain_to ?h (interfaces l) (a @ [cur]) (if_next (ifaces l i))"
      by (rule chain_to_redirect [OF seg]) (use d xs in auto)
    moreover have "chain ?h (if_next (ifaces l i)) b"
      using tl d xs by (subst chain_cong [of _ _ "ifaces l"]) auto
    ultimately have "chain ?h (interfaces l) ((a @ [cur]) @ b)"
      unfolding chain_append by blast
    then show ?thesis
      using l d xs by (auto simp: rem iflist_is_def remove1_append)
  qed
qed

lemma check_dfl_loop_eq:
  "chain (ifaces l) (if_start p l) ys \<Longrightarrow> length ys < n \<Longrightarrow> distinct ys \<Longrightarrow>
   check_dfl_loop n p l = l\<lparr>ifaces := (\<lambda>i. if i \<in> set ys \<and> i \<noteq> csp_if_lo
     then (ifaces l i)\<lparr>is_default := 1\<rparr> else ifaces l i)\<rparr>"
proof (induction ys arbitrary: n p l)
  case Nil
  then show ?case by (cases n) (simp_all add: csp_iflist_iterate_def)
next
  case (Cons y ys)
  let ?l = "if y = csp_if_lo then l else l\<lparr>ifaces := (ifaces l)(y := (ifaces l y)\<lparr>is_default := 1\<rparr>)\<rparr>"
  from Cons.prems obtain m where n: "n = Suc m" by (cases n) auto
  have "chain (ifaces ?l) (if_start (Some y) ?l) ys"
    using Cons.prems by (subst chain_cong [of _ _ "ifaces l"]) (auto simp: if_start_def)
  from Cons.IH [OF this, of m] Cons.prems n show ?case
    by (auto simp: csp_iflist_iterate_def fun_eq_iff)
qed

section \<open>Properties\<close>

text \<open>Interface lookups: on a well-formed list the searches by address, name and index, and
  the searches for the next interface of a subnet or the next default interface, return
  the first match of the listed interfaces, after the given one when there is one, and
  \<^verbatim>\<open>NULL\<close> when there is none.\<close>

theorem csp_iflist_lookup:
  assumes l: "iflist_is l xs" and cut: "xs = before @ after"
    and start: "if before = [] then ifc = None else ifc = Some (last before)"
  shows "csp_iflist_get_by_addr a l = find (\<lambda>i. if_addr (ifaces l i) = a) xs
    \<and> csp_iflist_get_by_name nm l
        = find (\<lambda>i. strncmp_eq CSP_IFLIST_NAME_MAX (if_name (ifaces l i)) (Some nm)) xs
    \<and> csp_iflist_get_by_index (int n) l = (if n < length xs then Some (xs ! n) else None)
    \<and> csp_iflist_get_by_subnet ver a ifc l = find (\<lambda>i. if_netmask (ifaces l i) \<noteq> 0
        \<and> csp_iflist_is_within_subnet ver a (Some (ifaces l i))) after
    \<and> csp_iflist_get_by_isdfl ifc l = find (\<lambda>i. is_default (ifaces l i) = 1) after
    \<and> csp_iflist_iterate ifc l = (case after of [] \<Rightarrow> None | i # _ \<Rightarrow> Some i)"
proof -
  have ch: "chain (ifaces l) (interfaces l) xs" using l by (simp add: iflist_is_def)
  have tail: "chain (ifaces l) (if_start ifc l) after"
    using iflist_tail [of l _ "last before" after] l ch start cut
    by (cases before rule: rev_cases) (auto simp: if_start_def)
  have whole: "if_find (Suc IF_MAX) test (ifaces l) (interfaces l) = find test xs" for test
    using if_find_iflist [of l "[]" xs] l ch by simp
  have part: "if_find (Suc IF_MAX) test (ifaces l) (if_start ifc l) = find test after" for test
    using if_find_iflist [of l before after] l tail cut by simp
  have "if_start ifc l = (case after of [] \<Rightarrow> None | i # _ \<Rightarrow> Some i)"
    using tail by (auto split: list.splits)
  then show ?thesis
    using whole part index_loop_chain [OF ch]
    by (simp add: csp_iflist_get_by_addr_def csp_iflist_get_by_name_def csp_iflist_get_by_index_def
        csp_iflist_get_by_subnet_def csp_iflist_get_by_isdfl_def csp_iflist_iterate_def)
qed

definition blank_iface :: csp_iface where
  "blank_iface = \<lparr>if_addr = 0, if_netmask = 0, if_name = None, interface_data = None, driver_data = None,
     if_nexthop = Csp_lo_tx, is_default = 0, if_tx = 0, if_rx = 0, if_tx_error = 0, if_rx_error = 0,
     if_drop = 0, if_autherr = 0, if_frame = 0, if_txbytes = 0, if_rxbytes = 0, if_irq = 0, if_next = None\<rparr>"

text \<open>The loopback and a CAN interface.\<close>

definition example_iflist :: csp_iflist where
  "example_iflist = \<lparr>ifaces = (\<lambda>_. blank_iface)
     (0 := blank_iface\<lparr>if_name := Some ''LOOP'', if_next := Some 1\<rparr>,
      1 := blank_iface\<lparr>if_name := Some ''CAN'', if_addr := 5, if_netmask := 8, if_nexthop := Csp_can2_tx\<rparr>,
      2 := blank_iface\<lparr>if_name := Some ''KISS'', if_addr := 9, if_netmask := 8, if_nexthop := Csp_kiss_tx\<rparr>),
     interfaces = Some 0\<rparr>"

lemma example_iflist_is: "iflist_is example_iflist [0, 1]"
  by (simp add: example_iflist_def iflist_is_def blank_iface_def)

text \<open>Registering and removing interfaces: on a well-formed list, adding an interface that
  is not in it appends it when no listed interface has its name and leaves the list as it
  is otherwise; removing an interface takes it out of the list, wherever it is, and leaves
  the order of the others.\<close>

theorem csp_iflist_add_remove:
  assumes l: "iflist_is l xs" and i: "i < IF_MAX" "i \<notin> set xs" "if_name (ifaces l i) \<noteq> None"
  shows "iflist_is (csp_iflist_add (Some i) l)
      (if \<exists>j\<in>set xs. strncmp_eq CSP_IFLIST_NAME_MAX (if_name (ifaces l i)) (if_name (ifaces l j))
       then xs else xs @ [i])
    \<and> iflist_is (csp_iflist_remove (Some k) l) (remove1 k xs)"
proof (cases "\<exists>j\<in>set xs. strncmp_eq CSP_IFLIST_NAME_MAX (if_name (ifaces l i)) (if_name (ifaces l j))")
  case True
  let ?h = "(ifaces l)(i := (ifaces l i)\<lparr>if_next := None\<rparr>)"
  have ch: "chain ?h (interfaces l) xs"
    using l i(2) by (subst chain_cong [of _ _ "ifaces l"]) (auto simp: iflist_is_def)
  have len: "length xs < Suc (Suc IF_MAX)" using chain_length [OF l] by simp
  obtain f where f: "interfaces l = Some f" using ch True by (cases xs) auto
  have "\<exists>j\<in>set xs. j = i \<or> strncmp_eq CSP_IFLIST_NAME_MAX (if_name (?h i)) (if_name (?h j))"
    using True i(2) by auto
  then have "add_loop (Suc (Suc IF_MAX)) i ?h (interfaces l) f = None"
    using add_loop_chain [OF ch len, of i f] by presburger
  then have "csp_iflist_add (Some i) l = l\<lparr>ifaces := ?h\<rparr>"
    using i(3) f by (auto simp: csp_iflist_add_def Let_def)
  then show ?thesis
    using True l ch iflist_remove [OF l] by (auto simp: iflist_is_def)
next
  case False
  then show ?thesis using iflist_add_new [OF l i] iflist_remove [OF l] by simp
qed

text \<open>Adding an interface a second time truncates the list: every interface registered after
  it is lost, because \<^verbatim>\<open>next\<close> is cleared before the check whether it is in the list.\<close>

theorem csp_iflist_add_again_truncates:
  assumes "iflist_is l (xs @ i # ys)" and "j \<in> set ys"
  shows "iflist_is (csp_iflist_add (Some i) l) (xs @ [i]) \<and> j \<notin> set (xs @ [i])"
  using iflist_add_member [OF assms(1)] assms by (auto simp: iflist_is_def)

text \<open>Default interfaces: when no interface is marked default, \<open>csp_iflist_check_dfl\<close> marks every
  listed interface but the loopback and changes nothing else; when one is, it changes
  nothing.\<close>

lemma csp_iflist_check_dfl_spec:
  assumes l: "iflist_is l xs"
  shows "csp_iflist_check_dfl l = (if \<exists>i\<in>set xs. is_default (ifaces l i) = 1 then l
    else l\<lparr>ifaces := (\<lambda>i. if i \<in> set xs \<and> i \<noteq> csp_if_lo then (ifaces l i)\<lparr>is_default := 1\<rparr> else ifaces l i)\<rparr>)"
proof -
  have ch: "chain (ifaces l) (if_start None l) xs" "distinct xs"
    using l by (auto simp: iflist_is_def if_start_def)
  have loop: "check_dfl_loop (Suc IF_MAX) None l = l\<lparr>ifaces := (\<lambda>i. if i \<in> set xs \<and> i \<noteq> csp_if_lo
      then (ifaces l i)\<lparr>is_default := 1\<rparr> else ifaces l i)\<rparr>"
    using chain_length [OF l] by (intro check_dfl_loop_eq ch) simp
  have "csp_iflist_get_by_isdfl None l = find (\<lambda>i. is_default (ifaces l i) = 1) xs"
    unfolding csp_iflist_get_by_isdfl_def using if_find_iflist [of l "[]" xs] l ch(1) by simp
  moreover have "find (\<lambda>i. is_default (ifaces l i) = 1) xs = None \<longleftrightarrow> \<not> (\<exists>i\<in>set xs. is_default (ifaces l i) = 1)"
    by (auto simp: find_None_iff)
  ultimately show ?thesis
    unfolding csp_iflist_check_dfl_def loop by (auto split: option.splits)
qed

end
