(* ===== verification/CSP_Rtable.thy ===== *)
theory CSP_Rtable
  imports CSP_Id
begin

text \<open>
  The CIDR routing table, \<^verbatim>\<open>src/src/csp_rtable_cidr.c\<close>. The specification of a lookup is the
  longest matching prefix; a route pointer is the index of its entry.
\<close>

section \<open>State and operations\<close>

abbreviation (input) CSP_NO_VIA_ADDRESS :: u16 where "CSP_NO_VIA_ADDRESS \<equiv> 0xFFFF"

record csp_route =
  rt_address :: u16
  rt_netmask :: u16
  rt_via :: u16
  rt_iface :: "addr option"

record csp_rtable =
  rtable :: "nat \<Rightarrow> csp_route"
  rtable_inptr :: nat

definition csp_rtable_find_exact :: "u16 \<Rightarrow> u16 \<Rightarrow> addr option \<Rightarrow> csp_rtable \<Rightarrow> nat option" where
  "csp_rtable_find_exact a netmask ifc t =
     find (\<lambda>i. rt_address (rtable t i) = a \<and> rt_netmask (rtable t i) = netmask \<and> rt_iface (rtable t i) = ifc)
       [0..<rtable_inptr t]"

definition csp_rtable_search_backward :: "nat option \<Rightarrow> csp_rtable \<Rightarrow> nat option" where
  "csp_rtable_search_backward start_route t =
     (case start_route of
        None \<Rightarrow> None
      | Some r \<Rightarrow>
          if r = 0 then None
          else find (\<lambda>i. rt_netmask (rtable t i) = rt_netmask (rtable t r)
                       \<and> rt_address (rtable t i) = rt_address (rtable t r)) (rev [0..<r]))"

text \<open>One round of the loop of \<^verbatim>\<open>csp_rtable_find_route\<close> on the best index and its mask.\<close>

definition find_route_step :: "u8 \<Rightarrow> u16 \<Rightarrow> csp_rtable \<Rightarrow> nat \<Rightarrow> int \<times> u16 \<Rightarrow> int \<times> u16" where
  "find_route_step ver a t i best =
     (let hostbits = push_bit (csp_id_get_host_bits ver - unat (rt_netmask (rtable t i))) 1 - 1 :: u16;
          netbits = NOT hostbits;
          net_a = rt_address (rtable t i) AND netbits;
          net_b = a AND netbits
      in if net_a = net_b \<and> rt_netmask (rtable t i) \<ge> snd best
         then (int i, rt_netmask (rtable t i)) else best)"

definition csp_rtable_find_route :: "u8 \<Rightarrow> u16 \<Rightarrow> csp_rtable \<Rightarrow> nat option" where
  "csp_rtable_find_route ver a t =
     (let best = fold (find_route_step ver a t) [0..<rtable_inptr t] (-1, 0)
      in if fst best > -1 then Some (nat (fst best)) else None)"

definition csp_rtable_set_internal :: "u16 \<Rightarrow> u16 \<Rightarrow> addr option \<Rightarrow> u16 \<Rightarrow> csp_rtable \<Rightarrow> int \<times> csp_rtable" where
  "csp_rtable_set_internal a netmask ifc via t =
     (let fill = (\<lambda>i t. t\<lparr>rtable := (rtable t)(i := (rtable t i)
                    \<lparr>rt_address := a, rt_netmask := netmask, rt_iface := ifc, rt_via := via\<rparr>)\<rparr>)
      in case csp_rtable_find_exact a netmask ifc t of
           Some i \<Rightarrow> (CSP_ERR_NONE, fill i t)
         | None \<Rightarrow>
             if rtable_inptr t \<ge> CSP_RTABLE_SIZE then (CSP_ERR_NOMEM, t)
             else (CSP_ERR_NONE, fill (rtable_inptr t) (t\<lparr>rtable_inptr := rtable_inptr t + 1\<rparr>)))"

definition csp_rtable_free :: "csp_rtable \<Rightarrow> csp_rtable" where
  "csp_rtable_free t =
     t\<lparr>rtable := (\<lambda>i. if i < CSP_RTABLE_SIZE then \<lparr>rt_address = 0, rt_netmask = 0, rt_via = 0, rt_iface = None\<rparr>
                    else rtable t i), rtable_inptr := 0\<rparr>"

definition csp_rtable_clear :: "csp_rtable \<Rightarrow> csp_rtable" where
  "csp_rtable_clear t = csp_rtable_free t"

definition csp_rtable_set ::
  "u16 \<Rightarrow> int \<Rightarrow> addr option \<Rightarrow> u16 \<Rightarrow> csp_core \<Rightarrow> csp_rtable \<Rightarrow> int \<times> csp_core \<times> csp_rtable" where
  "csp_rtable_set a netmask ifc via s t =
     (let bits = int (csp_id_get_host_bits (csp_version s));
          netmask = (if netmask < 0 \<or> netmask > bits then bits else netmask)
      in if ifc = None then (CSP_ERR_INVAL, s\<lparr>csp_dbg_errno := CSP_DBG_ERR_INVALID_RTABLE_ENTRY\<rparr>, t)
         else let (r, t) = csp_rtable_set_internal a (of_int netmask) ifc via t in (r, s, t))"

text \<open>The iterator \<open>iter\<close> is the caller's, on its own context; its result is not looked at.\<close>

definition csp_rtable_iterate :: "('ctx \<Rightarrow> csp_route \<Rightarrow> bool \<times> 'ctx) \<Rightarrow> 'ctx \<Rightarrow> csp_rtable \<Rightarrow> 'ctx" where
  "csp_rtable_iterate iter ctx t = fold (\<lambda>i c. snd (iter c (rtable t i))) [0..<rtable_inptr t] ctx"

section \<open>Longest prefix match\<close>

text \<open>The table as the code keeps it: entries in use first, prefixes no longer than an address.\<close>

definition rtable_ok :: "u8 \<Rightarrow> csp_rtable \<Rightarrow> bool" where
  "rtable_ok ver t \<longleftrightarrow> rtable_inptr t \<le> CSP_RTABLE_SIZE
     \<and> (\<forall>i<rtable_inptr t. unat (rt_netmask (rtable t i)) \<le> csp_id_get_host_bits ver)"

text \<open>An entry matches an address when the two agree on the prefix.\<close>

definition rt_matches :: "u8 \<Rightarrow> csp_route \<Rightarrow> u16 \<Rightarrow> bool" where
  "rt_matches ver r a \<longleftrightarrow>
     (let host = csp_id_get_host_bits ver - unat (rt_netmask r) in drop_bit host (rt_address r) = drop_bit host a)"

lemma netbits_match:
  fixes a b :: u16
  shows "a AND NOT (push_bit k 1 - 1) = b AND NOT (push_bit k 1 - 1) \<longleftrightarrow> drop_bit k a = drop_bit k b"
proof -
  have m: "(push_bit k 1 - 1 :: u16) = mask k" by (simp add: mask_eq_exp_minus_1)
  have "a AND NOT (mask k) = push_bit k (drop_bit k a)" for a :: u16
    by (rule bit_word_eqI) (auto simp: bit_simps)
  moreover have "drop_bit k (push_bit k (drop_bit k a)) = drop_bit k a" for a :: u16
    by (rule bit_word_eqI) (auto simp: bit_simps dest: bit_imp_le_length)
  ultimately show ?thesis unfolding m by metis
qed

lemma find_route_step_eq:
  "find_route_step ver a t i best =
    (if rt_matches ver (rtable t i) a \<and> snd best \<le> rt_netmask (rtable t i)
     then (int i, rt_netmask (rtable t i)) else best)"
  unfolding find_route_step_def rt_matches_def Let_def netbits_match by simp

text \<open>The best of the entries below \<open>n\<close>: matching, longest, and the last of the longest.\<close>

definition best_below :: "u8 \<Rightarrow> u16 \<Rightarrow> csp_rtable \<Rightarrow> nat \<Rightarrow> nat \<Rightarrow> bool" where
  "best_below ver a t n i \<longleftrightarrow> i < n \<and> rt_matches ver (rtable t i) a
     \<and> (\<forall>j<n. rt_matches ver (rtable t j) a \<longrightarrow>
          rt_netmask (rtable t j) < rt_netmask (rtable t i) \<or> rt_netmask (rtable t j) = rt_netmask (rtable t i) \<and> j \<le> i)"

lemma find_route_fold:
  "case fold (find_route_step ver a t) [0..<n] (-1, 0) of (b, m) \<Rightarrow>
     if b = -1 then m = 0 \<and> (\<forall>j<n. \<not> rt_matches ver (rtable t j) a)
     else b \<ge> 0 \<and> best_below ver a t n (nat b) \<and> m = rt_netmask (rtable t (nat b))"
proof (induction n)
  case 0
  show ?case by simp
next
  case (Suc n)
  obtain b m where bm: "fold (find_route_step ver a t) [0..<n] (-1, 0) = (b, m)" by fastforce
  show ?case
  proof (cases "rt_matches ver (rtable t n) a \<and> m \<le> rt_netmask (rtable t n)")
    case True
    then have "best_below ver a t (Suc n) n"
      using Suc bm by (force simp: best_below_def less_Suc_eq split: if_splits)
    with True bm show ?thesis using find_route_step_eq [of ver a t n "(b, m)"] by simp
  next
    case False
    with Suc bm show ?thesis
      using find_route_step_eq [of ver a t n "(b, m)"] by (auto simp: best_below_def less_Suc_eq)
  qed
qed

lemma csp_rtable_find_route_cases:
  "csp_rtable_find_route ver a t = Some i \<Longrightarrow> best_below ver a t (rtable_inptr t) i"
  "csp_rtable_find_route ver a t = None \<Longrightarrow> j < rtable_inptr t \<Longrightarrow> \<not> rt_matches ver (rtable t j) a"
  using find_route_fold [where ver = ver and a = a and t = t and n = "rtable_inptr t"]
  by (auto simp: csp_rtable_find_route_def Let_def split: prod.splits if_splits)

lemma best_below_unique: "best_below ver a t n i \<Longrightarrow> best_below ver a t n j \<Longrightarrow> i = j"
  by (fastforce simp: best_below_def)

lemma find_exact_Some:
  "csp_rtable_find_exact a m ifc t = Some i \<Longrightarrow>
     i < rtable_inptr t \<and> rt_address (rtable t i) = a \<and> rt_netmask (rtable t i) = m \<and> rt_iface (rtable t i) = ifc"
  by (auto simp: csp_rtable_find_exact_def find_Some_iff)

lemma find_exact_None:
  "csp_rtable_find_exact a m ifc t = None \<longleftrightarrow>
     (\<forall>i<rtable_inptr t. \<not> (rt_address (rtable t i) = a \<and> rt_netmask (rtable t i) = m \<and> rt_iface (rtable t i) = ifc))"
  by (auto simp: csp_rtable_find_exact_def find_None_iff)

section \<open>Properties\<close>

text \<open>C2. Routing is by longest prefix: \<open>csp_rtable_find_route\<close> returns entry \<open>i\<close> exactly when
  \<open>i\<close> is in use and matches the address, every other matching entry has a shorter prefix, or
  an equally long one and a lower index; it returns \<^verbatim>\<open>NULL\<close> exactly when no entry matches.\<close>

theorem csp_rtable_longest_prefix:
  "(csp_rtable_find_route ver a t = Some i \<longleftrightarrow> i < rtable_inptr t \<and> rt_matches ver (rtable t i) a
      \<and> (\<forall>j<rtable_inptr t. rt_matches ver (rtable t j) a \<longrightarrow> rt_netmask (rtable t j) < rt_netmask (rtable t i)
           \<or> rt_netmask (rtable t j) = rt_netmask (rtable t i) \<and> j \<le> i))
   \<and> (csp_rtable_find_route ver a t = None \<longleftrightarrow> (\<forall>j<rtable_inptr t. \<not> rt_matches ver (rtable t j) a))"
proof -
  note found = csp_rtable_find_route_cases [where ver = ver and a = a and t = t]
  have some: "csp_rtable_find_route ver a t = Some i \<longleftrightarrow> best_below ver a t (rtable_inptr t) i"
  proof
    assume b: "best_below ver a t (rtable_inptr t) i"
    then have "i < rtable_inptr t" "rt_matches ver (rtable t i) a" by (simp_all add: best_below_def)
    then obtain j where "csp_rtable_find_route ver a t = Some j" using found(2) by blast
    with found(1) best_below_unique [OF b] show "csp_rtable_find_route ver a t = Some i" by blast
  qed (rule found(1))
  have none: "csp_rtable_find_route ver a t = None \<longleftrightarrow> (\<forall>j<rtable_inptr t. \<not> rt_matches ver (rtable t j) a)"
  proof
    assume "\<forall>j<rtable_inptr t. \<not> rt_matches ver (rtable t j) a"
    then show "csp_rtable_find_route ver a t = None"
      using found(1) by (cases "csp_rtable_find_route ver a t") (auto simp: best_below_def)
  qed (use found(2) in blast)
  from some none show ?thesis by (simp only: best_below_def)
qed

definition empty_rtable :: csp_rtable where
  "empty_rtable = \<lparr>rtable = (\<lambda>_. \<lparr>rt_address = 0, rt_netmask = 0, rt_via = 0, rt_iface = None\<rparr>), rtable_inptr = 0\<rparr>"

text \<open>A default route and a route to the 6-bit host range of address 64.\<close>

definition example_rtable :: csp_rtable where
  "example_rtable = snd (csp_rtable_set_internal 64 8 (Some 2) 7
     (snd (csp_rtable_set_internal 0 0 (Some 1) CSP_NO_VIA_ADDRESS empty_rtable)))"

lemmas example_rtable_simps = example_rtable_def empty_rtable_def csp_rtable_set_internal_def
  csp_rtable_find_exact_def

theorem csp_rtable_longest_prefix_witness:
  "csp_rtable_find_route 2 70 example_rtable = Some 1 \<and> csp_rtable_find_route 2 200 example_rtable = Some 0"
  using csp_rtable_longest_prefix [of 2 70 example_rtable 1] csp_rtable_longest_prefix [of 2 200 example_rtable 0]
  by (simp add: example_rtable_simps rt_matches_def csp_id_get_host_bits_def All_less_Suc Let_def)

text \<open>Setting a route: with an interface, \<open>csp_rtable_set\<close> clamps the prefix length to the host
  bits and either updates the one entry with this address, prefix length and interface,
  or appends it, or, when the table is full, returns \<^verbatim>\<open>CSP_ERR_NOMEM\<close> and changes nothing;
  afterwards the entry can be found with its new gateway, every other entry is as before
  and the table is well formed. Without an interface it is rejected.\<close>

theorem csp_rtable_set_spec:
  assumes ok: "rtable_ok (csp_version s) t" and run: "csp_rtable_set a n ifc via s t = (r, s', t')"
    and m: "m = (of_int (if n < 0 \<or> n > int (csp_id_get_host_bits (csp_version s))
      then int (csp_id_get_host_bits (csp_version s)) else n) :: u16)"
  shows "rtable_ok (csp_version s) t' \<and>
    (if ifc = None then r = CSP_ERR_INVAL \<and> t' = t
     else if csp_rtable_find_exact a m ifc t = None \<and> rtable_inptr t = CSP_RTABLE_SIZE
     then r = CSP_ERR_NOMEM \<and> t' = t \<and> s' = s
     else r = CSP_ERR_NONE \<and> s' = s \<and> (\<exists>i<rtable_inptr t'.
       csp_rtable_find_exact a m ifc t' = Some i \<and> rt_via (rtable t' i) = via
       \<and> (\<forall>j. j \<noteq> i \<longrightarrow> rtable t' j = rtable t j)
       \<and> (if csp_rtable_find_exact a m ifc t = None then i = rtable_inptr t \<and> rtable_inptr t' = Suc i
          else csp_rtable_find_exact a m ifc t = Some i \<and> rtable_inptr t' = rtable_inptr t)))"
proof (cases "ifc = None")
  case True
  then show ?thesis using ok run by (auto simp: csp_rtable_set_def)
next
  case False
  have hb: "csp_id_get_host_bits (csp_version s) < 2 ^ 16"
    by (simp add: csp_id_get_host_bits_def)
  have bits: "unat m \<le> csp_id_get_host_bits (csp_version s)"
  proof -
    let ?n = "if n < 0 \<or> n > int (csp_id_get_host_bits (csp_version s)) then int (csp_id_get_host_bits (csp_version s)) else n"
    have n: "0 \<le> ?n" "?n \<le> int (csp_id_get_host_bits (csp_version s))" by auto
    then have "m = of_nat (nat ?n)" using m by simp
    moreover have "nat ?n < 2 ^ 16" using n hb by linarith
    ultimately have "unat m = nat ?n" using unat_of_nat_small [of "nat ?n", where 'a = 16] by simp
    with n show ?thesis by linarith
  qed
  let ?fill = "\<lambda>i t. t\<lparr>rtable := (rtable t)(i := (rtable t i)\<lparr>rt_address := a, rt_netmask := m, rt_iface := ifc, rt_via := via\<rparr>)\<rparr>"
  have set: "csp_rtable_set_internal a m ifc via t = (r, t')" "s' = s"
    using run False unfolding csp_rtable_set_def Let_def m [symmetric] by (auto split: prod.splits)
  show ?thesis
  proof (cases "csp_rtable_find_exact a m ifc t")
    case (Some i)
    then have i: "i < rtable_inptr t" "t' = ?fill i t" "r = 0"
      using find_exact_Some set(1) by (auto simp: csp_rtable_set_internal_def)
    have "csp_rtable_find_exact a m ifc t' = Some i"
      using Some find_exact_Some [OF Some] unfolding csp_rtable_find_exact_def find_Some_iff i(2) by auto
    then show ?thesis using i bits ok False Some set(2) by (auto simp: rtable_ok_def)
  next
    case None
    show ?thesis
    proof (cases "rtable_inptr t \<ge> CSP_RTABLE_SIZE")
      case True
      then show ?thesis using None False ok set by (auto simp: csp_rtable_set_internal_def rtable_ok_def)
    next
      case room: False
      let ?i = "rtable_inptr t"
      have t': "t' = ?fill ?i (t\<lparr>rtable_inptr := Suc ?i\<rparr>)" "r = 0"
        using None room set(1) by (auto simp: csp_rtable_set_internal_def)
      have "csp_rtable_find_exact a m ifc t' = Some ?i"
        using None unfolding csp_rtable_find_exact_def find_Some_iff find_exact_None t'(1)
        by (intro exI [of _ ?i]) (auto simp: find_None_iff nth_append simp del: upt_Suc)
      then show ?thesis using t' bits ok False None room set(2) by (auto simp: rtable_ok_def less_Suc_eq)
    qed
  qed
qed

text \<open>Alternative routes: from an entry, \<open>csp_rtable_search_backward\<close> returns the nearest earlier
  entry with the same address and prefix length, and \<^verbatim>\<open>NULL\<close> exactly when there is none, so
  repeating it visits all of them once, in descending order.\<close>

theorem csp_rtable_search_backward_spec:
  "case csp_rtable_search_backward (Some r) t of
     None \<Rightarrow> \<forall>i<r. \<not> (rt_address (rtable t i) = rt_address (rtable t r) \<and> rt_netmask (rtable t i) = rt_netmask (rtable t r))
   | Some k \<Rightarrow> k < r \<and> rt_address (rtable t k) = rt_address (rtable t r) \<and> rt_netmask (rtable t k) = rt_netmask (rtable t r)
       \<and> (\<forall>i. k < i \<and> i < r \<longrightarrow>
            \<not> (rt_address (rtable t i) = rt_address (rtable t r) \<and> rt_netmask (rtable t i) = rt_netmask (rtable t r)))"
proof -
  have down: "case find P (rev [0..<n]) of None \<Rightarrow> \<forall>i<n. \<not> P i
      | Some k \<Rightarrow> k < n \<and> P k \<and> (\<forall>i. k < i \<and> i < n \<longrightarrow> \<not> P i)" for P and n :: nat
    by (induction n) (auto simp: less_Suc_eq split: option.splits)
  show ?thesis
    using down [where n = r and P = "\<lambda>i. rt_netmask (rtable t i) = rt_netmask (rtable t r) \<and> rt_address (rtable t i) = rt_address (rtable t r)"]
    by (auto simp: csp_rtable_search_backward_def split: option.splits)
qed

end
