(* ===== verification/CSP_State.thy ===== *)
theory CSP_State
  imports CSP_Hmac CSP_Dedup CSP_Iflist CSP_Rtable
begin

text \<open>
  The state of a whole node: connections and sockets (\<^verbatim>\<open>csp_conn.h\<close>, \<^verbatim>\<open>csp_types.h\<close>), ports
  (\<^verbatim>\<open>csp_port.c\<close>) and the record of every static variable of the stack; and the accounting of
  packet references across it. The state \<open>'d\<close> of the interface drivers is a parameter.
\<close>

section \<open>Connections, sockets and ports\<close>

datatype csp_conn_state = CONN_CLOSED | CONN_OPEN
datatype csp_conn_type = CONN_CLIENT | CONN_SERVER
datatype csp_rdp_state = RDP_CLOSED | RDP_SYN_SENT | RDP_SYN_RCVD | RDP_OPEN | RDP_CLOSE_WAIT

record csp_rdp =
  rdp_state :: csp_rdp_state
  closed_by :: u8
  snd_nxt :: u16
  snd_una :: u16
  snd_iss :: u16
  rcv_cur :: u16
  rcv_irs :: u16
  rcv_lsa :: u16
  window_size :: u32
  conn_timeout :: u32
  packet_timeout :: u32
  delayed_acks :: u32
  ack_timeout :: u32
  ack_delay_count :: u32
  ack_timestamp :: u32
  tx_wait :: nat

record csp_conn =
  conn_type :: csp_conn_type
  conn_state :: csp_conn_state
  idin :: csp_id
  idout :: csp_id
  sport_outgoing :: u8
  conn_rx_queue :: "addr option pthread_queue"
  dest_socket :: "addr option"
  conn_timestamp :: u32
  conn_opts :: u32
  rdp :: csp_rdp

text \<open>
  The queue of a socket holds untyped pointers: packets of a connection-less socket,
  otherwise connections. It is absent until \<^verbatim>\<open>csp_listen\<close>.
\<close>

datatype sock_item = Sock_packet addr | Sock_conn addr

record csp_socket =
  sock_rx_queue :: "sock_item pthread_queue option"
  sock_opts :: u32

datatype csp_port_state = PORT_CLOSED | PORT_OPEN | PORT_OPEN_CB

text \<open>
  The members of the union in \<^verbatim>\<open>csp_port_t\<close> are only read under the state that says which was
  written last, so they are kept apart. A callback is named by a number.
\<close>

record csp_port =
  port_state :: csp_port_state
  port_socket :: "addr option"
  port_callback :: "nat option"

record csp_qfifo =
  qf_iface :: "addr option"
  qf_packet :: "addr option"

abbreviation (input) CSP_SO_RDPREQ :: u32 where "CSP_SO_RDPREQ \<equiv> 0x0001"
abbreviation (input) CSP_SO_HMACREQ :: u32 where "CSP_SO_HMACREQ \<equiv> 0x0004"
abbreviation (input) CSP_SO_CRC32REQ :: u32 where "CSP_SO_CRC32REQ \<equiv> 0x0040"
abbreviation (input) CSP_SO_CRC32PROHIB :: u32 where "CSP_SO_CRC32PROHIB \<equiv> 0x0080"
abbreviation (input) CSP_SO_CONN_LESS :: u32 where "CSP_SO_CONN_LESS \<equiv> 0x0100"
abbreviation (input) CSP_SO_SAME :: u32 where "CSP_SO_SAME \<equiv> 0x8000"

section \<open>The node\<close>

record 'd csp_state =
  core :: csp_core
  iflist :: csp_iflist
  routes :: csp_rtable
  dedups :: csp_dedup
  hmac_key :: "u8 list"
  csp_promisc_queue :: "addr pthread_queue option"
  csp_promisc_enabled :: bool
  qfifo_queue :: "csp_qfifo pthread_queue"
  ports :: "nat \<Rightarrow> csp_port"
  sockets :: "addr \<Rightarrow> csp_socket"
  arr_conn :: "addr \<Rightarrow> csp_conn"
  csp_conn_last_given :: u8
  rdp_tx_queue :: "addr pthread_queue"
  rdp_rx_queue :: "addr pthread_queue"
  csp_rdp_window_size :: u32
  csp_rdp_conn_timeout :: u32
  csp_rdp_packet_timeout :: u32
  csp_rdp_delayed_acks :: u32
  csp_rdp_ack_timeout :: u32
  csp_rdp_ack_delay_count :: u32
  csp_rdp_incr :: u8
  bif_a :: "addr option"
  bif_b :: "addr option"
  drv :: 'd

text \<open>The socket objects of the program have addresses below \<open>SOCK_MAX\<close>.\<close>

abbreviation (input) SOCK_MAX :: nat where "SOCK_MAX \<equiv> 64"

definition on_core :: "(csp_core \<Rightarrow> csp_core) \<Rightarrow> 'd csp_state \<Rightarrow> 'd csp_state" where
  "on_core f s = s\<lparr>core := f (core s)\<rparr>"

definition in_core :: "(csp_core \<Rightarrow> 'r \<times> csp_core) \<Rightarrow> 'd csp_state \<Rightarrow> 'r \<times> 'd csp_state" where
  "in_core f s = (fst (f (core s)), s\<lparr>core := snd (f (core s))\<rparr>)"

definition upd_iface :: "addr \<Rightarrow> (csp_iface \<Rightarrow> csp_iface) \<Rightarrow> 'd csp_state \<Rightarrow> 'd csp_state" where
  "upd_iface i f s = s\<lparr>iflist := (iflist s)\<lparr>ifaces := (ifaces (iflist s))(i := f (ifaces (iflist s) i))\<rparr>\<rparr>"

definition upd_conn :: "addr \<Rightarrow> (csp_conn \<Rightarrow> csp_conn) \<Rightarrow> 'd csp_state \<Rightarrow> 'd csp_state" where
  "upd_conn c f s = s\<lparr>arr_conn := (arr_conn s)(c := f (arr_conn s c))\<rparr>"

definition upd_rdp :: "addr \<Rightarrow> (csp_rdp \<Rightarrow> csp_rdp) \<Rightarrow> 'd csp_state \<Rightarrow> 'd csp_state" where
  "upd_rdp c f s = upd_conn c (rdp_update f) s"

definition upd_socket :: "addr \<Rightarrow> (csp_socket \<Rightarrow> csp_socket) \<Rightarrow> 'd csp_state \<Rightarrow> 'd csp_state" where
  "upd_socket i f s = s\<lparr>sockets := (sockets s)(i := f (sockets s i))\<rparr>"

abbreviation pkt :: "'d csp_state \<Rightarrow> addr \<Rightarrow> csp_packet" where
  "pkt s p \<equiv> packet (core s) p"

abbreviation ver :: "'d csp_state \<Rightarrow> u8" where
  "ver s \<equiv> csp_version (core s)"

definition free_pkt :: "addr \<Rightarrow> 'd csp_state \<Rightarrow> 'd csp_state" where
  "free_pkt p s = on_core (csp_buffer_free (Some p)) s"

definition upd_pkt :: "addr \<Rightarrow> (csp_packet \<Rightarrow> csp_packet) \<Rightarrow> 'd csp_state \<Rightarrow> 'd csp_state" where
  "upd_pkt p f s = on_core (upd_packet p f) s"

definition set_errno :: "u8 \<Rightarrow> 'd csp_state \<Rightarrow> 'd csp_state" where
  "set_errno e s = on_core (csp_dbg_errno_update (\<lambda>_. e)) s"

definition conn_ovf :: "'d csp_state \<Rightarrow> 'd csp_state" where
  "conn_ovf s = on_core (\<lambda>c. c\<lparr>csp_dbg_conn_ovf := csp_dbg_conn_ovf c + 1\<rparr>) s"

section \<open>References held by the stack\<close>

text \<open>The references to buffer \<open>p\<close> that a queue holds; \<open>sel\<close> is the packet of an item, if it is one.\<close>

definition qheld :: "('x \<Rightarrow> addr option) \<Rightarrow> 'x pthread_queue \<Rightarrow> addr \<Rightarrow> nat" where
  "qheld sel q p = length (filter (\<lambda>x. sel x = Some p) (queue_list q))"

fun sock_pkt :: "sock_item \<Rightarrow> addr option" where
  "sock_pkt (Sock_packet p) = Some p"
| "sock_pkt (Sock_conn c) = None"

definition oheld :: "('x \<Rightarrow> addr option) \<Rightarrow> 'x pthread_queue option \<Rightarrow> addr \<Rightarrow> nat" where
  "oheld sel q p = (case q of None \<Rightarrow> 0 | Some q \<Rightarrow> qheld sel q p)"

definition held :: "('d \<Rightarrow> addr \<Rightarrow> nat) \<Rightarrow> 'd csp_state \<Rightarrow> addr \<Rightarrow> nat" where
  "held dh s p = qheld qf_packet (qfifo_queue s) p + oheld Some (csp_promisc_queue s) p
     + (\<Sum>c<CSP_CONN_MAX. qheld id (conn_rx_queue (arr_conn s c)) p)
     + (\<Sum>i<SOCK_MAX. oheld sock_pkt (sock_rx_queue (sockets s i)) p)
     + qheld Some (rdp_tx_queue s) p + qheld Some (rdp_rx_queue s) p + dh (drv s) p"

definition queues_ok :: "'d csp_state \<Rightarrow> bool" where
  "queues_ok s \<longleftrightarrow> queue_ok (qfifo_queue s) \<and> pred_option queue_ok (csp_promisc_queue s)
     \<and> (\<forall>c<CSP_CONN_MAX. queue_ok (conn_rx_queue (arr_conn s c)) \<and> q_size (conn_rx_queue (arr_conn s c)) = CSP_CONN_RXQUEUE_LEN)
     \<and> (\<forall>i. pred_option queue_ok (sock_rx_queue (sockets s i)))
     \<and> (\<forall>i\<ge>SOCK_MAX. sock_rx_queue (sockets s i) = None)
     \<and> queue_ok (rdp_tx_queue s) \<and> queue_ok (rdp_rx_queue s)"

text \<open>
  The accounting: \<open>own dh f s\<close> says that of the references to each buffer, \<open>f\<close> are in the hands
  of the code that runs (its local variables, the application), and all others are in
  queues of the stack or with the drivers. An operation that consumes a packet takes
  \<open>own dh (tok p f)\<close> to \<open>own dh f\<close>: it neither leaks the packet nor frees it twice.
\<close>

definition tok :: "addr \<Rightarrow> (addr \<Rightarrow> nat) \<Rightarrow> addr \<Rightarrow> nat" where
  "tok p f = f(p := Suc (f p))"

definition otok :: "addr option \<Rightarrow> (addr \<Rightarrow> nat) \<Rightarrow> addr \<Rightarrow> nat" where
  "otok po f = (case po of None \<Rightarrow> f | Some p \<Rightarrow> tok p f)"

definition own :: "('d \<Rightarrow> addr \<Rightarrow> nat) \<Rightarrow> (addr \<Rightarrow> nat) \<Rightarrow> 'd csp_state \<Rightarrow> bool" where
  "own dh f s \<longleftrightarrow> queues_ok s \<and> buf_inv (core s) \<and> (\<forall>p. buf_refs (core s) p = held dh s p + f p)"

lemma otok_simps [simp]: "otok None f = f" "otok (Some p) f = tok p f"
  by (simp_all add: otok_def)

lemma qheld_enqueue:
  assumes "queue_ok q" "csp_queue_enqueue q x = (r, q')"
  shows "r = 0 \<and> queue_ok q' \<and> q_size q' = q_size q \<and> queue_list q' = queue_list q @ [x]
      \<and> (\<forall>p. qheld sel q' p = qheld sel q p + (if sel x = Some p then 1 else 0))
    \<or> r = CSP_QUEUE_ERROR \<and> q' = q \<and> length (queue_list q) = q_size q"
  using assms(1) by (cases rule: csp_q.enqueue_cases [of _ x]) (use assms(2) in \<open>auto simp: qheld_def\<close>)

lemma qheld_dequeue:
  assumes "queue_ok q" "csp_queue_dequeue q = (r, q')"
  shows "(case r of Some x \<Rightarrow> queue_ok q' \<and> q_size q' = q_size q \<and> queue_list q = x # queue_list q'
      \<and> (\<forall>p. qheld sel q p = qheld sel q' p + (if sel x = Some p then 1 else 0))
    | None \<Rightarrow> q' = q \<and> queue_list q = [])"
  using assms(1) by (cases rule: csp_q.dequeue_cases) (use assms(2) in \<open>auto simp: qheld_def\<close>)

lemma sum_upd:
  fixes g :: "'x \<Rightarrow> nat" and i n :: nat
  assumes "i < n"
  shows "(\<Sum>j<n. g ((h(i := x)) j)) + g (h i) = (\<Sum>j<n. g (h j)) + g x"
proof -
  have "(\<Sum>j<n. g (k j)) = g (k i) + (\<Sum>j\<in>{..<n} - {i}. g (k j))" for k :: "nat \<Rightarrow> 'x"
    using assms by (intro sum.remove) auto
  from this [of h] this [of "h(i := x)"] show ?thesis
    by (simp add: sum.cong [of "{..<n} - {i}" _ "\<lambda>j. g ((h(i := x)) j)" "\<lambda>j. g (h j)"])
qed

section \<open>Accounting rules\<close>

lemma own_frame [simp]:
  "own dh f (s\<lparr>iflist := x1\<rparr>) = own dh f s" "own dh f (s\<lparr>routes := x2\<rparr>) = own dh f s"
  "own dh f (s\<lparr>dedups := x3\<rparr>) = own dh f s" "own dh f (s\<lparr>hmac_key := x4\<rparr>) = own dh f s"
  "own dh f (s\<lparr>csp_promisc_enabled := x5\<rparr>) = own dh f s" "own dh f (s\<lparr>ports := x6\<rparr>) = own dh f s"
  "own dh f (s\<lparr>csp_conn_last_given := x7\<rparr>) = own dh f s" "own dh f (s\<lparr>csp_rdp_window_size := x8\<rparr>) = own dh f s"
  "own dh f (s\<lparr>csp_rdp_conn_timeout := x8\<rparr>) = own dh f s" "own dh f (s\<lparr>csp_rdp_packet_timeout := x8\<rparr>) = own dh f s"
  "own dh f (s\<lparr>csp_rdp_delayed_acks := x8\<rparr>) = own dh f s" "own dh f (s\<lparr>csp_rdp_ack_timeout := x8\<rparr>) = own dh f s"
  "own dh f (s\<lparr>csp_rdp_ack_delay_count := x8\<rparr>) = own dh f s" "own dh f (s\<lparr>csp_rdp_incr := x7\<rparr>) = own dh f s"
  "own dh f (s\<lparr>bif_a := x9\<rparr>) = own dh f s" "own dh f (s\<lparr>bif_b := x9\<rparr>) = own dh f s"
  "own dh f (upd_iface i g s) = own dh f s"
  by (simp_all add: own_def held_def queues_ok_def upd_iface_def)

lemma own_core:
  "own dh f s \<Longrightarrow> buf_inv c' \<Longrightarrow> buf_refs c' = buf_refs (core s) \<Longrightarrow> own dh f (s\<lparr>core := c'\<rparr>)"
  by (simp add: own_def held_def queues_ok_def)

lemma own_core_cong:
  "buf_inv c' = buf_inv (core s) \<Longrightarrow> buf_refs c' = buf_refs (core s) \<Longrightarrow> own dh f (s\<lparr>core := c'\<rparr>) = own dh f s"
  by (simp add: own_def held_def queues_ok_def)

lemma dbg_counters_pool [simp]:
  "buf_inv (csp_dbg_conn_out_update n c) = buf_inv c" "buf_refs (csp_dbg_conn_out_update n c) = buf_refs c"
  "buf_inv (csp_dbg_inval_reply_update n c) = buf_inv c" "buf_refs (csp_dbg_inval_reply_update n c) = buf_refs c"
  "buf_inv (csp_dbg_conn_ovf_update n c) = buf_inv c" "buf_refs (csp_dbg_conn_ovf_update n c) = buf_refs c"
  "buf_inv (csp_dbg_errno_update n c) = buf_inv c" "buf_refs (csp_dbg_errno_update n c) = buf_refs c"
  by (simp_all add: buf_inv_def buf_refs_def free_list_def fun_eq_iff)

lemma own_core_eq [simp]:
  "own dh f (upd_pkt p g s) = own dh f s"
  "own dh f (set_errno e s) = own dh f s"
  "own dh f (conn_ovf s) = own dh f s"
  "own dh f (s\<lparr>core := csp_id_prepend p (core s)\<rparr>) = own dh f s"
  "own dh f (s\<lparr>core := csp_dbg_conn_out_update n (core s)\<rparr>) = own dh f s"
  "own dh f (s\<lparr>core := csp_dbg_inval_reply_update n (core s)\<rparr>) = own dh f s"
  by (simp_all add: upd_pkt_def set_errno_def conn_ovf_def on_core_def own_core_cong)

lemma own_upd_conn:
  assumes "\<And>k. conn_rx_queue (g k) = conn_rx_queue k"
  shows "own dh f (upd_conn c g s) = own dh f s"
proof -
  have "conn_rx_queue (((arr_conn s)(c := g (arr_conn s c))) i) = conn_rx_queue (arr_conn s i)" for i
    using assms by simp
  then show ?thesis by (simp add: own_def held_def queues_ok_def upd_conn_def)
qed

lemma own_upd_rdp [simp]: "own dh f (upd_rdp c g s) = own dh f s"
  unfolding upd_rdp_def by (rule own_upd_conn) simp

lemma own_conn_fields [simp]:
  "own dh f (upd_conn c (\<lambda>k. k\<lparr>conn_type := a1 k\<rparr>) s) = own dh f s"
  "own dh f (upd_conn c (\<lambda>k. k\<lparr>conn_state := a2 k\<rparr>) s) = own dh f s"
  "own dh f (upd_conn c (\<lambda>k. k\<lparr>idin := a3 k\<rparr>) s) = own dh f s"
  "own dh f (upd_conn c (\<lambda>k. k\<lparr>idout := a4 k\<rparr>) s) = own dh f s"
  "own dh f (upd_conn c (\<lambda>k. k\<lparr>dest_socket := a5 k\<rparr>) s) = own dh f s"
  "own dh f (upd_conn c (\<lambda>k. k\<lparr>conn_timestamp := a6 k\<rparr>) s) = own dh f s"
  "own dh f (upd_conn c (\<lambda>k. k\<lparr>conn_opts := a7 k\<rparr>) s) = own dh f s"
  by (simp_all add: own_upd_conn)

lemma own_free: "own dh (tok p f) s \<Longrightarrow> own dh f (free_pkt p s)"
proof -
  assume own: "own dh (tok p f) s"
  then have inv: "buf_inv (core s)" and refs: "\<And>q. buf_refs (core s) q = held dh s q + tok p f q"
    by (auto simp: own_def)
  have "0 < buf_refs (core s) p" using refs [of p] by (simp add: tok_def)
  from free_pool [OF inv this] own refs show ?thesis
    by (auto simp: own_def free_pkt_def on_core_def held_def queues_ok_def tok_def)
qed

lemma own_get_actual:
  assumes "own dh f s" "csp_buffer_get_actual n isr (core s) = (r, c)"
  shows "own dh (otok r f) (s\<lparr>core := c\<rparr>)"
proof -
  have inv: "buf_inv (core s)" using assms(1) by (simp add: own_def)
  from get_actual_pool [OF inv assms(2)] assms(1) show ?thesis
    by (cases r) (auto simp: own_def held_def queues_ok_def tok_def)
qed

lemma own_get: "own dh f s \<Longrightarrow> in_core csp_buffer_get s = (r, s') \<Longrightarrow> own dh (otok r f) s'"
  using own_get_actual [of dh f s 2 False] by (auto simp: in_core_def csp_buffer_get_def prod_eq_iff)

lemma own_clone:
  assumes "own dh f s" "in_core (csp_buffer_clone (Some p)) s = (r, s')"
  shows "own dh (otok r f) s'"
proof -
  obtain r0 c where get: "csp_buffer_get (core s) = (r0, c)" by fastforce
  then have c: "r = r0" "s' = s\<lparr>core := csp_buffer_copy (Some p) r0 c\<rparr>"
    using assms(2) by (auto simp: in_core_def csp_buffer_clone_def)
  have own: "own dh (otok r0 f) (s\<lparr>core := c\<rparr>)"
    using own_get [OF assms(1), of r0 "s\<lparr>core := c\<rparr>"] get by (simp add: in_core_def)
  have "buf_inv (csp_buffer_copy (Some p) r0 c) = buf_inv c" "buf_refs (csp_buffer_copy (Some p) r0 c) = buf_refs c"
    by (cases r0, simp_all add: csp_buffer_copy_def)+
  with own c show ?thesis by (auto simp: own_def held_def queues_ok_def)
qed

lemma tok_apply: "tok p f q = f q + (if q = p then 1 else 0)"
  by (simp add: tok_def)

lemma otok_apply: "otok x f q = f q + (if x = Some q then 1 else 0)"
  by (cases x) (auto simp: tok_apply)

lemma held_conn_rx:
  assumes "c < CSP_CONN_MAX"
  shows "held dh (upd_conn c (\<lambda>k. k\<lparr>conn_rx_queue := q'\<rparr>) s) p + qheld id (conn_rx_queue (arr_conn s c)) p
    = held dh s p + qheld id q' p"
  using sum_upd [OF assms, of "\<lambda>k. qheld id (conn_rx_queue k) p" "arr_conn s" "(arr_conn s c)\<lparr>conn_rx_queue := q'\<rparr>"]
  by (simp add: held_def upd_conn_def)

lemma queues_ok_conn_rx:
  "queues_ok s \<Longrightarrow> queue_ok q' \<Longrightarrow> q_size q' = CSP_CONN_RXQUEUE_LEN \<Longrightarrow>
     queues_ok (upd_conn c (\<lambda>k. k\<lparr>conn_rx_queue := q'\<rparr>) s)"
  by (auto simp: queues_ok_def upd_conn_def)

lemma queues_okD:
  assumes "queues_ok s"
  shows "queue_ok (qfifo_queue s)" "csp_promisc_queue s = Some pq \<Longrightarrow> queue_ok pq"
    "c < CSP_CONN_MAX \<Longrightarrow> queue_ok (conn_rx_queue (arr_conn s c))"
    "c < CSP_CONN_MAX \<Longrightarrow> q_size (conn_rx_queue (arr_conn s c)) = CSP_CONN_RXQUEUE_LEN"
    "sock_rx_queue (sockets s i) = Some sq \<Longrightarrow> queue_ok sq \<and> i < SOCK_MAX"
    "queue_ok (rdp_tx_queue s)" "queue_ok (rdp_rx_queue s)"
  using assms by (auto simp: queues_ok_def not_le [symmetric] dest: spec [of _ i])

lemma own_queues: "own dh f s \<Longrightarrow> queues_ok s"
  by (simp add: own_def)

lemma own_conn_enqueue:
  assumes "own dh (otok x f) s" "c < CSP_CONN_MAX" "csp_queue_enqueue (conn_rx_queue (arr_conn s c)) x = (r, q')"
  shows "own dh (if r = 0 then f else otok x f) (upd_conn c (\<lambda>k. k\<lparr>conn_rx_queue := q'\<rparr>) s)"
proof -
  note q = queues_okD(3,4) [OF own_queues [OF assms(1)] assms(2)]
  note enq = qheld_enqueue [OF q(1) assms(3), of id]
  show ?thesis
  proof (cases "r = 0")
    case True
    have "queues_ok (upd_conn c (\<lambda>k. k\<lparr>conn_rx_queue := q'\<rparr>) s)"
      using enq True q assms(1) by (intro queues_ok_conn_rx) (auto simp: own_def)
    moreover have "held dh (upd_conn c (\<lambda>k. k\<lparr>conn_rx_queue := q'\<rparr>) s) p = held dh s p + (if x = Some p then 1 else 0)" for p
      using held_conn_rx [OF assms(2), of dh q' s p] enq True by auto
    ultimately show ?thesis
      using assms(1) True by (auto simp: own_def otok_apply) (simp_all add: upd_conn_def)
  next
    case False
    then have "upd_conn c (\<lambda>k. k\<lparr>conn_rx_queue := q'\<rparr>) s = s" using enq by (auto simp: upd_conn_def)
    with assms(1) False show ?thesis by simp
  qed
qed

lemma own_conn_dequeue:
  assumes "own dh f s" "c < CSP_CONN_MAX" "csp_queue_dequeue (conn_rx_queue (arr_conn s c)) = (r, q')"
  shows "own dh (case r of None \<Rightarrow> f | Some x \<Rightarrow> otok x f) (upd_conn c (\<lambda>k. k\<lparr>conn_rx_queue := q'\<rparr>) s)"
proof -
  note q = queues_okD(3,4) [OF own_queues [OF assms(1)] assms(2)]
  note deq = qheld_dequeue [OF q(1) assms(3), of id]
  show ?thesis
  proof (cases r)
    case (Some x)
    have "queues_ok (upd_conn c (\<lambda>k. k\<lparr>conn_rx_queue := q'\<rparr>) s)"
      using deq Some q assms(1) by (intro queues_ok_conn_rx) (auto simp: own_def)
    moreover have "held dh s p = held dh (upd_conn c (\<lambda>k. k\<lparr>conn_rx_queue := q'\<rparr>) s) p + (if x = Some p then 1 else 0)" for p
      using held_conn_rx [OF assms(2), of dh q' s p] deq Some by (cases "x = Some p") auto
    ultimately show ?thesis
      using assms(1) Some by (auto simp: own_def otok_apply) (simp_all add: upd_conn_def)
  next
    case None
    then have "upd_conn c (\<lambda>k. k\<lparr>conn_rx_queue := q'\<rparr>) s = s" using deq by (auto simp: upd_conn_def)
    with assms(1) None show ?thesis by simp
  qed
qed

lemma own_qfifo_enqueue:
  assumes "own dh (otok (qf_packet x) f) s" "csp_queue_enqueue (qfifo_queue s) x = (r, q')"
  shows "own dh (if r = 0 then f else otok (qf_packet x) f) (s\<lparr>qfifo_queue := q'\<rparr>)"
  using qheld_enqueue [OF _ assms(2), of qf_packet] assms(1)
  by (cases "r = 0") (auto simp: own_def queues_ok_def held_def otok_apply simp del: otok_simps)

lemma own_qfifo_dequeue:
  assumes "own dh f s" "csp_queue_dequeue (qfifo_queue s) = (r, q')"
  shows "own dh (case r of None \<Rightarrow> f | Some x \<Rightarrow> otok (qf_packet x) f) (s\<lparr>qfifo_queue := q'\<rparr>)"
  using qheld_dequeue [OF _ assms(2), of qf_packet] assms(1)
  by (cases r) (auto simp: own_def queues_ok_def held_def otok_apply simp del: otok_simps)

lemma own_rdp_tx_enqueue:
  assumes "own dh (otok (Some x) f) s" "csp_queue_enqueue (rdp_tx_queue s) x = (r, q')"
  shows "own dh (if r = 0 then f else otok (Some x) f) (s\<lparr>rdp_tx_queue := q'\<rparr>)"
  using qheld_enqueue [OF _ assms(2), of Some] assms(1)
  by (cases "r = 0") (auto simp: own_def queues_ok_def held_def otok_apply simp del: otok_simps)

lemma own_rdp_tx_dequeue:
  assumes "own dh f s" "csp_queue_dequeue (rdp_tx_queue s) = (r, q')"
  shows "own dh (case r of None \<Rightarrow> f | Some x \<Rightarrow> otok (Some x) f) (s\<lparr>rdp_tx_queue := q'\<rparr>)"
  using qheld_dequeue [OF _ assms(2), of Some] assms(1)
  by (cases r) (auto simp: own_def queues_ok_def held_def otok_apply simp del: otok_simps)

lemma own_rdp_rx_enqueue:
  assumes "own dh (otok (Some x) f) s" "csp_queue_enqueue (rdp_rx_queue s) x = (r, q')"
  shows "own dh (if r = 0 then f else otok (Some x) f) (s\<lparr>rdp_rx_queue := q'\<rparr>)"
  using qheld_enqueue [OF _ assms(2), of Some] assms(1)
  by (cases "r = 0") (auto simp: own_def queues_ok_def held_def otok_apply simp del: otok_simps)

lemma own_rdp_rx_dequeue:
  assumes "own dh f s" "csp_queue_dequeue (rdp_rx_queue s) = (r, q')"
  shows "own dh (case r of None \<Rightarrow> f | Some x \<Rightarrow> otok (Some x) f) (s\<lparr>rdp_rx_queue := q'\<rparr>)"
  using qheld_dequeue [OF _ assms(2), of Some] assms(1)
  by (cases r) (auto simp: own_def queues_ok_def held_def otok_apply simp del: otok_simps)

lemma own_promisc_enqueue:
  assumes "own dh (tok x f) s" "csp_promisc_queue s = Some q" "csp_queue_enqueue q x = (r, q')"
  shows "own dh (if r = 0 then f else tok x f) (s\<lparr>csp_promisc_queue := Some q'\<rparr>)"
  using qheld_enqueue [OF _ assms(3), of Some] assms(1,2)
  by (cases "r = 0") (auto simp: own_def queues_ok_def held_def oheld_def tok_apply)

lemma own_promisc_dequeue:
  assumes "own dh f s" "csp_promisc_queue s = Some q" "csp_queue_dequeue q = (r, q')"
  shows "own dh (otok r f) (s\<lparr>csp_promisc_queue := Some q'\<rparr>)"
  using qheld_dequeue [OF _ assms(3), of Some] assms(1,2)
  by (cases r) (auto simp: own_def queues_ok_def held_def oheld_def otok_apply simp del: otok_simps)

lemma held_sock_rx:
  assumes "i < SOCK_MAX"
  shows "held dh (upd_socket i (\<lambda>k. k\<lparr>sock_rx_queue := q'\<rparr>) s) p + oheld sock_pkt (sock_rx_queue (sockets s i)) p
    = held dh s p + oheld sock_pkt q' p"
  using sum_upd [OF assms, of "\<lambda>k. oheld sock_pkt (sock_rx_queue k) p" "sockets s" "(sockets s i)\<lparr>sock_rx_queue := q'\<rparr>"]
  by (simp add: held_def upd_socket_def)

lemma queues_ok_sock_rx:
  "queues_ok s \<Longrightarrow> queue_ok q' \<Longrightarrow> i < SOCK_MAX \<Longrightarrow> queues_ok (upd_socket i (\<lambda>k. k\<lparr>sock_rx_queue := Some q'\<rparr>) s)"
  by (auto simp: queues_ok_def upd_socket_def)

lemma own_sock_enqueue:
  assumes own: "own dh (otok (sock_pkt x) f) s" and q: "sock_rx_queue (sockets s i) = Some q"
    and enq: "csp_queue_enqueue q x = (r, q')"
  shows "own dh (if r = 0 then f else otok (sock_pkt x) f) (upd_socket i (\<lambda>k. k\<lparr>sock_rx_queue := Some q'\<rparr>) s)"
proof -
  have i: "queue_ok q" "i < SOCK_MAX" using queues_okD(5) [OF own_queues [OF own] q] by auto
  note step = qheld_enqueue [OF i(1) enq, of sock_pkt]
  show ?thesis
  proof (cases "r = 0")
    case True
    have "queues_ok (upd_socket i (\<lambda>k. k\<lparr>sock_rx_queue := Some q'\<rparr>) s)"
      using step True i own by (intro queues_ok_sock_rx) (auto simp: own_def)
    moreover have "held dh (upd_socket i (\<lambda>k. k\<lparr>sock_rx_queue := Some q'\<rparr>) s) p
        = held dh s p + (if sock_pkt x = Some p then 1 else 0)" for p
      using held_sock_rx [OF i(2), of dh "Some q'" s p] step True q by (auto simp: oheld_def)
    ultimately show ?thesis
      using own True by (auto simp: own_def otok_apply) (simp_all add: upd_socket_def)
  next
    case False
    then have "upd_socket i (\<lambda>k. k\<lparr>sock_rx_queue := Some q'\<rparr>) s = s"
      using step q by (cases "sockets s i") (auto simp: upd_socket_def fun_upd_idem_iff)
    with own False show ?thesis by simp
  qed
qed

lemma own_sock_dequeue:
  assumes own: "own dh f s" and q: "sock_rx_queue (sockets s i) = Some q" and deq: "csp_queue_dequeue q = (r, q')"
  shows "own dh (case r of None \<Rightarrow> f | Some x \<Rightarrow> otok (sock_pkt x) f) (upd_socket i (\<lambda>k. k\<lparr>sock_rx_queue := Some q'\<rparr>) s)"
proof -
  have i: "queue_ok q" "i < SOCK_MAX" using queues_okD(5) [OF own_queues [OF own] q] by auto
  note step = qheld_dequeue [OF i(1) deq, of sock_pkt]
  show ?thesis
  proof (cases r)
    case (Some x)
    have "queues_ok (upd_socket i (\<lambda>k. k\<lparr>sock_rx_queue := Some q'\<rparr>) s)"
      using step Some i own by (intro queues_ok_sock_rx) (auto simp: own_def)
    moreover have "held dh s p = held dh (upd_socket i (\<lambda>k. k\<lparr>sock_rx_queue := Some q'\<rparr>) s) p
        + (if sock_pkt x = Some p then 1 else 0)" for p
      using held_sock_rx [OF i(2), of dh "Some q'" s p] step Some q by (cases "sock_pkt x = Some p") (auto simp: oheld_def)
    ultimately show ?thesis
      using own Some by (auto simp: own_def otok_apply) (simp_all add: upd_socket_def)
  next
    case None
    then have "upd_socket i (\<lambda>k. k\<lparr>sock_rx_queue := Some q'\<rparr>) s = s"
      using step q by (cases "sockets s i") (auto simp: upd_socket_def fun_upd_idem_iff)
    with own None show ?thesis by simp
  qed
qed

end
