(* ===== verification/CSP_Qfifo.thy ===== *)
theory CSP_Qfifo
  imports CSP_State
begin

text \<open>
  The router input queue (\<^verbatim>\<open>src/src/csp_qfifo.c\<close>), promiscuous mode
  (\<^verbatim>\<open>src/src/csp_promisc.c\<close>) and the loopback interface
  (\<^verbatim>\<open>src/src/interfaces/csp_if_lo.c\<close>).
\<close>

section \<open>Router queue\<close>

definition csp_qfifo_init :: "'d csp_state \<Rightarrow> 'd csp_state" where
  "csp_qfifo_init s = s\<lparr>qfifo_queue := csp_queue_create_static CSP_QFIFO_LEN (q_buffer (qfifo_queue s))\<rparr>"

definition csp_qfifo_read :: "'d csp_state \<Rightarrow> int \<times> csp_qfifo option \<times> 'd csp_state" where
  "csp_qfifo_read s =
     (let (r, q) = csp_queue_dequeue (qfifo_queue s); s = s\<lparr>qfifo_queue := q\<rparr>
      in case r of
           None \<Rightarrow> (CSP_ERR_TIMEDOUT, None, s)
         | Some input \<Rightarrow> (CSP_ERR_NONE, Some input, s))"

text \<open>The flag \<open>isr\<close> is \<^verbatim>\<open>pxTaskWoken != NULL\<close>.\<close>

definition csp_qfifo_write :: "addr option \<Rightarrow> addr option \<Rightarrow> bool \<Rightarrow> 'd csp_state \<Rightarrow> 'd csp_state" where
  "csp_qfifo_write pk iface isr s =
     (case pk of
        None \<Rightarrow> set_errno CSP_DBG_ERR_INVALID_POINTER s
      | Some p \<Rightarrow>
          let free = (if isr then on_core (csp_buffer_free_isr (Some p)) else on_core (csp_buffer_free (Some p)))
          in case iface of
               None \<Rightarrow> free (set_errno CSP_DBG_ERR_INVALID_POINTER s)
             | Some i \<Rightarrow>
                 let queue_element = \<lparr>qf_iface = Some i, qf_packet = Some p\<rparr>;
                     (result, q) = (if isr then csp_queue_enqueue_isr (qfifo_queue s) queue_element
                                    else csp_queue_enqueue (qfifo_queue s) queue_element);
                     s = s\<lparr>qfifo_queue := q\<rparr>
                 in if result \<noteq> CSP_QUEUE_OK
                    then free (upd_iface i (\<lambda>k. k\<lparr>if_tx_error := if_tx_error k + 1\<rparr>) (conn_ovf s))
                    else s)"

definition csp_qfifo_wake_up :: "'d csp_state \<Rightarrow> 'd csp_state" where
  "csp_qfifo_wake_up s =
     s\<lparr>qfifo_queue := snd (csp_queue_enqueue (qfifo_queue s) \<lparr>qf_iface = None, qf_packet = None\<rparr>)\<rparr>"

section \<open>Promiscuous mode\<close>

definition csp_promisc_enable :: "nat \<Rightarrow> 'd csp_state \<Rightarrow> int \<times> 'd csp_state" where
  "csp_promisc_enable queue_size s =
     (case csp_promisc_queue s of
        Some _ \<Rightarrow> (CSP_ERR_USED, s\<lparr>csp_promisc_enabled := True\<rparr>)
      | None \<Rightarrow> (CSP_ERR_NONE, s\<lparr>csp_promisc_queue := Some (csp_queue_create_static CSP_CONN_RXQUEUE_LEN (\<lambda>_. 0)),
                                 csp_promisc_enabled := True\<rparr>))"

definition csp_promisc_disable :: "'d csp_state \<Rightarrow> 'd csp_state" where
  "csp_promisc_disable s = s\<lparr>csp_promisc_enabled := False\<rparr>"

definition csp_promisc_read :: "'d csp_state \<Rightarrow> addr option \<times> 'd csp_state" where
  "csp_promisc_read s =
     (case csp_promisc_queue s of
        None \<Rightarrow> (None, s)
      | Some q \<Rightarrow> let (pk, q) = csp_queue_dequeue q in (pk, s\<lparr>csp_promisc_queue := Some q\<rparr>))"

definition csp_promisc_add :: "addr \<Rightarrow> 'd csp_state \<Rightarrow> 'd csp_state" where
  "csp_promisc_add p s =
     (if \<not> csp_promisc_enabled s then s
      else case csp_promisc_queue s of
             None \<Rightarrow> s
           | Some q \<Rightarrow>
               let (copy, s) = in_core (csp_buffer_clone (Some p)) s
               in case copy of
                    None \<Rightarrow> s
                  | Some packet_copy \<Rightarrow>
                      let (r, q) = csp_queue_enqueue q packet_copy; s = s\<lparr>csp_promisc_queue := Some q\<rparr>
                      in if r \<noteq> CSP_QUEUE_OK then free_pkt packet_copy (conn_ovf s) else s)"

section \<open>Loopback\<close>

definition csp_lo_tx :: "addr \<Rightarrow> u16 \<Rightarrow> addr \<Rightarrow> bool \<Rightarrow> 'd csp_state \<Rightarrow> int \<times> 'd csp_state" where
  "csp_lo_tx iface via p from_me s = (CSP_ERR_NONE, csp_qfifo_write (Some p) (Some csp_if_lo) False s)"

section \<open>Accounting\<close>

lemma own_qfifo_write:
  assumes "own dh (otok pk f) s"
  shows "own dh f (csp_qfifo_write pk iface isr s)"
proof (cases pk)
  case None
  with assms show ?thesis by (simp add: csp_qfifo_write_def)
next
  case (Some p)
  have fr: "on_core (csp_buffer_free (Some p)) = free_pkt p" by (simp add: fun_eq_iff free_pkt_def)
  show ?thesis
  proof (cases iface)
    case None
    with Some assms show ?thesis by (simp add: csp_qfifo_write_def Let_def fr own_free)
  next
    case i: (Some i)
    let ?x = "\<lparr>qf_iface = Some i, qf_packet = Some p\<rparr>"
    obtain r q where enq: "csp_queue_enqueue (qfifo_queue s) ?x = (r, q)" by fastforce
    have "own dh (if r = 0 then f else tok p f) (s\<lparr>qfifo_queue := q\<rparr>)"
      using own_qfifo_enqueue [OF _ enq, of dh f] assms Some by (simp split: if_splits)
    then show ?thesis
      using Some i enq by (simp add: csp_qfifo_write_def Let_def fr own_free split: if_splits)
  qed
qed

lemma own_qfifo_read:
  assumes "own dh f s" "csp_qfifo_read s = (r, input, s')"
  shows "own dh (case input of None \<Rightarrow> f | Some x \<Rightarrow> otok (qf_packet x) f) s'"
proof -
  obtain x q where deq: "csp_queue_dequeue (qfifo_queue s) = (x, q)" by fastforce
  from own_qfifo_dequeue [OF assms(1) deq] assms(2) deq show ?thesis
    by (auto simp: csp_qfifo_read_def split: option.splits)
qed

lemma own_promisc_add: "own dh f s \<Longrightarrow> own dh f (csp_promisc_add p s)"
proof -
  assume own: "own dh f s"
  show ?thesis
  proof (cases "csp_promisc_enabled s \<and> csp_promisc_queue s \<noteq> None")
    case False
    then show ?thesis using own by (auto simp: csp_promisc_add_def)
  next
    case True
    then obtain q where q: "csp_promisc_queue s = Some q" by auto
    obtain copy s1 where clone: "in_core (csp_buffer_clone (Some p)) s = (copy, s1)" by fastforce
    then have q1: "csp_promisc_queue s1 = Some q" using q by (auto simp: in_core_def)
    note own1 = own_clone [OF own clone]
    show ?thesis
    proof (cases copy)
      case None
      with True q clone own1 show ?thesis by (simp add: csp_promisc_add_def)
    next
      case (Some c)
      obtain r q' where enq: "csp_queue_enqueue q c = (r, q')" by fastforce
      have "own dh (if r = 0 then f else tok c f) (s1\<lparr>csp_promisc_queue := Some q'\<rparr>)"
        using own1 Some own_promisc_enqueue [OF _ q1 enq, of dh f] by simp
      with True q clone Some enq show ?thesis
        by (simp add: csp_promisc_add_def own_free split: if_splits)
    qed
  qed
qed

lemma own_promisc_read:
  assumes "own dh f s" "csp_promisc_read s = (r, s')"
  shows "own dh (otok r f) s'"
proof (cases "csp_promisc_queue s")
  case None
  with assms show ?thesis by (auto simp: csp_promisc_read_def)
next
  case (Some q)
  obtain x q' where deq: "csp_queue_dequeue q = (x, q')" by fastforce
  from own_promisc_dequeue [OF assms(1) Some deq] assms(2) Some deq show ?thesis
    by (auto simp: csp_promisc_read_def)
qed

end
