(* ===== verification/CSP_Send.thy ===== *)
theory CSP_Send
  imports CSP_Qfifo
begin

text \<open>
  Sending a packet: the choice of the outgoing interfaces and the call of their transmit
  functions, \<^verbatim>\<open>csp_send_direct\<close> and \<^verbatim>\<open>csp_send_direct_iface\<close> of \<^verbatim>\<open>src/src/csp_io.c\<close>. The
  transmit functions are reached through the function pointer \<^verbatim>\<open>nexthop\<close>: here a parameter
  \<open>nh\<close>, with the contract of \<^verbatim>\<open>csp_interface.h\<close> as the locale \<open>nexthop_contract\<close>.
\<close>

section \<open>Operations\<close>

type_synonym 'd nexthop_fn = "nexthop \<Rightarrow> addr \<Rightarrow> u16 \<Rightarrow> addr \<Rightarrow> bool \<Rightarrow> 'd csp_state \<Rightarrow> int \<times> 'd csp_state"

text \<open>
  What a node adds to its own packets: HMAC, CRC32 and the copy for promiscuous mode;
  \<open>False\<close> is the jump to \<^verbatim>\<open>tx_err\<close>.
\<close>

definition send_from_me :: "csp_id \<Rightarrow> addr \<Rightarrow> addr \<Rightarrow> 'd csp_state \<Rightarrow> bool \<times> 'd csp_state" where
  "send_from_me ido p i s =
     (let (r, s) = (if id_flags ido AND CSP_FHMAC \<noteq> 0 then in_core (csp_hmac_append (hmac_key s) p False) s
                    else (CSP_ERR_NONE, s))
      in if r \<noteq> CSP_ERR_NONE then (False, s)
         else let (r, s) = (if id_flags ido AND CSP_FCRC32 \<noteq> 0 then in_core (csp_crc32_append p) s
                            else (CSP_ERR_NONE, s))
              in if r \<noteq> CSP_ERR_NONE then (False, s)
                 else (True, if i \<noteq> csp_if_lo then csp_promisc_add p s else s))"

definition send_tx_err :: "addr \<Rightarrow> addr \<Rightarrow> 'd csp_state \<Rightarrow> 'd csp_state" where
  "send_tx_err p i s = upd_iface i (\<lambda>k. k\<lparr>if_tx_error := if_tx_error k + 1\<rparr>) (free_pkt p s)"

definition csp_send_direct_iface ::
  "'d nexthop_fn \<Rightarrow> csp_id \<Rightarrow> addr \<Rightarrow> addr \<Rightarrow> u16 \<Rightarrow> bool \<Rightarrow> 'd csp_state \<Rightarrow> 'd csp_state" where
  "csp_send_direct_iface nh ido p i via from_me s =
     (let s = upd_pkt p (\<lambda>k. k\<lparr>pkt_id := csp_id_copy (pkt_id k) ido\<rparr>) s;
          (ok, s) = (if from_me then send_from_me ido p i s else (True, s))
      in if \<not> ok then send_tx_err p i s
         else let bytes = pkt_length (pkt s p);
                  (r, s) = nh (if_nexthop (ifaces (iflist s) i)) i via p from_me s
              in if r \<noteq> CSP_ERR_NONE then send_tx_err p i s
                 else upd_iface i (\<lambda>k. k\<lparr>if_tx := if_tx k + 1, if_txbytes := if_txbytes k + ucast bytes\<rparr>) s)"

text \<open>
  The identifier \<^verbatim>\<open>idout\<close> is passed by reference: it is a local variable of the caller, the
  identifier of a packet or that of a connection. The loops carry its value; \<open>set_idout\<close> is
  the assignment through the pointer.
\<close>

datatype id_ptr = Id_local | Id_packet addr | Id_conn addr

definition set_idout :: "id_ptr \<Rightarrow> csp_id \<Rightarrow> 'd csp_state \<Rightarrow> 'd csp_state" where
  "set_idout ptr ido s =
     (case ptr of
        Id_local \<Rightarrow> s
      | Id_packet q \<Rightarrow> upd_pkt q (\<lambda>k. k\<lparr>pkt_id := ido\<rparr>) s
      | Id_conn c \<Rightarrow> upd_conn c (\<lambda>k. k\<lparr>idout := ido\<rparr>) s)"

text \<open>Split horizon: neither back to the interface the packet came from nor into its subnet.\<close>

definition split_horizon :: "'d csp_state \<Rightarrow> addr option \<Rightarrow> addr \<Rightarrow> bool" where
  "split_horizon s routed_from i \<longleftrightarrow>
     Some i = routed_from
     \<or> csp_iflist_is_within_subnet (ver s) (if_addr (ifaces (iflist s) i)) (map_option (ifaces (iflist s)) routed_from)"

text \<open>Sending a copy: the packet itself stays with the caller.\<close>

definition send_copy ::
  "'d nexthop_fn \<Rightarrow> csp_id \<Rightarrow> addr \<Rightarrow> addr \<Rightarrow> u16 \<Rightarrow> bool \<Rightarrow> 'd csp_state \<Rightarrow> 'd csp_state" where
  "send_copy nh ido p i via from_me s =
     (let (copy, s) = in_core (csp_buffer_clone (Some p)) s
      in case copy of None \<Rightarrow> s | Some c \<Rightarrow> csp_send_direct_iface nh ido c i via from_me s)"

text \<open>
  The loop over the local subnets; \<open>loc\<close> is the local copy \<^verbatim>\<open>_idout\<close>. The fuel bounds the
  rounds by the number of interfaces.
\<close>

fun send_subnets :: "nat \<Rightarrow> 'd nexthop_fn \<Rightarrow> csp_id \<Rightarrow> csp_id \<Rightarrow> addr \<Rightarrow> addr option \<Rightarrow> addr option \<Rightarrow>
    'd csp_state \<Rightarrow> bool \<times> 'd csp_state" where
  "send_subnets 0 nh ido loc p routed_from iface s = (False, s)"
| "send_subnets (Suc n) nh ido loc p routed_from iface s =
     (case csp_iflist_get_by_subnet (ver s) (id_dst ido) iface (iflist s) of
        None \<Rightarrow> (False, s)
      | Some i \<Rightarrow>
          if split_horizon s routed_from i
          then (True, snd (send_subnets n nh ido loc p routed_from (Some i) s))
          else let from_me = (routed_from = None);
                   loc = (if from_me \<and> id_src ido = 0 then loc\<lparr>id_src := if_addr (ifaces (iflist s) i)\<rparr> else loc);
                   loc = (if csp_id_is_broadcast (ver s) (id_dst ido) (ifaces (iflist s) i)
                          then loc\<lparr>id_dst := of_nat (csp_id_get_max_nodeid (ver s))\<rparr> else loc);
                   s = send_copy nh loc p i CSP_NO_VIA_ADDRESS from_me s
               in (True, snd (send_subnets n nh ido loc p routed_from (Some i) s)))"

text \<open>The loop over the routes of the longest prefix, from the entry found backwards.\<close>

fun send_routes :: "nat \<Rightarrow> 'd nexthop_fn \<Rightarrow> id_ptr \<Rightarrow> csp_id \<Rightarrow> addr \<Rightarrow> addr option \<Rightarrow> nat option \<Rightarrow>
    'd csp_state \<Rightarrow> 'd csp_state" where
  "send_routes 0 nh ptr ido p routed_from route s = s"
| "send_routes (Suc n) nh ptr ido p routed_from route s =
     (case route of
        None \<Rightarrow> s
      | Some r \<Rightarrow>
          (case rt_iface (rtable (routes s) r) of
             None \<Rightarrow> s
           | Some i \<Rightarrow>
               let nxt = csp_rtable_search_backward (Some r) (routes s)
               in if split_horizon s routed_from i then send_routes n nh ptr ido p routed_from nxt s
                  else let from_me = (routed_from = None);
                           assign = (from_me \<and> id_src ido = 0);
                           ido = (if assign then ido\<lparr>id_src := if_addr (ifaces (iflist s) i)\<rparr> else ido);
                           s = (if assign then set_idout ptr ido s else s);
                           s = send_copy nh ido p i (rt_via (rtable (routes s) r)) from_me s
                       in send_routes n nh ptr ido p routed_from nxt s))"

text \<open>The loop over the default interfaces.\<close>

fun send_defaults :: "nat \<Rightarrow> 'd nexthop_fn \<Rightarrow> id_ptr \<Rightarrow> csp_id \<Rightarrow> addr \<Rightarrow> addr option \<Rightarrow> addr option \<Rightarrow>
    'd csp_state \<Rightarrow> 'd csp_state" where
  "send_defaults 0 nh ptr ido p routed_from iface s = s"
| "send_defaults (Suc n) nh ptr ido p routed_from iface s =
     (case csp_iflist_get_by_isdfl iface (iflist s) of
        None \<Rightarrow> s
      | Some i \<Rightarrow>
          if split_horizon s routed_from i then send_defaults n nh ptr ido p routed_from (Some i) s
          else let from_me = (routed_from = None);
                   assign = (from_me \<and> id_src ido = 0);
                   ido = (if assign then ido\<lparr>id_src := if_addr (ifaces (iflist s) i)\<rparr> else ido);
                   s = (if assign then set_idout ptr ido s else s);
                   s = send_copy nh ido p i CSP_NO_VIA_ADDRESS from_me s
               in send_defaults n nh ptr ido p routed_from (Some i) s)"

text \<open>
  The whole function, with the routing table compiled in. A route entry always has an
  interface (\<open>csp_rtable_set\<close> refuses one without).
\<close>

definition csp_send_direct ::
  "'d nexthop_fn \<Rightarrow> id_ptr \<Rightarrow> csp_id \<Rightarrow> addr \<Rightarrow> addr option \<Rightarrow> 'd csp_state \<Rightarrow> 'd csp_state" where
  "csp_send_direct nh ptr ido p routed_from s =
     (let from_me = (routed_from = None)
      in if id_dst ido = if_addr (ifaces (iflist s) csp_if_lo)
         then csp_send_direct_iface nh ido p csp_if_lo CSP_NO_VIA_ADDRESS from_me s
         else let (local_found, s) = send_subnets (Suc IF_MAX) nh ido ido p routed_from None s
              in if local_found then free_pkt p s
                 else case csp_rtable_find_route (ver s) (id_dst ido) (routes s) of
                        Some r \<Rightarrow> free_pkt p (send_routes (Suc r) nh ptr ido p routed_from (Some r) s)
                      | None \<Rightarrow> free_pkt p (send_defaults (Suc IF_MAX) nh ptr ido p routed_from None s))"

section \<open>What sending leaves alone\<close>

definition if_static :: "csp_iflist \<Rightarrow> csp_iflist \<Rightarrow> bool" where
  "if_static l l' \<longleftrightarrow> interfaces l' = interfaces l \<and> (\<forall>i. if_addr (ifaces l' i) = if_addr (ifaces l i)
     \<and> if_netmask (ifaces l' i) = if_netmask (ifaces l i) \<and> if_name (ifaces l' i) = if_name (ifaces l i)
     \<and> if_nexthop (ifaces l' i) = if_nexthop (ifaces l i) \<and> is_default (ifaces l' i) = is_default (ifaces l i)
     \<and> if_next (ifaces l' i) = if_next (ifaces l i))"

text \<open>Transmission changes buffers, interface counters, the router queue, promiscuous copies and drivers.\<close>

definition tx_frame :: "'d csp_state \<Rightarrow> 'd csp_state \<Rightarrow> bool" where
  "tx_frame s s' \<longleftrightarrow> s' = s\<lparr>core := core s', iflist := iflist s', qfifo_queue := qfifo_queue s',
      csp_promisc_queue := csp_promisc_queue s', drv := drv s'\<rparr>
     \<and> csp_conf (core s') = csp_conf (core s) \<and> csp_ms (core s') = csp_ms (core s) \<and> if_static (iflist s) (iflist s')"

text \<open>Packets in use, other than those of \<open>P\<close>, keep their contents and their references.\<close>

definition pkts_kept :: "addr set \<Rightarrow> 'd csp_state \<Rightarrow> 'd csp_state \<Rightarrow> bool" where
  "pkts_kept P s s' \<longleftrightarrow> (\<forall>q. q \<notin> P \<longrightarrow> 0 < buf_refs (core s) q \<longrightarrow>
     pkt s' q = pkt s q \<and> buf_refs (core s) q \<le> buf_refs (core s') q)"

lemma if_static_refl [simp]: "if_static l l"
  by (simp add: if_static_def)

lemma if_static_trans: "if_static a b \<Longrightarrow> if_static b c \<Longrightarrow> if_static a c"
  by (simp add: if_static_def)

lemma tx_frame_refl [simp]: "tx_frame s s"
  by (simp add: tx_frame_def)

lemma tx_frame_trans:
  assumes "tx_frame a b" "tx_frame b c"
  shows "tx_frame a c"
proof -
  let ?to = "\<lambda>x y. x\<lparr>core := core y, iflist := iflist y, qfifo_queue := qfifo_queue y,
      csp_promisc_queue := csp_promisc_queue y, drv := drv y\<rparr>"
  have ab: "b = ?to a b" and bc: "c = ?to b c" using assms by (simp_all add: tx_frame_def)
  have "?to b c = ?to (?to a b) c" by (rule arg_cong [OF ab, of "\<lambda>x. ?to x c"])
  also have "\<dots> = ?to a c" by simp
  finally have "c = ?to a c" by (rule trans [OF bc])
  with assms show ?thesis by (auto simp: tx_frame_def intro: if_static_trans)
qed

lemma tx_frame_core: "csp_conf c = csp_conf (core s) \<Longrightarrow> csp_ms c = csp_ms (core s) \<Longrightarrow> tx_frame s (s\<lparr>core := c\<rparr>)"
  by (simp add: tx_frame_def)

lemma tx_frame_upds [simp]:
  "tx_frame s (s\<lparr>csp_promisc_queue := x1\<rparr>)" "tx_frame s (s\<lparr>qfifo_queue := x2\<rparr>)" "tx_frame s (s\<lparr>drv := x3\<rparr>)"
  "tx_frame s (conn_ovf s)" "tx_frame s (set_errno e s)" "tx_frame s (upd_pkt p g s)"
  "tx_frame s (s\<lparr>core := csp_id_prepend p (core s)\<rparr>)"
  by (simp_all add: tx_frame_def conn_ovf_def set_errno_def upd_pkt_def on_core_def)

lemma tx_frame_upd_iface:
  "if_static (iflist s) ((iflist s)\<lparr>ifaces := (ifaces (iflist s))(i := g (ifaces (iflist s) i))\<rparr>) \<Longrightarrow> tx_frame s (upd_iface i g s)"
  by (simp add: tx_frame_def upd_iface_def)

lemma tx_frame_counters [simp]:
  "tx_frame s (upd_iface i (\<lambda>k. k\<lparr>if_tx_error := a1 k\<rparr>) s)" "tx_frame s (upd_iface i (\<lambda>k. k\<lparr>if_rx_error := a1 k\<rparr>) s)"
  "tx_frame s (upd_iface i (\<lambda>k. k\<lparr>if_tx := a1 k, if_txbytes := a2 k\<rparr>) s)"
  "tx_frame s (upd_iface i (\<lambda>k. k\<lparr>if_rx := a1 k, if_rxbytes := a2 k\<rparr>) s)"
  "tx_frame s (upd_iface i (\<lambda>k. k\<lparr>if_drop := a1 k\<rparr>) s)" "tx_frame s (upd_iface i (\<lambda>k. k\<lparr>if_autherr := a1 k\<rparr>) s)"
  "tx_frame s (upd_iface i (\<lambda>k. k\<lparr>if_frame := a1 k\<rparr>) s)"
  by (rule tx_frame_upd_iface; simp add: if_static_def)+

lemma pkts_kept_refl [simp]: "pkts_kept P s s"
  by (simp add: pkts_kept_def)

lemma pkts_kept_trans: "pkts_kept P a b \<Longrightarrow> pkts_kept P b c \<Longrightarrow> pkts_kept P a c"
  unfolding pkts_kept_def by (metis (no_types, opaque_lifting) dual_order.strict_trans1 order.trans)

lemma pkts_kept_mono: "pkts_kept P a b \<Longrightarrow> P \<subseteq> Q \<Longrightarrow> pkts_kept Q a b"
  unfolding pkts_kept_def by blast

lemma pkts_kept_fresh:
  "pkts_kept {} a b \<Longrightarrow> pkts_kept {c} b d \<Longrightarrow> buf_refs (core a) c = 0 \<Longrightarrow> pkts_kept {} a d"
  unfolding pkts_kept_def by (metis (no_types, opaque_lifting) dual_order.strict_trans1 empty_iff less_irrefl order.trans singletonD)

lemma pkts_kept_dbg [simp]:
  "pkts_kept P s (conn_ovf s') = pkts_kept P s s'" "pkts_kept P s (set_errno e s') = pkts_kept P s s'"
  "pkts_kept P (conn_ovf s) s' = pkts_kept P s s'" "pkts_kept P (set_errno e s) s' = pkts_kept P s s'"
  by (simp_all add: pkts_kept_def conn_ovf_def set_errno_def on_core_def packet_def)

lemma pkts_kept_frame [simp]:
  "pkts_kept P s (s'\<lparr>iflist := x1\<rparr>) = pkts_kept P s s'" "pkts_kept P s (upd_iface i g s') = pkts_kept P s s'"
  "pkts_kept P s (upd_conn c h s') = pkts_kept P s s'" "pkts_kept P (upd_conn c h s) s' = pkts_kept P s s'"
  "pkts_kept P s (s'\<lparr>csp_promisc_queue := x2\<rparr>) = pkts_kept P s s'"
  "pkts_kept P s (s'\<lparr>qfifo_queue := x3\<rparr>) = pkts_kept P s s'"
  by (simp_all add: pkts_kept_def upd_iface_def upd_conn_def)

lemma free_core [simp]:
  "packet (csp_buffer_free x c) = packet c" "csp_conf (csp_buffer_free x c) = csp_conf c"
  "csp_ms (csp_buffer_free x c) = csp_ms c"
  by (auto simp: csp_buffer_free_def packet_def upd_skbf_def Let_def fun_eq_iff split: option.splits)

lemma get_actual_core:
  assumes "csp_buffer_get_actual n isr c = (r, c')"
  shows "csp_conf c' = csp_conf c" "csp_ms c' = csp_ms c" "r \<noteq> Some q \<Longrightarrow> packet c' q = packet c q"
    "r = Some q \<Longrightarrow> packet c' q = fresh_packet q"
  using assms by (auto simp: csp_buffer_get_actual_def packet_def csp_packet_init_eq upd_packet_def upd_skbf_def
      Let_def split: option.splits if_splits prod.splits)

lemma clone_core:
  assumes "csp_buffer_clone (Some p) c = (r, c')"
  shows "csp_conf c' = csp_conf c" "csp_ms c' = csp_ms c" "r \<noteq> Some q \<Longrightarrow> packet c' q = packet c q"
    "r = Some q \<Longrightarrow> p \<noteq> q \<Longrightarrow> packet c' q = packet c p"
proof -
  obtain r0 c0 where get: "csp_buffer_get_actual 2 False c = (r0, c0)" by fastforce
  have c': "r = r0" "c' = csp_buffer_copy (Some p) r0 c0"
    using assms get by (auto simp: csp_buffer_clone_def csp_buffer_get_def)
  show "csp_conf c' = csp_conf c" "csp_ms c' = csp_ms c" "r \<noteq> Some q \<Longrightarrow> packet c' q = packet c q"
    "r = Some q \<Longrightarrow> p \<noteq> q \<Longrightarrow> packet c' q = packet c p"
    using get_actual_core [OF get] c' by (cases r0; auto simp: csp_buffer_copy_def)+
qed

lemma pkts_kept_free: "own dh (tok p f) s \<Longrightarrow> pkts_kept {p} s (free_pkt p s)"
proof -
  assume own: "own dh (tok p f) s"
  then have "buf_inv (core s)" "0 < buf_refs (core s) p" by (auto simp: own_def tok_def)
  from free_pool [OF this] show ?thesis by (simp add: pkts_kept_def free_pkt_def on_core_def)
qed

lemma tx_frame_free [simp]: "tx_frame s (free_pkt p s)"
  by (simp add: free_pkt_def on_core_def tx_frame_core)

lemma clone_frames:
  assumes "own dh f s" "in_core (csp_buffer_clone (Some p)) s = (r, s')"
  shows "own dh (otok r f) s'" "tx_frame s s'" "pkts_kept {} s s'" "r = Some c \<Longrightarrow> buf_refs (core s) c = 0"
    "s' = s\<lparr>core := core s'\<rparr>"
proof -
  have cl: "csp_buffer_clone (Some p) (core s) = (r, core s')" and s': "s' = s\<lparr>core := core s'\<rparr>"
    using assms(2) by (auto simp: in_core_def)
  obtain r0 c0 where get: "csp_buffer_get_actual 2 False (core s) = (r0, c0)" by fastforce
  have r: "r = r0" "core s' = csp_buffer_copy (Some p) r0 c0"
    using cl get by (auto simp: csp_buffer_clone_def csp_buffer_get_def)
  have inv: "buf_inv (core s)" using assms(1) by (simp add: own_def)
  have refs: "r = Some c \<Longrightarrow> buf_refs (core s) c = 0" "buf_refs (core s') = (case r of None \<Rightarrow> buf_refs (core s)
      | Some c \<Rightarrow> (buf_refs (core s))(c := 1))" for c
    using get_actual_pool [OF inv get] r by (auto simp: csp_buffer_copy_def split: option.splits)
  show "own dh (otok r f) s'" by (rule own_clone [OF assms])
  show "s' = s\<lparr>core := core s'\<rparr>" by (fact s')
  show "tx_frame s s'" by (subst s') (rule tx_frame_core; use clone_core [OF cl] in simp)
  show "r = Some c \<Longrightarrow> buf_refs (core s) c = 0" by (rule refs)
  show "pkts_kept {} s s'"
    using clone_core(3) [OF cl] refs by (cases r) (auto simp: pkts_kept_def)
qed

lemma promisc_add_frames:
  assumes "own dh f s"
  shows "tx_frame s (csp_promisc_add p s)" "pkts_kept {} s (csp_promisc_add p s)"
proof -
  have "tx_frame s (csp_promisc_add p s) \<and> pkts_kept {} s (csp_promisc_add p s)"
  proof (cases "csp_promisc_enabled s \<and> csp_promisc_queue s \<noteq> None")
    case False
    then have "csp_promisc_add p s = s" by (auto simp: csp_promisc_add_def)
    then show ?thesis by simp
  next
    case True
    then obtain q where q: "csp_promisc_queue s = Some q" by auto
    obtain copy s1 where clone: "in_core (csp_buffer_clone (Some p)) s = (copy, s1)" by fastforce
    note fr = clone_frames [OF assms clone]
    show ?thesis
    proof (cases copy)
      case None
      with True q clone fr show ?thesis by (simp add: csp_promisc_add_def)
    next
      case (Some c)
      obtain r q' where enq: "csp_queue_enqueue q c = (r, q')" by fastforce
      let ?s2 = "s1\<lparr>csp_promisc_queue := Some q'\<rparr>"
      have two: "tx_frame s ?s2" "pkts_kept {} s ?s2"
        using fr(3) tx_frame_trans [OF fr(2) tx_frame_upds(1)] by simp_all
      have "csp_promisc_queue s1 = Some q" using q by (subst fr(5)) simp
      then have own2: "own dh (if r = 0 then f else tok c f) ?s2"
        using fr(1) Some own_promisc_enqueue [OF _ _ enq, of dh f s1] by simp
      let ?s3 = "free_pkt c (conn_ovf ?s2)"
      have three: "tx_frame s ?s3 \<and> pkts_kept {} s ?s3" if "r \<noteq> 0"
      proof
        show "tx_frame s ?s3"
          using tx_frame_trans [OF two(1) tx_frame_trans [OF tx_frame_upds(4) tx_frame_free]] .
        have "pkts_kept {c} (conn_ovf ?s2) ?s3" using own2 that by (intro pkts_kept_free [of dh c f]) simp
        then show "pkts_kept {} s ?s3" using pkts_kept_fresh [OF two(2), of c] fr(4) Some by simp
      qed
      show ?thesis using True q clone Some enq two three by (simp add: csp_promisc_add_def Let_def)
    qed
  qed
  then show "tx_frame s (csp_promisc_add p s)" "pkts_kept {} s (csp_promisc_add p s)" by simp_all
qed

text \<open>Operations on the contents of one packet only.\<close>

lemma append_core:
  "buf_inv (snd (csp_hmac_append key p h c)) = buf_inv c" "buf_refs (snd (csp_hmac_append key p False c)) = buf_refs c"
  "csp_conf (snd (csp_hmac_append key p False c)) = csp_conf c" "csp_ms (snd (csp_hmac_append key p False c)) = csp_ms c"
  "q \<noteq> p \<Longrightarrow> packet (snd (csp_hmac_append key p False c)) q = packet c q"
  "buf_inv (snd (csp_crc32_append p c)) = buf_inv c" "buf_refs (snd (csp_crc32_append p c)) = buf_refs c"
  "csp_conf (snd (csp_crc32_append p c)) = csp_conf c" "csp_ms (snd (csp_crc32_append p c)) = csp_ms c"
  "q \<noteq> p \<Longrightarrow> packet (snd (csp_crc32_append p c)) q = packet c q"
  by (simp_all add: csp_hmac_append_def csp_crc32_append_def write_data_def write_frame_def Let_def split_beta)

lemma hmac_append_frames:
  assumes "in_core (csp_hmac_append key p False) s = (r, s')"
  shows "own dh f s' = own dh f s" "tx_frame s s'" "pkts_kept {p} s s'"
  using assms by (auto simp: in_core_def append_core own_core_cong pkts_kept_def intro: tx_frame_core)

lemma crc32_append_frames:
  assumes "in_core (csp_crc32_append p) s = (r, s')"
  shows "own dh f s' = own dh f s" "tx_frame s s'" "pkts_kept {p} s s'"
  using assms by (auto simp: in_core_def append_core own_core_cong pkts_kept_def intro: tx_frame_core)

lemma pkts_kept_upd_pkt [simp]: "p \<in> P \<Longrightarrow> pkts_kept P s (upd_pkt p g s)"
  by (auto simp: pkts_kept_def upd_pkt_def on_core_def)

text \<open>With an identifier passed by reference, also the connection or packet it belongs to changes.\<close>

definition ptr_frame :: "id_ptr \<Rightarrow> 'd csp_state \<Rightarrow> 'd csp_state \<Rightarrow> bool" where
  "ptr_frame ptr s s' \<longleftrightarrow> tx_frame (s\<lparr>arr_conn := arr_conn s'\<rparr>) s'
     \<and> (\<forall>j. arr_conn s' j = (if ptr = Id_conn j then (arr_conn s j)\<lparr>idout := idout (arr_conn s' j)\<rparr> else arr_conn s j))"

fun ptr_pkts :: "id_ptr \<Rightarrow> addr set" where
  "ptr_pkts (Id_packet q) = {q}"
| "ptr_pkts _ = {}"

lemma tx_frame_arr_conn [simp]:
  "tx_frame a b \<Longrightarrow> tx_frame (a\<lparr>arr_conn := k\<rparr>) (b\<lparr>arr_conn := k\<rparr>)"
proof -
  assume fr: "tx_frame a b"
  let ?to = "\<lambda>x y. x\<lparr>core := core y, iflist := iflist y, qfifo_queue := qfifo_queue y,
      csp_promisc_queue := csp_promisc_queue y, drv := drv y\<rparr>"
  have ab: "b = ?to a b" using fr by (simp add: tx_frame_def)
  have "b\<lparr>arr_conn := k\<rparr> = (?to a b)\<lparr>arr_conn := k\<rparr>" by (rule arg_cong [OF ab, of "\<lambda>x. x\<lparr>arr_conn := k\<rparr>"])
  also have "\<dots> = ?to (a\<lparr>arr_conn := k\<rparr>) (b\<lparr>arr_conn := k\<rparr>)" by simp
  finally show ?thesis using fr by (simp add: tx_frame_def)
qed

lemma tx_frameD:
  assumes "tx_frame s s'"
  shows "arr_conn s' = arr_conn s" "routes s' = routes s" "sockets s' = sockets s" "ports s' = ports s"
    "rdp_tx_queue s' = rdp_tx_queue s" "rdp_rx_queue s' = rdp_rx_queue s" "dedups s' = dedups s" "hmac_key s' = hmac_key s"
    "csp_promisc_enabled s' = csp_promisc_enabled s" "csp_conn_last_given s' = csp_conn_last_given s"
    "csp_conf (core s') = csp_conf (core s)" "csp_ms (core s') = csp_ms (core s)" "if_static (iflist s) (iflist s')"
    "ver s' = ver s"
proof -
  let ?t = "s\<lparr>core := core s', iflist := iflist s', qfifo_queue := qfifo_queue s',
      csp_promisc_queue := csp_promisc_queue s', drv := drv s'\<rparr>"
  have eq: "s' = ?t" using assms by (simp add: tx_frame_def)
  show "arr_conn s' = arr_conn s" using arg_cong [OF eq, of arr_conn] by simp
  show "routes s' = routes s" using arg_cong [OF eq, of routes] by simp
  show "sockets s' = sockets s" using arg_cong [OF eq, of sockets] by simp
  show "ports s' = ports s" using arg_cong [OF eq, of ports] by simp
  show "rdp_tx_queue s' = rdp_tx_queue s" using arg_cong [OF eq, of rdp_tx_queue] by simp
  show "rdp_rx_queue s' = rdp_rx_queue s" using arg_cong [OF eq, of rdp_rx_queue] by simp
  show "dedups s' = dedups s" using arg_cong [OF eq, of dedups] by simp
  show "hmac_key s' = hmac_key s" using arg_cong [OF eq, of hmac_key] by simp
  show "csp_promisc_enabled s' = csp_promisc_enabled s" using arg_cong [OF eq, of csp_promisc_enabled] by simp
  show "csp_conn_last_given s' = csp_conn_last_given s" using arg_cong [OF eq, of csp_conn_last_given] by simp
  show "csp_conf (core s') = csp_conf (core s)" "csp_ms (core s') = csp_ms (core s)" "if_static (iflist s) (iflist s')"
    using assms by (simp_all add: tx_frame_def)
  then show "ver s' = ver s" by (simp add: csp_version_def)
qed

lemma ptr_frame_refl [simp]: "ptr_frame ptr s s"
  by (simp add: ptr_frame_def)

lemma ptr_frame_trans:
  assumes "ptr_frame ptr a b" "ptr_frame ptr b c"
  shows "ptr_frame ptr a c"
proof -
  have "tx_frame (a\<lparr>arr_conn := arr_conn c\<rparr>) (b\<lparr>arr_conn := arr_conn c\<rparr>)"
    using tx_frame_arr_conn [of "a\<lparr>arr_conn := arr_conn b\<rparr>" b "arr_conn c"] assms(1) by (simp add: ptr_frame_def)
  then have "tx_frame (a\<lparr>arr_conn := arr_conn c\<rparr>) c"
    using assms(2) tx_frame_trans by (auto simp: ptr_frame_def)
  moreover have "arr_conn c j = (if ptr = Id_conn j then (arr_conn a j)\<lparr>idout := idout (arr_conn c j)\<rparr> else arr_conn a j)" for j
  proof -
    have b: "arr_conn b j = (if ptr = Id_conn j then (arr_conn a j)\<lparr>idout := idout (arr_conn b j)\<rparr> else arr_conn a j)"
      and c: "arr_conn c j = (if ptr = Id_conn j then (arr_conn b j)\<lparr>idout := idout (arr_conn c j)\<rparr> else arr_conn b j)"
      using assms unfolding ptr_frame_def by blast+
    show ?thesis
    proof (cases "ptr = Id_conn j")
      case True
      have "(arr_conn b j)\<lparr>idout := x\<rparr> = (arr_conn a j)\<lparr>idout := x\<rparr>" for x
        using b True by (metis (no_types, lifting) csp_conn.update_convs(4) csp_conn.surjective)
      with c True show ?thesis by simp
    qed (use b c in simp)
  qed
  ultimately show ?thesis by (simp add: ptr_frame_def)
qed

lemma tx_ptr_frame: "tx_frame s s' \<Longrightarrow> ptr_frame ptr s s'"
  using tx_frameD(1) [of s s'] by (auto simp: ptr_frame_def)

lemma set_idout_frames [simp]:
  "own dh f (set_idout ptr ido s) = own dh f s" "ptr_frame ptr s (set_idout ptr ido s)"
  "pkts_kept (ptr_pkts ptr) s (set_idout ptr ido s)"
proof -
  show "own dh f (set_idout ptr ido s) = own dh f s" by (cases ptr) (simp_all add: set_idout_def)
  show "pkts_kept (ptr_pkts ptr) s (set_idout ptr ido s)" by (cases ptr) (simp_all add: set_idout_def)
  show "ptr_frame ptr s (set_idout ptr ido s)"
  proof (cases ptr)
    case (Id_packet q)
    then show ?thesis unfolding set_idout_def by (simp add: tx_ptr_frame)
  next
    case (Id_conn c)
    then show ?thesis by (simp add: set_idout_def ptr_frame_def upd_conn_def)
  qed (simp add: set_idout_def)
qed

section \<open>The contract of a transmit function\<close>

text \<open>
  A transmit function that returns \<^verbatim>\<open>CSP_ERR_NONE\<close> has taken over the packet, otherwise the packet
  still belongs to the caller. It leaves packets it does not own, the configuration and
  everything above the interface layer alone.
\<close>

locale nexthop_contract =
  fixes nh :: "'d nexthop_fn" and dh :: "'d \<Rightarrow> addr \<Rightarrow> nat"
  assumes nh_own: "own dh (tok p f) s \<Longrightarrow> nh n i via p fm s = (r, s') \<Longrightarrow> own dh (if r = 0 then f else tok p f) s'"
    and nh_frame: "own dh (tok p f) s \<Longrightarrow> nh n i via p fm s = (r, s') \<Longrightarrow> tx_frame s s'"
    and nh_kept: "own dh (tok p f) s \<Longrightarrow> nh n i via p fm s = (r, s') \<Longrightarrow> pkts_kept {p} s s'"
begin

lemma send_from_me_contract:
  assumes own: "own dh (tok p f) s" and run: "send_from_me ido p i s = (ok, s')"
  shows "own dh (tok p f) s' \<and> tx_frame s s' \<and> pkts_kept {p} s s'"
proof -
  obtain r1 s1 where h: "(if id_flags ido AND CSP_FHMAC \<noteq> 0 then in_core (csp_hmac_append (hmac_key s) p False) s
      else (CSP_ERR_NONE, s)) = (r1, s1)" by fastforce
  have one: "own dh (tok p f) s1" "tx_frame s s1" "pkts_kept {p} s s1"
    using h own hmac_append_frames [of "hmac_key s" p s r1 s1] by (auto split: if_splits)
  obtain r2 s2 where c: "(if id_flags ido AND CSP_FCRC32 \<noteq> 0 then in_core (csp_crc32_append p) s1
      else (CSP_ERR_NONE, s1)) = (r2, s2)" by fastforce
  have two: "own dh (tok p f) s2" "tx_frame s1 s2" "pkts_kept {p} s1 s2"
    using c one crc32_append_frames [of p s1 r2 s2] by (auto split: if_splits)
  note two' = two(1) tx_frame_trans [OF one(2) two(2)] pkts_kept_trans [OF one(3) two(3)]
  let ?s3 = "csp_promisc_add p s2"
  have three: "own dh (tok p f) ?s3" "tx_frame s ?s3" "pkts_kept {p} s ?s3"
    using two' promisc_add_frames [OF two(1), of p]
    by (auto intro: own_promisc_add tx_frame_trans pkts_kept_trans pkts_kept_mono)
  from run h c one two' three show ?thesis
    unfolding send_from_me_def by (auto split: if_splits)
qed

lemma send_tx_err_contract:
  assumes "own dh (tok p f) s"
  shows "own dh f (send_tx_err p i s) \<and> tx_frame s (send_tx_err p i s) \<and> pkts_kept {p} s (send_tx_err p i s)"
  using pkts_kept_free [OF assms] own_free [OF assms] tx_frame_trans [OF tx_frame_free tx_frame_counters(1)]
  by (auto simp: send_tx_err_def)

lemma send_iface_contract:
  assumes own: "own dh (tok p f) s"
  shows "own dh f (csp_send_direct_iface nh ido p i via fm s) \<and> tx_frame s (csp_send_direct_iface nh ido p i via fm s)
    \<and> pkts_kept {p} s (csp_send_direct_iface nh ido p i via fm s)"
proof -
  define s0 where "s0 = upd_pkt p (\<lambda>k. k\<lparr>pkt_id := csp_id_copy (pkt_id k) ido\<rparr>) s"
  have zero: "own dh (tok p f) s0" "tx_frame s s0" "pkts_kept {p} s s0"
    using own by (simp_all add: s0_def)
  obtain ok s1 where me: "(if fm then send_from_me ido p i s0 else (True, s0)) = (ok, s1)" by fastforce
  have one: "own dh (tok p f) s1" "tx_frame s s1" "pkts_kept {p} s s1"
    using me zero send_from_me_contract [OF zero(1), of ido i ok s1]
    by (auto split: if_splits intro: tx_frame_trans [OF zero(2)] pkts_kept_trans [OF zero(3)])
  have err: "own dh f (send_tx_err p i t) \<and> tx_frame s (send_tx_err p i t) \<and> pkts_kept {p} s (send_tx_err p i t)"
    if "own dh (tok p f) t" "tx_frame s t" "pkts_kept {p} s t" for t
    using send_tx_err_contract [OF that(1), of i] that by (blast intro: tx_frame_trans pkts_kept_trans)
  obtain r s2 where tx: "nh (if_nexthop (ifaces (iflist s1) i)) i via p fm s1 = (r, s2)" by fastforce
  note c = nh_own [OF one(1) tx] tx_frame_trans [OF one(2) nh_frame [OF one(1) tx]]
    pkts_kept_trans [OF one(3) nh_kept [OF one(1) tx]]
  have fin: "own dh f s3 \<and> tx_frame s s3 \<and> pkts_kept {p} s s3"
    if "r = 0" "s3 = upd_iface i (\<lambda>k. k\<lparr>if_tx := a1 k, if_txbytes := a2 k\<rparr>) s2" for s3 a1 a2
    using c that tx_frame_trans [OF c(2) tx_frame_counters(3)] by simp
  show ?thesis
    using me tx err [OF one] err [of s2] c fin
    by (cases ok; cases "r = 0") (simp_all add: csp_send_direct_iface_def Let_def s0_def [symmetric] del: csp_id_copy_eq)
qed

lemma send_copy_contract:
  assumes own: "own dh f s"
  shows "own dh f (send_copy nh ido p i via fm s) \<and> tx_frame s (send_copy nh ido p i via fm s)
    \<and> pkts_kept {} s (send_copy nh ido p i via fm s)"
proof -
  obtain copy s1 where cl: "in_core (csp_buffer_clone (Some p)) s = (copy, s1)" by fastforce
  note fr = clone_frames [OF own cl]
  show ?thesis
  proof (cases copy)
    case None
    with cl fr show ?thesis by (simp add: send_copy_def)
  next
    case (Some c)
    have own1: "own dh (tok c f) s1" using fr(1) Some by simp
    from send_iface_contract [OF own1, of ido i via fm] fr Some cl show ?thesis
      by (auto simp: send_copy_def intro: tx_frame_trans pkts_kept_fresh)
  qed
qed

lemma send_subnets_contract:
  "own dh f s \<Longrightarrow> send_subnets n nh ido loc p rf iface s = (found, s') \<Longrightarrow>
     own dh f s' \<and> tx_frame s s' \<and> pkts_kept {} s s'"
proof (induction n arbitrary: loc iface s s' found)
  case (Suc n)
  show ?case
  proof (cases "csp_iflist_get_by_subnet (ver s) (id_dst ido) iface (iflist s)")
    case None
    with Suc.prems show ?thesis by simp
  next
    case (Some i)
    obtain loc' s1 where rest: "s' = snd (send_subnets n nh ido loc' p rf (Some i) s1)"
      and s1: "s1 = s \<or> (\<exists>fm. s1 = send_copy nh loc' p i CSP_NO_VIA_ADDRESS fm s)"
      using Suc.prems(2) Some by (auto simp: Let_def split: if_splits)
    have one: "own dh f s1" "tx_frame s s1" "pkts_kept {} s s1"
      using s1 Suc.prems(1) send_copy_contract [OF Suc.prems(1)] by auto
    from Suc.IH [OF one(1), of loc' "Some i" "fst (send_subnets n nh ido loc' p rf (Some i) s1)" s'] rest
    have "own dh f s'" "tx_frame s1 s'" "pkts_kept {} s1 s'" by (auto simp: prod_eq_iff)
    with one show ?thesis by (blast intro: tx_frame_trans pkts_kept_trans)
  qed
qed simp

lemma send_assign_contract:
  assumes "own dh f s" and s1: "s1 = send_copy nh ido' p i via fm (if a then set_idout ptr ido s else s)"
  shows "own dh f s1 \<and> ptr_frame ptr s s1 \<and> pkts_kept (ptr_pkts ptr) s s1"
proof -
  let ?s0 = "if a then set_idout ptr ido s else s"
  have zero: "own dh f ?s0" "ptr_frame ptr s ?s0" "pkts_kept (ptr_pkts ptr) s ?s0"
    using assms(1) by (simp_all add: set_idout_frames)
  from send_copy_contract [OF zero(1), of ido' p i via fm] zero(2,3) show ?thesis
    unfolding s1 by (blast intro: ptr_frame_trans tx_ptr_frame pkts_kept_trans pkts_kept_mono)
qed

lemma send_routes_contract:
  "own dh f s \<Longrightarrow> own dh f (send_routes n nh ptr ido p rf route s) \<and> ptr_frame ptr s (send_routes n nh ptr ido p rf route s)
     \<and> pkts_kept (ptr_pkts ptr) s (send_routes n nh ptr ido p rf route s)"
proof (induction n arbitrary: ido route s)
  case (Suc n)
  show ?case
  proof (cases "route = None \<or> rt_iface (rtable (routes s) (the route)) = None")
    case True
    with Suc.prems show ?thesis by (auto split: option.splits)
  next
    case False
    then obtain ido' nxt s1 where rest: "send_routes (Suc n) nh ptr ido p rf route s = send_routes n nh ptr ido' p rf nxt s1"
      and s1: "s1 = s \<or> (\<exists>ido' i via fm a. s1 = send_copy nh ido' p i via fm (if a then set_idout ptr ido' s else s))"
    proof -
      from False obtain r i where r: "route = Some r" "rt_iface (rtable (routes s) r) = Some i" by auto
      let ?a = "rf = None \<and> id_src ido = 0"
      let ?ido = "if ?a then ido\<lparr>id_src := if_addr (ifaces (iflist s) i)\<rparr> else ido"
      let ?s0 = "if ?a then set_idout ptr ?ido s else s"
      let ?nxt = "csp_rtable_search_backward (Some r) (routes s)"
      show thesis
      proof (cases "split_horizon s rf i")
        case True
        with r show thesis by (intro that [of ido ?nxt s]) simp_all
      next
        case False
        with r show thesis
          by (intro that [of ?ido ?nxt "send_copy nh ?ido p i (rt_via (rtable (routes ?s0) r)) (rf = None) ?s0"])
            (simp add: Let_def, blast)
      qed
    qed
    have one: "own dh f s1" "ptr_frame ptr s s1" "pkts_kept (ptr_pkts ptr) s s1"
      using s1 Suc.prems send_assign_contract [OF Suc.prems] by auto
    from Suc.IH [OF one(1), of ido' nxt] one(2,3) show ?thesis
      unfolding rest by (blast intro: ptr_frame_trans pkts_kept_trans)
  qed
qed simp

lemma send_defaults_contract:
  "own dh f s \<Longrightarrow> own dh f (send_defaults n nh ptr ido p rf iface s) \<and> ptr_frame ptr s (send_defaults n nh ptr ido p rf iface s)
     \<and> pkts_kept (ptr_pkts ptr) s (send_defaults n nh ptr ido p rf iface s)"
proof (induction n arbitrary: ido iface s)
  case (Suc n)
  show ?case
  proof (cases "csp_iflist_get_by_isdfl iface (iflist s)")
    case None
    with Suc.prems show ?thesis by simp
  next
    case (Some i)
    then obtain ido' s1 where rest: "send_defaults (Suc n) nh ptr ido p rf iface s = send_defaults n nh ptr ido' p rf (Some i) s1"
      and s1: "s1 = s \<or> (\<exists>ido' i via fm a. s1 = send_copy nh ido' p i via fm (if a then set_idout ptr ido' s else s))"
    proof -
      let ?a = "rf = None \<and> id_src ido = 0"
      let ?ido = "if ?a then ido\<lparr>id_src := if_addr (ifaces (iflist s) i)\<rparr> else ido"
      let ?s0 = "if ?a then set_idout ptr ?ido s else s"
      show thesis
      proof (cases "split_horizon s rf i")
        case True
        with Some show thesis by (intro that [of ido s]) simp_all
      next
        case False
        with Some show thesis
          by (intro that [of ?ido "send_copy nh ?ido p i CSP_NO_VIA_ADDRESS (rf = None) ?s0"])
            (simp add: Let_def, blast)
      qed
    qed
    have one: "own dh f s1" "ptr_frame ptr s s1" "pkts_kept (ptr_pkts ptr) s s1"
      using s1 Suc.prems send_assign_contract [OF Suc.prems] by auto
    from Suc.IH [OF one(1), of ido' "Some i"] one(2,3) show ?thesis
      unfolding rest by (blast intro: ptr_frame_trans pkts_kept_trans)
  qed
qed simp

lemma send_direct_contract:
  assumes own: "own dh (tok p f) s"
  shows "own dh f (csp_send_direct nh ptr ido p rf s) \<and> ptr_frame ptr s (csp_send_direct nh ptr ido p rf s)
    \<and> pkts_kept (insert p (ptr_pkts ptr)) s (csp_send_direct nh ptr ido p rf s)"
proof -
  have fin: "own dh f (free_pkt p t) \<and> ptr_frame ptr s (free_pkt p t) \<and> pkts_kept (insert p (ptr_pkts ptr)) s (free_pkt p t)"
    if "own dh (tok p f) t" "ptr_frame ptr s t" "pkts_kept (ptr_pkts ptr) s t" for t
    using own_free [OF that(1)] pkts_kept_free [OF that(1)] that(2,3)
    by (blast intro: ptr_frame_trans tx_ptr_frame tx_frame_free pkts_kept_trans pkts_kept_mono)
  obtain found s1 where sub: "send_subnets (Suc IF_MAX) nh ido ido p rf None s = (found, s1)" by fastforce
  have one: "own dh (tok p f) s1" "ptr_frame ptr s s1" "pkts_kept (ptr_pkts ptr) s s1"
    using send_subnets_contract [OF own sub] by (auto intro: tx_ptr_frame pkts_kept_mono)
  have rts: "own dh (tok p f) t \<and> ptr_frame ptr s t \<and> pkts_kept (ptr_pkts ptr) s t"
    if "t = send_routes n nh ptr ido p rf route s1 \<or> t = send_defaults n nh ptr ido p rf iface s1" for t n route iface
    using that send_routes_contract [OF one(1), of n ptr ido p rf route] send_defaults_contract [OF one(1), of n ptr ido p rf iface]
      one(2,3) by (blast intro: ptr_frame_trans pkts_kept_trans)
  have lo: "own dh f t \<and> ptr_frame ptr s t \<and> pkts_kept (insert p (ptr_pkts ptr)) s t"
    if "t = csp_send_direct_iface nh ido p i via fm s" for t i via fm
    using send_iface_contract [OF own, of ido i via fm] unfolding that
    by (blast intro: tx_ptr_frame pkts_kept_mono)
  show ?thesis
  proof (cases "id_dst ido = if_addr (ifaces (iflist s) csp_if_lo)")
    case True
    then have "csp_send_direct nh ptr ido p rf s = csp_send_direct_iface nh ido p csp_if_lo CSP_NO_VIA_ADDRESS (rf = None) s"
      by (simp add: csp_send_direct_def)
    then show ?thesis by (rule lo)
  next
    case False
    have fr: "own dh f (free_pkt p t) \<and> ptr_frame ptr s (free_pkt p t) \<and> pkts_kept (insert p (ptr_pkts ptr)) s (free_pkt p t)"
      if "t = s1 \<or> (\<exists>n route. t = send_routes n nh ptr ido p rf route s1) \<or> (\<exists>n iface. t = send_defaults n nh ptr ido p rf iface s1)" for t
      using that one rts by (intro fin) blast+
    define t where "t = (if found then s1 else case csp_rtable_find_route (ver s1) (id_dst ido) (routes s1) of
        Some r \<Rightarrow> send_routes (Suc r) nh ptr ido p rf (Some r) s1
      | None \<Rightarrow> send_defaults (Suc IF_MAX) nh ptr ido p rf None s1)"
    have "csp_send_direct nh ptr ido p rf s = free_pkt p t"
      unfolding csp_send_direct_def t_def using False sub
      by (simp del: send_routes.simps send_defaults.simps send_subnets.simps split: option.split)
    moreover have "t = s1 \<or> (\<exists>n route. t = send_routes n nh ptr ido p rf route s1) \<or> (\<exists>n iface. t = send_defaults n nh ptr ido p rf iface s1)"
      unfolding t_def by (cases "csp_rtable_find_route (ver s1) (id_dst ido) (routes s1)"; cases found; simp del: send_routes.simps send_defaults.simps; blast)
    ultimately show ?thesis using fr by simp
  qed
qed

end

end
