(* ===== verification/CSP_Send_Plan.thy ===== *)
theory CSP_Send_Plan
  imports CSP_Send
begin

text \<open>
  The routing decision of \<^verbatim>\<open>csp_send_direct\<close> as a specification: the list of interfaces a packet
  leaves on, with the gateway and the identifier of each copy, computed from the interface
  list and the routing table alone; and the proof that the loops of the code send exactly
  these copies, in this order.
\<close>

section \<open>The plan\<close>

text \<open>A copy to send: interface, gateway, whether the source address is assigned through the
  caller's pointer, identifier.\<close>

type_synonym send_item = "addr \<times> u16 \<times> bool \<times> csp_id"

definition on_subnet :: "u8 \<Rightarrow> csp_iflist \<Rightarrow> u16 \<Rightarrow> addr \<Rightarrow> bool" where
  "on_subnet v l a i \<longleftrightarrow> if_netmask (ifaces l i) \<noteq> 0 \<and> csp_iflist_is_within_subnet v a (Some (ifaces l i))"

definition horizon :: "u8 \<Rightarrow> csp_iflist \<Rightarrow> addr option \<Rightarrow> addr \<Rightarrow> bool" where
  "horizon v l rf i \<longleftrightarrow> Some i = rf
     \<or> csp_iflist_is_within_subnet v (if_addr (ifaces l i)) (map_option (ifaces l) rf)"

fun subnet_plan :: "u8 \<Rightarrow> csp_iflist \<Rightarrow> addr option \<Rightarrow> csp_id \<Rightarrow> csp_id \<Rightarrow> addr list \<Rightarrow> send_item list" where
  "subnet_plan v l rf ido loc [] = []"
| "subnet_plan v l rf ido loc (i # is) =
     (if horizon v l rf i then subnet_plan v l rf ido loc is
      else let loc = (if rf = None \<and> id_src ido = 0 then loc\<lparr>id_src := if_addr (ifaces l i)\<rparr> else loc);
               loc = (if csp_id_is_broadcast v (id_dst ido) (ifaces l i)
                      then loc\<lparr>id_dst := of_nat (csp_id_get_max_nodeid v)\<rparr> else loc)
           in (i, CSP_NO_VIA_ADDRESS, False, loc) # subnet_plan v l rf ido loc is)"

fun assign_plan :: "u8 \<Rightarrow> csp_iflist \<Rightarrow> addr option \<Rightarrow> csp_id \<Rightarrow> (addr \<times> u16) list \<Rightarrow> send_item list" where
  "assign_plan v l rf ido [] = []"
| "assign_plan v l rf ido ((i, via) # is) =
     (if horizon v l rf i then assign_plan v l rf ido is
      else let a = (rf = None \<and> id_src ido = 0);
               ido = (if a then ido\<lparr>id_src := if_addr (ifaces l i)\<rparr> else ido)
           in (i, via, a, ido) # assign_plan v l rf ido is)"

text \<open>The routes of one prefix, from entry \<open>r\<close> backwards.\<close>

definition same_prefix :: "csp_rtable \<Rightarrow> nat \<Rightarrow> nat \<Rightarrow> bool" where
  "same_prefix t r i \<longleftrightarrow> rt_netmask (rtable t i) = rt_netmask (rtable t r) \<and> rt_address (rtable t i) = rt_address (rtable t r)"

definition route_list :: "csp_rtable \<Rightarrow> nat \<Rightarrow> nat list" where
  "route_list t r = r # filter (same_prefix t r) (rev [0..<r])"

definition send_plan :: "u8 \<Rightarrow> csp_iflist \<Rightarrow> csp_rtable \<Rightarrow> addr list \<Rightarrow> csp_id \<Rightarrow> addr option \<Rightarrow> send_item list" where
  "send_plan v l t xs ido rf =
     (let subs = filter (on_subnet v l (id_dst ido)) xs
      in if subs \<noteq> [] then subnet_plan v l rf ido ido subs
         else case csp_rtable_find_route v (id_dst ido) t of
                Some r \<Rightarrow> assign_plan v l rf ido
                  (map (\<lambda>k. (the (rt_iface (rtable t k)), rt_via (rtable t k))) (route_list t r))
              | None \<Rightarrow> assign_plan v l rf ido
                  (map (\<lambda>i. (i, CSP_NO_VIA_ADDRESS)) (filter (\<lambda>i. is_default (ifaces l i) = 1) xs)))"

definition send_item_copy :: "'d nexthop_fn \<Rightarrow> id_ptr \<Rightarrow> addr \<Rightarrow> bool \<Rightarrow> send_item \<Rightarrow> 'd csp_state \<Rightarrow> 'd csp_state" where
  "send_item_copy nh ptr p fm = (\<lambda>(i, via, a, ido) s. send_copy nh ido p i via fm (if a then set_idout ptr ido s else s))"

section \<open>Stability of the decision\<close>

text \<open>The parts of an interface list the decision depends on.\<close>

lemma horizon_static: "if_static l l' \<Longrightarrow> horizon v l' rf i = horizon v l rf i"
  by (cases rf) (simp_all add: horizon_def csp_iflist_is_within_subnet_def if_static_def Let_def)

lemma on_subnet_static: "if_static l l' \<Longrightarrow> on_subnet v l' a i = on_subnet v l a i"
  by (simp add: on_subnet_def csp_iflist_is_within_subnet_def if_static_def Let_def)

lemma is_broadcast_static:
  "if_static l l' \<Longrightarrow> csp_id_is_broadcast v a (ifaces l' i) = csp_id_is_broadcast v a (ifaces l i)"
  by (simp add: csp_id_is_broadcast_def if_static_def Let_def)

lemma iflist_is_static: "if_static l l' \<Longrightarrow> iflist_is l xs \<Longrightarrow> iflist_is l' xs"
  using chain_cong [of xs "ifaces l'" "ifaces l"] by (auto simp: iflist_is_def if_static_def)

lemma subnet_plan_static: "if_static l l' \<Longrightarrow> subnet_plan v l' rf ido loc is = subnet_plan v l rf ido loc is"
proof (induction "is" arbitrary: loc)
  case (Cons i "is")
  then show ?case by (simp add: horizon_static is_broadcast_static Let_def) (simp add: if_static_def)
qed simp

lemma assign_plan_static: "if_static l l' \<Longrightarrow> assign_plan v l' rf ido is = assign_plan v l rf ido is"
proof (induction "is" arbitrary: ido)
  case (Cons x "is")
  then show ?case by (cases x) (simp add: horizon_static Let_def, simp add: if_static_def)
qed simp

lemma split_horizon_eq: "split_horizon s rf i = horizon (ver s) (iflist s) rf i"
  by (simp add: split_horizon_def horizon_def)

lemma get_by_subnet_after:
  assumes "iflist_is l (before @ after)" "if before = [] then iface = None else iface = Some (last before)"
  shows "csp_iflist_get_by_subnet v a iface l = find (on_subnet v l a) after"
    and "csp_iflist_get_by_isdfl iface l = find (\<lambda>i. is_default (ifaces l i) = 1) after"
proof -
  have "chain (ifaces l) (if_start iface l) after"
    using iflist_tail [of l _ "last before" after] assms
    by (cases before rule: rev_cases) (auto simp: if_start_def iflist_is_def)
  then show "csp_iflist_get_by_subnet v a iface l = find (on_subnet v l a) after"
    "csp_iflist_get_by_isdfl iface l = find (\<lambda>i. is_default (ifaces l i) = 1) after"
    unfolding csp_iflist_get_by_subnet_def csp_iflist_get_by_isdfl_def on_subnet_def
    using if_find_iflist [OF assms(1)] by simp_all
qed

text \<open>The next hit of a search splits the rest of the list.\<close>

lemma find_split:
  assumes "find P xs = Some x"
  obtains ys zs where "xs = ys @ x # zs" "filter P ys = []" "P x"
proof -
  obtain i where i: "i < length xs" "P (xs ! i)" "x = xs ! i" "\<And>j. j < i \<Longrightarrow> \<not> P (xs ! j)"
    using assms by (auto simp: find_Some_iff)
  have "filter P (take i xs) = []"
    using i(4) by (auto simp: filter_empty_conv in_set_conv_nth)
  then show thesis using that [of "take i xs" "drop (Suc i) xs"] i id_take_nth_drop [of i xs] by simp
qed

lemma find_None_filter: "find P xs = None \<longleftrightarrow> filter P xs = []"
  by (auto simp: find_None_iff filter_empty_conv)

lemma ptr_frameD:
  assumes "ptr_frame ptr s s'"
  shows "if_static (iflist s) (iflist s')" "ver s' = ver s" "routes s' = routes s"
  using tx_frameD(2,13,14) [of "s\<lparr>arr_conn := arr_conn s'\<rparr>" s'] assms by (simp_all add: ptr_frame_def)

lemma rev_upt_tail: "rev [0..<r] = ys @ k # zs \<Longrightarrow> zs = rev [0..<k]"
proof (induction r arbitrary: ys)
  case (Suc r)
  then show ?case by (cases ys) auto
qed simp

text \<open>Backwards from an entry: the next of its prefix, then the next of that one.\<close>

lemma route_list_step:
  "route_list t r = r # (case csp_rtable_search_backward (Some r) t of None \<Rightarrow> [] | Some k \<Rightarrow> route_list t k)"
proof -
  have find: "csp_rtable_search_backward (Some r) t = find (same_prefix t r) (rev [0..<r])"
    by (simp add: csp_rtable_search_backward_def same_prefix_def [abs_def])
  show ?thesis
  proof (cases "find (same_prefix t r) (rev [0..<r])")
    case None
    then have "filter (same_prefix t r) (rev [0..<r]) = []" by (simp add: find_None_filter)
    then show ?thesis by (simp add: route_list_def find None)
  next
    case (Some k)
    then obtain ys zs where split: "rev [0..<r] = ys @ k # zs" "filter (same_prefix t r) ys = []" "same_prefix t r k"
      by (rule find_split)
    from split(1) have "zs = rev [0..<k]" by (rule rev_upt_tail)
    moreover have "same_prefix t r = same_prefix t k" using split(3) by (simp add: same_prefix_def fun_eq_iff)
    ultimately show ?thesis using find Some split by (simp add: route_list_def)
  qed
qed

section \<open>The loops follow the plan\<close>

text \<open>The identifier of the copy for interface \<open>i\<close> in the two later loops.\<close>

definition assigned :: "addr option \<Rightarrow> csp_id \<Rightarrow> addr \<Rightarrow> 'd csp_state \<Rightarrow> csp_id" where
  "assigned rf ido i s = (if rf = None \<and> id_src ido = 0 then ido\<lparr>id_src := if_addr (ifaces (iflist s) i)\<rparr> else ido)"

context nexthop_contract
begin

lemma send_subnets_plan:
  assumes "own dh f s" "iflist_is (iflist s) (before @ after)" "length after < n"
    "if before = [] then iface = None else iface = Some (last before)"
  shows "send_subnets n nh ido loc p rf iface s
    = (filter (on_subnet (ver s) (iflist s) (id_dst ido)) after \<noteq> [],
       fold (send_item_copy nh ptr p (rf = None))
         (subnet_plan (ver s) (iflist s) rf ido loc (filter (on_subnet (ver s) (iflist s) (id_dst ido)) after)) s)"
  using assms
proof (induction n arbitrary: before after iface loc s)
  case (Suc n)
  let ?P = "on_subnet (ver s) (iflist s) (id_dst ido)"
  note next_hit = get_by_subnet_after(1) [OF Suc.prems(2,4)]
  show ?case
  proof (cases "find ?P after")
    case None
    then have "filter ?P after = []" by (simp add: find_None_filter)
    then show ?thesis by (simp add: next_hit None)
  next
    case (Some i)
    then obtain ys zs where split: "after = ys @ i # zs" "filter ?P ys = []" "?P i" by (rule find_split)
    have hit: "csp_iflist_get_by_subnet (ver s) (id_dst ido) iface (iflist s) = Some i" using next_hit Some by simp
    let ?loc1 = "if rf = None \<and> id_src ido = 0 then loc\<lparr>id_src := if_addr (ifaces (iflist s) i)\<rparr> else loc"
    let ?loc2 = "if csp_id_is_broadcast (ver s) (id_dst ido) (ifaces (iflist s) i)
        then ?loc1\<lparr>id_dst := of_nat (csp_id_get_max_nodeid (ver s))\<rparr> else ?loc1"
    define s1 where "s1 = (if split_horizon s rf i then s else send_copy nh ?loc2 p i CSP_NO_VIA_ADDRESS (rf = None) s)"
    define loc1 where "loc1 = (if split_horizon s rf i then loc else ?loc2)"
    have one: "own dh f s1" "tx_frame s s1"
      using send_copy_contract [OF Suc.prems(1)] Suc.prems(1) by (simp_all add: s1_def)
    note st = tx_frameD(13,14) [OF one(2)]
    have "iflist_is (iflist s1) ((before @ ys @ [i]) @ zs)"
      using iflist_is_static [OF st(1) Suc.prems(2)] split(1) by simp
    from Suc.IH [OF one(1) this, of "Some i" loc1] Suc.prems(3) split(1)
    have ih: "send_subnets n nh ido loc1 p rf (Some i) s1 = (filter ?P zs \<noteq> [],
        fold (send_item_copy nh ptr p (rf = None)) (subnet_plan (ver s) (iflist s) rf ido loc1 (filter ?P zs)) s1)"
      by (simp add: st(2) subnet_plan_static [OF st(1)] on_subnet_static [OF st(1), abs_def])
    have "filter ?P after = i # filter ?P zs" using split by simp
    with ih hit show ?thesis
      by (cases "split_horizon s rf i")
        (simp_all add: s1_def loc1_def Let_def split_horizon_eq [symmetric] send_item_copy_def)
  qed
qed simp

lemma item_frames:
  assumes "own dh f s"
  shows "own dh f (send_item_copy nh ptr p fm x s)" "ptr_frame ptr s (send_item_copy nh ptr p fm x s)"
  using send_assign_contract [OF assms] by (cases x; simp add: send_item_copy_def)+

lemma send_defaults_plan:
  assumes "own dh f s" "iflist_is (iflist s) (before @ after)" "length after < n"
    "if before = [] then iface = None else iface = Some (last before)"
  shows "send_defaults n nh ptr ido p rf iface s
    = fold (send_item_copy nh ptr p (rf = None)) (assign_plan (ver s) (iflist s) rf ido
        (map (\<lambda>i. (i, CSP_NO_VIA_ADDRESS)) (filter (\<lambda>i. is_default (ifaces (iflist s) i) = 1) after))) s"
  using assms
proof (induction n arbitrary: before after iface ido s)
  case (Suc n)
  let ?P = "\<lambda>i. is_default (ifaces (iflist s) i) = 1"
  note next_hit = get_by_subnet_after(2) [OF Suc.prems(2,4)]
  show ?case
  proof (cases "find ?P after")
    case None
    then have "filter ?P after = []" by (simp add: find_None_filter)
    then show ?thesis by (simp add: next_hit None)
  next
    case (Some i)
    then obtain ys zs where split: "after = ys @ i # zs" "filter ?P ys = []" "?P i" by (rule find_split)
    define item where "item = (i, CSP_NO_VIA_ADDRESS, rf = None \<and> id_src ido = 0, assigned rf ido i s)"
    define s1 where "s1 = (if split_horizon s rf i then s else send_item_copy nh ptr p (rf = None) item s)"
    define ido1 where "ido1 = (if split_horizon s rf i then ido else assigned rf ido i s)"
    have one: "own dh f s1" "ptr_frame ptr s s1"
      using item_frames [OF Suc.prems(1)] Suc.prems(1) by (simp_all add: s1_def)
    note st = ptr_frameD [OF one(2)]
    have "iflist_is (iflist s1) ((before @ ys @ [i]) @ zs)"
      using iflist_is_static [OF st(1) Suc.prems(2)] split(1) by simp
    moreover have "is_default (ifaces (iflist s1) j) = is_default (ifaces (iflist s) j)" for j
      using st(1) by (simp add: if_static_def)
    ultimately have ih: "send_defaults n nh ptr ido1 p rf (Some i) s1 = fold (send_item_copy nh ptr p (rf = None))
        (assign_plan (ver s) (iflist s) rf ido1 (map (\<lambda>i. (i, CSP_NO_VIA_ADDRESS)) (filter ?P zs))) s1"
      using Suc.IH [OF one(1), of "before @ ys @ [i]" zs "Some i" ido1] Suc.prems(3) split(1)
      by (simp add: st(2) assign_plan_static [OF st(1)])
    have "filter ?P after = i # filter ?P zs" using split by simp
    with ih show ?thesis
      by (cases "split_horizon s rf i")
        (simp_all add: next_hit Some s1_def ido1_def item_def Let_def split_horizon_eq [symmetric] send_item_copy_def assigned_def)
  qed
qed simp

lemma send_routes_plan:
  assumes "own dh f s" "r < n" "\<And>k. k \<le> r \<Longrightarrow> rt_iface (rtable (routes s) k) \<noteq> None"
  shows "send_routes n nh ptr ido p rf (Some r) s
    = fold (send_item_copy nh ptr p (rf = None)) (assign_plan (ver s) (iflist s) rf ido
        (map (\<lambda>k. (the (rt_iface (rtable (routes s) k)), rt_via (rtable (routes s) k))) (route_list (routes s) r))) s"
  using assms
proof (induction n arbitrary: r ido s)
  case (Suc n)
  obtain i where i: "rt_iface (rtable (routes s) r) = Some i" using Suc.prems(3) [of r] by auto
  let ?nxt = "csp_rtable_search_backward (Some r) (routes s)"
  define item where "item = (i, rt_via (rtable (routes s) r), rf = None \<and> id_src ido = 0, assigned rf ido i s)"
  define s1 where "s1 = (if split_horizon s rf i then s else send_item_copy nh ptr p (rf = None) item s)"
  define ido1 where "ido1 = (if split_horizon s rf i then ido else assigned rf ido i s)"
  have one: "own dh f s1" "ptr_frame ptr s s1"
    using item_frames [OF Suc.prems(1)] Suc.prems(1) by (simp_all add: s1_def)
  note st = ptr_frameD [OF one(2)]
  have via: "routes (set_idout ptr x s) = routes s" for x
    by (cases ptr) (simp_all add: set_idout_def upd_pkt_def on_core_def upd_conn_def)
  have run: "send_routes (Suc n) nh ptr ido p rf (Some r) s = send_routes n nh ptr ido1 p rf ?nxt s1"
    using i by (cases "split_horizon s rf i")
      (simp_all add: s1_def ido1_def item_def Let_def send_item_copy_def assigned_def via)
  have rest: "send_routes n nh ptr ido1 p rf ?nxt s1 = fold (send_item_copy nh ptr p (rf = None))
      (assign_plan (ver s) (iflist s) rf ido1 (map (\<lambda>k. (the (rt_iface (rtable (routes s) k)), rt_via (rtable (routes s) k)))
        (case ?nxt of None \<Rightarrow> [] | Some k \<Rightarrow> route_list (routes s) k))) s1"
  proof (cases ?nxt)
    case None
    then show ?thesis by (cases n) simp_all
  next
    case (Some k)
    then have "k < r" by (auto simp: csp_rtable_search_backward_def find_Some_iff rev_nth split: if_splits)
    then show ?thesis
      using Suc.IH [OF one(1), of k ido1] Suc.prems(2,3) Some st by (simp add: assign_plan_static)
  qed
  show ?case
    unfolding run rest route_list_step [of _ r]
    using i by (cases "split_horizon s rf i")
      (simp_all add: s1_def ido1_def item_def Let_def split_horizon_eq [symmetric] assigned_def)
qed simp

lemma send_direct_plan:
  assumes own: "own dh (tok p f) s" and l: "iflist_is (iflist s) xs"
    and rt: "\<And>k. k < rtable_inptr (routes s) \<Longrightarrow> rt_iface (rtable (routes s) k) \<noteq> None"
    and remote: "id_dst ido \<noteq> if_addr (ifaces (iflist s) csp_if_lo)"
  shows "csp_send_direct nh ptr ido p rf s
    = free_pkt p (fold (send_item_copy nh ptr p (rf = None)) (send_plan (ver s) (iflist s) (routes s) xs ido rf) s)"
proof -
  have len: "length xs < Suc IF_MAX" using chain_length [OF l] by simp
  let ?subs = "filter (on_subnet (ver s) (iflist s) (id_dst ido)) xs"
  have sub: "send_subnets (Suc IF_MAX) nh ido ido p rf None s = (?subs \<noteq> [],
      fold (send_item_copy nh ptr p (rf = None)) (subnet_plan (ver s) (iflist s) rf ido ido ?subs) s)"
    using send_subnets_plan [OF own, of "[]" xs] l len by simp
  show ?thesis
  proof (cases "?subs = []")
    case False
    with sub remote show ?thesis by (simp add: csp_send_direct_def send_plan_def del: send_subnets.simps)
  next
    case none: True
    show ?thesis
    proof (cases "csp_rtable_find_route (ver s) (id_dst ido) (routes s)")
      case None
      with none sub remote send_defaults_plan [OF own, of "[]" xs] l len show ?thesis
        by (simp add: csp_send_direct_def send_plan_def del: send_subnets.simps send_defaults.simps)
    next
      case (Some r)
      then have "r < rtable_inptr (routes s)" using csp_rtable_find_route_cases(1) best_below_def by blast
      with rt have "send_routes (Suc r) nh ptr ido p rf (Some r) s = fold (send_item_copy nh ptr p (rf = None))
          (assign_plan (ver s) (iflist s) rf ido (map (\<lambda>k. (the (rt_iface (rtable (routes s) k)), rt_via (rtable (routes s) k)))
            (route_list (routes s) r))) s"
        by (intro send_routes_plan [OF own]) simp_all
      with Some none sub remote show ?thesis
        by (simp add: csp_send_direct_def send_plan_def del: send_subnets.simps send_routes.simps)
    qed
  qed
qed

end

section \<open>The loopback interface keeps the contract\<close>

lemma qfifo_write_frames:
  assumes "own dh (tok p f) s"
  shows "tx_frame s (csp_qfifo_write (Some p) (Some i) isr s)" "pkts_kept {p} s (csp_qfifo_write (Some p) (Some i) isr s)"
proof -
  obtain r q where enq: "csp_queue_enqueue (qfifo_queue s) \<lparr>qf_iface = Some i, qf_packet = Some p\<rparr> = (r, q)" by fastforce
  let ?s1 = "s\<lparr>qfifo_queue := q\<rparr>"
  let ?s2 = "upd_iface i (\<lambda>k. k\<lparr>if_tx_error := if_tx_error k + 1\<rparr>) (conn_ovf ?s1)"
  have w: "csp_qfifo_write (Some p) (Some i) isr s = (if r \<noteq> 0 then free_pkt p ?s2 else ?s1)"
    using enq by (cases isr) (simp_all add: csp_qfifo_write_def Let_def free_pkt_def)
  have "own dh (if r = 0 then f else tok p f) ?s1"
    using own_qfifo_enqueue [OF _ enq, of dh f] assms by (simp split: if_splits)
  then have "own dh (tok p f) ?s2" if "r \<noteq> 0" using that by simp
  then have "pkts_kept {p} ?s2 (free_pkt p ?s2)" if "r \<noteq> 0" using that by (blast intro: pkts_kept_free)
  moreover have "pkts_kept {p} s ?s2" by simp
  ultimately have "pkts_kept {p} s (free_pkt p ?s2)" if "r \<noteq> 0" using that by (blast intro: pkts_kept_trans)
  then show "pkts_kept {p} s (csp_qfifo_write (Some p) (Some i) isr s)" by (simp add: w)
  have "tx_frame s ?s2"
    by (rule tx_frame_trans [OF tx_frame_trans [OF tx_frame_upds(2) tx_frame_upds(4)] tx_frame_counters(1)])
  then have "tx_frame s (free_pkt p ?s2)" by (rule tx_frame_trans [OF _ tx_frame_free])
  then show "tx_frame s (csp_qfifo_write (Some p) (Some i) isr s)" by (simp add: w)
qed

interpretation lo_tx: nexthop_contract "\<lambda>_. csp_lo_tx" dh for dh
proof
  fix p :: addr and f s n i via fm and r :: int and s' :: "'a csp_state"
  assume own: "own dh (tok p f) s" and run: "csp_lo_tx i via p fm s = (r, s')"
  then have s': "r = 0" "s' = csp_qfifo_write (Some p) (Some csp_if_lo) False s" by (simp_all add: csp_lo_tx_def)
  show "own dh (if r = 0 then f else tok p f) s'"
    using own_qfifo_write [of dh "Some p" f s] own by (simp add: s')
  show "tx_frame s s'" "pkts_kept {p} s s'"
    unfolding s'(2) by (rule qfifo_write_frames [OF own])+
qed

section \<open>Properties\<close>

text \<open>C9. Sending consumes exactly the packet: whatever interfaces are chosen, however many copies
  are made, whether buffers run out, an HMAC or checksum does not fit or a transmit
  function fails, \<open>csp_send_direct\<close> gives up exactly the caller's one reference to the packet
  and leaks or doubly frees nothing, for all transmit functions that keep the contract of
  \<open>nexthop_contract\<close>.\<close>

theorem csp_send_direct_ownership:
  assumes "nexthop_contract nh dh" and "own dh (tok p f) s"
  shows "own dh f (csp_send_direct nh ptr ido p rf s)
    \<and> (\<forall>q. q \<notin> insert p (ptr_pkts ptr) \<longrightarrow> 0 < buf_refs (core s) q \<longrightarrow> pkt (csp_send_direct nh ptr ido p rf s) q = pkt s q)"
  using nexthop_contract.send_direct_contract [OF assms] by (auto simp: pkts_kept_def)

definition example_node :: "unit csp_state" where
  "example_node = \<lparr>core = core1, iflist = example_iflist, routes = empty_rtable,
     dedups = \<lparr>csp_dedup_array = (\<lambda>_. 0), csp_dedup_timestamp = (\<lambda>_. 0), csp_dedup_in = 0\<rparr>, hmac_key = replicate 16 0,
     csp_promisc_queue = None, csp_promisc_enabled = False,
     qfifo_queue = csp_queue_create_static CSP_QFIFO_LEN (\<lambda>_. \<lparr>qf_iface = None, qf_packet = None\<rparr>),
     ports = (\<lambda>_. \<lparr>port_state = PORT_CLOSED, port_socket = None, port_callback = None\<rparr>),
     sockets = (\<lambda>_. \<lparr>sock_rx_queue = None, sock_opts = 0\<rparr>),
     arr_conn = (\<lambda>_. \<lparr>conn_type = CONN_CLIENT, conn_state = CONN_CLOSED, idin = zero_id, idout = zero_id, sport_outgoing = 17,
       conn_rx_queue = csp_queue_create_static CSP_CONN_RXQUEUE_LEN (\<lambda>_. None), dest_socket = None, conn_timestamp = 0,
       conn_opts = 0, rdp = \<lparr>rdp_state = RDP_CLOSED, closed_by = 0, snd_nxt = 0, snd_una = 0, snd_iss = 0, rcv_cur = 0,
         rcv_irs = 0, rcv_lsa = 0, window_size = 4, conn_timeout = 10000, packet_timeout = 1000, delayed_acks = 1,
         ack_timeout = 250, ack_delay_count = 2, ack_timestamp = 0, tx_wait = 1\<rparr>\<rparr>),
     csp_conn_last_given = 0, rdp_tx_queue = csp_queue_create_static 10 (\<lambda>_. 0), rdp_rx_queue = csp_queue_create_static 10 (\<lambda>_. 0),
     csp_rdp_window_size = 4, csp_rdp_conn_timeout = 10000, csp_rdp_packet_timeout = 1000, csp_rdp_delayed_acks = 1,
     csp_rdp_ack_timeout = 250, csp_rdp_ack_delay_count = 2, csp_rdp_incr = 0, bif_a = None, bif_b = None, drv = ()\<rparr>"

abbreviation no_driver :: "unit \<Rightarrow> addr \<Rightarrow> nat" where "no_driver \<equiv> \<lambda>_ _. 0"

lemma example_node_own: "own no_driver (\<lambda>_. 0) example_node"
  using csp_buffer_init_inv [of core0] csp_buffer_init_free [of core0]
  by (simp add: own_def example_node_def queues_ok_def held_def qheld_def oheld_def buf_refs_def)

text \<open>The node after it took one buffer.\<close>

definition example_sender :: "unit csp_state" where
  "example_sender = snd (in_core csp_buffer_get example_node)"

lemma example_sender_own: "own no_driver (tok 0 (\<lambda>_. 0)) example_sender"
  and example_sender_frame: "example_sender = example_node\<lparr>core := core example_sender\<rparr>" "csp_version (core example_sender) = 2"
proof -
  have fl: "free_list core1 = 0 # [1..<15]" by (simp add: csp_buffer_init_free upt_rec)
  obtain c where get: "csp_buffer_get_actual 2 False core1 = (Some 0, c)" and conf: "csp_conf c = csp_conf core1"
    using get_actual_succeed [OF csp_buffer_init_inv fl, of 2 False] fl by auto
  then have run: "in_core csp_buffer_get example_node = (Some 0, example_sender)"
    by (simp add: in_core_def csp_buffer_get_def example_sender_def example_node_def)
  from own_get [OF example_node_own run] show "own no_driver (tok 0 (\<lambda>_. 0)) example_sender" by simp
  show "example_sender = example_node\<lparr>core := core example_sender\<rparr>" by (simp add: example_sender_def in_core_def)
  have "core example_sender = c" using get by (simp add: example_sender_def in_core_def csp_buffer_get_def example_node_def)
  then show "csp_version (core example_sender) = 2" using conf core1_conf by (simp add: csp_version_def)
qed

lemma example_sender_pkt: "pkt example_sender 0 = fresh_packet 0" "free_list (core example_sender) = [1..<15]"
proof -
  have fl: "free_list core1 = 0 # [1..<15]" by (simp add: csp_buffer_init_free upt_rec)
  obtain c where "csp_buffer_get_actual 2 False core1 = (Some 0, c)" "packet c = (packet core1)(0 := fresh_packet 0)"
      "free_list c = [1..<15]"
    using get_actual_succeed [OF csp_buffer_init_inv fl, of 2 False] fl by auto
  then show "pkt example_sender 0 = fresh_packet 0" "free_list (core example_sender) = [1..<15]"
    by (simp_all add: example_sender_def in_core_def csp_buffer_get_def example_node_def)
qed

theorem csp_send_direct_ownership_witness:
  "own no_driver (\<lambda>_. 0) (csp_send_direct (\<lambda>_. csp_lo_tx) Id_local (example_id\<lparr>id_dst := 7\<rparr>) 0 None example_sender)"
  using csp_send_direct_ownership [OF lo_tx.nexthop_contract_axioms example_sender_own] by blast

text \<open>C10. The routing decision: a packet that is not for the loopback goes out in copies exactly
  according to \<open>send_plan\<close>, in its order: on the interfaces whose subnet contains the
  destination; if there is none, on the routes of the longest matching prefix; if there
  is none, on the default interfaces. No copy goes to the interface the packet came from
  or to one in the same subnet.\<close>

theorem csp_send_direct_routing:
  assumes nh: "nexthop_contract nh dh" and own: "own dh (tok p f) s" and l: "iflist_is (iflist s) xs"
    and rt: "\<And>k. k < rtable_inptr (routes s) \<Longrightarrow> rt_iface (rtable (routes s) k) \<noteq> None"
    and remote: "id_dst ido \<noteq> if_addr (ifaces (iflist s) csp_if_lo)"
  shows "csp_send_direct nh ptr ido p rf s
      = free_pkt p (fold (send_item_copy nh ptr p (rf = None)) (send_plan (ver s) (iflist s) (routes s) xs ido rf) s)
    \<and> (\<forall>(i, via, a, idc) \<in> set (send_plan (ver s) (iflist s) (routes s) xs ido rf). rf \<noteq> Some i
        \<and> \<not> csp_iflist_is_within_subnet (ver s) (if_addr (ifaces (iflist s) i)) (map_option (ifaces (iflist s)) rf))"
proof -
  have sub: "\<forall>(i, via, a, idc) \<in> set (subnet_plan v l rf ido loc is). \<not> horizon v l rf i" for v l loc "is"
    by (induction "is" arbitrary: loc) (auto simp: Let_def)
  have asg: "\<forall>(i, via, a, idc) \<in> set (assign_plan v l rf ido is). \<not> horizon v l rf i" for v l ido "is"
    by (induction v l rf ido "is" rule: assign_plan.induct) (auto simp: Let_def)
  have "\<forall>(i, via, a, idc) \<in> set (send_plan (ver s) (iflist s) (routes s) xs ido rf). \<not> horizon (ver s) (iflist s) rf i"
    unfolding send_plan_def Let_def using sub asg by (auto split: option.splits)
  then show ?thesis
    using nexthop_contract.send_direct_plan [OF nh own l rt remote] by (auto simp: horizon_def)
qed

theorem csp_send_direct_routing_witness:
  "csp_send_direct (\<lambda>_. csp_lo_tx) Id_local (example_id\<lparr>id_dst := 7\<rparr>) 0 None example_sender
   = free_pkt 0 (send_copy (\<lambda>_. csp_lo_tx) (example_id\<lparr>id_dst := 7\<rparr>) 0 1 CSP_NO_VIA_ADDRESS True example_sender)"
proof -
  have fld: "iflist example_sender = example_iflist" "routes example_sender = empty_rtable"
    by (subst example_sender_frame(1), simp add: example_node_def)+
  have plan: "send_plan 2 example_iflist empty_rtable [0, 1] (example_id\<lparr>id_dst := 7\<rparr>) None
      = [(1, CSP_NO_VIA_ADDRESS, False, example_id\<lparr>id_dst := 7\<rparr>)]"
    by (simp add: send_plan_def on_subnet_def example_iflist_def blank_iface_def csp_iflist_is_within_subnet_def
        csp_id_get_host_bits_def example_id_def horizon_def csp_id_is_broadcast_def csp_id_get_max_nodeid_def)
  show ?thesis
    using csp_send_direct_routing [OF lo_tx.nexthop_contract_axioms example_sender_own, of "[0, 1]" "example_id\<lparr>id_dst := 7\<rparr>" Id_local None]
      example_iflist_is plan
    by (simp add: fld example_sender_frame(2) send_item_copy_def empty_rtable_def example_iflist_def blank_iface_def)
qed

end
