(* ===== verification/CSP_Rdp_Queue.thy ===== *)
theory CSP_Rdp_Queue
  imports CSP_Send_Plan
begin

text \<open>
  The two packet queues that all RDP connections share, \<^verbatim>\<open>src/src/csp_rdp_queue.c\<close>. The
  connection a packet belongs to is recorded in the packet.
\<close>

section \<open>Operations on one queue\<close>

text \<open>The loop of \<^verbatim>\<open>__csp_rdp_queue_flush\<close>; \<open>ret\<close> is the result of the last queue operation.\<close>

fun rdp_flush_loop :: "nat \<Rightarrow> addr \<Rightarrow> int \<Rightarrow> addr pthread_queue \<Rightarrow> csp_core \<Rightarrow> int \<times> addr pthread_queue \<times> csp_core" where
  "rdp_flush_loop 0 conn ret q k = (ret, q, k)"
| "rdp_flush_loop (Suc sz) conn ret q k =
     (case csp_queue_dequeue q of
        (None, q) \<Rightarrow> (CSP_QUEUE_ERROR, q, k)
      | (Some p, q) \<Rightarrow>
          if pkt_conn (packet k p) = Some conn then rdp_flush_loop sz conn CSP_QUEUE_OK q (csp_buffer_free (Some p) k)
          else let (ret, q) = csp_queue_enqueue q p
               in if ret \<noteq> CSP_QUEUE_OK then (ret, q, k) else rdp_flush_loop sz conn ret q k)"

definition csp_rdp_queue_flush_one :: "addr \<Rightarrow> addr pthread_queue \<Rightarrow> csp_core \<Rightarrow> int \<times> addr pthread_queue \<times> csp_core" where
  "csp_rdp_queue_flush_one conn q k = rdp_flush_loop (csp_queue_size q) conn CSP_ERR_NONE q k"

definition csp_rdp_queue_add :: "addr pthread_queue \<Rightarrow> addr \<Rightarrow> addr \<Rightarrow> csp_core \<Rightarrow> addr pthread_queue \<times> csp_core" where
  "csp_rdp_queue_add q conn p k =
     (let k = upd_packet p (\<lambda>x. x\<lparr>pkt_conn := Some conn\<rparr>) k;
          (r, q) = csp_queue_enqueue q p
      in if r \<noteq> CSP_QUEUE_OK then (q, csp_buffer_free (Some p) k) else (q, k))"

fun rdp_get_loop :: "nat \<Rightarrow> addr \<Rightarrow> addr pthread_queue \<Rightarrow> csp_core \<Rightarrow> addr option \<times> addr pthread_queue \<times> csp_core" where
  "rdp_get_loop 0 conn q k = (None, q, k)"
| "rdp_get_loop (Suc sz) conn q k =
     (case csp_queue_dequeue q of
        (None, q) \<Rightarrow> (None, q, k)
      | (Some p, q) \<Rightarrow>
          if pkt_conn (packet k p) = Some conn then (Some p, q, k)
          else let (q, k) = csp_rdp_queue_add q conn p k in rdp_get_loop sz conn q k)"

definition csp_rdp_queue_get :: "addr pthread_queue \<Rightarrow> addr \<Rightarrow> csp_core \<Rightarrow> addr option \<times> addr pthread_queue \<times> csp_core" where
  "csp_rdp_queue_get q conn k = rdp_get_loop (csp_queue_size q) conn q k"

section \<open>The transmit and receive queues\<close>

definition csp_rdp_queue_init :: "'d csp_state \<Rightarrow> 'd csp_state" where
  "csp_rdp_queue_init s =
     s\<lparr>rdp_tx_queue := csp_queue_create_static (CSP_RDP_MAX_WINDOW * 2) (q_buffer (rdp_tx_queue s)),
       rdp_rx_queue := csp_queue_create_static (CSP_RDP_MAX_WINDOW * 2) (q_buffer (rdp_rx_queue s))\<rparr>"

definition csp_rdp_queue_flush :: "addr option \<Rightarrow> 'd csp_state \<Rightarrow> 'd csp_state" where
  "csp_rdp_queue_flush conn s =
     (case conn of
        None \<Rightarrow> s\<lparr>rdp_tx_queue := csp_queue_empty (rdp_tx_queue s), rdp_rx_queue := csp_queue_empty (rdp_rx_queue s)\<rparr>
      | Some c \<Rightarrow>
          let (_, q, k) = csp_rdp_queue_flush_one c (rdp_tx_queue s) (core s);
              s = s\<lparr>rdp_tx_queue := q, core := k\<rparr>;
              (_, q, k) = csp_rdp_queue_flush_one c (rdp_rx_queue s) (core s)
          in s\<lparr>rdp_rx_queue := q, core := k\<rparr>)"

definition csp_rdp_queue_tx_size :: "'d csp_state \<Rightarrow> nat" where
  "csp_rdp_queue_tx_size s = csp_queue_size (rdp_tx_queue s)"

definition csp_rdp_queue_tx_add :: "addr \<Rightarrow> addr \<Rightarrow> 'd csp_state \<Rightarrow> 'd csp_state" where
  "csp_rdp_queue_tx_add conn p s =
     (let (q, k) = csp_rdp_queue_add (rdp_tx_queue s) conn p (core s) in s\<lparr>rdp_tx_queue := q, core := k\<rparr>)"

definition csp_rdp_queue_tx_get :: "addr \<Rightarrow> 'd csp_state \<Rightarrow> addr option \<times> 'd csp_state" where
  "csp_rdp_queue_tx_get conn s =
     (let (r, q, k) = csp_rdp_queue_get (rdp_tx_queue s) conn (core s) in (r, s\<lparr>rdp_tx_queue := q, core := k\<rparr>))"

definition csp_rdp_queue_rx_size :: "'d csp_state \<Rightarrow> nat" where
  "csp_rdp_queue_rx_size s = csp_queue_size (rdp_rx_queue s)"

definition csp_rdp_queue_rx_add :: "addr \<Rightarrow> addr \<Rightarrow> 'd csp_state \<Rightarrow> 'd csp_state" where
  "csp_rdp_queue_rx_add conn p s =
     (let (q, k) = csp_rdp_queue_add (rdp_rx_queue s) conn p (core s) in s\<lparr>rdp_rx_queue := q, core := k\<rparr>)"

definition csp_rdp_queue_rx_get :: "addr \<Rightarrow> 'd csp_state \<Rightarrow> addr option \<times> 'd csp_state" where
  "csp_rdp_queue_rx_get conn s =
     (let (r, q, k) = csp_rdp_queue_get (rdp_rx_queue s) conn (core s) in (r, s\<lparr>rdp_rx_queue := q, core := k\<rparr>))"

section \<open>Accounting of one queue\<close>

text \<open>The references outside the queue are \<open>g\<close>.\<close>

definition qown :: "(addr \<Rightarrow> nat) \<Rightarrow> addr pthread_queue \<Rightarrow> csp_core \<Rightarrow> bool" where
  "qown g q k \<longleftrightarrow> queue_ok q \<and> buf_inv k \<and> (\<forall>x. buf_refs k x = qheld Some q x + g x)"

text \<open>Nothing but the connection of packets changes in the packet memory.\<close>

definition conn_only :: "csp_core \<Rightarrow> csp_core \<Rightarrow> bool" where
  "conn_only k k' \<longleftrightarrow> csp_conf k' = csp_conf k \<and> csp_ms k' = csp_ms k
     \<and> (\<forall>x. packet k' x = (packet k x)\<lparr>pkt_conn := pkt_conn (packet k' x)\<rparr>)"

lemma conn_only_refl [simp]: "conn_only k k"
  by (simp add: conn_only_def)

lemma conn_only_trans: "conn_only a b \<Longrightarrow> conn_only b c \<Longrightarrow> conn_only a c"
  unfolding conn_only_def by (metis (no_types, lifting) csp_packet.surjective csp_packet.update_convs(2))

lemma conn_only_free [simp]: "conn_only k (csp_buffer_free x k)"
  by (simp add: conn_only_def)

lemma qown_free: "qown (tok p g) q k \<Longrightarrow> qown g q (csp_buffer_free (Some p) k)"
  using free_pool [of k p] by (auto simp: qown_def tok_apply)

lemma qown_enqueue:
  assumes "qown (tok p g) q k" "csp_queue_enqueue q p = (r, q')"
  shows "qown (if r = 0 then g else tok p g) q' k"
  using qheld_enqueue [OF _ assms(2), of Some] assms(1) by (cases "r = 0") (auto simp: qown_def tok_apply)

lemma qown_dequeue:
  assumes "qown g q k" "csp_queue_dequeue q = (r, q')"
  shows "qown (otok r g) q' k"
  using qheld_dequeue [OF _ assms(2), of Some] assms(1)
  by (cases r) (auto simp: qown_def otok_apply simp del: otok_simps)

lemma qown_add:
  assumes "qown (tok p g) q k" "csp_rdp_queue_add q c p k = (q', k')"
  shows "qown g q' k'" "conn_only k k'"
proof -
  let ?k = "upd_packet p (\<lambda>x. x\<lparr>pkt_conn := Some c\<rparr>) k"
  obtain r q1 where enq: "csp_queue_enqueue q p = (r, q1)" by fastforce
  have "qown (tok p g) q ?k" using assms(1) by (simp add: qown_def)
  note own = qown_enqueue [OF this enq]
  have ko: "conn_only k ?k" by (simp add: conn_only_def)
  show "qown g q' k'" "conn_only k k'"
    using assms(2) enq own qown_free [of p g q1 ?k] ko conn_only_trans [OF ko conn_only_free]
    by (auto simp: csp_rdp_queue_add_def Let_def split: if_splits)
qed

lemma qown_get_loop:
  "qown g q k \<Longrightarrow> rdp_get_loop n c q k = (r, q', k') \<Longrightarrow> qown (otok r g) q' k' \<and> conn_only k k'"
proof (induction n arbitrary: q k)
  case (Suc n)
  obtain x q1 where deq: "csp_queue_dequeue q = (x, q1)" by fastforce
  note own = qown_dequeue [OF Suc.prems(1) deq]
  show ?case
  proof (cases x)
    case None
    with Suc.prems(2) deq own show ?thesis by auto
  next
    case (Some p)
    obtain q2 k2 where add: "csp_rdp_queue_add q1 c p k = (q2, k2)" by fastforce
    have own2: "qown g q2 k2" "conn_only k k2" using qown_add [OF _ add, of g] own Some by auto
    show ?thesis
      using Suc.prems(2) deq Some own add Suc.IH [OF own2(1)] own2(2)
      by (auto split: if_splits intro: conn_only_trans)
  qed
qed simp

lemma qown_flush_loop:
  "qown g q k \<Longrightarrow> rdp_flush_loop n c ret q k = (r, q', k') \<Longrightarrow> qown g q' k' \<and> conn_only k k'"
proof (induction n arbitrary: q k ret)
  case (Suc n)
  obtain x q1 where deq: "csp_queue_dequeue q = (x, q1)" by fastforce
  note own = qown_dequeue [OF Suc.prems(1) deq]
  show ?case
  proof (cases x)
    case None
    with Suc.prems(2) deq own show ?thesis by auto
  next
    case (Some p)
    obtain r1 q2 where enq: "csp_queue_enqueue q1 p = (r1, q2)" by fastforce
    have own1: "qown (tok p g) q1 k" using own Some by simp
    have "length (queue_list q1) < q_size q1"
      using qheld_dequeue [OF _ deq, of Some] Suc.prems(1) Some
      by (auto simp: qown_def queue_ok_def) (metis Suc_le_eq length_Cons length_queue_list)
    then have "r1 = 0" using qheld_enqueue [OF _ enq, of Some] own1 by (auto simp: qown_def)
    then have own2: "qown g q2 k" using qown_enqueue [OF own1 enq] by simp
    show ?thesis
      using Suc.prems(2) deq Some enq \<open>r1 = 0\<close> Suc.IH [OF own2] Suc.IH [OF qown_free [OF own1]]
      by (auto split: if_splits intro: conn_only_trans [OF conn_only_free])
  qed
qed simp

section \<open>Accounting of the node\<close>

definition rdp_frame :: "'d csp_state \<Rightarrow> 'd csp_state \<Rightarrow> bool" where
  "rdp_frame s s' \<longleftrightarrow> s' = s\<lparr>core := core s', rdp_tx_queue := rdp_tx_queue s', rdp_rx_queue := rdp_rx_queue s'\<rparr>
     \<and> conn_only (core s) (core s')"

definition but_tx :: "('d \<Rightarrow> addr \<Rightarrow> nat) \<Rightarrow> 'd csp_state \<Rightarrow> addr \<Rightarrow> nat" where
  "but_tx dh s p = qheld qf_packet (qfifo_queue s) p + oheld Some (csp_promisc_queue s) p
     + (\<Sum>c<CSP_CONN_MAX. qheld id (conn_rx_queue (arr_conn s c)) p)
     + (\<Sum>i<SOCK_MAX. oheld sock_pkt (sock_rx_queue (sockets s i)) p) + qheld Some (rdp_rx_queue s) p + dh (drv s) p"

definition but_rx :: "('d \<Rightarrow> addr \<Rightarrow> nat) \<Rightarrow> 'd csp_state \<Rightarrow> addr \<Rightarrow> nat" where
  "but_rx dh s p = qheld qf_packet (qfifo_queue s) p + oheld Some (csp_promisc_queue s) p
     + (\<Sum>c<CSP_CONN_MAX. qheld id (conn_rx_queue (arr_conn s c)) p)
     + (\<Sum>i<SOCK_MAX. oheld sock_pkt (sock_rx_queue (sockets s i)) p) + qheld Some (rdp_tx_queue s) p + dh (drv s) p"

lemma own_tx_qown: "own dh f s \<Longrightarrow> qown (\<lambda>x. but_tx dh s x + f x) (rdp_tx_queue s) (core s)"
  and own_rx_qown: "own dh f s \<Longrightarrow> qown (\<lambda>x. but_rx dh s x + f x) (rdp_rx_queue s) (core s)"
  by (simp_all add: own_def qown_def held_def but_tx_def but_rx_def queues_ok_def)

lemma qown_tx_own:
  "own dh f0 s \<Longrightarrow> qown (\<lambda>x. but_tx dh s x + f x) q k \<Longrightarrow> own dh f (s\<lparr>rdp_tx_queue := q, core := k\<rparr>)"
  by (auto simp: own_def qown_def held_def but_tx_def queues_ok_def)

lemma qown_rx_own:
  "own dh f0 s \<Longrightarrow> qown (\<lambda>x. but_rx dh s x + f x) q k \<Longrightarrow> own dh f (s\<lparr>rdp_rx_queue := q, core := k\<rparr>)"
  by (auto simp: own_def qown_def held_def but_rx_def queues_ok_def)

lemma tok_plus: "(\<lambda>x. g x + tok p f x) = tok p (\<lambda>x. g x + f x)"
  by (auto simp: tok_apply)

lemma otok_plus: "(\<lambda>x. g x + otok r f x) = otok r (\<lambda>x. g x + f x)"
  by (cases r) (simp_all add: tok_plus)

lemma rdp_tx_add:
  assumes "own dh (tok p f) s"
  shows "own dh f (csp_rdp_queue_tx_add c p s)" "rdp_frame s (csp_rdp_queue_tx_add c p s)"
proof -
  obtain q k where add: "csp_rdp_queue_add (rdp_tx_queue s) c p (core s) = (q, k)" by fastforce
  from qown_add [OF own_tx_qown [OF assms, unfolded tok_plus] add] qown_tx_own [OF assms, of f q k] add
  show "own dh f (csp_rdp_queue_tx_add c p s)" "rdp_frame s (csp_rdp_queue_tx_add c p s)"
    by (simp_all add: csp_rdp_queue_tx_add_def rdp_frame_def)
qed

lemma rdp_rx_add:
  assumes "own dh (tok p f) s"
  shows "own dh f (csp_rdp_queue_rx_add c p s)" "rdp_frame s (csp_rdp_queue_rx_add c p s)"
proof -
  obtain q k where add: "csp_rdp_queue_add (rdp_rx_queue s) c p (core s) = (q, k)" by fastforce
  from qown_add [OF own_rx_qown [OF assms, unfolded tok_plus] add] qown_rx_own [OF assms, of f q k] add
  show "own dh f (csp_rdp_queue_rx_add c p s)" "rdp_frame s (csp_rdp_queue_rx_add c p s)"
    by (simp_all add: csp_rdp_queue_rx_add_def rdp_frame_def)
qed

lemma rdp_tx_get:
  assumes "own dh f s" "csp_rdp_queue_tx_get c s = (r, s')"
  shows "own dh (otok r f) s'" "rdp_frame s s'"
proof -
  obtain r' q k where get: "csp_rdp_queue_get (rdp_tx_queue s) c (core s) = (r', q, k)" by (metis prod_cases3)
  from qown_get_loop [OF own_tx_qown [OF assms(1)] get [unfolded csp_rdp_queue_get_def]]
    qown_tx_own [OF assms(1), of "otok r f" q k] get assms(2)
  show "own dh (otok r f) s'" "rdp_frame s s'"
    by (auto simp: csp_rdp_queue_tx_get_def rdp_frame_def otok_plus)
qed

lemma rdp_rx_get:
  assumes "own dh f s" "csp_rdp_queue_rx_get c s = (r, s')"
  shows "own dh (otok r f) s'" "rdp_frame s s'"
proof -
  obtain r' q k where get: "csp_rdp_queue_get (rdp_rx_queue s) c (core s) = (r', q, k)" by (metis prod_cases3)
  from qown_get_loop [OF own_rx_qown [OF assms(1)] get [unfolded csp_rdp_queue_get_def]]
    qown_rx_own [OF assms(1), of "otok r f" q k] get assms(2)
  show "own dh (otok r f) s'" "rdp_frame s s'"
    by (auto simp: csp_rdp_queue_rx_get_def rdp_frame_def otok_plus)
qed

lemma rdp_frame_refl [simp]: "rdp_frame s s"
  by (simp add: rdp_frame_def)

lemma rdp_frame_trans:
  assumes "rdp_frame a b" "rdp_frame b c"
  shows "rdp_frame a c"
proof -
  let ?to = "\<lambda>x y. x\<lparr>core := core y, rdp_tx_queue := rdp_tx_queue y, rdp_rx_queue := rdp_rx_queue y\<rparr>"
  have ab: "b = ?to a b" and bc: "c = ?to b c" using assms by (simp_all add: rdp_frame_def)
  have "?to b c = ?to (?to a b) c" by (rule arg_cong [OF ab, of "\<lambda>x. ?to x c"])
  also have "\<dots> = ?to a c" by simp
  finally have "c = ?to a c" by (rule trans [OF bc])
  with assms show ?thesis by (auto simp: rdp_frame_def intro: conn_only_trans)
qed

lemma rdp_flush:
  assumes "own dh f s"
  shows "own dh f (csp_rdp_queue_flush (Some c) s)" "rdp_frame s (csp_rdp_queue_flush (Some c) s)"
proof -
  obtain r1 q1 k1 where f1: "csp_rdp_queue_flush_one c (rdp_tx_queue s) (core s) = (r1, q1, k1)" by (metis prod_cases3)
  let ?s1 = "s\<lparr>rdp_tx_queue := q1, core := k1\<rparr>"
  note l1 = qown_flush_loop [OF own_tx_qown [OF assms] f1 [unfolded csp_rdp_queue_flush_one_def]]
  have own1: "own dh f ?s1" using l1 by (blast intro: qown_tx_own [OF assms])
  obtain r2 q2 k2 where f2: "csp_rdp_queue_flush_one c (rdp_rx_queue ?s1) (core ?s1) = (r2, q2, k2)" by (metis prod_cases3)
  note l2 = qown_flush_loop [OF own_rx_qown [OF own1] f2 [unfolded csp_rdp_queue_flush_one_def]]
  have run: "csp_rdp_queue_flush (Some c) s = ?s1\<lparr>rdp_rx_queue := q2, core := k2\<rparr>"
    using f1 f2 by (simp add: csp_rdp_queue_flush_def)
  show "own dh f (csp_rdp_queue_flush (Some c) s)"
    unfolding run using l2 by (blast intro: qown_rx_own [OF own1])
  have "rdp_frame s ?s1" using l1 by (simp add: rdp_frame_def)
  moreover have "rdp_frame ?s1 (?s1\<lparr>rdp_rx_queue := q2, core := k2\<rparr>)" using l2 by (simp add: rdp_frame_def)
  ultimately show "rdp_frame s (csp_rdp_queue_flush (Some c) s)" unfolding run by (rule rdp_frame_trans)
qed

section \<open>What the queue operations return\<close>

lemma rotate_once:
  assumes "queue_ok q" "queue_list q = x # xs"
  obtains q1 q2 where "csp_queue_dequeue q = (Some x, q1)" "queue_ok q1" "queue_list q1 = xs" "q_size q1 = q_size q"
    "csp_queue_enqueue q1 x = (CSP_QUEUE_OK, q2)" "queue_ok q2" "queue_list q2 = xs @ [x]" "q_size q2 = q_size q"
proof -
  obtain y q1 where deq: "csp_queue_dequeue q = (Some y, q1)" and q1: "queue_ok q1" "queue_list q = y # queue_list q1" "q_size q1 = q_size q"
    using assms(1) by (cases rule: csp_q.dequeue_cases) (use assms(2) in auto)
  have "length (queue_list q1) < q_size q1"
    using csp_q.ok_bound [OF assms(1)] q1 by simp
  then obtain q2 where "csp_queue_enqueue q1 x = (CSP_QUEUE_OK, q2)" "queue_ok q2" "queue_list q2 = queue_list q1 @ [x]" "q_size q2 = q_size q1"
    using csp_q.enqueue_room [OF q1(1), of x] by (metis prod.collapse)
  with that [of q1 q2] deq q1 assms(2) show thesis by auto
qed

lemma flush_loop_list:
  "queue_ok q \<Longrightarrow> queue_list q = xs @ ys \<Longrightarrow> rdp_flush_loop (length xs) c ret q k = (r, q', k') \<Longrightarrow>
     queue_ok q' \<and> queue_list q' = ys @ filter (\<lambda>p. pkt_conn (packet k p) \<noteq> Some c) xs \<and> packet k' = packet k"
proof (induction xs arbitrary: q ys ret k)
  case (Cons x xs)
  obtain q1 q2 where rot: "csp_queue_dequeue q = (Some x, q1)" "queue_ok q1" "queue_list q1 = xs @ ys" "q_size q1 = q_size q"
    "csp_queue_enqueue q1 x = (CSP_QUEUE_OK, q2)" "queue_ok q2" "queue_list q2 = (xs @ ys) @ [x]" "q_size q2 = q_size q"
    using rotate_once [OF Cons.prems(1), of x "xs @ ys"] Cons.prems(2) by auto
  show ?case
  proof (cases "pkt_conn (packet k x) = Some c")
    case True
    then have "rdp_flush_loop (length xs) c 0 q1 (csp_buffer_free (Some x) k) = (r, q', k')"
      using Cons.prems(3) rot(1) by simp
    from Cons.IH [OF rot(2,3) this] True show ?thesis by simp
  next
    case False
    then have run: "rdp_flush_loop (length xs) c 0 q2 k = (r, q', k')"
      using Cons.prems(3) rot(1,5) by simp
    have "queue_list q2 = xs @ (ys @ [x])" using rot(7) by simp
    from Cons.IH [OF rot(6) this run] False show ?thesis by simp
  qed
qed simp

lemma get_loop_others:
  "queue_ok q \<Longrightarrow> queue_list q = xs @ ys \<Longrightarrow> distinct xs \<Longrightarrow> \<forall>p\<in>set xs. pkt_conn (packet k p) \<noteq> Some c \<Longrightarrow>
   \<exists>q' k'. rdp_get_loop (length xs) c q k = (None, q', k') \<and> queue_ok q' \<and> queue_list q' = ys @ xs
     \<and> (\<forall>p. pkt_conn (packet k' p) = (if p \<in> set xs then Some c else pkt_conn (packet k p)))"
proof (induction xs arbitrary: q ys k)
  case (Cons x xs)
  obtain q1 q2 where rot: "csp_queue_dequeue q = (Some x, q1)" "queue_ok q1" "queue_list q1 = xs @ ys" "q_size q1 = q_size q"
    "csp_queue_enqueue q1 x = (CSP_QUEUE_OK, q2)" "queue_ok q2" "queue_list q2 = (xs @ ys) @ [x]" "q_size q2 = q_size q"
    using rotate_once [OF Cons.prems(1), of x "xs @ ys"] Cons.prems(2) by auto
  let ?k = "upd_packet x (\<lambda>z. z\<lparr>pkt_conn := Some c\<rparr>) k"
  have step: "rdp_get_loop (length (x # xs)) c q k = rdp_get_loop (length xs) c q2 ?k"
    using rot(1,5) Cons.prems(4) by (simp add: csp_rdp_queue_add_def)
  have "queue_list q2 = xs @ (ys @ [x])" using rot(7) by simp
  moreover have "\<forall>p\<in>set xs. pkt_conn (packet ?k p) \<noteq> Some c" using Cons.prems(3,4) by auto
  ultimately obtain q' k' where ih: "rdp_get_loop (length xs) c q2 ?k = (None, q', k')" "queue_ok q'"
      "queue_list q' = (ys @ [x]) @ xs" "\<And>p. pkt_conn (packet k' p) = (if p \<in> set xs then Some c else pkt_conn (packet ?k p))"
    using Cons.IH [OF rot(6), of "ys @ [x]" ?k] Cons.prems(3) by auto
  have run: "rdp_get_loop (length (x # xs)) c q k = (None, q', k')" using step ih(1) by (simp only:)
  show ?case
    by (rule exI [of _ q'], rule exI [of _ k'], subst run) (use ih(2-) Cons.prems(3) in auto)
qed simp

lemma rdp_flush_lists:
  assumes own: "own dh f s"
  shows "queue_list (rdp_tx_queue (csp_rdp_queue_flush (Some c) s)) = filter (\<lambda>p. pkt_conn (pkt s p) \<noteq> Some c) (queue_list (rdp_tx_queue s))
    \<and> queue_list (rdp_rx_queue (csp_rdp_queue_flush (Some c) s)) = filter (\<lambda>p. pkt_conn (pkt s p) \<noteq> Some c) (queue_list (rdp_rx_queue s))
    \<and> packet (core (csp_rdp_queue_flush (Some c) s)) = packet (core s)"
proof -
  have ok: "queue_ok (rdp_tx_queue s)" "queue_ok (rdp_rx_queue s)" using queues_okD(6,7) [OF own_queues [OF own]] .
  obtain r1 q1 k1 where f1: "csp_rdp_queue_flush_one c (rdp_tx_queue s) (core s) = (r1, q1, k1)" by (metis prod_cases3)
  obtain r2 q2 k2 where f2: "csp_rdp_queue_flush_one c (rdp_rx_queue s) k1 = (r2, q2, k2)" by (metis prod_cases3)
  note l1 = flush_loop_list [OF ok(1), of "queue_list (rdp_tx_queue s)" "[]" c 0 "core s" r1 q1 k1]
  note l2 = flush_loop_list [OF ok(2), of "queue_list (rdp_rx_queue s)" "[]" c 0 k1 r2 q2 k2]
  have sz: "csp_queue_size q = length (queue_list q)" for q :: "addr pthread_queue" by (simp add: csp_queue_defs)
  have "csp_rdp_queue_flush (Some c) s = s\<lparr>rdp_tx_queue := q1, core := k2, rdp_rx_queue := q2\<rparr>"
    using f1 f2 by (simp add: csp_rdp_queue_flush_def)
  then show ?thesis
    using l1 l2 f1 f2 by (simp add: csp_rdp_queue_flush_one_def sz)
qed

section \<open>Properties\<close>

text \<open>Flushing a connection removes exactly its packets from both shared queues, keeps those of
  the other connections in order and untouched, and gives the references of the removed
  packets back.\<close>

theorem csp_rdp_queue_flush_spec:
  assumes own: "own dh f s"
  shows "queue_list (rdp_tx_queue (csp_rdp_queue_flush (Some c) s)) = filter (\<lambda>p. pkt_conn (pkt s p) \<noteq> Some c) (queue_list (rdp_tx_queue s))
    \<and> queue_list (rdp_rx_queue (csp_rdp_queue_flush (Some c) s)) = filter (\<lambda>p. pkt_conn (pkt s p) \<noteq> Some c) (queue_list (rdp_rx_queue s))
    \<and> packet (core (csp_rdp_queue_flush (Some c) s)) = packet (core s)
    \<and> own dh f (csp_rdp_queue_flush (Some c) s)"
  using rdp_flush_lists [OF own, of c] rdp_flush(1) [OF own, of c] by blast

text \<open>C11. Looking up a packet of one connection steals the packets of the others: when the queue
  holds only packets of other connections, \<open>csp_rdp_queue_get\<close> returns nothing, but puts
  every packet back under the asking connection, so that the next lookup hands it a
  packet of another connection.\<close>

theorem csp_rdp_queue_get_steals:
  assumes ok: "queue_ok q" and xs: "queue_list q = x # xs" "distinct (x # xs)"
    and others: "\<forall>p\<in>set (x # xs). pkt_conn (packet k p) \<noteq> Some c"
  shows "\<exists>q' k'. csp_rdp_queue_get q c k = (None, q', k')
    \<and> (\<forall>p\<in>set (x # xs). pkt_conn (packet k' p) = Some c) \<and> fst (csp_rdp_queue_get q' c k') = Some x"
proof -
  have sz: "csp_queue_size q = length (queue_list q)" for q :: "addr pthread_queue" by (simp add: csp_queue_defs)
  obtain q' k' where get: "rdp_get_loop (length (x # xs)) c q k = (None, q', k')" "queue_ok q'" "queue_list q' = x # xs"
    "\<And>p. pkt_conn (packet k' p) = (if p \<in> set (x # xs) then Some c else pkt_conn (packet k p))"
    using get_loop_others [OF ok _ xs(2) others, of "[]"] xs(1) by (auto simp del: rdp_get_loop.simps)
  obtain q1 where deq: "csp_queue_dequeue q' = (Some x, q1)" using rotate_once [OF get(2,3)] by metis
  have "fst (csp_rdp_queue_get q' c k') = Some x"
    using get(3,4) deq by (simp add: csp_rdp_queue_get_def sz)
  moreover have "csp_rdp_queue_get q c k = (None, q', k')"
    using get(1) xs(1) by (simp only: csp_rdp_queue_get_def sz)
  ultimately show ?thesis using get(4) by auto
qed

text \<open>A queue with one packet of connection 1, looked up by connection 2.\<close>

definition one_packet_queue :: "addr pthread_queue" where
  "one_packet_queue = snd (csp_queue_enqueue (csp_queue_create_static 10 (\<lambda>_. 0)) 0)"

theorem csp_rdp_queue_get_steals_witness:
  "\<exists>q' k'. csp_rdp_queue_get one_packet_queue 2 (upd_packet 0 (\<lambda>z. z\<lparr>pkt_conn := Some 1\<rparr>) core1) = (None, q', k')
     \<and> fst (csp_rdp_queue_get q' 2 k') = Some 0"
proof -
  have q: "queue_ok one_packet_queue" "queue_list one_packet_queue = [0]"
    by (simp_all add: one_packet_queue_def queue_ok_def queue_list_def csp_queue_defs)
  show ?thesis
    using csp_rdp_queue_get_steals [OF q, of "upd_packet 0 (\<lambda>z. z\<lparr>pkt_conn := Some 1\<rparr>) core1" 2] by auto
qed

end
