(* ===== verification/CSP_Rdp_Cmp.thy ===== *)
theory CSP_Rdp_Cmp
  imports CSP_Rdp_Queue
begin

text \<open>
  RDP segments and control messages (first part of \<^verbatim>\<open>src/src/csp_rdp.c\<close>) and the binary
  semaphore of \<^verbatim>\<open>arch/posix/csp_semaphore.c\<close>: the header at the end of a packet, the
  comparison of wrapping sequence numbers and times, \<^verbatim>\<open>csp_rdp_send_cmp\<close>, and closing
  the RDP side of a connection. Header fields are stored by a little-endian host.
\<close>

section \<open>Binary semaphore\<close>

abbreviation (input) CSP_SEMAPHORE_OK :: int where "CSP_SEMAPHORE_OK \<equiv> 0"
abbreviation (input) CSP_SEMAPHORE_ERROR :: int where "CSP_SEMAPHORE_ERROR \<equiv> -1"

definition csp_bin_sem_init :: nat where
  "csp_bin_sem_init = 1"

definition csp_bin_sem_post :: "nat \<Rightarrow> int \<times> nat" where
  "csp_bin_sem_post v = (if v > 0 then (CSP_SEMAPHORE_OK, v) else (CSP_SEMAPHORE_OK, v + 1))"

text \<open>The wait at the moment it ends: by then the semaphore is up, or the time is over.\<close>

definition csp_bin_sem_wait :: "nat \<Rightarrow> int \<times> nat" where
  "csp_bin_sem_wait v = (if v > 0 then (CSP_SEMAPHORE_OK, v - 1) else (CSP_SEMAPHORE_ERROR, v))"

section \<open>Header\<close>

abbreviation (input) RDP_SYN :: u8 where "RDP_SYN \<equiv> 0x08"
abbreviation (input) RDP_ACK :: u8 where "RDP_ACK \<equiv> 0x04"
abbreviation (input) RDP_EAK :: u8 where "RDP_EAK \<equiv> 0x02"
abbreviation (input) RDP_RST :: u8 where "RDP_RST \<equiv> 0x01"

text \<open>\<open>rdp_header_t\<close> is packed: flags, then the sequence number, then the acknowledgement.\<close>

abbreviation (input) RDP_HEADER_LEN :: nat where "RDP_HEADER_LEN \<equiv> 5"

definition csp_rdp_header_add :: "addr \<Rightarrow> 'd csp_state \<Rightarrow> bool \<times> 'd csp_state" where
  "csp_rdp_header_add p s =
     (let len = unat (pkt_length (pkt s p))
      in if len + RDP_HEADER_LEN > CSP_BUFFER_SIZE then (False, s)
         else (True, upd_pkt p (\<lambda>k. k\<lparr>pkt_length := pkt_length k + 5,
                 pkt_mem := mem_write (pkt_mem k) (DATA_OFF + len) (replicate RDP_HEADER_LEN 0)\<rparr>) s))"

text \<open>The offset of the header of a packet: \<^verbatim>\<open>&packet->data[packet->length - sizeof(*header)]\<close>.\<close>

definition csp_rdp_header_ref :: "csp_packet \<Rightarrow> nat" where
  "csp_rdp_header_ref k = DATA_OFF + unat (pkt_length k) - RDP_HEADER_LEN"

definition csp_rdp_header_remove :: "addr \<Rightarrow> 'd csp_state \<Rightarrow> 'd csp_state" where
  "csp_rdp_header_remove p s = upd_pkt p (\<lambda>k. k\<lparr>pkt_length := pkt_length k - 5\<rparr>) s"

text \<open>The fields as network order (\<open>be\<close>) and as the host reads them (\<open>he\<close>).\<close>

definition hdr_flags :: "csp_packet \<Rightarrow> u8" where
  "hdr_flags k = pkt_mem k (csp_rdp_header_ref k)"

definition hdr_seq_be :: "csp_packet \<Rightarrow> u16" where
  "hdr_seq_be k = be_word (mem_read (pkt_mem k) (csp_rdp_header_ref k + 1) 2)"

definition hdr_ack_be :: "csp_packet \<Rightarrow> u16" where
  "hdr_ack_be k = be_word (mem_read (pkt_mem k) (csp_rdp_header_ref k + 3) 2)"

definition hdr_seq_he :: "csp_packet \<Rightarrow> u16" where
  "hdr_seq_he k = le_word (mem_read (pkt_mem k) (csp_rdp_header_ref k + 1) 2)"

definition hdr_ack_he :: "csp_packet \<Rightarrow> u16" where
  "hdr_ack_he k = le_word (mem_read (pkt_mem k) (csp_rdp_header_ref k + 3) 2)"

definition set_hdr :: "nat \<Rightarrow> u8 list \<Rightarrow> csp_packet \<Rightarrow> csp_packet" where
  "set_hdr off bs k = k\<lparr>pkt_mem := mem_write (pkt_mem k) (csp_rdp_header_ref k + off) bs\<rparr>"

section \<open>Sequence numbers and times\<close>

definition csp_rdp_seq_between :: "u16 \<Rightarrow> u16 \<Rightarrow> u16 \<Rightarrow> bool" where
  "csp_rdp_seq_between sq start fin \<longleftrightarrow> fin - start \<ge> sq - start"

definition csp_rdp_seq_before :: "u16 \<Rightarrow> u16 \<Rightarrow> bool" where
  "csp_rdp_seq_before sq cmp \<longleftrightarrow> sint (sq - cmp) < 0"

definition csp_rdp_seq_after :: "u16 \<Rightarrow> u16 \<Rightarrow> bool" where
  "csp_rdp_seq_after sq cmp = csp_rdp_seq_before cmp sq"

definition csp_rdp_time_before :: "u32 \<Rightarrow> u32 \<Rightarrow> bool" where
  "csp_rdp_time_before time cmp \<longleftrightarrow> sint (time - cmp) < 0"

definition csp_rdp_time_after :: "u32 \<Rightarrow> u32 \<Rightarrow> bool" where
  "csp_rdp_time_after time cmp = csp_rdp_time_before cmp time"

section \<open>Control messages\<close>

abbreviation (input) CSP_PRIO_HIGH :: u8 where "CSP_PRIO_HIGH \<equiv> 1"

text \<open>The clone of a SYN for the retransmit queue; \<open>False\<close> when there is no buffer for it.\<close>

definition rdp_queue_syn :: "addr \<Rightarrow> addr \<Rightarrow> 'd csp_state \<Rightarrow> bool \<times> 'd csp_state" where
  "rdp_queue_syn c p s =
     (let (rdp_packet, s) = in_core (csp_buffer_clone (Some p)) s
      in case rdp_packet of
           None \<Rightarrow> (False, s)
         | Some q \<Rightarrow> (True, csp_rdp_queue_tx_add c q (upd_pkt q (\<lambda>k. k\<lparr>timestamp_tx := csp_ms (core s)\<rparr>) s)))"

text \<open>Filling in the header, with a counter that keeps equal messages apart.\<close>

definition rdp_cmp_header :: "addr \<Rightarrow> u8 \<Rightarrow> u16 \<Rightarrow> u16 \<Rightarrow> 'd csp_state \<Rightarrow> 'd csp_state" where
  "rdp_cmp_header p fl seq_nr ack_nr s =
     (let s = upd_pkt p (set_hdr 1 (be_bytes 2 seq_nr)) s;
          s = upd_pkt p (set_hdr 3 (be_bytes 2 ack_nr)) s;
          s = upd_pkt p (\<lambda>k. set_hdr 0 [hdr_flags k OR (push_bit 4 (csp_rdp_incr s) OR fl)] k) s
      in s\<lparr>csp_rdp_incr := csp_rdp_incr s + 1\<rparr>)"

text \<open>Control messages go out with high priority.\<close>

definition rdp_cmp_id :: "csp_id \<Rightarrow> csp_id" where
  "rdp_cmp_id ido = ido\<lparr>id_pri := (if id_pri ido < CSP_PRIO_HIGH then id_pri ido else CSP_PRIO_HIGH)\<rparr>"

text \<open>The part of \<^verbatim>\<open>csp_rdp_send_cmp\<close> after the packet is there.\<close>

definition rdp_send_cmp_packet ::
  "'d nexthop_fn \<Rightarrow> addr \<Rightarrow> addr \<Rightarrow> u8 \<Rightarrow> u16 \<Rightarrow> u16 \<Rightarrow> 'd csp_state \<Rightarrow> int \<times> 'd csp_state" where
  "rdp_send_cmp_packet nh c p fl seq_nr ack_nr s =
     (let s = (if fl AND RDP_ACK \<noteq> 0 then upd_rdp c (\<lambda>r. r\<lparr>rcv_lsa := ack_nr\<rparr>) s else s);
          s = upd_rdp c (\<lambda>r. r\<lparr>ack_timestamp := csp_ms (core s)\<rparr>) s;
          (ok, s) = csp_rdp_header_add p s
      in if \<not> ok then (CSP_ERR_NOMEM, free_pkt p s)
         else let s = rdp_cmp_header p fl seq_nr ack_nr s;
                  (queued, s) = (if fl AND RDP_SYN \<noteq> 0 then rdp_queue_syn c p s else (True, s))
              in if \<not> queued then (CSP_ERR_NOMEM, s)
                 else (CSP_ERR_NONE, csp_send_direct nh Id_local (rdp_cmp_id (idout (arr_conn s c))) p None s))"

definition csp_rdp_send_cmp ::
  "'d nexthop_fn \<Rightarrow> addr \<Rightarrow> addr option \<Rightarrow> u8 \<Rightarrow> u16 \<Rightarrow> u16 \<Rightarrow> 'd csp_state \<Rightarrow> int \<times> 'd csp_state" where
  "csp_rdp_send_cmp nh c pk fl seq_nr ack_nr s =
     (case pk of
        Some p \<Rightarrow> rdp_send_cmp_packet nh c p fl seq_nr ack_nr s
      | None \<Rightarrow>
          let (b, s) = in_core csp_buffer_get s
          in case b of
               None \<Rightarrow> (CSP_ERR_NOMEM, s)
             | Some p \<Rightarrow> rdp_send_cmp_packet nh c p fl seq_nr ack_nr (upd_pkt p (\<lambda>k. k\<lparr>pkt_length := 0\<rparr>) s))"

definition rdp_syn_options :: "'d csp_state \<Rightarrow> u8 list" where
  "rdp_syn_options s = be_bytes 4 (csp_rdp_window_size s) @ be_bytes 4 (csp_rdp_conn_timeout s)
     @ be_bytes 4 (csp_rdp_packet_timeout s) @ be_bytes 4 (csp_rdp_delayed_acks s)
     @ be_bytes 4 (csp_rdp_ack_timeout s) @ be_bytes 4 (csp_rdp_ack_delay_count s)"

definition csp_rdp_send_syn :: "'d nexthop_fn \<Rightarrow> addr \<Rightarrow> 'd csp_state \<Rightarrow> int \<times> 'd csp_state" where
  "csp_rdp_send_syn nh c s =
     (let (b, s) = in_core csp_buffer_get s
      in case b of
           None \<Rightarrow> (CSP_ERR_NOMEM, s)
         | Some p \<Rightarrow>
             let s = upd_pkt p (\<lambda>k. k\<lparr>pkt_mem := mem_write (pkt_mem k) DATA_OFF (rdp_syn_options s), pkt_length := 6 * 4\<rparr>) s
             in csp_rdp_send_cmp nh c (Some p) RDP_SYN (snd_iss (rdp (arr_conn s c))) 0 s)"

section \<open>Closing\<close>

abbreviation (input) CSP_RDP_CLOSED_BY_USERSPACE :: u8 where "CSP_RDP_CLOSED_BY_USERSPACE \<equiv> 0x01"
abbreviation (input) CSP_RDP_CLOSED_BY_PROTOCOL :: u8 where "CSP_RDP_CLOSED_BY_PROTOCOL \<equiv> 0x02"
abbreviation (input) CSP_RDP_CLOSED_BY_TIMEOUT :: u8 where "CSP_RDP_CLOSED_BY_TIMEOUT \<equiv> 0x04"
abbreviation (input) CSP_RDP_CLOSED_BY_ALL :: u8 where "CSP_RDP_CLOSED_BY_ALL \<equiv> 0x07"

definition rdp_post :: "addr \<Rightarrow> 'd csp_state \<Rightarrow> 'd csp_state" where
  "rdp_post c s = upd_rdp c (\<lambda>r. r\<lparr>tx_wait := snd (csp_bin_sem_post (tx_wait r))\<rparr>) s"

text \<open>The step to \<^verbatim>\<open>CLOSE_WAIT\<close>.\<close>

definition rdp_close_wait :: "'d nexthop_fn \<Rightarrow> addr \<Rightarrow> bool \<Rightarrow> 'd csp_state \<Rightarrow> 'd csp_state" where
  "rdp_close_wait nh c send_rst s =
     (let s = upd_rdp c (\<lambda>r. r\<lparr>rdp_state := RDP_CLOSE_WAIT\<rparr>) s;
          s = upd_conn c (\<lambda>k. k\<lparr>conn_timestamp := csp_ms (core s)\<rparr>) s;
          r = rdp (arr_conn s c);
          s = (if send_rst then snd (csp_rdp_send_cmp nh c None (RDP_ACK OR RDP_RST) (snd_nxt r) (rcv_cur r) s) else s)
      in rdp_post c s)"

definition csp_rdp_close_internal :: "'d nexthop_fn \<Rightarrow> addr \<Rightarrow> u8 \<Rightarrow> bool \<Rightarrow> 'd csp_state \<Rightarrow> int \<times> 'd csp_state" where
  "csp_rdp_close_internal nh c by send_rst s =
     (if rdp_state (rdp (arr_conn s c)) = RDP_CLOSED then (CSP_ERR_NONE, s)
      else let s = upd_rdp c (\<lambda>r. r\<lparr>closed_by := closed_by r OR by\<rparr>) s;
               s = (if rdp_state (rdp (arr_conn s c)) \<noteq> RDP_CLOSE_WAIT then rdp_close_wait nh c send_rst s else s)
           in if closed_by (rdp (arr_conn s c)) \<noteq> CSP_RDP_CLOSED_BY_ALL then (CSP_ERR_AGAIN, s)
              else (CSP_ERR_NONE, upd_rdp c (\<lambda>r. r\<lparr>rdp_state := RDP_CLOSED, closed_by := 0\<rparr>) s))"

definition csp_rdp_close :: "'d nexthop_fn \<Rightarrow> addr \<Rightarrow> u8 \<Rightarrow> 'd csp_state \<Rightarrow> int \<times> 'd csp_state" where
  "csp_rdp_close nh c by s = csp_rdp_close_internal nh c by True s"

section \<open>Options\<close>

definition csp_rdp_init :: "addr \<Rightarrow> 'd csp_state \<Rightarrow> 'd csp_state" where
  "csp_rdp_init c s = upd_rdp c (\<lambda>r. r\<lparr>rdp_state := RDP_CLOSED, closed_by := 0,
     conn_timeout := csp_rdp_conn_timeout s, packet_timeout := csp_rdp_packet_timeout s, tx_wait := csp_bin_sem_init\<rparr>) s"

definition csp_rdp_set_opt :: "u32 \<Rightarrow> u32 \<Rightarrow> u32 \<Rightarrow> u32 \<Rightarrow> u32 \<Rightarrow> u32 \<Rightarrow> 'd csp_state \<Rightarrow> 'd csp_state" where
  "csp_rdp_set_opt window_sz conn_timeout_ms packet_timeout_ms del_acks ack_to ack_delay s =
     s\<lparr>csp_rdp_window_size := window_sz, csp_rdp_conn_timeout := conn_timeout_ms,
       csp_rdp_packet_timeout := packet_timeout_ms, csp_rdp_delayed_acks := del_acks,
       csp_rdp_ack_timeout := ack_to, csp_rdp_ack_delay_count := ack_delay\<rparr>"

text \<open>The values written through the six pointers, for those that are not \<^verbatim>\<open>NULL\<close>.\<close>

definition csp_rdp_get_opt :: "'d csp_state \<Rightarrow> u32 \<times> u32 \<times> u32 \<times> u32 \<times> u32 \<times> u32" where
  "csp_rdp_get_opt s = (csp_rdp_window_size s, csp_rdp_conn_timeout s, csp_rdp_packet_timeout s,
     csp_rdp_delayed_acks s, csp_rdp_ack_timeout s, csp_rdp_ack_delay_count s)"

definition csp_rdp_conn_is_active :: "addr \<Rightarrow> 'd csp_state \<Rightarrow> bool" where
  "csp_rdp_conn_is_active c s =
     (let k = arr_conn s c;
          active = (if csp_rdp_time_after (csp_ms (core s)) (conn_timestamp k + conn_timeout (rdp k)) then False else True)
      in if rdp_state (rdp k) = RDP_CLOSE_WAIT \<or> rdp_state (rdp k) = RDP_CLOSED then False else active)"

section \<open>Frames\<close>

text \<open>
  What sending a control message leaves alone: of the connections only the last
  acknowledgement and its time change, and the receive queue, the sockets and the
  configuration stay.
\<close>

definition cmp_frame :: "addr \<Rightarrow> 'd csp_state \<Rightarrow> 'd csp_state \<Rightarrow> bool" where
  "cmp_frame c s s' \<longleftrightarrow> (\<exists>a b. arr_conn s' = (arr_conn s)(c := (arr_conn s c)\<lparr>rdp := (rdp (arr_conn s c))\<lparr>rcv_lsa := a, ack_timestamp := b\<rparr>\<rparr>))
     \<and> sockets s' = sockets s \<and> ports s' = ports s \<and> rdp_rx_queue s' = rdp_rx_queue s
     \<and> csp_conf (core s') = csp_conf (core s) \<and> csp_ms (core s') = csp_ms (core s)"

lemma cmp_frameD:
  assumes "cmp_frame c s s'"
  shows "j \<noteq> c \<Longrightarrow> arr_conn s' j = arr_conn s j" "conn_rx_queue (arr_conn s' j) = conn_rx_queue (arr_conn s j)"
    "rdp_state (rdp (arr_conn s' j)) = rdp_state (rdp (arr_conn s j))" "closed_by (rdp (arr_conn s' j)) = closed_by (rdp (arr_conn s j))"
    "snd_nxt (rdp (arr_conn s' j)) = snd_nxt (rdp (arr_conn s j))" "snd_una (rdp (arr_conn s' j)) = snd_una (rdp (arr_conn s j))"
    "rcv_cur (rdp (arr_conn s' j)) = rcv_cur (rdp (arr_conn s j))" "dest_socket (arr_conn s' j) = dest_socket (arr_conn s j)"
    "conn_state (arr_conn s' j) = conn_state (arr_conn s j)" "tx_wait (rdp (arr_conn s' j)) = tx_wait (rdp (arr_conn s j))"
    "idin (arr_conn s' j) = idin (arr_conn s j)" "idout (arr_conn s' j) = idout (arr_conn s j)"
    "conn_timestamp (arr_conn s' j) = conn_timestamp (arr_conn s j)"
    "window_size (rdp (arr_conn s' j)) = window_size (rdp (arr_conn s j))"
    "sockets s' = sockets s" "ports s' = ports s" "rdp_rx_queue s' = rdp_rx_queue s" "csp_ms (core s') = csp_ms (core s)"
    "csp_conf (core s') = csp_conf (core s)"
  using assms by (auto simp: cmp_frame_def)

lemma cmp_frame_refl [simp]: "cmp_frame c s s"
  unfolding cmp_frame_def
  by (intro conjI exI [of _ "rcv_lsa (rdp (arr_conn s c))"] exI [of _ "ack_timestamp (rdp (arr_conn s c))"]) simp_all

lemma cmp_frame_trans: "cmp_frame c a b \<Longrightarrow> cmp_frame c b d \<Longrightarrow> cmp_frame c a d"
  unfolding cmp_frame_def by (clarsimp, metis)

lemma pkts_kept_upd_rdp [simp]:
  "pkts_kept P s (upd_rdp c h s') = pkts_kept P s s'" "pkts_kept P (upd_rdp c h s) s' = pkts_kept P s s'"
  by (simp_all add: upd_rdp_def)

lemma cmp_frame_acks [simp]:
  "cmp_frame c s (upd_rdp c (\<lambda>r. r\<lparr>rcv_lsa := a\<rparr>) s)" "cmp_frame c s (upd_rdp c (\<lambda>r. r\<lparr>ack_timestamp := b\<rparr>) s)"
  "cmp_frame c s (upd_pkt p g s)" "cmp_frame c s (s\<lparr>csp_rdp_incr := n\<rparr>)" "cmp_frame c s (free_pkt p s)"
proof -
  show "cmp_frame c s (upd_rdp c (\<lambda>r. r\<lparr>rcv_lsa := a\<rparr>) s)"
    unfolding cmp_frame_def upd_rdp_def upd_conn_def
    by (intro conjI exI [of _ a] exI [of _ "ack_timestamp (rdp (arr_conn s c))"]) (cases "arr_conn s c"; simp)+
  show "cmp_frame c s (upd_rdp c (\<lambda>r. r\<lparr>ack_timestamp := b\<rparr>) s)"
    unfolding cmp_frame_def upd_rdp_def upd_conn_def
    by (intro conjI exI [of _ "rcv_lsa (rdp (arr_conn s c))"] exI [of _ b]) (cases "arr_conn s c"; simp)+
  have "cmp_frame c s t" if "arr_conn t = arr_conn s" "sockets t = sockets s" "ports t = ports s" "rdp_rx_queue t = rdp_rx_queue s"
      "csp_conf (core t) = csp_conf (core s)" "csp_ms (core t) = csp_ms (core s)" for t
    using cmp_frame_refl [of c s] that unfolding cmp_frame_def by simp
  then show "cmp_frame c s (upd_pkt p g s)" "cmp_frame c s (s\<lparr>csp_rdp_incr := n\<rparr>)" "cmp_frame c s (free_pkt p s)"
    by (simp_all add: upd_pkt_def on_core_def free_pkt_def)
qed

lemma cmp_frame_eq:
  "arr_conn s' = arr_conn s \<Longrightarrow> sockets s' = sockets s \<Longrightarrow> ports s' = ports s \<Longrightarrow> rdp_rx_queue s' = rdp_rx_queue s
     \<Longrightarrow> csp_conf (core s') = csp_conf (core s) \<Longrightarrow> csp_ms (core s') = csp_ms (core s) \<Longrightarrow> cmp_frame c s s'"
  using cmp_frame_refl [of c s] unfolding cmp_frame_def by simp

lemma cmp_frame_tx: "ptr_frame Id_local s s' \<Longrightarrow> cmp_frame c s s'"
proof -
  assume fr: "ptr_frame Id_local s s'"
  then have "arr_conn s' = arr_conn s" by (auto simp: ptr_frame_def)
  with fr tx_frameD [of "s\<lparr>arr_conn := arr_conn s'\<rparr>" s'] show ?thesis
    by (intro cmp_frame_eq) (simp_all add: ptr_frame_def)
qed

lemma cmp_frame_queue:
  "rdp_frame s s' \<Longrightarrow> rdp_rx_queue s' = rdp_rx_queue s \<Longrightarrow> cmp_frame c s s'"
proof -
  assume fr: "rdp_frame s s'" and rx: "rdp_rx_queue s' = rdp_rx_queue s"
  let ?t = "s\<lparr>core := core s', rdp_tx_queue := rdp_tx_queue s', rdp_rx_queue := rdp_rx_queue s'\<rparr>"
  have eq: "s' = ?t" and co: "conn_only (core s) (core s')" using fr by (simp_all add: rdp_frame_def)
  have "arr_conn s' = arr_conn s" using arg_cong [OF eq, of arr_conn] by simp
  moreover have "sockets s' = sockets s" using arg_cong [OF eq, of sockets] by simp
  moreover have "ports s' = ports s" using arg_cong [OF eq, of ports] by simp
  ultimately show ?thesis using co rx by (intro cmp_frame_eq) (simp_all add: conn_only_def)
qed

lemma upd_pkt_id [simp]: "upd_pkt p (\<lambda>k. k) s = s"
  by (cases s, cases "core s", cases "csp_buffer_pool (core s) p")
    (simp add: upd_pkt_def on_core_def upd_packet_def upd_skbf_def fun_upd_idem_iff)

lemma header_add_upd: "csp_rdp_header_add p s = (ok, s') \<Longrightarrow> \<exists>g. s' = upd_pkt p g s"
  by (auto simp: csp_rdp_header_add_def Let_def split: if_splits intro: exI [of _ "\<lambda>k. k"])

text \<open>Closing also changes the RDP state, its time stamp and the semaphore.\<close>

definition close_frame :: "addr \<Rightarrow> 'd csp_state \<Rightarrow> 'd csp_state \<Rightarrow> bool" where
  "close_frame c s s' \<longleftrightarrow> (\<forall>j. j \<noteq> c \<longrightarrow> arr_conn s' j = arr_conn s j)
     \<and> conn_rx_queue (arr_conn s' c) = conn_rx_queue (arr_conn s c) \<and> dest_socket (arr_conn s' c) = dest_socket (arr_conn s c)
     \<and> conn_state (arr_conn s' c) = conn_state (arr_conn s c) \<and> conn_type (arr_conn s' c) = conn_type (arr_conn s c)
     \<and> idin (arr_conn s' c) = idin (arr_conn s c) \<and> idout (arr_conn s' c) = idout (arr_conn s c)
     \<and> rcv_cur (rdp (arr_conn s' c)) = rcv_cur (rdp (arr_conn s c)) \<and> snd_nxt (rdp (arr_conn s' c)) = snd_nxt (rdp (arr_conn s c))
     \<and> sport_outgoing (arr_conn s' c) = sport_outgoing (arr_conn s c)
     \<and> sockets s' = sockets s \<and> ports s' = ports s \<and> rdp_rx_queue s' = rdp_rx_queue s
     \<and> csp_conf (core s') = csp_conf (core s) \<and> csp_ms (core s') = csp_ms (core s)"

lemma close_frame_refl [simp]: "close_frame c s s"
  by (simp add: close_frame_def)

lemma close_frame_trans: "close_frame c a b \<Longrightarrow> close_frame c b d \<Longrightarrow> close_frame c a d"
  by (simp add: close_frame_def)

lemma cmp_close_frame: "cmp_frame c s s' \<Longrightarrow> close_frame c s s'"
  by (auto simp: cmp_frame_def close_frame_def)

lemma get_frames:
  assumes own: "own dh f s" and get: "in_core csp_buffer_get s = (r, s')"
  shows "own dh (otok r f) s'" "tx_frame s s'" "pkts_kept {} s s'" "r = Some c \<Longrightarrow> buf_refs (core s) c = 0"
proof -
  have g: "csp_buffer_get_actual 2 False (core s) = (r, core s')" and s': "s' = s\<lparr>core := core s'\<rparr>"
    using get by (auto simp: in_core_def csp_buffer_get_def)
  have inv: "buf_inv (core s)" using own by (simp add: own_def)
  note pool = get_actual_pool [OF inv g] and kept = get_actual_core [OF g]
  show "own dh (otok r f) s'" by (rule own_get [OF own get])
  show "tx_frame s s'" by (subst s') (rule tx_frame_core; simp add: kept)
  show "r = Some c \<Longrightarrow> buf_refs (core s) c = 0" using pool by auto
  show "pkts_kept {} s s'" using pool kept(3) by (cases r) (auto simp: pkts_kept_def)
qed

section \<open>Accounting\<close>

lemma own_queue_syn:
  assumes own: "own dh (tok p f) s" and run: "rdp_queue_syn c p s = (ok, s')"
  shows "own dh (tok p f) s'" "cmp_frame c s s'"
proof -
  obtain r s1 where clone: "in_core (csp_buffer_clone (Some p)) s = (r, s1)" by fastforce
  note own1 = own_clone [OF own clone]
  have fr1: "cmp_frame c s s1"
    using tx_ptr_frame [OF clone_frames(2) [OF own clone]] by (rule cmp_frame_tx)
  have "own dh (tok p f) s' \<and> cmp_frame c s s'"
  proof (cases r)
    case None
    with run clone own1 fr1 show ?thesis by (simp add: rdp_queue_syn_def)
  next
    case (Some q)
    let ?s2 = "upd_pkt q (\<lambda>k. k\<lparr>timestamp_tx := csp_ms (core s1)\<rparr>) s1"
    have own2: "own dh (tok q (tok p f)) ?s2" using own1 Some by simp
    have s': "s' = csp_rdp_queue_tx_add c q ?s2" using run clone Some by (simp add: rdp_queue_syn_def)
    have "cmp_frame c ?s2 s'"
      using rdp_tx_add(2) [OF own2, of c] unfolding s'
      by (rule cmp_frame_queue) (simp add: csp_rdp_queue_tx_add_def split_beta)
    with rdp_tx_add(1) [OF own2, of c] cmp_frame_trans [OF fr1 cmp_frame_acks(3)] show ?thesis
      unfolding s' by (blast intro: cmp_frame_trans)
  qed
  then show "own dh (tok p f) s'" "cmp_frame c s s'" by simp_all
qed

context nexthop_contract
begin

lemma send_cmp_packet_contract:
  assumes own: "own dh (tok p f) s" and run: "rdp_send_cmp_packet nh c p fl sq ak s = (r, s')"
  shows "own dh f s' \<or> (fl AND RDP_SYN \<noteq> 0 \<and> r = CSP_ERR_NOMEM \<and> own dh (tok p f) s')" "cmp_frame c s s'"
    "fl AND RDP_SYN = 0 \<Longrightarrow> pkts_kept {p} s s'"
proof -
  define s0 where "s0 = upd_rdp c (\<lambda>r. r\<lparr>ack_timestamp := csp_ms (core s)\<rparr>)
      (if fl AND RDP_ACK \<noteq> 0 then upd_rdp c (\<lambda>r. r\<lparr>rcv_lsa := ak\<rparr>) s else s)"
  have ms: "csp_ms (core (if fl AND RDP_ACK \<noteq> 0 then upd_rdp c (\<lambda>r. r\<lparr>rcv_lsa := ak\<rparr>) s else s)) = csp_ms (core s)"
    by (simp add: upd_rdp_def upd_conn_def)
  have zero: "own dh (tok p f) s0" "cmp_frame c s s0" "pkts_kept {p} s s0"
    unfolding s0_def using own cmp_frame_trans [OF cmp_frame_acks(1) cmp_frame_acks(2), of c s _ ak]
    by simp_all
  obtain ok s1 where add: "csp_rdp_header_add p s0 = (ok, s1)" by fastforce
  then obtain g where s1: "s1 = upd_pkt p g s0" using header_add_upd by blast
  have one: "own dh (tok p f) s1" "cmp_frame c s s1" "pkts_kept {p} s s1"
    using zero unfolding s1 by (auto intro: cmp_frame_trans pkts_kept_trans)
  define s2 where "s2 = rdp_cmp_header p fl sq ak s1"
  obtain h n where s2: "s2 = (upd_pkt p h s1)\<lparr>csp_rdp_incr := n\<rparr>"
    by (simp add: s2_def rdp_cmp_header_def Let_def upd_pkt_def on_core_def)
  have two: "own dh (tok p f) s2" "cmp_frame c s s2" "pkts_kept {p} s s2"
    unfolding s2 using one cmp_frame_trans [OF cmp_frame_trans [OF one(2) cmp_frame_acks(3)] cmp_frame_acks(4)]
      pkts_kept_trans [OF one(3) pkts_kept_upd_pkt [of p "{p}"]]
    by (simp_all add: pkts_kept_def)
  obtain q s3 where q: "(if fl AND RDP_SYN \<noteq> 0 then rdp_queue_syn c p s2 else (True, s2)) = (q, s3)" by fastforce
  have three: "own dh (tok p f) s3" "cmp_frame c s s3" "fl AND RDP_SYN = 0 \<Longrightarrow> s3 = s2 \<and> q"
    using q two own_queue_syn [OF two(1), of c q s3] by (auto split: if_splits intro: cmp_frame_trans)
  have run': "(r, s') = (if \<not> ok then (CSP_ERR_NOMEM, free_pkt p s1) else if \<not> q then (CSP_ERR_NOMEM, s3)
      else (CSP_ERR_NONE, csp_send_direct nh Id_local (rdp_cmp_id (idout (arr_conn s3 c))) p None s3))"
    using run add q ms unfolding rdp_send_cmp_packet_def s0_def s2_def by (simp add: Let_def split: if_splits)
  note snd = send_direct_contract [OF three(1), of Id_local _ None]
  show "own dh f s' \<or> (fl AND RDP_SYN \<noteq> 0 \<and> r = CSP_ERR_NOMEM \<and> own dh (tok p f) s')"
    using run' own_free [OF one(1)] three snd by (auto split: if_splits)
  show "cmp_frame c s s'"
    using run' one(2) three(2) snd by (auto split: if_splits intro: cmp_frame_trans cmp_frame_tx)
  show "pkts_kept {p} s s'" if "fl AND RDP_SYN = 0"
    using run' pkts_kept_trans [OF one(3) pkts_kept_free [OF one(1)]] three(3) [OF that] two(3) snd that
    by (auto split: if_splits intro: pkts_kept_trans)
qed

lemma send_cmp_contract:
  assumes own: "own dh f s" and run: "csp_rdp_send_cmp nh c None fl sq ak s = (r, s')"
  shows "own dh f s' \<or> (fl AND RDP_SYN \<noteq> 0 \<and> r = CSP_ERR_NOMEM \<and> (\<exists>p. buf_refs (core s) p = 0 \<and> own dh (tok p f) s'))" "cmp_frame c s s'"
    "fl AND RDP_SYN = 0 \<Longrightarrow> pkts_kept {} s s'"
proof -
  obtain b s1 where get: "in_core csp_buffer_get s = (b, s1)" by fastforce
  note own1 = get_frames [OF own get]
  have fr1: "cmp_frame c s s1" using tx_ptr_frame [OF own1(2)] by (rule cmp_frame_tx)
  have all: "(own dh f s' \<or> (fl AND RDP_SYN \<noteq> 0 \<and> r = CSP_ERR_NOMEM \<and> (\<exists>p. buf_refs (core s) p = 0 \<and> own dh (tok p f) s'))) \<and> cmp_frame c s s'
    \<and> (fl AND RDP_SYN = 0 \<longrightarrow> pkts_kept {} s s')"
  proof (cases b)
    case None
    with run get own1 fr1 show ?thesis by (simp add: csp_rdp_send_cmp_def)
  next
    case (Some p)
    let ?s2 = "upd_pkt p (\<lambda>k. k\<lparr>pkt_length := 0\<rparr>) s1"
    have two: "own dh (tok p f) ?s2" "cmp_frame c s ?s2" "pkts_kept {p} s1 ?s2"
      using own1(1) Some cmp_frame_trans [OF fr1 cmp_frame_acks(3)] by simp_all
    have run2: "rdp_send_cmp_packet nh c p fl sq ak ?s2 = (r, s')"
      using run get Some by (simp add: csp_rdp_send_cmp_def)
    note cmp = send_cmp_packet_contract [OF two(1) run2]
    have "pkts_kept {} s s'" if "fl AND RDP_SYN = 0"
      using pkts_kept_fresh [OF own1(3) pkts_kept_trans [OF two(3) cmp(3) [OF that]]] own1(4) Some by simp
    moreover have "buf_refs (core s) p = 0" using own1(4) Some by simp
    ultimately show ?thesis using cmp(1) cmp_frame_trans [OF two(2) cmp(2)] by blast
  qed
  show "own dh f s' \<or> (fl AND RDP_SYN \<noteq> 0 \<and> r = CSP_ERR_NOMEM \<and> (\<exists>p. buf_refs (core s) p = 0 \<and> own dh (tok p f) s'))" using all by blast
  show "cmp_frame c s s'" using all by blast
  show "fl AND RDP_SYN = 0 \<Longrightarrow> pkts_kept {} s s'" using all by blast
qed

text \<open>A control message without SYN keeps the accounting exact.\<close>

lemma send_cmp_exact:
  assumes "own dh f s" "fl AND RDP_SYN = 0" "s' = snd (csp_rdp_send_cmp nh c None fl sq ak s)"
  shows "own dh f s'" "cmp_frame c s s'" "pkts_kept {} s s'"
  using send_cmp_contract [OF assms(1), of c fl sq ak "fst (csp_rdp_send_cmp nh c None fl sq ak s)" s'] assms(2,3) by auto

lemma send_syn_contract:
  assumes own: "own dh f s" and run: "csp_rdp_send_syn nh c s = (r, s')"
  shows "own dh f s' \<or> (r = CSP_ERR_NOMEM \<and> (\<exists>p. own dh (tok p f) s'))" "cmp_frame c s s'"
proof -
  obtain b s1 where get: "in_core csp_buffer_get s = (b, s1)" by fastforce
  note own1 = get_frames [OF own get]
  have fr1: "cmp_frame c s s1" using tx_ptr_frame [OF own1(2)] by (rule cmp_frame_tx)
  have "(own dh f s' \<or> (r = CSP_ERR_NOMEM \<and> (\<exists>p. own dh (tok p f) s'))) \<and> cmp_frame c s s'"
  proof (cases b)
    case None
    with run get own1 fr1 show ?thesis by (simp add: csp_rdp_send_syn_def)
  next
    case (Some p)
    let ?s2 = "upd_pkt p (\<lambda>k. k\<lparr>pkt_mem := mem_write (pkt_mem k) DATA_OFF (rdp_syn_options s1), pkt_length := 6 * 4\<rparr>) s1"
    have two: "own dh (tok p f) ?s2" "cmp_frame c s ?s2"
      using own1(1) Some cmp_frame_trans [OF fr1 cmp_frame_acks(3)] by simp_all
    have run2: "rdp_send_cmp_packet nh c p RDP_SYN (snd_iss (rdp (arr_conn ?s2 c))) 0 ?s2 = (r, s')"
      using run get Some by (simp add: csp_rdp_send_syn_def csp_rdp_send_cmp_def Let_def)
    note cmp = send_cmp_packet_contract [OF two(1) run2]
    show ?thesis using cmp(1) cmp_frame_trans [OF two(2) cmp(2)] by blast
  qed
  then show "own dh f s' \<or> (r = CSP_ERR_NOMEM \<and> (\<exists>p. own dh (tok p f) s'))" "cmp_frame c s s'" by simp_all
qed

lemma close_wait_contract:
  assumes own: "own dh f s"
  shows "own dh f (rdp_close_wait nh c rst s)" "pkts_kept {} s (rdp_close_wait nh c rst s)"
    "rdp_state (rdp (arr_conn (rdp_close_wait nh c rst s) c)) = RDP_CLOSE_WAIT"
    "close_frame c s (rdp_close_wait nh c rst s)"
    "closed_by (rdp (arr_conn (rdp_close_wait nh c rst s) c)) = closed_by (rdp (arr_conn s c))"
proof -
  define s1 where "s1 = upd_conn c (\<lambda>k. k\<lparr>conn_timestamp := csp_ms (core (upd_rdp c (\<lambda>r. r\<lparr>rdp_state := RDP_CLOSE_WAIT\<rparr>) s))\<rparr>)
    (upd_rdp c (\<lambda>r. r\<lparr>rdp_state := RDP_CLOSE_WAIT\<rparr>) s)"
  define s2 where "s2 = (if rst then snd (csp_rdp_send_cmp nh c None (RDP_ACK OR RDP_RST) (snd_nxt (rdp (arr_conn s1 c)))
      (rcv_cur (rdp (arr_conn s1 c))) s1) else s1)"
  have run: "rdp_close_wait nh c rst s = rdp_post c s2"
    by (simp add: rdp_close_wait_def s1_def s2_def Let_def)
  have one: "own dh f s1" "pkts_kept {} s s1" using own by (simp_all add: s1_def)
  have close1: "close_frame c s s1" by (simp add: s1_def close_frame_def upd_rdp_def upd_conn_def)
  have two: "own dh f s2" "pkts_kept {} s1 s2" "cmp_frame c s1 s2"
    using one(1) send_cmp_exact [OF one(1), of "RDP_ACK OR RDP_RST"] by (simp_all add: s2_def)
  show "own dh f (rdp_close_wait nh c rst s)" using two(1) by (simp add: run rdp_post_def)
  show "pkts_kept {} s (rdp_close_wait nh c rst s)"
    using pkts_kept_trans [OF one(2) two(2)] by (simp add: run rdp_post_def)
  have "close_frame c s s2" using close_frame_trans [OF close1 cmp_close_frame [OF two(3)]] .
  then show "close_frame c s (rdp_close_wait nh c rst s)"
    by (auto simp: run rdp_post_def close_frame_def upd_rdp_def upd_conn_def)
  show "rdp_state (rdp (arr_conn (rdp_close_wait nh c rst s) c)) = RDP_CLOSE_WAIT"
    "closed_by (rdp (arr_conn (rdp_close_wait nh c rst s) c)) = closed_by (rdp (arr_conn s c))"
    using cmp_frameD(3,4) [OF two(3), of c] by (simp_all add: run rdp_post_def upd_rdp_def upd_conn_def s1_def)
qed

lemma close_internal_contract:
  assumes own: "own dh f s" and run: "csp_rdp_close_internal nh c by rst s = (r, s')"
  shows "own dh f s'" "pkts_kept {} s s'" "close_frame c s s'"
    "rdp_state (rdp (arr_conn s c)) = RDP_CLOSED \<Longrightarrow> r = CSP_ERR_NONE \<and> s' = s"
    "rdp_state (rdp (arr_conn s c)) \<noteq> RDP_CLOSED \<Longrightarrow> closed_by (rdp (arr_conn s c)) OR by = CSP_RDP_CLOSED_BY_ALL
       \<Longrightarrow> r = CSP_ERR_NONE \<and> rdp_state (rdp (arr_conn s' c)) = RDP_CLOSED \<and> closed_by (rdp (arr_conn s' c)) = 0"
    "rdp_state (rdp (arr_conn s c)) \<noteq> RDP_CLOSED \<Longrightarrow> closed_by (rdp (arr_conn s c)) OR by \<noteq> CSP_RDP_CLOSED_BY_ALL
       \<Longrightarrow> r = CSP_ERR_AGAIN \<and> rdp_state (rdp (arr_conn s' c)) = RDP_CLOSE_WAIT
         \<and> closed_by (rdp (arr_conn s' c)) = closed_by (rdp (arr_conn s c)) OR by"
proof -
  define s1 where "s1 = upd_rdp c (\<lambda>r. r\<lparr>closed_by := closed_by r OR by\<rparr>) s"
  define s2 where "s2 = (if rdp_state (rdp (arr_conn s1 c)) \<noteq> RDP_CLOSE_WAIT then rdp_close_wait nh c rst s1 else s1)"
  have one: "own dh f s1" "pkts_kept {} s s1" using own by (simp_all add: s1_def)
  have fr1: "close_frame c s s1" "closed_by (rdp (arr_conn s1 c)) = closed_by (rdp (arr_conn s c)) OR by"
    by (simp_all add: s1_def close_frame_def upd_rdp_def upd_conn_def)
  note cw = close_wait_contract [OF one(1), of c rst]
  have two: "own dh f s2" "pkts_kept {} s s2" "close_frame c s s2" "rdp_state (rdp (arr_conn s2 c)) = RDP_CLOSE_WAIT"
      "closed_by (rdp (arr_conn s2 c)) = closed_by (rdp (arr_conn s c)) OR by"
    using cw one fr1 by (auto simp: s2_def intro: pkts_kept_trans close_frame_trans)
  have res: "(r, s') = (if rdp_state (rdp (arr_conn s c)) = RDP_CLOSED then (CSP_ERR_NONE, s)
      else if closed_by (rdp (arr_conn s2 c)) \<noteq> CSP_RDP_CLOSED_BY_ALL then (CSP_ERR_AGAIN, s2)
      else (CSP_ERR_NONE, upd_rdp c (\<lambda>r. r\<lparr>rdp_state := RDP_CLOSED, closed_by := 0\<rparr>) s2))"
    unfolding run [symmetric] csp_rdp_close_internal_def s1_def s2_def Let_def by (rule refl)
  show "own dh f s'" "pkts_kept {} s s'" using res own two by (auto split: if_splits)
  have "close_frame c s (upd_rdp c (\<lambda>r. r\<lparr>rdp_state := RDP_CLOSED, closed_by := 0\<rparr>) s2)"
    using two(3) by (auto simp: close_frame_def upd_rdp_def upd_conn_def)
  then show "close_frame c s s'" using res two(3) by (auto split: if_splits)
  show "rdp_state (rdp (arr_conn s c)) = RDP_CLOSED \<Longrightarrow> r = CSP_ERR_NONE \<and> s' = s" using res by simp
  show "rdp_state (rdp (arr_conn s c)) \<noteq> RDP_CLOSED \<Longrightarrow> closed_by (rdp (arr_conn s c)) OR by = CSP_RDP_CLOSED_BY_ALL
       \<Longrightarrow> r = CSP_ERR_NONE \<and> rdp_state (rdp (arr_conn s' c)) = RDP_CLOSED \<and> closed_by (rdp (arr_conn s' c)) = 0"
    using res two(5) by (simp add: upd_rdp_def upd_conn_def)
  show "rdp_state (rdp (arr_conn s c)) \<noteq> RDP_CLOSED \<Longrightarrow> closed_by (rdp (arr_conn s c)) OR by \<noteq> CSP_RDP_CLOSED_BY_ALL
       \<Longrightarrow> r = CSP_ERR_AGAIN \<and> rdp_state (rdp (arr_conn s' c)) = RDP_CLOSE_WAIT
         \<and> closed_by (rdp (arr_conn s' c)) = closed_by (rdp (arr_conn s c)) OR by"
    using res two(4,5) by simp
qed

end

section \<open>Wrapping numbers and headers\<close>

lemma unat_bound: "unat w < 2 ^ LENGTH('a)" for w :: "'a::len word"
  by (rule unsigned_less)

lemma seq_between_iff: "csp_rdp_seq_between sq a (a + n) \<longleftrightarrow> (\<exists>i\<le>unat n. sq = a + of_nat i)"
proof
  assume "csp_rdp_seq_between sq a (a + n)"
  then have "unat (sq - a) \<le> unat n" by (simp add: csp_rdp_seq_between_def word_le_nat_alt)
  moreover have "sq = a + of_nat (unat (sq - a))" by simp
  ultimately show "\<exists>i\<le>unat n. sq = a + of_nat i" by blast
next
  assume "\<exists>i\<le>unat n. sq = a + of_nat i"
  then obtain i where i: "i \<le> unat n" "sq = a + of_nat i" by blast
  then have "i < 2 ^ LENGTH(16)" using unat_bound [of n] by simp
  with i show "csp_rdp_seq_between sq a (a + n)"
    by (simp add: csp_rdp_seq_between_def word_le_nat_alt unat_of_nat_small)
qed

lemma div_one: "b \<le> n \<Longrightarrow> n < 2 * b \<Longrightarrow> n div b = (1 :: nat)"
  by (intro div_nat_eqI) simp_all

lemma sint_neg_iff: "sint (w :: 'a::len word) < 0 \<longleftrightarrow> 2 ^ (LENGTH('a) - 1) \<le> unat w"
proof -
  have "sint w < 0 \<longleftrightarrow> bit w (LENGTH('a) - 1)"
    by (simp add: bit_last_iff)
  also have "\<dots> \<longleftrightarrow> 2 ^ (LENGTH('a) - 1) \<le> unat w"
  proof -
    have lt: "unat w < 2 ^ Suc (LENGTH('a) - 1)" using unat_bound [of w] by simp
    have "bit w (LENGTH('a) - 1) \<longleftrightarrow> odd (unat w div 2 ^ (LENGTH('a) - 1))"
      by (metis bit_iff_odd bit_unsigned_iff of_nat_0_less_iff possible_bit_nat)
    also have "\<dots> \<longleftrightarrow> 2 ^ (LENGTH('a) - 1) \<le> unat w"
    proof (cases "2 ^ (LENGTH('a) - 1) \<le> unat w")
      case True
      then have "unat w div 2 ^ (LENGTH('a) - 1) = 1"
        using lt [unfolded power_Suc] div_one by blast
      with True show ?thesis by simp
    qed simp
    finally show ?thesis .
  qed
  finally show ?thesis .
qed

lemma seq_before_iff: "csp_rdp_seq_before sq cmp \<longleftrightarrow> (\<exists>d. 0 < d \<and> d \<le> 2 ^ 15 \<and> cmp = sq + of_nat d)"
proof -
  define w where "w = sq - cmp"
  have lt: "unat w < 65536" using unat_bound [of w] by simp
  have "32768 \<le> unat w \<longleftrightarrow> (\<exists>d. 0 < d \<and> d \<le> 32768 \<and> - w = of_nat d)"
  proof
    assume "32768 \<le> unat w"
    moreover have "- w = of_nat (65536 - unat w)"
      using lt by (simp add: of_nat_diff)
    ultimately show "\<exists>d. 0 < d \<and> d \<le> 32768 \<and> - w = of_nat d"
      using lt by (intro exI [of _ "65536 - unat w"]) auto
  next
    assume "\<exists>d. 0 < d \<and> d \<le> 32768 \<and> - w = of_nat d"
    then obtain d where d: "0 < d" "d \<le> 32768" "- w = of_nat d" by blast
    have zero: "(65536 :: u16) = 0" by simp
    have "w = - of_nat d" using d(3) by (metis add.inverse_inverse)
    then have "w = of_nat (65536 - d)" using d(2) zero by (simp add: of_nat_diff)
    moreover have "unat (of_nat (65536 - d) :: u16) = 65536 - d" using d(1) by (intro unat_of_nat_small) simp
    ultimately show "32768 \<le> unat w" using d(2) by (simp only:)
  qed
  moreover have "- w = of_nat d \<longleftrightarrow> cmp = sq + of_nat d" for d
    by (auto simp: w_def algebra_simps)
  ultimately show ?thesis
    by (simp add: csp_rdp_seq_before_def sint_neg_iff w_def)
qed

lemma unat_length_add:
  assumes "unat (pkt_length k) + RDP_HEADER_LEN \<le> CSP_BUFFER_SIZE"
  shows "unat (pkt_length k + 5) = unat (pkt_length k) + 5"
  using assms by (subst unat_add_small) simp_all

text \<open>The header fields of a packet whose last five bytes were written.\<close>

lemma hdr_fields:
  assumes "pkt_mem k = mem_write m (csp_rdp_header_ref k) (fl # be_bytes 2 sq @ be_bytes 2 ak)"
  shows "hdr_flags k = fl" "hdr_seq_be k = sq" "hdr_ack_be k = ak"
proof -
  let ?r = "csp_rdp_header_ref k" and ?bs = "fl # be_bytes 2 sq @ be_bytes 2 ak"
  have len: "length ?bs = 5" by simp
  have rd: "mem_read (pkt_mem k) (?r + a) n = take n (drop a ?bs)" if "a + n \<le> 5" for a n
    using that len unfolding assms by (subst mem_write_inside) auto
  have "mem_read (pkt_mem k) ?r 1 = [fl]" using rd [of 0 1] by simp
  then show "hdr_flags k = fl" by (simp add: hdr_flags_def mem_read_def)
  have "mem_read (pkt_mem k) (?r + 1) 2 = be_bytes 2 sq" using rd [of 1 2] by simp
  then show "hdr_seq_be k = sq" by (simp add: hdr_seq_be_def del: be_bytes.simps)
  have "mem_read (pkt_mem k) (?r + 3) 2 = be_bytes 2 ak" using rd [of 3 2] by simp
  then show "hdr_ack_be k = ak" by (simp add: hdr_ack_be_def del: be_bytes.simps)
qed

lemma set_hdr_kept [simp]:
  "pkt_length (set_hdr off bs k) = pkt_length k" "csp_rdp_header_ref (set_hdr off bs k) = csp_rdp_header_ref k"
  "pkt_mem (set_hdr off bs k) = mem_write (pkt_mem k) (csp_rdp_header_ref k + off) bs"
  by (simp_all add: set_hdr_def csp_rdp_header_ref_def)

section \<open>Properties\<close>

text \<open>C12. Sequence numbers are compared modulo \<open>2 ^ 16\<close>: \<open>csp_rdp_seq_between\<close> holds exactly for
  the numbers \<open>start, start + 1, \<dots>, start + n\<close>, also when they wrap around, and
  \<open>csp_rdp_seq_before\<close> exactly for numbers at most half the circle behind.\<close>

theorem csp_rdp_seq_window:
  "(csp_rdp_seq_between sq a (a + n) \<longleftrightarrow> (\<exists>i\<le>unat n. sq = a + of_nat i))
   \<and> (csp_rdp_seq_before sq cmp \<longleftrightarrow> (\<exists>d. 0 < d \<and> d \<le> 2 ^ 15 \<and> cmp = sq + of_nat d))"
  using seq_between_iff seq_before_iff by blast

text \<open>The header of a segment is read back as it was written: the receiver sees the sequence
  number, the acknowledgement number and the four flags, and after it removes the header
  it has the payload the sender had.\<close>

theorem csp_rdp_header_roundtrip:
  assumes "csp_rdp_header_add p s = (True, s1)" and "fl < 0x10" and s2_def: "s2 = rdp_cmp_header p fl sq ak s1"
  shows "hdr_seq_be (pkt s2 p) = sq \<and> hdr_ack_be (pkt s2 p) = ak \<and> hdr_flags (pkt s2 p) AND 0x0f = fl
    \<and> payload (core (csp_rdp_header_remove p s2)) p = payload (core s) p"
proof -
  let ?k = "pkt s p" and ?len = "unat (pkt_length (pkt s p))"
  let ?f = "push_bit 4 (csp_rdp_incr s1) OR fl"
  have fit: "?len + RDP_HEADER_LEN \<le> CSP_BUFFER_SIZE"
    and s1: "pkt s1 p = ?k\<lparr>pkt_length := pkt_length ?k + 5, pkt_mem := mem_write (pkt_mem ?k) (DATA_OFF + ?len) (replicate 5 0)\<rparr>"
    using assms(1) by (auto simp: csp_rdp_header_add_def upd_pkt_def on_core_def Let_def split: if_splits)
  have mem1: "pkt_mem (pkt s1 p) = mem_write (pkt_mem ?k) (DATA_OFF + ?len) (replicate 5 0)" by (simp add: s1)
  have ref: "csp_rdp_header_ref (pkt s1 p) = DATA_OFF + ?len"
    using unat_length_add [OF fit] by (simp add: csp_rdp_header_ref_def s1)
  have fl0: "hdr_flags (set_hdr 3 (be_bytes 2 ak) (set_hdr (Suc 0) (be_bytes 2 sq) (pkt s1 p))) = 0"
    by (simp add: hdr_flags_def ref mem_write_def mem1)
  have s2: "pkt s2 p = set_hdr 0 [?f] (set_hdr 3 (be_bytes 2 ak) (set_hdr (Suc 0) (be_bytes 2 sq) (pkt s1 p)))"
    using fl0 by (simp add: s2_def rdp_cmp_header_def upd_pkt_def on_core_def Let_def)
  then have ref2: "csp_rdp_header_ref (pkt s2 p) = DATA_OFF + ?len" and len2: "pkt_length (pkt s2 p) = pkt_length ?k + 5"
    using ref s1 by simp_all
  have mem: "pkt_mem (pkt s2 p) = mem_write (pkt_mem ?k) (csp_rdp_header_ref (pkt s2 p)) (?f # be_bytes 2 sq @ be_bytes 2 ak)"
    unfolding ref2 unfolding s2
    by (rule ext) (auto simp: ref mem1 mem_write_def nth_append nth_Cons' numeral_2_eq_2)
  have "fl AND mask 4 = fl" using assms(2) by (intro less_mask_eq) simp
  then have lt: "take_bit 4 fl = fl" by (simp only: take_bit_eq_mask)
  have "take_bit 4 (push_bit 4 (csp_rdp_incr s1) OR fl) = fl"
    by (simp add: take_bit_or take_bit_push_bit lt)
  then have "?f AND mask 4 = fl" by (simp only: take_bit_eq_mask)
  then have "?f AND 0x0f = fl" by (simp add: mask_eq_exp_minus_1)
  moreover have "payload (core (csp_rdp_header_remove p s2)) p = payload (core s) p"
    by (simp add: csp_rdp_header_remove_def upd_pkt_def on_core_def payload_def data_bytes_def len2 mem ref2 mem_write_disjoint)
  ultimately show ?thesis using hdr_fields [OF mem] by simp
qed

lemma get_fails: "length (free_list k) < 2 \<Longrightarrow> csp_buffer_get k = (None, k)"
  by (simp add: csp_buffer_get_def csp_buffer_get_actual_def csp_buffer_remaining_eq [unfolded csp_buffer_remaining_def])

text \<open>When exactly two buffers are free, sending a SYN fails with \<open>CSP_ERR_NOMEM\<close> and leaks the
  packet: the reference of the buffer it took is held by nobody, no queue and no caller.\<close>

theorem csp_rdp_send_syn_leaks:
  assumes own: "own dh f s" and two: "length (free_list (core s)) = 2"
  shows "\<exists>p s'. csp_rdp_send_syn nh c s = (CSP_ERR_NOMEM, s') \<and> own dh (tok p f) s' \<and> length (free_list (core s')) = 1"
proof -
  obtain p q where fl: "free_list (core s) = [p, q]" using two by (auto simp: numeral_2_eq_2 length_Suc_conv)
  have inv: "buf_inv (core s)" using own by (simp add: own_def)
  obtain k where get: "csp_buffer_get_actual 2 False (core s) = (Some p, k)" and fk: "free_list k = [q]"
    using get_actual_succeed [OF inv fl, of 2 False] two by auto
  let ?s1 = "s\<lparr>core := k\<rparr>"
  have g: "in_core csp_buffer_get s = (Some p, ?s1)" using get by (simp add: in_core_def csp_buffer_get_def)
  have own1: "own dh (tok p f) ?s1" using own_get [OF own g] by simp
  let ?s2 = "upd_pkt p (\<lambda>k. k\<lparr>pkt_mem := mem_write (pkt_mem k) DATA_OFF (rdp_syn_options ?s1), pkt_length := 24\<rparr>) ?s1"
  let ?s3 = "upd_rdp c (\<lambda>r. r\<lparr>ack_timestamp := csp_ms (core ?s2)\<rparr>) ?s2"
  have "fst (csp_rdp_header_add p ?s3)"
    by (simp add: csp_rdp_header_add_def upd_rdp_def upd_conn_def upd_pkt_def on_core_def)
  then obtain g where add: "csp_rdp_header_add p ?s3 = (True, upd_pkt p g ?s3)"
    using header_add_upd [of p ?s3 True "snd (csp_rdp_header_add p ?s3)"] by (auto simp: prod_eq_iff)
  define s4 where "s4 = rdp_cmp_header p RDP_SYN (snd_iss (rdp (arr_conn ?s2 c))) 0 (upd_pkt p g ?s3)"
  have fl4: "free_list (core s4) = [q]"
    using fk by (simp add: s4_def rdp_cmp_header_def Let_def upd_pkt_def on_core_def upd_rdp_def upd_conn_def)
  then have "csp_buffer_get (core s4) = (None, core s4)" by (intro get_fails) simp
  then have clone: "rdp_queue_syn c p s4 = (False, s4)"
    by (simp add: rdp_queue_syn_def in_core_def csp_buffer_clone_def csp_buffer_copy_def)
  have "csp_rdp_send_syn nh c s = (CSP_ERR_NOMEM, s4)"
    using g add clone
    by (simp add: csp_rdp_send_syn_def csp_rdp_send_cmp_def rdp_send_cmp_packet_def Let_def s4_def [symmetric])
  moreover have "own dh (tok p f) s4"
    using own1 by (simp add: s4_def rdp_cmp_header_def Let_def)
  ultimately show ?thesis using fl4 by auto
qed

text \<open>A node that took thirteen of its fifteen buffers.\<close>

fun take_buffers :: "nat \<Rightarrow> unit csp_state \<Rightarrow> unit csp_state" where
  "take_buffers 0 s = s"
| "take_buffers (Suc n) s = take_buffers n (snd (in_core csp_buffer_get s))"

lemma take_buffers_own:
  "own no_driver f s \<Longrightarrow> n + 1 \<le> length (free_list (core s)) \<Longrightarrow>
     \<exists>g. own no_driver g (take_buffers n s) \<and> length (free_list (core (take_buffers n s))) = length (free_list (core s)) - n"
proof (induction n arbitrary: f s)
  case (Suc n)
  have inv: "buf_inv (core s)" using Suc.prems(1) by (simp add: own_def)
  obtain p ps where fl: "free_list (core s) = p # ps" using Suc.prems(2) by (cases "free_list (core s)") auto
  obtain k where get: "csp_buffer_get_actual 2 False (core s) = (Some p, k)" and fk: "free_list k = ps"
    using get_actual_succeed [OF inv fl, of 2 False] Suc.prems(2) fl by auto
  have "in_core csp_buffer_get s = (Some p, s\<lparr>core := k\<rparr>)" using get by (simp add: in_core_def csp_buffer_get_def)
  from own_get [OF Suc.prems(1) this] Suc.IH [of "otok (Some p) f" "s\<lparr>core := k\<rparr>"] Suc.prems(2) fl fk get
  show ?case by (auto simp: in_core_def csp_buffer_get_def)
qed auto

end
