(* ===== verification/CSP_Conn.thy ===== *)
theory CSP_Conn
  imports CSP_Rdp_Cmp
begin

text \<open>
  The connection table, \<^verbatim>\<open>src/src/csp_conn.c\<close>: initialisation, lookup of the connection of an
  incoming packet, allocation, the receive queue of a connection, and closing.
\<close>

section \<open>Operations\<close>

definition csp_conn_enqueue_packet :: "addr option \<Rightarrow> addr option \<Rightarrow> 'd csp_state \<Rightarrow> int \<times> 'd csp_state" where
  "csp_conn_enqueue_packet conn pk s =
     (case conn of
        None \<Rightarrow> (CSP_ERR_INVAL, s)
      | Some c \<Rightarrow>
          let (r, q) = csp_queue_enqueue (conn_rx_queue (arr_conn s c)) pk;
              s = upd_conn c (\<lambda>k. k\<lparr>conn_rx_queue := q\<rparr>) s
          in if r \<noteq> CSP_QUEUE_OK then (CSP_ERR_NOMEM, conn_ovf s) else (CSP_ERR_NONE, s))"

definition csp_conn_init_step :: "nat \<Rightarrow> 'd csp_state \<Rightarrow> 'd csp_state" where
  "csp_conn_init_step i s =
     csp_rdp_init i
       (upd_conn i (\<lambda>k. k\<lparr>sport_outgoing := of_nat (CSP_PORT_MAX_BIND + 1 + i), conn_state := CONN_CLOSED,
          idin := (idin k)\<lparr>id_flags := 0\<rparr>,
          conn_rx_queue := csp_queue_create_static CSP_CONN_RXQUEUE_LEN (q_buffer (conn_rx_queue k))\<rparr>) s)"

definition csp_conn_init :: "'d csp_state \<Rightarrow> 'd csp_state" where
  "csp_conn_init s = fold csp_conn_init_step [0..<CSP_CONN_MAX] s"

definition csp_conn_find_dport :: "u32 \<Rightarrow> 'd csp_state \<Rightarrow> addr option" where
  "csp_conn_find_dport dport s =
     find (\<lambda>i. let conn = arr_conn s i
               in ucast (id_dport (idin conn)) = dport \<and> conn_state conn = CONN_OPEN \<and> conn_type conn = CONN_CLIENT)
       [0..<CSP_CONN_MAX]"

text \<open>The conditions of the loop of \<^verbatim>\<open>csp_conn_find_existing\<close>.\<close>

definition conn_matches :: "csp_id \<Rightarrow> csp_conn \<Rightarrow> bool" where
  "conn_matches i conn \<longleftrightarrow>
     (if conn_state conn \<noteq> CONN_OPEN then False
      else if conn_type conn = CONN_CLIENT then id_dport (idin conn) = id_dport i
      else if id_dport (idin conn) \<noteq> id_dport i then False
      else if id_sport (idin conn) \<noteq> id_sport i then False
      else if id_src (idin conn) \<noteq> id_src i then False
      else True)"

definition csp_conn_find_existing :: "csp_id \<Rightarrow> 'd csp_state \<Rightarrow> addr option" where
  "csp_conn_find_existing i s = find (\<lambda>c. conn_matches i (arr_conn s c)) [0..<CSP_CONN_MAX]"

text \<open>One round per packet in the queue, and a last one that finds it empty.\<close>

fun conn_flush_loop :: "nat \<Rightarrow> addr \<Rightarrow> 'd csp_state \<Rightarrow> 'd csp_state" where
  "conn_flush_loop 0 c s = s"
| "conn_flush_loop (Suc n) c s =
     (let (r, q) = csp_queue_dequeue (conn_rx_queue (arr_conn s c));
          s = upd_conn c (\<lambda>k. k\<lparr>conn_rx_queue := q\<rparr>) s
      in case r of
           None \<Rightarrow> s
         | Some pk \<Rightarrow> conn_flush_loop n c (case pk of None \<Rightarrow> s | Some p \<Rightarrow> free_pkt p s))"

definition csp_conn_flush_rx_queue :: "addr \<Rightarrow> 'd csp_state \<Rightarrow> int \<times> 'd csp_state" where
  "csp_conn_flush_rx_queue c s =
     (CSP_ERR_NONE, conn_flush_loop (Suc (csp_queue_size (conn_rx_queue (arr_conn s c)))) c s)"

fun conn_alloc_loop :: "nat \<Rightarrow> nat \<Rightarrow> 'd csp_state \<Rightarrow> addr option" where
  "conn_alloc_loop 0 i s = None"
| "conn_alloc_loop (Suc n) i s =
     (let i = (i + 1) mod CSP_CONN_MAX
      in if conn_state (arr_conn s i) = CONN_CLOSED then Some i else conn_alloc_loop n i s)"

definition csp_conn_allocate :: "csp_conn_type \<Rightarrow> 'd csp_state \<Rightarrow> addr option \<times> 'd csp_state" where
  "csp_conn_allocate ty s =
     (case conn_alloc_loop CSP_CONN_MAX (unat (csp_conn_last_given s)) s of
        None \<Rightarrow> (None, s\<lparr>core := csp_dbg_conn_out_update (\<lambda>n. n + 1) (core s)\<rparr>)
      | Some i \<Rightarrow>
          let s = upd_conn i (\<lambda>k. k\<lparr>conn_state := CONN_OPEN\<rparr>) s;
              s = s\<lparr>csp_conn_last_given := of_nat i\<rparr>;
              s = upd_conn i (\<lambda>k. k\<lparr>conn_timestamp := 0\<rparr>) s;
              s = upd_conn i (\<lambda>k. k\<lparr>conn_type := ty\<rparr>) s;
              s = upd_conn i (\<lambda>k. k\<lparr>idin := (idin k)\<lparr>id_flags := 0\<rparr>\<rparr>) s
          in (Some i, upd_conn i (\<lambda>k. k\<lparr>idout := (idout k)\<lparr>id_flags := 0\<rparr>\<rparr>) s))"

definition csp_conn_new :: "csp_id \<Rightarrow> csp_id \<Rightarrow> csp_conn_type \<Rightarrow> 'd csp_state \<Rightarrow> addr option \<times> 'd csp_state" where
  "csp_conn_new id_in id_out ty s =
     (let (conn, s) = csp_conn_allocate ty s
      in case conn of
           None \<Rightarrow> (None, s)
         | Some c \<Rightarrow>
             let s = upd_conn c (\<lambda>k. k\<lparr>idin := csp_id_copy (idin k) id_in\<rparr>) s;
                 s = upd_conn c (\<lambda>k. k\<lparr>idout := csp_id_copy (idout k) id_out\<rparr>) s;
                 s = upd_conn c (\<lambda>k. k\<lparr>conn_timestamp := csp_ms (core s)\<rparr>) s
             in (Some c, snd (csp_conn_flush_rx_queue c s)))"

text \<open>The end of \<^verbatim>\<open>csp_conn_close\<close>: empty the queues and give the connection back.\<close>

definition conn_finish_close :: "addr \<Rightarrow> 'd csp_state \<Rightarrow> 'd csp_state" where
  "conn_finish_close c s =
     (let s = snd (csp_conn_flush_rx_queue c s);
          s = (if id_flags (idin (arr_conn s c)) AND CSP_FRDP \<noteq> 0 then csp_rdp_queue_flush (Some c) s else s)
      in upd_conn c (\<lambda>k. k\<lparr>conn_state := CONN_CLOSED\<rparr>) s)"

definition csp_conn_close :: "'d nexthop_fn \<Rightarrow> addr option \<Rightarrow> u8 \<Rightarrow> 'd csp_state \<Rightarrow> int \<times> 'd csp_state" where
  "csp_conn_close nh conn by s =
     (case conn of
        None \<Rightarrow> (CSP_ERR_NONE, s)
      | Some c \<Rightarrow>
          if conn_state (arr_conn s c) = CONN_CLOSED then (CSP_ERR_NONE, set_errno CSP_DBG_ERR_ALREADY_CLOSED s)
          else let rdp_conn = (id_flags (idin (arr_conn s c)) AND CSP_FRDP \<noteq> 0 \<or> id_flags (idout (arr_conn s c)) AND CSP_FRDP \<noteq> 0);
                   (r, s) = (if rdp_conn then csp_rdp_close nh c by s else (CSP_ERR_NONE, s))
               in if rdp_conn \<and> r = CSP_ERR_AGAIN then (CSP_ERR_NONE, s)
                  else (CSP_ERR_NONE, conn_finish_close c s))"

definition csp_close :: "'d nexthop_fn \<Rightarrow> addr option \<Rightarrow> 'd csp_state \<Rightarrow> int \<times> 'd csp_state" where
  "csp_close nh conn s = csp_conn_close nh conn CSP_RDP_CLOSED_BY_USERSPACE s"

definition csp_conn_dport :: "addr \<Rightarrow> 'd csp_state \<Rightarrow> int" where
  "csp_conn_dport c s = uint (id_dport (idin (arr_conn s c)))"

definition csp_conn_sport :: "addr \<Rightarrow> 'd csp_state \<Rightarrow> int" where
  "csp_conn_sport c s = uint (id_sport (idin (arr_conn s c)))"

definition csp_conn_dst :: "addr \<Rightarrow> 'd csp_state \<Rightarrow> int" where
  "csp_conn_dst c s = uint (id_dst (idin (arr_conn s c)))"

definition csp_conn_src :: "addr \<Rightarrow> 'd csp_state \<Rightarrow> int" where
  "csp_conn_src c s = uint (id_src (idin (arr_conn s c)))"

definition csp_conn_flags :: "addr \<Rightarrow> 'd csp_state \<Rightarrow> int" where
  "csp_conn_flags c s = uint (id_flags (idin (arr_conn s c)))"

definition csp_conn_get_array :: "nat \<times> addr list" where
  "csp_conn_get_array = (CSP_CONN_MAX, [0..<CSP_CONN_MAX])"

definition csp_conn_is_active :: "addr \<Rightarrow> 'd csp_state \<Rightarrow> bool" where
  "csp_conn_is_active c s =
     (if id_flags (idin (arr_conn s c)) AND CSP_FRDP \<noteq> 0 \<or> id_flags (idout (arr_conn s c)) AND CSP_FRDP \<noteq> 0
      then csp_rdp_conn_is_active c s else True)"

section \<open>The receive queue of a connection\<close>

lemma own_conn_enqueue_packet:
  assumes "own dh (otok pk f) s" "c < CSP_CONN_MAX" "csp_conn_enqueue_packet (Some c) pk s = (r, s')"
  shows "own dh (if r = CSP_ERR_NONE then f else otok pk f) s'"
proof -
  obtain r0 q where enq: "csp_queue_enqueue (conn_rx_queue (arr_conn s c)) pk = (r0, q)" by fastforce
  from own_conn_enqueue [OF assms(1,2) enq] assms(3) enq show ?thesis
    by (auto simp: csp_conn_enqueue_packet_def Let_def split: if_splits)
qed

text \<open>Flushing empties the queue and changes nothing else but buffers.\<close>

lemma conn_flush_loop_spec:
  "own dh f s \<Longrightarrow> c < CSP_CONN_MAX \<Longrightarrow> length (queue_list (conn_rx_queue (arr_conn s c))) < n \<Longrightarrow>
     own dh f (conn_flush_loop n c s) \<and> queue_list (conn_rx_queue (arr_conn (conn_flush_loop n c s) c)) = []
     \<and> (\<exists>k q. conn_flush_loop n c s = upd_conn c (\<lambda>x. x\<lparr>conn_rx_queue := q\<rparr>) (s\<lparr>core := k\<rparr>) \<and> packet k = packet (core s)
         \<and> csp_conf k = csp_conf (core s) \<and> csp_ms k = csp_ms (core s))"
proof (induction n arbitrary: s)
  case (Suc n)
  obtain r q where deq: "csp_queue_dequeue (conn_rx_queue (arr_conn s c)) = (r, q)" by fastforce
  let ?s1 = "upd_conn c (\<lambda>k. k\<lparr>conn_rx_queue := q\<rparr>) s"
  note own1 = own_conn_dequeue [OF Suc.prems(1,2) deq]
  note q = qheld_dequeue [OF queues_okD(3) [OF own_queues [OF Suc.prems(1)] Suc.prems(2)] deq, of id]
  show ?case
  proof (cases r)
    case None
    have "?s1 = upd_conn c (\<lambda>x. x\<lparr>conn_rx_queue := q\<rparr>) (s\<lparr>core := core s\<rparr>)" by simp
    with None own1 q deq show ?thesis
      by (intro conjI exI [of _ "core s"] exI [of _ q]) (simp_all add: upd_conn_def)
  next
    case (Some pk)
    define s2 where "s2 = (case pk of None \<Rightarrow> ?s1 | Some p \<Rightarrow> free_pkt p ?s1)"
    have own2: "own dh f s2" using own1 Some by (cases pk) (auto simp: s2_def intro: own_free)
    obtain k where k: "s2 = ?s1\<lparr>core := k\<rparr>" "packet k = packet (core s)" "csp_conf k = csp_conf (core s)" "csp_ms k = csp_ms (core s)"
    proof (cases pk)
      case None
      then show thesis by (intro that [of "core s"]) (simp_all add: s2_def upd_conn_def)
    next
      case (Some p)
      then show thesis
        by (intro that [of "csp_buffer_free (Some p) (core s)"]) (simp_all add: s2_def free_pkt_def on_core_def upd_conn_def)
    qed
    have run: "conn_flush_loop (Suc n) c s = conn_flush_loop n c s2" using deq Some by (simp add: s2_def Let_def)
    have "queue_list (conn_rx_queue (arr_conn s c)) = pk # queue_list q" using q Some by simp
    then have "length (queue_list (conn_rx_queue (arr_conn s c))) = Suc (length (queue_list q))" by (metis length_Cons)
    then have "length (queue_list (conn_rx_queue (arr_conn s2 c))) < n"
      using Suc.prems(3) k by (simp add: upd_conn_def)
    from Suc.IH [OF own2 Suc.prems(2) this] k show ?thesis
      unfolding run by (auto simp: upd_conn_def)
  qed
qed simp

lemma flush_rx_queue:
  assumes "own dh f s" "c < CSP_CONN_MAX"
  shows "own dh f (snd (csp_conn_flush_rx_queue c s))"
    "queue_list (conn_rx_queue (arr_conn (snd (csp_conn_flush_rx_queue c s)) c)) = []"
    "\<exists>k q. snd (csp_conn_flush_rx_queue c s) = upd_conn c (\<lambda>x. x\<lparr>conn_rx_queue := q\<rparr>) (s\<lparr>core := k\<rparr>) \<and> packet k = packet (core s)
       \<and> csp_conf k = csp_conf (core s) \<and> csp_ms k = csp_ms (core s)"
  using conn_flush_loop_spec [OF assms, of "Suc (csp_queue_size (conn_rx_queue (arr_conn s c)))"]
  by (simp_all add: csp_conn_flush_rx_queue_def csp_queue_defs del: conn_flush_loop.simps)

section \<open>Lookup and allocation\<close>

lemma conn_alloc_loop_None:
  "conn_alloc_loop n i s = None \<longleftrightarrow> (\<forall>j<n. conn_state (arr_conn s ((i + 1 + j) mod CSP_CONN_MAX)) \<noteq> CONN_CLOSED)"
proof (induction n arbitrary: i)
  case (Suc n)
  have shift: "((i + 1) mod CSP_CONN_MAX + 1 + j) mod CSP_CONN_MAX = (i + 1 + Suc j) mod CSP_CONN_MAX" for j
    using mod_add_left_eq [of "i + 1" CSP_CONN_MAX "1 + j"] by (simp add: add.assoc)
  have all: "(\<forall>j<Suc n. P j) \<longleftrightarrow> P 0 \<and> (\<forall>j<n. P (Suc j))" for P
    using less_Suc_eq_0_disj by auto
  show ?case
    unfolding all by (simp add: Let_def Suc.IH shift [simplified])
qed simp

lemma conn_alloc_loop_Some:
  "conn_alloc_loop n i s = Some c \<Longrightarrow> c < CSP_CONN_MAX \<and> conn_state (arr_conn s c) = CONN_CLOSED"
  by (induction n arbitrary: i) (auto simp: Let_def split: if_splits)

lemma conn_alloc_all:
  assumes "conn_alloc_loop CSP_CONN_MAX i s = None" "c < CSP_CONN_MAX"
  shows "conn_state (arr_conn s c) = CONN_OPEN"
proof -
  have "(i + 1 + (c + 7 * (i + 1)) mod 8) mod 8 = (c + 8 * (i + 1)) mod 8"
    using mod_add_right_eq [of "i + 1" "c + 7 * (i + 1)" 8] by (simp add: algebra_simps)
  also have "\<dots> = c" using assms(2) by (subst mod_mult_self2) simp
  finally have "\<exists>j<8. (i + 1 + j) mod 8 = c" by (intro exI [of _ "(c + 7 * (i + 1)) mod 8"]) simp
  then have "conn_state (arr_conn s c) \<noteq> CONN_CLOSED" using assms(1) unfolding conn_alloc_loop_None by blast
  then show ?thesis by (cases "conn_state (arr_conn s c)") simp_all
qed

lemma conn_new_cases:
  assumes own: "own dh f s" and run: "csp_conn_new id_in id_out ty s = (r, s')"
  shows "own dh f s'"
    "r = None \<Longrightarrow> arr_conn s' = arr_conn s \<and> (\<forall>c<CSP_CONN_MAX. conn_state (arr_conn s c) = CONN_OPEN)"
    "r = Some c \<Longrightarrow> c < CSP_CONN_MAX \<and> conn_state (arr_conn s c) = CONN_CLOSED \<and> (\<forall>j. j \<noteq> c \<longrightarrow> arr_conn s' j = arr_conn s j)
       \<and> (\<exists>q. arr_conn s' c = (arr_conn s c)\<lparr>conn_state := CONN_OPEN, conn_type := ty, idin := id_in, idout := id_out,
             conn_timestamp := csp_ms (core s), conn_rx_queue := q\<rparr> \<and> queue_list q = [])
       \<and> sockets s' = sockets s \<and> packet (core s') = packet (core s) \<and> csp_ms (core s') = csp_ms (core s)"
proof -
  let ?l = "conn_alloc_loop CSP_CONN_MAX (unat (csp_conn_last_given s)) s"
  have none: "r = None \<and> s' = s\<lparr>core := csp_dbg_conn_out_update (\<lambda>n. n + 1) (core s)\<rparr>" if "?l = None"
    using run that by (simp add: csp_conn_new_def csp_conn_allocate_def)
  define s1 where "s1 c = upd_conn c (\<lambda>k. k\<lparr>conn_state := CONN_OPEN, conn_type := ty, idin := id_in, idout := id_out,
      conn_timestamp := csp_ms (core s)\<rparr>) (s\<lparr>csp_conn_last_given := of_nat c\<rparr>)" for c
  have some: "r = Some c \<and> s' = snd (csp_conn_flush_rx_queue c (s1 c))" if "?l = Some c" for c
    using run that unfolding csp_conn_new_def csp_conn_allocate_def s1_def by (simp add: Let_def upd_conn_def)
  have own1: "own dh f (s1 c)" for c
    unfolding s1_def by (subst own_upd_conn) (simp_all add: own)
  show "own dh f s'"
  proof (cases ?l)
    case None
    with none own show ?thesis by simp
  next
    case (Some c)
    with some flush_rx_queue(1) [OF own1] conn_alloc_loop_Some show ?thesis by blast
  qed
  show "r = None \<Longrightarrow> arr_conn s' = arr_conn s \<and> (\<forall>c<CSP_CONN_MAX. conn_state (arr_conn s c) = CONN_OPEN)"
    using some none conn_alloc_all by (cases ?l) auto
  assume r: "r = Some c"
  then have l: "?l = Some c" using none some by (cases ?l) auto
  note c = conn_alloc_loop_Some [OF l]
  note fl = flush_rx_queue [OF own1 conjunct1 [OF c]]
  obtain k q where kq: "s' = upd_conn c (\<lambda>x. x\<lparr>conn_rx_queue := q\<rparr>) ((s1 c)\<lparr>core := k\<rparr>)" "packet k = packet (core s)"
      "csp_ms k = csp_ms (core s)"
  proof -
    from fl(3) obtain k q where "snd (csp_conn_flush_rx_queue c (s1 c)) = upd_conn c (\<lambda>x. x\<lparr>conn_rx_queue := q\<rparr>) ((s1 c)\<lparr>core := k\<rparr>)"
      "packet k = packet (core (s1 c))" "csp_ms k = csp_ms (core (s1 c))" by blast
    then show thesis using some [OF l] by (intro that [of q k]) (simp_all add: s1_def upd_conn_def)
  qed
  have "conn_rx_queue (arr_conn s' c) = q" by (simp add: kq(1) upd_conn_def)
  then have "queue_list q = []" using fl(2) some [OF l] by auto
  with c kq show "c < CSP_CONN_MAX \<and> conn_state (arr_conn s c) = CONN_CLOSED \<and> (\<forall>j. j \<noteq> c \<longrightarrow> arr_conn s' j = arr_conn s j)
       \<and> (\<exists>q. arr_conn s' c = (arr_conn s c)\<lparr>conn_state := CONN_OPEN, conn_type := ty, idin := id_in, idout := id_out,
             conn_timestamp := csp_ms (core s), conn_rx_queue := q\<rparr> \<and> queue_list q = [])
       \<and> sockets s' = sockets s \<and> packet (core s') = packet (core s) \<and> csp_ms (core s') = csp_ms (core s)"
    by (auto simp: s1_def upd_conn_def)
qed

lemma find_existing_Some:
  "csp_conn_find_existing i s = Some c \<longleftrightarrow> c < CSP_CONN_MAX \<and> conn_matches i (arr_conn s c)
     \<and> (\<forall>j<c. \<not> conn_matches i (arr_conn s j))"
  by (auto simp: csp_conn_find_existing_def find_Some_iff)

lemma find_existing_None:
  "csp_conn_find_existing i s = None \<longleftrightarrow> (\<forall>c<CSP_CONN_MAX. \<not> conn_matches i (arr_conn s c))"
  by (auto simp: csp_conn_find_existing_def find_None_iff)

section \<open>Closing\<close>

lemma rdp_frameD:
  assumes "rdp_frame s s'"
  shows "arr_conn s' = arr_conn s" "sockets s' = sockets s" "ports s' = ports s" "csp_ms (core s') = csp_ms (core s)"
    "csp_conf (core s') = csp_conf (core s)"
proof -
  let ?t = "s\<lparr>core := core s', rdp_tx_queue := rdp_tx_queue s', rdp_rx_queue := rdp_rx_queue s'\<rparr>"
  have eq: "s' = ?t" using assms by (simp add: rdp_frame_def)
  show "arr_conn s' = arr_conn s" using arg_cong [OF eq, of arr_conn] by simp
  show "sockets s' = sockets s" using arg_cong [OF eq, of sockets] by simp
  show "ports s' = ports s" using arg_cong [OF eq, of ports] by simp
  show "csp_ms (core s') = csp_ms (core s)" "csp_conf (core s') = csp_conf (core s)"
    using assms by (simp_all add: rdp_frame_def conn_only_def)
qed

definition conn_gone :: "addr \<Rightarrow> 'd csp_state \<Rightarrow> bool" where
  "conn_gone c s \<longleftrightarrow> conn_state (arr_conn s c) = CONN_CLOSED \<and> queue_list (conn_rx_queue (arr_conn s c)) = []
     \<and> (id_flags (idin (arr_conn s c)) AND CSP_FRDP \<noteq> 0 \<longrightarrow>
        (\<forall>p \<in> set (queue_list (rdp_tx_queue s)) \<union> set (queue_list (rdp_rx_queue s)). pkt_conn (pkt s p) \<noteq> Some c))"

lemma finish_close:
  assumes own: "own dh f s" and c: "c < CSP_CONN_MAX"
  shows "own dh f (conn_finish_close c s)" "conn_gone c (conn_finish_close c s)"
    "\<exists>q. arr_conn (conn_finish_close c s) = (arr_conn s)(c := (arr_conn s c)\<lparr>conn_rx_queue := q, conn_state := CONN_CLOSED\<rparr>)"
    "sockets (conn_finish_close c s) = sockets s" "csp_ms (core (conn_finish_close c s)) = csp_ms (core s)"
    "ports (conn_finish_close c s) = ports s"
proof -
  define s1 where "s1 = snd (csp_conn_flush_rx_queue c s)"
  note fl = flush_rx_queue [OF own c, folded s1_def]
  from fl(3) obtain k q where s1: "s1 = upd_conn c (\<lambda>x. x\<lparr>conn_rx_queue := q\<rparr>) (s\<lparr>core := k\<rparr>)" "csp_ms k = csp_ms (core s)"
    by blast
  define s2 where "s2 = (if id_flags (idin (arr_conn s1 c)) AND CSP_FRDP \<noteq> 0 then csp_rdp_queue_flush (Some c) s1 else s1)"
  have run: "conn_finish_close c s = upd_conn c (\<lambda>k. k\<lparr>conn_state := CONN_CLOSED\<rparr>) s2"
    by (simp add: conn_finish_close_def s1_def s2_def Let_def)
  have two: "own dh f s2" "rdp_frame s1 s2" using fl(1) rdp_flush [OF fl(1)] by (simp_all add: s2_def)
  note fr = rdp_frameD [OF two(2)]
  show "own dh f (conn_finish_close c s)" using two(1) by (simp add: run)
  have s2c: "\<forall>p \<in> set (queue_list (rdp_tx_queue s2)) \<union> set (queue_list (rdp_rx_queue s2)). pkt_conn (pkt s2 p) \<noteq> Some c"
    if "id_flags (idin (arr_conn s1 c)) AND CSP_FRDP \<noteq> 0"
    using rdp_flush_lists [OF fl(1), of c] that by (auto simp: s2_def)
  show "conn_gone c (conn_finish_close c s)"
    using fl(2) fr(1) s2c by (auto simp: conn_gone_def run upd_conn_def)
  show "\<exists>q. arr_conn (conn_finish_close c s) = (arr_conn s)(c := (arr_conn s c)\<lparr>conn_rx_queue := q, conn_state := CONN_CLOSED\<rparr>)"
    using fr(1) by (intro exI [of _ q]) (simp add: run s1 upd_conn_def)
  show "sockets (conn_finish_close c s) = sockets s" "csp_ms (core (conn_finish_close c s)) = csp_ms (core s)"
    "ports (conn_finish_close c s) = ports s"
    using fr by (simp_all add: run s1 upd_conn_def)
qed

text \<open>Whether a connection is closed by RDP.\<close>

definition conn_is_rdp :: "csp_conn \<Rightarrow> bool" where
  "conn_is_rdp k \<longleftrightarrow> id_flags (idin k) AND CSP_FRDP \<noteq> 0 \<or> id_flags (idout k) AND CSP_FRDP \<noteq> 0"

context nexthop_contract
begin

lemma conn_close_cases:
  assumes own: "own dh f s" and c: "c < CSP_CONN_MAX" and op: "conn_state (arr_conn s c) = CONN_OPEN"
  obtains (wait) s1 where "csp_conn_close nh (Some c) by s = (CSP_ERR_NONE, s1)" "own dh f s1" "close_frame c s s1"
      "conn_is_rdp (arr_conn s c)" "rdp_state (rdp (arr_conn s c)) \<noteq> RDP_CLOSED"
      "closed_by (rdp (arr_conn s c)) OR by \<noteq> CSP_RDP_CLOSED_BY_ALL" "rdp_state (rdp (arr_conn s1 c)) = RDP_CLOSE_WAIT"
      "closed_by (rdp (arr_conn s1 c)) = closed_by (rdp (arr_conn s c)) OR by"
  | (gone) s1 where "csp_conn_close nh (Some c) by s = (CSP_ERR_NONE, conn_finish_close c s1)" "own dh f s1" "close_frame c s s1"
      "conn_is_rdp (arr_conn s c) \<Longrightarrow> rdp_state (rdp (arr_conn s1 c)) = RDP_CLOSED"
      "conn_is_rdp (arr_conn s c) \<Longrightarrow> rdp_state (rdp (arr_conn s c)) = RDP_CLOSED \<or> closed_by (rdp (arr_conn s c)) OR by = CSP_RDP_CLOSED_BY_ALL"
      "\<not> conn_is_rdp (arr_conn s c) \<Longrightarrow> s1 = s"
proof (cases "conn_is_rdp (arr_conn s c)")
  case False
  then have "csp_conn_close nh (Some c) by s = (CSP_ERR_NONE, conn_finish_close c s)"
    using op by (simp add: csp_conn_close_def conn_is_rdp_def)
  with False own show thesis by (intro gone [of s]) simp_all
next
  case True
  obtain r s1 where cl: "csp_rdp_close_internal nh c by True s = (r, s1)" by fastforce
  have run: "csp_conn_close nh (Some c) by s = (CSP_ERR_NONE, if r = CSP_ERR_AGAIN then s1 else conn_finish_close c s1)"
    using op True cl by (simp add: csp_conn_close_def conn_is_rdp_def csp_rdp_close_def)
  note ci = close_internal_contract [OF own cl]
  show thesis
  proof (cases "rdp_state (rdp (arr_conn s c)) = RDP_CLOSED \<or> closed_by (rdp (arr_conn s c)) OR by = CSP_RDP_CLOSED_BY_ALL")
    case t: True
    then have "r = CSP_ERR_NONE" "rdp_state (rdp (arr_conn s1 c)) = RDP_CLOSED" using ci(4,5) by auto
    with run ci(1,3) t True show thesis by (intro gone [of s1]) auto
  next
    case f: False
    with run ci(1,3,6) True show thesis by (intro wait [of s1]) auto
  qed
qed

lemma conn_close_own:
  assumes own: "own dh f s" and c: "c < CSP_CONN_MAX"
  shows "own dh f (snd (csp_conn_close nh (Some c) by s))"
proof (cases "conn_state (arr_conn s c)")
  case CONN_CLOSED
  with own show ?thesis by (simp add: csp_conn_close_def)
next
  case CONN_OPEN
  show ?thesis
    by (cases rule: conn_close_cases [OF own c CONN_OPEN, of "by"]) (auto intro: finish_close(1) [OF _ c])
qed

end

section \<open>Properties\<close>

text \<open>Opening a connection: it fails only when every connection of the table is open;
  otherwise it takes a closed one, leaves all others as they are, starts with an empty
  receive queue (the packets left in it are freed) and exactly the given identifiers, and
  the packets of its peer, which matched no connection before, are found to belong to it.\<close>

theorem csp_conn_new_spec:
  assumes own: "own dh f s" and run: "csp_conn_new id_in id_out ty s = (r, s')"
  shows "own dh f s' \<and> (case r of
      None \<Rightarrow> \<forall>c<CSP_CONN_MAX. conn_state (arr_conn s c) = CONN_OPEN
    | Some c \<Rightarrow> c < CSP_CONN_MAX \<and> conn_state (arr_conn s c) = CONN_CLOSED \<and> (\<forall>j. j \<noteq> c \<longrightarrow> arr_conn s' j = arr_conn s j)
        \<and> conn_state (arr_conn s' c) = CONN_OPEN \<and> conn_type (arr_conn s' c) = ty
        \<and> idin (arr_conn s' c) = id_in \<and> idout (arr_conn s' c) = id_out \<and> queue_list (conn_rx_queue (arr_conn s' c)) = []
        \<and> (csp_conn_find_existing id_in s = None \<longrightarrow> csp_conn_find_existing id_in s' = Some c))"
proof (cases r)
  case None
  with conn_new_cases [OF own run] show ?thesis by simp
next
  case (Some c)
  note new = conn_new_cases(1) [OF own run] conn_new_cases(3) [OF own run Some]
  have "conn_matches id_in (arr_conn s' c)" using new(2) by (auto simp: conn_matches_def)
  moreover have "\<not> conn_matches id_in (arr_conn s' j)" if "csp_conn_find_existing id_in s = None" "j < c" for j
    using that new(2) by (auto simp: find_existing_None)
  ultimately show ?thesis using new Some by (auto simp: find_existing_Some)
qed

text \<open>A connection with RDP is given back only when user space, the protocol and the timeout
  have all closed it: the last of the three frees its packets and closes it; a close by
  fewer leaves it open, in \<open>CLOSE_WAIT\<close>, and records who closed it. Nothing is leaked in
  either case.\<close>

theorem csp_conn_close_needs_all:
  assumes nh: "nexthop_contract nh dh" and own: "own dh f s" and c: "c < CSP_CONN_MAX"
    and op: "conn_state (arr_conn s c) = CONN_OPEN" and r: "conn_is_rdp (arr_conn s c)" "rdp_state (rdp (arr_conn s c)) \<noteq> RDP_CLOSED"
  shows "\<exists>s'. csp_conn_close nh (Some c) by s = (CSP_ERR_NONE, s') \<and> own dh f s' \<and> (\<forall>j. j \<noteq> c \<longrightarrow> arr_conn s' j = arr_conn s j)
    \<and> (if closed_by (rdp (arr_conn s c)) OR by = CSP_RDP_CLOSED_BY_ALL
       then conn_gone c s' \<and> rdp_state (rdp (arr_conn s' c)) = RDP_CLOSED
       else conn_state (arr_conn s' c) = CONN_OPEN \<and> rdp_state (rdp (arr_conn s' c)) = RDP_CLOSE_WAIT
         \<and> closed_by (rdp (arr_conn s' c)) = closed_by (rdp (arr_conn s c)) OR by
         \<and> conn_rx_queue (arr_conn s' c) = conn_rx_queue (arr_conn s c))"
proof (rule nexthop_contract.conn_close_cases [OF nh own c op, of "by"], goal_cases wait gone)
  case (wait s1)
  then show ?thesis using op by (auto simp: close_frame_def)
next
  case (gone s1)
  note fc = finish_close [OF gone(2) c]
  from fc(3) obtain q where arr: "arr_conn (conn_finish_close c s1) = (arr_conn s1)(c := (arr_conn s1 c)\<lparr>conn_rx_queue := q, conn_state := CONN_CLOSED\<rparr>)"
    by blast
  have "rdp_state (rdp (arr_conn (conn_finish_close c s1) c)) = RDP_CLOSED" using gone(4) r by (simp add: arr)
  moreover have "arr_conn (conn_finish_close c s1) j = arr_conn s j" if "j \<noteq> c" for j
    using gone(3) that by (simp add: arr close_frame_def)
  ultimately show ?thesis using gone(1,5) fc(1,2) r by auto
qed

definition rdp_example :: "unit csp_state" where
  "rdp_example = upd_conn 3 (\<lambda>k. k\<lparr>conn_state := CONN_OPEN\<rparr>)
     (upd_conn 3 (\<lambda>k. k\<lparr>idin := (idin k)\<lparr>id_flags := CSP_FRDP\<rparr>\<rparr>) (upd_rdp 3 (\<lambda>r. r\<lparr>rdp_state := RDP_OPEN\<rparr>) example_sender))"

lemma rdp_example_own: "own no_driver (tok 0 (\<lambda>_. 0)) rdp_example"
  and rdp_example_conn: "conn_state (arr_conn rdp_example 3) = CONN_OPEN" "conn_is_rdp (arr_conn rdp_example 3)"
    "rdp_state (rdp (arr_conn rdp_example 3)) = RDP_OPEN" "closed_by (rdp (arr_conn rdp_example 3)) = 0"
proof -
  show "own no_driver (tok 0 (\<lambda>_. 0)) rdp_example" using example_sender_own by (simp add: rdp_example_def)
  have "closed_by (rdp (arr_conn example_sender 3)) = 0" by (subst example_sender_frame(1)) (simp add: example_node_def)
  then show "conn_state (arr_conn rdp_example 3) = CONN_OPEN" "conn_is_rdp (arr_conn rdp_example 3)"
    "rdp_state (rdp (arr_conn rdp_example 3)) = RDP_OPEN" "closed_by (rdp (arr_conn rdp_example 3)) = 0"
    by (simp_all add: rdp_example_def upd_rdp_def upd_conn_def conn_is_rdp_def)
qed

end
