(* ===== verification/CSP_Port.thy ===== *)
theory CSP_Port
  imports CSP_Conn
begin

text \<open>
  The port table, \<^verbatim>\<open>src/src/csp_port.c\<close>: which socket or callback gets the packets of a port.
  Slot \<open>CSP_PORT_MAX_BIND + 1\<close> is the one for all ports without their own binding.
\<close>

section \<open>Operations\<close>

abbreviation (input) CSP_ANY :: u8 where "CSP_ANY \<equiv> 255"
abbreviation (input) ANY_SLOT :: nat where "ANY_SLOT \<equiv> CSP_PORT_MAX_BIND + 1"

definition csp_port_get_callback :: "u32 \<Rightarrow> 'd csp_state \<Rightarrow> nat option" where
  "csp_port_get_callback port s =
     (if unat port > CSP_PORT_MAX_BIND then None
      else if port_state (ports s (unat port)) = PORT_OPEN_CB then port_callback (ports s (unat port))
      else if port_state (ports s (unat port)) = PORT_OPEN then None
      else if port_state (ports s ANY_SLOT) = PORT_OPEN_CB then port_callback (ports s ANY_SLOT)
      else None)"

definition csp_port_get_socket :: "u32 \<Rightarrow> 'd csp_state \<Rightarrow> addr option" where
  "csp_port_get_socket port s =
     (if unat port > CSP_PORT_MAX_BIND then None
      else if port_state (ports s (unat port)) = PORT_OPEN then port_socket (ports s (unat port))
      else if port_state (ports s (unat port)) = PORT_OPEN_CB then None
      else if port_state (ports s ANY_SLOT) = PORT_OPEN then port_socket (ports s ANY_SLOT)
      else None)"

definition csp_listen :: "addr \<Rightarrow> nat \<Rightarrow> 'd csp_state \<Rightarrow> int \<times> 'd csp_state" where
  "csp_listen so backlog s =
     (CSP_ERR_NONE, upd_socket so (\<lambda>k. k\<lparr>sock_rx_queue := Some (csp_queue_create_static CSP_CONN_RXQUEUE_LEN (\<lambda>_. Sock_packet 0))\<rparr>) s)"

text \<open>The slot of a port; \<open>None\<close> for a port that cannot be bound.\<close>

definition port_slot :: "u8 \<Rightarrow> nat option" where
  "port_slot port = (if port = CSP_ANY then Some ANY_SLOT else if unat port > CSP_PORT_MAX_BIND then None else Some (unat port))"

definition csp_bind :: "addr option \<Rightarrow> u8 \<Rightarrow> 'd csp_state \<Rightarrow> int \<times> 'd csp_state" where
  "csp_bind sock port s =
     (case sock of
        None \<Rightarrow> (CSP_ERR_INVAL, s)
      | Some so \<Rightarrow>
          (case port_slot port of
             None \<Rightarrow> (CSP_ERR_INVAL, set_errno CSP_DBG_ERR_INVALID_BIND_PORT s)
           | Some i \<Rightarrow>
               if port_state (ports s i) \<noteq> PORT_CLOSED then (CSP_ERR_USED, set_errno CSP_DBG_ERR_PORT_ALREADY_IN_USE s)
               else (CSP_ERR_NONE, s\<lparr>ports := (ports s)(i := (ports s i)\<lparr>port_socket := Some so, port_state := PORT_OPEN\<rparr>)\<rparr>)))"

definition csp_bind_callback :: "nat option \<Rightarrow> u8 \<Rightarrow> 'd csp_state \<Rightarrow> int \<times> 'd csp_state" where
  "csp_bind_callback callback port s =
     (case callback of
        None \<Rightarrow> (CSP_ERR_INVAL, set_errno CSP_DBG_ERR_INVALID_POINTER s)
      | Some cb \<Rightarrow>
          (case port_slot port of
             None \<Rightarrow> (CSP_ERR_INVAL, set_errno CSP_DBG_ERR_INVALID_BIND_PORT s)
           | Some i \<Rightarrow>
               if port_state (ports s i) \<noteq> PORT_CLOSED then (CSP_ERR_ALREADY, set_errno CSP_DBG_ERR_PORT_ALREADY_IN_USE s)
               else (CSP_ERR_NONE, s\<lparr>ports := (ports s)(i := (ports s i)\<lparr>port_callback := Some cb, port_state := PORT_OPEN_CB\<rparr>)\<rparr>)))"

text \<open>
  The first port of a socket is closed. Its queue is emptied with \<^verbatim>\<open>csp_buffer_free\<close>, also when
  it holds connections: freeing one reads memory in front of it, here \<open>None\<close>. The pointer to
  the queue is left as it was although the queue is gone; a call on it later is undefined,
  and the model has no queue there.
\<close>

definition socket_close_ports :: "addr \<Rightarrow> 'd csp_state \<Rightarrow> 'd csp_state" where
  "socket_close_ports so s =
     (case find (\<lambda>i. port_state (ports s i) = PORT_OPEN \<and> port_socket (ports s i) = Some so) [0..<CSP_PORT_MAX_BIND + 2] of
        None \<Rightarrow> s
      | Some i \<Rightarrow> s\<lparr>ports := (ports s)(i := (ports s i)\<lparr>port_state := PORT_CLOSED, port_socket := None\<rparr>)\<rparr>)"

fun socket_drain :: "nat \<Rightarrow> addr \<Rightarrow> sock_item pthread_queue \<Rightarrow> 'd csp_state \<Rightarrow> 'd csp_state option" where
  "socket_drain 0 so q s = Some s"
| "socket_drain (Suc n) so q s =
     (case csp_queue_dequeue q of
        (None, q) \<Rightarrow> Some s
      | (Some (Sock_conn c), q) \<Rightarrow> None
      | (Some (Sock_packet p), q) \<Rightarrow> socket_drain n so q (free_pkt p (upd_socket so (\<lambda>k. k\<lparr>sock_rx_queue := Some q\<rparr>) s)))"

definition csp_socket_close :: "addr option \<Rightarrow> 'd csp_state \<Rightarrow> (int \<times> 'd csp_state) option" where
  "csp_socket_close sock s =
     (case sock of
        None \<Rightarrow> Some (CSP_ERR_NONE, s)
      | Some so \<Rightarrow>
          let s = socket_close_ports so s
          in case sock_rx_queue (sockets s so) of
               None \<Rightarrow> Some (CSP_ERR_NONE, s)
             | Some q \<Rightarrow> map_option (\<lambda>s. (CSP_ERR_NONE, upd_socket so (\<lambda>k. k\<lparr>sock_rx_queue := None\<rparr>) s))
                          (socket_drain (Suc (csp_queue_size q)) so q s))"

section \<open>Ownership\<close>

lemma own_upd_socket_None:
  assumes "own dh f s" "so < SOCK_MAX" "\<And>p. oheld sock_pkt (sock_rx_queue (sockets s so)) p = 0" "pred_option queue_ok q"
    "\<And>p. oheld sock_pkt q p = 0"
  shows "own dh f (upd_socket so (\<lambda>k. k\<lparr>sock_rx_queue := q\<rparr>) s)"
proof -
  have "held dh (upd_socket so (\<lambda>k. k\<lparr>sock_rx_queue := q\<rparr>) s) p = held dh s p" for p
    using held_sock_rx [OF assms(2), of dh q s p] assms(3) [of p] assms(5) [of p] by simp
  moreover have "queues_ok (upd_socket so (\<lambda>k. k\<lparr>sock_rx_queue := q\<rparr>) s)"
    using own_queues [OF assms(1)] assms(2,4) by (auto simp: queues_ok_def upd_socket_def)
  ultimately show ?thesis using assms(1) by (auto simp: own_def) (simp_all add: upd_socket_def)
qed

lemma socket_drain_own:
  "own dh f s \<Longrightarrow> sock_rx_queue (sockets s so) = Some q \<Longrightarrow> (\<And>c. Sock_conn c \<notin> set (queue_list q)) \<Longrightarrow> csp_queue_size q < n \<Longrightarrow>
     \<exists>s'. socket_drain n so q s = Some s' \<and> own dh f s' \<and> ports s' = ports s \<and> arr_conn s' = arr_conn s
       \<and> (\<exists>q'. sock_rx_queue (sockets s' so) = Some q' \<and> queue_list q' = [])"
proof (induction n arbitrary: q s)
  case (Suc n)
  have ok: "queue_ok q" using queues_okD(5) [OF own_queues [OF Suc.prems(1)] Suc.prems(2)] by simp
  obtain r q1 where deq: "csp_queue_dequeue q = (r, q1)" by fastforce
  note step = qheld_dequeue [OF ok deq] and own1 = own_sock_dequeue [OF Suc.prems(1,2) deq]
  show ?case
  proof (cases r)
    case None
    with Suc.prems step deq show ?thesis by auto
  next
    case (Some x)
    then have ql: "queue_list q = x # queue_list q1" "queue_ok q1" using step by auto
    then obtain p where x: "x = Sock_packet p" using Suc.prems(3) by (cases x) auto
    define s1 where "s1 = free_pkt p (upd_socket so (\<lambda>k. k\<lparr>sock_rx_queue := Some q1\<rparr>) s)"
    have "own dh f s1" unfolding s1_def by (rule own_free) (use own1 Some x in simp)
    moreover have "sock_rx_queue (sockets s1 so) = Some q1" "ports s1 = ports s" "arr_conn s1 = arr_conn s"
      by (simp_all add: s1_def upd_socket_def free_pkt_def on_core_def)
    moreover have "Sock_conn c \<notin> set (queue_list q1)" for c using Suc.prems(3) [of c] ql by simp
    moreover have "csp_queue_size q1 < n"
      using Suc.prems(4) ql csp_q.size_of_contents [OF ok] csp_q.size_of_contents [OF ql(2)] by simp
    ultimately show ?thesis using Suc.IH [of s1 q1] deq Some x s1_def by simp
  qed
qed simp

lemma socket_close_own:
  assumes own: "own dh f s" and so: "so < SOCK_MAX"
    and conn: "\<And>q c. sock_rx_queue (sockets s so) = Some q \<Longrightarrow> Sock_conn c \<notin> set (queue_list q)"
  obtains s' where "csp_socket_close (Some so) s = Some (CSP_ERR_NONE, s')" "own dh f s'" "sock_rx_queue (sockets s' so) = None"
    "ports s' = ports (socket_close_ports so s)" "arr_conn s' = arr_conn s"
proof -
  let ?s = "socket_close_ports so s"
  have own1: "own dh f ?s" using own by (simp add: socket_close_ports_def split: option.splits)
  have k: "sockets ?s = sockets s" "arr_conn ?s = arr_conn s" by (simp_all add: socket_close_ports_def split: option.splits)
  show thesis
  proof (cases "sock_rx_queue (sockets s so)")
    case None
    then show thesis using own1 k by (intro that [of ?s]) (simp_all add: csp_socket_close_def)
  next
    case (Some q)
    from socket_drain_own [OF own1, of so q "Suc (csp_queue_size q)"] conn [OF Some] Some k obtain s2 q' where
      s2: "socket_drain (Suc (csp_queue_size q)) so q ?s = Some s2" "own dh f s2" "ports s2 = ports ?s" "arr_conn s2 = arr_conn s"
        "sock_rx_queue (sockets s2 so) = Some q'" "queue_list q' = []" by auto
    let ?s3 = "upd_socket so (\<lambda>k. k\<lparr>sock_rx_queue := None\<rparr>) s2"
    have "own dh f ?s3" by (rule own_upd_socket_None [OF s2(2) so]) (simp_all add: s2 oheld_def qheld_def)
    then show thesis using s2 Some k
      by (intro that [of ?s3]) (simp_all add: csp_socket_close_def Let_def upd_socket_def)
  qed
qed

lemma own_listen:
  assumes "own dh f s" "so < SOCK_MAX" "sock_rx_queue (sockets s so) = None"
  shows "own dh f (snd (csp_listen so n s))"
  unfolding csp_listen_def snd_conv
  by (rule own_upd_socket_None [OF assms(1,2)]) (simp_all add: assms(3) oheld_def qheld_def)

lemma own_bind [simp]:
  "own dh f (snd (csp_bind so p s)) = own dh f s" "own dh f (snd (csp_bind_callback cb p s)) = own dh f s"
  by (simp_all add: csp_bind_def csp_bind_callback_def split: option.splits)

section \<open>Properties\<close>

lemma port_slot_bound: "port_slot port = Some i \<Longrightarrow> i \<le> ANY_SLOT \<and> (i = ANY_SLOT \<longleftrightarrow> port = CSP_ANY)"
  by (auto simp: port_slot_def split: if_splits)

text \<open>C22. Binding and lookup: a socket bound to a port is the one that gets its packets, and no
  callback does; a socket bound to \<open>CSP_ANY\<close> gets those of all ports without a binding of
  their own. Other ports keep their socket and callback, and a second binding of the same
  port is refused and changes nothing but the error number.\<close>

theorem csp_bind_lookup:
  assumes bind: "csp_bind (Some so) port s = (CSP_ERR_NONE, s')" and q: "unat q \<le> CSP_PORT_MAX_BIND"
  shows "csp_port_get_socket q s' =
      (if ucast port = q \<or> port = CSP_ANY \<and> port_state (ports s (unat q)) = PORT_CLOSED then Some so else csp_port_get_socket q s)
    \<and> csp_port_get_callback q s' = (if ucast port = q then None else csp_port_get_callback q s)
    \<and> csp_bind (Some so2) port s' = (CSP_ERR_USED, set_errno CSP_DBG_ERR_PORT_ALREADY_IN_USE s')"
proof -
  obtain i where i: "port_slot port = Some i" "port_state (ports s i) = PORT_CLOSED"
      "s' = s\<lparr>ports := (ports s)(i := (ports s i)\<lparr>port_socket := Some so, port_state := PORT_OPEN\<rparr>)\<rparr>"
    using bind by (auto simp: csp_bind_def split: option.splits if_splits)
  have "csp_bind (Some so2) port s' = (CSP_ERR_USED, set_errno CSP_DBG_ERR_PORT_ALREADY_IN_USE s')"
    by (simp add: csp_bind_def i)
  moreover have up: "ucast port = q \<longleftrightarrow> unat port = unat q"
  proof -
    have "unat (ucast port :: u32) = unat port" using unat_bound [of port] by (simp add: unsigned_ucast_eq take_bit_nat_eq_self)
    then show ?thesis by (auto simp: word_unat_eq_iff)
  qed
  moreover have "i = unat q \<longleftrightarrow> unat port = unat q" "i = ANY_SLOT \<longleftrightarrow> port = CSP_ANY"
    using i(1) q by (auto simp: port_slot_def split: if_splits)
  ultimately show ?thesis
    using q i by (cases "i = unat q"; cases "i = ANY_SLOT"; cases "port_state (ports s (unat q))") (auto simp: csp_port_get_socket_def csp_port_get_callback_def)
qed

theorem csp_bind_lookup_witness:
  "csp_port_get_socket 7 (snd (csp_bind (Some 2) CSP_ANY example_node)) = Some 2
   \<and> csp_port_get_socket 7 (snd (csp_bind (Some 1) 7 (snd (csp_bind (Some 2) CSP_ANY example_node)))) = Some 1"
proof -
  have one: "csp_bind (Some 2) CSP_ANY example_node = (CSP_ERR_NONE, snd (csp_bind (Some 2) CSP_ANY example_node))"
    and two: "csp_bind (Some 1) 7 (snd (csp_bind (Some 2) CSP_ANY example_node))
      = (CSP_ERR_NONE, snd (csp_bind (Some 1) 7 (snd (csp_bind (Some 2) CSP_ANY example_node))))"
    and closed: "port_state (ports example_node 7) = PORT_CLOSED"
    by (simp_all add: csp_bind_def port_slot_def example_node_def)
  show ?thesis
    using csp_bind_lookup [OF one, of 7] csp_bind_lookup [OF two, of 7] closed by simp
qed

end
