(* ===== verification/CSP_Rdp.thy ===== *)
theory CSP_Rdp
  imports CSP_Conn
begin

text \<open>
  The RDP protocol, second part of \<^verbatim>\<open>src/src/csp_rdp.c\<close>: reordering and acknowledging received
  data, retransmission, the state machine \<^verbatim>\<open>csp_rdp_new_packet\<close>, connecting and sending.
  The clock does not advance within one call. The jumps to the labels at the end of
  \<^verbatim>\<open>csp_rdp_new_packet\<close> are the values of \<open>rdp_exit\<close>; \<open>None\<close> as a result is the use of the
  \<^verbatim>\<open>NULL\<close> queue of a socket that does not listen. Parameters are the transmit functions
  \<open>nh\<close>, the function \<open>rnd\<close> for \<^verbatim>\<open>rand_r\<close>, and \<open>wt\<close>, what the other tasks do during a wait.
\<close>

section \<open>Received data\<close>

definition csp_rdp_receive_data :: "addr \<Rightarrow> addr \<Rightarrow> 'd csp_state \<Rightarrow> int \<times> 'd csp_state" where
  "csp_rdp_receive_data c p s =
     (let s = csp_rdp_header_remove p s;
          (r, s) = csp_conn_enqueue_packet (Some c) (Some p) s
      in if r \<noteq> CSP_ERR_NONE then (CSP_ERR_NOBUFS, conn_ovf s) else (CSP_ERR_NONE, s))"

text \<open>One pass of the loop; \<open>True\<close> when it delivered a packet and starts again at \<^verbatim>\<open>front\<close>.\<close>

fun rx_flush_for :: "nat \<Rightarrow> addr \<Rightarrow> 'd csp_state \<Rightarrow> bool \<times> 'd csp_state" where
  "rx_flush_for 0 c s = (False, s)"
| "rx_flush_for (Suc n) c s =
     (if csp_queue_free (conn_rx_queue (arr_conn s c)) \<le> 2 then (False, s)
      else let (r, s) = csp_rdp_queue_rx_get c s
           in case r of
                None \<Rightarrow> (False, s)
              | Some p \<Rightarrow>
                  if hdr_seq_he (pkt s p) = rcv_cur (rdp (arr_conn s c)) + 1
                  then let (e, s) = csp_rdp_receive_data c p s;
                           s = (if e \<noteq> CSP_ERR_NONE then free_pkt p s else s)
                       in (True, upd_rdp c (\<lambda>r. r\<lparr>rcv_cur := rcv_cur r + 1\<rparr>) s)
                  else rx_flush_for n c (csp_rdp_queue_rx_add c p s))"

lemma enqueue_items: "csp_queue_enqueue q x = (r, q') \<Longrightarrow> q_items q' \<le> Suc (q_items q)"
  by (auto simp: csp_queue_defs split: if_splits)

lemma dequeue_items: "csp_queue_dequeue q = (r, q') \<Longrightarrow> (case r of None \<Rightarrow> q' = q | Some x \<Rightarrow> q_items q = Suc (q_items q'))"
  by (auto simp: csp_queue_defs split: if_splits)

lemma rdp_add_items: "csp_rdp_queue_add q c p k = (q', k') \<Longrightarrow> q_items q' \<le> Suc (q_items q)"
  using enqueue_items [of q p] by (fastforce simp: csp_rdp_queue_add_def Let_def split: prod.splits if_splits)

lemma rdp_get_items:
  "rdp_get_loop n c q k = (r, q', k') \<Longrightarrow> q_items q' \<le> q_items q \<and> (r \<noteq> None \<longrightarrow> q_items q' < q_items q)"
proof (induction n arbitrary: q k)
  case (Suc n)
  obtain x q1 where deq: "csp_queue_dequeue q = (x, q1)" by fastforce
  show ?case
  proof (cases x)
    case None
    with Suc.prems deq dequeue_items [OF deq] show ?thesis by auto
  next
    case (Some p)
    obtain q2 k2 where add: "csp_rdp_queue_add q1 c p k = (q2, k2)" by fastforce
    show ?thesis
      using Suc.prems deq dequeue_items [OF deq] Some add rdp_add_items [OF add] Suc.IH [of q2 k2]
      by (auto split: if_splits)
  qed
qed simp

lemma rx_get_size:
  "csp_rdp_queue_rx_get c s = (r, s') \<Longrightarrow> csp_rdp_queue_rx_size s' \<le> csp_rdp_queue_rx_size s
     \<and> (r \<noteq> None \<longrightarrow> csp_rdp_queue_rx_size s' < csp_rdp_queue_rx_size s)"
  using rdp_get_items [of "csp_queue_size (rdp_rx_queue s)" c "rdp_rx_queue s" "core s"]
  by (auto simp: csp_rdp_queue_rx_get_def csp_rdp_queue_rx_size_def csp_rdp_queue_get_def csp_queue_defs Let_def split: prod.splits)

lemma rx_add_size: "csp_rdp_queue_rx_size (csp_rdp_queue_rx_add c p s) \<le> Suc (csp_rdp_queue_rx_size s)"
  using rdp_add_items [of "rdp_rx_queue s" c p "core s"]
  by (auto simp: csp_rdp_queue_rx_add_def csp_rdp_queue_rx_size_def csp_queue_defs Let_def split: prod.splits)

lemma receive_data_size: "csp_rdp_queue_rx_size (snd (csp_rdp_receive_data c p s)) = csp_rdp_queue_rx_size s"
  by (simp add: csp_rdp_receive_data_def csp_conn_enqueue_packet_def csp_rdp_queue_rx_size_def csp_rdp_header_remove_def
      upd_pkt_def on_core_def upd_conn_def conn_ovf_def Let_def split: prod.splits)

lemma rx_flush_for_size:
  "rx_flush_for n c s = (b, s') \<Longrightarrow> b \<Longrightarrow> csp_rdp_queue_rx_size s' < csp_rdp_queue_rx_size s"
proof (induction n arbitrary: s)
  case (Suc n)
  then have room: "\<not> csp_queue_free (conn_rx_queue (arr_conn s c)) \<le> 2" by auto
  obtain r s1 where get: "csp_rdp_queue_rx_get c s = (r, s1)" by fastforce
  with Suc.prems room obtain p where p: "r = Some p" by (cases r) auto
  have sz: "csp_rdp_queue_rx_size s1 < csp_rdp_queue_rx_size s" using rx_get_size [OF get] p by simp
  show ?case
  proof (cases "hdr_seq_he (pkt s1 p) = rcv_cur (rdp (arr_conn s1 c)) + 1")
    case True
    obtain e s2 where rd: "csp_rdp_receive_data c p s1 = (e, s2)" by fastforce
    have "csp_rdp_queue_rx_size s' = csp_rdp_queue_rx_size s2"
      using Suc.prems room get p True rd
      by (auto simp: csp_rdp_queue_rx_size_def upd_rdp_def upd_conn_def free_pkt_def on_core_def Let_def split: if_splits)
    with sz receive_data_size [of c p s1] rd show ?thesis by simp
  next
    case False
    then have "rx_flush_for n c (csp_rdp_queue_rx_add c p s1) = (b, s')" using Suc.prems room get p by simp
    from Suc.IH [OF this Suc.prems(2)] rx_add_size [of c p s1] sz show ?thesis by linarith
  qed
qed simp

text \<open>The whole function: every return to \<^verbatim>\<open>front\<close> has taken a packet out of the queue.\<close>

function csp_rdp_rx_queue_flush :: "addr \<Rightarrow> 'd csp_state \<Rightarrow> 'd csp_state" where
  "csp_rdp_rx_queue_flush c s =
     (let (again, s') = rx_flush_for (csp_rdp_queue_rx_size s) c s
      in if again then csp_rdp_rx_queue_flush c s' else s')"
  by pat_completeness auto

termination csp_rdp_rx_queue_flush
  by (relation "measure (\<lambda>(c, s). csp_rdp_queue_rx_size s)") (auto dest: rx_flush_for_size [OF sym])

declare csp_rdp_rx_queue_flush.simps [simp del]

fun seq_in_rx_loop :: "nat \<Rightarrow> addr \<Rightarrow> u16 \<Rightarrow> 'd csp_state \<Rightarrow> bool \<times> 'd csp_state" where
  "seq_in_rx_loop 0 c seq_nr s = (False, s)"
| "seq_in_rx_loop (Suc n) c seq_nr s =
     (let (r, s) = csp_rdp_queue_rx_get c s
      in case r of
           None \<Rightarrow> (False, s)
         | Some p \<Rightarrow>
             let s = csp_rdp_queue_rx_add c p s
             in if hdr_seq_he (pkt s p) = seq_nr then (True, s) else seq_in_rx_loop n c seq_nr s)"

definition csp_rdp_seq_in_rx_queue :: "addr \<Rightarrow> u16 \<Rightarrow> 'd csp_state \<Rightarrow> bool \<times> 'd csp_state" where
  "csp_rdp_seq_in_rx_queue c seq_nr s = seq_in_rx_loop (csp_rdp_queue_rx_size s) c seq_nr s"

definition csp_rdp_rx_queue_add :: "addr \<Rightarrow> addr \<Rightarrow> u16 \<Rightarrow> 'd csp_state \<Rightarrow> int \<times> 'd csp_state" where
  "csp_rdp_rx_queue_add c p seq_nr s =
     (let (there, s) = csp_rdp_seq_in_rx_queue c seq_nr s
      in if there then (CSP_ERR_USED, s) else (CSP_ERR_NONE, csp_rdp_queue_rx_add c p s))"

section \<open>Acknowledgements\<close>

definition csp_rdp_should_ack :: "addr \<Rightarrow> 'd csp_state \<Rightarrow> bool" where
  "csp_rdp_should_ack c s =
     (let r = rdp (arr_conn s c)
      in if delayed_acks r = 0 then True
         else if csp_rdp_time_after (csp_ms (core s)) (ack_timestamp r + ack_timeout r) then True
         else if csp_rdp_seq_after (rcv_cur r) (ucast (ucast (rcv_lsa r) + ack_delay_count r)) then True
         else False)"

definition csp_rdp_check_ack :: "'d nexthop_fn \<Rightarrow> addr \<Rightarrow> 'd csp_state \<Rightarrow> int \<times> 'd csp_state" where
  "csp_rdp_check_ack nh c s =
     (let r = rdp (arr_conn s c)
      in if int CSP_CONN_RXQUEUE_LEN - int (csp_queue_size (conn_rx_queue (arr_conn s c))) \<le> sint (2 * window_size r)
         then (CSP_ERR_NONE, s)
         else (CSP_ERR_NONE,
               if csp_rdp_should_ack c s then snd (csp_rdp_send_cmp nh c None RDP_ACK (snd_nxt r) (rcv_cur r) s) else s))"

definition csp_rdp_is_conn_ready_for_tx :: "addr \<Rightarrow> 'd csp_state \<Rightarrow> bool" where
  "csp_rdp_is_conn_ready_for_tx c s =
     (let r = rdp (arr_conn s c)
      in if csp_rdp_seq_after (snd_nxt r) (ucast (ucast (snd_una r) + window_size r - 1)) then False else True)"

section \<open>Timeouts and retransmission\<close>

definition rdp_retransmit :: "'d nexthop_fn \<Rightarrow> addr \<Rightarrow> addr \<Rightarrow> 'd csp_state \<Rightarrow> 'd csp_state" where
  "rdp_retransmit nh c p s =
     (let (b, s) = in_core csp_buffer_get s
      in case b of
           None \<Rightarrow> s
         | Some q \<Rightarrow>
             let s = upd_pkt p (set_hdr 3 (be_bytes 2 (rcv_cur (rdp (arr_conn s c))))) s;
                 s = upd_rdp c (\<lambda>r. r\<lparr>ack_timestamp := csp_ms (core s)\<rparr>) s;
                 s = upd_pkt p (\<lambda>k. k\<lparr>timestamp_tx := csp_ms (core s)\<rparr>) s;
                 s = on_core (csp_buffer_copy (Some p) (Some q)) s
             in csp_send_direct nh (Id_conn c) (idout (arr_conn s c)) q None s)"

fun rdp_tx_loop :: "nat \<Rightarrow> 'd nexthop_fn \<Rightarrow> addr \<Rightarrow> u32 \<Rightarrow> 'd csp_state \<Rightarrow> 'd csp_state" where
  "rdp_tx_loop 0 nh c time_now s = s"
| "rdp_tx_loop (Suc n) nh c time_now s =
     (let (r, s) = csp_rdp_queue_tx_get c s
      in case r of
           None \<Rightarrow> s
         | Some p \<Rightarrow>
             if csp_rdp_seq_before (hdr_seq_be (pkt s p)) (snd_una (rdp (arr_conn s c)))
             then rdp_tx_loop n nh c time_now (free_pkt p s)
             else let s = (if csp_rdp_time_after time_now (timestamp_tx (pkt s p) + packet_timeout (rdp (arr_conn s c)))
                           then rdp_retransmit nh c p s else s)
                  in rdp_tx_loop n nh c time_now (csp_rdp_queue_tx_add c p s))"

definition csp_rdp_check_timeouts :: "'d nexthop_fn \<Rightarrow> addr \<Rightarrow> 'd csp_state \<Rightarrow> 'd csp_state" where
  "csp_rdp_check_timeouts nh c s =
     (let time_now = csp_ms (core s);
          conn = arr_conn s c;
          late = csp_rdp_time_after time_now (conn_timestamp conn + conn_timeout (rdp conn))
      in if dest_socket conn \<noteq> None \<and> late
         then snd (csp_conn_close nh (Some c)
                (CSP_RDP_CLOSED_BY_USERSPACE OR CSP_RDP_CLOSED_BY_PROTOCOL OR CSP_RDP_CLOSED_BY_TIMEOUT) s)
         else if rdp_state (rdp conn) = RDP_CLOSE_WAIT \<and> late
         then snd (csp_conn_close nh (Some c) (CSP_RDP_CLOSED_BY_PROTOCOL OR CSP_RDP_CLOSED_BY_TIMEOUT) s)
         else let s = rdp_tx_loop (csp_rdp_queue_tx_size s) nh c time_now s;
                  s = (if rdp_state (rdp (arr_conn s c)) = RDP_OPEN
                       then let s = (if delayed_acks (rdp (arr_conn s c)) \<noteq> 0 then snd (csp_rdp_check_ack nh c s) else s)
                            in if csp_rdp_is_conn_ready_for_tx c s then rdp_post c s else s
                       else s)
              in csp_rdp_rx_queue_flush c s)"

section \<open>The state machine\<close>

datatype rdp_exit = Discard_close u8 | Discard_open bool | Accepted_open

text \<open>
  \<open>Discard_close by\<close> jumps to \<^verbatim>\<open>discard_close\<close> with the variable \<^verbatim>\<open>closed_by\<close>, \<open>Discard_open b\<close> to
  \<^verbatim>\<open>discard_open\<close> with the variable \<^verbatim>\<open>close_connection\<close>.
\<close>

definition rdp_rx_rst :: "'d nexthop_fn \<Rightarrow> addr \<Rightarrow> u8 \<Rightarrow> u16 \<Rightarrow> u16 \<Rightarrow> 'd csp_state \<Rightarrow> rdp_exit \<times> 'd csp_state" where
  "rdp_rx_rst nh c fl sq ak s =
     (let s = (if fl AND RDP_ACK \<noteq> 0 then upd_rdp c (\<lambda>r. r\<lparr>snd_una := ak + 1\<rparr>) s else s);
          conn = arr_conn s c
      in if rdp_state (rdp conn) = RDP_CLOSED then (Discard_open (dest_socket conn \<noteq> None), s)
         else if rdp_state (rdp conn) = RDP_CLOSE_WAIT
         then (Discard_close (if fl AND RDP_ACK \<noteq> 0 then CSP_RDP_CLOSED_BY_PROTOCOL OR CSP_RDP_CLOSED_BY_TIMEOUT
                              else CSP_RDP_CLOSED_BY_PROTOCOL), s)
         else if sq = rcv_cur (rdp conn) + 1
         then let s = upd_rdp c (\<lambda>r. r\<lparr>rdp_state := RDP_CLOSE_WAIT\<rparr>) s;
                  s = upd_conn c (\<lambda>k. k\<lparr>conn_timestamp := csp_ms (core s)\<rparr>) s;
                  s = snd (csp_rdp_send_cmp nh c None (RDP_ACK OR RDP_RST) (snd_nxt (rdp conn)) (rcv_cur (rdp conn)) s)
              in (Discard_close (CSP_RDP_CLOSED_BY_PROTOCOL OR CSP_RDP_CLOSED_BY_TIMEOUT), s)
         else (Discard_open False, s))"

definition data32 :: "csp_packet \<Rightarrow> nat \<Rightarrow> u32" where
  "data32 k i = be_word (mem_read (pkt_mem k) (DATA_OFF + 4 * i) 4)"

definition rdp_rx_closed ::
  "'d nexthop_fn \<Rightarrow> (u32 \<Rightarrow> u32) \<Rightarrow> addr \<Rightarrow> addr \<Rightarrow> u8 \<Rightarrow> u16 \<Rightarrow> 'd csp_state \<Rightarrow> rdp_exit \<times> 'd csp_state" where
  "rdp_rx_closed nh rnd c p fl sq s =
     (if fl AND 0x0f \<noteq> RDP_SYN
      then let r = rdp (arr_conn s c)
           in (Discard_close CSP_RDP_CLOSED_BY_PROTOCOL, snd (csp_rdp_send_cmp nh c None RDP_RST (snd_nxt r) (rcv_cur r) s))
      else let iss = ucast (rnd (csp_ms (core s)));
               k = pkt s p;
               s = upd_rdp c (\<lambda>r. r\<lparr>snd_iss := iss, snd_nxt := iss + 1, snd_una := iss\<rparr>) s;
               s = upd_rdp c (\<lambda>r. r\<lparr>rcv_cur := sq, rcv_irs := sq, rcv_lsa := sq\<rparr>) s;
               s = upd_rdp c (\<lambda>r. r\<lparr>window_size := data32 k 0, conn_timeout := data32 k 1, packet_timeout := data32 k 2,
                     delayed_acks := data32 k 3, ack_timeout := data32 k 4, ack_delay_count := data32 k 5\<rparr>) s;
               s = upd_rdp c (\<lambda>r. r\<lparr>rdp_state := RDP_SYN_RCVD\<rparr>) s;
               s = snd (csp_rdp_send_cmp nh c None (RDP_ACK OR RDP_SYN) iss sq s)
           in (Discard_open False, s))"

definition rdp_rx_syn_sent :: "'d nexthop_fn \<Rightarrow> addr \<Rightarrow> u8 \<Rightarrow> u16 \<Rightarrow> u16 \<Rightarrow> 'd csp_state \<Rightarrow> rdp_exit \<times> 'd csp_state" where
  "rdp_rx_syn_sent nh c fl sq ak s =
     (if fl AND RDP_SYN \<noteq> 0 \<and> fl AND RDP_ACK \<noteq> 0
      then let s = upd_rdp c (\<lambda>r. r\<lparr>rcv_cur := sq, rcv_irs := sq, rcv_lsa := sq - 1, snd_una := ak + 1,
                     ack_timestamp := csp_ms (core s), rdp_state := RDP_OPEN\<rparr>) s;
               r = rdp (arr_conn s c);
               s = snd (csp_rdp_send_cmp nh c None RDP_ACK (snd_nxt r) (rcv_cur r) s)
           in (Discard_open False, rdp_post c s)
      else if fl AND RDP_ACK \<noteq> 0
      then let r = rdp (arr_conn s c);
               s = snd (csp_rdp_send_cmp nh c None RDP_RST (snd_nxt r) (rcv_cur r) s)
           in (Discard_open False, rdp_post c s)
      else (Discard_close CSP_RDP_CLOSED_BY_PROTOCOL, s))"

text \<open>Posting a connection to the queue of its socket; \<open>None\<close> when the socket has no queue.\<close>

definition sock_enqueue :: "addr \<Rightarrow> sock_item \<Rightarrow> 'd csp_state \<Rightarrow> (int \<times> 'd csp_state) option" where
  "sock_enqueue i x s =
     (case sock_rx_queue (sockets s i) of
        None \<Rightarrow> None
      | Some q \<Rightarrow> let (r, q) = csp_queue_enqueue q x in Some (r, upd_socket i (\<lambda>k. k\<lparr>sock_rx_queue := Some q\<rparr>) s))"

text \<open>The end of the handshake; \<open>False\<close> when the connection must be closed.\<close>

definition rdp_rx_established :: "addr \<Rightarrow> u16 \<Rightarrow> 'd csp_state \<Rightarrow> (bool \<times> 'd csp_state) option" where
  "rdp_rx_established c ak s =
     (if ak \<noteq> snd_iss (rdp (arr_conn s c)) then Some (False, s)
      else let s = upd_rdp c (\<lambda>r. r\<lparr>rdp_state := RDP_OPEN\<rparr>) s
           in case dest_socket (arr_conn s c) of
                None \<Rightarrow> Some (True, s)
              | Some i \<Rightarrow>
                  (case sock_enqueue i (Sock_conn c) s of
                     None \<Rightarrow> None
                   | Some (r, s) \<Rightarrow>
                       if r = CSP_QUEUE_ERROR then Some (False, s)
                       else Some (True, upd_conn c (\<lambda>k. k\<lparr>dest_socket := None\<rparr>) s)))"

text \<open>The payload of a segment that passed the checks.\<close>

definition rdp_rx_data :: "'d nexthop_fn \<Rightarrow> addr \<Rightarrow> addr \<Rightarrow> u8 \<Rightarrow> u16 \<Rightarrow> u16 \<Rightarrow> 'd csp_state \<Rightarrow> rdp_exit \<times> 'd csp_state" where
  "rdp_rx_data nh c p fl sq ak s =
     (let s = (if dest_socket (arr_conn s c) = None then upd_conn c (\<lambda>k. k\<lparr>conn_timestamp := csp_ms (core s)\<rparr>) s else s);
          s = upd_rdp c (\<lambda>r. r\<lparr>snd_una := ak + 1\<rparr>) s
      in if fl AND RDP_EAK \<noteq> 0 then (Discard_open False, s)
         else if unat (pkt_length (pkt s p)) \<le> RDP_HEADER_LEN then (Discard_open False, s)
         else if sq \<noteq> rcv_cur (rdp (arr_conn s c)) + 1
         then let (r, s) = csp_rdp_rx_queue_add c p sq s
              in if r \<noteq> CSP_ERR_NONE then (Discard_open False, snd (csp_rdp_check_ack nh c s)) else (Accepted_open, s)
         else let (r, s) = csp_rdp_receive_data c p s
              in if r \<noteq> CSP_ERR_NONE then (Discard_open False, s)
                 else let s = upd_rdp c (\<lambda>r. r\<lparr>rcv_cur := sq\<rparr>) s;
                          s = snd (csp_rdp_check_ack nh c s)
                      in (Accepted_open, csp_rdp_rx_queue_flush c s))"

text \<open>The check of an acknowledgement number against the transmit window.\<close>

definition rdp_ack_valid :: "u16 \<Rightarrow> csp_rdp \<Rightarrow> bool" where
  "rdp_ack_valid ak r =
     csp_rdp_seq_between ak (ucast (ucast (snd_una r) - 1 - window_size r * 2)) (snd_nxt r - 1)"

definition rdp_rx_open ::
  "'d nexthop_fn \<Rightarrow> addr \<Rightarrow> addr \<Rightarrow> u8 \<Rightarrow> u16 \<Rightarrow> u16 \<Rightarrow> 'd csp_state \<Rightarrow> (rdp_exit \<times> 'd csp_state) option" where
  "rdp_rx_open nh c p fl sq ak s =
     (let r = rdp (arr_conn s c)
      in if fl AND RDP_SYN \<noteq> 0 \<or> fl AND RDP_ACK = 0
         then Some (if sq \<noteq> rcv_irs r then Discard_close CSP_RDP_CLOSED_BY_PROTOCOL else Discard_open False, s)
         else if \<not> csp_rdp_seq_between sq (rcv_cur r + 1) (ucast (ucast (rcv_cur r) + window_size r * 2))
         then Some (Discard_open False,
                    if rdp_state r = RDP_SYN_RCVD
                    then snd (csp_rdp_send_cmp nh c None (RDP_ACK OR RDP_SYN) (snd_iss r) (rcv_irs r) s) else s)
         else if \<not> rdp_ack_valid ak r then Some (Discard_open False, s)
         else case (if rdp_state r = RDP_SYN_RCVD then rdp_rx_established c ak s else Some (True, s)) of
                None \<Rightarrow> None
              | Some (ok, s) \<Rightarrow>
                  Some (if \<not> ok then (Discard_close CSP_RDP_CLOSED_BY_PROTOCOL, s) else rdp_rx_data nh c p fl sq ak s))"

definition rdp_rx_close_wait :: "'d nexthop_fn \<Rightarrow> addr \<Rightarrow> u8 \<Rightarrow> u16 \<Rightarrow> 'd csp_state \<Rightarrow> rdp_exit \<times> 'd csp_state" where
  "rdp_rx_close_wait nh c fl ak s =
     (if fl AND RDP_SYN \<noteq> 0 \<or> fl AND RDP_ACK = 0 then (Discard_open False, s)
      else if \<not> rdp_ack_valid ak (rdp (arr_conn s c)) then (Discard_open False, s)
      else let s = upd_rdp c (\<lambda>r. r\<lparr>snd_una := ak + 1\<rparr>) s;
               r = rdp (arr_conn s c)
           in (Discard_open False, snd (csp_rdp_send_cmp nh c None (RDP_ACK OR RDP_RST) (snd_nxt r) (rcv_cur r) s)))"

text \<open>The labels \<^verbatim>\<open>discard_close\<close>, \<^verbatim>\<open>discard_open\<close> and \<^verbatim>\<open>accepted_open\<close>.\<close>

definition rdp_rx_exit :: "'d nexthop_fn \<Rightarrow> addr \<Rightarrow> addr \<Rightarrow> rdp_exit \<Rightarrow> 'd csp_state \<Rightarrow> bool \<times> 'd csp_state" where
  "rdp_rx_exit nh c p ex s =
     (case ex of
        Accepted_open \<Rightarrow> (False, s)
      | Discard_open close_connection \<Rightarrow> (close_connection, free_pkt p s)
      | Discard_close by \<Rightarrow>
          let s = (if dest_socket (arr_conn s c) = None
                   then snd (csp_conn_enqueue_packet (Some c) None (snd (csp_conn_close nh (Some c) by s)))
                   else snd (csp_conn_close nh (Some c) (by OR CSP_RDP_CLOSED_BY_USERSPACE) s))
          in (False, free_pkt p s))"

text \<open>The conversion of the header to host byte order, in place.\<close>

definition rdp_header_to_host :: "csp_packet \<Rightarrow> csp_packet" where
  "rdp_header_to_host k =
     (let k = set_hdr 3 (le_bytes 2 (hdr_ack_be k)) k in set_hdr 1 (le_bytes 2 (hdr_seq_be k)) k)"

text \<open>The reset branch and the switch over the states.\<close>

definition rdp_rx_dispatch ::
  "'d nexthop_fn \<Rightarrow> (u32 \<Rightarrow> u32) \<Rightarrow> addr \<Rightarrow> addr \<Rightarrow> u8 \<Rightarrow> u16 \<Rightarrow> u16 \<Rightarrow> 'd csp_state \<Rightarrow> (rdp_exit \<times> 'd csp_state) option" where
  "rdp_rx_dispatch nh rnd c p fl sq ak s =
     (if fl AND RDP_RST \<noteq> 0 then Some (rdp_rx_rst nh c fl sq ak s)
      else case rdp_state (rdp (arr_conn s c)) of
             RDP_CLOSED \<Rightarrow> Some (rdp_rx_closed nh rnd c p fl sq s)
           | RDP_SYN_SENT \<Rightarrow> Some (rdp_rx_syn_sent nh c fl sq ak s)
           | RDP_SYN_RCVD \<Rightarrow> rdp_rx_open nh c p fl sq ak s
           | RDP_OPEN \<Rightarrow> rdp_rx_open nh c p fl sq ak s
           | RDP_CLOSE_WAIT \<Rightarrow> Some (rdp_rx_close_wait nh c fl ak s))"

definition csp_rdp_new_packet ::
  "'d nexthop_fn \<Rightarrow> (u32 \<Rightarrow> u32) \<Rightarrow> addr \<Rightarrow> addr \<Rightarrow> 'd csp_state \<Rightarrow> (bool \<times> 'd csp_state) option" where
  "csp_rdp_new_packet nh rnd c p s =
     (let s = upd_pkt p rdp_header_to_host s;
          h = pkt s p
      in case rdp_rx_dispatch nh rnd c p (hdr_flags h) (hdr_seq_he h) (hdr_ack_he h) s of
           None \<Rightarrow> None
         | Some (ex, s) \<Rightarrow> Some (rdp_rx_exit nh c p ex s))"

lemma new_packet_run:
  assumes "csp_rdp_new_packet nh rnd c p s = Some (b, s')" and k: "k = rdp_header_to_host (pkt s p)"
  obtains ex s2 where
    "rdp_rx_dispatch nh rnd c p (hdr_flags k) (hdr_seq_he k) (hdr_ack_he k) (upd_pkt p rdp_header_to_host s) = Some (ex, s2)"
    "rdp_rx_exit nh c p ex s2 = (b, s')"
proof -
  have h: "pkt (upd_pkt p rdp_header_to_host s) p = k" by (simp add: k upd_pkt_def on_core_def)
  show thesis
    using assms(1) that by (auto simp: csp_rdp_new_packet_def h Let_def split: option.splits)
qed

section \<open>Connecting and sending\<close>

text \<open>
  A wait on the semaphore of a connection: if it is not up, the other tasks run
  (\<open>wt timeout\<close>) until it is or the time is over.
\<close>

definition rdp_wait :: "(u32 \<Rightarrow> 'd csp_state \<Rightarrow> 'd csp_state) \<Rightarrow> addr \<Rightarrow> u32 \<Rightarrow> 'd csp_state \<Rightarrow> int \<times> 'd csp_state" where
  "rdp_wait wt c timeout s =
     (let s = (if tx_wait (rdp (arr_conn s c)) > 0 then s else wt timeout s);
          (r, v) = csp_bin_sem_wait (tx_wait (rdp (arr_conn s c)))
      in (r, upd_rdp c (\<lambda>r. r\<lparr>tx_wait := v\<rparr>) s))"

definition rdp_connect_error :: "'d nexthop_fn \<Rightarrow> addr \<Rightarrow> 'd csp_state \<Rightarrow> int \<times> 'd csp_state" where
  "rdp_connect_error nh c s = (CSP_ERR_TIMEDOUT, snd (csp_rdp_close_internal nh c CSP_RDP_CLOSED_BY_PROTOCOL False s))"

text \<open>Choosing a sequence number and sending the SYN.\<close>

definition rdp_connect_syn :: "'d nexthop_fn \<Rightarrow> (u32 \<Rightarrow> u32) \<Rightarrow> addr \<Rightarrow> 'd csp_state \<Rightarrow> int \<times> 'd csp_state" where
  "rdp_connect_syn nh rnd c s =
     (let iss = ucast (rnd (csp_ms (core s)));
          s = upd_rdp c (\<lambda>r. r\<lparr>snd_iss := iss, snd_nxt := iss + 1, snd_una := iss\<rparr>) s;
          s = upd_rdp c (\<lambda>r. r\<lparr>tx_wait := snd (csp_bin_sem_wait (tx_wait r))\<rparr>) s;
          s = upd_rdp c (\<lambda>r. r\<lparr>rdp_state := RDP_SYN_SENT\<rparr>) s
      in csp_rdp_send_syn nh c s)"

fun rdp_connect_loop :: "nat \<Rightarrow> 'd nexthop_fn \<Rightarrow> (u32 \<Rightarrow> u32) \<Rightarrow> (u32 \<Rightarrow> 'd csp_state \<Rightarrow> 'd csp_state) \<Rightarrow> addr \<Rightarrow>
    'd csp_state \<Rightarrow> int \<times> 'd csp_state" where
  "rdp_connect_loop retry nh rnd wt c s =
     (if rdp_state (rdp (arr_conn s c)) = RDP_OPEN then (CSP_ERR_ALREADY, s)
      else let (sent, s) = rdp_connect_syn nh rnd c s
           in if sent \<noteq> CSP_ERR_NONE then rdp_connect_error nh c s
              else let (result, s) = rdp_wait wt c (conn_timeout (rdp (arr_conn s c))) s
                   in if result = CSP_SEMAPHORE_OK \<and> rdp_state (rdp (arr_conn s c)) = RDP_OPEN then (CSP_ERR_NONE, s)
                      else if result = CSP_SEMAPHORE_OK \<and> rdp_state (rdp (arr_conn s c)) = RDP_SYN_SENT
                      then case retry of
                             Suc n \<Rightarrow> rdp_connect_loop n nh rnd wt c (csp_rdp_queue_flush (Some c) s)
                           | 0 \<Rightarrow> rdp_connect_error nh c s
                      else rdp_connect_error nh c s)"

declare rdp_connect_loop.simps [simp del]

definition csp_rdp_connect ::
  "'d nexthop_fn \<Rightarrow> (u32 \<Rightarrow> u32) \<Rightarrow> (u32 \<Rightarrow> 'd csp_state \<Rightarrow> 'd csp_state) \<Rightarrow> addr \<Rightarrow> 'd csp_state \<Rightarrow> int \<times> 'd csp_state" where
  "csp_rdp_connect nh rnd wt c s =
     rdp_connect_loop 1 nh rnd wt c
       (upd_rdp c (\<lambda>r. r\<lparr>window_size := csp_rdp_window_size s, conn_timeout := csp_rdp_conn_timeout s,
          packet_timeout := csp_rdp_packet_timeout s, delayed_acks := csp_rdp_delayed_acks s,
          ack_timeout := csp_rdp_ack_timeout s, ack_delay_count := csp_rdp_ack_delay_count s,
          ack_timestamp := csp_ms (core s)\<rparr>) s)"

text \<open>The wait for the window; \<open>True\<close> when there is room, \<open>None\<close> when the loop never ends.\<close>

partial_function (option) rdp_send_wait ::
  "(u32 \<Rightarrow> 'd csp_state \<Rightarrow> 'd csp_state) \<Rightarrow> addr \<Rightarrow> 'd csp_state \<Rightarrow> (bool \<times> 'd csp_state) option" where
  "rdp_send_wait wt c s =
     (if rdp_state (rdp (arr_conn s c)) = RDP_CLOSE_WAIT \<or> rdp_state (rdp (arr_conn s c)) = RDP_CLOSED then Some (False, s)
      else if csp_rdp_is_conn_ready_for_tx c s then Some (True, s)
      else rdp_send_wait wt c (snd (rdp_wait wt c (conn_timeout (rdp (arr_conn s c))) s)))"

definition rdp_data_header :: "addr \<Rightarrow> addr \<Rightarrow> 'd csp_state \<Rightarrow> 'd csp_state" where
  "rdp_data_header c p s =
     (let r = rdp (arr_conn s c);
          s = upd_pkt p (set_hdr 3 (be_bytes 2 (rcv_cur r))) s;
          s = upd_pkt p (set_hdr 1 (be_bytes 2 (snd_nxt r))) s
      in upd_pkt p (\<lambda>k. set_hdr 0 [hdr_flags k OR RDP_ACK] k) s)"

text \<open>The part of \<^verbatim>\<open>csp_rdp_send\<close> after the wait.\<close>

definition rdp_send_segment :: "addr \<Rightarrow> addr \<Rightarrow> 'd csp_state \<Rightarrow> int \<times> 'd csp_state" where
  "rdp_send_segment c p s =
     (let (ok, s) = csp_rdp_header_add p s
      in if \<not> ok then (CSP_ERR_NOMEM, s)
         else let s = rdp_data_header c p s;
                  (rdp_packet, s) = in_core (csp_buffer_clone (Some p)) s
              in case rdp_packet of
                   None \<Rightarrow> (CSP_ERR_NOMEM, s)
                 | Some q \<Rightarrow>
                     let s = upd_pkt q (\<lambda>k. k\<lparr>timestamp_tx := csp_ms (core s)\<rparr>) s;
                         s = csp_rdp_queue_tx_add c q s;
                         s = upd_rdp c (\<lambda>r. r\<lparr>snd_nxt := snd_nxt r + 1, ack_timestamp := csp_ms (core s)\<rparr>) s
                     in (CSP_ERR_NONE, s))"

definition csp_rdp_send ::
  "(u32 \<Rightarrow> 'd csp_state \<Rightarrow> 'd csp_state) \<Rightarrow> addr \<Rightarrow> addr \<Rightarrow> 'd csp_state \<Rightarrow> (int \<times> 'd csp_state) option" where
  "csp_rdp_send wt c p s =
     (if rdp_state (rdp (arr_conn s c)) \<noteq> RDP_OPEN then Some (CSP_ERR_RESET, s)
      else case rdp_send_wait wt c s of
             None \<Rightarrow> None
           | Some (ready, s) \<Rightarrow> if \<not> ready then Some (CSP_ERR_RESET, s) else Some (rdp_send_segment c p s))"

end
