(* ===== verification/CSP_Rdp_Own.thy ===== *)
theory CSP_Rdp_Own
  imports CSP_Rdp
begin

text \<open>
  The accounting of packets in the RDP protocol, and what its operations leave alone: the
  state machine, the timers, connecting and sending neither free a packet twice nor lose
  one, except that a SYN that cannot be queued for retransmission is leaked.
\<close>

section \<open>Frames\<close>

text \<open>
  Receiving changes of a connection only its receive queue, the last number received and
  the acknowledgement data.
\<close>

definition rx_frame :: "addr \<Rightarrow> 'd csp_state \<Rightarrow> 'd csp_state \<Rightarrow> bool" where
  "rx_frame c s s' \<longleftrightarrow> (\<exists>q a b d. arr_conn s' = (arr_conn s)(c := (arr_conn s c)\<lparr>conn_rx_queue := q,
       rdp := (rdp (arr_conn s c))\<lparr>rcv_cur := a, rcv_lsa := b, ack_timestamp := d\<rparr>\<rparr>))
     \<and> sockets s' = sockets s \<and> ports s' = ports s
     \<and> csp_conf (core s') = csp_conf (core s) \<and> csp_ms (core s') = csp_ms (core s)"

lemma rx_frameI:
  assumes "arr_conn s' = (arr_conn s)(c := (arr_conn s c)\<lparr>conn_rx_queue := q, rdp := (rdp (arr_conn s c))\<lparr>rcv_cur := a, rcv_lsa := b, ack_timestamp := d\<rparr>\<rparr>)"
    "sockets s' = sockets s" "ports s' = ports s" "csp_conf (core s') = csp_conf (core s)" "csp_ms (core s') = csp_ms (core s)"
  shows "rx_frame c s s'"
  using assms unfolding rx_frame_def by blast

lemma rx_frame_refl [simp]: "rx_frame c s s"
  by (rule rx_frameI [where q = "conn_rx_queue (arr_conn s c)" and a = "rcv_cur (rdp (arr_conn s c))"
        and b = "rcv_lsa (rdp (arr_conn s c))" and d = "ack_timestamp (rdp (arr_conn s c))"]) simp_all

lemma rx_frame_trans: "rx_frame c s1 s2 \<Longrightarrow> rx_frame c s2 s3 \<Longrightarrow> rx_frame c s1 s3"
  unfolding rx_frame_def by (clarsimp, metis)

lemma rx_frame_eq:
  "arr_conn s' = arr_conn s \<Longrightarrow> sockets s' = sockets s \<Longrightarrow> ports s' = ports s
     \<Longrightarrow> csp_conf (core s') = csp_conf (core s) \<Longrightarrow> csp_ms (core s') = csp_ms (core s) \<Longrightarrow> rx_frame c s s'"
  using rx_frame_refl [of c s] unfolding rx_frame_def by simp

lemma rx_frameD:
  assumes "rx_frame c s s'"
  shows "j \<noteq> c \<Longrightarrow> arr_conn s' j = arr_conn s j" "rdp_state (rdp (arr_conn s' j)) = rdp_state (rdp (arr_conn s j))"
    "closed_by (rdp (arr_conn s' j)) = closed_by (rdp (arr_conn s j))" "dest_socket (arr_conn s' j) = dest_socket (arr_conn s j)"
    "conn_state (arr_conn s' j) = conn_state (arr_conn s j)" "idin (arr_conn s' j) = idin (arr_conn s j)"
    "idout (arr_conn s' j) = idout (arr_conn s j)" "snd_una (rdp (arr_conn s' j)) = snd_una (rdp (arr_conn s j))"
    "snd_nxt (rdp (arr_conn s' j)) = snd_nxt (rdp (arr_conn s j))" "window_size (rdp (arr_conn s' j)) = window_size (rdp (arr_conn s j))"
    "sockets s' = sockets s" "ports s' = ports s" "csp_ms (core s') = csp_ms (core s)"
  using assms by (auto simp: rx_frame_def)

lemma cmp_rx_frame: "cmp_frame c s s' \<Longrightarrow> rx_frame c s s'"
proof -
  assume fr: "cmp_frame c s s'"
  then obtain a b where arr: "arr_conn s' = (arr_conn s)(c := (arr_conn s c)\<lparr>rdp := (rdp (arr_conn s c))\<lparr>rcv_lsa := a, ack_timestamp := b\<rparr>\<rparr>)"
    by (auto simp: cmp_frame_def)
  then have "arr_conn s' = (arr_conn s)(c := (arr_conn s c)\<lparr>conn_rx_queue := conn_rx_queue (arr_conn s c),
      rdp := (rdp (arr_conn s c))\<lparr>rcv_cur := rcv_cur (rdp (arr_conn s c)), rcv_lsa := a, ack_timestamp := b\<rparr>\<rparr>)"
    by simp
  then show ?thesis by (rule rx_frameI) (use cmp_frameD [OF fr] in simp_all)
qed

lemma rdp_rx_frame: "rdp_frame s s' \<Longrightarrow> rx_frame c s s'"
  by (rule rx_frame_eq) (simp_all add: rdp_frameD)

lemma rx_frame_upds [simp]:
  "rx_frame c s (upd_pkt p g s)" "rx_frame c s (free_pkt p s)" "rx_frame c s (conn_ovf s)"
  "rx_frame c s (upd_conn c (\<lambda>k. k\<lparr>conn_rx_queue := q\<rparr>) s)" "rx_frame c s (upd_rdp c (\<lambda>r. r\<lparr>rcv_cur := a r\<rparr>) s)"
proof -
  show "rx_frame c s (upd_pkt p g s)" "rx_frame c s (free_pkt p s)" "rx_frame c s (conn_ovf s)"
    by (rule rx_frame_eq; simp add: upd_pkt_def on_core_def free_pkt_def conn_ovf_def)+
  show "rx_frame c s (upd_conn c (\<lambda>k. k\<lparr>conn_rx_queue := q\<rparr>) s)"
    by (rule rx_frameI [where q = q and a = "rcv_cur (rdp (arr_conn s c))" and b = "rcv_lsa (rdp (arr_conn s c))"
          and d = "ack_timestamp (rdp (arr_conn s c))"])
      (simp_all add: upd_conn_def)
  show "rx_frame c s (upd_rdp c (\<lambda>r. r\<lparr>rcv_cur := a r\<rparr>) s)"
    by (rule rx_frameI [where q = "conn_rx_queue (arr_conn s c)" and a = "a (rdp (arr_conn s c))"
          and b = "rcv_lsa (rdp (arr_conn s c))" and d = "ack_timestamp (rdp (arr_conn s c))"]) (cases "arr_conn s c"; simp add: upd_rdp_def upd_conn_def)+
qed

section \<open>Receiving data\<close>

lemma receive_data_own:
  assumes own: "own dh (tok p f) s" and c: "c < CSP_CONN_MAX" and run: "csp_rdp_receive_data c p s = (r, s')"
  shows "own dh (if r = CSP_ERR_NONE then f else tok p f) s'" "rx_frame c s s'"
proof -
  let ?s1 = "csp_rdp_header_remove p s"
  obtain e s2 where enq: "csp_conn_enqueue_packet (Some c) (Some p) ?s1 = (e, s2)" by fastforce
  have own1: "own dh (otok (Some p) f) ?s1" using own by (simp add: csp_rdp_header_remove_def)
  have "rx_frame c ?s1 s2"
    using enq rx_frame_trans [OF rx_frame_upds(4) rx_frame_upds(3)]
    by (auto simp: csp_conn_enqueue_packet_def Let_def split: prod.splits if_splits)
  then have fr: "rx_frame c s s2"
    unfolding csp_rdp_header_remove_def by (rule rx_frame_trans [OF rx_frame_upds(1)])
  show "own dh (if r = CSP_ERR_NONE then f else tok p f) s'"
    using run enq own_conn_enqueue_packet [OF own1 c enq] by (auto simp: csp_rdp_receive_data_def split: if_splits)
  show "rx_frame c s s'"
    using run enq fr rx_frame_trans [OF fr rx_frame_upds(3)] by (auto simp: csp_rdp_receive_data_def split: if_splits)
qed

lemma rx_flush_for_own:
  "own dh f s \<Longrightarrow> c < CSP_CONN_MAX \<Longrightarrow> rx_flush_for n c s = (b, s') \<Longrightarrow> own dh f s' \<and> rx_frame c s s'"
proof (induction n arbitrary: s)
  case (Suc n)
  show ?case
  proof (cases "csp_queue_free (conn_rx_queue (arr_conn s c)) \<le> 2")
    case True
    with Suc.prems show ?thesis by auto
  next
    case room: False
    obtain r s1 where get: "csp_rdp_queue_rx_get c s = (r, s1)" by fastforce
    note one = rdp_rx_get [OF Suc.prems(1) get]
    have fr1: "rx_frame c s s1" using one(2) by (rule rdp_rx_frame)
    show ?thesis
    proof (cases r)
      case None
      with Suc.prems room get one fr1 show ?thesis by auto
    next
      case (Some p)
      then have own1: "own dh (tok p f) s1" using one(1) by simp
      show ?thesis
      proof (cases "hdr_seq_he (pkt s1 p) = rcv_cur (rdp (arr_conn s1 c)) + 1")
        case True
        obtain e s2 where rd: "csp_rdp_receive_data c p s1 = (e, s2)" by fastforce
        note two = receive_data_own [OF own1 Suc.prems(2) rd]
        define s3 where "s3 = (if e \<noteq> CSP_ERR_NONE then free_pkt p s2 else s2)"
        have three: "own dh f s3" "rx_frame c s s3"
          using two fr1 own_free by (auto simp: s3_def intro: rx_frame_trans)
        have "s' = upd_rdp c (\<lambda>r. r\<lparr>rcv_cur := rcv_cur r + 1\<rparr>) s3"
          using Suc.prems(3) room get Some True rd by (simp add: s3_def Let_def)
        with three show ?thesis by (auto intro: rx_frame_trans)
      next
        case False
        have run: "rx_flush_for n c (csp_rdp_queue_rx_add c p s1) = (b, s')"
          using Suc.prems(3) room get Some False by simp
        from Suc.IH [OF rdp_rx_add(1) [OF own1] Suc.prems(2) run] fr1 rdp_rx_frame [OF rdp_rx_add(2) [OF own1]]
        show ?thesis by (blast intro: rx_frame_trans)
      qed
    qed
  qed
qed simp

lemma rx_queue_flush_own:
  "own dh f s \<Longrightarrow> c < CSP_CONN_MAX \<Longrightarrow> own dh f (csp_rdp_rx_queue_flush c s) \<and> rx_frame c s (csp_rdp_rx_queue_flush c s)"
proof (induction c s rule: csp_rdp_rx_queue_flush.induct)
  case (1 c s)
  obtain b s1 where run: "rx_flush_for (csp_rdp_queue_rx_size s) c s = (b, s1)" by fastforce
  have one: "own dh f s1" "rx_frame c s s1" using rx_flush_for_own [OF 1(2,3) run] by simp_all
  show ?case
  proof (cases b)
    case True
    from 1(1) [OF run [symmetric] _ True one(1) 1(3)] have "own dh f (csp_rdp_rx_queue_flush c s1) \<and> rx_frame c s1 (csp_rdp_rx_queue_flush c s1)"
      by simp
    with one run True show ?thesis
      by (subst (1 2) csp_rdp_rx_queue_flush.simps) (auto intro: rx_frame_trans)
  next
    case False
    with one run show ?thesis by (subst (1 2) csp_rdp_rx_queue_flush.simps) simp
  qed
qed

lemma seq_in_rx_own:
  "own dh f s \<Longrightarrow> seq_in_rx_loop n c sq s = (b, s') \<Longrightarrow> own dh f s' \<and> rdp_frame s s'"
proof (induction n arbitrary: s)
  case (Suc n)
  obtain r s1 where get: "csp_rdp_queue_rx_get c s = (r, s1)" by fastforce
  note one = rdp_rx_get [OF Suc.prems(1) get]
  show ?case
  proof (cases r)
    case None
    with Suc.prems(2) get one show ?thesis by auto
  next
    case (Some p)
    then have own1: "own dh (tok p f) s1" using one(1) by simp
    note two = rdp_rx_add [OF own1, of c]
    have fr: "rdp_frame s (csp_rdp_queue_rx_add c p s1)" using one(2) two(2) by (rule rdp_frame_trans)
    show ?thesis
      using Suc.prems(2) get Some two(1) fr Suc.IH [OF two(1)]
      by (auto simp: Let_def split: if_splits intro: rdp_frame_trans)
  qed
qed simp

lemma rx_queue_add_own:
  assumes own: "own dh (tok p f) s" and run: "csp_rdp_rx_queue_add c p sq s = (r, s')"
  shows "own dh (if r = CSP_ERR_NONE then f else tok p f) s'" "rdp_frame s s'"
proof -
  obtain b s1 where chk: "seq_in_rx_loop (csp_rdp_queue_rx_size s) c sq s = (b, s1)" by fastforce
  have one: "own dh (tok p f) s1" "rdp_frame s s1" using seq_in_rx_own [OF own chk] by simp_all
  note two = rdp_rx_add [OF one(1), of c]
  show "own dh (if r = CSP_ERR_NONE then f else tok p f) s'" "rdp_frame s s'"
    using run chk one two rdp_frame_trans [OF one(2) two(2)]
    by (auto simp: csp_rdp_rx_queue_add_def csp_rdp_seq_in_rx_queue_def split: if_splits)
qed

section \<open>The state machine\<close>

lemma tok_commute: "tok p (tok q f) = tok q (tok p f)"
  by (auto simp: tok_apply)

lemma own_buffer_copy [simp]: "own dh f (on_core (csp_buffer_copy a b) s) = own dh f s"
  unfolding on_core_def by (rule own_core_cong) (simp_all add: csp_buffer_copy_def split: option.split)

lemma own_rdp_post [simp]: "own dh f (rdp_post c s) = own dh f s"
  by (simp add: rdp_post_def)

text \<open>The accounting after an operation that may leak one of the buffers in \<open>X\<close>.\<close>

definition own_leak :: "('d \<Rightarrow> addr \<Rightarrow> nat) \<Rightarrow> addr set \<Rightarrow> (addr \<Rightarrow> nat) \<Rightarrow> 'd csp_state \<Rightarrow> bool" where
  "own_leak dh X f s \<longleftrightarrow> own dh f s \<or> (\<exists>x\<in>X. own dh (tok x f) s)"

lemma own_leakI: "own dh f s \<Longrightarrow> own_leak dh X f s"
  by (simp add: own_leak_def)

lemma own_leak_empty [simp]: "own_leak dh {} f s = own dh f s"
  by (simp add: own_leak_def)

lemma own_leak_mono: "own_leak dh X f s \<Longrightarrow> X \<subseteq> Y \<Longrightarrow> own_leak dh Y f s"
  unfolding own_leak_def by blast

lemma own_leak_map: "own_leak dh X f s \<Longrightarrow> (\<And>g. own dh g s \<Longrightarrow> own dh g s') \<Longrightarrow> own_leak dh X f s'"
  unfolding own_leak_def by blast

lemma own_leak_consume:
  assumes "own_leak dh X (tok p f) s" "\<And>g. own dh (tok p g) s \<Longrightarrow> own dh g s'"
  shows "own_leak dh X f s'"
  using assms unfolding own_leak_def by (metis tok_commute)

text \<open>The buffers nobody refers to.\<close>

definition unused :: "'d csp_state \<Rightarrow> addr set" where
  "unused s = {x. buf_refs (core s) x = 0}"

lemma unused_upds [simp]: "unused (upd_rdp c g s) = unused s" "unused (upd_conn c h s) = unused s" "unused (upd_pkt p k s) = unused s"
  by (simp_all add: unused_def upd_rdp_def upd_conn_def upd_pkt_def on_core_def)

text \<open>The segments that are answered with a SYN: a SYN that opens a connection, and one outside
  the window while the connection waits for the acknowledgement of its own SYN.\<close>

definition answers_syn :: "u8 \<Rightarrow> u16 \<Rightarrow> csp_rdp \<Rightarrow> bool" where
  "answers_syn fl sq r \<longleftrightarrow> fl AND RDP_RST = 0 \<and>
     (rdp_state r = RDP_CLOSED \<and> fl AND 0x0f = RDP_SYN \<or>
      rdp_state r = RDP_SYN_RCVD \<and> fl AND RDP_SYN = 0 \<and> fl AND RDP_ACK \<noteq> 0
        \<and> \<not> csp_rdp_seq_between sq (rcv_cur r + 1) (ucast (ucast (rcv_cur r) + window_size r * 2)))"

lemma own_sock_enqueue_conn:
  assumes "own dh f s" "sock_enqueue i (Sock_conn c) s = Some (r, s')"
  shows "own dh f s'"
proof -
  obtain q r' q' where q: "sock_rx_queue (sockets s i) = Some q" "csp_queue_enqueue q (Sock_conn c) = (r', q')"
      "s' = upd_socket i (\<lambda>k. k\<lparr>sock_rx_queue := Some q'\<rparr>) s"
    using assms(2) by (auto simp: sock_enqueue_def split: option.splits prod.splits)
  from own_sock_enqueue [OF _ q(1,2), of dh f] assms(1) q(3) show ?thesis by (simp split: if_splits)
qed

lemma rx_established_own:
  assumes "own dh f s" "rdp_rx_established c ak s = Some (ok, s')"
  shows "own dh f s'"
proof -
  let ?s1 = "upd_rdp c (\<lambda>r. r\<lparr>rdp_state := RDP_OPEN\<rparr>) s"
  have own1: "own dh f ?s1" using assms(1) by simp
  consider "s' = s" | "s' = ?s1" | i r s2 where "sock_enqueue i (Sock_conn c) ?s1 = Some (r, s2)"
      "s' = s2 \<or> s' = upd_conn c (\<lambda>k. k\<lparr>dest_socket := None\<rparr>) s2"
    using assms(2) by (auto simp: rdp_rx_established_def Let_def split: if_splits option.splits)
  then show ?thesis
    by cases (use assms(1) own1 own_sock_enqueue_conn [OF own1] in auto)
qed

lemma rdp_exit_cases:
  obtains (close) "by" where "ex = Discard_close by" | (discard) b where "ex = Discard_open b" | (accept) "ex = Accepted_open"
  by (cases ex)

context nexthop_contract
begin

lemma send_cmp_own: "own dh f s \<Longrightarrow> fl AND RDP_SYN = 0 \<Longrightarrow> own dh f (snd (csp_rdp_send_cmp nh c None fl sq ak s))"
  by (rule send_cmp_exact(1) [OF _ _ refl])

lemma check_ack_own:
  assumes "own dh f s"
  shows "own dh f (snd (csp_rdp_check_ack nh c s))" "cmp_frame c s (snd (csp_rdp_check_ack nh c s))"
    "pkts_kept {} s (snd (csp_rdp_check_ack nh c s))"
  using send_cmp_exact [OF assms, of RDP_ACK _ c] assms by (simp_all add: csp_rdp_check_ack_def Let_def)

lemma retransmit_own:
  assumes own: "own dh (tok p f) s"
  shows "own dh (tok p f) (rdp_retransmit nh c p s)"
proof -
  obtain b s1 where get: "in_core csp_buffer_get s = (b, s1)" by fastforce
  note own1 = own_get [OF own get]
  show ?thesis
  proof (cases b)
    case None
    with own1 get show ?thesis by (simp add: rdp_retransmit_def)
  next
    case (Some q)
    then have "own dh (tok q (tok p f)) s1" using own1 by simp
    then show ?thesis using get Some
      by (auto simp: rdp_retransmit_def Let_def intro!: send_direct_contract [THEN conjunct1])
  qed
qed

lemma tx_loop_own: "own dh f s \<Longrightarrow> own dh f (rdp_tx_loop n nh c t s)"
proof (induction n arbitrary: s)
  case (Suc n)
  obtain r s1 where get: "csp_rdp_queue_tx_get c s = (r, s1)" by fastforce
  note own1 = rdp_tx_get(1) [OF Suc.prems get]
  show ?case
  proof (cases r)
    case None
    with get own1 show ?thesis by simp
  next
    case (Some p)
    then have own2: "own dh (tok p f) s1" using own1 by simp
    note re = rdp_tx_add(1) [OF own2, of c] rdp_tx_add(1) [OF retransmit_own [OF own2, of c], of c]
    show ?thesis
      using get Some Suc.IH [OF own_free [OF own2]] Suc.IH [OF re(1)] Suc.IH [OF re(2)] by (simp add: Let_def)
  qed
qed simp

lemma check_timeouts_own:
  assumes own: "own dh f s" and c: "c < CSP_CONN_MAX"
  shows "own dh f (csp_rdp_check_timeouts nh c s)"
proof -
  define s1 where "s1 = rdp_tx_loop (csp_rdp_queue_tx_size s) nh c (csp_ms (core s)) s"
  have one: "own dh f s1" unfolding s1_def by (rule tx_loop_own [OF own])
  define s2 where "s2 = (if rdp_state (rdp (arr_conn s1 c)) = RDP_OPEN
      then let s = (if delayed_acks (rdp (arr_conn s1 c)) \<noteq> 0 then snd (csp_rdp_check_ack nh c s1) else s1)
           in if csp_rdp_is_conn_ready_for_tx c s then rdp_post c s else s
      else s1)"
  have two: "own dh f s2" using one check_ack_own(1) [OF one] by (simp add: s2_def Let_def)
  have "csp_rdp_check_timeouts nh c s \<in> {snd (csp_conn_close nh (Some c)
          (CSP_RDP_CLOSED_BY_USERSPACE OR CSP_RDP_CLOSED_BY_PROTOCOL OR CSP_RDP_CLOSED_BY_TIMEOUT) s),
        snd (csp_conn_close nh (Some c) (CSP_RDP_CLOSED_BY_PROTOCOL OR CSP_RDP_CLOSED_BY_TIMEOUT) s),
        csp_rdp_rx_queue_flush c s2}"
    by (simp add: csp_rdp_check_timeouts_def Let_def s1_def [symmetric] s2_def)
  then show ?thesis using conn_close_own [OF own c] rx_queue_flush_own [OF two c] by auto
qed

lemma rx_exit_own:
  assumes own: "own dh (if ex = Accepted_open then f else tok p f) s" and c: "c < CSP_CONN_MAX"
  shows "own dh f (snd (rdp_rx_exit nh c p ex s))"
proof (cases ex rule: rdp_exit_cases)
  case (close "by")
  then have own1: "own dh (tok p f) s" using own by simp
  obtain e s2 where enq: "csp_conn_enqueue_packet (Some c) None (snd (csp_conn_close nh (Some c) by s)) = (e, s2)" by fastforce
  have "own dh (tok p f) s2"
    using own_conn_enqueue_packet [OF _ c enq, of dh "tok p f"] conn_close_own [OF own1 c, of "by"] by (simp split: if_splits)
  then show ?thesis
    using close enq conn_close_own [OF own1 c] by (auto simp: rdp_rx_exit_def Let_def intro: own_free)
next
  case (discard b)
  with own show ?thesis by (auto simp: rdp_rx_exit_def intro: own_free)
next
  case accept
  with own show ?thesis by (simp add: rdp_rx_exit_def)
qed

lemma rx_rst_own:
  assumes "own dh f s"
  shows "own dh f (snd (rdp_rx_rst nh c fl sq ak s))" "fst (rdp_rx_rst nh c fl sq ak s) \<noteq> Accepted_open"
proof -
  let ?s1 = "if fl AND RDP_ACK \<noteq> 0 then upd_rdp c (\<lambda>r. r\<lparr>snd_una := ak + 1\<rparr>) s else s"
  have "own dh f ?s1" using assms by simp
  moreover have "own dh f (upd_conn c (\<lambda>k. k\<lparr>conn_timestamp := t\<rparr>) (upd_rdp c (\<lambda>r. r\<lparr>rdp_state := RDP_CLOSE_WAIT\<rparr>) ?s1))" for t
    using assms by simp
  note sent = send_cmp_exact(1) [OF this, of "RDP_ACK OR RDP_RST"]
  ultimately show "own dh f (snd (rdp_rx_rst nh c fl sq ak s))"
    by (auto simp: rdp_rx_rst_def Let_def intro: sent)
  show "fst (rdp_rx_rst nh c fl sq ak s) \<noteq> Accepted_open"
    by (simp add: rdp_rx_rst_def Let_def)
qed

lemma send_cmp_leak:
  assumes "own dh f s"
  shows "own_leak dh (unused s) f (snd (csp_rdp_send_cmp nh c None fl sq ak s))"
  using send_cmp_contract(1) [OF assms, of c fl sq ak] by (cases "csp_rdp_send_cmp nh c None fl sq ak s") (auto simp: own_leak_def unused_def)

lemma rx_closed_own:
  assumes "own dh f s"
  shows "own_leak dh (if fl AND 0x0f = RDP_SYN then unused s else {}) f (snd (rdp_rx_closed nh rnd c p fl sq s))"
    "fst (rdp_rx_closed nh rnd c p fl sq s) \<noteq> Accepted_open"
proof -
  show "fst (rdp_rx_closed nh rnd c p fl sq s) \<noteq> Accepted_open" by (simp add: rdp_rx_closed_def Let_def)
  show "own_leak dh (if fl AND 0x0f = RDP_SYN then unused s else {}) f (snd (rdp_rx_closed nh rnd c p fl sq s))"
  proof (cases "fl AND 0x0f = RDP_SYN")
    case True
    have lk: "own_leak dh (unused s) f (snd (csp_rdp_send_cmp nh c None fl' sq' ak' t))" if "own dh f t" "unused t = unused s" for fl' sq' ak' t
      using send_cmp_leak [OF that(1)] that(2) by metis
    show ?thesis using True assms by (simp add: rdp_rx_closed_def Let_def) (rule lk; simp)
  next
    case False
    then show ?thesis using assms by (auto simp: rdp_rx_closed_def Let_def intro!: send_cmp_own)
  qed
qed

lemma rx_syn_sent_own:
  assumes "own dh f s"
  shows "own dh f (snd (rdp_rx_syn_sent nh c fl sq ak s))" "fst (rdp_rx_syn_sent nh c fl sq ak s) \<noteq> Accepted_open"
  using assms by (auto simp: rdp_rx_syn_sent_def Let_def intro!: send_cmp_own)

lemma rx_close_wait_own:
  assumes "own dh f s"
  shows "own dh f (snd (rdp_rx_close_wait nh c fl ak s))" "fst (rdp_rx_close_wait nh c fl ak s) \<noteq> Accepted_open"
  using assms by (auto simp: rdp_rx_close_wait_def Let_def intro!: send_cmp_own)

lemma rx_data_own:
  assumes own: "own dh (tok p f) s" and c: "c < CSP_CONN_MAX"
  shows "own dh (if fst (rdp_rx_data nh c p fl sq ak s) = Accepted_open then f else tok p f) (snd (rdp_rx_data nh c p fl sq ak s))"
proof -
  define s1 where "s1 = upd_rdp c (\<lambda>r. r\<lparr>snd_una := ak + 1\<rparr>)
      (if dest_socket (arr_conn s c) = None then upd_conn c (\<lambda>k. k\<lparr>conn_timestamp := csp_ms (core s)\<rparr>) s else s)"
  have one: "own dh (tok p f) s1" using own by (simp add: s1_def)
  obtain r2 s2 where add: "csp_rdp_rx_queue_add c p sq s1 = (r2, s2)" by fastforce
  note two = rx_queue_add_own(1) [OF one add]
  obtain r3 s3 where rcv: "csp_rdp_receive_data c p s1 = (r3, s3)" by fastforce
  note three = receive_data_own(1) [OF one c rcv]
  let ?s4 = "snd (csp_rdp_check_ack nh c (upd_rdp c (\<lambda>r. r\<lparr>rcv_cur := sq\<rparr>) s3))"
  define s5 where "s5 = csp_rdp_rx_queue_flush c ?s4"
  have four: "own dh f s5" if "r3 = CSP_ERR_NONE"
    using three that check_ack_own(1) [of f "upd_rdp c (\<lambda>r. r\<lparr>rcv_cur := sq\<rparr>) s3" c] rx_queue_flush_own [of dh f ?s4 c] c by (simp add: s5_def)
  have ack: "own dh (tok p f) (snd (csp_rdp_check_ack nh c s2))" if "r2 \<noteq> CSP_ERR_NONE"
    using two that check_ack_own(1) [of "tok p f" s2 c] by simp
  have run: "rdp_rx_data nh c p fl sq ak s =
     (if fl AND RDP_EAK \<noteq> 0 \<or> unat (pkt_length (pkt s1 p)) \<le> RDP_HEADER_LEN then (Discard_open False, s1)
      else if sq \<noteq> rcv_cur (rdp (arr_conn s1 c)) + 1
      then if r2 \<noteq> CSP_ERR_NONE then (Discard_open False, snd (csp_rdp_check_ack nh c s2)) else (Accepted_open, s2)
      else if r3 \<noteq> CSP_ERR_NONE then (Discard_open False, s3) else (Accepted_open, s5))"
    unfolding rdp_rx_data_def s1_def [symmetric] Let_def add rcv s5_def by simp
  show ?thesis
    unfolding run using one two three four ack by (simp split: if_splits)
qed

lemma rx_open_own:
  assumes own: "own dh (tok p f) s" and c: "c < CSP_CONN_MAX" and rst: "fl AND RDP_RST = 0"
    and run: "rdp_rx_open nh c p fl sq ak s = Some (ex, s')"
  shows "own_leak dh (if answers_syn fl sq (rdp (arr_conn s c)) then unused s else {}) (if ex = Accepted_open then f else tok p f) s'"
proof -
  obtain okso where est: "(if rdp_state (rdp (arr_conn s c)) = RDP_SYN_RCVD then rdp_rx_established c ak s else Some (True, s)) = okso" by blast
  have one: "own dh (tok p f) s1" if "okso = Some (ok, s1)" for ok s1
    using est that own rx_established_own [OF own] by (auto split: if_splits)
  note data = rx_data_own [OF one c, of _ _ fl sq ak]
  consider "ex \<noteq> Accepted_open" "s' = s"
    | l1 l2 l3 where "ex \<noteq> Accepted_open" "s' = snd (csp_rdp_send_cmp nh c None l1 l2 l3 s)" "answers_syn fl sq (rdp (arr_conn s c))"
    | ok s1 where "okso = Some (ok, s1)" "(ex, s') = (if \<not> ok then (Discard_close CSP_RDP_CLOSED_BY_PROTOCOL, s1) else rdp_rx_data nh c p fl sq ak s1)"
    using run est rst unfolding rdp_rx_open_def Let_def answers_syn_def
    by (auto split: if_splits option.splits prod.splits)
  then show ?thesis
  proof cases
    case 1
    with own show ?thesis by (simp add: own_leakI)
  next
    case 2
    with send_cmp_leak [OF own] show ?thesis by simp
  next
    case (3 ok s1)
    with one [OF 3(1)] data [OF 3(1)] show ?thesis by (cases ok) (auto simp: prod_eq_iff intro!: own_leakI)
  qed
qed

text \<open>A packet handed to RDP is consumed; at most the buffer of the answer to a SYN is leaked.\<close>

lemma dispatch_own:
  assumes own: "own dh (tok p f) s" and c: "c < CSP_CONN_MAX" and run: "rdp_rx_dispatch nh rnd c p fl sq ak s = Some (ex, s')"
  shows "own_leak dh (if answers_syn fl sq (rdp (arr_conn s c)) then unused s else {}) (if ex = Accepted_open then f else tok p f) s'"
proof (cases "fl AND RDP_RST = 0")
  case False
  with run rx_rst_own [OF own, of c fl sq ak] show ?thesis by (auto simp: rdp_rx_dispatch_def prod_eq_iff intro!: own_leakI)
next
  case rst: True
  show ?thesis
  proof (cases "rdp_state (rdp (arr_conn s c))")
    case RDP_CLOSED
    then have "answers_syn fl sq (rdp (arr_conn s c)) \<longleftrightarrow> fl AND 0x0f = RDP_SYN" using rst by (simp add: answers_syn_def)
    with run rst RDP_CLOSED rx_closed_own [OF own, where rnd = rnd and c = c and p = p and fl = fl and sq = sq] show ?thesis by (auto simp: rdp_rx_dispatch_def prod_eq_iff split: if_splits)
  next
    case RDP_SYN_SENT
    with run rst rx_syn_sent_own [OF own, of c fl sq ak] show ?thesis by (auto simp: rdp_rx_dispatch_def prod_eq_iff intro!: own_leakI)
  next
    case RDP_CLOSE_WAIT
    with run rst rx_close_wait_own [OF own, of c fl ak] show ?thesis by (auto simp: rdp_rx_dispatch_def prod_eq_iff intro!: own_leakI)
  qed (use run rst rx_open_own [OF own c rst, of sq ak ex s'] in \<open>simp_all add: rdp_rx_dispatch_def\<close>)
qed

lemma new_packet_own:
  assumes own: "own dh (tok p f) s" and c: "c < CSP_CONN_MAX" and run: "csp_rdp_new_packet nh rnd c p s = Some (b, s')"
    and k: "k = rdp_header_to_host (pkt s p)"
  shows "own_leak dh (if answers_syn (hdr_flags k) (hdr_seq_he k) (rdp (arr_conn s c)) then unused s else {}) f s'"
proof -
  define s1 where "s1 = upd_pkt p rdp_header_to_host s"
  have one: "own dh (tok p f) s1" "arr_conn s1 = arr_conn s" "unused s1 = unused s"
    using own by (simp_all add: s1_def) (simp add: upd_pkt_def on_core_def)
  obtain ex s2 where disp: "rdp_rx_dispatch nh rnd c p (hdr_flags k) (hdr_seq_he k) (hdr_ack_he k) s1 = Some (ex, s2)"
    and s': "rdp_rx_exit nh c p ex s2 = (b, s')"
    using new_packet_run [OF run k] unfolding s1_def [symmetric] by metis
  note two = dispatch_own [OF one(1) c disp, unfolded one(2,3)]
  have fin: "own dh g s'" if "own dh (if ex = Accepted_open then g else tok p g) s2" for g
    using rx_exit_own [OF that c] s' by (metis snd_conv)
  show ?thesis
  proof (cases "ex = Accepted_open")
    case True
    show ?thesis by (rule own_leak_map [where s = s2]) (use two True fin in auto)
  next
    case False
    show ?thesis by (rule own_leak_consume [where p = p and s = s2]) (use two False fin in auto)
  qed
qed

end

section \<open>Connecting and sending\<close>

text \<open>
  While a task waits the others run, and they may leak too: \<open>safe dh f s\<close> says that the
  references \<open>f\<close> are still the caller's, and nothing was freed that is still referenced.
\<close>

definition safe :: "('d \<Rightarrow> addr \<Rightarrow> nat) \<Rightarrow> (addr \<Rightarrow> nat) \<Rightarrow> 'd csp_state \<Rightarrow> bool" where
  "safe dh f s \<longleftrightarrow> (\<exists>g. own dh (\<lambda>x. f x + g x) s)"

lemma safeI: "own dh f s \<Longrightarrow> safe dh f s"
  unfolding safe_def by (rule exI [of _ "\<lambda>_. 0"]) simp

lemma tok_add: "(\<lambda>x. tok p f x + g x) = tok p (\<lambda>x. f x + g x)"
  by (auto simp: tok_apply)

lemma otok_add: "(\<lambda>x. otok p f x + g x) = otok p (\<lambda>x. f x + g x)"
  by (cases p) (simp_all add: tok_add)

lemma safe_leak: "own_leak dh X f s \<Longrightarrow> safe dh f s"
proof (unfold own_leak_def, elim disjE bexE)
  fix x assume "own dh (tok x f) s"
  then have "own dh (\<lambda>y. f y + (if y = x then 1 else 0)) s" by (simp add: tok_apply [abs_def])
  then show "safe dh f s" unfolding safe_def by (rule exI [of _ "\<lambda>y. if y = x then 1 else 0"])
qed (rule safeI)

lemma safe_map: "safe dh f s \<Longrightarrow> (\<And>g. own dh g s \<Longrightarrow> own dh g s') \<Longrightarrow> safe dh f s'"
  unfolding safe_def by blast

lemma safe_bind: "safe dh f s \<Longrightarrow> (\<And>g. own dh g s \<Longrightarrow> safe dh g s') \<Longrightarrow> safe dh f s'"
  unfolding safe_def
proof (elim exE)
  fix g assume g: "own dh (\<lambda>x. f x + g x) s" and step: "\<And>g. own dh g s \<Longrightarrow> \<exists>h. own dh (\<lambda>x. g x + h x) s'"
  from step [OF g] obtain h where "own dh (\<lambda>x. f x + g x + h x) s'" by blast
  then show "\<exists>g. own dh (\<lambda>x. f x + g x) s'" by (intro exI [of _ "\<lambda>x. g x + h x"]) (simp add: add.assoc)
qed

lemma safe_consume: "safe dh (tok p f) s \<Longrightarrow> (\<And>g. own dh (tok p g) s \<Longrightarrow> own dh g s') \<Longrightarrow> safe dh f s'"
  unfolding safe_def tok_add by blast

lemma safe_weaken: "safe dh (tok p f) s \<Longrightarrow> safe dh f s"
  unfolding safe_def tok_add
proof (elim exE)
  fix g assume "own dh (tok p (\<lambda>x. f x + g x)) s"
  then have "own dh (\<lambda>x. f x + tok p g x) s" by (simp add: tok_apply [abs_def] add.assoc)
  then show "\<exists>g. own dh (\<lambda>x. f x + g x) s" by (rule exI [of _ "tok p g"])
qed

lemma send_segment_own:
  assumes own: "own dh (tok p f) s" and run: "rdp_send_segment c p s = (r, s')"
  shows "own dh (tok p f) s'"
proof -
  obtain ok s1 where add: "csp_rdp_header_add p s = (ok, s1)" by fastforce
  then obtain g where s1: "s1 = upd_pkt p g s" using header_add_upd by blast
  define s2 where "s2 = rdp_data_header c p s1"
  have own2: "own dh (tok p f) s1" "own dh (tok p f) s2"
    using own by (simp_all add: s1 s2_def rdp_data_header_def Let_def)
  obtain b s3 where clone: "in_core (csp_buffer_clone (Some p)) s2 = (b, s3)" by fastforce
  note own3 = own_clone [OF own2(2) clone]
  have add4: "own dh (tok p f) (csp_rdp_queue_tx_add c q (upd_pkt q (\<lambda>k. k\<lparr>timestamp_tx := csp_ms (core s3)\<rparr>) s3))" if "b = Some q" for q
    using own3 that by (intro rdp_tx_add(1)) simp
  show ?thesis
    using run add clone own2 own3 add4
    by (auto simp: rdp_send_segment_def Let_def s2_def [symmetric] split: if_splits option.splits)
qed

text \<open>What a task that waits relies on: the other tasks keep the accounting.\<close>

locale task_env = nexthop_contract nh dh for nh :: "'d nexthop_fn" and dh +
  fixes wt :: "u32 \<Rightarrow> 'd csp_state \<Rightarrow> 'd csp_state"
  assumes wt_safe: "safe dh f s \<Longrightarrow> safe dh f (wt t s)"
begin

lemma wait_safe:
  assumes "safe dh f s"
  shows "safe dh f (snd (rdp_wait wt c t s))"
proof -
  have "safe dh f (if tx_wait (rdp (arr_conn s c)) > 0 then s else wt t s)" using assms wt_safe by simp
  then show ?thesis
    by (rule safe_map) (simp add: rdp_wait_def Let_def split_beta)
qed

lemma connect_error_safe: "safe dh f s \<Longrightarrow> safe dh f (snd (rdp_connect_error nh c s))"
  by (erule safe_map) (auto simp: rdp_connect_error_def intro: close_internal_contract(1) [OF _ surjective_pairing])

lemma send_syn_safe: "safe dh f s \<Longrightarrow> safe dh f (snd (csp_rdp_send_syn nh c s))"
proof (erule safe_bind)
  fix g assume "own dh g s"
  from send_syn_contract(1) [OF this surjective_pairing, of c]
  have "own_leak dh UNIV g (snd (csp_rdp_send_syn nh c s))" by (auto simp: own_leak_def)
  then show "safe dh g (snd (csp_rdp_send_syn nh c s))" by (rule safe_leak)
qed

lemma connect_syn_safe: "safe dh f s \<Longrightarrow> safe dh f (snd (rdp_connect_syn nh rnd c s))"
  unfolding rdp_connect_syn_def Let_def by (rule send_syn_safe, erule safe_map) simp

text \<open>One round of the loop ends, or goes on with one retry less.\<close>

lemma connect_loop_step:
  assumes "safe dh f s"
  obtains s' where "safe dh f s'" "snd (rdp_connect_loop n nh rnd wt c s) = s'
    \<or> (\<exists>m. n = Suc m \<and> rdp_connect_loop n nh rnd wt c s = rdp_connect_loop m nh rnd wt c s')"
proof -
  obtain sent s1 where syn: "rdp_connect_syn nh rnd c s = (sent, s1)" by fastforce
  have one: "safe dh f s1" using connect_syn_safe [OF assms, of rnd c] syn by simp
  obtain res s2 where w: "rdp_wait wt c (conn_timeout (rdp (arr_conn s1 c))) s1 = (res, s2)" by fastforce
  have two: "safe dh f s2" using wait_safe [OF one, of c] w by (metis snd_conv)
  have three: "safe dh f (csp_rdp_queue_flush (Some c) s2)" using two by (rule safe_map) (rule rdp_flush(1))
  note err = connect_error_safe [OF one, of c] connect_error_safe [OF two, of c]
  let ?next = "case n of Suc m \<Rightarrow> rdp_connect_loop m nh rnd wt c (csp_rdp_queue_flush (Some c) s2) | 0 \<Rightarrow> rdp_connect_error nh c s2"
  have "rdp_connect_loop n nh rnd wt c s = (if rdp_state (rdp (arr_conn s c)) = RDP_OPEN then (CSP_ERR_ALREADY, s)
      else if sent \<noteq> CSP_ERR_NONE then rdp_connect_error nh c s1
      else if res = CSP_SEMAPHORE_OK \<and> rdp_state (rdp (arr_conn s2 c)) = RDP_OPEN then (CSP_ERR_NONE, s2)
      else if res = CSP_SEMAPHORE_OK \<and> rdp_state (rdp (arr_conn s2 c)) = RDP_SYN_SENT then ?next
      else rdp_connect_error nh c s2)"
    by (subst rdp_connect_loop.simps) (simp add: syn w)
  then consider "rdp_connect_loop n nh rnd wt c s \<in> {(CSP_ERR_ALREADY, s), rdp_connect_error nh c s1, (CSP_ERR_NONE, s2), rdp_connect_error nh c s2}"
    | m where "n = Suc m" "rdp_connect_loop n nh rnd wt c s = rdp_connect_loop m nh rnd wt c (csp_rdp_queue_flush (Some c) s2)"
    by (cases n) (auto split: if_splits)
  then show thesis
  proof cases
    case 1
    then have "safe dh f (snd (rdp_connect_loop n nh rnd wt c s))" using assms two err by auto
    then show thesis by (rule that) simp
  next
    case 2
    then show thesis using that [OF three] by blast
  qed
qed

lemma connect_loop_safe: "safe dh f s \<Longrightarrow> safe dh f (snd (rdp_connect_loop n nh rnd wt c s))"
proof (induction n arbitrary: s)
  case 0
  obtain s' where "safe dh f s'" "snd (rdp_connect_loop 0 nh rnd wt c s) = s'"
    using connect_loop_step [OF 0, of 0 rnd c] by blast
  then show ?case by simp
next
  case (Suc n)
  obtain s' where "safe dh f s'" "snd (rdp_connect_loop (Suc n) nh rnd wt c s) = s'
      \<or> rdp_connect_loop (Suc n) nh rnd wt c s = rdp_connect_loop n nh rnd wt c s'"
    using connect_loop_step [OF Suc.prems, of "Suc n" rnd c] by blast
  with Suc.IH [of s'] show ?case by auto
qed

lemma connect_safe: "safe dh f s \<Longrightarrow> safe dh f (snd (csp_rdp_connect nh rnd wt c s))"
  unfolding csp_rdp_connect_def by (rule connect_loop_safe, erule safe_map) simp

lemma send_wait_safe:
  assumes "rdp_send_wait wt c s = Some x" "safe dh f s"
  shows "safe dh f (snd x)"
proof -
  have "wt = wt \<longrightarrow> safe dh f s \<longrightarrow> safe dh f (snd x)"
    using assms(1)
  proof (rule rdp_send_wait.raw_induct [where P = "\<lambda>w c s x. w = wt \<longrightarrow> safe dh f s \<longrightarrow> safe dh f (snd x)", rotated], intro impI)
    fix rec :: "(u32 \<Rightarrow> 'd csp_state \<Rightarrow> 'd csp_state) \<Rightarrow> addr \<Rightarrow> 'd csp_state \<Rightarrow> (bool \<times> 'd csp_state) option" and w c s x
    assume ih: "\<And>w c s x. rec w c s = Some x \<Longrightarrow> w = wt \<longrightarrow> safe dh f s \<longrightarrow> safe dh f (snd x)"
      and run: "(if rdp_state (rdp (arr_conn s c)) = RDP_CLOSE_WAIT \<or> rdp_state (rdp (arr_conn s c)) = RDP_CLOSED then Some (False, s)
        else if csp_rdp_is_conn_ready_for_tx c s then Some (True, s)
        else rec w c (snd (rdp_wait w c (conn_timeout (rdp (arr_conn s c))) s))) = Some x" and w: "w = wt" and s: "safe dh f s"
    from run w s wait_safe [OF s] ih [of w c "snd (rdp_wait w c (conn_timeout (rdp (arr_conn s c))) s)" x]
    show "safe dh f (snd x)" by (auto split: if_splits)
  qed
  with assms(2) show ?thesis by simp
qed

text \<open>Sending queues a copy for retransmission; the packet itself stays with the caller.\<close>

lemma rdp_send_safe:
  assumes run: "csp_rdp_send wt c p s = Some (r, s')" and s: "safe dh (tok p f) s"
  shows "safe dh (tok p f) s'"
proof -
  consider "s' = s" | s1 where "rdp_send_wait wt c s = Some (False, s1)" "s' = s1" | s1 where "rdp_send_wait wt c s = Some (True, s1)"
      "rdp_send_segment c p s1 = (r, s')"
    using run by (auto simp: csp_rdp_send_def split: if_splits option.splits bool.splits)
  then show ?thesis
  proof cases
    case 1
    with s show ?thesis by simp
  next
    case (2 s1)
    with send_wait_safe [OF 2(1) s] show ?thesis by simp
  next
    case (3 s1)
    from send_wait_safe [OF 3(1) s] have "safe dh (tok p f) s1" by simp
    then show ?thesis unfolding safe_def tok_add using send_segment_own 3(2) by metis
  qed
qed

end

end
