(* ===== verification/CSP_Rdp_Machine.thy ===== *)
theory CSP_Rdp_Machine
  imports CSP_Rdp_Own
begin

text \<open>
  What the RDP protocol guarantees: the transitions of its state machine, delivery in
  sequence, the transmit window, and when a blocked sender returns.
\<close>

section \<open>Transitions\<close>

text \<open>
  The state diagram: the next state of a connection with data \<open>r\<close> that receives a segment
  with flags \<open>fl\<close> and acknowledgement number \<open>ak\<close>.
\<close>

inductive rdp_step :: "u8 \<Rightarrow> u16 \<Rightarrow> csp_rdp \<Rightarrow> csp_rdp_state \<Rightarrow> bool" for fl ak r where
  stay: "rdp_step fl ak r (rdp_state r)"
| syn: "rdp_state r = RDP_CLOSED \<Longrightarrow> fl AND 0x0f = RDP_SYN \<Longrightarrow> rdp_step fl ak r RDP_SYN_RCVD"
| syn_ack: "rdp_state r = RDP_SYN_SENT \<Longrightarrow> fl AND RDP_RST = 0 \<Longrightarrow> fl AND RDP_SYN \<noteq> 0 \<Longrightarrow> fl AND RDP_ACK \<noteq> 0 \<Longrightarrow>
    rdp_step fl ak r RDP_OPEN"
| established: "rdp_state r = RDP_SYN_RCVD \<Longrightarrow> fl AND RDP_RST = 0 \<Longrightarrow> fl AND RDP_SYN = 0 \<Longrightarrow> fl AND RDP_ACK \<noteq> 0 \<Longrightarrow>
    ak = snd_iss r \<Longrightarrow> rdp_step fl ak r RDP_OPEN"
| close_wait: "rdp_state r \<noteq> RDP_CLOSED \<Longrightarrow> rdp_step fl ak r RDP_CLOSE_WAIT"
| closed: "rdp_state r \<noteq> RDP_CLOSED \<Longrightarrow> rdp_step fl ak r RDP_CLOSED"

text \<open>The state after a piece of the protocol may only be left by closing.\<close>

definition state_after :: "addr \<Rightarrow> 'd csp_state \<Rightarrow> csp_rdp_state \<Rightarrow> bool" where
  "state_after c s st \<longleftrightarrow> st = rdp_state (rdp (arr_conn s c))
     \<or> rdp_state (rdp (arr_conn s c)) \<noteq> RDP_CLOSED \<and> st \<in> {RDP_CLOSE_WAIT, RDP_CLOSED}"

lemma rdp_step_close: "rdp_step fl ak r st \<Longrightarrow> st' = st \<or> st \<noteq> RDP_CLOSED \<and> st' \<in> {RDP_CLOSE_WAIT, RDP_CLOSED} \<Longrightarrow>
    rdp_state r \<noteq> RDP_CLOSED \<or> st \<noteq> RDP_SYN_RCVD \<or> st' = st \<Longrightarrow> rdp_step fl ak r st'"
  by (auto elim!: rdp_step.cases intro: rdp_step.intros)

lemma sock_enqueue_conns:
  assumes "sock_enqueue i x s = Some (r, s')"
  shows "arr_conn s' = arr_conn s"
  using assms by (auto simp: sock_enqueue_def upd_socket_def split: option.splits prod.splits)

lemma rdp_state_upds [simp]:
  "rdp_state (rdp (arr_conn (upd_rdp c (\<lambda>r. r\<lparr>snd_una := a1 r\<rparr>) s) j)) = rdp_state (rdp (arr_conn s j))"
  "rdp_state (rdp (arr_conn (upd_rdp c (\<lambda>r. r\<lparr>rcv_cur := a1 r\<rparr>) s) j)) = rdp_state (rdp (arr_conn s j))"
  "rdp_state (rdp (arr_conn (upd_conn c (\<lambda>k. k\<lparr>conn_timestamp := a2 k\<rparr>) s) j)) = rdp_state (rdp (arr_conn s j))"
  "rdp_state (rdp (arr_conn (upd_conn c (\<lambda>k. k\<lparr>dest_socket := a3 k\<rparr>) s) j)) = rdp_state (rdp (arr_conn s j))"
  "rdp_state (rdp (arr_conn (rdp_post c s) j)) = rdp_state (rdp (arr_conn s j))"
  "arr_conn (free_pkt p s) = arr_conn s" "arr_conn (upd_pkt p g s) = arr_conn s"
  by (simp_all add: upd_rdp_def upd_conn_def rdp_post_def free_pkt_def upd_pkt_def on_core_def)

context nexthop_contract
begin

lemma send_cmp_state:
  assumes "own dh f s"
  shows "rdp_state (rdp (arr_conn (snd (csp_rdp_send_cmp nh c None fl sq ak s)) j)) = rdp_state (rdp (arr_conn s j))"
  using cmp_frameD(3) [OF send_cmp_contract(2) [OF assms surjective_pairing]] .

lemma check_ack_state:
  assumes "own dh f s"
  shows "rdp_state (rdp (arr_conn (snd (csp_rdp_check_ack nh c s)) j)) = rdp_state (rdp (arr_conn s j))"
  using cmp_frameD(3) [OF check_ack_own(2) [OF assms]] .

lemma conn_close_state:
  assumes own: "own dh f s" and c: "c < CSP_CONN_MAX"
  shows "state_after c s (rdp_state (rdp (arr_conn (snd (csp_conn_close nh (Some c) by s)) c)))"
proof (cases "conn_state (arr_conn s c)")
  case CONN_CLOSED
  then show ?thesis by (simp add: csp_conn_close_def set_errno_def on_core_def state_after_def)
next
  case CONN_OPEN
  show ?thesis
  proof (cases rule: conn_close_cases [OF own c CONN_OPEN, of "by"])
    case (1 s1)
    then show ?thesis by (simp add: state_after_def)
  next
    case (2 s1)
    from finish_close(3) [OF 2(2) c] have "rdp (arr_conn (conn_finish_close c s1) c) = rdp (arr_conn s1 c)" by auto
    with 2 show ?thesis by (cases "conn_is_rdp (arr_conn s c)") (auto simp: state_after_def)
  qed
qed

lemma rx_exit_state:
  assumes own: "own dh f s" and c: "c < CSP_CONN_MAX"
  shows "if ex \<in> range Discard_close then state_after c s (rdp_state (rdp (arr_conn (snd (rdp_rx_exit nh c p ex s)) c)))
    else rdp_state (rdp (arr_conn (snd (rdp_rx_exit nh c p ex s)) c)) = rdp_state (rdp (arr_conn s c))"
proof (cases ex rule: rdp_exit_cases)
  case (close "by")
  have enq: "rdp (arr_conn (snd (csp_conn_enqueue_packet (Some c) None t)) c) = rdp (arr_conn t c)" for t :: "'a csp_state"
    by (simp add: csp_conn_enqueue_packet_def Let_def split_beta upd_conn_def conn_ovf_def on_core_def)
  show ?thesis
    using close conn_close_state [OF own c] by (simp add: rdp_rx_exit_def Let_def enq)
qed (auto simp: rdp_rx_exit_def)

lemma rx_rst_state:
  assumes own: "own dh f s" and run: "rdp_rx_rst nh c fl sq ak s = (ex, s')"
  shows "state_after c s (rdp_state (rdp (arr_conn s' c)))"
proof -
  define s1 where "s1 = (if fl AND RDP_ACK \<noteq> 0 then upd_rdp c (\<lambda>r. r\<lparr>snd_una := ak + 1\<rparr>) s else s)"
  define s2 where "s2 = upd_conn c (\<lambda>k. k\<lparr>conn_timestamp := csp_ms (core (upd_rdp c (\<lambda>r. r\<lparr>rdp_state := RDP_CLOSE_WAIT\<rparr>) s1))\<rparr>)
      (upd_rdp c (\<lambda>r. r\<lparr>rdp_state := RDP_CLOSE_WAIT\<rparr>) s1)"
  have "own dh f s1" "own dh f s2" using own by (simp_all add: s1_def s2_def)
  note cmp = send_cmp_state [OF this(2), of c]
  have st: "rdp_state (rdp (arr_conn s1 c)) = rdp_state (rdp (arr_conn s c))" "rdp_state (rdp (arr_conn s2 c)) = RDP_CLOSE_WAIT"
    by (simp_all add: s1_def s2_def upd_rdp_def upd_conn_def)
  have "s' = s1 \<or> rdp_state (rdp (arr_conn s1 c)) \<noteq> RDP_CLOSED
      \<and> (\<exists>x y. s' = snd (csp_rdp_send_cmp nh c None (RDP_ACK OR RDP_RST) x y s2))"
    using run unfolding rdp_rx_rst_def Let_def s1_def [symmetric] s2_def [symmetric] by (auto split: if_splits)
  then show ?thesis by (auto simp: state_after_def cmp st)
qed

lemma rx_closed_state:
  assumes own: "own dh f s" and run: "rdp_rx_closed nh rnd c p fl sq s = (ex, s')" and st: "rdp_state (rdp (arr_conn s c)) = RDP_CLOSED"
  shows "rdp_step fl ak (rdp (arr_conn s c)) (rdp_state (rdp (arr_conn s' c)))"
    "rdp_state (rdp (arr_conn s' c)) \<noteq> RDP_CLOSED \<Longrightarrow> ex \<notin> range Discard_close"
proof -
  have "rdp_state (rdp (arr_conn s' c)) = RDP_CLOSED \<or>
      rdp_state (rdp (arr_conn s' c)) = RDP_SYN_RCVD \<and> fl AND 0x0f = RDP_SYN \<and> ex \<notin> range Discard_close"
  proof (cases "fl AND 0x0f = RDP_SYN")
    case False
    with run st send_cmp_state [OF own, of c] show ?thesis by (auto simp: rdp_rx_closed_def Let_def)
  next
    case True
    then obtain g x y where s': "s' = snd (csp_rdp_send_cmp nh c None (RDP_ACK OR RDP_SYN) x y
        (upd_rdp c (\<lambda>r. r\<lparr>rdp_state := RDP_SYN_RCVD\<rparr>) (upd_rdp c g s)))" "ex = Discard_open False"
      using run by (auto simp: rdp_rx_closed_def Let_def upd_rdp_def upd_conn_def comp_def)
    have "own dh f (upd_rdp c (\<lambda>r. r\<lparr>rdp_state := RDP_SYN_RCVD\<rparr>) (upd_rdp c g s))" using own by simp
    from send_cmp_state [OF this, of c "RDP_ACK OR RDP_SYN"] True s' show ?thesis
      by (auto simp: upd_rdp_def upd_conn_def)
  qed
  then show "rdp_step fl ak (rdp (arr_conn s c)) (rdp_state (rdp (arr_conn s' c)))"
    "rdp_state (rdp (arr_conn s' c)) \<noteq> RDP_CLOSED \<Longrightarrow> ex \<notin> range Discard_close"
    using st rdp_step.syn rdp_step.stay by (metis, auto)
qed

lemma rx_syn_sent_state:
  assumes own: "own dh f s" and run: "rdp_rx_syn_sent nh c fl sq ak s = (ex, s')" and st: "rdp_state (rdp (arr_conn s c)) = RDP_SYN_SENT"
    and rst: "fl AND RDP_RST = 0"
  shows "rdp_step fl ak (rdp (arr_conn s c)) (rdp_state (rdp (arr_conn s' c)))"
proof (cases "fl AND RDP_SYN \<noteq> 0 \<and> fl AND RDP_ACK \<noteq> 0")
  case True
  then obtain g x y where s': "s' = rdp_post c (snd (csp_rdp_send_cmp nh c None RDP_ACK x y
      (upd_rdp c (\<lambda>r. (g r)\<lparr>rdp_state := RDP_OPEN\<rparr>) s)))"
    using run by (auto simp: rdp_rx_syn_sent_def Let_def)
  have "own dh f (upd_rdp c (\<lambda>r. (g r)\<lparr>rdp_state := RDP_OPEN\<rparr>) s)" using own by simp
  from send_cmp_state [OF this, of c RDP_ACK] s' have "rdp_state (rdp (arr_conn s' c)) = RDP_OPEN"
    by (simp add: upd_rdp_def upd_conn_def rdp_post_def)
  with True st rst show ?thesis by (auto intro: rdp_step.syn_ack)
next
  case False
  with run send_cmp_state [OF own, of c RDP_RST] have "rdp_state (rdp (arr_conn s' c)) = rdp_state (rdp (arr_conn s c))"
    by (auto simp: rdp_rx_syn_sent_def Let_def split: if_splits)
  then show ?thesis by (simp add: rdp_step.stay)
qed

lemma rx_data_state:
  assumes own: "own dh (tok p f) s" and c: "c < CSP_CONN_MAX"
  shows "rdp_state (rdp (arr_conn (snd (rdp_rx_data nh c p fl sq ak s)) c)) = rdp_state (rdp (arr_conn s c))"
proof -
  define s1 where "s1 = upd_rdp c (\<lambda>r. r\<lparr>snd_una := ak + 1\<rparr>)
      (if dest_socket (arr_conn s c) = None then upd_conn c (\<lambda>k. k\<lparr>conn_timestamp := csp_ms (core s)\<rparr>) s else s)"
  have one: "own dh (tok p f) s1" "rdp_state (rdp (arr_conn s1 c)) = rdp_state (rdp (arr_conn s c))"
    using own by (simp_all add: s1_def)
  obtain r2 s2 where add: "csp_rdp_rx_queue_add c p sq s1 = (r2, s2)" by fastforce
  note two = rx_queue_add_own [OF one(1) add]
  have st2: "rdp_state (rdp (arr_conn s2 c)) = rdp_state (rdp (arr_conn s c))" using rdp_frameD(1) [OF two(2)] one(2) by simp
  obtain r3 s3 where rcv: "csp_rdp_receive_data c p s1 = (r3, s3)" by fastforce
  note three = receive_data_own [OF one(1) c rcv]
  have st3: "rdp_state (rdp (arr_conn s3 c)) = rdp_state (rdp (arr_conn s c))" using rx_frameD(2) [OF three(2)] one(2) by simp
  define s4 where "s4 = snd (csp_rdp_check_ack nh c (upd_rdp c (\<lambda>r. r\<lparr>rcv_cur := sq\<rparr>) s3))"
  have st4: "rdp_state (rdp (arr_conn (csp_rdp_rx_queue_flush c s4) c)) = rdp_state (rdp (arr_conn s c))" if "r3 = CSP_ERR_NONE"
  proof -
    have o3: "own dh f (upd_rdp c (\<lambda>r. r\<lparr>rcv_cur := sq\<rparr>) s3)" using three(1) that by simp
    then have "own dh f s4" unfolding s4_def by (rule check_ack_own)
    from rx_frameD(2) [OF conjunct2 [OF rx_queue_flush_own [OF this c]]] check_ack_state [OF o3, of c c] st3 show ?thesis
      by (simp add: s4_def)
  qed
  have st5: "rdp_state (rdp (arr_conn (snd (csp_rdp_check_ack nh c s2)) c)) = rdp_state (rdp (arr_conn s c))" if "r2 \<noteq> CSP_ERR_NONE"
    using two(1) that check_ack_state [of "tok p f" s2 c c] st2 by simp
  have "snd (rdp_rx_data nh c p fl sq ak s) \<in> {s1, s2, s3} \<union> (if r2 \<noteq> CSP_ERR_NONE then {snd (csp_rdp_check_ack nh c s2)} else {})
      \<union> (if r3 = CSP_ERR_NONE then {csp_rdp_rx_queue_flush c s4} else {})"
    unfolding rdp_rx_data_def s1_def [symmetric] Let_def add rcv s4_def by auto
  then show ?thesis using one(2) st2 st3 st4 st5 by (auto split: if_splits)
qed

lemma rx_established_state:
  assumes "rdp_rx_established c ak s = Some (ok, s')"
  shows "arr_conn s' c = arr_conn s c \<and> \<not> ok \<or> rdp_state (rdp (arr_conn s' c)) = RDP_OPEN \<and> ak = snd_iss (rdp (arr_conn s c))"
  using assms
  by (auto simp: rdp_rx_established_def Let_def upd_rdp_def upd_conn_def dest!: sock_enqueue_conns split: if_splits option.splits)

lemma rx_open_state:
  assumes own: "own dh (tok p f) s" and c: "c < CSP_CONN_MAX" and run: "rdp_rx_open nh c p fl sq ak s = Some (ex, s')"
    and rst: "fl AND RDP_RST = 0"
  shows "rdp_step fl ak (rdp (arr_conn s c)) (rdp_state (rdp (arr_conn s' c)))"
proof -
  obtain okso where est: "(if rdp_state (rdp (arr_conn s c)) = RDP_SYN_RCVD then rdp_rx_established c ak s else Some (True, s)) = okso" by blast
  consider "s' = s" | l1 l2 l3 where "s' = snd (csp_rdp_send_cmp nh c None l1 l2 l3 s)"
    | ok s1 where "okso = Some (ok, s1)" "fl AND RDP_SYN = 0" "fl AND RDP_ACK \<noteq> 0"
      "(ex, s') = (if \<not> ok then (Discard_close CSP_RDP_CLOSED_BY_PROTOCOL, s1) else rdp_rx_data nh c p fl sq ak s1)"
    using run est unfolding rdp_rx_open_def Let_def
    by (auto split: if_splits option.splits prod.splits)
  then show ?thesis
  proof cases
    case 1
    then show ?thesis by (simp add: rdp_step.stay)
  next
    case 2
    then show ?thesis by (simp add: send_cmp_state [OF own] rdp_step.stay)
  next
    case (3 ok s1)
    have own1: "own dh (tok p f) s1" using est 3(1) own rx_established_own [OF own] by (auto split: if_splits)
    have st: "rdp_state (rdp (arr_conn s' c)) = rdp_state (rdp (arr_conn s1 c))"
      using 3(4) rx_data_state [OF own1 c, of fl sq ak] by (metis prod.inject prod.collapse)
    have "rdp_step fl ak (rdp (arr_conn s c)) (rdp_state (rdp (arr_conn s1 c)))"
      using est 3(1-3) rst rx_established_state [of c ak s ok s1] rdp_step.stay [of fl ak "rdp (arr_conn s c)"]
      by (auto split: if_splits intro: rdp_step.established)
    then show ?thesis by (simp add: st)
  qed
qed

lemma rx_close_wait_state:
  assumes own: "own dh f s" and run: "rdp_rx_close_wait nh c fl ak s = (ex, s')"
  shows "rdp_state (rdp (arr_conn s' c)) = rdp_state (rdp (arr_conn s c))"
proof -
  have "own dh f (upd_rdp c (\<lambda>r. r\<lparr>snd_una := ak + 1\<rparr>) s)" using own by simp
  from send_cmp_state [OF this, of c "RDP_ACK OR RDP_RST"] run show ?thesis
    by (auto simp: rdp_rx_close_wait_def Let_def split: if_splits)
qed

lemma dispatch_step:
  assumes own: "own dh (tok p f) s" and c: "c < CSP_CONN_MAX" and run: "rdp_rx_dispatch nh rnd c p fl sq ak s = Some (ex, s')"
  shows "rdp_step fl ak (rdp (arr_conn s c)) (rdp_state (rdp (arr_conn s' c)))"
    "rdp_state (rdp (arr_conn s c)) \<noteq> RDP_CLOSED \<or> rdp_state (rdp (arr_conn s' c)) \<noteq> RDP_SYN_RCVD \<or> ex \<notin> range Discard_close"
proof -
  let ?r = "rdp (arr_conn s c)" and ?st = "rdp_state (rdp (arr_conn s' c))"
  have "rdp_step fl ak ?r ?st \<and> (rdp_state ?r \<noteq> RDP_CLOSED \<or> ?st \<noteq> RDP_SYN_RCVD \<or> ex \<notin> range Discard_close)"
  proof (cases "fl AND RDP_RST \<noteq> 0")
    case True
    then have "rdp_rx_rst nh c fl sq ak s = (ex, s')" using run by (simp add: rdp_rx_dispatch_def)
    from rx_rst_state [OF own this] show ?thesis by (auto simp: state_after_def intro: rdp_step.intros)
  next
    case rst: False
    show ?thesis
    proof (cases "rdp_state ?r")
      case RDP_CLOSED
      then have "rdp_rx_closed nh rnd c p fl sq s = (ex, s')" using run rst by (simp add: rdp_rx_dispatch_def)
      from rx_closed_state(1) [OF own this RDP_CLOSED, of ak] rx_closed_state(2) [OF own this RDP_CLOSED] show ?thesis by auto
    next
      case RDP_SYN_SENT
      then have "rdp_rx_syn_sent nh c fl sq ak s = (ex, s')" using run rst by (simp add: rdp_rx_dispatch_def)
      from rx_syn_sent_state [OF own this] RDP_SYN_SENT rst show ?thesis by auto
    next
      case RDP_CLOSE_WAIT
      then have "rdp_rx_close_wait nh c fl ak s = (ex, s')" using run rst by (simp add: rdp_rx_dispatch_def)
      from rx_close_wait_state [OF own this] RDP_CLOSE_WAIT show ?thesis by (auto intro: rdp_step.close_wait)
    qed (use rx_open_state [OF own c, of fl sq ak ex s'] run rst in \<open>auto simp: rdp_rx_dispatch_def\<close>)
  qed
  then show "rdp_step fl ak ?r ?st" "rdp_state ?r \<noteq> RDP_CLOSED \<or> ?st \<noteq> RDP_SYN_RCVD \<or> ex \<notin> range Discard_close" by auto
qed

lemma new_packet_step:
  assumes own: "own dh (tok p f) s" and c: "c < CSP_CONN_MAX" and run: "csp_rdp_new_packet nh rnd c p s = Some (b, s')"
    and k: "k = rdp_header_to_host (pkt s p)"
  shows "rdp_step (hdr_flags k) (hdr_ack_he k) (rdp (arr_conn s c)) (rdp_state (rdp (arr_conn s' c)))"
proof -
  define s1 where "s1 = upd_pkt p rdp_header_to_host s"
  have one: "own dh (tok p f) s1" and st: "arr_conn s1 = arr_conn s" using own by (simp_all add: s1_def)
  obtain ex s2 where disp: "rdp_rx_dispatch nh rnd c p (hdr_flags k) (hdr_seq_he k) (hdr_ack_he k) s1 = Some (ex, s2)"
    and s': "rdp_rx_exit nh c p ex s2 = (b, s')"
    using new_packet_run [OF run k] unfolding s1_def [symmetric] by metis
  note two = dispatch_step [OF one c disp, unfolded st]
  obtain g where own2: "own dh g s2"
    using dispatch_own(1) [OF one c disp] by (auto simp: own_leak_def split: if_splits)
  have "rdp_state (rdp (arr_conn s' c)) = rdp_state (rdp (arr_conn s2 c))
      \<or> ex \<in> range Discard_close \<and> state_after c s2 (rdp_state (rdp (arr_conn s' c)))"
    using rx_exit_state [OF own2 c, of ex p] s' by (metis snd_conv)
  then show ?thesis
    using two rdp_step_close [OF two(1), of "rdp_state (rdp (arr_conn s' c))"] unfolding state_after_def by auto
qed

end

end
