(* ===== verification/CSP_Rdp_Order.thy ===== *)
theory CSP_Rdp_Order
  imports CSP_Rdp_Machine "HOL-Library.Multiset"
begin

text \<open>
  Delivery in sequence: the packets RDP passes to the receive queue of a connection have
  consecutive sequence numbers, also those that waited in the reorder queue.
\<close>

section \<open>The reorder queue\<close>

lemma add_room:
  assumes "queue_ok q" "length (queue_list q) < q_size q"
  obtains q' where "csp_rdp_queue_add q c p k = (q', upd_packet p (\<lambda>x. x\<lparr>pkt_conn := Some c\<rparr>) k)"
    "queue_ok q'" "queue_list q' = queue_list q @ [p]" "q_size q' = q_size q"
proof -
  obtain q' where "csp_queue_enqueue q p = (CSP_QUEUE_OK, q')" "queue_ok q'" "queue_list q' = queue_list q @ [p]" "q_size q' = q_size q"
    using csp_q.enqueue_room [OF assms, of p] by (metis prod.collapse)
  then show thesis by (intro that [of q']) (simp_all add: csp_rdp_queue_add_def)
qed

lemma get_loop_mset:
  "queue_ok q \<Longrightarrow> rdp_get_loop n c q k = (r, q', k') \<Longrightarrow>
     queue_ok q' \<and> q_size q' = q_size q \<and> conn_only k k'
     \<and> mset (queue_list q) = mset (queue_list q') + (case r of None \<Rightarrow> {#} | Some p \<Rightarrow> {#p#})"
proof (induction n arbitrary: q k)
  case (Suc n)
  show ?case
    using Suc.prems(1)
  proof (cases rule: csp_q.dequeue_cases)
    case (item x q1)
    have len: "length (queue_list q1) < q_size q1" using csp_q.ok_bound [OF Suc.prems(1)] item by simp
    obtain q2 where add: "csp_rdp_queue_add q1 c x k = (q2, upd_packet x (\<lambda>y. y\<lparr>pkt_conn := Some c\<rparr>) k)"
      "queue_ok q2" "queue_list q2 = queue_list q1 @ [x]" "q_size q2 = q_size q1"
      using add_room [OF _ len, of c x k] item by blast
    have ko: "conn_only k (upd_packet x (\<lambda>y. y\<lparr>pkt_conn := Some c\<rparr>) k)" by (simp add: conn_only_def)
    show ?thesis
      using Suc.prems(2) item add ko Suc.IH [OF add(2)] by (auto split: if_splits intro: conn_only_trans)
  qed (use Suc.prems in auto)
qed auto

lemma rx_get_mset:
  assumes own: "own dh f s" and get: "csp_rdp_queue_rx_get c s = (r, s')"
  shows "arr_conn s' = arr_conn s" "conn_only (core s) (core s')"
    "mset (queue_list (rdp_rx_queue s)) = mset (queue_list (rdp_rx_queue s')) + (case r of None \<Rightarrow> {#} | Some p \<Rightarrow> {#p#})"
    "q_size (rdp_rx_queue s') = q_size (rdp_rx_queue s)"
proof -
  obtain q k where run: "rdp_get_loop (csp_queue_size (rdp_rx_queue s)) c (rdp_rx_queue s) (core s) = (r, q, k)" "s' = s\<lparr>rdp_rx_queue := q, core := k\<rparr>"
    using get by (auto simp: csp_rdp_queue_rx_get_def csp_rdp_queue_get_def split: prod.splits)
  from get_loop_mset [OF queues_okD(7) [OF own_queues [OF own]] run(1)] run(2)
  show "arr_conn s' = arr_conn s" "conn_only (core s) (core s')"
    "mset (queue_list (rdp_rx_queue s)) = mset (queue_list (rdp_rx_queue s')) + (case r of None \<Rightarrow> {#} | Some p \<Rightarrow> {#p#})"
    "q_size (rdp_rx_queue s') = q_size (rdp_rx_queue s)"
    by simp_all
qed

lemma rx_add_mset:
  assumes own: "own dh f s" and room: "length (queue_list (rdp_rx_queue s)) < q_size (rdp_rx_queue s)"
  shows "arr_conn (csp_rdp_queue_rx_add c p s) = arr_conn s" "conn_only (core s) (core (csp_rdp_queue_rx_add c p s))"
    "mset (queue_list (rdp_rx_queue (csp_rdp_queue_rx_add c p s))) = mset (queue_list (rdp_rx_queue s)) + {#p#}"
proof -
  obtain q where "csp_rdp_queue_add (rdp_rx_queue s) c p (core s) = (q, upd_packet p (\<lambda>x. x\<lparr>pkt_conn := Some c\<rparr>) (core s))"
    "queue_list q = queue_list (rdp_rx_queue s) @ [p]"
    using add_room [OF queues_okD(7) [OF own_queues [OF own]] room, of c p "core s"] by metis
  then show "arr_conn (csp_rdp_queue_rx_add c p s) = arr_conn s" "conn_only (core s) (core (csp_rdp_queue_rx_add c p s))"
    "mset (queue_list (rdp_rx_queue (csp_rdp_queue_rx_add c p s))) = mset (queue_list (rdp_rx_queue s)) + {#p#}"
    by (simp_all add: csp_rdp_queue_rx_add_def conn_only_def)
qed

lemma conn_only_seq: "conn_only k k' \<Longrightarrow> hdr_seq_he (packet k' x) = hdr_seq_he (packet k x)"
proof -
  assume "conn_only k k'"
  then have "packet k' x = (packet k x)\<lparr>pkt_conn := pkt_conn (packet k' x)\<rparr>" by (simp add: conn_only_def)
  then show ?thesis by (metis (no_types, lifting) hdr_seq_he_def csp_rdp_header_ref_def csp_packet.select_convs csp_packet.surjective csp_packet.update_convs(2))
qed

section \<open>Delivery\<close>

text \<open>Putting a packet into the receive queue of a connection, with and without room.\<close>

lemma receive_data_room:
  assumes own: "own dh f s" and c: "c < CSP_CONN_MAX" and run: "csp_rdp_receive_data c p s = (r, s')"
  shows "rcv_cur (rdp (arr_conn s' c)) = rcv_cur (rdp (arr_conn s c))" "rdp_rx_queue s' = rdp_rx_queue s"
    "\<And>x. x \<noteq> p \<Longrightarrow> pkt s' x = pkt s x"
    "queue_list (conn_rx_queue (arr_conn s' c)) = queue_list (conn_rx_queue (arr_conn s c)) @ (if r = CSP_ERR_NONE then [Some p] else [])"
    "csp_queue_free (conn_rx_queue (arr_conn s c)) > 0 \<Longrightarrow> r = CSP_ERR_NONE"
proof -
  let ?s1 = "csp_rdp_header_remove p s" and ?q = "conn_rx_queue (arr_conn s c)"
  have arr: "arr_conn ?s1 = arr_conn s" by (simp add: csp_rdp_header_remove_def)
  obtain r0 q where enq: "csp_queue_enqueue ?q (Some p) = (r0, q)" by fastforce
  note ok = queues_okD(3) [OF own_queues [OF own] c]
  note e = qheld_enqueue [OF ok enq, of id]
  let ?s2 = "upd_conn c (\<lambda>k. k\<lparr>conn_rx_queue := q\<rparr>) ?s1"
  have res: "(r, s') = (if r0 \<noteq> CSP_QUEUE_OK then (CSP_ERR_NOBUFS, conn_ovf (conn_ovf ?s2)) else (CSP_ERR_NONE, ?s2))"
    using run enq by (simp add: csp_rdp_receive_data_def csp_conn_enqueue_packet_def arr Let_def split: if_splits)
  have p1: "pkt ?s1 x = pkt s x" if "x \<noteq> p" for x using that by (simp add: csp_rdp_header_remove_def upd_pkt_def on_core_def)
  have rx1: "rdp_rx_queue ?s1 = rdp_rx_queue s" by (simp add: csp_rdp_header_remove_def upd_pkt_def on_core_def)
  show "rcv_cur (rdp (arr_conn s' c)) = rcv_cur (rdp (arr_conn s c))" "rdp_rx_queue s' = rdp_rx_queue s"
    using res by (auto simp: upd_conn_def conn_ovf_def on_core_def arr rx1 split: if_splits)
  show "pkt s' x = pkt s x" if "x \<noteq> p" for x
    using res p1 [OF that] by (auto simp: upd_conn_def conn_ovf_def on_core_def packet_def split: if_splits)
  show "queue_list (conn_rx_queue (arr_conn s' c)) = queue_list ?q @ (if r = CSP_ERR_NONE then [Some p] else [])"
    using res e by (auto simp: upd_conn_def conn_ovf_def on_core_def split: if_splits)
  show "r = CSP_ERR_NONE" if "csp_queue_free ?q > 0"
    using res e that csp_q.free_of_contents [OF ok] by (auto split: if_splits)
qed

lemma rx_flush_for_spec:
  "own dh f s \<Longrightarrow> c < CSP_CONN_MAX \<Longrightarrow> rx_flush_for n c s = (b, s') \<Longrightarrow>
     (if b then \<exists>p. mset (queue_list (rdp_rx_queue s)) = add_mset p (mset (queue_list (rdp_rx_queue s')))
         \<and> hdr_seq_he (pkt s p) = rcv_cur (rdp (arr_conn s c)) + 1
         \<and> rcv_cur (rdp (arr_conn s' c)) = rcv_cur (rdp (arr_conn s c)) + 1
         \<and> queue_list (conn_rx_queue (arr_conn s' c)) = queue_list (conn_rx_queue (arr_conn s c)) @ [Some p]
         \<and> (\<forall>x. x \<noteq> p \<longrightarrow> hdr_seq_he (pkt s' x) = hdr_seq_he (pkt s x))
      else arr_conn s' = arr_conn s)"
proof (induction n arbitrary: s)
  case (Suc n)
  show ?case
  proof (cases "csp_queue_free (conn_rx_queue (arr_conn s c)) \<le> 2")
    case True
    with Suc.prems show ?thesis by auto
  next
    case room: False
    obtain r s1 where get: "csp_rdp_queue_rx_get c s = (r, s1)" by fastforce
    note own1 = rdp_rx_get(1) [OF Suc.prems(1) get] and m1 = rx_get_mset [OF Suc.prems(1) get]
    show ?thesis
    proof (cases r)
      case None
      with Suc.prems(3) room get m1 show ?thesis by auto
    next
      case (Some p)
      then have own1: "own dh (tok p f) s1" using own1 by simp
      note sq1 = conn_only_seq [OF m1(2)]
      show ?thesis
      proof (cases "hdr_seq_he (pkt s1 p) = rcv_cur (rdp (arr_conn s1 c)) + 1")
        case True
        obtain e s2 where rd: "csp_rdp_receive_data c p s1 = (e, s2)" by fastforce
        note rr = receive_data_room [OF own1 Suc.prems(2) rd]
        have e: "e = CSP_ERR_NONE" using rr(5) room m1(1) by simp
        have s': "b" "s' = upd_rdp c (\<lambda>r. r\<lparr>rcv_cur := rcv_cur r + 1\<rparr>) s2"
          using Suc.prems(3) room get Some True rd e by auto
        have "pkt s' x = pkt s1 x" if "x \<noteq> p" for x using rr(3) [OF that] s'(2) by (simp add: upd_rdp_def upd_conn_def)
        then show ?thesis
          using s' rr(1,2,4) e m1 Some True sq1 by (auto simp: upd_rdp_def upd_conn_def intro!: exI [of _ p])
      next
        case False
        let ?s2 = "csp_rdp_queue_rx_add c p s1"
        have run: "rx_flush_for n c ?s2 = (b, s')" using Suc.prems(3) room get Some False by simp
        have "size (mset (queue_list (rdp_rx_queue s))) = Suc (size (mset (queue_list (rdp_rx_queue s1))))" using m1(3) Some by simp
        then have "length (queue_list (rdp_rx_queue s1)) < q_size (rdp_rx_queue s1)"
          using csp_q.ok_bound [OF queues_okD(7) [OF own_queues [OF Suc.prems(1)]]] m1(4) by simp
        note m2 = rx_add_mset [OF own1 this, of c p]
        have ms: "mset (queue_list (rdp_rx_queue ?s2)) = mset (queue_list (rdp_rx_queue s))" using m1(3) m2(3) Some by simp
        have sq: "hdr_seq_he (pkt ?s2 x) = hdr_seq_he (pkt s x)" for x using sq1 conn_only_seq [OF m2(2)] by simp
        from Suc.IH [OF rdp_rx_add(1) [OF own1] Suc.prems(2) run] show ?thesis
          unfolding ms sq m2(1) m1(1) .
      qed
    qed
  qed
qed simp

text \<open>The packets a flush delivers.\<close>

definition in_sequence :: "u16 \<Rightarrow> (addr \<Rightarrow> u16) \<Rightarrow> addr list \<Rightarrow> bool" where
  "in_sequence cur sq ps \<longleftrightarrow> (\<forall>i<length ps. sq (ps ! i) = cur + of_nat i + 1)"

lemma in_sequence_Cons:
  "in_sequence cur sq (p # ps) \<longleftrightarrow> sq p = cur + 1 \<and> in_sequence (cur + 1) sq ps"
  by (auto simp: in_sequence_def nth_Cons algebra_simps split: nat.splits)

lemma in_sequence_Nil [simp]: "in_sequence cur sq []"
  by (simp add: in_sequence_def)

lemma in_sequence_cong: "(\<And>x. x \<in> set ps \<Longrightarrow> sq x = sq' x) \<Longrightarrow> in_sequence cur sq ps = in_sequence cur sq' ps"
  by (auto simp: in_sequence_def)

lemma rx_queue_flush_order:
  "own dh f s \<Longrightarrow> c < CSP_CONN_MAX \<Longrightarrow> distinct (queue_list (rdp_rx_queue s)) \<Longrightarrow> s' = csp_rdp_rx_queue_flush c s \<Longrightarrow>
     \<exists>ps. queue_list (conn_rx_queue (arr_conn s' c)) = queue_list (conn_rx_queue (arr_conn s c)) @ map Some ps
       \<and> rcv_cur (rdp (arr_conn s' c)) = rcv_cur (rdp (arr_conn s c)) + of_nat (length ps)
       \<and> set ps \<subseteq> set (queue_list (rdp_rx_queue s))
       \<and> in_sequence (rcv_cur (rdp (arr_conn s c))) (\<lambda>x. hdr_seq_he (pkt s x)) ps"
proof (induction c s rule: csp_rdp_rx_queue_flush.induct)
  case (1 c s)
  obtain b s1 where run: "rx_flush_for (csp_rdp_queue_rx_size s) c s = (b, s1)" by fastforce
  have own1: "own dh f s1" using rx_flush_for_own [OF 1(2,3) run] by simp
  note spec = rx_flush_for_spec [OF 1(2,3) run]
  show ?case
  proof (cases b)
    case False
    with spec run 1(5) have "arr_conn s' = arr_conn s" by (subst (asm) csp_rdp_rx_queue_flush.simps) simp
    then show ?thesis by (intro exI [of _ "[]"]) simp
  next
    case True
    with run 1(5) have s': "s' = csp_rdp_rx_queue_flush c s1" by (subst (asm) csp_rdp_rx_queue_flush.simps) simp
    from spec True obtain p where p: "mset (queue_list (rdp_rx_queue s)) = add_mset p (mset (queue_list (rdp_rx_queue s1)))"
        "hdr_seq_he (pkt s p) = rcv_cur (rdp (arr_conn s c)) + 1" "rcv_cur (rdp (arr_conn s1 c)) = rcv_cur (rdp (arr_conn s c)) + 1"
        "queue_list (conn_rx_queue (arr_conn s1 c)) = queue_list (conn_rx_queue (arr_conn s c)) @ [Some p]"
        "\<And>x. x \<noteq> p \<Longrightarrow> hdr_seq_he (pkt s1 x) = hdr_seq_he (pkt s x)" by auto
    have "mset (queue_list (rdp_rx_queue s)) = mset (p # queue_list (rdp_rx_queue s1))" using p(1) by simp
    then have d: "distinct (p # queue_list (rdp_rx_queue s1))" and st: "set (queue_list (rdp_rx_queue s)) = set (p # queue_list (rdp_rx_queue s1))"
      using 1(4) by (metis mset_eq_imp_distinct_iff, metis mset_eq_setD)
    from 1(1) [OF run [symmetric] _ True own1 1(3) _ s'] d obtain ps where ps:
      "queue_list (conn_rx_queue (arr_conn s' c)) = queue_list (conn_rx_queue (arr_conn s1 c)) @ map Some ps"
      "rcv_cur (rdp (arr_conn s' c)) = rcv_cur (rdp (arr_conn s1 c)) + of_nat (length ps)"
      "set ps \<subseteq> set (queue_list (rdp_rx_queue s1))" "in_sequence (rcv_cur (rdp (arr_conn s1 c))) (\<lambda>x. hdr_seq_he (pkt s1 x)) ps"
      by auto
    have "hdr_seq_he (pkt s x) = hdr_seq_he (pkt s1 x)" if "x \<in> set ps" for x
    proof -
      have "x \<noteq> p" using that ps(3) d by auto
      then show ?thesis using p(5) by simp
    qed
    then have "in_sequence (rcv_cur (rdp (arr_conn s c)) + 1) (\<lambda>x. hdr_seq_he (pkt s x)) ps"
      using ps(4) p(3) by (simp add: in_sequence_cong [of ps "\<lambda>x. hdr_seq_he (pkt s x)" "\<lambda>x. hdr_seq_he (pkt s1 x)"])
    then show ?thesis
      using ps p st by (intro exI [of _ "p # ps"]) (auto simp: in_sequence_Cons)
  qed
qed

text \<open>The connection got the packets \<open>ps\<close>, in sequence.\<close>

definition delivered :: "addr \<Rightarrow> 'd csp_state \<Rightarrow> addr list \<Rightarrow> 'd csp_state \<Rightarrow> bool" where
  "delivered c s ps s' \<longleftrightarrow> queue_list (conn_rx_queue (arr_conn s' c)) = queue_list (conn_rx_queue (arr_conn s c)) @ map Some ps
     \<and> rcv_cur (rdp (arr_conn s' c)) = rcv_cur (rdp (arr_conn s c)) + of_nat (length ps)
     \<and> in_sequence (rcv_cur (rdp (arr_conn s c))) (\<lambda>x. hdr_seq_he (pkt s x)) ps"

lemma delivered_none:
  "conn_rx_queue (arr_conn s' c) = conn_rx_queue (arr_conn s c) \<Longrightarrow> rcv_cur (rdp (arr_conn s' c)) = rcv_cur (rdp (arr_conn s c))
     \<Longrightarrow> delivered c s [] s'"
  by (simp add: delivered_def)

lemma held_rx: "x \<in> set (queue_list (rdp_rx_queue s)) \<Longrightarrow> own dh f s \<Longrightarrow> 0 < buf_refs (core s) x"
proof -
  assume x: "x \<in> set (queue_list (rdp_rx_queue s))" and own: "own dh f s"
  have "0 < qheld Some (rdp_rx_queue s) x"
    using x by (auto simp: qheld_def length_greater_0_conv filter_empty_conv)
  then show ?thesis using own by (auto simp: own_def held_def)
qed

context nexthop_contract
begin

text \<open>Acknowledging, then flushing the reorder queue.\<close>

lemma ack_flush_order:
  assumes own: "own dh f s" and c: "c < CSP_CONN_MAX" and d: "distinct (queue_list (rdp_rx_queue s))"
  shows "\<exists>ps. delivered c s ps (csp_rdp_rx_queue_flush c (snd (csp_rdp_check_ack nh c s))) \<and> set ps \<subseteq> set (queue_list (rdp_rx_queue s))"
proof -
  let ?s1 = "snd (csp_rdp_check_ack nh c s)"
  note ack = check_ack_own [OF own, of c]
  have rx: "rdp_rx_queue ?s1 = rdp_rx_queue s" using cmp_frameD(17) [OF ack(2)] .
  from rx_queue_flush_order [OF ack(1) c _ refl] d obtain ps where ps:
    "queue_list (conn_rx_queue (arr_conn (csp_rdp_rx_queue_flush c ?s1) c)) = queue_list (conn_rx_queue (arr_conn ?s1 c)) @ map Some ps"
    "rcv_cur (rdp (arr_conn (csp_rdp_rx_queue_flush c ?s1) c)) = rcv_cur (rdp (arr_conn ?s1 c)) + of_nat (length ps)"
    "set ps \<subseteq> set (queue_list (rdp_rx_queue s))" "in_sequence (rcv_cur (rdp (arr_conn ?s1 c))) (\<lambda>x. hdr_seq_he (pkt ?s1 x)) ps"
    by (auto simp: rx)
  have "pkt ?s1 x = pkt s x" if "x \<in> set ps" for x
    using that ps(3) ack(3) held_rx [OF _ own] by (auto simp: pkts_kept_def)
  then have "in_sequence (rcv_cur (rdp (arr_conn s c))) (\<lambda>x. hdr_seq_he (pkt s x)) ps"
    using ps(4) cmp_frameD(7) [OF ack(2), of c]
    by (simp add: in_sequence_cong [of ps "\<lambda>x. hdr_seq_he (pkt s x)" "\<lambda>x. hdr_seq_he (pkt ?s1 x)"])
  with ps cmp_frameD(2,7) [OF ack(2), of c] show ?thesis by (auto simp: delivered_def)
qed

text \<open>The packet in sequence, then those it completes.\<close>

lemma receive_data_order:
  assumes own: "own dh (tok p f) s" and c: "c < CSP_CONN_MAX" and d: "distinct (p # queue_list (rdp_rx_queue s))"
    and sq: "hdr_seq_he (pkt s p) = rcv_cur (rdp (arr_conn s c)) + 1" and run: "csp_rdp_receive_data c p s = (CSP_ERR_NONE, s1)"
  shows "\<exists>ps. delivered c s ps (csp_rdp_rx_queue_flush c
      (snd (csp_rdp_check_ack nh c (upd_rdp c (\<lambda>r. r\<lparr>rcv_cur := hdr_seq_he (pkt s p)\<rparr>) s1))))"
proof -
  let ?s2 = "upd_rdp c (\<lambda>r. r\<lparr>rcv_cur := hdr_seq_he (pkt s p)\<rparr>) s1"
  note rr = receive_data_room [OF own c run]
  have own2: "own dh f ?s2" using receive_data_own(1) [OF own c run] by simp
  have two: "rdp_rx_queue ?s2 = rdp_rx_queue s" "rcv_cur (rdp (arr_conn ?s2 c)) = rcv_cur (rdp (arr_conn s c)) + 1"
      "queue_list (conn_rx_queue (arr_conn ?s2 c)) = queue_list (conn_rx_queue (arr_conn s c)) @ [Some p]"
      "\<And>x. x \<noteq> p \<Longrightarrow> pkt ?s2 x = pkt s x"
    using rr sq by (simp_all add: upd_rdp_def upd_conn_def)
  from ack_flush_order [OF own2 c] d two(1) obtain ps where ps: "delivered c ?s2 ps (csp_rdp_rx_queue_flush c (snd (csp_rdp_check_ack nh c ?s2)))"
      "set ps \<subseteq> set (queue_list (rdp_rx_queue s))" by auto
  have "pkt s x = pkt ?s2 x" if "x \<in> set ps" for x using that ps(2) d two(4) [of x] by (cases "x = p") auto
  then have "in_sequence (rcv_cur (rdp (arr_conn s c)) + 1) (\<lambda>x. hdr_seq_he (pkt s x)) ps"
    using ps(1) two(2) by (simp add: delivered_def in_sequence_cong [of ps "\<lambda>x. hdr_seq_he (pkt s x)" "\<lambda>x. hdr_seq_he (pkt ?s2 x)"])
  then have "delivered c s (p # ps) (csp_rdp_rx_queue_flush c (snd (csp_rdp_check_ack nh c ?s2)))"
    using ps(1) two sq by (simp add: delivered_def in_sequence_Cons)
  then show ?thesis by blast
qed

lemma rx_data_order:
  assumes own: "own dh (tok p f) s" and c: "c < CSP_CONN_MAX" and d: "distinct (p # queue_list (rdp_rx_queue s))"
    and sq: "sq = hdr_seq_he (pkt s p)"
  shows "\<exists>ps. delivered c s ps (snd (rdp_rx_data nh c p fl sq ak s))"
proof -
  define s1 where "s1 = upd_rdp c (\<lambda>r. r\<lparr>snd_una := ak + 1\<rparr>)
      (if dest_socket (arr_conn s c) = None then upd_conn c (\<lambda>k. k\<lparr>conn_timestamp := csp_ms (core s)\<rparr>) s else s)"
  have one: "own dh (tok p f) s1" using own by (simp add: s1_def)
  have kept1: "conn_rx_queue (arr_conn s1 c) = conn_rx_queue (arr_conn s c)" "rcv_cur (rdp (arr_conn s1 c)) = rcv_cur (rdp (arr_conn s c))"
      "rdp_rx_queue s1 = rdp_rx_queue s" "core s1 = core s"
    by (simp_all add: s1_def upd_rdp_def upd_conn_def)
  have del1: "delivered c s ps t = delivered c s1 ps t" for ps t by (simp add: delivered_def kept1)
  obtain r2 s2 where add: "csp_rdp_rx_queue_add c p sq s1 = (r2, s2)" by fastforce
  note two = rx_queue_add_own [OF one add]
  have n2: "delivered c s [] s2" using rdp_frameD(1) [OF two(2)] kept1 by (intro delivered_none) simp_all
  have n2': "delivered c s [] (snd (csp_rdp_check_ack nh c s2))" if "r2 \<noteq> CSP_ERR_NONE"
    using check_ack_own(2) [of "tok p f" s2 c] two(1) that n2 cmp_frameD(2,7) [of c s2 "snd (csp_rdp_check_ack nh c s2)" c]
    by (simp add: delivered_def)
  obtain r3 s3 where rcv: "csp_rdp_receive_data c p s1 = (r3, s3)" by fastforce
  have n3: "delivered c s [] s3" if "r3 \<noteq> CSP_ERR_NONE"
    using receive_data_room [OF one c rcv] that kept1 by (simp add: delivered_def)
  define s5 where "s5 = csp_rdp_rx_queue_flush c (snd (csp_rdp_check_ack nh c (upd_rdp c (\<lambda>r. r\<lparr>rcv_cur := sq\<rparr>) s3)))"
  have n5: "\<exists>ps. delivered c s ps s5" if "r3 = CSP_ERR_NONE" "sq = rcv_cur (rdp (arr_conn s1 c)) + 1"
    using receive_data_order [OF one c, of s3] rcv d sq that unfolding del1 s5_def by (simp add: kept1)
  have n1: "delivered c s [] s1" using kept1 by (intro delivered_none)
  have "snd (rdp_rx_data nh c p fl sq ak s) \<in> {s1, s2} \<union> (if r2 \<noteq> CSP_ERR_NONE then {snd (csp_rdp_check_ack nh c s2)} else {})
      \<union> (if r3 = CSP_ERR_NONE then (if sq = rcv_cur (rdp (arr_conn s1 c)) + 1 then {s5} else {}) else {s3})"
    unfolding rdp_rx_data_def s1_def [symmetric] Let_def add rcv s5_def by auto
  then show ?thesis using n1 n2 n2' n3 n5 by (auto split: if_splits)
qed

end

end
