(* ===== verification/CSP_Rdp_Props.thy ===== *)
theory CSP_Rdp_Props
  imports CSP_Rdp_Order
begin

text \<open>
  The properties of RDP: every received segment is handled without loss of memory and along
  the state diagram, data is delivered in sequence, the transmit window is respected, an
  acknowledgement lets a waiting sender go on, and a silent peer makes it wait for ever.
\<close>

section \<open>Handling a segment\<close>

lemma new_packet_defined:
  assumes "\<And>i. dest_socket (arr_conn s c) = Some i \<Longrightarrow> sock_rx_queue (sockets s i) \<noteq> None"
  obtains b s' where "csp_rdp_new_packet nh rnd c p s = Some (b, s')"
proof -
  let ?s = "upd_pkt p rdp_header_to_host s"
  have s: "arr_conn ?s = arr_conn s" "sockets ?s = sockets s" by (simp_all add: upd_pkt_def on_core_def)
  have "rdp_rx_established c ak ?s \<noteq> None" for ak
    using assms s
    by (cases "dest_socket (arr_conn s c)")
      (auto simp: rdp_rx_established_def Let_def sock_enqueue_def upd_rdp_def upd_conn_def split: option.splits if_splits prod.splits)
  then have est: "\<exists>x y. rdp_rx_established c ak ?s = Some (x, y)" for ak by fastforce
  have "rdp_rx_open nh c p fl sq ak ?s \<noteq> None" for fl sq ak
    using est [of ak] by (cases "rdp_state (rdp (arr_conn ?s c)) = RDP_SYN_RCVD") (auto simp: rdp_rx_open_def Let_def)
  then have "rdp_rx_dispatch nh rnd c p fl sq ak ?s \<noteq> None" for fl sq ak
    by (auto simp: rdp_rx_dispatch_def split: csp_rdp_state.splits)
  then have disp: "\<exists>x y. rdp_rx_dispatch nh rnd c p fl sq ak ?s = Some (x, y)" for fl sq ak by fastforce
  let ?h = "pkt ?s p"
  from disp [of "hdr_flags ?h" "hdr_seq_he ?h" "hdr_ack_he ?h"] obtain x y where
    "csp_rdp_new_packet nh rnd c p s = Some (rdp_rx_exit nh c p x y)"
    by (auto simp: csp_rdp_new_packet_def Let_def)
  with that show thesis by (metis prod.collapse)
qed

context nexthop_contract
begin

text \<open>Closing an open connection leaves the state RDP_OPEN.\<close>

lemma rx_exit_close_state:
  assumes own: "own dh f s" and c: "c < CSP_CONN_MAX" and op: "conn_state (arr_conn s c) = CONN_OPEN" "conn_is_rdp (arr_conn s c)"
  shows "rdp_state (rdp (arr_conn (snd (rdp_rx_exit nh c p (Discard_close by) s)) c)) \<in> {RDP_CLOSE_WAIT, RDP_CLOSED}"
proof -
  have cl: "rdp_state (rdp (arr_conn (snd (csp_conn_close nh (Some c) b s)) c)) \<in> {RDP_CLOSE_WAIT, RDP_CLOSED}" for b
  proof (cases rule: conn_close_cases [OF own c op(1), of b])
    case (1 s1)
    then show ?thesis by simp
  next
    case (2 s1)
    from finish_close(3) [OF 2(2) c] have "rdp (arr_conn (conn_finish_close c s1) c) = rdp (arr_conn s1 c)" by auto
    with 2 op(2) show ?thesis by auto
  qed
  have enq: "rdp (arr_conn (snd (csp_conn_enqueue_packet (Some c) None t)) c) = rdp (arr_conn t c)" for t :: "'a csp_state"
    by (simp add: csp_conn_enqueue_packet_def Let_def split_beta upd_conn_def conn_ovf_def on_core_def)
  show ?thesis using cl by (simp add: rdp_rx_exit_def Let_def enq)
qed

lemma delivered_exit:
  assumes "delivered c s ps s1" "ex \<notin> range Discard_close"
  shows "delivered c s ps (snd (rdp_rx_exit nh c p ex s1))"
  using assms by (cases ex rule: rdp_exit_cases) (auto simp: rdp_rx_exit_def delivered_def)

text \<open>A segment on an open connection: what it delivers, or that it closes the connection.\<close>

lemma rst_order:
  assumes own: "own dh f s" and c: "c < CSP_CONN_MAX" and st: "rdp_state (rdp (arr_conn s c)) = RDP_OPEN"
    and run: "rdp_rx_rst nh c fl sq ak s = (ex, s2)"
  shows "rdp_state (rdp (arr_conn (snd (rdp_rx_exit nh c p ex s2)) c)) \<in> {RDP_CLOSE_WAIT, RDP_CLOSED}
    \<or> delivered c s [] (snd (rdp_rx_exit nh c p ex s2))"
proof (cases "rdp_state (rdp (arr_conn s2 c)) = RDP_OPEN")
  case False
  have "own dh f s2" using rx_rst_own(1) [OF own, of c fl sq ak] run by simp
  from rx_exit_state [OF this c, of ex p] rx_rst_state [OF own run] False st show ?thesis
    by (auto simp: state_after_def split: if_splits)
next
  case True
  have "ex = Discard_open False \<and> s2 = (if fl AND RDP_ACK \<noteq> 0 then upd_rdp c (\<lambda>r. r\<lparr>snd_una := ak + 1\<rparr>) s else s)"
  proof (rule ccontr)
    assume neg: "\<not> ?thesis"
    define s1 where "s1 = (if fl AND RDP_ACK \<noteq> 0 then upd_rdp c (\<lambda>r. r\<lparr>snd_una := ak + 1\<rparr>) s else s)"
    let ?s = "upd_rdp c (\<lambda>r. r\<lparr>rdp_state := RDP_CLOSE_WAIT\<rparr>) s1"
    let ?t = "upd_conn c (\<lambda>k. k\<lparr>conn_timestamp := csp_ms (core ?s)\<rparr>) ?s"
    have own1: "own dh f ?t" using own by (simp add: s1_def)
    have "rdp_state (rdp (arr_conn s1 c)) = RDP_OPEN" using st by (simp add: s1_def)
    then obtain x y where "s2 = snd (csp_rdp_send_cmp nh c None (RDP_ACK OR RDP_RST) x y ?t)"
      using run neg unfolding rdp_rx_rst_def Let_def s1_def [symmetric] by (auto split: if_splits)
    with True send_cmp_state [OF own1, of c "RDP_ACK OR RDP_RST"] show False by (simp add: upd_rdp_def upd_conn_def)
  qed
  then have "delivered c s [] s2" "ex \<notin> range Discard_close" by (auto simp: delivered_def upd_rdp_def upd_conn_def)
  then show ?thesis using delivered_exit by blast
qed

lemma open_order:
  assumes own: "own dh (tok p f) s" and c: "c < CSP_CONN_MAX" and op: "conn_state (arr_conn s c) = CONN_OPEN" "conn_is_rdp (arr_conn s c)"
    and st: "rdp_state (rdp (arr_conn s c)) = RDP_OPEN" and d: "distinct (p # queue_list (rdp_rx_queue s))"
    and run: "rdp_rx_open nh c p fl (hdr_seq_he (pkt s p)) ak s = Some (ex, s2)"
  shows "rdp_state (rdp (arr_conn (snd (rdp_rx_exit nh c p ex s2)) c)) \<in> {RDP_CLOSE_WAIT, RDP_CLOSED}
    \<or> (\<exists>ps. delivered c s ps (snd (rdp_rx_exit nh c p ex s2)))"
proof -
  have dat: "fst (rdp_rx_data nh c p fl sq ak s) \<notin> range Discard_close" for sq
    by (auto simp: rdp_rx_data_def Let_def split: if_splits prod.splits)
  consider b where "ex = Discard_close b" "s2 = s" | "ex = Discard_open False" "s2 = s"
    | "rdp_rx_data nh c p fl (hdr_seq_he (pkt s p)) ak s = (ex, s2)"
    using run st by (auto simp: rdp_rx_open_def Let_def split: if_splits)
  then show ?thesis
  proof cases
    case (1 b)
    with rx_exit_close_state [OF own c op] show ?thesis by simp
  next
    case 2
    then have "delivered c s [] s2" "ex \<notin> range Discard_close" by (auto simp: delivered_none)
    then show ?thesis using delivered_exit by blast
  next
    case 3
    from rx_data_order [OF own c d refl, of fl ak] 3 dat [of "hdr_seq_he (pkt s p)"] show ?thesis
      using delivered_exit by (metis fst_conv snd_conv)
  qed
qed

lemma new_packet_order:
  assumes own: "own dh (tok p f) s" and c: "c < CSP_CONN_MAX" and op: "conn_state (arr_conn s c) = CONN_OPEN" "conn_is_rdp (arr_conn s c)"
    and st: "rdp_state (rdp (arr_conn s c)) = RDP_OPEN" and d: "distinct (p # queue_list (rdp_rx_queue s))"
    and run: "csp_rdp_new_packet nh rnd c p s = Some (b, s')"
  shows "rdp_state (rdp (arr_conn s' c)) \<in> {RDP_CLOSE_WAIT, RDP_CLOSED}
    \<or> (\<exists>ps. delivered c (upd_pkt p rdp_header_to_host s) ps s')"
proof -
  define k where "k = rdp_header_to_host (pkt s p)"
  define s1 where "s1 = upd_pkt p rdp_header_to_host s"
  have one: "own dh (tok p f) s1" using own by (simp add: s1_def)
  have kept: "arr_conn s1 = arr_conn s" "rdp_rx_queue s1 = rdp_rx_queue s" "pkt s1 p = k"
    by (simp_all add: s1_def k_def upd_pkt_def on_core_def)
  obtain ex s2 where disp: "rdp_rx_dispatch nh rnd c p (hdr_flags k) (hdr_seq_he k) (hdr_ack_he k) s1 = Some (ex, s2)"
    and s': "rdp_rx_exit nh c p ex s2 = (b, s')"
    using new_packet_run [OF run k_def] unfolding s1_def [symmetric] by metis
  have st1: "rdp_state (rdp (arr_conn s1 c)) = RDP_OPEN" using st kept(1) by simp
  show ?thesis
    unfolding s1_def [symmetric]
  proof (cases "hdr_flags k AND RDP_RST \<noteq> 0")
    case True
    then have "rdp_rx_rst nh c (hdr_flags k) (hdr_seq_he k) (hdr_ack_he k) s1 = (ex, s2)"
      using disp by (simp add: rdp_rx_dispatch_def)
    from rst_order [OF one c st1 this, of p] s'
    show "rdp_state (rdp (arr_conn s' c)) \<in> {RDP_CLOSE_WAIT, RDP_CLOSED} \<or> (\<exists>ps. delivered c s1 ps s')" by auto
  next
    case False
    then have "rdp_rx_open nh c p (hdr_flags k) (hdr_seq_he (pkt s1 p)) (hdr_ack_he k) s1 = Some (ex, s2)"
      using disp st1 kept(3) by (simp add: rdp_rx_dispatch_def)
    from open_order [OF one c _ _ st1 _ this] op d kept s'
    show "rdp_state (rdp (arr_conn s' c)) \<in> {RDP_CLOSE_WAIT, RDP_CLOSED} \<or> (\<exists>ps. delivered c s1 ps s')" by auto
  qed
qed

end

section \<open>The transmit window\<close>

text \<open>The segments a connection has in flight.\<close>

definition in_flight :: "csp_rdp \<Rightarrow> nat" where
  "in_flight r = unat (snd_nxt r - snd_una r)"

lemma u32_to_u16_add: "ucast (a + b :: u32) = (ucast a + ucast b :: u16)"
  by transfer (simp add: take_bit_eq_mod mod_mod_cancel mod_add_eq [symmetric, of "_ mod 4294967296"] mod_add_eq)

lemma u32_to_u16_diff: "ucast (a - b :: u32) = (ucast a - ucast b :: u16)"
  by transfer (simp add: take_bit_eq_mod mod_mod_cancel mod_diff_eq [symmetric, of "_ mod 4294967296"] mod_diff_eq)

lemma u32_to_u16_of_nat: "ucast (of_nat n :: u32) = (of_nat n :: u16)"
  by transfer (simp add: take_bit_eq_mod mod_mod_cancel)

lemma u16_u32_u16: "ucast (ucast a :: u32) = (a :: u16)"
  by transfer (simp add: take_bit_eq_mod mod_mod_cancel)

lemma ready_window:
  assumes rd: "csp_rdp_is_conn_ready_for_tx c s" and w: "0 < window_size (rdp (arr_conn s c))" "window_size (rdp (arr_conn s c)) \<le> 2 ^ 15"
  shows "in_flight (rdp (arr_conn s c)) < unat (window_size (rdp (arr_conn s c))) \<or> 2 ^ 15 \<le> in_flight (rdp (arr_conn s c))"
proof (rule ccontr)
  let ?r = "rdp (arr_conn s c)"
  assume neg: "\<not> ?thesis"
  define n where "n = unat (window_size ?r)"
  have n: "0 < n" "n \<le> 2 ^ 15" using w by (simp_all add: n_def word_less_nat_alt word_le_nat_alt unat_gt_0)
  have wn: "window_size ?r = of_nat n" by (simp add: n_def)
  have lim: "ucast (ucast (snd_una ?r) + window_size ?r - 1 :: u32) = snd_una ?r + of_nat n - 1"
    unfolding wn by (simp add: u32_to_u16_add u32_to_u16_diff u32_to_u16_of_nat u16_u32_u16)
  have d: "snd_nxt ?r = snd_una ?r + of_nat n - 1 + of_nat (in_flight ?r - n + 1)"
    using neg by (simp add: in_flight_def n_def)
  have "csp_rdp_seq_before (snd_una ?r + of_nat n - 1) (snd_nxt ?r)"
    unfolding seq_before_iff using neg n d by (intro exI [of _ "in_flight ?r - n + 1"]) (auto simp: n_def)
  with rd show False by (simp add: csp_rdp_is_conn_ready_for_tx_def csp_rdp_seq_after_def lim Let_def)
qed

text \<open>What sending a segment does to the connection.\<close>

lemma segment_window:
  assumes run: "rdp_send_segment c p s = (CSP_ERR_NONE, s')"
  shows "snd_nxt (rdp (arr_conn s' c)) = snd_nxt (rdp (arr_conn s c)) + 1"
    "snd_una (rdp (arr_conn s' c)) = snd_una (rdp (arr_conn s c))"
    "window_size (rdp (arr_conn s' c)) = window_size (rdp (arr_conn s c))"
proof -
  obtain ok s1 where add: "csp_rdp_header_add p s = (ok, s1)" by fastforce
  then obtain g where s1: "s1 = upd_pkt p g s" using header_add_upd by blast
  define s2 where "s2 = rdp_data_header c p s1"
  obtain b s3 where clone: "in_core (csp_buffer_clone (Some p)) s2 = (b, s3)" by fastforce
  have c3: "arr_conn s3 = arr_conn s" using clone by (auto simp: in_core_def s2_def s1 rdp_data_header_def Let_def)
  obtain q t where "s' = upd_rdp c (\<lambda>r. r\<lparr>snd_nxt := snd_nxt r + 1, ack_timestamp := t\<rparr>) (csp_rdp_queue_tx_add c q (upd_pkt q (\<lambda>k. k\<lparr>timestamp_tx := csp_ms (core s3)\<rparr>) s3))"
    using run add clone by (auto simp: rdp_send_segment_def Let_def s2_def split: if_splits option.splits)
  then show "snd_nxt (rdp (arr_conn s' c)) = snd_nxt (rdp (arr_conn s c)) + 1"
    "snd_una (rdp (arr_conn s' c)) = snd_una (rdp (arr_conn s c))"
    "window_size (rdp (arr_conn s' c)) = window_size (rdp (arr_conn s c))"
    using c3 by (simp_all add: upd_rdp_def upd_conn_def csp_rdp_queue_tx_add_def split_beta)
qed




section \<open>Waiting for the window\<close>

text \<open>The state in which a sender stops waiting, and one round of waiting.\<close>

definition send_stops :: "addr \<Rightarrow> 'd csp_state \<Rightarrow> bool" where
  "send_stops c s \<longleftrightarrow> rdp_state (rdp (arr_conn s c)) \<in> {RDP_CLOSE_WAIT, RDP_CLOSED} \<or> csp_rdp_is_conn_ready_for_tx c s"

definition send_round :: "(u32 \<Rightarrow> 'd csp_state \<Rightarrow> 'd csp_state) \<Rightarrow> addr \<Rightarrow> 'd csp_state \<Rightarrow> 'd csp_state" where
  "send_round wt c s = snd (rdp_wait wt c (conn_timeout (rdp (arr_conn s c))) s)"

lemma send_wait_step:
  "rdp_send_wait wt c s = (if send_stops c s then Some (rdp_state (rdp (arr_conn s c)) \<notin> {RDP_CLOSE_WAIT, RDP_CLOSED}, s)
     else rdp_send_wait wt c (send_round wt c s))"
  by (subst rdp_send_wait.simps) (auto simp: send_stops_def send_round_def)



lemma send_wait_returns:
  "send_stops c ((send_round wt c ^^ n) s) \<Longrightarrow> \<exists>r. rdp_send_wait wt c s = Some r"
proof (induction n arbitrary: s)
  case 0
  then show ?case by (subst send_wait_step) simp
next
  case (Suc n)
  then have "\<exists>r. rdp_send_wait wt c (send_round wt c s) = Some r" by (simp add: funpow_swap1)
  then show ?case by (subst send_wait_step) simp
qed

lemma send_wait_rounds:
  assumes "rdp_send_wait wt c s = Some (b, s')"
  shows "\<exists>n. s' = (send_round wt c ^^ n) s \<and> send_stops c s' \<and> (b \<longleftrightarrow> rdp_state (rdp (arr_conn s' c)) \<notin> {RDP_CLOSE_WAIT, RDP_CLOSED})"
proof -
  let ?P = "\<lambda>w c s x. \<exists>n. snd x = (send_round w c ^^ n) s \<and> send_stops c (snd x)
      \<and> (fst x \<longleftrightarrow> rdp_state (rdp (arr_conn (snd x) c)) \<notin> {RDP_CLOSE_WAIT, RDP_CLOSED})"
  have "?P wt c s (b, s')"
    using assms
  proof (rule rdp_send_wait.raw_induct [where P = ?P, rotated])
    fix rec :: "(u32 \<Rightarrow> 'a csp_state \<Rightarrow> 'a csp_state) \<Rightarrow> addr \<Rightarrow> 'a csp_state \<Rightarrow> (bool \<times> 'a csp_state) option" and w c s x
    assume ih: "\<And>w c s x. rec w c s = Some x \<Longrightarrow> ?P w c s x"
      and run: "(if rdp_state (rdp (arr_conn s c)) = RDP_CLOSE_WAIT \<or> rdp_state (rdp (arr_conn s c)) = RDP_CLOSED then Some (False, s)
        else if csp_rdp_is_conn_ready_for_tx c s then Some (True, s)
        else rec w c (snd (rdp_wait w c (conn_timeout (rdp (arr_conn s c))) s))) = Some x"
    show "?P w c s x"
    proof (cases "send_stops c s")
      case True
      with run have "x = (rdp_state (rdp (arr_conn s c)) \<notin> {RDP_CLOSE_WAIT, RDP_CLOSED}, s)"
        by (auto simp: send_stops_def split: if_splits)
      with True show ?thesis by (intro exI [of _ 0]) simp
    next
      case False
      with run have "rec w c (send_round w c s) = Some x" by (auto simp: send_stops_def send_round_def split: if_splits)
      from ih [OF this] obtain n where "snd x = (send_round w c ^^ n) (send_round w c s)" "send_stops c (snd x)"
          "fst x \<longleftrightarrow> rdp_state (rdp (arr_conn (snd x) c)) \<notin> {RDP_CLOSE_WAIT, RDP_CLOSED}" by blast
      then show ?thesis by (intro exI [of _ "Suc n"]) (simp add: funpow_swap1)
    qed
  qed
  then show ?thesis by simp
qed

lemma send_returns_iff:
  "(\<exists>r. rdp_send_wait wt c s = Some r) \<longleftrightarrow> (\<exists>n. send_stops c ((send_round wt c ^^ n) s))"
  using send_wait_returns send_wait_rounds by (metis prod.collapse)

text \<open>Time passes.\<close>

definition clock_tick :: "u32 \<Rightarrow> 'd csp_state \<Rightarrow> 'd csp_state" where
  "clock_tick t s = on_core (csp_ms_update (\<lambda>m. m + t)) s"

lemma own_clock [simp]: "own dh f (clock_tick t s) = own dh f s"
  unfolding clock_tick_def on_core_def
  by (rule own_core_cong) (simp_all add: buf_inv_def buf_refs_def free_list_def fun_eq_iff)


text \<open>The part of a connection that a sender waits for.\<close>

definition tx_view :: "addr \<Rightarrow> 'd csp_state \<Rightarrow> csp_rdp_state \<times> addr option \<times> u16 \<times> u16 \<times> u32" where
  "tx_view c s = (let k = arr_conn s c; r = rdp k in (rdp_state r, dest_socket k, snd_una r, snd_nxt r, window_size r))"

lemma tx_view_stops: "tx_view c s' = tx_view c s \<Longrightarrow> send_stops c s' = send_stops c s"
  by (simp add: tx_view_def send_stops_def csp_rdp_is_conn_ready_for_tx_def Let_def)

lemma tx_view_conns: "arr_conn s' = arr_conn s \<Longrightarrow> tx_view c s' = tx_view c s"
  by (simp add: tx_view_def)

lemma tx_view_upds [simp]:
  "tx_view c (upd_rdp c (\<lambda>r. r\<lparr>tx_wait := w r\<rparr>) s) = tx_view c s" "tx_view c (rdp_post c s) = tx_view c s"
  "tx_view c (upd_rdp c (\<lambda>r. r\<lparr>ack_timestamp := t r\<rparr>) s) = tx_view c s" "tx_view c (on_core g s) = tx_view c s"
  "tx_view c (upd_pkt p h s) = tx_view c s" "tx_view c (clock_tick u s) = tx_view c s" "tx_view c (free_pkt p s) = tx_view c s"
  by (simp_all add: tx_view_def rdp_post_def upd_rdp_def upd_conn_def on_core_def clock_tick_def Let_def)

lemma tx_view_rx: "rx_frame c s s' \<Longrightarrow> tx_view c s' = tx_view c s"
  by (simp add: tx_view_def rx_frameD Let_def)

lemma rdp_view: "rdp_frame s s' \<Longrightarrow> tx_view c s' = tx_view c s"
  by (rule tx_view_rx, rule rdp_rx_frame)

context nexthop_contract
begin

lemma retransmit_view:
  assumes own: "own dh (tok p f) s"
  shows "tx_view c (rdp_retransmit nh c p s) = tx_view c s"
proof -
  obtain b s1 where get: "in_core csp_buffer_get s = (b, s1)" by fastforce
  note own1 = own_get [OF own get]
  have c1: "arr_conn s1 = arr_conn s" using get by (auto simp: in_core_def)
  show ?thesis
  proof (cases b)
    case None
    with get c1 show ?thesis by (simp add: rdp_retransmit_def) (rule tx_view_conns)
  next
    case (Some q)
    define s2 where "s2 = upd_pkt p (set_hdr 3 (be_bytes 2 (rcv_cur (rdp (arr_conn s1 c))))) s1"
    define s3 where "s3 = upd_rdp c (\<lambda>r. r\<lparr>ack_timestamp := csp_ms (core s2)\<rparr>) s2"
    define s4 where "s4 = on_core (csp_buffer_copy (Some p) (Some q)) (upd_pkt p (\<lambda>k. k\<lparr>timestamp_tx := csp_ms (core s3)\<rparr>) s3)"
    have own4: "own dh (tok q (tok p f)) s4" using own1 Some by (simp add: s2_def s3_def s4_def)
    have "tx_view c s4 = tx_view c s1" by (simp add: s2_def s3_def s4_def)
    then have v: "tx_view c s4 = tx_view c s" using tx_view_conns [OF c1, of c] by simp
    have run: "rdp_retransmit nh c p s = csp_send_direct nh (Id_conn c) (idout (arr_conn s4 c)) q None s4"
      using get Some by (simp add: rdp_retransmit_def Let_def s2_def s3_def s4_def)
    from send_direct_contract [OF own4, of "Id_conn c" "idout (arr_conn s4 c)" None] have
      "ptr_frame (Id_conn c) s4 (rdp_retransmit nh c p s)" unfolding run by blast
    then obtain x where "arr_conn (rdp_retransmit nh c p s) c = (arr_conn s4 c)\<lparr>idout := x\<rparr>" unfolding ptr_frame_def by metis
    with v show ?thesis by (simp add: tx_view_def Let_def)
  qed
qed

lemma tx_loop_view: "own dh f s \<Longrightarrow> tx_view c (rdp_tx_loop n nh c t s) = tx_view c s"
proof (induction n arbitrary: s)
  case (Suc n)
  obtain r s1 where get: "csp_rdp_queue_tx_get c s = (r, s1)" by fastforce
  note own1 = rdp_tx_get(1) [OF Suc.prems get]
  have v1: "tx_view c s1 = tx_view c s" using get by (intro tx_view_conns) (auto simp: csp_rdp_queue_tx_get_def split_beta)
  show ?case
  proof (cases r)
    case None
    with get v1 show ?thesis by simp
  next
    case (Some p)
    then have own2: "own dh (tok p f) s1" using own1 by simp
    let ?s2 = "rdp_retransmit nh c p s1"
    have add: "tx_view c (csp_rdp_queue_tx_add c p t) = tx_view c t" for t :: "'a csp_state"
      by (intro tx_view_conns) (simp add: csp_rdp_queue_tx_add_def split_beta)
    note re = rdp_tx_add(1) [OF own2, of c] rdp_tx_add(1) [OF retransmit_own [OF own2, of c], of c]
    show ?thesis
      using get Some Suc.IH [OF own_free [OF own2]] Suc.IH [OF re(1)] Suc.IH [OF re(2)] v1 retransmit_view [OF own2, of c]
      by (simp add: Let_def add)
  qed
qed simp

lemma check_timeouts_view:
  assumes own: "own dh f s" and c: "c < CSP_CONN_MAX" and st: "rdp_state (rdp (arr_conn s c)) = RDP_OPEN" "dest_socket (arr_conn s c) = None"
  shows "tx_view c (csp_rdp_check_timeouts nh c s) = tx_view c s"
proof -
  define s1 where "s1 = rdp_tx_loop (csp_rdp_queue_tx_size s) nh c (csp_ms (core s)) s"
  have one: "own dh f s1" "tx_view c s1 = tx_view c s" unfolding s1_def by (rule tx_loop_own [OF own], rule tx_loop_view [OF own])
  define s2 where "s2 = (if delayed_acks (rdp (arr_conn s1 c)) \<noteq> 0 then snd (csp_rdp_check_ack nh c s1) else s1)"
  have two: "own dh f s2" "tx_view c s2 = tx_view c s"
    using one check_ack_own(1) [OF one(1)] tx_view_rx [OF cmp_rx_frame [OF check_ack_own(2) [OF one(1), of c]]] by (auto simp: s2_def)
  define s3 where "s3 = (if csp_rdp_is_conn_ready_for_tx c s2 then rdp_post c s2 else s2)"
  have three: "own dh f s3" "tx_view c s3 = tx_view c s"
    using two by (simp_all add: s3_def)
  have "rdp_state (rdp (arr_conn s1 c)) = RDP_OPEN" using one(2) st(1) by (simp add: tx_view_def Let_def)
  then have "csp_rdp_check_timeouts nh c s = csp_rdp_rx_queue_flush c s3"
    using st by (simp add: csp_rdp_check_timeouts_def Let_def s1_def [symmetric] s2_def s3_def)
  with tx_view_rx [OF conjunct2 [OF rx_queue_flush_own [OF three(1) c]]] three(2) show ?thesis by simp
qed

end

section \<open>Properties\<close>

text \<open>C13. A received segment is consumed: whatever its header says, in whatever state the connection
  is, \<open>csp_rdp_new_packet\<close> returns and gives up exactly its reference to the packet, freeing
  it or passing it on, and no other buffer is freed or kept. The one exception is a segment that is
  answered with a SYN (\<open>answers_syn\<close>): there one buffer that was unused before, never the segment itself, may
  be leaked. The hypothesis on the socket says that a connection waiting to be accepted belongs
  to a socket that was passed to \<open>csp_listen\<close>, so that it has a queue.\<close>

theorem csp_rdp_new_packet_ownership:
  assumes nh: "nexthop_contract nh dh" and own: "own dh (tok p f) s" and c: "c < CSP_CONN_MAX"
    and q: "\<And>i. dest_socket (arr_conn s c) = Some i \<Longrightarrow> sock_rx_queue (sockets s i) \<noteq> None"
    and k: "k = rdp_header_to_host (pkt s p)"
  shows "\<exists>b s'. csp_rdp_new_packet nh rnd c p s = Some (b, s')
    \<and> (own dh f s' \<or> answers_syn (hdr_flags k) (hdr_seq_he k) (rdp (arr_conn s c))
        \<and> (\<exists>x. x \<noteq> p \<and> buf_refs (core s) x = 0 \<and> own dh (tok x f) s'))"
proof -
  obtain b s' where run: "csp_rdp_new_packet nh rnd c p s = Some (b, s')" using new_packet_defined [OF q] .
  have "x \<noteq> p" if "buf_refs (core s) x = 0" for x using own that by (auto simp: own_def tok_apply)
  moreover have "own dh f s' \<or> answers_syn (hdr_flags k) (hdr_seq_he k) (rdp (arr_conn s c)) \<and> (\<exists>x. buf_refs (core s) x = 0 \<and> own dh (tok x f) s')"
    using nexthop_contract.new_packet_own [OF nh own c run k] by (auto simp: own_leak_def unused_def split: if_splits)
  ultimately show ?thesis using run by blast
qed

text \<open>The open connection 3 of \<open>rdp_example\<close> has no socket.\<close>

lemma rdp_example_sock: "dest_socket (arr_conn rdp_example 3) = None" "rdp_rx_queue rdp_example = csp_queue_create_static 10 (\<lambda>_. 0)"
proof -
  have "dest_socket (arr_conn example_sender 3) = None" by (subst example_sender_frame(1)) (simp add: example_node_def)
  then show "dest_socket (arr_conn rdp_example 3) = None" by (simp add: rdp_example_def upd_rdp_def upd_conn_def)
  have "rdp_rx_queue example_sender = csp_queue_create_static 10 (\<lambda>_. 0)" by (subst example_sender_frame(1)) (simp add: example_node_def)
  then show "rdp_rx_queue rdp_example = csp_queue_create_static 10 (\<lambda>_. 0)" by (simp add: rdp_example_def upd_rdp_def upd_conn_def)
qed

theorem csp_rdp_new_packet_ownership_witness:
  "\<exists>b s'. csp_rdp_new_packet (\<lambda>_. csp_lo_tx) (\<lambda>t. t) 3 0 rdp_example = Some (b, s') \<and> own no_driver (\<lambda>_. 0) s'"
  using csp_rdp_new_packet_ownership [OF lo_tx.nexthop_contract_axioms rdp_example_own _ _ refl, of 3 "\<lambda>t. t"]
    rdp_example_sock(1) rdp_example_conn(3) by (auto simp: answers_syn_def)

text \<open>C14. The state machine: a segment takes a connection only along the transitions of \<open>rdp_step\<close>.
  A connection opens only by the two handshakes (a SYN with ACK for the one that sent a
  SYN, an ACK of the chosen sequence number for the one that answered it), a reset never
  opens one, and a closed connection is only left by a plain SYN.\<close>

theorem csp_rdp_transitions:
  assumes "nexthop_contract nh dh" and "own dh (tok p f) s" and "c < CSP_CONN_MAX"
    and "csp_rdp_new_packet nh rnd c p s = Some (b, s')" and "k = rdp_header_to_host (pkt s p)"
  shows "rdp_step (hdr_flags k) (hdr_ack_he k) (rdp (arr_conn s c)) (rdp_state (rdp (arr_conn s' c)))"
  using nexthop_contract.new_packet_step [OF assms] .

theorem csp_rdp_transitions_witness:
  "\<exists>b s'. csp_rdp_new_packet (\<lambda>_. csp_lo_tx) (\<lambda>t. t) 3 0 rdp_example = Some (b, s')
     \<and> rdp_state (rdp (arr_conn s' 3)) \<in> {RDP_OPEN, RDP_CLOSE_WAIT, RDP_CLOSED}"
proof -
  obtain b s' where run: "csp_rdp_new_packet (\<lambda>_. csp_lo_tx) (\<lambda>t. t) 3 0 rdp_example = Some (b, s')"
    using new_packet_defined [of rdp_example 3] rdp_example_sock(1) by (metis option.distinct(1))
  from csp_rdp_transitions [OF lo_tx.nexthop_contract_axioms rdp_example_own _ run refl] show ?thesis
    using run rdp_example_conn(3) by (auto elim: rdp_step.cases)
qed

text \<open>C15. Data is delivered in order: on an open connection each segment either closes the
  connection, or the packets it appends to the receive queue of the connection (none, the
  segment itself, and those it completes from the reorder queue) carry exactly the sequence
  numbers that follow the last one delivered, without a gap or a repetition, and the
  connection has counted them.\<close>

theorem csp_rdp_in_order:
  assumes "nexthop_contract nh dh" and "own dh (tok p f) s" and "c < CSP_CONN_MAX"
    and "conn_state (arr_conn s c) = CONN_OPEN" and "conn_is_rdp (arr_conn s c)" and "rdp_state (rdp (arr_conn s c)) = RDP_OPEN"
    and "distinct (p # queue_list (rdp_rx_queue s))" and "csp_rdp_new_packet nh rnd c p s = Some (b, s')"
  shows "rdp_state (rdp (arr_conn s' c)) \<in> {RDP_CLOSE_WAIT, RDP_CLOSED}
    \<or> (\<exists>ps. queue_list (conn_rx_queue (arr_conn s' c)) = queue_list (conn_rx_queue (arr_conn s c)) @ map Some ps
        \<and> rcv_cur (rdp (arr_conn s' c)) = rcv_cur (rdp (arr_conn s c)) + of_nat (length ps)
        \<and> in_sequence (rcv_cur (rdp (arr_conn s c))) (\<lambda>x. hdr_seq_he (pkt (upd_pkt p rdp_header_to_host s) x)) ps)"
  using nexthop_contract.new_packet_order [OF assms] by (simp add: delivered_def)

theorem csp_rdp_in_order_witness:
  "\<exists>b s'. csp_rdp_new_packet (\<lambda>_. csp_lo_tx) (\<lambda>t. t) 3 0 rdp_example = Some (b, s')
     \<and> (rdp_state (rdp (arr_conn s' 3)) \<in> {RDP_CLOSE_WAIT, RDP_CLOSED}
        \<or> (\<exists>ps. queue_list (conn_rx_queue (arr_conn s' 3)) = queue_list (conn_rx_queue (arr_conn rdp_example 3)) @ map Some ps))"
proof -
  obtain b s' where run: "csp_rdp_new_packet (\<lambda>_. csp_lo_tx) (\<lambda>t. t) 3 0 rdp_example = Some (b, s')"
    using new_packet_defined [of rdp_example 3] rdp_example_sock(1) by (metis option.distinct(1))
  have d: "distinct (0 # queue_list (rdp_rx_queue rdp_example))" by (simp add: rdp_example_sock(2))
  from csp_rdp_in_order [OF lo_tx.nexthop_contract_axioms rdp_example_own _ rdp_example_conn(1-3) d run] run show ?thesis by auto
qed

text \<open>C16. The transmit window: a segment is only sent when fewer than a window of segments is
  unacknowledged (or the acknowledgements are ahead of the sender, more than half the
  circle), so that afterwards there is at most a window of them, for every window up to
  half the sequence numbers; the segment takes the next sequence number.\<close>

theorem csp_rdp_send_window:
  assumes run: "csp_rdp_send wt c p s = Some (CSP_ERR_NONE, s')"
    and w: "0 < window_size (rdp (arr_conn s' c))" "window_size (rdp (arr_conn s' c)) \<le> 2 ^ 15"
  shows "\<exists>s1. (\<exists>n. s1 = (send_round wt c ^^ n) s) \<and> snd_nxt (rdp (arr_conn s' c)) = snd_nxt (rdp (arr_conn s1 c)) + 1
    \<and> (in_flight (rdp (arr_conn s1 c)) < unat (window_size (rdp (arr_conn s' c)))
         \<and> in_flight (rdp (arr_conn s' c)) = in_flight (rdp (arr_conn s1 c)) + 1
       \<or> 2 ^ 15 \<le> in_flight (rdp (arr_conn s1 c)))"
proof -
  obtain s1 where s1: "rdp_send_wait wt c s = Some (True, s1)" "rdp_send_segment c p s1 = (CSP_ERR_NONE, s')"
    using run by (auto simp: csp_rdp_send_def split: if_splits option.splits bool.splits)
  note seg = segment_window [OF s1(2)]
  from send_wait_rounds [OF s1(1)] obtain n where n: "s1 = (send_round wt c ^^ n) s" "csp_rdp_is_conn_ready_for_tx c s1"
    by (auto simp: send_stops_def)
  have small: "unat (x + 1) = unat x + 1" if "unat x < 2 ^ 15" for x :: u16
    using that by (simp add: unat_word_ariths)
  have "in_flight (rdp (arr_conn s' c)) = unat (snd_nxt (rdp (arr_conn s1 c)) - snd_una (rdp (arr_conn s1 c)) + 1)"
    by (simp add: in_flight_def seg algebra_simps)
  moreover have "in_flight (rdp (arr_conn s1 c)) < unat (window_size (rdp (arr_conn s' c))) \<or> 2 ^ 15 \<le> in_flight (rdp (arr_conn s1 c))"
    using ready_window [OF n(2)] w by (simp add: seg)
  ultimately show ?thesis
    using small [of "snd_nxt (rdp (arr_conn s1 c)) - snd_una (rdp (arr_conn s1 c))"] n(1) seg(1)
    by (intro exI [of _ s1]) (auto simp: in_flight_def)
qed


text \<open>C18. A peer that falls silent blocks the sender for ever: while only time passes and the router
  checks the timeouts of the connection, a full window stays full, for no timeout ends an
  open connection that the application has accepted, and \<open>csp_rdp_send\<close> does not return.\<close>

theorem csp_rdp_send_silent_peer:
  assumes nh: "nexthop_contract nh dh" and own: "own dh f s" and c: "c < CSP_CONN_MAX"
    and st: "rdp_state (rdp (arr_conn s c)) = RDP_OPEN" "dest_socket (arr_conn s c) = None" and full: "\<not> csp_rdp_is_conn_ready_for_tx c s"
    and wt: "\<And>t s. wt t s = csp_rdp_check_timeouts nh c (clock_tick t s)"
  shows "csp_rdp_send wt c p s = None"
proof -
  have round: "own dh f (send_round wt c t) \<and> tx_view c (send_round wt c t) = tx_view c s" if t: "own dh f t" "tx_view c t = tx_view c s" for t
  proof -
    define t1 where "t1 = clock_tick (conn_timeout (rdp (arr_conn t c))) t"
    have one: "own dh f t1" "tx_view c t1 = tx_view c s"
      using t by (simp_all add: t1_def)
    then have "rdp_state (rdp (arr_conn t1 c)) = RDP_OPEN" "dest_socket (arr_conn t1 c) = None"
      using st by (simp_all add: tx_view_def Let_def)
    note two = nexthop_contract.check_timeouts_own [OF nh one(1) c] nexthop_contract.check_timeouts_view [OF nh one(1) c this]
    obtain w u where "send_round wt c t = upd_rdp c (\<lambda>r. r\<lparr>tx_wait := w\<rparr>) u" "u \<in> {t, csp_rdp_check_timeouts nh c t1}"
      by (simp add: send_round_def rdp_wait_def wt t1_def Let_def split_beta)
    with t one two show ?thesis by auto
  qed
  have "own dh f ((send_round wt c ^^ n) s) \<and> tx_view c ((send_round wt c ^^ n) s) = tx_view c s" for n
    by (induction n) (use own round in auto)
  moreover have "\<not> send_stops c s" using st full by (simp add: send_stops_def)
  ultimately have "\<not> send_stops c ((send_round wt c ^^ n) s)" for n using tx_view_stops by blast
  then have "rdp_send_wait wt c s = None" using send_returns_iff [of wt c s] by (metis not_Some_eq)
  then show ?thesis using st by (simp add: csp_rdp_send_def)
qed

text \<open>Connection 3 with a full window.\<close>

definition rdp_full :: "unit csp_state" where
  "rdp_full = upd_rdp 3 (\<lambda>r. r\<lparr>snd_nxt := 4, window_size := 4, snd_una := 0, tx_wait := 0\<rparr>) rdp_example"

theorem csp_rdp_send_silent_peer_witness:
  "csp_rdp_send (\<lambda>t s. csp_rdp_check_timeouts (\<lambda>_. csp_lo_tx) 3 (clock_tick t s)) 3 0 rdp_full = None"
proof (rule csp_rdp_send_silent_peer [OF lo_tx.nexthop_contract_axioms])
  show "own no_driver (tok 0 (\<lambda>_. 0)) rdp_full" using rdp_example_own by (simp add: rdp_full_def)
  show "rdp_state (rdp (arr_conn rdp_full 3)) = RDP_OPEN" "dest_socket (arr_conn rdp_full 3) = None"
    using rdp_example_conn(3) rdp_example_sock(1) by (simp_all add: rdp_full_def upd_rdp_def upd_conn_def)
  show "\<not> csp_rdp_is_conn_ready_for_tx 3 rdp_full"
    by (simp add: rdp_full_def csp_rdp_is_conn_ready_for_tx_def csp_rdp_seq_after_def csp_rdp_seq_before_def upd_rdp_def upd_conn_def)
qed simp_all



lemma rdp_example_send: "\<exists>s'. csp_rdp_send wt 3 0 rdp_example = Some (CSP_ERR_NONE, s') \<and> window_size (rdp (arr_conn s' 3)) = 4"
proof -
  have ex: "rdp (arr_conn example_sender 3) = rdp (arr_conn example_node 3)" by (subst example_sender_frame(1)) simp
  have ready: "csp_rdp_is_conn_ready_for_tx 3 rdp_example" and win: "window_size (rdp (arr_conn rdp_example 3)) = 4"
    by (simp_all add: rdp_example_def csp_rdp_is_conn_ready_for_tx_def csp_rdp_seq_after_def csp_rdp_seq_before_def upd_rdp_def upd_conn_def ex
        example_node_def)
  have core: "core rdp_example = core example_sender" by (simp add: rdp_example_def upd_rdp_def upd_conn_def)
  obtain s1 where add: "csp_rdp_header_add 0 rdp_example = (True, s1)"
    by (simp add: csp_rdp_header_add_def core example_sender_pkt fresh_packet_def zero_packet_def)
  then obtain g where s1: "s1 = upd_pkt 0 g rdp_example" using header_add_upd by blast
  define s2 where "s2 = rdp_data_header 3 0 s1"
  have "own no_driver (tok 0 (\<lambda>_. 0)) s2" using rdp_example_own by (simp add: s2_def s1 rdp_data_header_def Let_def)
  then have inv: "buf_inv (core s2)" by (simp add: own_def)
  have "free_list (core s2) = 1 # 2 # [3..<15]"
    by (simp add: s2_def s1 rdp_data_header_def Let_def upd_pkt_def on_core_def core example_sender_pkt upt_rec)
  then obtain k where "csp_buffer_clone (Some 0) (core s2) = (Some 1, k)" using csp_buffer_clone_some [OF inv] by metis
  then have "in_core (csp_buffer_clone (Some 0)) s2 = (Some 1, s2\<lparr>core := k\<rparr>)" by (simp add: in_core_def)
  then obtain s' where seg: "rdp_send_segment 3 0 rdp_example = (CSP_ERR_NONE, s')"
    using add by (simp add: rdp_send_segment_def Let_def s2_def)
  have "csp_rdp_send wt 3 0 rdp_example = Some (CSP_ERR_NONE, s')"
    using ready seg rdp_example_conn(3) by (simp add: csp_rdp_send_def send_wait_step [of wt 3 rdp_example] send_stops_def)
  with segment_window(3) [OF seg] win show ?thesis by simp
qed

theorem csp_rdp_send_window_witness:
  "\<exists>s' (s1 :: unit csp_state). csp_rdp_send (\<lambda>t s. s) 3 0 rdp_example = Some (CSP_ERR_NONE, s')
     \<and> snd_nxt (rdp (arr_conn s' 3)) = snd_nxt (rdp (arr_conn s1 3)) + 1
     \<and> (in_flight (rdp (arr_conn s1 3)) < 4 \<or> 2 ^ 15 \<le> in_flight (rdp (arr_conn s1 3)))"
proof -
  obtain s' where s': "csp_rdp_send (\<lambda>t s. s) 3 0 rdp_example = Some (CSP_ERR_NONE, s')" "window_size (rdp (arr_conn s' 3)) = 4"
    using rdp_example_send by blast
  have four: "0 < (4 :: u32)" "(4 :: u32) \<le> 2 ^ 15" "unat (4 :: u32) = 4" by simp_all
  from csp_rdp_send_window [OF s'(1), unfolded s'(2), OF four(1,2), unfolded four(3)] s'(1) show ?thesis by blast
qed

end
