(* ===== verification/CSP_Io.thy ===== *)
theory CSP_Io
  imports CSP_Port CSP_Rdp_Props
begin

text \<open>
  The calls of an application, \<^verbatim>\<open>src/src/csp_io.c\<close> and \<^verbatim>\<open>csp_connect\<close> of \<^verbatim>\<open>src/src/csp_conn.c\<close>:
  connecting, accepting, reading, sending with and without a connection, and transactions.
  A call that blocks lets the other tasks run: the parameter \<open>wt\<close>. Calls that may never
  return or that use a queue that is not there have results of type \<open>option\<close>.
\<close>

section \<open>Operations\<close>

type_synonym 'd task_fn = "u32 \<Rightarrow> 'd csp_state \<Rightarrow> 'd csp_state"

text \<open>A connection requests these options; a packet has these flags.\<close>

abbreviation (input) CSP_O_RDP :: u32 where "CSP_O_RDP \<equiv> CSP_SO_RDPREQ"
abbreviation (input) CSP_O_HMAC :: u32 where "CSP_O_HMAC \<equiv> CSP_SO_HMACREQ"
abbreviation (input) CSP_O_CRC32 :: u32 where "CSP_O_CRC32 \<equiv> CSP_SO_CRC32REQ"
abbreviation (input) CSP_O_NOCRC32 :: u32 where "CSP_O_NOCRC32 \<equiv> CSP_SO_CRC32PROHIB"
abbreviation (input) CSP_O_SAME :: u32 where "CSP_O_SAME \<equiv> CSP_SO_SAME"

text \<open>Taking an item from the queue of a socket, waiting for one if there is none.\<close>

definition sock_dequeue :: "'d task_fn \<Rightarrow> addr \<Rightarrow> u32 \<Rightarrow> 'd csp_state \<Rightarrow> (sock_item option \<times> 'd csp_state) option" where
  "sock_dequeue wt so timeout s =
     (case sock_rx_queue (sockets s so) of
        None \<Rightarrow> None
      | Some q \<Rightarrow>
          let s = (if csp_queue_size q = 0 then wt timeout s else s)
          in case sock_rx_queue (sockets s so) of
               None \<Rightarrow> None
             | Some q \<Rightarrow> let (r, q) = csp_queue_dequeue q in Some (r, upd_socket so (\<lambda>k. k\<lparr>sock_rx_queue := Some q\<rparr>) s))"

definition csp_accept :: "'d task_fn \<Rightarrow> addr option \<Rightarrow> u32 \<Rightarrow> 'd csp_state \<Rightarrow> (sock_item option \<times> 'd csp_state) option" where
  "csp_accept wt sock timeout s =
     (case sock of
        None \<Rightarrow> Some (None, set_errno CSP_DBG_ERR_INVALID_POINTER s)
      | Some so \<Rightarrow>
          if sock_rx_queue (sockets s so) = None then Some (None, set_errno CSP_DBG_ERR_INVALID_POINTER s)
          else sock_dequeue wt so timeout s)"

text \<open>The timeout of a read on an RDP connection is at least that of the connection, or zero.\<close>

definition read_timeout :: "csp_conn \<Rightarrow> u32 \<Rightarrow> u32" where
  "read_timeout conn timeout =
     (if timeout \<noteq> 0 \<and> id_flags (idin conn) AND CSP_FRDP \<noteq> 0 \<and> timeout < conn_timeout (rdp conn)
      then conn_timeout (rdp conn) else timeout)"

definition conn_dequeue :: "'d task_fn \<Rightarrow> addr \<Rightarrow> u32 \<Rightarrow> 'd csp_state \<Rightarrow> addr option option \<times> 'd csp_state" where
  "conn_dequeue wt c timeout s =
     (let s = (if csp_queue_size (conn_rx_queue (arr_conn s c)) = 0 then wt timeout s else s);
          (r, q) = csp_queue_dequeue (conn_rx_queue (arr_conn s c))
      in (r, upd_conn c (\<lambda>k. k\<lparr>conn_rx_queue := q\<rparr>) s))"

definition csp_read :: "'d nexthop_fn \<Rightarrow> 'd task_fn \<Rightarrow> addr option \<Rightarrow> u32 \<Rightarrow> 'd csp_state \<Rightarrow> addr option \<times> 'd csp_state" where
  "csp_read nh wt conn timeout s =
     (case conn of
        None \<Rightarrow> (None, s)
      | Some c \<Rightarrow>
          if conn_state (arr_conn s c) \<noteq> CONN_OPEN then (None, s)
          else let (r, s) = conn_dequeue wt c (read_timeout (arr_conn s c) timeout) s
               in case r of
                    None \<Rightarrow> (None, s)
                  | Some pk \<Rightarrow>
                      (pk, if id_flags (idin (arr_conn s c)) AND CSP_FRDP \<noteq> 0 \<and> delayed_acks (rdp (arr_conn s c)) \<noteq> 0
                               then snd (csp_rdp_check_ack nh c s) else s))"

definition csp_send :: "'d nexthop_fn \<Rightarrow> 'd task_fn \<Rightarrow> addr option \<Rightarrow> addr option \<Rightarrow> 'd csp_state \<Rightarrow> 'd csp_state option" where
  "csp_send nh wt conn pk s =
     (case pk of
        None \<Rightarrow> Some s
      | Some p \<Rightarrow>
          (case conn of
             None \<Rightarrow> Some (free_pkt p s)
           | Some c \<Rightarrow>
               if conn_state (arr_conn s c) \<noteq> CONN_OPEN then Some (free_pkt p s)
               else (case (if id_flags (idout (arr_conn s c)) AND CSP_FRDP \<noteq> 0 then csp_rdp_send wt c p s else Some (CSP_ERR_NONE, s)) of
                       None \<Rightarrow> None
                     | Some (r, s) \<Rightarrow>
                         Some (if r \<noteq> CSP_ERR_NONE then free_pkt p s
                               else csp_send_direct nh (Id_conn c) (idout (arr_conn s c)) p None s))))"

definition csp_send_prio :: "'d nexthop_fn \<Rightarrow> 'd task_fn \<Rightarrow> u8 \<Rightarrow> addr \<Rightarrow> addr option \<Rightarrow> 'd csp_state \<Rightarrow> 'd csp_state option" where
  "csp_send_prio nh wt prio c pk s =
     csp_send nh wt (Some c) pk (upd_conn c (\<lambda>k. k\<lparr>idout := (idout k)\<lparr>id_pri := prio\<rparr>\<rparr>) s)"

text \<open>The reply of a transaction: the status, and the bytes that were copied to \<^verbatim>\<open>inbuf\<close>.\<close>

definition transaction_reply :: "addr option \<Rightarrow> int \<Rightarrow> 'd csp_state \<Rightarrow> int \<times> u8 list option \<times> 'd csp_state" where
  "transaction_reply pk inlen s =
     (case pk of
        None \<Rightarrow> (0, None, s)
      | Some p \<Rightarrow>
          if inlen \<noteq> -1 \<and> uint (pkt_length (pkt s p)) \<noteq> inlen
          then (0, None, free_pkt p (s\<lparr>core := csp_dbg_inval_reply_update (\<lambda>n. n + 1) (core s)\<rparr>))
          else (uint (pkt_length (pkt s p)), Some (data_bytes (core s) p (unat (pkt_length (pkt s p)))), free_pkt p s))"

text \<open>The request is \<open>outbuf\<close>, absent for a null pointer, of which \<open>outlen\<close> bytes are sent.\<close>

definition csp_transaction_persistent ::
  "'d nexthop_fn \<Rightarrow> 'd task_fn \<Rightarrow> addr option \<Rightarrow> u32 \<Rightarrow> u8 list option \<Rightarrow> int \<Rightarrow> int \<Rightarrow> 'd csp_state \<Rightarrow>
     (int \<times> u8 list option \<times> 'd csp_state) option" where
  "csp_transaction_persistent nh wt conn timeout outbuf outlen inlen s =
     (if outlen > int CSP_BUFFER_SIZE then Some (0, None, s)
      else let (b, s) = in_core csp_buffer_get s
           in case b of
                None \<Rightarrow> Some (0, None, s)
              | Some p \<Rightarrow>
                  let s = (case outbuf of
                             None \<Rightarrow> s
                           | Some bs \<Rightarrow> if outlen > 0 then on_core (write_data p 0 (take (nat outlen) bs)) s else s);
                      s = upd_pkt p (\<lambda>k. k\<lparr>pkt_length := word_of_int outlen\<rparr>) s
                  in case csp_send nh wt conn (Some p) s of
                       None \<Rightarrow> None
                     | Some s \<Rightarrow>
                         if inlen = 0 then Some (1, None, s)
                         else let (pk, s) = csp_read nh wt conn timeout s in Some (transaction_reply pk inlen s))"

text \<open>The identifiers of a new connection; the unset ports of the code are zero.\<close>

definition connect_flags :: "u32 \<Rightarrow> u8" where
  "connect_flags opts =
     (if opts AND CSP_O_RDP \<noteq> 0 then CSP_FRDP else 0) OR (if opts AND CSP_O_HMAC \<noteq> 0 then CSP_FHMAC else 0)
       OR (if opts AND CSP_O_CRC32 \<noteq> 0 then CSP_FCRC32 else 0)"

definition csp_connect ::
  "'d nexthop_fn \<Rightarrow> (u32 \<Rightarrow> u32) \<Rightarrow> 'd task_fn \<Rightarrow> u8 \<Rightarrow> u16 \<Rightarrow> u8 \<Rightarrow> u32 \<Rightarrow> u32 \<Rightarrow> 'd csp_state \<Rightarrow> addr option \<times> 'd csp_state" where
  "csp_connect nh rnd wt prio dest dport timeout opts s =
     (let opts = opts OR conn_dfl_so (csp_conf (core s));
          opts = (if opts AND CSP_O_NOCRC32 \<noteq> 0 then opts AND NOT CSP_O_CRC32 else opts);
          flags = connect_flags opts;
          incoming_id = \<lparr>id_pri = prio, id_flags = flags, id_src = dest, id_dst = 0, id_dport = 0, id_sport = dport\<rparr>;
          outgoing_id = \<lparr>id_pri = prio, id_flags = flags, id_src = 0, id_dst = dest, id_dport = dport, id_sport = 0\<rparr>;
          (conn, s) = csp_conn_new incoming_id outgoing_id CONN_CLIENT s
      in case conn of
           None \<Rightarrow> (None, s)
         | Some c \<Rightarrow>
             let s = upd_conn c (\<lambda>k. k\<lparr>idout := (idout k)\<lparr>id_sport := sport_outgoing k\<rparr>\<rparr>) s;
                 s = upd_conn c (\<lambda>k. k\<lparr>idin := (idin k)\<lparr>id_dport := sport_outgoing k\<rparr>\<rparr>) s;
                 s = upd_conn c (\<lambda>k. k\<lparr>dest_socket := None\<rparr>) s;
                 s = upd_conn c (\<lambda>k. k\<lparr>conn_opts := opts\<rparr>) s
             in if flags AND CSP_FRDP \<noteq> 0
                then let (r, s) = csp_rdp_connect nh rnd wt c s
                     in if r \<noteq> CSP_ERR_NONE then (None, snd (csp_close nh (Some c) s)) else (Some c, s)
                else (Some c, s))"

definition csp_transaction_w_opts ::
  "'d nexthop_fn \<Rightarrow> (u32 \<Rightarrow> u32) \<Rightarrow> 'd task_fn \<Rightarrow> u8 \<Rightarrow> u16 \<Rightarrow> u8 \<Rightarrow> u32 \<Rightarrow> u8 list option \<Rightarrow> int \<Rightarrow> int \<Rightarrow> u32 \<Rightarrow>
     'd csp_state \<Rightarrow> (int \<times> u8 list option \<times> 'd csp_state) option" where
  "csp_transaction_w_opts nh rnd wt prio dest port timeout outbuf outlen inlen opts s =
     (let (conn, s) = csp_connect nh rnd wt prio dest port 0 opts s
      in case conn of
           None \<Rightarrow> Some (0, None, s)
         | Some c \<Rightarrow>
             (case csp_transaction_persistent nh wt (Some c) timeout outbuf outlen inlen s of
                None \<Rightarrow> None
              | Some (status, inbuf, s) \<Rightarrow> Some (status, inbuf, snd (csp_close nh (Some c) s))))"

definition csp_recvfrom :: "'d task_fn \<Rightarrow> addr option \<Rightarrow> u32 \<Rightarrow> 'd csp_state \<Rightarrow> (sock_item option \<times> 'd csp_state) option" where
  "csp_recvfrom wt sock timeout s =
     (case sock of
        None \<Rightarrow> Some (None, s)
      | Some so \<Rightarrow> if sock_opts (sockets s so) AND CSP_SO_CONN_LESS = 0 then Some (None, s) else sock_dequeue wt so timeout s)"

definition csp_sendto :: "'d nexthop_fn \<Rightarrow> u8 \<Rightarrow> u16 \<Rightarrow> u8 \<Rightarrow> u8 \<Rightarrow> u32 \<Rightarrow> addr \<Rightarrow> 'd csp_state \<Rightarrow> 'd csp_state" where
  "csp_sendto nh prio dest dport src_port opts p s =
     (let upd_id = (\<lambda>f. upd_pkt p (\<lambda>k. k\<lparr>pkt_id := f (pkt_id k)\<rparr>));
          s = (if opts AND CSP_O_SAME = 0 then upd_id (\<lambda>i. i\<lparr>id_flags := 0\<rparr>) s else s)
      in if opts AND CSP_O_RDP \<noteq> 0 then free_pkt p (set_errno CSP_DBG_ERR_UNSUPPORTED s)
         else let s = (if opts AND CSP_O_HMAC \<noteq> 0 then upd_id (\<lambda>i. i\<lparr>id_flags := id_flags i OR CSP_FHMAC\<rparr>) s else s);
                  s = (if opts AND CSP_O_CRC32 \<noteq> 0 then upd_id (\<lambda>i. i\<lparr>id_flags := id_flags i OR CSP_FCRC32\<rparr>) s else s);
                  s = upd_id (\<lambda>i. i\<lparr>id_dst := dest, id_dport := dport, id_sport := src_port, id_pri := prio\<rparr>) s
              in csp_send_direct nh (Id_packet p) (pkt_id (pkt s p)) p None s)"

definition csp_sendto_reply :: "'d nexthop_fn \<Rightarrow> addr option \<Rightarrow> addr \<Rightarrow> u32 \<Rightarrow> 'd csp_state \<Rightarrow> 'd csp_state" where
  "csp_sendto_reply nh request reply opts s =
     (case request of
        None \<Rightarrow> s
      | Some rq \<Rightarrow>
          let upd_id = (\<lambda>f. upd_pkt reply (\<lambda>k. k\<lparr>pkt_id := f (pkt_id k)\<rparr>));
              s = (if opts AND CSP_O_SAME \<noteq> 0 then upd_id (\<lambda>i. i\<lparr>id_flags := id_flags (pkt_id (pkt s rq))\<rparr>) s else s);
              dst = id_src (pkt_id (pkt s rq));
              src = (if unat (id_dst (pkt_id (pkt s rq))) \<noteq> csp_id_get_max_nodeid (ver s) then id_dst (pkt_id (pkt s rq)) else 0);
              s = upd_id (\<lambda>i. i\<lparr>id_src := src\<rparr>) s;
              i = pkt_id (pkt s rq)
          in csp_sendto nh (id_pri i) dst (id_sport i) (id_dport i) opts reply s)"

text \<open>The timeouts of the connections, checked by the router.\<close>

definition conn_check_step :: "'d nexthop_fn \<Rightarrow> nat \<Rightarrow> 'd csp_state \<Rightarrow> 'd csp_state" where
  "conn_check_step nh i s =
     (if conn_state (arr_conn s i) = CONN_OPEN \<and> id_flags (idin (arr_conn s i)) AND CSP_FRDP \<noteq> 0
      then csp_rdp_check_timeouts nh i s else s)"

definition csp_conn_check_timeouts :: "'d nexthop_fn \<Rightarrow> 'd csp_state \<Rightarrow> 'd csp_state" where
  "csp_conn_check_timeouts nh s = fold (conn_check_step nh) [0..<CSP_CONN_MAX] s"

section \<open>Ownership\<close>

lemma safe_produce: "safe dh f s \<Longrightarrow> (\<And>g. own dh g s \<Longrightarrow> own dh (otok r g) s') \<Longrightarrow> safe dh (otok r f) s'"
  unfolding safe_def otok_add by blast

lemma own_write_data [simp]: "own dh f (on_core (write_data p off bs) s) = own dh f s"
  unfolding on_core_def by (rule own_core_cong) (simp_all add: write_data_def)

context nexthop_contract
begin

lemma sendto_own:
  assumes "own dh (tok p f) s"
  shows "own dh f (csp_sendto nh prio dest dport sport opts p s)"
  using assms unfolding csp_sendto_def Let_def
  by (auto intro!: own_free send_direct_contract [THEN conjunct1])

lemma sendto_reply_own:
  assumes "own dh (tok p f) s"
  shows "own dh f (csp_sendto_reply nh (Some rq) p opts s)"
  using assms unfolding csp_sendto_reply_def Let_def by (auto intro!: sendto_own)

lemma conn_check_timeouts_own: "own dh f s \<Longrightarrow> own dh f (csp_conn_check_timeouts nh s)"
proof -
  assume own: "own dh f s"
  have "(\<And>i. i \<in> set is \<Longrightarrow> i < CSP_CONN_MAX) \<Longrightarrow> own dh f s \<Longrightarrow> own dh f (fold (conn_check_step nh) is s)" for "is" s
    by (induction "is" arbitrary: s) (auto simp: conn_check_step_def intro: check_timeouts_own)
  from this [of "[0..<CSP_CONN_MAX]", OF _ own] show ?thesis unfolding csp_conn_check_timeouts_def by (metis atLeastLessThan_iff set_upt)
qed

lemma close_safe: "safe dh f s \<Longrightarrow> c < CSP_CONN_MAX \<Longrightarrow> safe dh f (snd (csp_close nh (Some c) s))"
  unfolding csp_close_def by (erule safe_map) (rule conn_close_own)

lemma reply_safe: "safe dh (otok r f) s \<Longrightarrow> safe dh f (snd (snd (transaction_reply r n s)))"
  by (cases r) (auto simp: transaction_reply_def elim!: safe_consume intro!: own_free)

end

text \<open>
  Tasks that run while a task waits may lose buffers, but only with the counts in \<open>L\<close>: with
  \<open>{\<lambda>_. 0}\<close> they lose nothing, with \<open>UNIV\<close> this is \<open>safe\<close>. What an operation adds to the losses
  of the other tasks is its own leak.
\<close>

definition owes :: "('d \<Rightarrow> addr \<Rightarrow> nat) \<Rightarrow> (addr \<Rightarrow> nat) set \<Rightarrow> (addr \<Rightarrow> nat) \<Rightarrow> 'd csp_state \<Rightarrow> bool" where
  "owes dh L f s \<longleftrightarrow> (\<exists>g\<in>L. own dh (\<lambda>x. f x + g x) s)"

lemma owes_UNIV: "owes dh UNIV f s = safe dh f s"
  by (simp add: owes_def safe_def)

lemma owes_map: "owes dh L f s \<Longrightarrow> (\<And>g. own dh g s \<Longrightarrow> own dh g s') \<Longrightarrow> owes dh L f s'"
  unfolding owes_def by blast

lemma owes_consume: "owes dh L (tok p f) s \<Longrightarrow> (\<And>g. own dh (tok p g) s \<Longrightarrow> own dh g s') \<Longrightarrow> owes dh L f s'"
  unfolding owes_def tok_add by blast

lemma owes_produce: "owes dh L f s \<Longrightarrow> (\<And>g. own dh g s \<Longrightarrow> own dh (otok r g) s') \<Longrightarrow> owes dh L (otok r f) s'"
  unfolding owes_def otok_add by blast

locale leak_env = nexthop_contract nh dh for nh :: "'d nexthop_fn" and dh +
  fixes wt :: "'d task_fn" and L :: "(addr \<Rightarrow> nat) set"
  assumes leak_none: "(\<lambda>_. 0) \<in> L" and leak_more: "g \<in> L \<Longrightarrow> h \<in> L \<Longrightarrow> (\<lambda>x. g x + h x) \<in> L"
    and wt_leak: "own dh f s \<Longrightarrow> \<exists>g\<in>L. own dh (\<lambda>x. f x + g x) (wt t s)"
begin

lemma owesI: "own dh f s \<Longrightarrow> owes dh L f s"
  unfolding owes_def by (rule bexI [OF _ leak_none]) simp

lemma wait_owes:
  assumes "owes dh L f s"
  shows "owes dh L f (wt t s)"
proof -
  obtain g where g: "g \<in> L" "own dh (\<lambda>x. f x + g x) s" using assms by (auto simp: owes_def)
  from wt_leak [OF g(2)] obtain h where h: "h \<in> L" "own dh (\<lambda>x. f x + (g x + h x)) (wt t s)" by (auto simp: add.assoc)
  show ?thesis unfolding owes_def by (rule bexI [of _ "\<lambda>x. g x + h x"]) (use h(2) leak_more [OF g(1) h(1)] in simp_all)
qed

lemma conn_dequeue_owes:
  assumes s: "owes dh L f s" and c: "c < CSP_CONN_MAX" and run: "conn_dequeue wt c t s = (r, s')"
  shows "owes dh L (otok (Option.bind r id) f) s'"
proof -
  define s1 where "s1 = (if csp_queue_size (conn_rx_queue (arr_conn s c)) = 0 then wt t s else s)"
  have s1: "owes dh L f s1" using s wait_owes by (simp add: s1_def)
  obtain q where deq: "csp_queue_dequeue (conn_rx_queue (arr_conn s1 c)) = (r, q)" "s' = upd_conn c (\<lambda>k. k\<lparr>conn_rx_queue := q\<rparr>) s1"
    using run unfolding conn_dequeue_def s1_def [symmetric] Let_def by (auto split: prod.splits)
  have "own dh (otok (Option.bind r id) g) s'" if "own dh g s1" for g
    using own_conn_dequeue [OF that c deq(1)] by (cases r) (simp_all add: deq(2))
  then show ?thesis by (rule owes_produce [OF s1])
qed

lemma read_owes:
  assumes s: "owes dh L f s" and c: "c < CSP_CONN_MAX" and run: "csp_read nh wt (Some c) t s = (r, s')"
  shows "owes dh L (otok r f) s'"
proof (cases "conn_state (arr_conn s c) = CONN_OPEN")
  case False
  with run s show ?thesis by (auto simp: csp_read_def)
next
  case True
  obtain x s1 where deq: "conn_dequeue wt c (read_timeout (arr_conn s c) t) s = (x, s1)" by fastforce
  note one = conn_dequeue_owes [OF s c deq]
  have "owes dh L (otok (Option.bind x id) f) (snd (csp_rdp_check_ack nh c s1))"
    using one by (rule owes_map) (rule check_ack_own)
  with one True run deq show ?thesis by (auto simp: csp_read_def split: option.splits if_splits)
qed

end

sublocale task_env \<subseteq> lossy: leak_env nh dh wt UNIV
  using wt_safe by unfold_locales (auto simp: safe_def dest: safeI)

text \<open>While only time passes and the router checks the timeouts nothing is lost.\<close>

sublocale nexthop_contract \<subseteq> timers: leak_env nh dh "\<lambda>t s. csp_conn_check_timeouts nh (clock_tick t s)" "{\<lambda>_. 0}"
  by unfold_locales (auto intro!: conn_check_timeouts_own)

context task_env
begin

lemma read_safe: "safe dh f s \<Longrightarrow> c < CSP_CONN_MAX \<Longrightarrow> csp_read nh wt (Some c) t s = (r, s') \<Longrightarrow> safe dh (otok r f) s'"
  using lossy.read_owes by (simp add: owes_UNIV)

lemma send_safe:
  assumes s: "safe dh (tok p f) s" and run: "csp_send nh wt conn (Some p) s = Some s'"
  shows "safe dh f s'"
proof -
  have free: "safe dh f (free_pkt p t)" if "safe dh (tok p f) t" for t
    using that by (rule safe_consume) (rule own_free)
  have dir: "safe dh f (csp_send_direct nh x y p None t)" if "safe dh (tok p f) t" for t x y
    using that by (rule safe_consume) (use send_direct_contract in blast)
  show ?thesis
    using run s rdp_send_safe [of _ p s] by (fastforce simp: csp_send_def intro: free dir split: option.splits if_splits)
qed

lemma transaction_safe:
  assumes s: "safe dh f s" and c: "c < CSP_CONN_MAX" and run: "csp_transaction_persistent nh wt (Some c) t ob ol il s = Some (r, ib, s')"
  shows "safe dh f s'"
proof (cases "ol > int CSP_BUFFER_SIZE")
  case True
  with run s show ?thesis by (auto simp: csp_transaction_persistent_def)
next
  case False
  obtain b s1 where get: "in_core csp_buffer_get s = (b, s1)" by fastforce
  have one: "safe dh (otok b f) s1" using s by (rule safe_produce) (rule own_get [OF _ get])
  show ?thesis
  proof (cases b)
    case None
    with False run one get show ?thesis by (auto simp: csp_transaction_persistent_def)
  next
    case (Some p)
    define s2 where "s2 = upd_pkt p (\<lambda>k. k\<lparr>pkt_length := word_of_int ol\<rparr>) (case ob of None \<Rightarrow> s1
        | Some bs \<Rightarrow> if ol > 0 then on_core (write_data p 0 (take (nat ol) bs)) s1 else s1)"
    have "safe dh (tok p f) s2" using one Some by (auto simp: s2_def elim!: safe_map split: option.splits)
    note snd_ok = send_safe [OF this]
    obtain s3 where s3: "csp_send nh wt (Some c) (Some p) s2 = Some s3"
      and fin: "(r, ib, s') = (if il = 0 then (1, None, s3) else let (pk, s) = csp_read nh wt (Some c) t s3 in transaction_reply pk il s)"
      using run False get Some unfolding csp_transaction_persistent_def
      by (auto simp: s2_def [symmetric] Let_def split: option.splits if_splits prod.splits)
    obtain pk s4 where rd: "csp_read nh wt (Some c) t s3 = (pk, s4)" by fastforce
    from reply_safe [OF read_safe [OF snd_ok [OF s3] c rd], of il] snd_ok [OF s3] fin rd show ?thesis
      by (auto split: if_splits) (metis snd_conv)
  qed
qed

lemma csp_connect_safe:
  assumes s: "safe dh f s" and run: "csp_connect nh rnd wt prio dest dport t opts s = (r, s')"
  shows "safe dh f s'" "r = Some c \<Longrightarrow> c < CSP_CONN_MAX"
proof -
  define o1 where "o1 = opts OR conn_dfl_so (csp_conf (core s))"
  define o2 where "o2 = (if o1 AND CSP_O_NOCRC32 \<noteq> 0 then o1 AND NOT CSP_O_CRC32 else o1)"
  define idi where "idi = \<lparr>id_pri = prio, id_flags = connect_flags o2, id_src = dest, id_dst = 0, id_dport = 0, id_sport = dport\<rparr>"
  define ido where "ido = \<lparr>id_pri = prio, id_flags = connect_flags o2, id_src = 0, id_dst = dest, id_dport = dport, id_sport = 0\<rparr>"
  obtain cn s1 where new: "csp_conn_new idi ido CONN_CLIENT s = (cn, s1)" by fastforce
  have one: "safe dh f s1" using s by (rule safe_map) (rule conn_new_cases(1) [OF _ new])
  have bound: "c < CSP_CONN_MAX" if "cn = Some c" for c
    using s conn_new_cases(3) [OF _ new that] by (auto simp: safe_def)
  define s2 where "s2 c = upd_conn c (\<lambda>k. k\<lparr>conn_opts := o2\<rparr>) (upd_conn c (\<lambda>k. k\<lparr>dest_socket := None\<rparr>)
      (upd_conn c (\<lambda>k. k\<lparr>idin := (idin k)\<lparr>id_dport := sport_outgoing k\<rparr>\<rparr>)
      (upd_conn c (\<lambda>k. k\<lparr>idout := (idout k)\<lparr>id_sport := sport_outgoing k\<rparr>\<rparr>) s1)))" for c
  have two: "safe dh f (s2 c)" for c using one by (rule safe_map) (simp add: s2_def)
  have con: "safe dh f (snd (csp_rdp_connect nh rnd wt c (s2 c)))" for c by (rule connect_safe [OF two])
  have res: "(r, s') = (case cn of None \<Rightarrow> (None, s1) | Some c \<Rightarrow>
      if connect_flags o2 AND CSP_FRDP \<noteq> 0
      then if fst (csp_rdp_connect nh rnd wt c (s2 c)) \<noteq> CSP_ERR_NONE
           then (None, snd (csp_close nh (Some c) (snd (csp_rdp_connect nh rnd wt c (s2 c)))))
           else (Some c, snd (csp_rdp_connect nh rnd wt c (s2 c)))
      else (Some c, s2 c))"
    using run new unfolding csp_connect_def Let_def o1_def [symmetric] o2_def [symmetric] idi_def [symmetric] ido_def [symmetric]
    unfolding new prod.case s2_def [symmetric] by (cases cn) (auto simp: split_beta split: if_splits)
  then show "safe dh f s'" "r = Some c \<Longrightarrow> c < CSP_CONN_MAX"
    using one two con bound close_safe [OF con] by (auto split: option.splits if_splits)
qed

lemma transaction_w_opts_safe:
  assumes s: "safe dh f s" and run: "csp_transaction_w_opts nh rnd wt prio dest port t ob ol il opts s = Some (r, ib, s')"
  shows "safe dh f s'"
proof -
  obtain cn s1 where con: "csp_connect nh rnd wt prio dest port 0 opts s = (cn, s1)" by fastforce
  note one = csp_connect_safe [OF s con]
  show ?thesis
  proof (cases cn)
    case None
    with run con one(1) show ?thesis by (simp add: csp_transaction_w_opts_def)
  next
    case (Some c)
    with run con obtain x y s2 where t: "csp_transaction_persistent nh wt (Some c) t ob ol il s1 = Some (x, y, s2)"
        "s' = snd (csp_close nh (Some c) s2)"
      by (auto simp: csp_transaction_w_opts_def split: option.splits)
    from close_safe [OF transaction_safe [OF one(1) one(2) [OF Some] t(1)] one(2) [OF Some]] t(2) show ?thesis by simp
  qed
qed

end

end
