(* ===== verification/CSP_Route.thy ===== *)
theory CSP_Route
  imports CSP_Io
begin

text \<open>
  The router, \<^verbatim>\<open>src/src/csp_route.c\<close>: one call of \<open>csp_route_work\<close> takes a packet from the router
  queue and forwards it, or passes it to a callback, a socket, a connection or RDP. The
  functions bound to ports are a parameter \<open>cb\<close>, with the contract \<open>router_env\<close>.
\<close>

section \<open>Operations\<close>

type_synonym 'd callback_fn = "nat \<Rightarrow> addr \<Rightarrow> 'd csp_state \<Rightarrow> 'd csp_state"

abbreviation (input) CSP_DEDUP_OFF :: u8 where "CSP_DEDUP_OFF \<equiv> 0"
abbreviation (input) CSP_DEDUP_FWD :: u8 where "CSP_DEDUP_FWD \<equiv> 1"
abbreviation (input) CSP_DEDUP_INCOMING :: u8 where "CSP_DEDUP_INCOMING \<equiv> 2"
abbreviation (input) CSP_DEDUP_ALL :: u8 where "CSP_DEDUP_ALL \<equiv> 3"

text \<open>With HMAC and RDP compiled in, all options are supported.\<close>

definition csp_route_check_options :: "addr \<Rightarrow> addr \<Rightarrow> 'd csp_state \<Rightarrow> int \<times> 'd csp_state" where
  "csp_route_check_options i p s = (CSP_ERR_NONE, s)"

definition rx_error_inc :: "addr \<Rightarrow> 'd csp_state \<Rightarrow> 'd csp_state" where
  "rx_error_inc i s = upd_iface i (\<lambda>k. k\<lparr>if_rx_error := if_rx_error k + 1\<rparr>) s"

definition autherr_inc :: "addr \<Rightarrow> 'd csp_state \<Rightarrow> 'd csp_state" where
  "autherr_inc i s = upd_iface i (\<lambda>k. k\<lparr>if_autherr := if_autherr k + 1\<rparr>) s"

text \<open>The three checks, in their order.\<close>

definition security_crc32 :: "u32 \<Rightarrow> addr \<Rightarrow> addr \<Rightarrow> 'd csp_state \<Rightarrow> int \<times> 'd csp_state" where
  "security_crc32 security_opts i p s =
     (if id_flags (pkt_id (pkt s p)) AND CSP_FCRC32 \<noteq> 0
      then let (r, s) = in_core (csp_crc32_verify p) s
           in if r \<noteq> CSP_ERR_NONE then (CSP_ERR_CRC32, rx_error_inc i s) else (CSP_ERR_NONE, s)
      else if security_opts AND CSP_SO_CRC32REQ \<noteq> 0 then (CSP_ERR_CRC32, rx_error_inc i s)
      else (CSP_ERR_NONE, s))"

definition security_hmac :: "u32 \<Rightarrow> addr \<Rightarrow> addr \<Rightarrow> 'd csp_state \<Rightarrow> int \<times> 'd csp_state" where
  "security_hmac security_opts i p s =
     (if id_flags (pkt_id (pkt s p)) AND CSP_FHMAC \<noteq> 0
      then let (r, s) = in_core (csp_hmac_verify (hmac_key s) p False) s
           in if r \<noteq> CSP_ERR_NONE then (CSP_ERR_HMAC, autherr_inc i s) else (CSP_ERR_NONE, s)
      else if security_opts AND CSP_SO_HMACREQ \<noteq> 0 then (CSP_ERR_HMAC, autherr_inc i s)
      else (CSP_ERR_NONE, s))"

definition csp_route_security_check :: "u32 \<Rightarrow> addr \<Rightarrow> addr \<Rightarrow> 'd csp_state \<Rightarrow> int \<times> 'd csp_state" where
  "csp_route_security_check security_opts i p s =
     (let (r, s) = security_crc32 security_opts i p s
      in if r \<noteq> CSP_ERR_NONE then (r, s)
         else let (r, s) = security_hmac security_opts i p s
              in if r \<noteq> CSP_ERR_NONE then (r, s)
                 else if id_flags (pkt_id (pkt s p)) AND CSP_FRDP = 0 \<and> security_opts AND CSP_SO_RDPREQ \<noteq> 0
                 then (CSP_ERR_INVAL, rx_error_inc i s)
                 else (CSP_ERR_NONE, s))"

text \<open>A packet for a connection, after the security check.\<close>

definition route_to_conn :: "'d nexthop_fn \<Rightarrow> (u32 \<Rightarrow> u32) \<Rightarrow> addr \<Rightarrow> addr \<Rightarrow> 'd csp_state \<Rightarrow> 'd csp_state option" where
  "route_to_conn nh rnd c p s =
     (if id_flags (pkt_id (pkt s p)) AND CSP_FRDP \<noteq> 0
      then map_option (\<lambda>(close_connection, s). if close_connection then snd (csp_close nh (Some c) s) else s)
             (csp_rdp_new_packet nh rnd c p s)
      else let (r, s) = csp_conn_enqueue_packet (Some c) (Some p) s
           in if r \<noteq> CSP_ERR_NONE then Some (free_pkt p (conn_ovf s))
              else case dest_socket (arr_conn s c) of
                     None \<Rightarrow> Some s
                   | Some so \<Rightarrow>
                       map_option (\<lambda>(r, s). if r \<noteq> CSP_QUEUE_OK then snd (csp_close nh (Some c) (conn_ovf s))
                                            else upd_conn c (\<lambda>k. k\<lparr>dest_socket := None\<rparr>) s)
                         (sock_enqueue so (Sock_conn c) s))"

text \<open>The identifier of the connection that answers a packet.\<close>

definition reply_id :: "csp_id \<Rightarrow> csp_id" where
  "reply_id i = \<lparr>id_pri = id_pri i, id_flags = id_flags i, id_src = id_dst i, id_dst = id_src i, id_dport = id_sport i, id_sport = id_dport i\<rparr>"

text \<open>A packet that may open a connection on a socket; no connection if it was dropped.\<close>

definition route_accept :: "addr option \<Rightarrow> addr \<Rightarrow> addr \<Rightarrow> 'd csp_state \<Rightarrow> addr option \<times> 'd csp_state" where
  "route_accept sock i p s =
     (case sock of
        None \<Rightarrow> (None, free_pkt p s)
      | Some so \<Rightarrow>
          let (r, s) = csp_route_security_check (sock_opts (sockets s so)) i p s
          in if r \<noteq> CSP_ERR_NONE then (None, free_pkt p s)
             else let pid = pkt_id (pkt s p);
                      (conn, s) = csp_conn_new pid (reply_id pid) CONN_SERVER s
                  in case conn of
                       None \<Rightarrow> (None, free_pkt p (s\<lparr>core := csp_dbg_conn_out_update (\<lambda>n. n + 1) (core s)\<rparr>))
                     | Some c \<Rightarrow>
                         (Some c, upd_conn c (\<lambda>k. k\<lparr>conn_opts := sock_opts (sockets s so)\<rparr>)
                                    (upd_conn c (\<lambda>k. k\<lparr>dest_socket := Some so\<rparr>) s)))"

text \<open>A packet for this node.\<close>

definition route_local :: "'d nexthop_fn \<Rightarrow> (u32 \<Rightarrow> u32) \<Rightarrow> 'd callback_fn \<Rightarrow> addr \<Rightarrow> addr \<Rightarrow> 'd csp_state \<Rightarrow> 'd csp_state option" where
  "route_local nh rnd cb i p s =
     (let pid = pkt_id (pkt s p);
          sock = csp_port_get_socket (ucast (id_dport pid)) s
      in case csp_port_get_callback (ucast (id_dport pid)) s of
           Some n \<Rightarrow>
             let (r, s) = csp_route_security_check CSP_SO_CRC32REQ i p s
             in if r \<noteq> CSP_ERR_NONE then Some (free_pkt p s) else Some (cb n p s)
         | None \<Rightarrow>
             if sock \<noteq> None \<and> sock_opts (sockets s (the sock)) AND CSP_SO_CONN_LESS \<noteq> 0
             then let so = the sock;
                      (r, s) = csp_route_security_check (sock_opts (sockets s so)) i p s
                  in if r \<noteq> CSP_ERR_NONE then Some (free_pkt p s)
                     else map_option (\<lambda>(r, s). if r \<noteq> CSP_QUEUE_OK then free_pkt p (conn_ovf s) else s)
                            (sock_enqueue so (Sock_packet p) s)
             else case csp_conn_find_existing pid s of
                    None \<Rightarrow>
                      (case route_accept sock i p s of
                         (None, s) \<Rightarrow> Some s
                       | (Some c, s) \<Rightarrow> route_to_conn nh rnd c p s)
                  | Some c \<Rightarrow>
                      let (r, s) = csp_route_security_check (conn_opts (arr_conn s c)) i p s
                      in if r \<noteq> CSP_ERR_NONE then Some (free_pkt p s) else route_to_conn nh rnd c p s)"

definition is_to_me :: "csp_id \<Rightarrow> addr \<Rightarrow> 'd csp_state \<Rightarrow> bool" where
  "is_to_me pid i s \<longleftrightarrow>
     csp_iflist_get_by_addr (id_dst pid) (iflist s) \<noteq> None \<or> csp_id_is_broadcast (ver s) (id_dst pid) (ifaces (iflist s) i)"

definition dedup_wanted :: "u8 \<Rightarrow> bool \<Rightarrow> bool" where
  "dedup_wanted mode to_me \<longleftrightarrow> mode = CSP_DEDUP_ALL \<or> to_me \<and> mode = CSP_DEDUP_INCOMING \<or> \<not> to_me \<and> mode = CSP_DEDUP_FWD"

definition dedup_check :: "addr \<Rightarrow> 'd csp_state \<Rightarrow> bool \<times> 'd csp_state" where
  "dedup_check p s = (let (dup, k, d) = csp_dedup_is_duplicate p (core s) (dedups s) in (dup, s\<lparr>core := k, dedups := d\<rparr>))"

text \<open>The packet \<open>p\<close> that came in on interface \<open>i\<close>.\<close>

definition route_packet :: "'d nexthop_fn \<Rightarrow> (u32 \<Rightarrow> u32) \<Rightarrow> 'd callback_fn \<Rightarrow> addr \<Rightarrow> addr \<Rightarrow> 'd csp_state \<Rightarrow> 'd csp_state option" where
  "route_packet nh rnd cb i p s =
     (let s = upd_iface i (\<lambda>k. k\<lparr>if_rx := if_rx k + 1, if_rxbytes := if_rxbytes k + ucast (pkt_length (pkt s p))\<rparr>) s;
          to_me = is_to_me (pkt_id (pkt s p)) i s;
          (dup, s) = (if dedup_wanted (dedup (csp_conf (core s))) to_me then dedup_check p s else (False, s))
      in if dup then Some (free_pkt p (upd_iface i (\<lambda>k. k\<lparr>if_drop := if_drop k + 1\<rparr>) s))
         else let s = csp_promisc_add p s
              in if \<not> to_me then Some (csp_send_direct nh (Id_packet p) (pkt_id (pkt s p)) p (Some i) s)
                 else let (r, s) = csp_route_check_options i p s
                      in if r \<noteq> CSP_ERR_NONE then Some (free_pkt p s) else route_local nh rnd cb i p s)"

definition csp_route_work :: "'d nexthop_fn \<Rightarrow> (u32 \<Rightarrow> u32) \<Rightarrow> 'd callback_fn \<Rightarrow> 'd csp_state \<Rightarrow> (int \<times> 'd csp_state) option" where
  "csp_route_work nh rnd cb s =
     (let s = csp_conn_check_timeouts nh s;
          (r, input, s) = csp_qfifo_read s
      in case input of
           None \<Rightarrow> Some (CSP_ERR_TIMEDOUT, s)
         | Some x \<Rightarrow>
             (case qf_packet x of
                None \<Rightarrow> Some (CSP_ERR_TIMEDOUT, s)
              | Some p \<Rightarrow>
                  (case qf_iface x of
                     None \<Rightarrow> None
                   | Some i \<Rightarrow> map_option (Pair CSP_ERR_NONE) (route_packet nh rnd cb i p s))))"

section \<open>What the steps before delivery change\<close>

text \<open>
  The part of the state that decides where a packet is delivered: ports, sockets and the
  sockets of the connections.
\<close>

definition dest_frame :: "'d csp_state \<Rightarrow> 'd csp_state \<Rightarrow> bool" where
  "dest_frame s s' \<longleftrightarrow> ports s' = ports s \<and> sockets s' = sockets s \<and> (\<forall>c. dest_socket (arr_conn s' c) = dest_socket (arr_conn s c))"

lemma dest_frame_refl [simp]: "dest_frame s s"
  by (simp add: dest_frame_def)

lemma dest_frame_trans: "dest_frame a b \<Longrightarrow> dest_frame b c \<Longrightarrow> dest_frame a c"
  by (simp add: dest_frame_def)

lemma dest_frame_eq: "ports s' = ports s \<Longrightarrow> sockets s' = sockets s \<Longrightarrow> arr_conn s' = arr_conn s \<Longrightarrow> dest_frame s s'"
  by (simp add: dest_frame_def)

lemma dest_frame_upd_rdp [simp]: "dest_frame s (upd_rdp c g t) = dest_frame s t" "dest_frame s (rdp_post c t) = dest_frame s t"
proof -
  have "dest_socket (arr_conn (upd_rdp c h t) j) = dest_socket (arr_conn t j)" for h j by (simp add: upd_rdp_def upd_conn_def)
  then show "dest_frame s (upd_rdp c g t) = dest_frame s t" "dest_frame s (rdp_post c t) = dest_frame s t"
    by (simp_all add: dest_frame_def rdp_post_def) (simp_all add: upd_rdp_def upd_conn_def)
qed

lemma dest_frame_upds [simp]:
  "dest_frame s (on_core g t) = dest_frame s t" "dest_frame s (upd_iface i h t) = dest_frame s t"
  "dest_frame s (free_pkt p t) = dest_frame s t" "dest_frame s (rx_error_inc i t) = dest_frame s t"
  "dest_frame s (autherr_inc i t) = dest_frame s t" "dest_frame s (t\<lparr>core := k\<rparr>) = dest_frame s t"
  "dest_frame s (t\<lparr>core := k, dedups := d\<rparr>) = dest_frame s t"
  "dest_frame s (snd (in_core m t)) = dest_frame s t" "dest_frame s (t\<lparr>qfifo_queue := q\<rparr>) = dest_frame s t"
  by (simp_all add: dest_frame_def on_core_def upd_iface_def rx_error_inc_def autherr_inc_def in_core_def free_pkt_def)

lemma dest_frame_rx: "rx_frame c s s' \<Longrightarrow> dest_frame s s'"
  by (simp add: dest_frame_def rx_frameD)

lemma dest_frame_tx: "tx_frame s s' \<Longrightarrow> dest_frame s s'"
  by (intro dest_frame_eq) (simp_all add: tx_frameD)

lemma dest_frame_ptr: "ptr_frame ptr s s' \<Longrightarrow> dest_frame s s'"
proof -
  assume fr: "ptr_frame ptr s s'"
  then have "tx_frame (s\<lparr>arr_conn := arr_conn s'\<rparr>) s'" by (simp add: ptr_frame_def)
  from dest_frame_tx [OF this] have "ports s' = ports s" "sockets s' = sockets s" by (simp_all add: dest_frame_def)
  moreover have "dest_socket (arr_conn s' c) = dest_socket (arr_conn s c)" for c
    proof -
    have "arr_conn s' c = arr_conn s c \<or> (\<exists>x. arr_conn s' c = (arr_conn s c)\<lparr>idout := x\<rparr>)" using fr unfolding ptr_frame_def by metis
    then show ?thesis by auto
  qed
  ultimately show ?thesis by (simp add: dest_frame_def)
qed

lemma security_check_effect:
  assumes run: "csp_route_security_check opts i p s = (r, s')"
  shows "own dh f s' = own dh f s" "dest_frame s s'"
proof -
  have crc: "own dh f (snd (security_crc32 opts i p t)) = own dh f t \<and> dest_frame t (snd (security_crc32 opts i p t))" for t
  proof -
    have "own dh f (snd (in_core (csp_crc32_verify p) t)) = own dh f t"
      unfolding in_core_def snd_conv by (rule own_core_cong) (simp_all add: csp_crc32_verify_def Let_def)
    then show ?thesis
      by (simp add: security_crc32_def split_beta rx_error_inc_def)
  qed
  have hmac: "own dh f (snd (security_hmac opts i p t)) = own dh f t \<and> dest_frame t (snd (security_hmac opts i p t))" for t
  proof -
    have "own dh f (snd (in_core (csp_hmac_verify k p False) t)) = own dh f t" for k
      unfolding in_core_def snd_conv by (rule own_core_cong) (simp_all add: csp_hmac_verify_def Let_def)
    then show ?thesis
      by (simp add: security_hmac_def split_beta autherr_inc_def)
  qed
  let ?s1 = "snd (security_crc32 opts i p s)" and ?s2 = "snd (security_hmac opts i p (snd (security_crc32 opts i p s)))"
  have "s' \<in> {?s1, ?s2, rx_error_inc i ?s2}"
    using run by (auto simp: csp_route_security_check_def split_beta split: if_splits)
  then show "own dh f s' = own dh f s" "dest_frame s s'"
    using crc [of s] hmac [of ?s1] dest_frame_trans [of s ?s1 ?s2] by (auto simp: rx_error_inc_def)
qed

lemma dedup_check_effect:
  assumes "dedup_check p s = (d, s')"
  shows "own dh f s' = own dh f s" "dest_frame s s'"
proof -
  obtain b k e where dd: "csp_dedup_is_duplicate p (core s) (dedups s) = (b, k, e)" by (metis prod_cases3)
  then have k: "k = csp_id_prepend p (core s)" by (auto simp: csp_dedup_is_duplicate_def Let_def split: if_splits)
  have s': "s' = (s\<lparr>core := k\<rparr>)\<lparr>dedups := e\<rparr>" using assms dd by (auto simp: dedup_check_def)
  show "own dh f s' = own dh f s" unfolding s' k by simp
  show "dest_frame s s'" unfolding s' by (simp add: dest_frame_def)
qed

context nexthop_contract
begin

lemma close_dest: "own dh f s \<Longrightarrow> c < CSP_CONN_MAX \<Longrightarrow> dest_frame s (snd (csp_conn_close nh (Some c) by s))"
proof -
  assume own: "own dh f s" and c: "c < CSP_CONN_MAX"
  have cf: "dest_frame s t" if "close_frame c s t" for t
  proof -
    have "dest_socket (arr_conn t j) = dest_socket (arr_conn s j)" for j using that by (cases "j = c") (simp_all add: close_frame_def)
    with that show ?thesis by (simp add: dest_frame_def close_frame_def)
  qed
  show ?thesis
  proof (cases "conn_state (arr_conn s c)")
    case CONN_CLOSED
    then show ?thesis by (simp add: csp_conn_close_def set_errno_def)
  next
    case CONN_OPEN
    show ?thesis
    proof (cases rule: conn_close_cases [OF own c CONN_OPEN, of "by"])
      case (1 s1)
      with cf show ?thesis by simp
    next
      case (2 s1)
      from finish_close(3,4,6) [OF 2(2) c] have "dest_frame s1 (conn_finish_close c s1)" by (auto simp: dest_frame_def)
      with 2 dest_frame_trans [OF cf [OF 2(3)]] show ?thesis by simp
    qed
  qed
qed

lemma retransmit_dest:
  assumes own: "own dh (tok p f) s"
  shows "dest_frame s (rdp_retransmit nh c p s)"
proof -
  obtain b s1 where get: "in_core csp_buffer_get s = (b, s1)" by fastforce
  note own1 = own_get [OF own get]
  have d1: "dest_frame s s1" using dest_frame_upds(8) [of s csp_buffer_get s] get by simp
  show ?thesis
  proof (cases b)
    case None
    with get d1 show ?thesis by (simp add: rdp_retransmit_def)
  next
    case (Some q)
    define s2 where "s2 = upd_pkt p (set_hdr 3 (be_bytes 2 (rcv_cur (rdp (arr_conn s1 c))))) s1"
    define s3 where "s3 = upd_rdp c (\<lambda>r. r\<lparr>ack_timestamp := csp_ms (core s2)\<rparr>) s2"
    define s4 where "s4 = on_core (csp_buffer_copy (Some p) (Some q)) (upd_pkt p (\<lambda>k. k\<lparr>timestamp_tx := csp_ms (core s3)\<rparr>) s3)"
    have own4: "own dh (tok q (tok p f)) s4" using own1 Some by (simp add: s2_def s3_def s4_def)
    have d4: "dest_frame s s4" using d1
      by (simp add: s2_def s3_def s4_def upd_pkt_def)
    have run: "rdp_retransmit nh c p s = csp_send_direct nh (Id_conn c) (idout (arr_conn s4 c)) q None s4"
      using get Some by (simp add: rdp_retransmit_def Let_def s2_def s3_def s4_def)
    from send_direct_contract [OF own4, of "Id_conn c" "idout (arr_conn s4 c)" None] have
      "dest_frame s4 (rdp_retransmit nh c p s)" unfolding run by (blast intro: dest_frame_ptr)
    with d4 show ?thesis by (rule dest_frame_trans)
  qed
qed

lemma tx_loop_dest: "own dh f s \<Longrightarrow> dest_frame s (rdp_tx_loop n nh c t s)"
proof (induction n arbitrary: s)
  case (Suc n)
  obtain r s1 where get: "csp_rdp_queue_tx_get c s = (r, s1)" by fastforce
  note own1 = rdp_tx_get(1) [OF Suc.prems get]
  have d1: "dest_frame s s1" using get by (intro dest_frame_eq) (auto simp: csp_rdp_queue_tx_get_def split_beta)
  show ?case
  proof (cases r)
    case None
    with get d1 show ?thesis by simp
  next
    case (Some p)
    then have own2: "own dh (tok p f) s1" using own1 by simp
    let ?s2 = "rdp_retransmit nh c p s1"
    have add: "dest_frame s (csp_rdp_queue_tx_add c p t) = dest_frame s t" for t
      by (simp add: csp_rdp_queue_tx_add_def split_beta dest_frame_def)
    have d2: "dest_frame s ?s2" using d1 retransmit_dest [OF own2] by (rule dest_frame_trans)
    note re = rdp_tx_add(1) [OF own2, of c] rdp_tx_add(1) [OF retransmit_own [OF own2, of c], of c]
    have "dest_frame s t \<Longrightarrow> dest_frame t u \<Longrightarrow> dest_frame s u" for t u by (rule dest_frame_trans)
    then show ?thesis
      using get Some Suc.IH [OF own_free [OF own2]] Suc.IH [OF re(1)] Suc.IH [OF re(2)] d1 d2 add
      by (auto simp: Let_def) (metis add dest_frame_upds(3))+
  qed
qed simp

lemma check_timeouts_dest:
  assumes own: "own dh f s" and c: "c < CSP_CONN_MAX"
  shows "dest_frame s (csp_rdp_check_timeouts nh c s)"
proof -
  define s1 where "s1 = rdp_tx_loop (csp_rdp_queue_tx_size s) nh c (csp_ms (core s)) s"
  have one: "own dh f s1" "dest_frame s s1" unfolding s1_def by (rule tx_loop_own [OF own], rule tx_loop_dest [OF own])
  define s2 where "s2 = (if delayed_acks (rdp (arr_conn s1 c)) \<noteq> 0 then snd (csp_rdp_check_ack nh c s1) else s1)"
  have two: "own dh f s2" "dest_frame s s2"
    using one check_ack_own(1) [OF one(1)] dest_frame_trans [OF one(2) dest_frame_rx [OF cmp_rx_frame [OF check_ack_own(2) [OF one(1), of c]]]]
    by (auto simp: s2_def)
  define s3 where "s3 = (if rdp_state (rdp (arr_conn s1 c)) = RDP_OPEN then (if csp_rdp_is_conn_ready_for_tx c s2 then rdp_post c s2 else s2) else s1)"
  have three: "own dh f s3" "dest_frame s s3" using one two by (simp_all add: s3_def)
  have "csp_rdp_check_timeouts nh c s \<in> {snd (csp_conn_close nh (Some c)
          (CSP_RDP_CLOSED_BY_USERSPACE OR CSP_RDP_CLOSED_BY_PROTOCOL OR CSP_RDP_CLOSED_BY_TIMEOUT) s),
        snd (csp_conn_close nh (Some c) (CSP_RDP_CLOSED_BY_PROTOCOL OR CSP_RDP_CLOSED_BY_TIMEOUT) s),
        csp_rdp_rx_queue_flush c s3}"
    by (simp add: csp_rdp_check_timeouts_def Let_def s1_def [symmetric] s2_def s3_def)
  then show ?thesis
    using close_dest [OF own c] dest_frame_trans [OF three(2) dest_frame_rx [OF conjunct2 [OF rx_queue_flush_own [OF three(1) c]]]] by auto
qed

lemma conn_check_timeouts_dest: "own dh f s \<Longrightarrow> dest_frame s (csp_conn_check_timeouts nh s)"
proof -
  assume own: "own dh f s"
  have "(\<And>i. i \<in> set is \<Longrightarrow> i < CSP_CONN_MAX) \<Longrightarrow> own dh f s \<Longrightarrow> dest_frame s (fold (conn_check_step nh) is s)" for "is" s
  proof (induction "is" arbitrary: s)
    case (Cons i "is")
    then have "own dh f (conn_check_step nh i s)" "dest_frame s (conn_check_step nh i s)"
      by (simp_all add: conn_check_step_def check_timeouts_own check_timeouts_dest)
    with Cons show ?case by (auto intro: dest_frame_trans)
  qed simp
  from this [of "[0..<CSP_CONN_MAX]", OF _ own] show ?thesis unfolding csp_conn_check_timeouts_def by (metis atLeastLessThan_iff set_upt)
qed

end

section \<open>Delivery\<close>

text \<open>Every socket that a port or a connection refers to has its queue: it was passed to \<open>csp_listen\<close>.\<close>

definition sock_ready :: "'d csp_state \<Rightarrow> bool" where
  "sock_ready s \<longleftrightarrow> (\<forall>i so. port_socket (ports s i) = Some so \<longrightarrow> sock_rx_queue (sockets s so) \<noteq> None)
     \<and> (\<forall>c so. dest_socket (arr_conn s c) = Some so \<longrightarrow> sock_rx_queue (sockets s so) \<noteq> None)"

text \<open>Every packet in the router queue has its interface: \<open>csp_qfifo_write\<close> refuses one without.\<close>

definition qfifo_ifaces :: "'d csp_state \<Rightarrow> bool" where
  "qfifo_ifaces s \<longleftrightarrow> (\<forall>x \<in> set (queue_list (qfifo_queue s)). qf_packet x \<noteq> None \<longrightarrow> qf_iface x \<noteq> None)"

lemma sock_ready_dest: "dest_frame s s' \<Longrightarrow> sock_ready s \<Longrightarrow> sock_ready s'"
  by (simp add: dest_frame_def sock_ready_def)

lemma sock_ready_port: "sock_ready s \<Longrightarrow> csp_port_get_socket q s = Some so \<Longrightarrow> sock_rx_queue (sockets s so) \<noteq> None"
  by (auto simp: sock_ready_def csp_port_get_socket_def split: if_splits)

lemma sock_enqueue_cases:
  assumes own: "own dh (otok (sock_pkt x) f) s" and q: "sock_rx_queue (sockets s so) \<noteq> None"
  obtains r s' where "sock_enqueue so x s = Some (r, s')" "own dh (if r = CSP_QUEUE_OK then f else otok (sock_pkt x) f) s'" "arr_conn s' = arr_conn s"
proof -
  obtain q1 where q1: "sock_rx_queue (sockets s so) = Some q1" using q by blast
  obtain r q2 where enq: "csp_queue_enqueue q1 x = (r, q2)" by fastforce
  from own_sock_enqueue [OF own q1 enq] enq q1 show thesis
    by (intro that [of r "upd_socket so (\<lambda>k. k\<lparr>sock_rx_queue := Some q2\<rparr>) s"]) (simp_all add: sock_enqueue_def upd_socket_def)
qed

text \<open>The packet the router takes from its queue.\<close>

definition route_input :: "'d nexthop_fn \<Rightarrow> 'd csp_state \<Rightarrow> addr option" where
  "route_input nh s = Option.bind (fst (snd (csp_qfifo_read (csp_conn_check_timeouts nh s)))) qf_packet"

text \<open>
  A delivery of the packet \<open>p\<close> that keeps the accounting and, if \<open>rd\<close>, is not undefined. What
  it may leak (the answer to a SYN) is not the packet and not a buffer of the caller.
\<close>

definition delivery :: "('d \<Rightarrow> addr \<Rightarrow> nat) \<Rightarrow> addr \<Rightarrow> (addr \<Rightarrow> nat) \<Rightarrow> bool \<Rightarrow> 'd csp_state option \<Rightarrow> bool" where
  "delivery dh p f rd x \<longleftrightarrow> pred_option (own_leak dh {x. x \<noteq> p \<and> f x = 0} f) x \<and> (rd \<longrightarrow> x \<noteq> None)"

lemma delivery_simps [simp]: "delivery dh p f rd (Some s) = own_leak dh {x. x \<noteq> p \<and> f x = 0} f s" "delivery dh p f rd None = (\<not> rd)"
  by (simp_all add: delivery_def)

lemma unused_apart: "own dh (tok p f) s \<Longrightarrow> unused s \<subseteq> {x. x \<noteq> p \<and> f x = 0}"
  by (auto simp: unused_def own_def tok_apply split: if_splits)

text \<open>The contract of the functions bound to ports: they take over the packet.\<close>

locale router_env = nexthop_contract nh dh for nh :: "'d nexthop_fn" and dh +
  fixes cb :: "'d callback_fn"
  assumes cb_own: "own dh (tok p f) s \<Longrightarrow> own dh f (cb n p s)"
begin

lemma to_conn_delivery:
  assumes own: "own dh (tok p f) s" and c: "c < CSP_CONN_MAX"
  shows "delivery dh p f (\<forall>so. dest_socket (arr_conn s c) = Some so \<longrightarrow> sock_rx_queue (sockets s so) \<noteq> None) (route_to_conn nh rnd c p s)"
    (is "delivery dh p f ?rd _")
proof (cases "id_flags (pkt_id (pkt s p)) AND CSP_FRDP \<noteq> 0")
  case True
  show ?thesis
  proof (cases "csp_rdp_new_packet nh rnd c p s")
    case None
    then have "\<not> ?rd" using new_packet_defined [of s c nh rnd p] by (metis option.distinct(1))
    with None True show ?thesis by (simp add: route_to_conn_def)
  next
    case (Some x)
    obtain b s1 where x: "x = (b, s1)" by fastforce
    let ?X = "{x. x \<noteq> p \<and> f x = 0}"
    have one: "own_leak dh ?X f s1"
      by (rule own_leak_mono [OF new_packet_own [OF own c Some [unfolded x] refl]]) (use unused_apart [OF own] in auto)
    have "own_leak dh ?X f (snd (csp_close nh (Some c) s1))" using one unfolding csp_close_def by (rule own_leak_map) (rule conn_close_own [OF _ c])
    with one Some x True show ?thesis by (simp add: route_to_conn_def)
  qed
next
  case False
  obtain e s1 where enq: "csp_conn_enqueue_packet (Some c) (Some p) s = (e, s1)" by fastforce
  have one: "own dh (if e = CSP_ERR_NONE then f else tok p f) s1"
    using own_conn_enqueue_packet [OF _ c enq, of dh f] own by (auto split: if_splits)
  have d1: "dest_socket (arr_conn s1 c) = dest_socket (arr_conn s c)" "sockets s1 = sockets s"
    using enq by (auto simp: csp_conn_enqueue_packet_def Let_def upd_conn_def conn_ovf_def on_core_def split: prod.splits if_splits)
  have drop: "own dh f (free_pkt p (conn_ovf s1))" if "e \<noteq> CSP_ERR_NONE" using one that by (intro own_free) simp
  have acc: "delivery dh p f ?rd (map_option (\<lambda>(r, s). if r \<noteq> CSP_QUEUE_OK then snd (csp_close nh (Some c) (conn_ovf s))
       else upd_conn c (\<lambda>k. k\<lparr>dest_socket := None\<rparr>) s) (sock_enqueue so (Sock_conn c) s1))"
    if so: "dest_socket (arr_conn s1 c) = Some so" "e = CSP_ERR_NONE" for so
  proof (cases "sock_enqueue so (Sock_conn c) s1")
    case None
    then have "sock_rx_queue (sockets s1 so) = None" by (auto simp: sock_enqueue_def split: option.splits prod.splits)
    then have "\<not> ?rd" using d1 so(1) by (metis option.inject)
    with None show ?thesis by simp
  next
    case (Some x)
    obtain r s2 where x: "x = (r, s2)" by fastforce
    have two: "own dh f s2" using one so(2) own_sock_enqueue_conn [OF _ Some [unfolded x]] by simp
    have "own dh f (snd (csp_close nh (Some c) (conn_ovf s2)))" unfolding csp_close_def by (rule conn_close_own [OF _ c]) (simp add: two)
    then show ?thesis using two Some x by (auto intro: own_leakI)
  qed
  show ?thesis
    using False enq one drop acc by (auto simp: route_to_conn_def intro: own_leakI split: option.splits)
qed

lemma accept_cases:
  assumes own: "own dh (tok p f) s"
  obtains (dropped) s' where "route_accept sock i p s = (None, s')" "own dh f s'"
  | (opened) c s' where "route_accept sock i p s = (Some c, s')" "c < CSP_CONN_MAX" "own dh (tok p f) s'"
      "dest_socket (arr_conn s' c) = sock" "sockets s' = sockets s"
proof (cases sock)
  case None
  with own_free [OF own] show thesis by (intro dropped [of "free_pkt p s"]) (simp_all add: route_accept_def)
next
  case (Some so)
  obtain e s1 where sec: "csp_route_security_check (sock_opts (sockets s so)) i p s = (e, s1)" by fastforce
  note one = security_check_effect [OF sec]
  have own1: "own dh (tok p f) s1" using one(1) own by simp
  obtain r s2 where new: "csp_conn_new (pkt_id (pkt s1 p)) (reply_id (pkt_id (pkt s1 p))) CONN_SERVER s1 = (r, s2)" by fastforce
  note two = conn_new_cases [OF own1 new]
  let ?drop = "free_pkt p (s2\<lparr>core := csp_dbg_conn_out_update (\<lambda>n. n + 1) (core s2)\<rparr>)"
  show thesis
  proof (cases "e = CSP_ERR_NONE")
    case False
    with Some sec own_free [OF own1] show thesis by (intro dropped [of "free_pkt p s1"]) (simp_all add: route_accept_def)
  next
    case e: True
    show thesis
    proof (cases r)
      case None
      have "own dh f ?drop" using two(1) by (simp add: own_free)
      with None Some sec new e show thesis by (intro dropped [of ?drop]) (simp_all add: route_accept_def Let_def)
    next
      case r: (Some c)
      let ?s3 = "upd_conn c (\<lambda>k. k\<lparr>conn_opts := sock_opts (sockets s2 so)\<rparr>) (upd_conn c (\<lambda>k. k\<lparr>dest_socket := Some so\<rparr>) s2)"
      have "sockets s2 = sockets s" "c < CSP_CONN_MAX" using two(3) [OF r] one(2) by (simp_all add: dest_frame_def)
      moreover have "own dh (tok p f) ?s3" using two(1) by simp
      moreover have "dest_socket (arr_conn ?s3 c) = Some so" "sockets ?s3 = sockets s2" by (simp_all add: upd_conn_def)
      ultimately show thesis
        using r Some sec new e by (intro opened [of c ?s3]) (simp_all add: route_accept_def Let_def)
    qed
  qed
qed

lemma secured:
  assumes "own dh (tok p f) s" "csp_route_security_check opts i p s = (r, t)"
  shows "own dh (tok p f) t" "dest_frame s t" "own dh f (free_pkt p t)"
  using security_check_effect [OF assms(2)] assms(1) by (auto intro: own_free)

lemma connless_delivery:
  assumes own: "own dh (tok p f) s"
  shows "delivery dh p f (sock_rx_queue (sockets s so) \<noteq> None) (let (r, s) = csp_route_security_check opts i p s
       in if r \<noteq> CSP_ERR_NONE then Some (free_pkt p s)
          else map_option (\<lambda>(r, s). if r \<noteq> CSP_QUEUE_OK then free_pkt p (conn_ovf s) else s) (sock_enqueue so (Sock_packet p) s))"
proof -
  obtain r t where t: "csp_route_security_check opts i p s = (r, t)" by fastforce
  note sec = secured [OF own t]
  show ?thesis
  proof (cases "sock_rx_queue (sockets t so)")
    case None
    then show ?thesis using sec t by (auto simp: dest_frame_def sock_enqueue_def intro: own_leakI)
  next
    case (Some q)
    have "own dh (otok (sock_pkt (Sock_packet p)) f) t" "sock_rx_queue (sockets t so) \<noteq> None" using sec(1) Some by auto
    then obtain e u where u: "sock_enqueue so (Sock_packet p) t = Some (e, u)" "own dh (if e = CSP_QUEUE_OK then f else tok p f) u"
      using sock_enqueue_cases by (metis otok_simps(2) sock_pkt.simps(1))
    have "own dh f (if e \<noteq> CSP_QUEUE_OK then free_pkt p (conn_ovf u) else u)" using u(2) by (auto intro!: own_free)
    with u(1) t sec(3) show ?thesis by (auto intro: own_leakI)
  qed
qed

lemma existing_delivery:
  assumes own: "own dh (tok p f) s" and c: "c < CSP_CONN_MAX"
  shows "delivery dh p f (sock_ready s) (let (r, s) = csp_route_security_check opts i p s
       in if r \<noteq> CSP_ERR_NONE then Some (free_pkt p s) else route_to_conn nh rnd c p s)"
proof -
  obtain r t where t: "csp_route_security_check opts i p s = (r, t)" by fastforce
  note sec = secured [OF own t]
  have "sock_ready s \<longrightarrow> (\<forall>so. dest_socket (arr_conn t c) = Some so \<longrightarrow> sock_rx_queue (sockets t so) \<noteq> None)"
    using sock_ready_dest [OF sec(2)] unfolding sock_ready_def by blast
  with to_conn_delivery [OF sec(1) c, of rnd] t sec(3) show ?thesis by (auto simp: delivery_def intro: own_leakI)
qed

lemma new_delivery:
  assumes own: "own dh (tok p f) s"
  shows "delivery dh p f (\<forall>so. sock = Some so \<longrightarrow> sock_rx_queue (sockets s so) \<noteq> None)
    (case route_accept sock i p s of (None, s) \<Rightarrow> Some s | (Some c, s) \<Rightarrow> route_to_conn nh rnd c p s)"
proof (cases rule: accept_cases [OF own, of sock i])
  case (1 s')
  then show ?thesis by (simp add: own_leakI)
next
  case (2 c s')
  from to_conn_delivery [OF 2(3,2), of rnd] 2(1,4,5) show ?thesis by simp
qed

lemma local_delivery:
  assumes own: "own dh (tok p f) s"
  shows "delivery dh p f (sock_ready s) (route_local nh rnd cb i p s)"
proof -
  define pid where "pid = pkt_id (pkt s p)"
  define sock where "sock = csp_port_get_socket (ucast (id_dport pid)) s"
  have sk: "sock_ready s \<Longrightarrow> \<forall>so. sock = Some so \<longrightarrow> sock_rx_queue (sockets s so) \<noteq> None"
    using sock_ready_port by (auto simp: sock_def)
  have weaken: "delivery dh p f rd x \<Longrightarrow> (sock_ready s \<Longrightarrow> rd) \<Longrightarrow> delivery dh p f (sock_ready s) x" for rd x by (auto simp: delivery_def)
  note run = route_local_def [of nh rnd cb i p s, folded pid_def, unfolded Let_def [of pid], folded sock_def, unfolded Let_def [of sock] Let_def [of "the sock"]]
  consider n where "csp_port_get_callback (ucast (id_dport pid)) s = Some n"
    | so where "csp_port_get_callback (ucast (id_dport pid)) s = None" "sock = Some so" "sock_opts (sockets s so) AND CSP_SO_CONN_LESS \<noteq> 0"
    | (conn) "csp_port_get_callback (ucast (id_dport pid)) s = None" "\<not> (sock \<noteq> None \<and> sock_opts (sockets s (the sock)) AND CSP_SO_CONN_LESS \<noteq> 0)"
    by fastforce
  then show ?thesis
  proof cases
    case (1 n)
    obtain r t where t: "csp_route_security_check CSP_SO_CRC32REQ i p s = (r, t)" by fastforce
    from secured [OF own t] cb_own [of p f t n] t 1 show ?thesis by (simp add: run own_leakI)
  next
    case (2 so)
    have "delivery dh p f (sock_ready s) (let (r, s) = csp_route_security_check (sock_opts (sockets s so)) i p s
        in if r \<noteq> CSP_ERR_NONE then Some (free_pkt p s)
           else map_option (\<lambda>(r, s). if r \<noteq> CSP_QUEUE_OK then free_pkt p (conn_ovf s) else s) (sock_enqueue so (Sock_packet p) s))"
      by (rule weaken [OF connless_delivery [OF own]]) (use sk 2(2) in blast)
    with 2(1,3) show ?thesis unfolding run 2(2) option.sel by simp
  next
    case conn
    show ?thesis
    proof (cases "csp_conn_find_existing pid s")
      case (Some c)
      then have "c < CSP_CONN_MAX" by (simp add: find_existing_Some)
      from existing_delivery [OF own this] conn(1) Some show ?thesis unfolding run if_not_P [OF conn(2)] by simp
    next
      case None
      have "delivery dh p f (sock_ready s) (case route_accept sock i p s of (None, s) \<Rightarrow> Some s | (Some c, s) \<Rightarrow> route_to_conn nh rnd c p s)"
        by (rule weaken [OF new_delivery [OF own]]) (rule sk)
      with conn(1) None show ?thesis unfolding run if_not_P [OF conn(2)] by simp
    qed
  qed
qed

lemma packet_delivery:
  assumes own: "own dh (tok p f) s"
  shows "delivery dh p f (sock_ready s) (route_packet nh rnd cb i p s)"
proof -
  define s1 where "s1 = upd_iface i (\<lambda>k. k\<lparr>if_rx := if_rx k + 1, if_rxbytes := if_rxbytes k + ucast (pkt_length (pkt s p))\<rparr>) s"
  define me where "me = is_to_me (pkt_id (pkt s1 p)) i s1"
  obtain dup s2 where dd: "(if dedup_wanted (dedup (csp_conf (core s1))) me then dedup_check p s1 else (False, s1)) = (dup, s2)" by fastforce
  have two: "own dh (tok p f) s2" "dest_frame s s2"
  proof -
    have "own dh (tok p f) s1" "dest_frame s s1" using own by (simp_all add: s1_def)
    with dd dedup_check_effect(1) [of p s1 dup s2 dh "tok p f"] dedup_check_effect(2) [of p s1 dup s2]
    show "own dh (tok p f) s2" "dest_frame s s2" by (auto split: if_splits intro: dest_frame_trans)
  qed
  define s3 where "s3 = csp_promisc_add p s2"
  have three: "own dh (tok p f) s3" "dest_frame s s3"
    using promisc_add_frames [OF two(1), of p] own_promisc_add [OF two(1)] two(2) by (auto simp: s3_def intro: dest_frame_tx dest_frame_trans)
  have loc: "delivery dh p f (sock_ready s) (route_local nh rnd cb i p s3)"
    using local_delivery [OF three(1)] sock_ready_dest [OF three(2)] by (auto simp: delivery_def)
  note run = route_packet_def [of nh rnd cb i p s, folded s1_def, unfolded Let_def, folded me_def, unfolded dd prod.case, folded s3_def,
      unfolded csp_route_check_options_def prod.case]
  have "own dh f (free_pkt p (upd_iface i (\<lambda>k. k\<lparr>if_drop := if_drop k + 1\<rparr>) s2))"
    using two(1) by (intro own_free) simp
  with loc conjunct1 [OF send_direct_contract [OF three(1)]] show ?thesis by (simp add: run own_leakI)
qed

lemma route_work_delivery:
  assumes own: "own dh f s"
  shows "pred_option (\<lambda>(r, s'). own_leak dh {x. f x = 0 \<and> Some x \<noteq> route_input nh s} f s') (csp_route_work nh rnd cb s)"
    "sock_ready s \<Longrightarrow> qfifo_ifaces (csp_conn_check_timeouts nh s) \<Longrightarrow> csp_route_work nh rnd cb s \<noteq> None"
proof -
  define s1 where "s1 = csp_conn_check_timeouts nh s"
  have one: "own dh f s1" "dest_frame s s1" unfolding s1_def by (rule conn_check_timeouts_own [OF own], rule conn_check_timeouts_dest [OF own])
  obtain e x s2 where rd2: "csp_qfifo_read s1 = (e, x, s2)" by (metis prod_cases3)
  have input: "route_input nh s = Option.bind x qf_packet" by (simp add: route_input_def s1_def [symmetric] rd2)
  note two = own_qfifo_read [OF one(1) rd2]
  have d2: "dest_frame s s2" using rd2 one(2) by (auto simp: csp_qfifo_read_def Let_def split: prod.splits option.splits)
  have mem: "y \<in> set (queue_list (qfifo_queue s1))" if "x = Some y" for y
    using rd2 that qheld_dequeue [OF queues_okD(1) [OF own_queues [OF one(1)]]]
    by (fastforce simp: csp_qfifo_read_def Let_def split: prod.splits option.splits)
  have "pred_option (\<lambda>(r, s'). own_leak dh {x. f x = 0 \<and> Some x \<noteq> route_input nh s} f s') (csp_route_work nh rnd cb s)
    \<and> (sock_ready s \<longrightarrow> qfifo_ifaces (csp_conn_check_timeouts nh s) \<longrightarrow> csp_route_work nh rnd cb s \<noteq> None)"
  proof (cases "Option.bind x qf_packet")
    case None
    with two rd2 show ?thesis
      by (cases x) (auto simp: csp_route_work_def s1_def [symmetric] intro: own_leakI)
  next
    case (Some p)
    then obtain y where y: "x = Some y" "qf_packet y = Some p" by (cases x) auto
    then have own2: "own dh (tok p f) s2" using two by simp
    have set: "{x. f x = 0 \<and> Some x \<noteq> route_input nh s} = {x. x \<noteq> p \<and> f x = 0}" using Some by (auto simp: input)
    show ?thesis
    proof (cases "qf_iface y")
      case None
      with y mem rd2 show ?thesis by (auto simp: csp_route_work_def s1_def [symmetric] qfifo_ifaces_def)
    next
      case (Some i)
      from packet_delivery [OF own2, of rnd i] sock_ready_dest [OF d2] have
        "delivery dh p f (sock_ready s) (route_packet nh rnd cb i p s2)" by (auto simp: delivery_def)
      with rd2 y Some show ?thesis
        unfolding set by (cases "route_packet nh rnd cb i p s2") (auto simp: csp_route_work_def s1_def [symmetric])
    qed
  qed
  then show "pred_option (\<lambda>(r, s'). own_leak dh {x. f x = 0 \<and> Some x \<noteq> route_input nh s} f s') (csp_route_work nh rnd cb s)"
    "sock_ready s \<Longrightarrow> qfifo_ifaces (csp_conn_check_timeouts nh s) \<Longrightarrow> csp_route_work nh rnd cb s \<noteq> None" by blast+
qed

lemma route_work_safe: "safe dh f s \<Longrightarrow> csp_route_work nh rnd cb s = Some (r, s') \<Longrightarrow> safe dh f s'"
  by (erule safe_bind) (use route_work_delivery(1) [of _ s rnd] in \<open>auto intro: safe_leak\<close>)

end

text \<open>
  A socket that is bound but was not passed to \<open>csp_listen\<close> has no queue: a packet without a
  connection that passes the checks of such a socket makes the router enqueue to a null pointer.
\<close>

theorem csp_route_unlistened:
  assumes "csp_port_get_callback (ucast (id_dport (pkt_id (pkt s p)))) s = None"
    and "csp_port_get_socket (ucast (id_dport (pkt_id (pkt s p)))) s = Some so"
    and "sock_opts (sockets s so) AND CSP_SO_CONN_LESS \<noteq> 0" and "sock_rx_queue (sockets s so) = None"
    and "csp_route_security_check (sock_opts (sockets s so)) i p s = (CSP_ERR_NONE, s')"
  shows "route_local nh rnd cb i p s = None"
  using assms security_check_effect(2) [OF assms(5)] by (simp add: route_local_def Let_def sock_enqueue_def dest_frame_def)

end
