(* ===== verification/CSP_Service.thy ===== *)
theory CSP_Service
  imports CSP_Route
begin

text \<open>
  The services of a node, \<^verbatim>\<open>src/src/csp_service_handler.c\<close>, and the calls that request them
  from another node, \<^verbatim>\<open>src/src/csp_services.c\<close>. The hooks of \<^verbatim>\<open>csp_hooks.h\<close>, the clock, the
  memory that peek and poke reach and the build date are parameters.
\<close>

section \<open>The service handler\<close>

record 'd csp_hooks =
  csp_ps_hook :: "addr \<Rightarrow> 'd csp_state \<Rightarrow> u32 \<times> 'd csp_state"
  csp_memfree_hook :: "'d csp_state \<Rightarrow> u32"
  csp_reboot_hook :: "'d csp_state \<Rightarrow> 'd csp_state"
  csp_shutdown_hook :: "'d csp_state \<Rightarrow> 'd csp_state"
  csp_clock_set_time :: "u32 \<times> u32 \<Rightarrow> 'd csp_state \<Rightarrow> int \<times> 'd csp_state"
  csp_clock_get_time :: "'d csp_state \<Rightarrow> u32 \<times> u32"
  csp_get_s :: "'d csp_state \<Rightarrow> u32"
  memcpy_from :: "u32 \<Rightarrow> nat \<Rightarrow> 'd csp_state \<Rightarrow> u8 list"
  memcpy_to :: "u32 \<Rightarrow> u8 list \<Rightarrow> 'd csp_state \<Rightarrow> 'd csp_state"
  build_date :: string
  build_time :: string

abbreviation (input) CSP_CMP_REQUEST :: u8 where "CSP_CMP_REQUEST \<equiv> 0x00"
abbreviation (input) CSP_CMP_REPLY :: u8 where "CSP_CMP_REPLY \<equiv> 0xff"
abbreviation (input) CSP_CMP_IDENT_REV_LEN :: nat where "CSP_CMP_IDENT_REV_LEN \<equiv> 20"
abbreviation (input) CSP_CMP_IDENT_DATE_LEN :: nat where "CSP_CMP_IDENT_DATE_LEN \<equiv> 12"
abbreviation (input) CSP_CMP_IDENT_TIME_LEN :: nat where "CSP_CMP_IDENT_TIME_LEN \<equiv> 9"
abbreviation (input) CSP_HOSTNAME_LEN :: nat where "CSP_HOSTNAME_LEN \<equiv> 20"
abbreviation (input) CSP_MODEL_LEN :: nat where "CSP_MODEL_LEN \<equiv> 30"
abbreviation (input) CSP_CMP_ROUTE_IFACE_LEN :: nat where "CSP_CMP_ROUTE_IFACE_LEN \<equiv> 11"
abbreviation (input) CSP_CMP_PEEK_MAX_LEN :: u8 where "CSP_CMP_PEEK_MAX_LEN \<equiv> 200"
abbreviation (input) CSP_CMP_POKE_MAX_LEN :: u8 where "CSP_CMP_POKE_MAX_LEN \<equiv> 200"
abbreviation (input) CSP_DBG_ERR_CLOCK_SET_FAIL :: u8 where "CSP_DBG_ERR_CLOCK_SET_FAIL \<equiv> 12"
abbreviation (input) CSP_REBOOT_MAGIC :: u32 where "CSP_REBOOT_MAGIC \<equiv> 0x80078007"
abbreviation (input) CSP_REBOOT_SHUTDOWN_MAGIC :: u32 where "CSP_REBOOT_SHUTDOWN_MAGIC \<equiv> 0xD1E5529A"

text \<open>Bytes of the message in a packet; the message starts with its type and code.\<close>

definition cmp_get :: "addr \<Rightarrow> nat \<Rightarrow> nat \<Rightarrow> 'd csp_state \<Rightarrow> u8 list" where
  "cmp_get p off n s = mem_read (pkt_mem (pkt s p)) (DATA_OFF + off) n"

definition cmp_put :: "addr \<Rightarrow> nat \<Rightarrow> u8 list \<Rightarrow> 'd csp_state \<Rightarrow> 'd csp_state" where
  "cmp_put p off bs s = on_core (write_data p off bs) s"

text \<open>A field of \<open>n\<close> bytes filled by \<^verbatim>\<open>strncpy\<close>, its last byte set to zero.\<close>

definition str_field :: "nat \<Rightarrow> string \<Rightarrow> u8 list" where
  "str_field n str = take (n - 1) (map of_char str @ replicate n 0) @ [0]"

definition cmp_string :: "u8 list \<Rightarrow> string" where
  "cmp_string bs = map (\<lambda>b. char_of (unat b)) (takeWhile (\<lambda>b. b \<noteq> 0) bs)"

definition do_cmp_ident :: "'d csp_hooks \<Rightarrow> addr \<Rightarrow> 'd csp_state \<Rightarrow> int \<times> 'd csp_state" where
  "do_cmp_ident hk p s =
     (let s = cmp_put p 52 (str_field CSP_CMP_IDENT_REV_LEN (revision (csp_conf (core s)))) s;
          s = cmp_put p 72 (str_field CSP_CMP_IDENT_DATE_LEN (build_date hk)) s;
          s = cmp_put p 84 (str_field CSP_CMP_IDENT_TIME_LEN (build_time hk)) s;
          s = cmp_put p 2 (str_field CSP_HOSTNAME_LEN (hostname (csp_conf (core s)))) s
      in (CSP_ERR_NONE, cmp_put p 22 (str_field CSP_MODEL_LEN (model (csp_conf (core s)))) s))"

definition cmp_rtable_set :: "u16 \<Rightarrow> int \<Rightarrow> addr \<Rightarrow> u16 \<Rightarrow> 'd csp_state \<Rightarrow> int \<times> 'd csp_state" where
  "cmp_rtable_set dest netmask ifc via s =
     (let (r, k, t) = csp_rtable_set dest netmask (Some ifc) via (core s) (routes s)
      in (if r \<noteq> CSP_ERR_NONE then CSP_ERR_INVAL else CSP_ERR_NONE, s\<lparr>core := k, routes := t\<rparr>))"

definition do_cmp_route_set_v1 :: "addr \<Rightarrow> 'd csp_state \<Rightarrow> int \<times> 'd csp_state" where
  "do_cmp_route_set_v1 p s =
     (case csp_iflist_get_by_name (cmp_string (cmp_get p 4 CSP_CMP_ROUTE_IFACE_LEN s)) (iflist s) of
        None \<Rightarrow> (CSP_ERR_INVAL, s)
      | Some ifc \<Rightarrow>
          cmp_rtable_set (be_word (cmp_get p 2 1 s)) (int (csp_id_get_host_bits (ver s))) ifc (be_word (cmp_get p 3 1 s)) s)"

definition do_cmp_route_set_v2 :: "addr \<Rightarrow> 'd csp_state \<Rightarrow> int \<times> 'd csp_state" where
  "do_cmp_route_set_v2 p s =
     (case csp_iflist_get_by_name (cmp_string (cmp_get p 8 CSP_CMP_ROUTE_IFACE_LEN s)) (iflist s) of
        None \<Rightarrow> (CSP_ERR_INVAL, s)
      | Some ifc \<Rightarrow>
          cmp_rtable_set (be_word (cmp_get p 2 2 s)) (uint (be_word (cmp_get p 6 2 s) :: u16)) ifc (be_word (cmp_get p 4 2 s)) s)"

definition do_cmp_if_stats :: "addr \<Rightarrow> 'd csp_state \<Rightarrow> int \<times> 'd csp_state" where
  "do_cmp_if_stats p s =
     (case csp_iflist_get_by_name (cmp_string (cmp_get p 2 CSP_CMP_ROUTE_IFACE_LEN s)) (iflist s) of
        None \<Rightarrow> (CSP_ERR_INVAL, s)
      | Some i \<Rightarrow>
          let ifc = ifaces (iflist s) i
          in (CSP_ERR_NONE,
              cmp_put p 13 (concat (map (be_bytes 4) [if_tx ifc, if_rx ifc, if_tx_error ifc, if_rx_error ifc, if_drop ifc,
                if_autherr ifc, if_frame ifc, if_txbytes ifc, if_rxbytes ifc, if_irq ifc])) s))"

text \<open>The address is swapped in place; the copy is between the message and the given address.\<close>

definition do_cmp_peek :: "'d csp_hooks \<Rightarrow> addr \<Rightarrow> 'd csp_state \<Rightarrow> int \<times> 'd csp_state" where
  "do_cmp_peek hk p s =
     (let a = be_word (cmp_get p 2 4 s) :: u32;
          s = cmp_put p 2 (le_bytes 4 a) s;
          len = hd (cmp_get p 6 1 s)
      in if len > CSP_CMP_PEEK_MAX_LEN then (CSP_ERR_INVAL, s)
         else (CSP_ERR_NONE, cmp_put p 7 (memcpy_from hk a (unat len) s) s))"

definition do_cmp_poke :: "'d csp_hooks \<Rightarrow> addr \<Rightarrow> 'd csp_state \<Rightarrow> int \<times> 'd csp_state" where
  "do_cmp_poke hk p s =
     (let a = be_word (cmp_get p 2 4 s) :: u32;
          s = cmp_put p 2 (le_bytes 4 a) s;
          len = hd (cmp_get p 6 1 s)
      in if len > CSP_CMP_POKE_MAX_LEN then (CSP_ERR_INVAL, s)
         else (CSP_ERR_NONE, memcpy_to hk a (cmp_get p 7 (unat len) s) s))"

definition do_cmp_clock :: "'d csp_hooks \<Rightarrow> addr \<Rightarrow> 'd csp_state \<Rightarrow> int \<times> 'd csp_state" where
  "do_cmp_clock hk p s =
     (let tv_sec = be_word (cmp_get p 2 4 s) :: u32;
          tv_nsec = be_word (cmp_get p 6 4 s) :: u32;
          (res, s) = (if tv_sec \<noteq> 0 then csp_clock_set_time hk (tv_sec, tv_nsec) s else (CSP_ERR_NONE, s));
          s = (if res \<noteq> CSP_ERR_NONE then set_errno CSP_DBG_ERR_CLOCK_SET_FAIL s else s);
          (tv_sec, tv_nsec) = csp_clock_get_time hk s;
          s = cmp_put p 2 (be_bytes 4 tv_sec) s
      in (res, cmp_put p 6 (be_bytes 4 tv_nsec) s))"

definition set_length :: "addr \<Rightarrow> u16 \<Rightarrow> 'd csp_state \<Rightarrow> 'd csp_state" where
  "set_length p n s = upd_pkt p (\<lambda>k. k\<lparr>pkt_length := n\<rparr>) s"

text \<open>The codes of the messages, with the sizes of their replies.\<close>

definition csp_cmp_handler :: "'d csp_hooks \<Rightarrow> addr \<Rightarrow> 'd csp_state \<Rightarrow> int \<times> 'd csp_state" where
  "csp_cmp_handler hk p s =
     (if hd (cmp_get p 0 1 s) \<noteq> CSP_CMP_REQUEST then (CSP_ERR_INVAL, s)
      else let code = hd (cmp_get p 1 1 s);
               (ret, s) = (if code = 1 then apsnd (set_length p 93) (do_cmp_ident hk p s)
                           else if code = 2 then apsnd (set_length p 15) (do_cmp_route_set_v1 p s)
                           else if code = 7 then apsnd (set_length p 20) (do_cmp_route_set_v2 p s)
                           else if code = 3 then apsnd (set_length p 53) (do_cmp_if_stats p s)
                           else if code = 4 then do_cmp_peek hk p s
                           else if code = 5 then do_cmp_poke hk p s
                           else if code = 6 then do_cmp_clock hk p s
                           else (CSP_ERR_INVAL, s))
           in (ret, cmp_put p 0 [CSP_CMP_REPLY] s))"

text \<open>A reply of one word.\<close>

definition reply_word :: "addr \<Rightarrow> u32 \<Rightarrow> 'd csp_state \<Rightarrow> 'd csp_state" where
  "reply_word p w s = set_length p 4 (cmp_put p 0 (be_bytes 4 w) s)"

definition handler_reply :: "'d nexthop_fn \<Rightarrow> addr \<Rightarrow> 'd csp_state \<Rightarrow> 'd csp_state" where
  "handler_reply nh p s = csp_sendto_reply nh (Some p) p CSP_O_SAME s"

definition csp_service_handler :: "'d nexthop_fn \<Rightarrow> 'd csp_hooks \<Rightarrow> addr \<Rightarrow> 'd csp_state \<Rightarrow> 'd csp_state" where
  "csp_service_handler nh hk p s =
     (let port = id_dport (pkt_id (pkt s p))
      in if port = 0 then
           (let (r, s) = csp_cmp_handler hk p s in if r \<noteq> CSP_ERR_NONE then free_pkt p s else handler_reply nh p s)
         else if port = 1 then handler_reply nh p s
         else if port = 2 then
           (let (n, s) = csp_ps_hook hk p s;
                s = set_length p (ucast n) s;
                s = (if pkt_length (pkt s p) = 0 then free_pkt p s else s)
            in handler_reply nh p s)
         else if port = 3 then handler_reply nh p (reply_word p (csp_memfree_hook hk s) s)
         else if port = 4 then
           (let magic_word = be_word (cmp_get p 0 4 s) :: u32;
                s = (if magic_word = CSP_REBOOT_MAGIC then csp_reboot_hook hk s
                     else if magic_word = CSP_REBOOT_SHUTDOWN_MAGIC then csp_shutdown_hook hk s else s)
            in free_pkt p s)
         else if port = 5 then handler_reply nh p (reply_word p (of_nat (csp_buffer_remaining (core s))) s)
         else if port = 6 then handler_reply nh p (reply_word p (csp_get_s hk s) s)
         else free_pkt p s)"

section \<open>Requests to other nodes\<close>

abbreviation (input) CSP_PRIO_NORM :: u8 where "CSP_PRIO_NORM \<equiv> 2"

definition ping_data :: "u32 \<Rightarrow> u8 list" where
  "ping_data sz = map of_nat [0..<unat sz]"

text \<open>The exchange of a ping: whether the data came back, and the packet that was read.\<close>

definition ping_exchange ::
  "'d nexthop_fn \<Rightarrow> 'd task_fn \<Rightarrow> addr \<Rightarrow> u32 \<Rightarrow> u32 \<Rightarrow> 'd csp_state \<Rightarrow> (bool \<times> addr option \<times> 'd csp_state) option" where
  "ping_exchange nh wt c timeout sz s =
     (let (b, s) = in_core csp_buffer_get s
      in case b of
           None \<Rightarrow> Some (False, None, s)
         | Some p \<Rightarrow>
             let s = set_length p (ucast sz) s;
                 s = on_core (write_data p 0 (ping_data sz)) s
             in case csp_send nh wt (Some c) (Some p) s of
                  None \<Rightarrow> None
                | Some s \<Rightarrow>
                    let (r, s) = csp_read nh wt (Some c) timeout s
                    in Some (case r of None \<Rightarrow> False | Some q \<Rightarrow> data_bytes (core s) q (unat sz) = ping_data sz, r, s))"

definition free_opt :: "addr option \<Rightarrow> 'd csp_state \<Rightarrow> 'd csp_state" where
  "free_opt po s = on_core (csp_buffer_free po) s"

definition csp_ping ::
  "'d nexthop_fn \<Rightarrow> (u32 \<Rightarrow> u32) \<Rightarrow> 'd task_fn \<Rightarrow> u16 \<Rightarrow> u32 \<Rightarrow> u32 \<Rightarrow> u8 \<Rightarrow> 'd csp_state \<Rightarrow> (int \<times> 'd csp_state) option" where
  "csp_ping nh rnd wt node timeout sz conn_options s =
     (if unat sz > CSP_BUFFER_SIZE then Some (-1, s)
      else let start = csp_ms (core s);
               (conn, s) = csp_connect nh rnd wt CSP_PRIO_NORM node 1 timeout (ucast conn_options) s
           in case conn of
                None \<Rightarrow> Some (-1, s)
              | Some c \<Rightarrow>
                  (case ping_exchange nh wt c timeout sz s of
                     None \<Rightarrow> None
                   | Some (status, r, s) \<Rightarrow>
                       let s = snd (csp_close nh (Some c) (free_opt r s))
                       in Some (if status then sint (csp_ms (core s) - start) else -1, s)))"

definition csp_ping_noreply :: "'d nexthop_fn \<Rightarrow> (u32 \<Rightarrow> u32) \<Rightarrow> 'd task_fn \<Rightarrow> u16 \<Rightarrow> 'd csp_state \<Rightarrow> 'd csp_state option" where
  "csp_ping_noreply nh rnd wt node s =
     (let (b, s) = in_core csp_buffer_get s
      in case b of
           None \<Rightarrow> Some s
         | Some p \<Rightarrow>
             let (conn, s) = csp_connect nh rnd wt CSP_PRIO_NORM node 1 0 CSP_O_CRC32 s
             in case conn of
                  None \<Rightarrow> Some (free_pkt p s)
                | Some c \<Rightarrow>
                    let s = set_length p 1 (on_core (write_data p 0 [0x55]) s)
                    in map_option (\<lambda>s. snd (csp_close nh (Some c) s)) (csp_send nh wt (Some c) (Some p) s))"

definition reboot_request :: "'d nexthop_fn \<Rightarrow> (u32 \<Rightarrow> u32) \<Rightarrow> 'd task_fn \<Rightarrow> u32 \<Rightarrow> u16 \<Rightarrow> 'd csp_state \<Rightarrow> 'd csp_state option" where
  "reboot_request nh rnd wt magic node s =
     map_option (\<lambda>(r, ib, s). s)
       (csp_transaction_w_opts nh rnd wt CSP_PRIO_NORM node 4 0 (Some (be_bytes 4 magic)) 4 0 CSP_O_CRC32 s)"

definition csp_reboot :: "'d nexthop_fn \<Rightarrow> (u32 \<Rightarrow> u32) \<Rightarrow> 'd task_fn \<Rightarrow> u16 \<Rightarrow> 'd csp_state \<Rightarrow> 'd csp_state option" where
  "csp_reboot nh rnd wt node s = reboot_request nh rnd wt CSP_REBOOT_MAGIC node s"

definition csp_shutdown :: "'d nexthop_fn \<Rightarrow> (u32 \<Rightarrow> u32) \<Rightarrow> 'd task_fn \<Rightarrow> u16 \<Rightarrow> 'd csp_state \<Rightarrow> 'd csp_state option" where
  "csp_shutdown nh rnd wt node s = reboot_request nh rnd wt CSP_REBOOT_SHUTDOWN_MAGIC node s"

text \<open>The loop that reads the parts of the answer, without an end while they keep coming.\<close>

partial_function (option) ps_loop :: "'d nexthop_fn \<Rightarrow> 'd task_fn \<Rightarrow> addr \<Rightarrow> u32 \<Rightarrow> 'd csp_state \<Rightarrow> 'd csp_state option" where
  "ps_loop nh wt c timeout s =
     (case csp_read nh wt (Some c) timeout s of
        (r, s) \<Rightarrow>
          (case r of
             None \<Rightarrow> Some s
           | Some p \<Rightarrow> ps_loop nh wt c timeout
                         (free_pkt p (on_core (write_data p (min (unat (pkt_length (pkt s p))) (CSP_BUFFER_SIZE - 1)) [0]) s))))"

definition csp_ps :: "'d nexthop_fn \<Rightarrow> (u32 \<Rightarrow> u32) \<Rightarrow> 'd task_fn \<Rightarrow> u16 \<Rightarrow> u32 \<Rightarrow> 'd csp_state \<Rightarrow> 'd csp_state option" where
  "csp_ps nh rnd wt node timeout s =
     (let (conn, s) = csp_connect nh rnd wt CSP_PRIO_NORM node 2 0 CSP_O_CRC32 s
      in case conn of
           None \<Rightarrow> Some s
         | Some c \<Rightarrow>
             let (b, s) = in_core csp_buffer_get s
             in map_option (\<lambda>s. snd (csp_close nh (Some c) s))
                  (case b of
                     None \<Rightarrow> Some s
                   | Some p \<Rightarrow>
                       Option.bind (csp_send nh wt (Some c) (Some p) (set_length p 1 (on_core (write_data p 0 [0x55]) s)))
                         (ps_loop nh wt c timeout)))"

text \<open>A request that is answered by one word.\<close>

definition word_request ::
  "'d nexthop_fn \<Rightarrow> (u32 \<Rightarrow> u32) \<Rightarrow> 'd task_fn \<Rightarrow> u8 \<Rightarrow> u16 \<Rightarrow> u32 \<Rightarrow> 'd csp_state \<Rightarrow> (int \<times> u32 \<times> 'd csp_state) option" where
  "word_request nh rnd wt port node timeout s =
     map_option (\<lambda>(status, inbuf, s). if status = 4 then (CSP_ERR_NONE, be_word (the inbuf), s) else (CSP_ERR_TIMEDOUT, 0, s))
       (csp_transaction_w_opts nh rnd wt CSP_PRIO_NORM node port timeout None 0 4 CSP_O_CRC32 s)"

definition csp_get_memfree ::
  "'d nexthop_fn \<Rightarrow> (u32 \<Rightarrow> u32) \<Rightarrow> 'd task_fn \<Rightarrow> u16 \<Rightarrow> u32 \<Rightarrow> 'd csp_state \<Rightarrow> (int \<times> u32 \<times> 'd csp_state) option" where
  "csp_get_memfree nh rnd wt node timeout s = word_request nh rnd wt 3 node timeout s"

definition csp_get_buf_free ::
  "'d nexthop_fn \<Rightarrow> (u32 \<Rightarrow> u32) \<Rightarrow> 'd task_fn \<Rightarrow> u16 \<Rightarrow> u32 \<Rightarrow> 'd csp_state \<Rightarrow> (int \<times> u32 \<times> 'd csp_state) option" where
  "csp_get_buf_free nh rnd wt node timeout s = word_request nh rnd wt 5 node timeout s"

definition csp_get_uptime ::
  "'d nexthop_fn \<Rightarrow> (u32 \<Rightarrow> u32) \<Rightarrow> 'd task_fn \<Rightarrow> u16 \<Rightarrow> u32 \<Rightarrow> 'd csp_state \<Rightarrow> (int \<times> u32 \<times> 'd csp_state) option" where
  "csp_get_uptime nh rnd wt node timeout s = word_request nh rnd wt 6 node timeout s"

text \<open>The message \<open>msg\<close> is request and reply; \<open>msg_size\<close> is its length.\<close>

definition csp_cmp ::
  "'d nexthop_fn \<Rightarrow> (u32 \<Rightarrow> u32) \<Rightarrow> 'd task_fn \<Rightarrow> u16 \<Rightarrow> u32 \<Rightarrow> u8 \<Rightarrow> u8 list \<Rightarrow> 'd csp_state \<Rightarrow> (int \<times> u8 list \<times> 'd csp_state) option" where
  "csp_cmp nh rnd wt node timeout code msg s =
     (let msg = msg[0 := CSP_CMP_REQUEST, 1 := code]
      in map_option (\<lambda>(status, inbuf, s). (if status = 0 then CSP_ERR_TIMEDOUT else CSP_ERR_NONE,
                       case inbuf of None \<Rightarrow> msg | Some bs \<Rightarrow> bs, s))
           (csp_transaction_w_opts nh rnd wt CSP_PRIO_NORM node 0 timeout (Some msg) (int (length msg)) (int (length msg)) CSP_O_CRC32 s))"

section \<open>Ownership\<close>

lemma own_cmp_put [simp]: "own dh f (cmp_put p off bs s) = own dh f s"
  by (simp add: cmp_put_def)

lemma own_set_length [simp]: "own dh f (set_length p n s) = own dh f s"
  by (simp add: set_length_def)

lemma own_reply_word [simp]: "own dh f (reply_word p w s) = own dh f s"
  by (simp add: reply_word_def)

lemma own_rtable_set: "own dh f (snd (cmp_rtable_set d n i v s)) = own dh f s"
proof -
  have "own dh f (s\<lparr>core := k, routes := t\<rparr>) = own dh f (s\<lparr>core := k\<rparr>)" for k t
    by (simp add: own_def held_def queues_ok_def)
  then show ?thesis by (auto simp: cmp_rtable_set_def csp_rtable_set_def Let_def split: prod.splits)
qed

text \<open>
  What the handler relies on: the hooks keep the accounting. When the hook for the process
  list writes nothing the packet is freed and sent all the same, so only with a hook that always
  writes something (\<open>service_answers\<close>) the handler is a callback the router can rely on.
\<close>

definition ps_empty :: "'d csp_hooks \<Rightarrow> addr \<Rightarrow> 'd csp_state \<Rightarrow> bool" where
  "ps_empty hk p s \<longleftrightarrow> id_dport (pkt_id (pkt s p)) = 2 \<and> (ucast (fst (csp_ps_hook hk p s)) :: u16) = 0"

locale service_env = nexthop_contract nh dh for nh :: "'d nexthop_fn" and dh +
  fixes hk :: "'d csp_hooks"
  assumes ps_own: "own dh (tok p f) s \<Longrightarrow> csp_ps_hook hk p s = (n, s') \<Longrightarrow> own dh (tok p f) s'"
    and reboot_own: "own dh f s \<Longrightarrow> own dh f (csp_reboot_hook hk s)"
    and shutdown_own: "own dh f s \<Longrightarrow> own dh f (csp_shutdown_hook hk s)"
    and clock_own: "own dh f s \<Longrightarrow> own dh f (snd (csp_clock_set_time hk tv s))"
    and poke_own: "own dh f s \<Longrightarrow> own dh f (memcpy_to hk a bs s)"
begin

lemma cmp_handler_own:
  assumes "own dh f s"
  shows "own dh f (snd (csp_cmp_handler hk p s))"
proof -
  have "own dh f (snd (do_cmp_ident hk p s))" "own dh f (snd (do_cmp_if_stats p s))" "own dh f (snd (do_cmp_peek hk p s))"
    using assms by (auto simp: do_cmp_ident_def do_cmp_if_stats_def do_cmp_peek_def Let_def split: option.splits)
  moreover have "own dh f (snd (do_cmp_route_set_v1 p s))" "own dh f (snd (do_cmp_route_set_v2 p s))"
    using assms by (auto simp: do_cmp_route_set_v1_def do_cmp_route_set_v2_def own_rtable_set split: option.splits)
  moreover have "own dh f (snd (do_cmp_poke hk p s))" using assms poke_own by (auto simp: do_cmp_poke_def Let_def)
  moreover have "own dh f (snd (do_cmp_clock hk p s))"
    using assms clock_own by (auto simp: do_cmp_clock_def Let_def split_beta)
  ultimately show ?thesis using assms by (auto simp: csp_cmp_handler_def Let_def split_beta)
qed

lemma handler_reply_own: "own dh (tok p f) s \<Longrightarrow> own dh f (handler_reply nh p s)"
  unfolding handler_reply_def by (rule sendto_reply_own)

lemma service_handler_own:
  assumes own: "own dh (tok p f) s" and ps0: "\<not> ps_empty hk p s"
  shows "own dh f (csp_service_handler nh hk p s)"
proof -
  note cmp = cmp_handler_own [OF own, of p]
  have ps: "own dh f (let (n, s) = csp_ps_hook hk p s; s = set_length p (ucast n) s;
      s = (if pkt_length (pkt s p) = 0 then free_pkt p s else s) in handler_reply nh p s)" if port: "id_dport (pkt_id (pkt s p)) = 2"
  proof -
    obtain n t where t: "csp_ps_hook hk p s = (n, t)" by fastforce
    note h = ps_own [OF own t]
    have "pkt_length (pkt (set_length p (ucast n) t) p) \<noteq> 0" using ps0 port t by (simp add: ps_empty_def set_length_def upd_pkt_def on_core_def)
    then show ?thesis using t h by (simp add: handler_reply_own)
  qed
  have rb: "own dh (tok p f) (if m = CSP_REBOOT_MAGIC then csp_reboot_hook hk s else if m = CSP_REBOOT_SHUTDOWN_MAGIC then csp_shutdown_hook hk s else s)" for m
    using own reboot_own shutdown_own by simp
  show ?thesis
    unfolding csp_service_handler_def Let_def [of "id_dport _"]
    using cmp ps own_free [OF rb] own_free [OF own] own by (auto simp: split_beta Let_def intro: handler_reply_own own_free)
qed

text \<open>An empty process list: the reply is sent after the packet was given up.\<close>

lemma service_handler_ps_empty:
  assumes own: "own dh (tok p f) s" and ps0: "ps_empty hk p s"
  shows "\<exists>t. own dh f t \<and> csp_service_handler nh hk p s = handler_reply nh p t"
proof -
  obtain n t where t: "csp_ps_hook hk p s = (n, t)" by fastforce
  let ?t = "free_pkt p (set_length p (ucast n) t)"
  have "own dh f ?t" using ps_own [OF own t] by (intro own_free) simp
  moreover have "pkt_length (pkt (set_length p (ucast n) t) p) = 0" using ps0 t by (simp add: ps_empty_def set_length_def upd_pkt_def on_core_def)
  then have "csp_service_handler nh hk p s = handler_reply nh p ?t" using ps0 t by (simp add: csp_service_handler_def ps_empty_def)
  ultimately show ?thesis by blast
qed

end

locale service_answers = service_env nh dh hk for nh :: "'d nexthop_fn" and dh hk +
  assumes ps_nonempty: "csp_ps_hook hk p s = (n, s') \<Longrightarrow> (ucast n :: u16) \<noteq> 0"
begin

lemma ps_not_empty: "\<not> ps_empty hk p s"
  using ps_nonempty [of p s] by (cases "csp_ps_hook hk p s") (simp add: ps_empty_def)

end

text \<open>Then the service handler is a callback the router can rely on.\<close>

sublocale service_answers \<subseteq> serve: router_env nh dh "\<lambda>n. csp_service_handler nh hk"
  by unfold_locales (rule service_handler_own, simp_all add: ps_not_empty)

text \<open>A node without operating system services: nothing to reboot, a process list of one byte.\<close>

definition plain_hooks :: "'d csp_hooks" where
  "plain_hooks = \<lparr>csp_ps_hook = (\<lambda>p s. (1, s)), csp_memfree_hook = (\<lambda>s. 0), csp_reboot_hook = (\<lambda>s. s), csp_shutdown_hook = (\<lambda>s. s),
     csp_clock_set_time = (\<lambda>tv s. (CSP_ERR_INVAL, s)), csp_clock_get_time = (\<lambda>s. (0, 0)), csp_get_s = (\<lambda>s. csp_ms (core s) div 1000),
     memcpy_from = (\<lambda>a n s. replicate n 0), memcpy_to = (\<lambda>a bs s. s), build_date = ''Jan  1 2025'', build_time = ''00:00:00''\<rparr>"

interpretation plain: service_answers "\<lambda>_. csp_lo_tx" dh plain_hooks for dh
  by unfold_locales (auto simp: plain_hooks_def)

text \<open>The hook for the process list that the ports have: it writes nothing.\<close>

definition silent_hooks :: "'d csp_hooks" where
  "silent_hooks = plain_hooks\<lparr>csp_ps_hook := (\<lambda>p s. (0, s))\<rparr>"

interpretation silent: service_env "\<lambda>_. csp_lo_tx" dh silent_hooks for dh
  by unfold_locales (auto simp: silent_hooks_def plain_hooks_def)

end
