(* ===== verification/CSP_Node.thy ===== *)
theory CSP_Node
  imports CSP_Service
begin

text \<open>
  A whole node: its initialisation, \<^verbatim>\<open>src/src/csp_init.c\<close>, the bridge between two interfaces,
  \<^verbatim>\<open>src/src/csp_bridge.c\<close>, and the router as the task that runs while an application waits.
\<close>

section \<open>Initialisation\<close>

text \<open>The configuration after validation.\<close>

definition valid_conf :: "csp_conf \<Rightarrow> csp_conf" where
  "valid_conf conf =
     (let conf = (if version conf = 0 \<or> version conf > 2 then conf\<lparr>version := 2\<rparr> else conf)
      in if dedup conf > CSP_DEDUP_ALL then conf\<lparr>dedup := CSP_DEDUP_OFF\<rparr> else conf)"

definition csp_init :: "'d csp_state \<Rightarrow> 'd csp_state" where
  "csp_init s =
     (let s = on_core (\<lambda>k. csp_buffer_init (k\<lparr>csp_conf := valid_conf (csp_conf k)\<rparr>)) s;
          s = csp_rdp_queue_init (csp_qfifo_init (csp_conn_init s));
          s = upd_iface csp_if_lo (\<lambda>k. k\<lparr>if_netmask := of_nat (csp_id_get_host_bits (ver s))\<rparr>) s
      in s\<lparr>iflist := csp_iflist_add (Some csp_if_lo) (iflist s)\<rparr>)"

definition csp_get_conf :: "'d csp_state \<Rightarrow> csp_conf" where
  "csp_get_conf s = csp_conf (core s)"

section \<open>The bridge\<close>

definition csp_bridge_set_interfaces :: "addr option \<Rightarrow> addr option \<Rightarrow> 'd csp_state \<Rightarrow> 'd csp_state" where
  "csp_bridge_set_interfaces if_a if_b s = s\<lparr>bif_a := if_a, bif_b := if_b\<rparr>"

definition csp_bridge_work :: "'d nexthop_fn \<Rightarrow> 'd csp_state \<Rightarrow> 'd csp_state" where
  "csp_bridge_work nh s =
     (case (bif_a s, bif_b s) of
        (Some a, Some b) \<Rightarrow>
          let (r, input, s) = csp_qfifo_read s
          in (case input of
                None \<Rightarrow> s
              | Some x \<Rightarrow>
                  (case qf_packet x of
                     None \<Rightarrow> s
                   | Some p \<Rightarrow>
                       let (dup, s) = dedup_check p s
                       in if dup then free_pkt p s
                          else let s = csp_promisc_add p s;
                                   destif = (if qf_iface x = Some a then b else a)
                               in csp_send_direct_iface nh (pkt_id (pkt s p)) p destif CSP_NO_VIA_ADDRESS False s))
      | _ \<Rightarrow> s)"

section \<open>The router as a task\<close>

text \<open>The router works a number of rounds; a round without a result ends it.\<close>

fun router_rounds :: "nat \<Rightarrow> 'd nexthop_fn \<Rightarrow> (u32 \<Rightarrow> u32) \<Rightarrow> 'd callback_fn \<Rightarrow> 'd csp_state \<Rightarrow> 'd csp_state" where
  "router_rounds 0 nh rnd cb s = s"
| "router_rounds (Suc n) nh rnd cb s =
     (case csp_route_work nh rnd cb s of None \<Rightarrow> s | Some (r, s) \<Rightarrow> router_rounds n nh rnd cb s)"

text \<open>What happens while an application waits for \<open>t\<close> milliseconds: \<open>k t\<close> rounds, and time passes.\<close>

definition router_task :: "'d nexthop_fn \<Rightarrow> (u32 \<Rightarrow> u32) \<Rightarrow> 'd callback_fn \<Rightarrow> (u32 \<Rightarrow> nat) \<Rightarrow> 'd task_fn" where
  "router_task nh rnd cb k t s = clock_tick t (router_rounds (k t) nh rnd cb s)"

locale router_loop = router_env nh dh cb for nh :: "'d nexthop_fn" and dh cb +
  fixes rnd :: "u32 \<Rightarrow> u32" and k :: "u32 \<Rightarrow> nat"
begin

lemma rounds_safe: "safe dh f s \<Longrightarrow> safe dh f (router_rounds n nh rnd cb s)"
proof (induction n arbitrary: s)
  case (Suc n)
  show ?case
  proof (cases "csp_route_work nh rnd cb s")
    case (Some x)
    then obtain r s1 where x: "csp_route_work nh rnd cb s = Some (r, s1)" by (cases x) auto
    from Suc.IH [OF route_work_safe [OF Suc.prems x]] x show ?thesis by simp
  qed (use Suc.prems in simp)
qed simp

end

sublocale router_loop \<subseteq> apps: task_env nh dh "router_task nh rnd cb k"
proof unfold_locales
  fix f s t
  assume "safe dh f s"
  then have "safe dh f (router_rounds (k t) nh rnd cb s)" by (rule rounds_safe)
  then show "safe dh f (router_task nh rnd cb k t s)" unfolding router_task_def by (rule safe_map) simp
qed

interpretation node: router_loop "\<lambda>_. csp_lo_tx" dh "\<lambda>n. csp_service_handler (\<lambda>_. csp_lo_tx) plain_hooks" rnd k for dh rnd k
  by unfold_locales

section \<open>Requests to other nodes\<close>

context task_env
begin

lemma free_opt_safe: "safe dh (otok r f) s \<Longrightarrow> safe dh f (free_opt r s)"
proof (cases r)
  case None
  assume "safe dh (otok r f) s"
  then show ?thesis using None by (auto simp: free_opt_def on_core_def csp_buffer_free_def csp_buffer_free_isr_def elim!: safe_map)
next
  case (Some p)
  assume "safe dh (otok r f) s"
  then have "safe dh (tok p f) s" using Some by simp
  then show ?thesis by (rule safe_consume) (use own_free Some in \<open>simp add: free_opt_def free_pkt_def\<close>)
qed

lemma fill_safe: "safe dh f s \<Longrightarrow> safe dh f (set_length p n (on_core (write_data p off bs) s))"
  by (erule safe_map) simp

lemma exchange_safe:
  assumes s: "safe dh f s" and c: "c < CSP_CONN_MAX" and run: "ping_exchange nh wt c t sz s = Some (ok, r, s')"
  shows "safe dh (otok r f) s'"
proof -
  obtain b s1 where get: "in_core csp_buffer_get s = (b, s1)" by fastforce
  have one: "safe dh (otok b f) s1" using s by (rule safe_produce) (rule own_get [OF _ get])
  show ?thesis
  proof (cases b)
    case None
    with run one get show ?thesis by (auto simp: ping_exchange_def)
  next
    case (Some p)
    have "safe dh (tok p f) (on_core (write_data p 0 (ping_data sz)) (set_length p (ucast sz) s1))"
      using one Some by (auto elim!: safe_map)
    note sent = send_safe [OF this]
    obtain s2 where s2: "csp_send nh wt (Some c) (Some p) (on_core (write_data p 0 (ping_data sz)) (set_length p (ucast sz) s1)) = Some s2"
        "csp_read nh wt (Some c) t s2 = (r, s')"
      using run get Some by (auto simp: ping_exchange_def split: option.splits prod.splits)
    from read_safe [OF sent [OF s2(1)] c s2(2)] show ?thesis .
  qed
qed

lemma ping_safe:
  assumes s: "safe dh f s" and run: "csp_ping nh rnd wt node t sz opts s = Some (r, s')"
  shows "safe dh f s'"
proof (cases "unat sz > CSP_BUFFER_SIZE")
  case True
  with run s show ?thesis by (simp add: csp_ping_def)
next
  case False
  obtain cn s1 where con: "csp_connect nh rnd wt CSP_PRIO_NORM node 1 t (ucast opts) s = (cn, s1)" by fastforce
  note one = csp_connect_safe [OF s con]
  show ?thesis
  proof (cases cn)
    case None
    with False run con one(1) show ?thesis by (simp add: csp_ping_def)
  next
    case (Some c)
    obtain ok q s2 where ex: "ping_exchange nh wt c t sz s1 = Some (ok, q, s2)" "s' = snd (csp_close nh (Some c) (free_opt q s2))"
      using run False con Some by (auto simp: csp_ping_def Let_def split: option.splits)
    from close_safe [OF free_opt_safe [OF exchange_safe [OF one(1) one(2) [OF Some] ex(1)]] one(2) [OF Some]] ex(2) show ?thesis by simp
  qed
qed

lemma requests_safe:
  assumes s: "safe dh f s"
  shows "word_request nh rnd wt port node t s = Some (r, w, s') \<Longrightarrow> safe dh f s'"
    "reboot_request nh rnd wt magic node s = Some s' \<Longrightarrow> safe dh f s'"
    "csp_cmp nh rnd wt node t code msg s = Some (r, bs, s') \<Longrightarrow> safe dh f s'"
  using transaction_w_opts_safe [OF s]
  by (fastforce simp: word_request_def reboot_request_def csp_cmp_def Let_def split: if_splits)+

end

section \<open>What initialisation establishes\<close>

text \<open>A connection after initialisation: closed, with an empty queue and its own port.\<close>

definition conn_fresh :: "nat \<Rightarrow> csp_conn \<Rightarrow> bool" where
  "conn_fresh i k \<longleftrightarrow> conn_state k = CONN_CLOSED \<and> rdp_state (rdp k) = RDP_CLOSED \<and> sport_outgoing k = of_nat (CSP_PORT_MAX_BIND + 1 + i)
     \<and> queue_ok (conn_rx_queue k) \<and> q_size (conn_rx_queue k) = CSP_CONN_RXQUEUE_LEN \<and> queue_list (conn_rx_queue k) = []"

lemma conn_init_step: "\<exists>b. csp_conn_init_step n s = s\<lparr>arr_conn := (arr_conn s)(n := b)\<rparr> \<and> conn_fresh n b"
  by (rule exI [of _ "arr_conn (csp_conn_init_step n s) n"])
    (simp add: csp_conn_init_step_def csp_rdp_init_def upd_rdp_def upd_conn_def conn_fresh_def)

lemma conn_init_prefix:
  "\<exists>a. fold csp_conn_init_step [0..<n] s = s\<lparr>arr_conn := a\<rparr> \<and> (\<forall>i<n. conn_fresh i (a i))"
proof (induction n)
  case 0
  then show ?case by (intro exI [of _ "arr_conn s"]) simp
next
  case (Suc n)
  then obtain a where a: "fold csp_conn_init_step [0..<n] s = s\<lparr>arr_conn := a\<rparr>" "\<forall>i<n. conn_fresh i (a i)" by blast
  obtain b where b: "csp_conn_init_step n (s\<lparr>arr_conn := a\<rparr>) = s\<lparr>arr_conn := a(n := b)\<rparr>" "conn_fresh n b"
    using conn_init_step [of n "s\<lparr>arr_conn := a\<rparr>"] by auto
  have "fold csp_conn_init_step [0..<Suc n] s = s\<lparr>arr_conn := a(n := b)\<rparr>" using a(1) b(1) by simp
  moreover have "\<forall>i<Suc n. conn_fresh i ((a(n := b)) i)" using a(2) b(2) by (simp add: less_Suc_eq)
  ultimately show ?case by blast
qed

lemma conn_init:
  obtains a where "csp_conn_init s = s\<lparr>arr_conn := a\<rparr>" "\<And>i. i < CSP_CONN_MAX \<Longrightarrow> conn_fresh i (a i)"
  using conn_init_prefix [of CSP_CONN_MAX s] unfolding csp_conn_init_def by blast

lemma buffer_init_conf: "csp_conf (csp_buffer_init k) = csp_conf k"
proof -
  have "csp_conf (fold csp_buffer_init_step is k) = csp_conf k" for "is" k
    by (induction "is" arbitrary: k) (simp_all add: csp_buffer_init_step_def upd_skbf_def)
  then show ?thesis by (simp add: csp_buffer_init_def)
qed

lemma valid_conf_range: "version (valid_conf conf) \<in> {1, 2}" "dedup (valid_conf conf) \<le> CSP_DEDUP_ALL"
proof -
  have "v \<in> {1, 2}" if "\<not> (v = 0 \<or> v > 2)" for v :: u8
  proof -
    have "unat v \<le> 2" "unat v \<noteq> 0" using that by (simp_all add: word_le_nat_alt not_less unat_eq_0)
    then have "unat v = 1 \<or> unat v = 2" by linarith
    then show ?thesis by (auto simp: word_unat_eq_iff)
  qed
  then show "version (valid_conf conf) \<in> {1, 2}" by (simp add: valid_conf_def Let_def)
  show "dedup (valid_conf conf) \<le> CSP_DEDUP_ALL" by (simp add: valid_conf_def Let_def not_less)
qed

text \<open>The parts of the state after initialisation.\<close>

lemma init_fields:
  shows "core (csp_init s) = csp_buffer_init ((core s)\<lparr>csp_conf := valid_conf (csp_conf (core s))\<rparr>)"
    "i < CSP_CONN_MAX \<Longrightarrow> conn_fresh i (arr_conn (csp_init s) i)"
    "qfifo_queue (csp_init s) = csp_queue_create_static CSP_QFIFO_LEN (q_buffer (qfifo_queue s))"
    "rdp_tx_queue (csp_init s) = csp_queue_create_static 10 (q_buffer (rdp_tx_queue s))"
    "rdp_rx_queue (csp_init s) = csp_queue_create_static 10 (q_buffer (rdp_rx_queue s))"
    "sockets (csp_init s) = sockets s" "csp_promisc_queue (csp_init s) = csp_promisc_queue s" "drv (csp_init s) = drv s"
    "ports (csp_init s) = ports s"
    "iflist (csp_init s) = csp_iflist_add (Some csp_if_lo) ((iflist s)\<lparr>ifaces := (ifaces (iflist s))
       (csp_if_lo := (ifaces (iflist s) csp_if_lo)\<lparr>if_netmask := of_nat (csp_id_get_host_bits (ver (csp_init s)))\<rparr>)\<rparr>)"
proof -
  let ?s = "on_core (\<lambda>k. csp_buffer_init (k\<lparr>csp_conf := valid_conf (csp_conf k)\<rparr>)) s"
  obtain a where a: "csp_conn_init ?s = ?s\<lparr>arr_conn := a\<rparr>" "\<And>i. i < CSP_CONN_MAX \<Longrightarrow> conn_fresh i (a i)"
    using conn_init [of ?s] by blast
  note defs = csp_init_def Let_def a(1) [unfolded on_core_def] on_core_def csp_rdp_queue_init_def csp_qfifo_init_def upd_iface_def
  show "core (csp_init s) = csp_buffer_init ((core s)\<lparr>csp_conf := valid_conf (csp_conf (core s))\<rparr>)"
    "qfifo_queue (csp_init s) = csp_queue_create_static CSP_QFIFO_LEN (q_buffer (qfifo_queue s))"
    "rdp_tx_queue (csp_init s) = csp_queue_create_static 10 (q_buffer (rdp_tx_queue s))"
    "rdp_rx_queue (csp_init s) = csp_queue_create_static 10 (q_buffer (rdp_rx_queue s))"
    "sockets (csp_init s) = sockets s" "csp_promisc_queue (csp_init s) = csp_promisc_queue s" "drv (csp_init s) = drv s"
    "ports (csp_init s) = ports s"
    "iflist (csp_init s) = csp_iflist_add (Some csp_if_lo) ((iflist s)\<lparr>ifaces := (ifaces (iflist s))
       (csp_if_lo := (ifaces (iflist s) csp_if_lo)\<lparr>if_netmask := of_nat (csp_id_get_host_bits (ver (csp_init s)))\<rparr>)\<rparr>)"
    by (simp_all add: defs)
  show "i < CSP_CONN_MAX \<Longrightarrow> conn_fresh i (arr_conn (csp_init s) i)" using a(2) by (simp add: defs)
qed

lemma init_own:
  assumes "\<And>i. sock_rx_queue (sockets s i) = None" "csp_promisc_queue s = None" "\<And>p. dh (drv s) p = 0"
  shows "own dh (\<lambda>_. 0) (csp_init s)"
proof -
  have fresh: "queue_ok (conn_rx_queue (arr_conn (csp_init s) c)) \<and> q_size (conn_rx_queue (arr_conn (csp_init s) c)) = CSP_CONN_RXQUEUE_LEN
      \<and> queue_list (conn_rx_queue (arr_conn (csp_init s) c)) = []" if "c < CSP_CONN_MAX" for c
    using init_fields(2) [OF that, of s] by (simp add: conn_fresh_def)
  have "queues_ok (csp_init s)" using fresh assms by (simp add: queues_ok_def init_fields(3-9))
  moreover have "held dh (csp_init s) p = 0" for p
    using fresh assms by (simp add: held_def init_fields(3-9) qheld_def oheld_def)
  moreover have "buf_refs (core (csp_init s)) p = 0" for p
    by (cases "p < CSP_BUFFER_COUNT") (simp_all add: init_fields(1) buf_refs_def csp_buffer_init_free)
  ultimately show ?thesis by (simp add: own_def init_fields(1) csp_buffer_init_inv)
qed

section \<open>Properties\<close>

text \<open>C23. Initialisation makes a well-formed node: on the zeroed memory a program starts with,
  \<open>csp_init\<close> accepts every configuration and leaves one of version 1 or 2 with a valid
  duplicate mode, all buffers free, no reference to any of them anywhere, every
  connection closed with its own source port, and the loopback as the first interface.\<close>

theorem csp_init_establishes:
  assumes "\<And>i. sock_rx_queue (sockets s i) = None" and "csp_promisc_queue s = None" and "\<And>p. dh (drv s) p = 0"
    and lo: "interfaces (iflist s) = None" "if_name (ifaces (iflist s) csp_if_lo) \<noteq> None"
  shows "own dh (\<lambda>_. 0) (csp_init s) \<and> free_list (core (csp_init s)) = [0..<CSP_BUFFER_COUNT]
    \<and> version (csp_get_conf (csp_init s)) \<in> {1, 2} \<and> dedup (csp_get_conf (csp_init s)) \<le> CSP_DEDUP_ALL
    \<and> (\<forall>c<CSP_CONN_MAX. conn_fresh c (arr_conn (csp_init s) c)) \<and> iflist_is (iflist (csp_init s)) [csp_if_lo]"
proof -
  have "iflist_is (iflist (csp_init s)) [csp_if_lo]"
    using lo by (simp add: init_fields(10) csp_iflist_add_def Let_def iflist_is_def)
  then show ?thesis
    using init_own [of s dh, OF assms(1-3)] init_fields(2) [of _ s] valid_conf_range
    by (simp add: csp_get_conf_def init_fields(1) buffer_init_conf csp_buffer_init_free)
qed

text \<open>The example node with nothing in its list of interfaces.\<close>

definition blank_node :: "unit csp_state" where
  "blank_node = example_node\<lparr>iflist := (iflist example_node)\<lparr>interfaces := None\<rparr>\<rparr>"

theorem csp_init_establishes_witness:
  "own no_driver (\<lambda>_. 0) (csp_init blank_node) \<and> iflist_is (iflist (csp_init blank_node)) [csp_if_lo]"
  using csp_init_establishes [of blank_node no_driver]
  by (simp add: blank_node_def example_node_def example_iflist_def blank_iface_def)

text \<open>C24. The bridge: one call takes the oldest packet from the router queue, drops it if it is a
  duplicate and otherwise sends it unchanged on the other of the two interfaces; the packet
  is given up exactly once, also when the transmission fails, and without both interfaces
  set nothing happens.\<close>

theorem csp_bridge_work_spec:
  assumes nh: "nexthop_contract nh dh" and own: "own dh f s"
  shows "own dh f (csp_bridge_work nh s)
    \<and> (bif_a s = None \<or> bif_b s = None \<longrightarrow> csp_bridge_work nh s = s)
    \<and> (\<forall>a b x xs p s1 s2 dup. bif_a s = Some a \<and> bif_b s = Some b \<and> queue_list (qfifo_queue s) = x # xs \<and> qf_packet x = Some p
         \<and> s1 = snd (snd (csp_qfifo_read s)) \<and> dedup_check p s1 = (dup, s2) \<longrightarrow>
         csp_bridge_work nh s = (if dup then free_pkt p s2
           else csp_send_direct_iface nh (pkt_id (pkt (csp_promisc_add p s2) p)) p
             (if qf_iface x = Some a then b else a) CSP_NO_VIA_ADDRESS False (csp_promisc_add p s2)))"
proof -
  obtain e x s1 where rd: "csp_qfifo_read s = (e, x, s1)" by (metis prod_cases3)
  note one = own_qfifo_read [OF own rd]
  have fst_item: "x = Some y" if "queue_list (qfifo_queue s) = y # ys" for y ys
    using rd that qheld_dequeue [OF queues_okD(1) [OF own_queues [OF own]]]
    by (fastforce simp: csp_qfifo_read_def Let_def split: prod.splits option.splits)
  have pk: "own dh f (free_pkt p s2)"
    "own dh f (csp_send_direct_iface nh (pkt_id (pkt (csp_promisc_add p s2) p)) p i CSP_NO_VIA_ADDRESS False (csp_promisc_add p s2))"
    if "own dh (tok p f) s1" "dedup_check p s1 = (d, s2)" for p d s2 i
  proof -
    have two: "own dh (tok p f) s2" using that dedup_check_effect(1) by blast
    from own_promisc_add [OF two] have "own dh (tok p f) (csp_promisc_add p s2)" .
    from nexthop_contract.send_iface_contract [OF nh this] own_free [OF two] show "own dh f (free_pkt p s2)"
      "own dh f (csp_send_direct_iface nh (pkt_id (pkt (csp_promisc_add p s2) p)) p i CSP_NO_VIA_ADDRESS False (csp_promisc_add p s2))"
      by auto
  qed
  have "own dh f (csp_bridge_work nh s)"
    unfolding csp_bridge_work_def rd using own one
    by (auto simp: Let_def intro: pk split: option.splits prod.splits)
  moreover have "bif_a s = None \<or> bif_b s = None \<longrightarrow> csp_bridge_work nh s = s"
    by (auto simp: csp_bridge_work_def split: option.splits)
  ultimately show ?thesis
    using fst_item rd by (auto simp: csp_bridge_work_def Let_def)
qed

text \<open>The example node with a bridge between its two interfaces and a packet from the second one.\<close>

definition bridge_example :: "unit csp_state" where
  "bridge_example = csp_bridge_set_interfaces (Some 0) (Some 1) (csp_qfifo_write (Some 0) (Some 1) False example_sender)"

theorem csp_bridge_work_spec_witness:
  "own no_driver (\<lambda>_. 0) (csp_bridge_work (\<lambda>_. csp_lo_tx) bridge_example)"
proof -
  have "own no_driver (\<lambda>_. 0) (csp_qfifo_write (Some 0) (Some 1) False example_sender)"
    using own_qfifo_write [of no_driver "Some 0" "\<lambda>_. 0" example_sender] example_sender_own by simp
  then have "own no_driver (\<lambda>_. 0) bridge_example"
    using own_frame(15,16) by (simp add: bridge_example_def csp_bridge_set_interfaces_def own_def held_def queues_ok_def)
  from csp_bridge_work_spec [OF lo_tx.nexthop_contract_axioms this] show ?thesis by blast
qed

end
