(* ===== verification/CSP_Secure.thy ===== *)
theory CSP_Secure
  imports CSP_Route
begin

text \<open>
  Integrity and authentication from one node to another: what the sender appends in
  \<open>send_from_me\<close> and what the router of the receiver checks and removes in
  \<open>csp_route_security_check\<close>.
\<close>

text \<open>Taking a tag of four bytes off a payload.\<close>

lemma payload_shorter:
  assumes "payload t q = body @ tag" "length tag = 4"
  shows "payload (upd_packet q (\<lambda>k. k\<lparr>pkt_length := pkt_length k - 4\<rparr>) t) q = body"
proof -
  have len: "unat (pkt_length (packet t q)) = length body + 4" using assms length_payload [of t q] by simp
  then have "unat (pkt_length (packet t q) - 4) = length body"
    by (subst unat_diff_small) (simp_all add: word_le_nat_alt)
  then have "payload (upd_packet q (\<lambda>k. k\<lparr>pkt_length := pkt_length k - 4\<rparr>) t) q = take (length body) (payload t q)"
    using len by (simp add: payload_def data_bytes_def)
  with assms show ?thesis by simp
qed

lemma crc_verify_accepts:
  assumes pay: "payload t q = body @ be_bytes 4 (csp_crc32_memory body)" and len: "length (payload t q) \<le> CSP_BUFFER_SIZE"
  obtains t' where "csp_crc32_verify q t = (CSP_ERR_NONE, t')" "payload t' q = body" "pkt_id (packet t' q) = pkt_id (packet t q)"
proof -
  have n: "unat (pkt_length (packet t q)) = length body + 4" using pay length_payload [of t q] by simp
  have bound: "unat (pkt_length (packet t q)) + hdr_size t < 2 ^ 16"
    using len length_payload [of t q] hdr_size_cases [of t] by auto
  have acc: "crc_accepts t q" using pay n by (simp add: crc_accepts_def Let_def)
  have pre: "payload (csp_id_prepend q t) q = body @ be_bytes 4 (csp_crc32_memory body)" using pay by simp
  show thesis
    by (rule that [of "upd_packet q (\<lambda>k. k\<lparr>pkt_length := pkt_length k - 4\<rparr>) (csp_id_prepend q t)"])
      (use csp_crc32_verify_cases [OF bound] n acc payload_shorter [OF pre] in auto)
qed

lemma hmac_verify_accepts:
  assumes pay: "payload t q = body @ take 4 (hmac_bytes key body)"
  obtains t' where "csp_hmac_verify key q False t = (CSP_ERR_NONE, t')" "payload t' q = body" "pkt_id (packet t' q) = pkt_id (packet t q)"
proof -
  have n: "unat (pkt_length (packet t q)) = length body + 4" using pay length_payload [of t q] by simp
  show thesis
    by (rule that [of "upd_packet q (\<lambda>k. k\<lparr>pkt_length := pkt_length k - 4\<rparr>) t"])
      (use n pay payload_shorter [OF pay] in \<open>auto simp: csp_hmac_verify_False Let_def\<close>)
qed

text \<open>What the sender appends to a payload, for the flags of the packet.\<close>

definition hmac_tagged :: "u8 \<Rightarrow> u8 list \<Rightarrow> u8 list \<Rightarrow> u8 list" where
  "hmac_tagged fl key body = (if fl AND CSP_FHMAC \<noteq> 0 then body @ take 4 (hmac_bytes key body) else body)"

definition crc_tagged :: "u8 \<Rightarrow> u8 list \<Rightarrow> u8 list" where
  "crc_tagged fl body = (if fl AND CSP_FCRC32 \<noteq> 0 then body @ be_bytes 4 (csp_crc32_memory body) else body)"

lemma hmac_append_payload:
  assumes "csp_hmac_append key p False s = (CSP_ERR_NONE, s')"
  shows "payload s' p = payload s p @ take 4 (hmac_bytes key (payload s p))" "length (payload s' p) \<le> CSP_BUFFER_SIZE"
proof -
  have room: "unat (pkt_length (packet s p)) + 4 \<le> CSP_BUFFER_SIZE"
    using assms by (auto simp: csp_hmac_append_def split: if_splits)
  show "payload s' p = payload s p @ take 4 (hmac_bytes key (payload s p))"
    using assms room payload_extended [of s p "take 4 (hmac_bytes key (payload s p))"] by (simp add: csp_hmac_append_ok)
  then show "length (payload s' p) \<le> CSP_BUFFER_SIZE" using room by (simp add: length_payload [of s])
qed

lemma crc_append_payload:
  assumes "csp_crc32_append p s = (CSP_ERR_NONE, s')"
  shows "payload s' p = payload s p @ be_bytes 4 (csp_crc32_memory (payload s p))" "length (payload s' p) \<le> CSP_BUFFER_SIZE"
proof -
  have room: "unat (pkt_length (packet s p)) + 4 \<le> CSP_BUFFER_SIZE"
    using assms by (auto simp: csp_crc32_append_def split: if_splits)
  show "payload s' p = payload s p @ be_bytes 4 (csp_crc32_memory (payload s p))"
    using assms payload_append_crc [OF room] by simp
  then show "length (payload s' p) \<le> CSP_BUFFER_SIZE" using room by (simp add: length_payload [of s])
qed

lemma send_from_me_payload:
  assumes own: "own dh (tok p f) s" and run: "send_from_me ido p i s = (True, s')"
  shows "payload (core s') p = crc_tagged (id_flags ido) (hmac_tagged (id_flags ido) (hmac_key s) (payload (core s) p))"
    "id_flags ido AND CSP_FCRC32 \<noteq> 0 \<Longrightarrow> length (payload (core s') p) \<le> CSP_BUFFER_SIZE"
proof -
  let ?fl = "id_flags ido"
  obtain r1 s1 where one: "(if ?fl AND CSP_FHMAC \<noteq> 0 then in_core (csp_hmac_append (hmac_key s) p False) s else (CSP_ERR_NONE, s)) = (r1, s1)" by fastforce
  obtain r2 s2 where two: "(if ?fl AND CSP_FCRC32 \<noteq> 0 then in_core (csp_crc32_append p) s1 else (CSP_ERR_NONE, s1)) = (r2, s2)" by fastforce
  have r: "r1 = CSP_ERR_NONE" "r2 = CSP_ERR_NONE" "s' = (if i \<noteq> csp_if_lo then csp_promisc_add p s2 else s2)"
    using run one two unfolding send_from_me_def by (auto split: if_splits)
  have p1: "payload (core s1) p = hmac_tagged ?fl (hmac_key s) (payload (core s) p)"
    using one r(1) hmac_append_payload(1) [of "hmac_key s" p "core s"]
    by (auto simp: hmac_tagged_def in_core_def prod_eq_iff split: if_splits)
  have p2: "payload (core s2) p = crc_tagged ?fl (payload (core s1) p)"
    using two r(2) crc_append_payload(1) [of p "core s1"] by (auto simp: crc_tagged_def in_core_def prod_eq_iff split: if_splits)
  have l2: "?fl AND CSP_FCRC32 \<noteq> 0 \<Longrightarrow> length (payload (core s2) p) \<le> CSP_BUFFER_SIZE"
    using two r(2) crc_append_payload(2) [of p "core s1"] by (auto simp: in_core_def prod_eq_iff split: if_splits)
  have own2: "own dh (tok p f) s2"
  proof -
    have "own dh (tok p f) s1" using one own hmac_append_frames(1) [of "hmac_key s" p s r1 s1] by (auto split: if_splits)
    then show ?thesis using two crc32_append_frames(1) [of p s1 r2 s2] by (auto split: if_splits)
  qed
  have "pkt (csp_promisc_add p s2) p = pkt s2 p"
    using promisc_add_frames(2) [OF own2, of p] own2 by (auto simp: pkts_kept_def own_def tok_apply)
  then have "payload (core s') p = payload (core s2) p" using r(3) by (simp add: payload_def data_bytes_def)
  with p1 p2 l2 show "payload (core s') p = crc_tagged ?fl (hmac_tagged ?fl (hmac_key s) (payload (core s) p))"
    "?fl AND CSP_FCRC32 \<noteq> 0 \<Longrightarrow> length (payload (core s') p) \<le> CSP_BUFFER_SIZE" by simp_all
qed

lemma security_crc32_accepts:
  assumes pay: "payload (core t) q = crc_tagged (id_flags (pkt_id (pkt t q))) body"
    and len: "id_flags (pkt_id (pkt t q)) AND CSP_FCRC32 \<noteq> 0 \<Longrightarrow> length (payload (core t) q) \<le> CSP_BUFFER_SIZE"
    and req: "opts AND CSP_SO_CRC32REQ \<noteq> 0 \<Longrightarrow> id_flags (pkt_id (pkt t q)) AND CSP_FCRC32 \<noteq> 0"
  obtains t' where "security_crc32 opts i q t = (CSP_ERR_NONE, t')" "payload (core t') q = body" "pkt_id (pkt t' q) = pkt_id (pkt t q)"
    "hmac_key t' = hmac_key t"
proof (cases "id_flags (pkt_id (pkt t q)) AND CSP_FCRC32 \<noteq> 0")
  case True
  with pay have "payload (core t) q = body @ be_bytes 4 (csp_crc32_memory body)" by (simp add: crc_tagged_def)
  from crc_verify_accepts [OF this len [OF True]] obtain k where k: "csp_crc32_verify q (core t) = (CSP_ERR_NONE, k)"
      "payload k q = body" "pkt_id (packet k q) = pkt_id (packet (core t) q)" by metis
  show thesis
    by (rule that [of "t\<lparr>core := k\<rparr>"]) (use k True in \<open>simp_all add: security_crc32_def in_core_def\<close>)
next
  case False
  with pay req show thesis by (intro that [of t]) (auto simp: security_crc32_def crc_tagged_def)
qed

lemma security_hmac_accepts:
  assumes pay: "payload (core t) q = hmac_tagged (id_flags (pkt_id (pkt t q))) (hmac_key t) body"
    and req: "opts AND CSP_SO_HMACREQ \<noteq> 0 \<Longrightarrow> id_flags (pkt_id (pkt t q)) AND CSP_FHMAC \<noteq> 0"
  obtains t' where "security_hmac opts i q t = (CSP_ERR_NONE, t')" "payload (core t') q = body" "pkt_id (pkt t' q) = pkt_id (pkt t q)"
proof (cases "id_flags (pkt_id (pkt t q)) AND CSP_FHMAC \<noteq> 0")
  case True
  with pay have "payload (core t) q = body @ take 4 (hmac_bytes (hmac_key t) body)" by (simp add: hmac_tagged_def)
  from hmac_verify_accepts [OF this] obtain k where k: "csp_hmac_verify (hmac_key t) q False (core t) = (CSP_ERR_NONE, k)"
      "payload k q = body" "pkt_id (packet k q) = pkt_id (packet (core t) q)" by metis
  show thesis
    by (rule that [of "t\<lparr>core := k\<rparr>"]) (use k True in \<open>simp_all add: security_hmac_def in_core_def\<close>)
next
  case False
  with pay req show thesis by (intro that [of t]) (auto simp: security_hmac_def hmac_tagged_def)
qed

lemma security_check_received:
  assumes own: "own dh (tok p f) s" and sent: "send_from_me ido p i s = (True, s')"
    and recv: "payload (core t) q = payload (core s') p" and fl: "id_flags (pkt_id (pkt t q)) = id_flags ido"
    and key: "hmac_key t = hmac_key s"
  shows "if (opts AND CSP_SO_CRC32REQ \<noteq> 0 \<longrightarrow> id_flags ido AND CSP_FCRC32 \<noteq> 0) \<and> (opts AND CSP_SO_HMACREQ \<noteq> 0 \<longrightarrow> id_flags ido AND CSP_FHMAC \<noteq> 0)
         \<and> (opts AND CSP_SO_RDPREQ \<noteq> 0 \<longrightarrow> id_flags ido AND CSP_FRDP \<noteq> 0)
       then \<exists>t'. csp_route_security_check opts j q t = (CSP_ERR_NONE, t') \<and> payload (core t') q = payload (core s) p
       else fst (csp_route_security_check opts j q t) \<noteq> CSP_ERR_NONE"
proof -
  let ?fl = "id_flags ido" and ?body = "hmac_tagged (id_flags ido) (hmac_key s) (payload (core s) p)"
  note snd_ok = send_from_me_payload [OF own sent]
  have pay: "payload (core t) q = crc_tagged (id_flags (pkt_id (pkt t q))) ?body" using snd_ok(1) recv fl by simp
  show ?thesis
  proof (cases "opts AND CSP_SO_CRC32REQ \<noteq> 0 \<longrightarrow> ?fl AND CSP_FCRC32 \<noteq> 0")
    case False
    then show ?thesis by (simp add: fl csp_route_security_check_def security_crc32_def)
  next
    case crc: True
    obtain t1 where t1: "security_crc32 opts j q t = (CSP_ERR_NONE, t1)" "payload (core t1) q = ?body"
        "pkt_id (pkt t1 q) = pkt_id (pkt t q)" "hmac_key t1 = hmac_key t"
      using security_crc32_accepts [OF pay, of opts j] snd_ok(2) recv fl crc by metis
    show ?thesis
    proof (cases "opts AND CSP_SO_HMACREQ \<noteq> 0 \<longrightarrow> ?fl AND CSP_FHMAC \<noteq> 0")
      case False
      then show ?thesis using t1 fl by (simp add: csp_route_security_check_def security_hmac_def)
    next
      case True
      obtain t2 where t2: "security_hmac opts j q t1 = (CSP_ERR_NONE, t2)" "payload (core t2) q = payload (core s) p"
          "pkt_id (pkt t2 q) = pkt_id (pkt t1 q)"
        using security_hmac_accepts [of t1 q "payload (core s) p" opts j] t1 fl key True by metis
      from t1 t2 fl crc True show ?thesis by (simp add: csp_route_security_check_def)
    qed
  qed
qed

section \<open>Properties\<close>

text \<open>C21. Integrity and authentication end to end: what a node appends to a packet for its flags
  (HMAC, then CRC32) is accepted by the router of every node with the same key that gets
  the payload unchanged, for all security options the flags satisfy, and the receiver is
  left with exactly the payload the sender had. A packet that lacks a protection the
  options require is refused.\<close>

theorem csp_secure_transfer:
  assumes own: "own dh (tok p f) s" and sent: "send_from_me ido p i s = (True, s')"
    and recv: "payload (core t) q = payload (core s') p" and fl: "id_flags (pkt_id (pkt t q)) = id_flags ido"
    and key: "hmac_key t = hmac_key s"
  shows "if (opts AND CSP_SO_CRC32REQ \<noteq> 0 \<longrightarrow> id_flags ido AND CSP_FCRC32 \<noteq> 0) \<and> (opts AND CSP_SO_HMACREQ \<noteq> 0 \<longrightarrow> id_flags ido AND CSP_FHMAC \<noteq> 0)
         \<and> (opts AND CSP_SO_RDPREQ \<noteq> 0 \<longrightarrow> id_flags ido AND CSP_FRDP \<noteq> 0)
       then \<exists>t'. csp_route_security_check opts j q t = (CSP_ERR_NONE, t') \<and> payload (core t') q = payload (core s) p
       else fst (csp_route_security_check opts j q t) \<noteq> CSP_ERR_NONE"
  by (rule security_check_received [OF own sent recv fl key])

text \<open>A packet with both protections.\<close>

definition secured_sender :: "unit csp_state" where
  "secured_sender = upd_pkt 0 (\<lambda>k. k\<lparr>pkt_id := example_id\<lparr>id_flags := CSP_FHMAC OR CSP_FCRC32\<rparr>\<rparr>) example_sender"

lemma secured_sender_sends:
  "\<exists>s'. send_from_me (example_id\<lparr>id_flags := CSP_FHMAC OR CSP_FCRC32\<rparr>) 0 csp_if_lo secured_sender = (True, s')
     \<and> pkt_id (pkt s' 0) = example_id\<lparr>id_flags := CSP_FHMAC OR CSP_FCRC32\<rparr> \<and> hmac_key s' = hmac_key secured_sender"
proof -
  let ?k = "core secured_sender"
  have k: "pkt_length (packet ?k 0) = 0" "pkt_id (packet ?k 0) = example_id\<lparr>id_flags := CSP_FHMAC OR CSP_FCRC32\<rparr>"
    by (simp_all add: secured_sender_def upd_pkt_def on_core_def example_sender_pkt fresh_packet_def zero_packet_def)
  obtain c1 where c1: "csp_hmac_append (hmac_key secured_sender) 0 False ?k = (0, c1)" "pkt_length (packet c1 0) = 4"
      "pkt_id (packet c1 0) = pkt_id (packet ?k 0)"
    using k(1) by (simp add: csp_hmac_append_ok)
  obtain c2 where c2: "csp_crc32_append 0 c1 = (0, c2)" "pkt_id (packet c2 0) = pkt_id (packet c1 0)"
    using c1(2) by (simp add: csp_crc32_append_ok)
  show ?thesis using c1 c2 k(2) by (simp add: send_from_me_def in_core_def)
qed

theorem csp_secure_transfer_witness:
  "\<exists>s' t'. send_from_me (example_id\<lparr>id_flags := CSP_FHMAC OR CSP_FCRC32\<rparr>) 0 csp_if_lo secured_sender = (True, s')
     \<and> csp_route_security_check (CSP_SO_HMACREQ OR CSP_SO_CRC32REQ) 1 0 s' = (CSP_ERR_NONE, t')
     \<and> payload (core t') 0 = payload (core secured_sender) 0"
proof -
  obtain s' where s': "send_from_me (example_id\<lparr>id_flags := CSP_FHMAC OR CSP_FCRC32\<rparr>) 0 csp_if_lo secured_sender = (True, s')"
      "pkt_id (pkt s' 0) = example_id\<lparr>id_flags := CSP_FHMAC OR CSP_FCRC32\<rparr>" "hmac_key s' = hmac_key secured_sender"
    using secured_sender_sends by blast
  have own: "own no_driver (tok 0 (\<lambda>_. 0)) secured_sender" using example_sender_own by (simp add: secured_sender_def)
  from csp_secure_transfer [OF own s'(1) refl _ s'(3), of "CSP_SO_HMACREQ OR CSP_SO_CRC32REQ" 1] s' show ?thesis by auto
qed

end
