(* ===== verification/CSP_Drivers.thy ===== *)
theory CSP_Drivers
  imports CSP_Send_Plan
begin

text \<open>
  The state the interfaces keep between calls (\<^verbatim>\<open>interface_data\<close> of \<^verbatim>\<open>csp_iface_t\<close>) as the
  driver component of a node, and the accounting of the packets that are being received.
  A driver's transmit function is named by a number; what the functions do to the hardware
  \<open>'e\<close> is a parameter of the interfaces.
\<close>

section \<open>Interface data\<close>

datatype csp_kiss_mode = KISS_MODE_NOT_STARTED | KISS_MODE_STARTED | KISS_MODE_ESCAPED | KISS_MODE_SKIP_FRAME

record csp_kiss_interface_data =
  kiss_tx_func :: "nat option"
  rx_mode :: csp_kiss_mode
  rx_length :: u32
  rx_first :: bool
  rx_packet :: "addr option"

text \<open>The packets being received from a CAN bus are linked through their member \<^verbatim>\<open>next\<close>.\<close>

record csp_can_interface_data =
  cfp_packet_counter :: u32
  can_tx_func :: "nat option"
  pbufs :: "addr option"

record csp_i2c_interface_data =
  i2c_tx_func :: "nat option"

text \<open>
  The Ethernet interface: \<^verbatim>\<open>tx_buf\<close> is the memory of the frame to send. The table of
  Ethernet addresses and the packet counter are static variables of \<^verbatim>\<open>csp_if_eth.c\<close>.
\<close>

record csp_eth_interface_data =
  eth_promisc :: bool
  tx_mtu :: u16
  eth_tx_func :: "nat option"
  tx_buf :: mem
  eth_pbufs :: "addr option"
  if_mac :: "u8 list"

record arp_list_entry =
  arp_csp_addr :: u16
  arp_mac_addr :: "u8 list"
  arp_next :: "nat option"

record csp_eth_static =
  arp_array :: "nat \<Rightarrow> arp_list_entry"
  arp_used :: nat
  arp_list :: "nat option"
  eth_packet_id :: u16

text \<open>Of the UDP interface the socket and the ports of this node and of the peer.\<close>

record csp_if_tun_conf =
  tun_src :: int
  tun_dst :: int

record csp_if_udp_conf =
  udp_lport :: int
  udp_rport :: int
  udp_peer_port :: u16
  udp_sockfd :: int

text \<open>The objects have addresses below \<open>IF_MAX\<close>, like the interfaces.\<close>

record 'e csp_drivers =
  kiss_data :: "addr \<Rightarrow> csp_kiss_interface_data"
  can_data :: "addr \<Rightarrow> csp_can_interface_data"
  i2c_data :: "addr \<Rightarrow> csp_i2c_interface_data"
  eth_data :: "addr \<Rightarrow> csp_eth_interface_data"
  eth_static :: csp_eth_static
  tun_data :: "addr \<Rightarrow> csp_if_tun_conf"
  udp_data :: "addr \<Rightarrow> csp_if_udp_conf"
  hw :: 'e

type_synonym 'e node = "'e csp_drivers csp_state"

abbreviation kiss :: "'e node \<Rightarrow> addr \<Rightarrow> csp_kiss_interface_data" where
  "kiss s d \<equiv> kiss_data (drv s) d"

abbreviation can :: "'e node \<Rightarrow> addr \<Rightarrow> csp_can_interface_data" where
  "can s d \<equiv> can_data (drv s) d"

abbreviation eth :: "'e node \<Rightarrow> addr \<Rightarrow> csp_eth_interface_data" where
  "eth s d \<equiv> eth_data (drv s) d"

abbreviation iface :: "'d csp_state \<Rightarrow> addr \<Rightarrow> csp_iface" where
  "iface s i \<equiv> ifaces (iflist s) i"

definition upd_kiss :: "addr \<Rightarrow> (csp_kiss_interface_data \<Rightarrow> csp_kiss_interface_data) \<Rightarrow> 'e node \<Rightarrow> 'e node" where
  "upd_kiss d g s = s\<lparr>drv := (drv s)\<lparr>kiss_data := (kiss_data (drv s))(d := g (kiss s d))\<rparr>\<rparr>"

definition upd_can :: "addr \<Rightarrow> (csp_can_interface_data \<Rightarrow> csp_can_interface_data) \<Rightarrow> 'e node \<Rightarrow> 'e node" where
  "upd_can d g s = s\<lparr>drv := (drv s)\<lparr>can_data := (can_data (drv s))(d := g (can s d))\<rparr>\<rparr>"

definition upd_eth :: "addr \<Rightarrow> (csp_eth_interface_data \<Rightarrow> csp_eth_interface_data) \<Rightarrow> 'e node \<Rightarrow> 'e node" where
  "upd_eth d g s = s\<lparr>drv := (drv s)\<lparr>eth_data := (eth_data (drv s))(d := g (eth s d))\<rparr>\<rparr>"

definition upd_eth_static :: "(csp_eth_static \<Rightarrow> csp_eth_static) \<Rightarrow> 'e node \<Rightarrow> 'e node" where
  "upd_eth_static g s = s\<lparr>drv := (drv s)\<lparr>eth_static := g (eth_static (drv s))\<rparr>\<rparr>"

definition upd_udp :: "addr \<Rightarrow> (csp_if_udp_conf \<Rightarrow> csp_if_udp_conf) \<Rightarrow> 'e node \<Rightarrow> 'e node" where
  "upd_udp d g s = s\<lparr>drv := (drv s)\<lparr>udp_data := (udp_data (drv s))(d := g (udp_data (drv s) d))\<rparr>\<rparr>"

definition upd_hw :: "('e \<Rightarrow> 'e) \<Rightarrow> 'e node \<Rightarrow> 'e node" where
  "upd_hw g s = s\<lparr>drv := (drv s)\<lparr>hw := g (hw (drv s))\<rparr>\<rparr>"

section \<open>Packets in reception\<close>

definition drv_held :: "'e csp_drivers \<Rightarrow> addr \<Rightarrow> nat" where
  "drv_held v p = (\<Sum>d<IF_MAX. if rx_packet (kiss_data v d) = Some p then 1 else 0)"

lemma upd_kiss_simps [simp]:
  "kiss (upd_kiss d g s) e = (if e = d then g (kiss s d) else kiss s e)"
  "core (upd_kiss d g s) = core s" "iflist (upd_kiss d g s) = iflist s" "qfifo_queue (upd_kiss d g s) = qfifo_queue s"
  "hw (drv (upd_kiss d g s)) = hw (drv s)"
  by (simp_all add: upd_kiss_def)

lemma upd_can_simps [simp]:
  "can (upd_can d h s) e = (if e = d then h (can s d) else can s e)" "kiss (upd_can d h s) e = kiss s e"
  "core (upd_can d h s) = core s" "iflist (upd_can d h s) = iflist s" "qfifo_queue (upd_can d h s) = qfifo_queue s"
  "hw (drv (upd_can d h s)) = hw (drv s)" "own drv_held f (upd_can d h s) = own drv_held f s" "tx_frame s (upd_can d h s)"
  by (simp_all add: upd_can_def own_def held_def queues_ok_def drv_held_def)

lemma upd_eth_simps [simp]:
  "eth (upd_eth d h s) e = (if e = d then h (eth s d) else eth s e)" "eth_static (drv (upd_eth d h s)) = eth_static (drv s)"
  "core (upd_eth d h s) = core s" "iflist (upd_eth d h s) = iflist s" "qfifo_queue (upd_eth d h s) = qfifo_queue s"
  "hw (drv (upd_eth d h s)) = hw (drv s)" "own drv_held f (upd_eth d h s) = own drv_held f s" "tx_frame s (upd_eth d h s)"
  by (simp_all add: upd_eth_def own_def held_def queues_ok_def drv_held_def)

lemma upd_eth_static_simps [simp]:
  "eth (upd_eth_static h s) d = eth s d" "eth_static (drv (upd_eth_static h s)) = h (eth_static (drv s))"
  "core (upd_eth_static h s) = core s" "iflist (upd_eth_static h s) = iflist s" "qfifo_queue (upd_eth_static h s) = qfifo_queue s"
  "hw (drv (upd_eth_static h s)) = hw (drv s)" "own drv_held f (upd_eth_static h s) = own drv_held f s" "tx_frame s (upd_eth_static h s)"
  by (simp_all add: upd_eth_static_def own_def held_def queues_ok_def drv_held_def)

lemma upd_udp_simps [simp]:
  "udp_data (drv (upd_udp d h s)) e = (if e = d then h (udp_data (drv s) d) else udp_data (drv s) e)"
  "core (upd_udp d h s) = core s" "iflist (upd_udp d h s) = iflist s" "qfifo_queue (upd_udp d h s) = qfifo_queue s"
  "hw (drv (upd_udp d h s)) = hw (drv s)" "own drv_held f (upd_udp d h s) = own drv_held f s" "tx_frame s (upd_udp d h s)"
  by (simp_all add: upd_udp_def own_def held_def queues_ok_def drv_held_def)

lemma upd_hw_simps [simp]:
  "kiss (upd_hw h s) e = kiss s e" "can (upd_hw h s) e = can s e" "eth (upd_hw h s) e = eth s e" "eth_static (drv (upd_hw h s)) = eth_static (drv s)"
  "tx_frame s (upd_hw h s)" "core (upd_hw h s) = core s" "iflist (upd_hw h s) = iflist s"
  "qfifo_queue (upd_hw h s) = qfifo_queue s" "hw (drv (upd_hw h s)) = h (hw (drv s))"
  "own drv_held f (upd_hw h s) = own drv_held f s"
  by (simp_all add: upd_hw_def own_def held_def queues_ok_def drv_held_def)

lemma upd_kiss_comp: "upd_kiss d g (upd_kiss d h s) = upd_kiss d (\<lambda>k. g (h k)) s"
  by (simp add: upd_kiss_def)

text \<open>A packet moves between the hands of the code that runs and the interface.\<close>

lemma own_upd_kiss:
  assumes own: "own drv_held f s" and d: "d < IF_MAX"
    and move: "\<And>p. f' p + (if rx_packet (g (kiss s d)) = Some p then 1 else 0) = f p + (if rx_packet (kiss s d) = Some p then 1 else 0)"
  shows "own drv_held f' (upd_kiss d g s)"
proof -
  let ?n = "\<lambda>p k. if rx_packet k = Some p then 1 else 0 :: nat"
  have "drv_held (drv (upd_kiss d g s)) p + ?n p (kiss s d) = drv_held (drv s) p + ?n p (g (kiss s d))" for p
    using sum_upd [OF d, of "?n p" "kiss_data (drv s)" "g (kiss s d)"] by (simp add: drv_held_def upd_kiss_def)
  then have sum: "held drv_held (upd_kiss d g s) p + ?n p (kiss s d) = held drv_held s p + ?n p (g (kiss s d))" for p
    by (simp add: held_def) (simp add: upd_kiss_def)
  have "held drv_held (upd_kiss d g s) p + f' p = held drv_held s p + f p" for p
    using move [of p] sum [of p] by linarith
  with own show ?thesis by (simp add: own_def queues_ok_def) (simp add: upd_kiss_def)
qed

lemma own_kiss_same:
  "own drv_held f s \<Longrightarrow> d < IF_MAX \<Longrightarrow> rx_packet (g (kiss s d)) = rx_packet (kiss s d) \<Longrightarrow> own drv_held f (upd_kiss d g s)"
  by (rule own_upd_kiss) simp_all

lemma own_kiss_put:
  "own drv_held (tok p f) s \<Longrightarrow> d < IF_MAX \<Longrightarrow> rx_packet (kiss s d) = None \<Longrightarrow> rx_packet (g (kiss s d)) = Some p \<Longrightarrow>
     own drv_held f (upd_kiss d g s)"
  by (erule own_upd_kiss) (simp_all add: tok_apply)

lemma own_kiss_take:
  "own drv_held f s \<Longrightarrow> d < IF_MAX \<Longrightarrow> rx_packet (kiss s d) = Some p \<Longrightarrow> rx_packet (g (kiss s d)) = None \<Longrightarrow>
     own drv_held (tok p f) (upd_kiss d g s)"
  by (erule own_upd_kiss) (simp_all add: tok_apply)

section \<open>An example\<close>

text \<open>A node with the drivers \<open>v\<close>.\<close>

definition with_drv :: "'d \<Rightarrow> 'c csp_state \<Rightarrow> 'd csp_state" where
  "with_drv v s = \<lparr>core = core s, iflist = iflist s, routes = routes s, dedups = dedups s, hmac_key = hmac_key s,
     csp_promisc_queue = csp_promisc_queue s, csp_promisc_enabled = csp_promisc_enabled s, qfifo_queue = qfifo_queue s, ports = ports s,
     sockets = sockets s, arr_conn = arr_conn s, csp_conn_last_given = csp_conn_last_given s, rdp_tx_queue = rdp_tx_queue s,
     rdp_rx_queue = rdp_rx_queue s, csp_rdp_window_size = csp_rdp_window_size s, csp_rdp_conn_timeout = csp_rdp_conn_timeout s,
     csp_rdp_packet_timeout = csp_rdp_packet_timeout s, csp_rdp_delayed_acks = csp_rdp_delayed_acks s, csp_rdp_ack_timeout = csp_rdp_ack_timeout s,
     csp_rdp_ack_delay_count = csp_rdp_ack_delay_count s, csp_rdp_incr = csp_rdp_incr s, bif_a = bif_a s, bif_b = bif_b s, drv = v\<rparr>"

definition example_wired :: "'e \<Rightarrow> 'e node" where
  "example_wired e = upd_iface 1 (\<lambda>k. k\<lparr>interface_data := Some 0\<rparr>)
     (with_drv \<lparr>kiss_data = (\<lambda>_. \<lparr>kiss_tx_func = Some 0, rx_mode = KISS_MODE_NOT_STARTED, rx_length = 0, rx_first = False, rx_packet = None\<rparr>),
        can_data = (\<lambda>_. \<lparr>cfp_packet_counter = 0, can_tx_func = Some 0, pbufs = None\<rparr>),
        i2c_data = (\<lambda>_. \<lparr>i2c_tx_func = Some 0\<rparr>),
        eth_data = (\<lambda>_. \<lparr>eth_promisc = False, tx_mtu = 60, eth_tx_func = Some 0, tx_buf = (\<lambda>_. 0), eth_pbufs = None, if_mac = [2, 0, 0, 0, 0, 1]\<rparr>),
        eth_static = \<lparr>arp_array = (\<lambda>_. \<lparr>arp_csp_addr = 0, arp_mac_addr = replicate 6 0, arp_next = None\<rparr>), arp_used = 0, arp_list = None, eth_packet_id = 0\<rparr>,
        tun_data = (\<lambda>_. \<lparr>tun_src = 5, tun_dst = 9\<rparr>), udp_data = (\<lambda>_. \<lparr>udp_lport = 9600, udp_rport = 9601, udp_peer_port = 0, udp_sockfd = 3\<rparr>),
        hw = e\<rparr> example_sender)"

lemma example_wired_facts:
  "own drv_held (tok 0 (\<lambda>_. 0)) (example_wired e)" "interface_data (iface (example_wired e) 1) = Some 0"
  "qfifo_queue (example_wired e) = csp_queue_create_static CSP_QFIFO_LEN (\<lambda>_. \<lparr>qf_iface = None, qf_packet = None\<rparr>)"
  "core (example_wired e) = core example_sender" "ver (example_wired e) = 2" "hw (drv (example_wired e)) = e"
  "kiss (example_wired e) d = \<lparr>kiss_tx_func = Some 0, rx_mode = KISS_MODE_NOT_STARTED, rx_length = 0, rx_first = False, rx_packet = None\<rparr>"
  "can (example_wired e) d = \<lparr>cfp_packet_counter = 0, can_tx_func = Some 0, pbufs = None\<rparr>"
  "eth (example_wired e) d = \<lparr>eth_promisc = False, tx_mtu = 60, eth_tx_func = Some 0, tx_buf = (\<lambda>_. 0), eth_pbufs = None, if_mac = [2, 0, 0, 0, 0, 1]\<rparr>"
proof -
  show "own drv_held (tok 0 (\<lambda>_. 0)) (example_wired e)"
    using example_sender_own unfolding example_wired_def own_frame
    by (simp add: own_def with_drv_def held_def queues_ok_def drv_held_def)
  have q: "qfifo_queue example_sender = csp_queue_create_static CSP_QFIFO_LEN (\<lambda>_. \<lparr>qf_iface = None, qf_packet = None\<rparr>)"
    by (subst example_sender_frame(1)) (simp add: example_node_def)
  show "qfifo_queue (example_wired e) = csp_queue_create_static CSP_QFIFO_LEN (\<lambda>_. \<lparr>qf_iface = None, qf_packet = None\<rparr>)"
    by (simp add: example_wired_def with_drv_def upd_iface_def q)
qed (simp_all add: example_wired_def with_drv_def upd_iface_def example_sender_frame(2))

end
