(* ===== verification/CSP_Frames.thy ===== *)
theory CSP_Frames
  imports CSP_Drivers
begin

text \<open>
  What the interfaces share: the frame a packet is sent as, and the packet that is
  recovered from the bytes of a frame by \<open>csp_id_strip\<close> and \<open>csp_crc32_verify\<close>.
\<close>

section \<open>Frames received\<close>

lemma id_strip_received:
  assumes fb: "frame_begin (packet c q) = (q, DATA_OFF - hdr_size c)"
    and bytes: "frame_bytes c q (hdr_size c + length pay) = id_bytes c i @ pay"
    and len: "frame_length (packet c q) = of_nat (hdr_size c + length pay)" "hdr_size c + length pay < 2 ^ 16"
    and fits: "id_fits c i"
  shows "\<exists>c'. csp_id_strip q c = (0, c') \<and> pkt_id (packet c' q) = i \<and> payload c' q = pay
    \<and> pkt_length (packet c' q) = of_nat (length pay)"
proof -
  have fl: "unat (frame_length (packet c q)) = hdr_size c + length pay"
    unfolding len(1) using len(2) by (intro unat_of_nat_small) simp
  have hd: "frame_bytes c q (hdr_size c) = id_bytes c i"
    using arg_cong [OF bytes, of "take (hdr_size c)"] by (simp add: frame_bytes_def split_beta min_def)
  have dt: "mem_read (pkt_mem (packet c q)) DATA_OFF (length pay) = pay"
    using arg_cong [OF bytes, of "drop (hdr_size c)"] fb hdr_size_cases [of c] by (auto simp: frame_bytes_def)
  have pl: "frame_length (packet c q) - of_nat (hdr_size c) = of_nat (length pay)" using len(1) by simp
  have up: "unat (of_nat (length pay) :: u16) = length pay" using len(2) by (simp add: unat_of_nat_small)
  let ?c' = "snd (csp_id_strip q c)"
  have ok: "csp_id_strip q c = (0, ?c')" using fl by (simp add: csp_id_strip_eq)
  have l: "pkt_length (packet ?c' q) = of_nat (length pay)" using fl pl by (simp add: csp_id_strip_eq)
  have "pkt_id (packet ?c' q) = i"
    using fl hd fits id1_bytes_parse [of _ False]
    by (auto simp: csp_id_strip_eq hdr_size_def id_bytes_def id_fits_def id2_bytes_parse)
  moreover have "payload ?c' q = pay" unfolding payload_def l up using dt by (simp add: data_bytes_def csp_id_strip_eq)
  ultimately show ?thesis using ok l by blast
qed

lemma crc32_received:
  assumes pay: "payload c q = body @ be_bytes 4 (csp_crc32_memory body)" and n: "length body + 4 + hdr_size c < 2 ^ 16"
  shows "\<exists>c'. csp_crc32_verify q c = (0, c') \<and> payload c' q = body \<and> pkt_id (packet c' q) = pkt_id (packet c q)
    \<and> pkt_length (packet c' q) = pkt_length (packet c q) - 4"
proof -
  have len: "unat (pkt_length (packet c q)) = length body + 4"
    using arg_cong [OF pay, of length] by (simp add: payload_def data_bytes_def)
  have acc: "crc_accepts c q" using pay len by (simp add: crc_accepts_def Let_def)
  have shorter: "unat (pkt_length (packet c q) - 4) = length body"
    using len by (subst unat_diff_small) (simp_all add: word_le_nat_alt)
  let ?c' = "upd_packet q (\<lambda>k. k\<lparr>pkt_length := pkt_length k - 4\<rparr>) (csp_id_prepend q c)"
  have "payload ?c' q = take (length body) (payload (csp_id_prepend q c) q)"
    using shorter len by (simp add: payload_def data_bytes_def)
  then show ?thesis using pay acc len n csp_crc32_verify_cases [of c q] by simp
qed

section \<open>Frames sent\<close>

lemma frame_sent:
  assumes "unat (pkt_length (packet c p)) + hdr_size c < 2 ^ 16"
  shows "frame_bytes (csp_id_prepend p c) p (unat (frame_length (packet (csp_id_prepend p c) p))) = id_bytes c (pkt_id (packet c p)) @ payload c p"
proof -
  have "unat (of_nat (hdr_size c) :: u16) = hdr_size c" using hdr_size_cases [of c] by auto
  then have "unat (frame_length (packet (csp_id_prepend p c) p)) = hdr_size c + unat (pkt_length (packet c p))"
    using assms by (simp add: unat_add_small)
  then show ?thesis using frame_bytes_prepend [of p c "unat (pkt_length (packet c p))"] by (simp add: payload_def)
qed

section \<open>Buffers of received frames\<close>

lemma setup_rx_effect:
  "in_core (csp_id_setup_rx p) s = (hdr_size (core s), upd_pkt p (\<lambda>k. k\<lparr>frame_begin := (p, DATA_OFF - hdr_size (core s)), frame_length := 0\<rparr>) s)"
  by (simp add: in_core_def csp_id_setup_rx_def csp_id1_setup_rx_def csp_id2_setup_rx_def hdr_size_def upd_pkt_def on_core_def)

lemma hdr_size_frame [simp]:
  "hdr_size (upd_packet p g c) = hdr_size c" "hdr_size (core (upd_pkt p g s)) = hdr_size (core s)"
  "drv (upd_pkt p g s) = drv s" "iflist (upd_pkt p g s) = iflist s" "pkt (upd_pkt p g s) q = (if q = p then g (pkt s p) else pkt s q)"
  "buf_refs (core (upd_pkt p g s)) = buf_refs (core s)"
  by (simp_all add: hdr_size_def upd_pkt_def on_core_def)

lemma get_always_effect:
  assumes own: "own dh f s" and get: "in_core (if isr then csp_buffer_get_always_isr else csp_buffer_get_always) s = (r, s')"
  shows "(case r of None \<Rightarrow> free_list (core s) = [] | Some p \<Rightarrow> own dh (tok p f) s' \<and> buf_refs (core s) p = 0
      \<and> csp_conf (core s') = csp_conf (core s) \<and> csp_ms (core s') = csp_ms (core s) \<and> s' = s\<lparr>core := core s'\<rparr>
      \<and> buf_refs (core s') = (buf_refs (core s))(p := 1) \<and> packet (core s') = (packet (core s))(p := fresh_packet p))"
proof -
  have g: "csp_buffer_get_actual 0 isr (core s) = (r, core s')" and s': "s' = s\<lparr>core := core s'\<rparr>"
    using get by (auto simp: in_core_def csp_buffer_get_always_def csp_buffer_get_always_isr_def split: if_splits)
  have inv: "buf_inv (core s)" using own by (simp add: own_def)
  show ?thesis
  proof (cases "free_list (core s)")
    case Nil
    then have "r = None" using get_actual_fail [OF inv, of 0 isr] g by simp
    with Nil show ?thesis by simp
  next
    case (Cons p ps)
    then obtain t where t: "csp_buffer_get_actual 0 isr (core s) = (Some p, t)" "buf_refs t = (buf_refs (core s))(p := 1)"
        "packet t = (packet (core s))(p := fresh_packet p)" "csp_conf t = csp_conf (core s)" "csp_ms t = csp_ms (core s)"
      using get_actual_succeed [OF inv Cons, of 0 isr] by auto
    have "buf_refs (core s) p = 0" using Cons by (simp add: buf_refs_def)
    moreover have "own dh (tok p f) s'" using own_get_actual [OF own g] t(1) g s' by simp
    ultimately show ?thesis using t g s' by simp
  qed
qed

lemma get_effect:
  assumes own: "own dh f s" and get: "in_core (if isr then csp_buffer_get_isr else csp_buffer_get) s = (r, s')"
  shows "s' = s\<lparr>core := core s'\<rparr>" "csp_conf (core s') = csp_conf (core s)" "csp_ms (core s') = csp_ms (core s)"
    "(case r of None \<Rightarrow> length (free_list (core s)) < 2 \<and> own dh f s' \<and> packet (core s') = packet (core s)
      | Some p \<Rightarrow> own dh (tok p f) s' \<and> buf_refs (core s) p = 0 \<and> packet (core s') = (packet (core s))(p := fresh_packet p))"
proof -
  have g: "csp_buffer_get_actual 2 isr (core s) = (r, core s')" and s': "s' = s\<lparr>core := core s'\<rparr>"
    using get by (auto simp: in_core_def csp_buffer_get_def csp_buffer_get_isr_def split: if_splits)
  show "s' = s\<lparr>core := core s'\<rparr>" by (rule s')
  have inv: "buf_inv (core s)" using own by (simp add: own_def)
  have own': "own dh (otok r f) s'" using own_get_actual [OF own g] s' by simp
  have "csp_conf (core s') = csp_conf (core s) \<and> csp_ms (core s') = csp_ms (core s) \<and>
    (case r of None \<Rightarrow> length (free_list (core s)) < 2 \<and> own dh f s' \<and> packet (core s') = packet (core s)
      | Some p \<Rightarrow> own dh (tok p f) s' \<and> buf_refs (core s) p = 0 \<and> packet (core s') = (packet (core s))(p := fresh_packet p))"
  proof (cases "length (free_list (core s)) < 2")
    case True
    then have "csp_queue_size (csp_buffers (core s)) < 2" using inv csp_q.size_of_contents [of "csp_buffers (core s)"] by (simp add: buf_inv_def free_list_def)
    then have "r = None" "core s' = core s" using g by (simp_all add: csp_buffer_get_actual_def)
    then show ?thesis using True own' by simp
  next
    case False
    then obtain p ps where fl: "free_list (core s) = p # ps" by (cases "free_list (core s)") auto
    have "2 \<le> length (free_list (core s))" using False by simp
    then obtain c where c: "csp_buffer_get_actual 2 isr (core s) = (Some p, c)" "packet c = (packet (core s))(p := fresh_packet p)"
        "csp_conf c = csp_conf (core s)" "csp_ms c = csp_ms (core s)"
      using get_actual_succeed [OF inv fl, of 2 isr] by metis
    moreover have "buf_refs (core s) p = 0" using fl by (simp add: buf_refs_def)
    ultimately show ?thesis using g own' by simp
  qed
  then show "csp_conf (core s') = csp_conf (core s)" "csp_ms (core s') = csp_ms (core s)"
    "(case r of None \<Rightarrow> length (free_list (core s)) < 2 \<and> own dh f s' \<and> packet (core s') = packet (core s)
      | Some p \<Rightarrow> own dh (tok p f) s' \<and> buf_refs (core s) p = 0 \<and> packet (core s') = (packet (core s))(p := fresh_packet p))" by simp_all
qed

lemma upd_packet_id: "upd_packet p (\<lambda>k. k) c = c"
  by (cases "csp_buffer_pool c p") (simp add: upd_packet_def upd_skbf_def fun_upd_idem_iff)

lemma id_strip_core: "\<exists>g. snd (csp_id_strip p c) = upd_packet p g c \<and> frame_begin (g (packet c p)) = frame_begin (packet c p)"
proof (cases "unat (frame_length (packet c p)) < hdr_size c")
  case True
  then have "snd (csp_id_strip p c) = upd_packet p (\<lambda>k. k) c"
    by (simp add: csp_id_strip_eq upd_packet_id)
  then show ?thesis by blast
next
  case False
  then show ?thesis by (auto simp: csp_id_strip_eq)
qed

lemma crc_verify_core:
  "\<exists>g. snd (csp_crc32_verify p c) = upd_packet p g c
    \<and> frame_begin (g (packet c p)) \<in> {frame_begin (packet c p), (p, DATA_OFF - hdr_size c)}"
proof -
  have "c = upd_packet p (\<lambda>k. k) c" by (simp add: upd_packet_id)
  then show ?thesis
    unfolding csp_crc32_verify_def by (auto simp: csp_id_prepend_eq Let_def)
qed

lemma upd_iface_data [simp]:
  "interface_data (iface (upd_iface j (\<lambda>k. k\<lparr>if_frame := g k\<rparr>) s) i) = interface_data (iface s i)"
  "interface_data (iface (upd_iface j (\<lambda>k. k\<lparr>if_rx_error := g k\<rparr>) s) i) = interface_data (iface s i)"
  "drv (upd_iface j h s) = drv s" "core (upd_iface j h s) = core s"
  by (simp_all add: upd_iface_def)

lemma setup_rx_conf [simp]: "csp_conf (snd (csp_id_setup_rx p c)) = csp_conf c"
  by (simp add: csp_id_setup_rx_def csp_id1_setup_rx_def csp_id2_setup_rx_def)

lemma ucast_of_nat_small: "n < 2 ^ 16 \<Longrightarrow> ucast (of_nat n :: u32) = (of_nat n :: u16)"
  by (simp add: word_eq_iff_unsigned unsigned_ucast_eq unsigned_of_nat take_bit_nat_eq_self)

lemma qfifo_write_room:
  assumes ok: "queue_ok (qfifo_queue s)" and room: "length (queue_list (qfifo_queue s)) < q_size (qfifo_queue s)"
  shows "\<exists>q'. csp_qfifo_write (Some p) (Some i) isr s = s\<lparr>qfifo_queue := q'\<rparr>
    \<and> queue_list q' = queue_list (qfifo_queue s) @ [\<lparr>qf_iface = Some i, qf_packet = Some p\<rparr>]"
proof -
  obtain r q' where enq: "csp_queue_enqueue (qfifo_queue s) \<lparr>qf_iface = Some i, qf_packet = Some p\<rparr> = (r, q')" by fastforce
  from qheld_enqueue [OF ok enq] room show ?thesis by (auto simp: csp_qfifo_write_def Let_def enq)
qed

text \<open>The packet that is queued.\<close>

definition queued :: "addr \<Rightarrow> csp_id \<Rightarrow> u8 list \<Rightarrow> 'e node \<Rightarrow> 'e node \<Rightarrow> bool" where
  "queued i x pay s s' \<longleftrightarrow> (\<exists>q. queue_list (qfifo_queue s') = queue_list (qfifo_queue s) @ [\<lparr>qf_iface = Some i, qf_packet = Some q\<rparr>]
     \<and> pkt_id (pkt s' q) = x \<and> payload (core s') q = pay)"

lemma queued_write:
  assumes own: "own drv_held (tok q f) s2" and room: "length (queue_list (qfifo_queue s)) < q_size (qfifo_queue s)" and same: "qfifo_queue s2 = qfifo_queue s"
  shows "own drv_held f (csp_qfifo_write (Some q) (Some i) False s2)" "queued i (pkt_id (pkt s2 q)) (payload (core s2) q) s (csp_qfifo_write (Some q) (Some i) False s2)"
proof -
  have "queue_ok (qfifo_queue s2)" using own by (simp add: own_def queues_ok_def)
  with room same obtain q' where q': "csp_qfifo_write (Some q) (Some i) False s2 = s2\<lparr>qfifo_queue := q'\<rparr>"
      "queue_list q' = queue_list (qfifo_queue s) @ [\<lparr>qf_iface = Some i, qf_packet = Some q\<rparr>]"
    using qfifo_write_room [of s2 q i False] by auto
  show "own drv_held f (csp_qfifo_write (Some q) (Some i) False s2)" using own_qfifo_write [of drv_held "Some q" f s2] own by simp
  show "queued i (pkt_id (pkt s2 q)) (payload (core s2) q) s (csp_qfifo_write (Some q) (Some i) False s2)" unfolding q'(1) queued_def using q'(2) by auto
qed

lemma upd_pkt_comp: "upd_pkt p g (upd_pkt p h s) = upd_pkt p (\<lambda>k. g (h k)) s"
  by (simp add: upd_pkt_def on_core_def)

end
