(* ===== verification/CSP_Kiss.thy ===== *)
theory CSP_Kiss
  imports CSP_Frames
begin

text \<open>
  The KISS interface for serial lines, \<^verbatim>\<open>src/src/interfaces/csp_if_kiss.c\<close>: frames between two
  \<open>FEND\<close> bytes with escapes, and the receiver as a state machine over bytes. The mutex of the
  line (\<^verbatim>\<open>csp_usart_lock\<close>) has no effect on the state of a node. The driver's function that
  sends bytes is a parameter \<open>tf\<close>; its result is ignored, as in the code.
\<close>

section \<open>Operations\<close>

abbreviation (input) FEND :: u8 where "FEND \<equiv> 0xC0"
abbreviation (input) FESC :: u8 where "FESC \<equiv> 0xDB"
abbreviation (input) TFEND :: u8 where "TFEND \<equiv> 0xDC"
abbreviation (input) TFESC :: u8 where "TFESC \<equiv> 0xDD"
abbreviation (input) TNC_DATA :: u8 where "TNC_DATA \<equiv> 0x00"

type_synonym 'e usart_fn = "nat \<Rightarrow> addr option \<Rightarrow> u8 list \<Rightarrow> 'e \<Rightarrow> int \<times> 'e"

text \<open>
  A call of \<^verbatim>\<open>ifdata->tx_func\<close>. Interfaces get the transmit function \<open>csp_kiss_tx\<close> only from
  \<open>csp_kiss_add_interface\<close>, which refuses one without interface data or driver function.
\<close>

definition kiss_tx_call :: "'e usart_fn \<Rightarrow> addr \<Rightarrow> u8 list \<Rightarrow> 'e node \<Rightarrow> 'e node" where
  "kiss_tx_call tf i bs s =
     upd_hw (\<lambda>e. snd (tf (the (kiss_tx_func (kiss s (the (interface_data (iface s i)))))) (driver_data (iface s i)) bs e)) s"

definition kiss_escape :: "u8 \<Rightarrow> u8 list" where
  "kiss_escape b = (if b = FEND then [FESC, TFEND] else if b = FESC then [FESC, TFESC] else [b])"

definition csp_kiss_tx :: "'e usart_fn \<Rightarrow> addr \<Rightarrow> u16 \<Rightarrow> addr \<Rightarrow> bool \<Rightarrow> 'e node \<Rightarrow> int \<times> 'e node" where
  "csp_kiss_tx tf i via p from_me s =
     (let s = snd (in_core (csp_crc32_append p) s);
          s = on_core (csp_id_prepend p) s;
          data = frame_bytes (core s) p (unat (frame_length (pkt s p)));
          s = kiss_tx_call tf i [FEND, TNC_DATA] s;
          s = fold (\<lambda>b. kiss_tx_call tf i (kiss_escape b)) data s;
          s = kiss_tx_call tf i [FEND] s
      in (CSP_ERR_NONE, free_pkt p s))"

text \<open>
  Reception. The result \<open>None\<close> is a call that never returns: \<open>csp_buffer_get_always\<close> loops when
  no buffer is left, so the branch of the code for a failed allocation is never taken. It
  also stands for storing through the pointer \<^verbatim>\<open>rx_packet\<close> when it is \<^verbatim>\<open>NULL\<close>.
\<close>

definition kiss_full :: "addr \<Rightarrow> 'e node \<Rightarrow> bool" where
  "kiss_full d s =
     (case rx_packet (kiss s d) of
        None \<Rightarrow> False
      | Some p \<Rightarrow> snd (frame_begin (pkt s p)) + unat (rx_length (kiss s d)) \<ge> DATA_END)"

definition kiss_start :: "addr \<Rightarrow> bool \<Rightarrow> 'e node \<Rightarrow> 'e node option" where
  "kiss_start d isr s =
     (let (pk, s) = (case rx_packet (kiss s d) of
                       Some p \<Rightarrow> (Some p, s)
                     | None \<Rightarrow> in_core (if isr then csp_buffer_get_always_isr else csp_buffer_get_always) s)
      in case pk of
           None \<Rightarrow> None
         | Some p \<Rightarrow> Some (upd_kiss d (\<lambda>k. k\<lparr>rx_packet := Some p, rx_length := 0, rx_mode := KISS_MODE_STARTED, rx_first := True\<rparr>)
                            (snd (in_core (csp_id_setup_rx p) s))))"

definition kiss_store :: "addr \<Rightarrow> u8 \<Rightarrow> 'e node \<Rightarrow> 'e node option" where
  "kiss_store d b s =
     (case rx_packet (kiss s d) of
        None \<Rightarrow> None
      | Some p \<Rightarrow> Some (upd_kiss d (\<lambda>k. k\<lparr>rx_length := rx_length k + 1\<rparr>)
                         (on_core (write_frame p (unat (rx_length (kiss s d))) [b]) s)))"

text \<open>The end of a frame of at least one byte: parse, check and pass on, or keep the buffer.\<close>

definition kiss_accept :: "addr \<Rightarrow> addr \<Rightarrow> bool \<Rightarrow> addr \<Rightarrow> 'e node \<Rightarrow> 'e node" where
  "kiss_accept i d isr p s =
     (let reject = (\<lambda>s. upd_kiss d (\<lambda>k. k\<lparr>rx_mode := KISS_MODE_NOT_STARTED\<rparr>) (upd_iface i (\<lambda>k. k\<lparr>if_frame := if_frame k + 1\<rparr>) s));
          s = upd_pkt p (\<lambda>k. k\<lparr>frame_length := ucast (rx_length (kiss s d))\<rparr>) s;
          (r, s) = in_core (csp_id_strip p) s
      in if r < 0 then reject s
         else let (r, s) = in_core (csp_crc32_verify p) s
              in if r \<noteq> CSP_ERR_NONE then reject s
                 else upd_kiss d (\<lambda>k. k\<lparr>rx_packet := None, rx_mode := KISS_MODE_NOT_STARTED\<rparr>)
                        (csp_qfifo_write (Some p) (Some i) isr s))"

definition kiss_end :: "addr \<Rightarrow> addr \<Rightarrow> bool \<Rightarrow> 'e node \<Rightarrow> 'e node option" where
  "kiss_end i d isr s =
     (if rx_length (kiss s d) > 0
      then (case rx_packet (kiss s d) of None \<Rightarrow> None | Some p \<Rightarrow> Some (kiss_accept i d isr p s))
      else Some s)"

definition kiss_rx_byte :: "addr \<Rightarrow> bool \<Rightarrow> u8 \<Rightarrow> 'e node \<Rightarrow> 'e node option" where
  "kiss_rx_byte i isr inputbyte s =
     (let d = the (interface_data (iface s i));
          s = (if kiss_full d s
               then upd_kiss d (\<lambda>k. k\<lparr>rx_mode := KISS_MODE_NOT_STARTED, rx_length := 0\<rparr>)
                      (upd_iface i (\<lambda>k. k\<lparr>if_rx_error := if_rx_error k + 1\<rparr>) s)
               else s)
      in case rx_mode (kiss s d) of
           KISS_MODE_NOT_STARTED \<Rightarrow> if inputbyte \<noteq> FEND then Some s else kiss_start d isr s
         | KISS_MODE_STARTED \<Rightarrow>
             if inputbyte = FESC then Some (upd_kiss d (\<lambda>k. k\<lparr>rx_mode := KISS_MODE_ESCAPED\<rparr>) s)
             else if inputbyte = FEND then kiss_end i d isr s
             else if rx_first (kiss s d) then Some (upd_kiss d (\<lambda>k. k\<lparr>rx_first := False\<rparr>) s)
             else kiss_store d inputbyte s
         | KISS_MODE_ESCAPED \<Rightarrow>
             map_option (upd_kiss d (\<lambda>k. k\<lparr>rx_mode := KISS_MODE_STARTED\<rparr>))
               (if inputbyte = TFESC then kiss_store d FESC s
                else if inputbyte = TFEND then kiss_store d FEND s else Some s)
         | KISS_MODE_SKIP_FRAME \<Rightarrow>
             Some (if inputbyte = FEND then upd_kiss d (\<lambda>k. k\<lparr>rx_mode := KISS_MODE_NOT_STARTED\<rparr>) s else s))"

fun csp_kiss_rx :: "addr \<Rightarrow> bool \<Rightarrow> u8 list \<Rightarrow> 'e node \<Rightarrow> 'e node option" where
  "csp_kiss_rx i isr [] s = Some s"
| "csp_kiss_rx i isr (b # bs) s = Option.bind (kiss_rx_byte i isr b s) (csp_kiss_rx i isr bs)"

definition csp_kiss_add_interface :: "addr option \<Rightarrow> 'e node \<Rightarrow> int \<times> 'e node" where
  "csp_kiss_add_interface ifc s =
     (case ifc of
        None \<Rightarrow> (CSP_ERR_INVAL, s)
      | Some i \<Rightarrow>
          (case (if_name (iface s i), interface_data (iface s i)) of
             (Some nm, Some d) \<Rightarrow>
               if kiss_tx_func (kiss s d) = None then (CSP_ERR_INVAL, s)
               else let s = upd_kiss d (\<lambda>k. k\<lparr>rx_length := 0, rx_mode := KISS_MODE_NOT_STARTED, rx_first := False, rx_packet := None\<rparr>) s;
                        s = upd_iface i (\<lambda>k. k\<lparr>if_nexthop := Csp_kiss_tx\<rparr>) s
                    in (CSP_ERR_NONE, s\<lparr>iflist := csp_iflist_add (Some i) (iflist s)\<rparr>)
           | _ \<Rightarrow> (CSP_ERR_INVAL, s)))"

section \<open>Accounting\<close>

definition kiss_inv :: "addr \<Rightarrow> 'e node \<Rightarrow> bool" where
  "kiss_inv d s \<longleftrightarrow> (rx_mode (kiss s d) \<in> {KISS_MODE_STARTED, KISS_MODE_ESCAPED} \<longrightarrow> rx_packet (kiss s d) \<noteq> None)
     \<and> (\<forall>p. rx_packet (kiss s d) = Some p \<longrightarrow> frame_begin (pkt s p) = (p, DATA_OFF - hdr_size (core s))
          \<and> unat (rx_length (kiss s d)) \<le> CSP_BUFFER_SIZE + hdr_size (core s))"

text \<open>
  What a piece of the receiver keeps: the accounting, the invariant, the interface data, and
  every packet in use other than the one in reception.
\<close>

definition kiss_kept :: "addr \<Rightarrow> (addr \<Rightarrow> nat) \<Rightarrow> 'e node \<Rightarrow> 'e node \<Rightarrow> bool" where
  "kiss_kept d f s s' \<longleftrightarrow> own drv_held f s' \<and> kiss_inv d s' \<and> (\<forall>i. interface_data (iface s' i) = interface_data (iface s i))
     \<and> (\<forall>q. 0 < buf_refs (core s) q \<and> rx_packet (kiss s d) \<noteq> Some q \<longrightarrow>
           pkt s' q = pkt s q \<and> buf_refs (core s) q \<le> buf_refs (core s') q \<and> rx_packet (kiss s' d) \<noteq> Some q)"

lemma kiss_kept_trans:
  assumes "kiss_kept d f a b" "kiss_kept d f b c"
  shows "kiss_kept d f a c"
proof -
  have "pkt c q = pkt a q \<and> buf_refs (core a) q \<le> buf_refs (core c) q \<and> rx_packet (kiss c d) \<noteq> Some q"
    if q: "0 < buf_refs (core a) q" "rx_packet (kiss a d) \<noteq> Some q" for q
  proof -
    have one: "pkt b q = pkt a q" "buf_refs (core a) q \<le> buf_refs (core b) q" "rx_packet (kiss b d) \<noteq> Some q"
      using assms(1) q by (simp_all add: kiss_kept_def)
    then have "0 < buf_refs (core b) q" using q(1) by linarith
    with one have "pkt c q = pkt b q" "buf_refs (core b) q \<le> buf_refs (core c) q" "rx_packet (kiss c d) \<noteq> Some q"
      using assms(2) by (simp_all add: kiss_kept_def)
    with one show ?thesis by simp
  qed
  with assms show ?thesis by (simp add: kiss_kept_def)
qed

lemma kiss_kept_refl: "own drv_held f s \<Longrightarrow> kiss_inv d s \<Longrightarrow> kiss_kept d f s s"
  by (simp add: kiss_kept_def)

lemma kiss_reset_kept:
  assumes "own drv_held f s" "kiss_inv d s" "d < IF_MAX" "m \<in> {KISS_MODE_NOT_STARTED} \<or> rx_packet (kiss s d) \<noteq> None"
  shows "kiss_kept d f s (upd_kiss d (\<lambda>k. k\<lparr>rx_mode := m\<rparr>) s)"
    "kiss_kept d f s (upd_kiss d (\<lambda>k. k\<lparr>rx_first := False\<rparr>) s)"
    "kiss_kept d f s (upd_kiss d (\<lambda>k. k\<lparr>rx_mode := KISS_MODE_NOT_STARTED, rx_length := 0\<rparr>) (upd_iface i (\<lambda>k. k\<lparr>if_rx_error := g k\<rparr>) s))"
  using assms by (auto simp: kiss_kept_def kiss_inv_def intro: own_kiss_same)

lemma kiss_start_kept:
  assumes own: "own drv_held f s" and inv: "kiss_inv d s" and d: "d < IF_MAX"
  shows "(case kiss_start d isr s of None \<Rightarrow> free_list (core s) = [] | Some s' \<Rightarrow> kiss_kept d f s s')"
proof (cases "rx_packet (kiss s d)")
  case (Some p)
  then show ?thesis
    using own d by (auto simp: kiss_start_def setup_rx_effect kiss_kept_def kiss_inv_def intro!: own_kiss_same)
next
  case None
  obtain r s1 where get: "in_core (if isr then csp_buffer_get_always_isr else csp_buffer_get_always) s = (r, s1)" by fastforce
  note eff = get_always_effect [OF own get]
  show ?thesis
  proof (cases r)
    case r: None
    with eff get None show ?thesis by (simp add: kiss_start_def)
  next
    case (Some p)
    with eff have e: "own drv_held (tok p f) s1" "buf_refs (core s) p = 0" "csp_conf (core s1) = csp_conf (core s)"
        "drv s1 = drv s" "iflist s1 = iflist s" "buf_refs (core s1) = (buf_refs (core s))(p := 1)"
        "packet (core s1) = (packet (core s))(p := fresh_packet p)"
      by (auto dest: arg_cong [of _ _ drv] arg_cong [of _ _ iflist])
    let ?s2 = "snd (in_core (csp_id_setup_rx p) s1)"
    have start: "kiss_start d isr s = Some (upd_kiss d (\<lambda>k. k\<lparr>rx_packet := Some p, rx_length := 0, rx_mode := KISS_MODE_STARTED, rx_first := True\<rparr>) ?s2)"
      using get None Some by (simp add: kiss_start_def)
    have "own drv_held f (upd_kiss d (\<lambda>k. k\<lparr>rx_packet := Some p, rx_length := 0, rx_mode := KISS_MODE_STARTED, rx_first := True\<rparr>) ?s2)"
      using own_kiss_put [OF _ d, of p f ?s2] e None by (simp add: setup_rx_effect)
    then show ?thesis
      using e by (auto simp: start kiss_kept_def kiss_inv_def setup_rx_effect)
  qed
qed

lemma kiss_store_eq:
  assumes "kiss_inv d s" "rx_packet (kiss s d) = Some p"
  shows "kiss_store d b s = Some (upd_kiss d (\<lambda>k. k\<lparr>rx_length := rx_length k + 1\<rparr>)
    (upd_pkt p (pkt_mem_update (\<lambda>m. mem_write m (DATA_OFF - hdr_size (core s) + unat (rx_length (kiss s d))) [b])) s))"
  using assms by (simp add: kiss_store_def kiss_inv_def write_frame_def upd_pkt_def on_core_def)

lemma kiss_store_kept:
  assumes own: "own drv_held f s" and inv: "kiss_inv d s" and d: "d < IF_MAX" and room: "\<not> kiss_full d s" and p: "rx_packet (kiss s d) = Some p"
  shows "\<exists>s'. kiss_store d b s = Some s' \<and> kiss_kept d f s s' \<and> rx_packet (kiss s' d) = Some p"
proof -
  have n: "unat (rx_length (kiss s d)) < CSP_BUFFER_SIZE + hdr_size (core s)"
    using room inv p hdr_size_cases [of "core s"] by (auto simp: kiss_full_def kiss_inv_def)
  then have "unat (rx_length (kiss s d) + 1) \<le> CSP_BUFFER_SIZE + hdr_size (core s)"
    using hdr_size_cases [of "core s"] by (subst unat_add_small) auto
  then show ?thesis
    using own inv d p by (auto simp: kiss_store_eq [OF inv p] kiss_kept_def kiss_inv_def intro!: own_kiss_same)
qed

lemma kiss_reject_kept:
  assumes "own drv_held f s" "kiss_inv d s" "d < IF_MAX"
  shows "kiss_kept d f s (upd_kiss d (\<lambda>k. k\<lparr>rx_mode := KISS_MODE_NOT_STARTED\<rparr>) (upd_iface i (\<lambda>k. k\<lparr>if_frame := g k\<rparr>) s))"
  using assms by (auto simp: kiss_kept_def kiss_inv_def intro: own_kiss_same)

text \<open>Changes of the packet in reception, as long as it stays a frame of this interface.\<close>

lemma kiss_core_kept:
  assumes own: "own drv_held f s" and inv: "kiss_inv d s" and p: "rx_packet (kiss s d) = Some p"
    and c: "c = upd_packet p g (core s)" "frame_begin (g (pkt s p)) = (p, DATA_OFF - hdr_size (core s))"
  shows "kiss_kept d f s (s\<lparr>core := c\<rparr>)"
  using own inv p c by (auto simp: kiss_kept_def kiss_inv_def own_core_cong)

text \<open>The router queue and the interfaces' data are independent.\<close>

lemma qfifo_write_upd_kiss:
  "upd_kiss d g (csp_qfifo_write pk i isr s) = csp_qfifo_write pk i isr (upd_kiss d g s)"
proof -
  have "(csp_qfifo_write pk i isr s)\<lparr>drv := v\<rparr> = csp_qfifo_write pk i isr (s\<lparr>drv := v\<rparr>)"
    and "drv (csp_qfifo_write pk i isr s) = drv s" for v
    by (auto simp: csp_qfifo_write_def Let_def on_core_def set_errno_def conn_ovf_def upd_iface_def
        split: option.splits prod.splits)
  then show ?thesis by (simp add: upd_kiss_def)
qed

lemma kiss_deliver_kept:
  assumes own: "own drv_held f s" and inv: "kiss_inv d s" and d: "d < IF_MAX" and p: "rx_packet (kiss s d) = Some p"
  shows "kiss_kept d f s (upd_kiss d (\<lambda>k. k\<lparr>rx_packet := None, rx_mode := KISS_MODE_NOT_STARTED\<rparr>) (csp_qfifo_write (Some p) (Some i) isr s))"
proof -
  define t where "t = upd_kiss d (\<lambda>k. k\<lparr>rx_packet := None, rx_mode := KISS_MODE_NOT_STARTED\<rparr>) s"
  have t: "own drv_held (tok p f) t" unfolding t_def using own_kiss_take [OF own d p] by simp
  let ?t' = "csp_qfifo_write (Some p) (Some i) isr t"
  note fr = qfifo_write_frames [OF t, of i isr]
  have "drv ?t' = drv t"
    by (auto simp: csp_qfifo_write_def Let_def on_core_def set_errno_def conn_ovf_def split: option.splits prod.splits)
  then have none: "rx_packet (kiss ?t' d) = None" "rx_mode (kiss ?t' d) = KISS_MODE_NOT_STARTED" by (simp_all add: t_def)
  have data: "interface_data (iface ?t' j) = interface_data (iface s j)" for j
    by (auto simp: csp_qfifo_write_def Let_def on_core_def set_errno_def conn_ovf_def upd_iface_def t_def split: option.splits prod.splits)
  have "own drv_held f ?t'" using own_qfifo_write [of drv_held "Some p" f t] t by simp
  moreover have "pkt ?t' q = pkt s q \<and> buf_refs (core s) q \<le> buf_refs (core ?t') q"
    if "0 < buf_refs (core s) q" "q \<noteq> p" for q
    using fr(2) that by (auto simp: pkts_kept_def t_def)
  ultimately show ?thesis
    unfolding qfifo_write_upd_kiss t_def [symmetric] using none data p by (auto simp: kiss_kept_def kiss_inv_def)
qed

lemma kiss_accept_kept:
  assumes own: "own drv_held f s" and inv: "kiss_inv d s" and d: "d < IF_MAX" and p: "rx_packet (kiss s d) = Some p"
  shows "kiss_kept d f s (kiss_accept i d isr p s)"
proof -
  have fb: "frame_begin (pkt s p) = (p, DATA_OFF - hdr_size (core s))" using inv p by (simp add: kiss_inv_def)
  define s1 where "s1 = upd_pkt p (\<lambda>k. k\<lparr>frame_length := ucast (rx_length (kiss s d))\<rparr>) s"
  obtain r2 s2 where strip: "in_core (csp_id_strip p) s1 = (r2, s2)" by fastforce
  obtain r3 s3 where crc: "in_core (csp_crc32_verify p) s2 = (r3, s3)" by fastforce
  have one: "kiss_kept d f s s1" "rx_packet (kiss s1 d) = Some p" "frame_begin (pkt s1 p) = (p, DATA_OFF - hdr_size (core s1))"
    unfolding s1_def using own inv p fb kiss_core_kept [OF own inv p refl, of "\<lambda>k. k\<lparr>frame_length := ucast (rx_length (kiss s d))\<rparr>"]
    by (simp_all add: upd_pkt_def on_core_def)
  then have own1: "own drv_held f s1" "kiss_inv d s1" by (simp_all add: kiss_kept_def)
  obtain g where g: "s2 = s1\<lparr>core := upd_packet p g (core s1)\<rparr>" "frame_begin (g (pkt s1 p)) = frame_begin (pkt s1 p)"
    using id_strip_core [of p "core s1"] strip by (auto simp: in_core_def)
  have two: "kiss_kept d f s1 s2" "rx_packet (kiss s2 d) = Some p" "frame_begin (pkt s2 p) = (p, DATA_OFF - hdr_size (core s2))"
    using kiss_core_kept [OF own1 one(2) refl, of g] g one(2,3) by (simp_all add: g(1))
  then have own2: "own drv_held f s2" "kiss_inv d s2" by (simp_all add: kiss_kept_def)
  obtain h where h: "s3 = s2\<lparr>core := upd_packet p h (core s2)\<rparr>"
      "frame_begin (h (pkt s2 p)) \<in> {frame_begin (pkt s2 p), (p, DATA_OFF - hdr_size (core s2))}"
    using crc_verify_core [of p "core s2"] crc by (auto simp: in_core_def)
  have three: "kiss_kept d f s2 s3" "rx_packet (kiss s3 d) = Some p"
    using kiss_core_kept [OF own2 two(2) refl, of h] h two(2,3) by (auto simp: h(1))
  then have own3: "own drv_held f s3" "kiss_inv d s3" by (simp_all add: kiss_kept_def)
  note to2 = kiss_kept_trans [OF one(1) two(1)]
  note to3 = kiss_kept_trans [OF to2 three(1)]
  let ?s4 = "upd_kiss d (\<lambda>k. k\<lparr>rx_packet := None, rx_mode := KISS_MODE_NOT_STARTED\<rparr>) (csp_qfifo_write (Some p) (Some i) isr s3)"
  have "kiss_kept d f s ?s4" by (rule kiss_kept_trans [OF to3 kiss_deliver_kept [OF own3 d three(2)]])
  moreover have "kiss_kept d f s (upd_kiss d (\<lambda>k. k\<lparr>rx_mode := KISS_MODE_NOT_STARTED\<rparr>) (upd_iface i (\<lambda>k. k\<lparr>if_frame := if_frame k + 1\<rparr>) s2))"
    by (rule kiss_kept_trans [OF to2 kiss_reject_kept [OF own2 d]])
  moreover have "kiss_kept d f s (upd_kiss d (\<lambda>k. k\<lparr>rx_mode := KISS_MODE_NOT_STARTED\<rparr>) (upd_iface i (\<lambda>k. k\<lparr>if_frame := if_frame k + 1\<rparr>) s3))"
    by (rule kiss_kept_trans [OF to3 kiss_reject_kept [OF own3 d]])
  ultimately show ?thesis
    by (simp add: kiss_accept_def Let_def s1_def [symmetric] strip crc)
qed

lemma kiss_rx_byte_kept:
  assumes own: "own drv_held f s" and inv: "kiss_inv d s" and d: "d < IF_MAX" and i: "interface_data (iface s i) = Some d"
  shows "(case kiss_rx_byte i isr b s of None \<Rightarrow> free_list (core s) = [] | Some s' \<Rightarrow> kiss_kept d f s s')"
proof -
  define s1 where "s1 = (if kiss_full d s then upd_kiss d (\<lambda>k. k\<lparr>rx_mode := KISS_MODE_NOT_STARTED, rx_length := 0\<rparr>)
      (upd_iface i (\<lambda>k. k\<lparr>if_rx_error := if_rx_error k + 1\<rparr>) s) else s)"
  have one: "kiss_kept d f s s1" "core s1 = core s"
    unfolding s1_def using kiss_reset_kept(3) [OF own inv d, of KISS_MODE_NOT_STARTED] kiss_kept_refl [OF own inv] by auto
  have room: "\<not> kiss_full d s1 \<or> rx_mode (kiss s1 d) = KISS_MODE_NOT_STARTED" by (simp add: s1_def)
  from one have own1: "own drv_held f s1" "kiss_inv d s1" by (simp_all add: kiss_kept_def)
  have pk: "rx_packet (kiss s1 d) \<noteq> None" if "rx_mode (kiss s1 d) \<in> {KISS_MODE_STARTED, KISS_MODE_ESCAPED}"
    using own1(2) that by (auto simp: kiss_inv_def)
  note mode = kiss_reset_kept(1) [OF own1 d]
  have "(case kiss_rx_byte i isr b s of None \<Rightarrow> free_list (core s1) = [] | Some s' \<Rightarrow> kiss_kept d f s1 s')"
  proof (cases "rx_mode (kiss s1 d)")
    case KISS_MODE_NOT_STARTED
    then show ?thesis
      using kiss_start_kept [OF own1 d, of isr] kiss_kept_refl [OF own1]
      by (simp add: kiss_rx_byte_def i s1_def [symmetric] Let_def)
  next
    case KISS_MODE_STARTED
    then obtain p where p: "rx_packet (kiss s1 d) = Some p" using pk by auto
    have "\<not> kiss_full d s1" using room KISS_MODE_STARTED by simp
    from kiss_store_kept [OF own1 d this p, of b] KISS_MODE_STARTED p show ?thesis
      using mode [of KISS_MODE_ESCAPED] kiss_reset_kept(2) [OF own1 d, of KISS_MODE_STARTED] kiss_accept_kept [OF own1 d p, of i isr] kiss_kept_refl [OF own1]
      by (auto simp: kiss_rx_byte_def i s1_def [symmetric] Let_def kiss_end_def)
  next
    case KISS_MODE_ESCAPED
    then obtain p where p: "rx_packet (kiss s1 d) = Some p" using pk by auto
    have "\<not> kiss_full d s1" using room KISS_MODE_ESCAPED by simp
    note store = kiss_store_kept [OF own1 d this p]
    have started: "kiss_kept d f s1 (upd_kiss d (\<lambda>k. k\<lparr>rx_mode := KISS_MODE_STARTED\<rparr>) t)" if "kiss_kept d f s1 t" "rx_packet (kiss t d) = Some p" for t
      using that by (intro kiss_kept_trans [OF that(1)] kiss_reset_kept(1)) (simp_all add: kiss_kept_def d)
    from started [OF kiss_kept_refl [OF own1] p] store [of FESC] store [of FEND] started KISS_MODE_ESCAPED show ?thesis
      by (auto simp: kiss_rx_byte_def i s1_def [symmetric] Let_def)
  next
    case KISS_MODE_SKIP_FRAME
    then show ?thesis
      using mode [of KISS_MODE_NOT_STARTED] kiss_kept_refl [OF own1] by (simp add: kiss_rx_byte_def i s1_def [symmetric] Let_def)
  qed
  then show ?thesis using one kiss_kept_trans [OF one(1)] by (auto split: option.splits)
qed

lemma csp_kiss_rx_append: "csp_kiss_rx i isr (xs @ ys) s = Option.bind (csp_kiss_rx i isr xs s) (csp_kiss_rx i isr ys)"
proof (induction xs arbitrary: s)
  case (Cons b bs)
  then show ?case by (cases "kiss_rx_byte i isr b s") simp_all
qed simp

lemma csp_kiss_rx_kept:
  assumes "own drv_held f s" "kiss_inv d s" "d < IF_MAX" "interface_data (iface s i) = Some d" "csp_kiss_rx i isr bs s = Some s'"
  shows "kiss_kept d f s s'"
  using assms
proof (induction bs arbitrary: s)
  case Nil
  then show ?case by (simp add: kiss_kept_refl)
next
  case (Cons b bs)
  from Cons.prems(5) obtain s1 where s1: "kiss_rx_byte i isr b s = Some s1" "csp_kiss_rx i isr bs s1 = Some s'"
    by (cases "kiss_rx_byte i isr b s") simp_all
  have one: "kiss_kept d f s s1" using kiss_rx_byte_kept [OF Cons.prems(1-4), of isr b] s1(1) by simp
  then have "kiss_kept d f s1 s'"
    using Cons.IH [of s1] Cons.prems s1(2) by (simp add: kiss_kept_def)
  with one show ?case by (rule kiss_kept_trans)
qed

lemma csp_kiss_rx_stuck:
  assumes "own drv_held f s" "kiss_inv d s" "d < IF_MAX" "interface_data (iface s i) = Some d" "csp_kiss_rx i isr bs s = None"
  shows "\<exists>k<length bs. \<exists>t. csp_kiss_rx i isr (take k bs) s = Some t \<and> free_list (core t) = []"
  using assms
proof (induction bs arbitrary: s)
  case (Cons b bs)
  note byte = kiss_rx_byte_kept [OF Cons.prems(1-4), of isr b]
  show ?case
  proof (cases "kiss_rx_byte i isr b s")
    case None
    with byte show ?thesis by (intro exI [of _ 0]) simp
  next
    case (Some s1)
    with byte have one: "kiss_kept d f s s1" by simp
    have "\<exists>k<length bs. \<exists>t. csp_kiss_rx i isr (take k bs) s1 = Some t \<and> free_list (core t) = []"
      using Cons.IH [of s1] Cons.prems Some one by (simp add: kiss_kept_def)
    then obtain k t where "k < length bs" "csp_kiss_rx i isr (take k bs) s1 = Some t" "free_list (core t) = []" by blast
    then show ?thesis using Some by (intro exI [of _ "Suc k"]) simp
  qed
qed simp

section \<open>Transmission\<close>

definition kiss_wire :: "u8 list \<Rightarrow> u8 list" where
  "kiss_wire frame = [FEND, TNC_DATA] @ concat (map kiss_escape frame) @ [FEND]"

lemma kiss_tx_call_frame [simp]:
  "core (kiss_tx_call tf i bs s) = core s" "iflist (kiss_tx_call tf i bs s) = iflist s" "kiss (kiss_tx_call tf i bs s) e = kiss s e"
  "own drv_held f (kiss_tx_call tf i bs s) = own drv_held f s" "tx_frame s (kiss_tx_call tf i bs s)"
  by (simp_all add: kiss_tx_call_def)

lemma kiss_tx_calls:
  "core (fold (\<lambda>b. kiss_tx_call tf i (g b)) xs s) = core s" "iflist (fold (\<lambda>b. kiss_tx_call tf i (g b)) xs s) = iflist s"
  "kiss (fold (\<lambda>b. kiss_tx_call tf i (g b)) xs s) e = kiss s e"
  "own drv_held f (fold (\<lambda>b. kiss_tx_call tf i (g b)) xs s) = own drv_held f s"
  "tx_frame s (fold (\<lambda>b. kiss_tx_call tf i (g b)) xs s)"
proof (induction xs arbitrary: s)
  case (Cons x xs)
  { case 1 from Cons(1) show ?case by simp }
  { case 2 from Cons(2) show ?case by simp }
  { case 3 from Cons(3) show ?case by simp }
  { case 4 from Cons(4) show ?case by simp }
  { case 5 from tx_frame_trans [OF kiss_tx_call_frame(5) Cons(5)] show ?case by simp }
qed simp_all

text \<open>The driver appends what it is given to the line, of which \<open>line\<close> is the abstraction.\<close>

lemma kiss_tx_line:
  assumes tf: "\<And>n v bs e. line (snd (tf n v bs e)) = line e @ bs"
  shows "line (hw (drv (fold (\<lambda>b. kiss_tx_call tf i (g b)) xs s))) = line (hw (drv s)) @ concat (map g xs)"
proof (induction xs arbitrary: s)
  case (Cons x xs)
  then show ?case by (simp add: kiss_tx_call_def tf)
qed simp

lemma csp_kiss_tx_contract:
  assumes own: "own drv_held (tok p f) s" and run: "csp_kiss_tx tf i via p fm s = (r, s')"
  shows "r = CSP_ERR_NONE" "own drv_held f s'" "tx_frame s s'" "pkts_kept {p} s s'"
proof -
  obtain r1 s1 where app: "in_core (csp_crc32_append p) s = (r1, s1)" by fastforce
  define s2 where "s2 = on_core (csp_id_prepend p) s1"
  define data where "data = frame_bytes (core s2) p (unat (frame_length (pkt s2 p)))"
  define s3 where "s3 = kiss_tx_call tf i [FEND] (fold (\<lambda>b. kiss_tx_call tf i (kiss_escape b)) data (kiss_tx_call tf i [FEND, TNC_DATA] s2))"
  have s': "r = 0" "s' = free_pkt p s3"
    using run by (simp_all add: csp_kiss_tx_def Let_def app s2_def data_def s3_def)
  have one: "own drv_held (tok p f) s1" "tx_frame s s1" "pkts_kept {p} s s1" using crc32_append_frames [OF app] own by simp_all
  have two: "own drv_held (tok p f) s2" "tx_frame s s2" "pkts_kept {p} s s2"
    using one tx_frame_trans [OF one(2) tx_frame_upds(7)] pkts_kept_trans [OF one(3), of s2]
    by (auto simp: s2_def on_core_def pkts_kept_def csp_id_prepend_other)
  have three: "own drv_held (tok p f) s3" "core s3 = core s2" "tx_frame s s3"
    using two tx_frame_trans [OF two(2) tx_frame_trans [OF kiss_tx_call_frame(5) tx_frame_trans [OF kiss_tx_calls(5) kiss_tx_call_frame(5)]]]
    by (simp_all add: s3_def kiss_tx_calls)
  show "r = CSP_ERR_NONE" by (rule s'(1))
  show "own drv_held f s'" using own_free [OF three(1)] s' by simp
  show "tx_frame s s'" using tx_frame_trans [OF three(3) tx_frame_free] s' by simp
  have "pkts_kept {p} s s3" using two(3) three(2) by (simp add: pkts_kept_def)
  then show "pkts_kept {p} s s'" using pkts_kept_trans pkts_kept_free [OF three(1)] s' by blast
qed

end
