(* ===== verification/CSP_Kiss_Link.thy ===== *)
theory CSP_Kiss_Link
  imports CSP_Kiss
begin

text \<open>
  A KISS line between two nodes: what \<open>csp_kiss_tx\<close> of one puts on the line and
  \<open>csp_kiss_rx\<close> of the other makes of it.
\<close>

section \<open>Receiving the bytes of a frame\<close>

text \<open>A receiver that has seen the start of a frame, and the same after the bytes \<open>xs\<close>.\<close>

definition kiss_ready :: "addr \<Rightarrow> addr \<Rightarrow> addr \<Rightarrow> 'e node \<Rightarrow> bool" where
  "kiss_ready i d q t \<longleftrightarrow> interface_data (iface t i) = Some d \<and> rx_mode (kiss t d) = KISS_MODE_STARTED \<and> \<not> rx_first (kiss t d)
     \<and> rx_packet (kiss t d) = Some q \<and> rx_length (kiss t d) = 0 \<and> frame_begin (pkt t q) = (q, DATA_OFF - hdr_size (core t))"

definition kiss_mid :: "addr \<Rightarrow> addr \<Rightarrow> u8 list \<Rightarrow> 'e node \<Rightarrow> 'e node" where
  "kiss_mid d q xs t = upd_kiss d (\<lambda>k. k\<lparr>rx_length := of_nat (length xs)\<rparr>)
     (upd_pkt q (\<lambda>k. k\<lparr>pkt_mem := mem_write (pkt_mem k) (DATA_OFF - hdr_size (core t)) xs\<rparr>) t)"

lemma upd_kiss_pkt: "upd_kiss d g (upd_pkt p h s) = upd_pkt p h (upd_kiss d g s)"
  by (simp add: upd_kiss_def upd_pkt_def on_core_def)

lemma upd_kiss_cong: "g (kiss s d) = h (kiss s d) \<Longrightarrow> upd_kiss d g s = upd_kiss d h s"
  by (simp add: upd_kiss_def)

lemma kiss_mid_simps [simp]:
  "iface (kiss_mid d q xs t) i = iface t i" "hdr_size (core (kiss_mid d q xs t)) = hdr_size (core t)"
  "kiss (kiss_mid d q xs t) d = (kiss t d)\<lparr>rx_length := of_nat (length xs)\<rparr>"
  "frame_begin (pkt (kiss_mid d q xs t) q) = frame_begin (pkt t q)"
  by (simp_all add: kiss_mid_def)

lemma kiss_mid_store:
  assumes "kiss_ready i d q t" "length xs < CSP_BUFFER_SIZE + hdr_size (core t)"
  shows "kiss_store d b (upd_kiss d (\<lambda>k. k\<lparr>rx_mode := m\<rparr>) (kiss_mid d q xs t)) = Some (upd_kiss d (\<lambda>k. k\<lparr>rx_mode := m\<rparr>) (kiss_mid d q (xs @ [b]) t))"
proof -
  have n: "unat (of_nat (length xs) :: u32) = length xs"
    using assms(2) hdr_size_cases [of "core t"] by (intro unat_of_nat_small) auto
  then show ?thesis
    using assms(1) by (cases "kiss t d") (simp add: kiss_ready_def kiss_store_def write_frame_def kiss_mid_def upd_pkt_def on_core_def upd_kiss_def
        comp_def mem_write_append add.commute [of 1])
qed

lemma kiss_mid_not_full:
  "kiss_ready i d q t \<Longrightarrow> length xs < CSP_BUFFER_SIZE + hdr_size (core t) \<Longrightarrow> \<not> kiss_full d (upd_kiss d (\<lambda>k. k\<lparr>rx_mode := m\<rparr>) (kiss_mid d q xs t))"
  using hdr_size_cases [of "core t"] by (auto simp: kiss_full_def kiss_ready_def unat_of_nat_small)

lemma kiss_started: "kiss_ready i d q t \<Longrightarrow> upd_kiss d (\<lambda>k. k\<lparr>rx_mode := KISS_MODE_STARTED\<rparr>) (kiss_mid d q xs t) = kiss_mid d q xs t"
  by (cases "kiss t d") (auto simp: kiss_ready_def upd_kiss_def kiss_mid_def fun_upd_idem_iff upd_pkt_def on_core_def intro!: csp_drivers.equality)

lemma kiss_mid_byte:
  assumes r: "kiss_ready i d q t" and n: "length xs < CSP_BUFFER_SIZE + hdr_size (core t)"
  shows "b \<noteq> FEND \<Longrightarrow> b \<noteq> FESC \<Longrightarrow> kiss_rx_byte i isr b (kiss_mid d q xs t) = Some (kiss_mid d q (xs @ [b]) t)"
    "kiss_rx_byte i isr FESC (kiss_mid d q xs t) = Some (upd_kiss d (\<lambda>k. k\<lparr>rx_mode := KISS_MODE_ESCAPED\<rparr>) (kiss_mid d q xs t))"
    "kiss_rx_byte i isr TFEND (upd_kiss d (\<lambda>k. k\<lparr>rx_mode := KISS_MODE_ESCAPED\<rparr>) (kiss_mid d q xs t)) = Some (kiss_mid d q (xs @ [FEND]) t)"
    "kiss_rx_byte i isr TFESC (upd_kiss d (\<lambda>k. k\<lparr>rx_mode := KISS_MODE_ESCAPED\<rparr>) (kiss_mid d q xs t)) = Some (kiss_mid d q (xs @ [FESC]) t)"
  using kiss_mid_not_full [OF r n, of KISS_MODE_STARTED] kiss_mid_not_full [OF r n, of KISS_MODE_ESCAPED]
    kiss_mid_store [OF r n, of _ KISS_MODE_STARTED] kiss_mid_store [OF r n, of _ KISS_MODE_ESCAPED] kiss_started [OF r] r
  by (simp_all add: kiss_rx_byte_def kiss_ready_def upd_kiss_comp Let_def)

lemma kiss_mid_escape:
  assumes r: "kiss_ready i d q t" and n: "length xs < CSP_BUFFER_SIZE + hdr_size (core t)"
  shows "csp_kiss_rx i isr (kiss_escape b) (kiss_mid d q xs t) = Some (kiss_mid d q (xs @ [b]) t)"
  using kiss_mid_byte [OF r n] by (simp add: kiss_escape_def)

lemma kiss_mid_frame:
  assumes r: "kiss_ready i d q t" and n: "length xs + length ys \<le> CSP_BUFFER_SIZE + hdr_size (core t)"
  shows "csp_kiss_rx i isr (concat (map kiss_escape ys)) (kiss_mid d q xs t) = Some (kiss_mid d q (xs @ ys) t)"
  using n
proof (induction ys arbitrary: xs)
  case (Cons y ys)
  then have "csp_kiss_rx i isr (kiss_escape y) (kiss_mid d q xs t) = Some (kiss_mid d q (xs @ [y]) t)"
    by (intro kiss_mid_escape [OF r]) simp
  then show ?case using Cons.IH [of "xs @ [y]"] Cons.prems by (simp add: csp_kiss_rx_append)
qed simp

section \<open>Start and end of a frame\<close>

definition kiss_idle :: "addr \<Rightarrow> addr \<Rightarrow> 'e node \<Rightarrow> bool" where
  "kiss_idle i d t \<longleftrightarrow> interface_data (iface t i) = Some d \<and> d < IF_MAX \<and> kiss_inv d t
     \<and> rx_mode (kiss t d) = KISS_MODE_NOT_STARTED \<and> \<not> kiss_full d t \<and> (rx_packet (kiss t d) = None \<longrightarrow> free_list (core t) \<noteq> [])"

lemma kiss_start_frame:
  assumes "kiss_start d isr t = Some t1"
  shows "qfifo_queue t1 = qfifo_queue t \<and> iflist t1 = iflist t \<and> csp_conf (core t1) = csp_conf (core t)
    \<and> rx_mode (kiss t1 d) = KISS_MODE_STARTED \<and> rx_length (kiss t1 d) = 0 \<and> rx_first (kiss t1 d)"
proof -
  have conf: "csp_conf (snd (csp_buffer_get_actual 0 b (core t))) = csp_conf (core t)" for b
    using get_actual_core(1) [of 0 b "core t"] by (metis prod.collapse)
  show ?thesis
  proof (cases "rx_packet (kiss t d)")
    case (Some p)
    then show ?thesis using assms by (auto simp: kiss_start_def setup_rx_effect upd_pkt_def on_core_def)
  next
    case None
    then show ?thesis
      using assms conf by (auto simp: kiss_start_def setup_rx_effect in_core_def csp_buffer_get_always_def csp_buffer_get_always_isr_def upd_pkt_def on_core_def
          split: option.splits if_splits)
  qed
qed

lemma kiss_first_bytes:
  assumes own: "own drv_held f t" and idle: "kiss_idle i d t"
  shows "\<exists>q t1. csp_kiss_rx i isr [FEND, TNC_DATA] t = Some t1 \<and> kiss_ready i d q t1 \<and> kiss_kept d f t t1
    \<and> qfifo_queue t1 = qfifo_queue t \<and> iflist t1 = iflist t \<and> csp_conf (core t1) = csp_conf (core t)"
proof -
  have i: "interface_data (iface t i) = Some d" "d < IF_MAX" "kiss_inv d t" using idle by (simp_all add: kiss_idle_def)
  have "kiss_start d isr t \<noteq> None"
  proof (cases "rx_packet (kiss t d)")
    case None
    then have "free_list (core t) \<noteq> []" using idle by (simp add: kiss_idle_def)
    then show ?thesis using kiss_start_kept [OF own i(3,2), of isr] by (auto split: option.splits)
  qed (simp add: kiss_start_def split_beta)
  then obtain t0 where t0: "kiss_start d isr t = Some t0" by blast
  have byte: "kiss_rx_byte i isr FEND t = Some t0" using t0 idle by (simp add: kiss_rx_byte_def kiss_idle_def Let_def)
  have k0: "kiss_kept d f t t0" using kiss_start_kept [OF own i(3,2), of isr] t0 by simp
  note fr = kiss_start_frame [OF t0]
  have inv0: "own drv_held f t0" "kiss_inv d t0" using k0 by (simp_all add: kiss_kept_def)
  then obtain q where q: "rx_packet (kiss t0 d) = Some q" "frame_begin (pkt t0 q) = (q, DATA_OFF - hdr_size (core t0))"
    using fr by (auto simp: kiss_inv_def)
  let ?t1 = "upd_kiss d (\<lambda>k. k\<lparr>rx_first := False\<rparr>) t0"
  have "\<not> kiss_full d t0" using q fr hdr_size_cases [of "core t0"] by (auto simp: kiss_full_def)
  then have second: "kiss_rx_byte i isr TNC_DATA t0 = Some ?t1" using fr i(1) by (simp add: kiss_rx_byte_def Let_def)
  have "kiss_ready i d q ?t1" using fr i(1) q by (simp add: kiss_ready_def)
  moreover have "kiss_kept d f t ?t1" by (rule kiss_kept_trans [OF k0 kiss_reset_kept(2) [OF inv0 i(2), of KISS_MODE_NOT_STARTED]]) simp
  ultimately show ?thesis using byte second fr by (intro exI [of _ q] exI [of _ ?t1]) simp
qed

text \<open>A payload that ends with a checksum of what precedes it, in one of the two ways the receiver accepts.\<close>

definition crc_like :: "u8 list \<Rightarrow> u8 list \<Rightarrow> bool" where
  "crc_like hdr body \<longleftrightarrow> (let front = take (length body - 4) body; tail = drop (length body - 4) body
     in tail = be_bytes 4 (csp_crc32_memory front) \<or> tail = be_bytes 4 (csp_crc32_memory (hdr @ front)))"

lemma crc32_refused:
  assumes pay: "payload s p = body" and n: "4 \<le> length body" "length body + hdr_size s < 2 ^ 16" and bad: "\<not> crc_like (id_bytes s (pkt_id (packet s p))) body"
  shows "\<exists>s'. csp_crc32_verify p s = (CSP_ERR_CRC32, s')"
proof -
  have len: "unat (pkt_length (packet s p)) = length body" using pay length_payload [of s p] by simp
  have "\<not> crc_accepts s p" using bad by (auto simp: crc_accepts_def crc_like_def Let_def len pay)
  then show ?thesis using csp_crc32_verify_cases [of s p] n len by simp
qed

text \<open>The closing byte: the frame is accepted, or lost when it fills the buffer.\<close>

lemma kiss_accept_frame:
  assumes r: "kiss_ready i d q t" and fits: "id_fits (core t) x"
    and fr: "frame = id_bytes (core t) x @ body @ be_bytes 4 (csp_crc32_memory body)" and room: "length body + 4 \<le> CSP_BUFFER_SIZE"
  shows "\<exists>c. kiss_accept i d isr q (kiss_mid d q frame t) =
      upd_kiss d (\<lambda>k. k\<lparr>rx_packet := None, rx_mode := KISS_MODE_NOT_STARTED\<rparr>) (csp_qfifo_write (Some q) (Some i) isr ((kiss_mid d q frame t)\<lparr>core := c\<rparr>))
    \<and> pkt_id (packet c q) = x \<and> payload c q = body"
proof -
  let ?m = "kiss_mid d q frame t"
  let ?n = "hdr_size (core t) + length (body @ be_bytes 4 (csp_crc32_memory body))"
  have n: "length frame = ?n" "?n < 2 ^ 16" using fr room hdr_size_cases [of "core t"] by auto
  define c1 where "c1 = upd_packet q (\<lambda>k. k\<lparr>frame_length := ucast (rx_length (kiss ?m d))\<rparr>) (core ?m)"
  have h: "hdr_size c1 = hdr_size (core t)" "id_bytes c1 = id_bytes (core t)" "id_fits c1 = id_fits (core t)"
    by (simp_all add: c1_def kiss_mid_def hdr_size_def id_bytes_def id_fits_def upd_pkt_def on_core_def fun_eq_iff)
  have fb: "frame_begin (packet c1 q) = (q, DATA_OFF - hdr_size c1)" using r h(1) by (simp add: c1_def kiss_ready_def)
  have "frame_bytes c1 q ?n = frame"
    using fb n(1) by (simp add: frame_bytes_def h(1)) (simp add: c1_def kiss_mid_def mem_write_same)
  moreover have "frame_length (packet c1 q) = of_nat ?n"
    using ucast_of_nat_small [of "length frame"] n by (simp add: c1_def del: of_nat_add)
  ultimately obtain c2 where c2: "csp_id_strip q c1 = (0, c2)" "pkt_id (packet c2 q) = x" "payload c2 q = body @ be_bytes 4 (csp_crc32_memory body)"
    using id_strip_received [OF fb, of "body @ be_bytes 4 (csp_crc32_memory body)" x] fits n(2) fr by (auto simp: h)
  have "length body + 4 + hdr_size c2 < 2 ^ 16" using room hdr_size_cases [of c2] by auto
  from crc32_received [OF c2(3) this] obtain c3 where c3: "csp_crc32_verify q c2 = (0, c3)" "payload c3 q = body" "pkt_id (packet c3 q) = pkt_id (packet c2 q)"
    by blast
  have "kiss_accept i d isr q ?m = upd_kiss d (\<lambda>k. k\<lparr>rx_packet := None, rx_mode := KISS_MODE_NOT_STARTED\<rparr>) (csp_qfifo_write (Some q) (Some i) isr (?m\<lparr>core := c3\<rparr>))"
    using c2(1) c3(1) by (simp add: kiss_accept_def in_core_def upd_pkt_def on_core_def c1_def)
  with c2 c3 show ?thesis by auto
qed

lemma kiss_reject_frame:
  assumes r: "kiss_ready i d q t" and fits: "id_fits (core t) x"
    and fr: "frame = id_bytes (core t) x @ body" and n: "4 \<le> length body" "length body \<le> CSP_BUFFER_SIZE"
    and bad: "\<not> crc_like (id_bytes (core t) x) body"
  shows "\<exists>c. kiss_accept i d isr q (kiss_mid d q frame t) =
      upd_kiss d (\<lambda>k. k\<lparr>rx_mode := KISS_MODE_NOT_STARTED\<rparr>) (upd_iface i (\<lambda>k. k\<lparr>if_frame := if_frame k + 1\<rparr>) ((kiss_mid d q frame t)\<lparr>core := c\<rparr>))"
proof -
  let ?m = "kiss_mid d q frame t"
  let ?n = "hdr_size (core t) + length body"
  have n2: "length frame = ?n" "?n < 2 ^ 16" using fr n hdr_size_cases [of "core t"] by auto
  define c1 where "c1 = upd_packet q (\<lambda>k. k\<lparr>frame_length := ucast (rx_length (kiss ?m d))\<rparr>) (core ?m)"
  have h: "hdr_size c1 = hdr_size (core t)" "id_bytes c1 = id_bytes (core t)" "id_fits c1 = id_fits (core t)"
    by (simp_all add: c1_def kiss_mid_def hdr_size_def id_bytes_def id_fits_def upd_pkt_def on_core_def fun_eq_iff)
  have fb: "frame_begin (packet c1 q) = (q, DATA_OFF - hdr_size c1)" using r h(1) by (simp add: c1_def kiss_ready_def)
  have "frame_bytes c1 q ?n = frame"
    using fb n2(1) by (simp add: frame_bytes_def h(1)) (simp add: c1_def kiss_mid_def mem_write_same)
  moreover have "frame_length (packet c1 q) = of_nat ?n"
    using ucast_of_nat_small [of "length frame"] n2 by (simp add: c1_def del: of_nat_add)
  ultimately obtain c2 where c2: "csp_id_strip q c1 = (0, c2)" "pkt_id (packet c2 q) = x" "payload c2 q = body"
    using id_strip_received [OF fb, of body x] fits n2(2) fr by (auto simp: h)
  have "id_bytes c2 = id_bytes (core t)" using c2(1) h(2) by (auto simp: csp_id_strip_eq id_bytes_def fun_eq_iff split: if_splits)
  moreover have "length body + hdr_size c2 < 2 ^ 16" using n hdr_size_cases [of c2] by auto
  ultimately obtain c3 where "csp_crc32_verify q c2 = (CSP_ERR_CRC32, c3)"
    using crc32_refused [OF c2(3) n(1)] bad c2(2) by metis
  then have "kiss_accept i d isr q ?m = upd_kiss d (\<lambda>k. k\<lparr>rx_mode := KISS_MODE_NOT_STARTED\<rparr>) (upd_iface i (\<lambda>k. k\<lparr>if_frame := if_frame k + 1\<rparr>) (?m\<lparr>core := c3\<rparr>))"
    using c2(1) by (simp add: kiss_accept_def in_core_def upd_pkt_def on_core_def c1_def)
  then show ?thesis by blast
qed

lemma kiss_last_byte:
  assumes r: "kiss_ready i d q t" and n: "0 < length frame" "length frame \<le> CSP_BUFFER_SIZE + hdr_size (core t)"
  shows "kiss_rx_byte i isr FEND (kiss_mid d q frame t) =
    (if length frame < CSP_BUFFER_SIZE + hdr_size (core t) then Some (kiss_accept i d isr q (kiss_mid d q frame t))
     else kiss_start d isr (upd_kiss d (\<lambda>k. k\<lparr>rx_mode := KISS_MODE_NOT_STARTED, rx_length := 0\<rparr>)
        (upd_iface i (\<lambda>k. k\<lparr>if_rx_error := if_rx_error k + 1\<rparr>) (kiss_mid d q frame t))))"
proof -
  have u: "unat (of_nat (length frame) :: u32) = length frame"
    using n hdr_size_cases [of "core t"] by (intro unat_of_nat_small) auto
  then have pos: "0 < (of_nat (length frame) :: u32)" using n(1) by (simp add: word_less_nat_alt)
  have full: "kiss_full d (kiss_mid d q frame t) \<longleftrightarrow> length frame = CSP_BUFFER_SIZE + hdr_size (core t)"
    using r n(2) hdr_size_cases [of "core t"] by (auto simp: kiss_full_def kiss_ready_def u)
  show ?thesis
    using r full pos n(2) by (auto simp: kiss_rx_byte_def kiss_ready_def kiss_end_def Let_def)
qed

section \<open>From one node to the other\<close>

text \<open>The checksum that \<open>csp_kiss_tx\<close> puts behind the payload: none when it does not fit the buffer.\<close>

definition kiss_crc :: "u8 list \<Rightarrow> u8 list" where
  "kiss_crc body = (if length body + 4 \<le> CSP_BUFFER_SIZE then be_bytes 4 (csp_crc32_memory body) else [])"

lemma csp_kiss_tx_line:
  assumes tf: "\<And>n v bs e. line (snd (tf n v bs e)) = line e @ bs" and len: "unat (pkt_length (pkt s p)) \<le> CSP_BUFFER_SIZE"
    and sent: "csp_kiss_tx tf i via p fm s = (r, s')"
  shows "line (hw (drv s')) = line (hw (drv s)) @ kiss_wire (id_bytes (core s) (pkt_id (pkt s p)) @ payload (core s) p @ kiss_crc (payload (core s) p))"
proof -
  let ?c = "snd (csp_crc32_append p (core s))"
  have c: "hdr_size ?c = hdr_size (core s) \<and> id_bytes ?c = id_bytes (core s) \<and> pkt_id (packet ?c p) = pkt_id (pkt s p)
      \<and> payload ?c p = payload (core s) p @ kiss_crc (payload (core s) p)"
  proof (cases "unat (pkt_length (pkt s p)) + 4 \<le> CSP_BUFFER_SIZE")
    case True
    from payload_append_crc [OF True] True show ?thesis
      by (simp add: kiss_crc_def length_payload csp_crc32_append_ok hdr_size_def id_bytes_def fun_eq_iff)
  next
    case False
    then show ?thesis by (simp add: csp_crc32_append_def kiss_crc_def length_payload)
  qed
  then have h: "hdr_size ?c = hdr_size (core s)" "id_bytes ?c = id_bytes (core s)" "pkt_id (packet ?c p) = pkt_id (pkt s p)"
    and pl: "payload ?c p = payload (core s) p @ kiss_crc (payload (core s) p)" by simp_all
  have "unat (pkt_length (packet ?c p)) + hdr_size ?c < 2 ^ 16"
    using arg_cong [OF pl, of length] len hdr_size_cases [of "core s"] by (auto simp: length_payload h kiss_crc_def split: if_splits)
  note data = frame_sent [OF this, unfolded h pl]
  have hw_free: "hw (drv (free_pkt p u)) = hw (drv u)" for u :: "'a node" by (simp add: free_pkt_def on_core_def)
  have call: "line (hw (drv (kiss_tx_call tf i bs u))) = line (hw (drv u)) @ bs" for bs and u :: "'a node"
    by (simp add: kiss_tx_call_def tf)
  have drv0: "drv (on_core g (snd (in_core h s))) = drv s" for g h by (simp add: on_core_def in_core_def)
  have core0: "core (on_core (csp_id_prepend p) (snd (in_core (csp_crc32_append p) s))) = csp_id_prepend p ?c" by (simp add: on_core_def in_core_def)
  from sent show ?thesis
    by (auto simp: csp_kiss_tx_def Let_def hw_free call kiss_tx_line [of line tf, OF tf] drv0 core0 data kiss_wire_def simp del: csp_id_prepend_self)
qed

lemma rx_three:
  assumes "csp_kiss_rx j isr xs t = Some t1" "csp_kiss_rx j isr ys t1 = Some t2"
  shows "csp_kiss_rx j isr (xs @ ys @ [b]) t = kiss_rx_byte j isr b t2"
  using assms by (cases "kiss_rx_byte j isr b t2") (simp_all add: csp_kiss_rx_append)

text \<open>Up to the closing byte.\<close>

lemma kiss_wire_run:
  assumes own: "own drv_held f t" and idle: "kiss_idle j d t" and n: "length fr \<le> CSP_BUFFER_SIZE + hdr_size (core t)"
  obtains q t1 where "csp_kiss_rx j isr (kiss_wire fr) t = kiss_rx_byte j isr FEND (kiss_mid d q fr t1)" "kiss_ready j d q t1"
    "qfifo_queue t1 = qfifo_queue t" "iflist t1 = iflist t" "csp_conf (core t1) = csp_conf (core t)"
proof -
  obtain q t1 where t1: "csp_kiss_rx j isr [FEND, TNC_DATA] t = Some t1" "kiss_ready j d q t1"
      "qfifo_queue t1 = qfifo_queue t" "iflist t1 = iflist t" "csp_conf (core t1) = csp_conf (core t)"
    using kiss_first_bytes [OF own idle] by blast
  have h: "hdr_size (core t1) = hdr_size (core t)" using t1(5) by (simp add: hdr_size_def csp_version_def)
  have start: "kiss_mid d q [] t1 = t1"
    using t1(2) by (cases "kiss t1 d") (simp add: kiss_mid_def kiss_ready_def upd_kiss_def upd_pkt_def on_core_def upd_packet_id fun_upd_idem_iff)
  have mid: "csp_kiss_rx j isr (concat (map kiss_escape fr)) t1 = Some (kiss_mid d q fr t1)"
    using kiss_mid_frame [OF t1(2), of "[]" fr isr] n h by (simp add: start)
  show thesis
    by (rule that [OF _ t1(2-5)]) (unfold kiss_wire_def, rule rx_three [OF t1(1) mid])
qed

text \<open>A frame that fills the buffer.\<close>

lemma kiss_full_lost:
  assumes own: "own drv_held f t" and idle: "kiss_idle j d t" and n: "length fr = CSP_BUFFER_SIZE + hdr_size (core t)"
  shows "\<exists>t'. csp_kiss_rx j isr (kiss_wire fr) t = Some t' \<and> qfifo_queue t' = qfifo_queue t \<and> if_rx_error (iface t' j) = if_rx_error (iface t j) + 1"
proof -
  obtain q t1 where run: "csp_kiss_rx j isr (kiss_wire fr) t = kiss_rx_byte j isr FEND (kiss_mid d q fr t1)" and r: "kiss_ready j d q t1"
      and t1: "qfifo_queue t1 = qfifo_queue t" "iflist t1 = iflist t" "csp_conf (core t1) = csp_conf (core t)"
    using kiss_wire_run [OF own idle, of fr isr] n by auto
  have h: "hdr_size (core t1) = hdr_size (core t)" using t1(3) by (simp add: hdr_size_def csp_version_def)
  let ?u = "upd_kiss d (\<lambda>k. k\<lparr>rx_mode := KISS_MODE_NOT_STARTED, rx_length := 0\<rparr>) (upd_iface j (\<lambda>k. k\<lparr>if_rx_error := if_rx_error k + 1\<rparr>) (kiss_mid d q fr t1))"
  have rx: "csp_kiss_rx j isr (kiss_wire fr) t = kiss_start d isr ?u" using run kiss_last_byte [OF r, of fr isr] n h by simp
  have "rx_packet (kiss ?u d) = Some q" using r by (simp add: kiss_ready_def)
  then obtain t' where t': "kiss_start d isr ?u = Some t'" by (simp add: kiss_start_def split_beta)
  have "qfifo_queue ?u = qfifo_queue t" "if_rx_error (iface ?u j) = if_rx_error (iface t j) + 1"
    using t1(1,2) by (simp_all add: kiss_mid_def upd_pkt_def on_core_def upd_iface_def)
  with kiss_start_frame [OF t'] rx t' show ?thesis by auto
qed

lemma kiss_crc_rejected:
  assumes own: "own drv_held f t" and idle: "kiss_idle j d t" and fits: "id_fits (core t) x"
    and n: "4 \<le> length body" "length body < CSP_BUFFER_SIZE" and bad: "\<not> crc_like (id_bytes (core t) x) body"
  shows "\<exists>t'. csp_kiss_rx j isr (kiss_wire (id_bytes (core t) x @ body)) t = Some t' \<and> qfifo_queue t' = qfifo_queue t
    \<and> if_frame (iface t' j) = if_frame (iface t j) + 1"
proof -
  let ?fr = "id_bytes (core t) x @ body"
  obtain q t1 where run: "csp_kiss_rx j isr (kiss_wire ?fr) t = kiss_rx_byte j isr FEND (kiss_mid d q ?fr t1)" and r: "kiss_ready j d q t1"
      and t1: "qfifo_queue t1 = qfifo_queue t" "iflist t1 = iflist t" "csp_conf (core t1) = csp_conf (core t)"
    using kiss_wire_run [OF own idle, of ?fr isr] n by auto
  have same: "id_bytes (core t1) = id_bytes (core t)" "id_fits (core t1) = id_fits (core t)" "hdr_size (core t1) = hdr_size (core t)"
    using t1(3) by (simp_all add: id_bytes_def id_fits_def hdr_size_def csp_version_def fun_eq_iff)
  have last: "kiss_rx_byte j isr FEND (kiss_mid d q ?fr t1) = Some (kiss_accept j d isr q (kiss_mid d q ?fr t1))"
    using kiss_last_byte [OF r, of ?fr isr] n same by (cases body) auto
  from kiss_reject_frame [OF r, of x ?fr body isr] fits n bad same obtain c where
    "kiss_accept j d isr q (kiss_mid d q ?fr t1) = upd_kiss d (\<lambda>k. k\<lparr>rx_mode := KISS_MODE_NOT_STARTED\<rparr>)
       (upd_iface j (\<lambda>k. k\<lparr>if_frame := if_frame k + 1\<rparr>) ((kiss_mid d q ?fr t1)\<lparr>core := c\<rparr>))"
    by auto
  then show ?thesis using run last t1(1,2) by (simp add: kiss_mid_def upd_pkt_def on_core_def upd_iface_def)
qed

lemma kiss_wire_received:
  assumes own: "own drv_held f t" and idle: "kiss_idle j d t" and fits: "id_fits (core t) x" and n: "length body + 4 < CSP_BUFFER_SIZE"
    and room: "length (queue_list (qfifo_queue t)) < q_size (qfifo_queue t)"
  shows "\<exists>t' q. csp_kiss_rx j isr (kiss_wire (id_bytes (core t) x @ body @ be_bytes 4 (csp_crc32_memory body))) t = Some t'
    \<and> queue_list (qfifo_queue t') = queue_list (qfifo_queue t) @ [\<lparr>qf_iface = Some j, qf_packet = Some q\<rparr>]
    \<and> pkt_id (pkt t' q) = x \<and> payload (core t') q = body \<and> rx_mode (kiss t' d) = KISS_MODE_NOT_STARTED \<and> rx_packet (kiss t' d) = None"
proof -
  let ?fr = "id_bytes (core t) x @ body @ be_bytes 4 (csp_crc32_memory body)"
  obtain q t1 where run: "csp_kiss_rx j isr (kiss_wire ?fr) t = kiss_rx_byte j isr FEND (kiss_mid d q ?fr t1)" and r: "kiss_ready j d q t1"
      and t1: "qfifo_queue t1 = qfifo_queue t" "iflist t1 = iflist t" "csp_conf (core t1) = csp_conf (core t)"
    using kiss_wire_run [OF own idle, of ?fr isr] n by auto
  have same: "id_bytes (core t1) = id_bytes (core t)" "id_fits (core t1) = id_fits (core t)" "hdr_size (core t1) = hdr_size (core t)"
    using t1(3) by (simp_all add: id_bytes_def id_fits_def hdr_size_def csp_version_def fun_eq_iff)
  have last: "kiss_rx_byte j isr FEND (kiss_mid d q ?fr t1) = Some (kiss_accept j d isr q (kiss_mid d q ?fr t1))"
    using kiss_last_byte [OF r, of ?fr isr] n same by auto
  obtain c where c: "kiss_accept j d isr q (kiss_mid d q ?fr t1) =
      upd_kiss d (\<lambda>k. k\<lparr>rx_packet := None, rx_mode := KISS_MODE_NOT_STARTED\<rparr>) (csp_qfifo_write (Some q) (Some j) isr ((kiss_mid d q ?fr t1)\<lparr>core := c\<rparr>))"
      "pkt_id (packet c q) = x" "payload c q = body"
    using kiss_accept_frame [OF r, of x ?fr body isr] fits same n by auto
  have ok: "queue_ok (qfifo_queue t)" using own by (simp add: own_def queues_ok_def)
  have qf: "qfifo_queue ((kiss_mid d q ?fr t1)\<lparr>core := c\<rparr>) = qfifo_queue t"
    using t1(1) by (simp add: kiss_mid_def upd_pkt_def on_core_def)
  obtain q' where "csp_qfifo_write (Some q) (Some j) isr ((kiss_mid d q ?fr t1)\<lparr>core := c\<rparr>) = (kiss_mid d q ?fr t1)\<lparr>core := c, qfifo_queue := q'\<rparr>"
      "queue_list q' = queue_list (qfifo_queue t) @ [\<lparr>qf_iface = Some j, qf_packet = Some q\<rparr>]"
    using qfifo_write_room [of "(kiss_mid d q ?fr t1)\<lparr>core := c\<rparr>" q j isr] ok room unfolding qf by auto
  with run last c show ?thesis by auto
qed

text \<open>C25. A KISS link is transparent: the bytes \<open>csp_kiss_tx\<close> puts on the line for a packet of up
  to 251 bytes, whatever they are, make the idle receiver of another node put a packet
  with the same identifier and payload into its router queue, ready for the next
  frame, with all buffers accounted for. Longer payloads, which a buffer holds, are lost: with 252 bytes the
  frame with its checksum fills the buffer and the receiver takes the closing byte for an overflow; with more
  the checksum does not fit, \<open>csp_kiss_tx\<close> ignores the error and sends the frame without it, which the
  receiver counts as an overflow (256 bytes) or rejects (253 to 255 bytes, unless the last four bytes
  happen to be a checksum of those before).\<close>

theorem csp_kiss_transfer:
  assumes tf: "\<And>n v bs e. line (snd (tf n v bs e)) = line e @ bs" and sent: "csp_kiss_tx tf i via p fm s = (r, s')"
    and line: "line (hw (drv s')) = line (hw (drv s)) @ bytes"
    and fits: "id_fits (core s) (pkt_id (pkt s p))" and len: "n = unat (pkt_length (pkt s p))" "n \<le> CSP_BUFFER_SIZE"
    and own: "own drv_held f t" and idle: "kiss_idle j d t" and ver: "ver t = ver s"
    and room: "length (queue_list (qfifo_queue t)) < q_size (qfifo_queue t)"
    and bad: "252 < n \<Longrightarrow> n < 256 \<Longrightarrow> \<not> crc_like (id_bytes (core s) (pkt_id (pkt s p))) (payload (core s) p)"
  shows "\<exists>t'. csp_kiss_rx j isr bytes t = Some t' \<and> own drv_held f t' \<and>
    (if n < 252
     then \<exists>q. queue_list (qfifo_queue t') = queue_list (qfifo_queue t) @ [\<lparr>qf_iface = Some j, qf_packet = Some q\<rparr>]
       \<and> pkt_id (pkt t' q) = pkt_id (pkt s p) \<and> payload (core t') q = payload (core s) p
       \<and> rx_mode (kiss t' d) = KISS_MODE_NOT_STARTED \<and> rx_packet (kiss t' d) = None
     else qfifo_queue t' = qfifo_queue t \<and>
       (if n = 252 \<or> n = 256 then if_rx_error (iface t' j) = if_rx_error (iface t j) + 1
        else if_frame (iface t' j) = if_frame (iface t j) + 1))"
proof -
  let ?x = "pkt_id (pkt s p)" and ?body = "payload (core s) p"
  have n: "length ?body = n" using len(1) by (simp add: length_payload)
  have id: "id_bytes (core s) = id_bytes (core t)" "id_fits (core t) ?x" using fits ver by (simp_all add: id_bytes_def id_fits_def fun_eq_iff)
  have bytes: "bytes = kiss_wire (id_bytes (core t) ?x @ ?body @ kiss_crc ?body)"
    using csp_kiss_tx_line [OF tf _ sent] len line id(1) by simp
  consider "n < 252" | "n = 252 \<or> n = 256" | "252 < n" "n < 256" using len(2) by linarith
  then obtain t' where t': "csp_kiss_rx j isr bytes t = Some t'"
    "(if n < 252
     then \<exists>q. queue_list (qfifo_queue t') = queue_list (qfifo_queue t) @ [\<lparr>qf_iface = Some j, qf_packet = Some q\<rparr>]
       \<and> pkt_id (pkt t' q) = ?x \<and> payload (core t') q = ?body
       \<and> rx_mode (kiss t' d) = KISS_MODE_NOT_STARTED \<and> rx_packet (kiss t' d) = None
     else qfifo_queue t' = qfifo_queue t \<and>
       (if n = 252 \<or> n = 256 then if_rx_error (iface t' j) = if_rx_error (iface t j) + 1
        else if_frame (iface t' j) = if_frame (iface t j) + 1))"
  proof cases
    case 1
    with kiss_wire_received [OF own idle id(2) _ room, of ?body isr] n that show thesis by (auto simp: bytes kiss_crc_def)
  next
    case 2
    then have "length (id_bytes (core t) ?x @ ?body @ kiss_crc ?body) = CSP_BUFFER_SIZE + hdr_size (core t)" using n by (auto simp: kiss_crc_def)
    from kiss_full_lost [OF own idle this, of isr] 2 that show thesis by (auto simp: bytes)
  next
    case 3
    with kiss_crc_rejected [OF own idle id(2), of ?body isr] n bad id(1) that show thesis by (auto simp: bytes kiss_crc_def)
  qed
  moreover have "own drv_held f t'"
    using csp_kiss_rx_kept [OF own _ _ _ t'(1)] idle by (auto simp: kiss_idle_def kiss_kept_def)
  ultimately show ?thesis by blast
qed

theorem csp_kiss_transfer_witness:
  "\<exists>t'. csp_kiss_rx 1 False (hw (drv (snd (csp_kiss_tx (\<lambda>_ _ bs e. (0, e @ bs)) 1 0 0 True (example_wired []))))) (example_wired ([] :: u8 list)) = Some t'
     \<and> own drv_held (tok 0 (\<lambda>_. 0)) t'
     \<and> (\<exists>q. queue_list (qfifo_queue t') = [\<lparr>qf_iface = Some 1, qf_packet = Some q\<rparr>] \<and> payload (core t') q = [])"
proof -
  let ?s = "example_wired [] :: u8 list node" and ?tf = "\<lambda>(_::nat) (_::addr option) (bs::u8 list) e. (0::int, e @ bs)"
  have p: "pkt ?s 0 = fresh_packet 0" "free_list (core ?s) = [1..<15]" by (simp_all add: example_wired_facts(4) example_sender_pkt)
  have idle: "kiss_idle 1 0 ?s"
    using p(2) by (simp add: kiss_idle_def example_wired_facts kiss_inv_def kiss_full_def del: One_nat_def)
  have fits: "id_fits (core ?s) (pkt_id (pkt ?s 0))"
    by (simp add: id_fits_def example_wired_facts(4) example_sender_frame(2) example_sender_pkt fresh_packet_def zero_packet_def zero_id_def id2_fits_def)
  have len: "unat (pkt_length (pkt ?s 0)) = 0" by (simp add: p fresh_packet_def zero_packet_def)
  have pay: "payload (core ?s) 0 = []" using len length_payload [of "core ?s" 0] by (metis length_0_conv)
  obtain r s' where sent: "csp_kiss_tx ?tf 1 0 0 True ?s = (r, s')" by fastforce
  have q: "queue_list (qfifo_queue ?s) = []" "q_size (qfifo_queue ?s) = CSP_QFIFO_LEN" by (simp_all add: example_wired_facts(3))
  have line: "hw (drv s') = hw (drv ?s) @ hw (drv s')" by (simp add: example_wired_facts(6))
  from csp_kiss_transfer [where line = "\<lambda>e. e" and isr = False, OF _ sent line fits refl _ example_wired_facts(1) idle refl] len q pay sent show ?thesis
    by auto
qed

text \<open>C27. The receiver survives every input: for all byte sequences, well formed or not,
  \<open>csp_kiss_rx\<close> keeps its accounts and its invariant (what it stores lies in the buffer of
  the frame), changes no packet in use other than the one it receives, and returns unless
  the pool runs out of buffers, in which case the code stops in its panic loop.\<close>

theorem csp_kiss_rx_robust:
  assumes own: "own drv_held f s" and inv: "kiss_inv d s" "d < IF_MAX" "interface_data (iface s i) = Some d"
  shows "(case csp_kiss_rx i isr bs s of
      Some s' \<Rightarrow> own drv_held f s' \<and> kiss_inv d s'
        \<and> (\<forall>q. 0 < buf_refs (core s) q \<and> rx_packet (kiss s d) \<noteq> Some q \<longrightarrow> pkt s' q = pkt s q \<and> 0 < buf_refs (core s') q)
    | None \<Rightarrow> \<exists>k<length bs. \<exists>t. csp_kiss_rx i isr (take k bs) s = Some t \<and> free_list (core t) = [])"
proof (cases "csp_kiss_rx i isr bs s")
  case None
  with csp_kiss_rx_stuck [OF own inv None] show ?thesis by simp
next
  case (Some s')
  with csp_kiss_rx_kept [OF own inv Some] show ?thesis by (auto simp: kiss_kept_def dest: order.strict_trans2)
qed

theorem csp_kiss_rx_robust_witness:
  "case csp_kiss_rx 1 True [0xC0, 0, 0xDB, 0xC0, 0xDB, 0xDD, 0xC0] (example_wired ()) of
     Some s' \<Rightarrow> own drv_held (tok 0 (\<lambda>_. 0)) s' \<and> pkt s' 0 = fresh_packet 0
   | None \<Rightarrow> \<exists>k<7. \<exists>t. csp_kiss_rx 1 True (take k [0xC0, 0, 0xDB, 0xC0, 0xDB, 0xDD, 0xC0]) (example_wired ()) = Some t \<and> free_list (core t) = []"
proof -
  have inv: "kiss_inv 0 (example_wired ())" by (simp add: kiss_inv_def example_wired_facts(7))
  have "0 < buf_refs (core (example_wired ())) 0"
    using example_wired_facts(1) [of "()"] by (simp add: own_def tok_def)
  then show ?thesis
    using csp_kiss_rx_robust [OF example_wired_facts(1) inv _ example_wired_facts(2), where isr = True and bs = "[0xC0, 0, 0xDB, 0xC0, 0xDB, 0xDD, 0xC0]"]
    by (auto simp: example_wired_facts(4,7) example_sender_pkt eval_nat_numeral simp del: csp_kiss_rx.simps split: option.splits)
qed

interpretation kiss_tx: nexthop_contract "\<lambda>_. csp_kiss_tx tf" drv_held for tf
proof
  fix p :: addr and f s n i via fm and r :: int and s'
  assume own: "own drv_held (tok p f) s" and run: "csp_kiss_tx tf i via p fm s = (r, s')"
  from csp_kiss_tx_contract [OF this] show "own drv_held (if r = 0 then f else tok p f) s'" "tx_frame s s'" "pkts_kept {p} s s'"
    by simp_all
qed

end
