(* ===== verification/CSP_Pbuf.thy ===== *)
theory CSP_Pbuf
  imports CSP_Frames
begin

text \<open>
  Lists of packets in reception, linked through the packets: the loops that the CAN and the
  Ethernet interface have in \<^verbatim>\<open>src/src/interfaces/csp_if_can_pbuf.c\<close> and
  \<^verbatim>\<open>src/src/interfaces/csp_if_eth_pbuf.c\<close>, over the assignment \<open>sh\<close> to the head of the list. They
  follow the pointers in memory, so they are partial: \<open>None\<close> is a walk that never ends. On a
  chain without repetition they are functions on its list. The locale \<open>pbuf_list\<close> is what they
  need of the interface data that holds the head.
\<close>

section \<open>Loops\<close>

abbreviation (input) PBUF_TIMEOUT_MS :: u32 where "PBUF_TIMEOUT_MS \<equiv> 1000"

text \<open>Erasing a packet from the list: \<open>prev->next = packet->next\<close>, or the head.\<close>

definition pbuf_unlink :: "(addr option \<Rightarrow> 'e node \<Rightarrow> 'e node) \<Rightarrow> addr option \<Rightarrow> addr \<Rightarrow> 'e node \<Rightarrow> 'e node" where
  "pbuf_unlink sh prev p s =
     (case prev of
        Some v \<Rightarrow> upd_pkt v (\<lambda>k. k\<lparr>pkt_next := pkt_next (pkt s p)\<rparr>) s
      | None \<Rightarrow> sh (pkt_next (pkt s p)) s)"

definition pbuf_buffer_free :: "bool \<Rightarrow> addr \<Rightarrow> 'e node \<Rightarrow> 'e node" where
  "pbuf_buffer_free isr p s = on_core (if isr then csp_buffer_free_isr (Some p) else csp_buffer_free (Some p)) s"

partial_function (option) pbuf_free_loop ::
  "(addr option \<Rightarrow> 'e node \<Rightarrow> 'e node) \<Rightarrow> addr \<Rightarrow> bool \<Rightarrow> bool \<Rightarrow> addr option \<Rightarrow> addr option \<Rightarrow> 'e node \<Rightarrow> 'e node option" where
  "pbuf_free_loop sh buffer buf_free isr prev cur s =
     (case cur of
        None \<Rightarrow> Some s
      | Some p \<Rightarrow>
          let s = (if p = buffer
                   then let s = pbuf_unlink sh prev p s in if buf_free then pbuf_buffer_free isr p s else s
                   else s)
          in pbuf_free_loop sh buffer buf_free isr (Some p) (pkt_next (pkt s p)) s)"

partial_function (option) pbuf_cleanup_loop ::
  "(addr option \<Rightarrow> 'e node \<Rightarrow> 'e node) \<Rightarrow> u32 \<Rightarrow> bool \<Rightarrow> addr option \<Rightarrow> addr option \<Rightarrow> 'e node \<Rightarrow> 'e node option" where
  "pbuf_cleanup_loop sh now isr prev cur s =
     (case cur of
        None \<Rightarrow> Some s
      | Some p \<Rightarrow>
          let s = (if now - last_used (pkt s p) > PBUF_TIMEOUT_MS then pbuf_buffer_free isr p (pbuf_unlink sh prev p s) else s)
          in pbuf_cleanup_loop sh now isr (Some p) (pkt_next (pkt s p)) s)"

text \<open>The first packet with \<open>P\<close>, which is marked as used.\<close>

partial_function (option) pbuf_find_loop :: "(csp_packet \<Rightarrow> bool) \<Rightarrow> addr option \<Rightarrow> 'e node \<Rightarrow> (addr option \<times> 'e node) option" where
  "pbuf_find_loop P cur s =
     (case cur of
        None \<Rightarrow> Some (None, s)
      | Some p \<Rightarrow>
          if P (pkt s p) then Some (Some p, upd_pkt p (\<lambda>k. k\<lparr>last_used := csp_ms (core s)\<rparr>) s)
          else pbuf_find_loop P (pkt_next (pkt s p)) s)"

section \<open>Chains\<close>

fun pchain :: "csp_core \<Rightarrow> addr option \<Rightarrow> addr list \<Rightarrow> bool" where
  "pchain c cur [] \<longleftrightarrow> cur = None"
| "pchain c cur (p # ps) \<longleftrightarrow> cur = Some p \<and> pchain c (pkt_next (packet c p)) ps"

definition hd_opt :: "addr list \<Rightarrow> addr option" where
  "hd_opt xs = (case xs of [] \<Rightarrow> None | p # _ \<Rightarrow> Some p)"

definition last_opt :: "addr option \<Rightarrow> addr list \<Rightarrow> addr option" where
  "last_opt prev xs = (if xs = [] then prev else Some (last xs))"

definition toks :: "addr list \<Rightarrow> (addr \<Rightarrow> nat) \<Rightarrow> addr \<Rightarrow> nat" where
  "toks xs f p = f p + count_list xs p"

definition plist :: "('e node \<Rightarrow> addr option) \<Rightarrow> 'e node \<Rightarrow> addr list \<Rightarrow> bool" where
  "plist gh s xs \<longleftrightarrow> pchain (core s) (gh s) xs \<and> distinct xs"

lemma toks_simps [simp]: "toks [] f = f" "toks (p # xs) f = tok p (toks xs f)" "toks (xs @ p # ys) f = tok p (toks (xs @ ys) f)"
  by (auto simp: toks_def fun_eq_iff tok_apply)

lemma pchain_hd: "pchain c cur xs \<Longrightarrow> cur = hd_opt xs"
  by (cases xs) (simp_all add: hd_opt_def)

lemma pchain_append:
  "pchain c cur (xs @ ys) \<longleftrightarrow> (if xs = [] then pchain c cur ys else cur = Some (hd xs) \<and> pchain c cur (xs @ ys))"
  by (cases xs) auto

lemma pchain_cong: "(\<And>q. q \<in> set xs \<Longrightarrow> pkt_next (packet c' q) = pkt_next (packet c q)) \<Longrightarrow> pchain c' cur xs = pchain c cur xs"
  by (induction xs arbitrary: cur) auto

lemma pchain_split: "pchain c cur (xs @ ys) \<Longrightarrow> xs \<noteq> [] \<Longrightarrow> pchain c (pkt_next (packet c (last xs))) ys"
  by (induction xs arbitrary: cur) (auto split: if_splits)

text \<open>Redirecting the last pointer of a segment.\<close>

lemma pchain_join:
  assumes "pchain c cur (xs @ ys)" "xs \<noteq> []" "distinct (xs @ zs)" "pchain c' (pkt_next (packet c' (last xs))) zs"
    "\<And>q. q \<in> set xs \<Longrightarrow> q \<noteq> last xs \<Longrightarrow> pkt_next (packet c' q) = pkt_next (packet c q)"
  shows "pchain c' cur (xs @ zs)"
  using assms
proof (induction xs arbitrary: cur)
  case (Cons x xs)
  show ?case
  proof (cases "xs = []")
    case True
    then show ?thesis using Cons.prems by simp
  next
    case False
    have "x \<noteq> last xs" using Cons.prems(3) False last_in_set [OF False] by auto
    then have "pkt_next (packet c' x) = pkt_next (packet c x)" using Cons.prems(5) [of x] False by simp
    moreover have "pchain c' (pkt_next (packet c x)) (xs @ zs)"
      using Cons.prems False by (intro Cons.IH) auto
    ultimately show ?thesis using Cons.prems(1) by simp
  qed
qed simp

text \<open>Cleaning up is right if no two neighbours are old.\<close>

definition pbuf_expired :: "u32 \<Rightarrow> csp_core \<Rightarrow> addr \<Rightarrow> bool" where
  "pbuf_expired now c p \<longleftrightarrow> now - last_used (packet c p) > PBUF_TIMEOUT_MS"

fun apart :: "(addr \<Rightarrow> bool) \<Rightarrow> addr list \<Rightarrow> bool" where
  "apart P (x # y # zs) \<longleftrightarrow> \<not> (P x \<and> P y) \<and> apart P (y # zs)"
| "apart P xs \<longleftrightarrow> True"

text \<open>What the operations on the list leave alone: all but the links of the packets in \<open>P\<close> and the pool.\<close>

definition pkept :: "(addr option \<Rightarrow> 'e node \<Rightarrow> 'e node) \<Rightarrow> addr set \<Rightarrow> 'e node \<Rightarrow> 'e node \<Rightarrow> bool" where
  "pkept sh P s s' \<longleftrightarrow> (\<exists>c h. s' = sh h (s\<lparr>core := c\<rparr>))
     \<and> csp_conf (core s') = csp_conf (core s) \<and> csp_ms (core s') = csp_ms (core s)
     \<and> (\<forall>q. q \<notin> P \<longrightarrow> pkt s' q = pkt s q) \<and> (\<forall>q. \<exists>n. pkt s' q = (pkt s q)\<lparr>pkt_next := n\<rparr>)"

lemma next_id: "\<exists>n. k = k\<lparr>pkt_next := n\<rparr>"
  by (rule exI [of _ "pkt_next k"]) simp

lemma pbuf_buffer_free_eq: "pbuf_buffer_free isr p s = free_pkt p s"
  by (simp add: pbuf_buffer_free_def free_pkt_def)

lemma free_pkt_pkt: "pkt (free_pkt p s) = pkt s"
  by (simp add: free_pkt_def on_core_def fun_eq_iff)

lemma pbuf_find_chain:
  "pchain (core s) cur xs \<Longrightarrow> pbuf_find_loop P cur s = Some
     (case find (\<lambda>p. P (pkt s p)) xs of None \<Rightarrow> (None, s)
      | Some p \<Rightarrow> (Some p, upd_pkt p (\<lambda>k. k\<lparr>last_used := csp_ms (core s)\<rparr>) s))"
proof (induction xs arbitrary: cur)
  case Nil
  then show ?case by (subst pbuf_find_loop.simps) simp
next
  case (Cons p ps)
  then show ?case by (subst pbuf_find_loop.simps) auto
qed

lemma pkept_fields:
  assumes "pkept sh P s s'"
  shows "last_used (pkt s' q) = last_used (pkt s q)" "cfpid (pkt s' q) = cfpid (pkt s q)" "pbuf_expired now (core s') = pbuf_expired now (core s)"
proof -
  have "\<exists>n. pkt s' q = (pkt s q)\<lparr>pkt_next := n\<rparr>" for q using assms by (simp add: pkept_def)
  then have "last_used (pkt s' q) = last_used (pkt s q) \<and> cfpid (pkt s' q) = cfpid (pkt s q)" for q
    by (metis csp_packet.select_convs(5,6) csp_packet.surjective csp_packet.update_convs(11))
  then show "last_used (pkt s' q) = last_used (pkt s q)" "cfpid (pkt s' q) = cfpid (pkt s q)" "pbuf_expired now (core s') = pbuf_expired now (core s)"
    by (simp_all add: pbuf_expired_def fun_eq_iff)
qed

text \<open>A list with at most one old packet, which cleaning up handles. Handling a frame takes no time and
  marks packets only as used now, so that no packet grows old by it.\<close>

definition one_expired :: "csp_core \<Rightarrow> addr list \<Rightarrow> bool" where
  "one_expired c xs \<longleftrightarrow> (\<forall>q\<in>set xs. \<forall>r\<in>set xs. pbuf_expired (csp_ms c) c q \<longrightarrow> pbuf_expired (csp_ms c) c r \<longrightarrow> q = r)"

lemma one_expired_apart: "one_expired c xs \<Longrightarrow> distinct xs \<Longrightarrow> apart (pbuf_expired (csp_ms c) c) xs"
  by (induction xs rule: induct_list012) (auto simp: one_expired_def)

definition refreshed :: "'e node \<Rightarrow> 'e node \<Rightarrow> bool" where
  "refreshed s s' \<longleftrightarrow> csp_ms (core s') = csp_ms (core s)
     \<and> (\<forall>q. last_used (pkt s' q) = last_used (pkt s q) \<or> last_used (pkt s' q) = csp_ms (core s))"

lemma refreshed_refl [simp]: "refreshed s s"
  by (simp add: refreshed_def)

lemma refreshed_trans: "refreshed a b \<Longrightarrow> refreshed b c \<Longrightarrow> refreshed a c"
  unfolding refreshed_def by metis

lemma refreshed_upd [simp]: "last_used (g (pkt s p)) = last_used (pkt s p) \<or> last_used (g (pkt s p)) = csp_ms (core s) \<Longrightarrow> refreshed s (upd_pkt p g s)"
  by (auto simp: refreshed_def upd_pkt_def on_core_def)

lemma refreshed_upds [simp]: "refreshed s (upd_iface i h s)" "refreshed s (free_pkt p s)"
  by (auto simp: refreshed_def free_pkt_def on_core_def)

lemma refreshed_next:
  assumes "\<And>q. q \<noteq> p \<Longrightarrow> \<exists>n. pkt s' q = (pkt s q)\<lparr>pkt_next := n\<rparr>" "last_used (pkt s' p) = csp_ms (core s)" "csp_ms (core s') = csp_ms (core s)"
  shows "refreshed s s'"
proof -
  have "last_used (pkt s' q) = last_used (pkt s q)" if "q \<noteq> p" for q using assms(1) [OF that] by auto
  with assms(2,3) show ?thesis unfolding refreshed_def by metis
qed

lemma refreshed_kept: "pkept sh P s s' \<Longrightarrow> refreshed s s'"
  using pkept_fields(1) [of sh P s s'] by (simp add: refreshed_def pkept_def)

text \<open>The list \<open>zs\<close> at the end holds packets of the list \<open>xs\<close> at the start and new ones.\<close>

lemma refreshed_list:
  assumes "refreshed s t" "refreshed t s'" "\<forall>q\<in>set zs. q \<in> set xs \<or> last_used (pkt t q) = csp_ms (core s)"
  shows "csp_ms (core s') = csp_ms (core s)"
    "\<forall>q\<in>set zs. pbuf_expired (csp_ms (core s')) (core s') q \<longrightarrow> q \<in> set xs \<and> pbuf_expired (csp_ms (core s)) (core s) q"
    "one_expired (core s) xs \<Longrightarrow> one_expired (core s') zs"
proof -
  show ms: "csp_ms (core s') = csp_ms (core s)" using assms(1,2) by (simp add: refreshed_def)
  have "last_used (pkt s' q) \<noteq> csp_ms (core s)" if "pbuf_expired (csp_ms (core s)) (core s') q" for q using that by (auto simp: pbuf_expired_def)
  moreover have "last_used (pkt s' q) = last_used (pkt t q) \<or> last_used (pkt s' q) = csp_ms (core s)"
    "last_used (pkt t q) = last_used (pkt s q) \<or> last_used (pkt t q) = csp_ms (core s)" for q
    using assms(1,2) by (simp_all add: refreshed_def)
  ultimately have same: "last_used (pkt s' q) = last_used (pkt t q)" "last_used (pkt t q) = last_used (pkt s q)" "last_used (pkt t q) \<noteq> csp_ms (core s)"
    if "pbuf_expired (csp_ms (core s)) (core s') q" for q using that by metis+
  then show sub: "\<forall>q\<in>set zs. pbuf_expired (csp_ms (core s')) (core s') q \<longrightarrow> q \<in> set xs \<and> pbuf_expired (csp_ms (core s)) (core s) q"
    unfolding ms using assms(3) by (auto simp: pbuf_expired_def)
  then show "one_expired (core s) xs \<Longrightarrow> one_expired (core s') zs" unfolding one_expired_def by blast
qed

text \<open>Nothing is stored behind the end of \<^verbatim>\<open>data\<close> of a packet.\<close>

definition mem_bounded :: "csp_core \<Rightarrow> bool" where
  "mem_bounded c \<longleftrightarrow> (\<forall>q off. DATA_END \<le> off \<longrightarrow> pkt_mem (packet c q) off = 0)"

lemma mem_update: "pkt_mem_update h = (\<lambda>k. k\<lparr>pkt_mem := h (pkt_mem k)\<rparr>)"
proof
  show "pkt_mem_update h k = k\<lparr>pkt_mem := h (pkt_mem k)\<rparr>" for k by (cases k) simp
qed

lemma write_frame_upd:
  "frame_begin (pkt s p) = (p, off) \<Longrightarrow> on_core (write_frame p n bs) s = upd_pkt p (\<lambda>k. k\<lparr>pkt_mem := mem_write (pkt_mem k) (off + n) bs\<rparr>) s"
  by (simp add: on_core_def write_frame_def upd_pkt_def) (subst mem_update, rule refl)

lemma mem_write_bounded: "DATA_END \<le> j \<Longrightarrow> off + length bs \<le> DATA_END \<Longrightarrow> mem_write m off bs j = m j"
  by (rule mem_write_outside) simp

lemma toks_tok: "toks ys (tok p f) = tok p (toks ys f)"
  by (auto simp: toks_def tok_apply fun_eq_iff)

lemma packet_dbg [simp]:
  "packet (csp_dbg_can_errno_update h c) = packet c" "packet (csp_dbg_conn_ovf_update h c) = packet c" "packet (csp_dbg_errno_update h c) = packet c"
  "packet (csp_dbg_buffer_out_update h c) = packet c"
  by (simp_all add: packet_def fun_eq_iff)

lemma qfifo_write_same:
  "packet (core (csp_qfifo_write pk ifc isr s)) = packet (core s)" "csp_conf (core (csp_qfifo_write pk ifc isr s)) = csp_conf (core s)"
  "drv (csp_qfifo_write pk ifc isr s) = drv s" "csp_ms (core (csp_qfifo_write pk ifc isr s)) = csp_ms (core s)" "interface_data (iface (csp_qfifo_write pk ifc isr s) j) = interface_data (iface s j)"
  by (auto simp: csp_qfifo_write_def Let_def on_core_def conn_ovf_def set_errno_def upd_iface_def split: option.splits prod.splits)

lemma qfifo_write_refreshed [simp]: "refreshed s (csp_qfifo_write pk ifc isr s)"
  by (simp add: refreshed_def qfifo_write_same)

text \<open>The effect of parsing the identifier on the packet.\<close>

lemma strip_upd:
  "\<exists>g. snd (in_core (csp_id_strip p) s) = upd_pkt p g s \<and> (\<forall>k. pkt_next (g k) = pkt_next k \<and> pkt_mem (g k) = pkt_mem k
     \<and> frame_begin (g k) = frame_begin k \<and> frame_length (g k) = frame_length k \<and> rx_count (g k) = rx_count k \<and> cfpid (g k) = cfpid k
     \<and> last_used (g k) = last_used k)"
proof (cases "unat (frame_length (pkt s p)) < hdr_size (core s)")
  case True
  then show ?thesis by (intro exI [of _ "\<lambda>k. k"]) (simp add: in_core_def csp_id_strip_eq upd_pkt_def on_core_def upd_packet_id)
next
  case False
  let ?i = "if csp_version (core s) = 2 then id2_parse (drop_bit 16 (be_word (frame_bytes (core s) p 6 @ [0, 0]))) else id1_parse (be_word (frame_bytes (core s) p 4))"
  from False show ?thesis
    by (intro exI [of _ "\<lambda>k. k\<lparr>pkt_length := frame_length k - of_nat (hdr_size (core s)), pkt_id := ?i\<rparr>"])
      (simp add: in_core_def csp_id_strip_eq upd_pkt_def on_core_def)
qed

lemma example_bounded: "mem_bounded (core (example_wired e))"
proof -
  have "packet (fold csp_buffer_init_step xs c) = packet c" for xs c
    by (induction xs arbitrary: c) (auto simp: csp_buffer_init_step_def packet_def upd_skbf_def fun_eq_iff)
  then have pool: "packet core1 = (\<lambda>_. zero_packet)"
    by (simp add: csp_buffer_init_def) (simp add: packet_def core0_def fun_eq_iff)
  have fl: "free_list core1 = 0 # [1..<15]" by (simp add: csp_buffer_init_free upt_rec)
  have two: "2 \<le> length (free_list core1)" by (simp add: csp_buffer_init_free)
  obtain c where "csp_buffer_get_actual 2 False core1 = (Some 0, c)" "packet c = (packet core1)(0 := fresh_packet 0)"
    using get_actual_succeed [OF csp_buffer_init_inv fl two, of False] by metis
  then have "packet (core example_sender) = (\<lambda>_. zero_packet)(0 := fresh_packet 0)"
    using pool by (simp add: example_sender_def in_core_def csp_buffer_get_def example_node_def)
  then show ?thesis by (simp add: mem_bounded_def example_wired_facts(4) fresh_packet_def zero_packet_def)
qed

section \<open>Effects on the list\<close>

locale pbuf_list =
  fixes gh :: "'e node \<Rightarrow> addr option" and sh :: "addr option \<Rightarrow> 'e node \<Rightarrow> 'e node"
  assumes gh_sh [simp]: "gh (sh h s) = h" and gh_core [simp]: "gh (s\<lparr>core := c\<rparr>) = gh s"
    and sh_core: "sh h (s\<lparr>core := c\<rparr>) = (sh h s)\<lparr>core := c\<rparr>" and core_sh [simp]: "core (sh h s) = core s"
    and sh_sh: "sh h (sh h' s) = sh h s" and sh_gh: "sh (gh s) s = s"
    and own_sh [simp]: "own drv_held f (sh h s) = own drv_held f s" and held_sh: "held drv_held (sh h s) = held drv_held s"
begin

lemma pkeptI:
  assumes "csp_conf c = csp_conf (core s)" "csp_ms c = csp_ms (core s)" "\<And>q. q \<notin> P \<Longrightarrow> packet c q = pkt s q"
    "\<And>q. \<exists>n. packet c q = (pkt s q)\<lparr>pkt_next := n\<rparr>"
  shows "pkept sh P s (sh h (s\<lparr>core := c\<rparr>))" "pkept sh P s (s\<lparr>core := c\<rparr>)"
proof -
  show "pkept sh P s (sh h (s\<lparr>core := c\<rparr>))" for h unfolding pkept_def using assms by auto
  from this [of "gh s"] show "pkept sh P s (s\<lparr>core := c\<rparr>)" using sh_gh [of "s\<lparr>core := c\<rparr>"] by simp
qed

lemma pkept_refl [simp]: "pkept sh P s s"
proof -
  have "pkept sh P s (s\<lparr>core := core s\<rparr>)" by (rule pkeptI(2)) (simp, simp, simp, rule next_id)
  then show ?thesis by simp
qed

lemma pkept_trans:
  assumes "pkept sh P a b" "pkept sh P b c"
  shows "pkept sh P a c"
proof -
  obtain c1 h1 c2 h2 where "b = sh h1 (a\<lparr>core := c1\<rparr>)" "c = sh h2 (b\<lparr>core := c2\<rparr>)"
    using assms unfolding pkept_def by auto
  then have "c = sh h2 (a\<lparr>core := c2\<rparr>)" by (simp add: sh_core sh_sh)
  moreover have "\<exists>n. pkt c q = (pkt a q)\<lparr>pkt_next := n\<rparr>" for q
  proof -
    obtain n where "pkt b q = (pkt a q)\<lparr>pkt_next := n\<rparr>" using assms(1) by (auto simp: pkept_def)
    moreover obtain m where "pkt c q = (pkt b q)\<lparr>pkt_next := m\<rparr>" using assms(2) by (auto simp: pkept_def)
    ultimately have "pkt c q = (pkt a q)\<lparr>pkt_next := m\<rparr>" by simp
    then show ?thesis by blast
  qed
  moreover have "\<forall>q. q \<notin> P \<longrightarrow> pkt c q = pkt a q" "csp_conf (core c) = csp_conf (core a)" "csp_ms (core c) = csp_ms (core a)"
    using assms by (simp_all add: pkept_def)
  ultimately show ?thesis unfolding pkept_def by blast
qed

lemma pkept_mono: "pkept sh P a b \<Longrightarrow> P \<subseteq> Q \<Longrightarrow> pkept sh Q a b"
  unfolding pkept_def by blast

lemma pkept_free: "pkept sh P s (free_pkt p s)"
  unfolding free_pkt_def on_core_def by (rule pkeptI(2)) (simp, simp, simp, simp only: free_core, rule next_id)

lemma pkept_link:
  assumes "p \<in> P"
  shows "pkept sh P s (upd_pkt p (\<lambda>k. k\<lparr>pkt_next := n\<rparr>) s)"
  unfolding upd_pkt_def on_core_def
proof (rule pkeptI(2))
  show "\<exists>m. packet (upd_packet p (\<lambda>k. k\<lparr>pkt_next := n\<rparr>) (core s)) q = (pkt s q)\<lparr>pkt_next := m\<rparr>" for q
  proof (cases "q = p")
    case False
    then have "packet (upd_packet p (\<lambda>k. k\<lparr>pkt_next := n\<rparr>) (core s)) q = pkt s q" by simp
    then show ?thesis by (simp only: next_id)
  qed auto
qed (use assms in auto)

lemma pkept_head: "pkept sh P s (sh n s)"
proof -
  have "pkept sh P s (sh n (s\<lparr>core := core s\<rparr>))" by (rule pkeptI(1)) (simp, simp, simp, rule next_id)
  then show ?thesis by simp
qed

lemma pbuf_unlink_effect:
  assumes l: "plist gh s (as @ p # bs)"
  defines "s' \<equiv> pbuf_unlink sh (last_opt None as) p s"
  shows "plist gh s' (as @ bs)" "pkept sh (set as) s s'" "own drv_held f s' = own drv_held f s"
    "pchain (core s') (pkt_next (pkt s' p)) bs" "pkt s' p = pkt s p"
proof -
  have ch: "pchain (core s) (gh s) (as @ p # bs)" and dist: "distinct (as @ p # bs)" using l by (simp_all add: plist_def)
  have tail: "pchain (core s) (pkt_next (pkt s p)) bs" using pchain_split [of _ _ "as @ [p]" bs] ch by simp
  show same: "pkt s' p = pkt s p"
    using dist last_in_set [of as] by (auto simp: s'_def pbuf_unlink_def last_opt_def upd_pkt_def on_core_def)
  show own: "own drv_held f s' = own drv_held f s" by (simp add: s'_def pbuf_unlink_def split: option.splits)
  have nx: "pkt_next (pkt s' q) = pkt_next (pkt s q)" if "as = [] \<or> q \<noteq> last as" for q
    using that by (auto simp: s'_def pbuf_unlink_def last_opt_def upd_pkt_def on_core_def)
  have tail': "pchain (core s') (pkt_next (pkt s p)) bs"
    using tail dist last_in_set [of as] by (subst pchain_cong [of bs "core s'" "core s"]) (auto intro!: nx dest: disjoint_iff [THEN iffD1])
  then show "pchain (core s') (pkt_next (pkt s' p)) bs" by (simp add: same)
  show "plist gh s' (as @ bs)"
  proof (cases "as = []")
    case True
    then show ?thesis using tail' dist by (simp add: plist_def s'_def pbuf_unlink_def last_opt_def)
  next
    case False
    have head: "gh s' = gh s"
      using False by (simp add: s'_def pbuf_unlink_def last_opt_def upd_pkt_def on_core_def)
    have "pkt_next (pkt s' (last as)) = pkt_next (pkt s p)"
      using False by (simp add: s'_def pbuf_unlink_def last_opt_def upd_pkt_def on_core_def)
    then have "pchain (core s') (gh s) (as @ bs)"
      using pchain_join [OF ch False, of bs "core s'"] dist tail' nx by auto
    then show ?thesis using dist head by (simp add: plist_def)
  qed
  show "pkept sh (set as) s s'"
    using last_in_set [of as] by (auto simp: s'_def pbuf_unlink_def last_opt_def pkept_head intro: pkept_link)
qed

lemma pbuf_free_walk:
  "pchain (core s) cur (as @ rest) \<Longrightarrow> buffer \<notin> set as \<Longrightarrow>
     pbuf_free_loop sh buffer bf isr prev cur s = pbuf_free_loop sh buffer bf isr (last_opt prev as) (hd_opt rest) s"
proof (induction as arbitrary: cur prev)
  case Nil
  then show ?case using pchain_hd by (simp add: last_opt_def)
next
  case (Cons a as)
  have "pbuf_free_loop sh buffer bf isr prev cur s = pbuf_free_loop sh buffer bf isr (Some a) (pkt_next (pkt s a)) s"
    using Cons.prems by (subst pbuf_free_loop.simps) auto
  then show ?case using Cons.IH [of "pkt_next (pkt s a)" "Some a"] Cons.prems by (simp add: last_opt_def)
qed

lemma free_effect:
  assumes own: "own drv_held (toks xs f) s" and l: "plist gh s xs" and p: "p \<in> set xs"
  shows "\<exists>s'. pbuf_free_loop sh p bf isr None (gh s) s = Some s' \<and> own drv_held (if bf then toks (remove1 p xs) f else tok p (toks (remove1 p xs) f)) s'
    \<and> plist gh s' (remove1 p xs) \<and> pkept sh (set xs) s s' \<and> pkt s' p = pkt s p"
proof -
  from p obtain as bs where xs: "xs = as @ p # bs" "p \<notin> set as" by (meson split_list_first)
  have rem: "remove1 p xs = as @ bs" using xs by (simp add: remove1_append)
  let ?s1 = "pbuf_unlink sh (last_opt None as) p s"
  let ?s2 = "if bf then pbuf_buffer_free isr p ?s1 else ?s1"
  note un = pbuf_unlink_effect [OF l [unfolded xs(1)]]
  note fr = pbuf_buffer_free_eq
  have pk: "pkt ?s2 q = pkt ?s1 q" "gh ?s2 = gh ?s1" for q by (simp_all add: fr free_pkt_def on_core_def)
  have dist: "distinct (as @ p # bs)" using l xs by (simp add: plist_def)
  have tail: "pchain (core ?s2) (pkt_next (pkt ?s2 p)) bs"
    using un(4) pk pchain_cong [of bs "core ?s2" "core ?s1"] by simp
  have "pbuf_free_loop sh p bf isr None (gh s) s = pbuf_free_loop sh p bf isr (last_opt None as) (Some p) s"
    using pbuf_free_walk [of s "gh s" as "p # bs" p] l xs by (simp add: plist_def hd_opt_def)
  also have "\<dots> = pbuf_free_loop sh p bf isr (Some p) (pkt_next (pkt ?s2 p)) ?s2"
    by (subst pbuf_free_loop.simps) (simp add: Let_def)
  also have "\<dots> = Some ?s2"
    using pbuf_free_walk [of ?s2 "pkt_next (pkt ?s2 p)" bs "[]" p] tail dist
    by (subst pbuf_free_walk [of ?s2 "pkt_next (pkt ?s2 p)" bs "[]" p]) (simp_all add: hd_opt_def pbuf_free_loop.simps)
  finally have run: "pbuf_free_loop sh p bf isr None (gh s) s = Some ?s2" .
  have own1: "own drv_held (tok p (toks (as @ bs) f)) ?s1" using own un(3) xs by simp
  have "own drv_held (if bf then toks (as @ bs) f else tok p (toks (as @ bs) f)) ?s2"
    using own1 own_free [OF own1] by (simp add: fr)
  moreover have "plist gh ?s2 (as @ bs)"
    using un(1) pk pchain_cong [of "as @ bs" "core ?s2" "core ?s1"] by (simp add: plist_def)
  moreover have "pkept sh (set xs) s ?s2"
  proof -
    have "pkept sh (set xs) s ?s1" by (rule pkept_mono [OF un(2)]) (auto simp: xs)
    then show ?thesis using pkept_trans [OF _ pkept_free] by (auto simp: fr)
  qed
  ultimately show ?thesis using run un(5) pk by (auto simp: rem)
qed

lemma cleanup_keep:
  "\<not> pbuf_expired now (core s) p \<Longrightarrow>
     pbuf_cleanup_loop sh now isr prev (Some p) s = pbuf_cleanup_loop sh now isr (Some p) (pkt_next (pkt s p)) s"
  by (subst pbuf_cleanup_loop.simps) (simp add: pbuf_expired_def)

lemma cleanup_drop:
  "pbuf_expired now (core s) p \<Longrightarrow>
     pbuf_cleanup_loop sh now isr prev (Some p) s =
       pbuf_cleanup_loop sh now isr (Some p) (pkt_next (pkt (free_pkt p (pbuf_unlink sh prev p s)) p)) (free_pkt p (pbuf_unlink sh prev p s))"
  by (subst pbuf_cleanup_loop.simps) (simp add: pbuf_expired_def pbuf_buffer_free_eq Let_def)

lemma cleanup_end: "pbuf_cleanup_loop sh now isr prev None s = Some s"
  by (subst pbuf_cleanup_loop.simps) simp

lemma pbuf_cleanup_chain:
  assumes "own drv_held (toks (as @ xs) f) s" "plist gh s (as @ xs)" "apart (pbuf_expired now (core s)) xs"
  shows "\<exists>s'. pbuf_cleanup_loop sh now isr (last_opt None as) (hd_opt xs) s = Some s'
    \<and> own drv_held (toks (as @ filter (\<lambda>p. \<not> pbuf_expired now (core s) p) xs) f) s'
    \<and> plist gh s' (as @ filter (\<lambda>p. \<not> pbuf_expired now (core s) p) xs) \<and> pkept sh (set (as @ xs)) s s'"
  using assms
proof (induction xs arbitrary: as s rule: induct_list012)
  case 1
  then show ?case by (simp add: hd_opt_def cleanup_end)
next
  case (2 x)
  have nx: "pkt_next (pkt s x) = None" using 2 pchain_split [of "core s" "gh s" "as @ [x]" "[]"] by (simp add: plist_def)
  show ?case
  proof (cases "pbuf_expired now (core s) x")
    case False
    with 2 nx show ?thesis by (intro exI [of _ s]) (simp add: hd_opt_def cleanup_keep cleanup_end)
  next
    case True
    let ?t = "pbuf_unlink sh (last_opt None as) x s"
    note un = pbuf_unlink_effect [OF 2(2)]
    have own: "own drv_held (tok x (toks as f)) ?t" using 2(1) un(3) by simp
    have pk: "pkt (free_pkt x ?t) = pkt ?t" "gh (free_pkt x ?t) = gh ?t" by (simp_all add: free_pkt_def on_core_def fun_eq_iff)
    have "plist gh (free_pkt x ?t) as" using un(1) pk pchain_cong [of as "core (free_pkt x ?t)" "core ?t"] by (simp add: plist_def)
    moreover have "pkept sh (set (as @ [x])) s (free_pkt x ?t)"
      by (rule pkept_trans [OF pkept_mono [OF un(2)] pkept_free]) auto
    ultimately show ?thesis
      using True own_free [OF own] nx un(5) pk by (intro exI [of _ "free_pkt x ?t"]) (simp add: hd_opt_def cleanup_drop cleanup_end)
  qed
next
  case (3 x y zs)
  have nx: "pkt_next (pkt s x) = Some y"
    using 3(4) pchain_split [of "core s" "gh s" "as @ [x]" "y # zs"] by (simp add: plist_def)
  show ?case
  proof (cases "pbuf_expired now (core s) x")
    case False
    then show ?thesis
      using 3(2) [of "as @ [x]" s] 3(3-5) nx by (simp add: hd_opt_def cleanup_keep last_opt_def)
  next
    case True
    then have y: "\<not> pbuf_expired now (core s) y" and ap: "apart (pbuf_expired now (core s)) zs"
      using 3(5) by (simp, cases zs) auto
    let ?u = "pbuf_unlink sh (last_opt None as) x s" and ?t = "free_pkt x (pbuf_unlink sh (last_opt None as) x s)"
    note un = pbuf_unlink_effect [OF 3(4)]
    have pk: "pkt ?t = pkt ?u" "gh ?t = gh ?u" by (simp_all add: free_pkt_def on_core_def fun_eq_iff)
    have kept: "pkept sh (set (as @ x # y # zs)) s ?t"
      by (rule pkept_trans [OF pkept_mono [OF un(2)] pkept_free]) auto
    note ex = pkept_fields(3) [OF kept]
    have own: "own drv_held (toks ((as @ [y]) @ zs) f) ?t" using own_free [of drv_held x "toks (as @ y # zs) f" ?u] 3(3) un(3) by simp
    have l: "plist gh ?t ((as @ [y]) @ zs)" using un(1) pk pchain_cong [of "as @ y # zs" "core ?t" "core ?u"] by (simp add: plist_def)
    have ny: "pkt_next (pkt ?t y) = hd_opt zs"
      using l pchain_split [of "core ?t" "gh ?t" "as @ [y]" zs] pchain_hd by (simp add: plist_def)
    have step: "pbuf_cleanup_loop sh now isr (last_opt None as) (hd_opt (x # y # zs)) s = pbuf_cleanup_loop sh now isr (last_opt None (as @ [y])) (hd_opt zs) ?t"
      using True y nx un(5) pk ny ex by (simp add: hd_opt_def [of "x # y # zs"] cleanup_drop cleanup_keep last_opt_def)
    from 3(1) [OF own l] ap ex obtain s' where s': "pbuf_cleanup_loop sh now isr (last_opt None (as @ [y])) (hd_opt zs) ?t = Some s'"
        "own drv_held (toks ((as @ [y]) @ filter (\<lambda>p. \<not> pbuf_expired now (core s) p) zs) f) s'"
        "plist gh s' ((as @ [y]) @ filter (\<lambda>p. \<not> pbuf_expired now (core s) p) zs)" "pkept sh (set ((as @ [y]) @ zs)) ?t s'"
      by auto
    have "pkept sh (set (as @ x # y # zs)) s s'"
      by (rule pkept_trans [OF kept pkept_mono [OF s'(4)]]) auto
    with s' step True y show ?thesis by auto
  qed
qed

lemma cleanup_effect:
  assumes "own drv_held (toks xs f) s" "plist gh s xs" "apart (pbuf_expired (csp_ms (core s)) (core s)) xs"
  shows "\<exists>s'. pbuf_cleanup_loop sh (csp_ms (core s)) isr None (gh s) s = Some s'
    \<and> own drv_held (toks (filter (\<lambda>p. \<not> pbuf_expired (csp_ms (core s)) (core s) p) xs) f) s'
    \<and> plist gh s' (filter (\<lambda>p. \<not> pbuf_expired (csp_ms (core s)) (core s) p) xs) \<and> pkept sh (set xs) s s'"
proof -
  have "gh s = hd_opt xs" using assms(2) pchain_hd by (auto simp: plist_def)
  then show ?thesis
    using pbuf_cleanup_chain [of "[]" xs f s "csp_ms (core s)" isr] assms by (simp add: last_opt_def)
qed

text \<open>A new packet at the head of the list, after the old ones have been removed.\<close>

lemma insert_effect:
  assumes own: "own drv_held (toks ys f) s1" and l: "plist gh s1 ys"
    and e: "own drv_held (tok p (toks ys f)) s2" "buf_refs (core s1) p = 0" "s2 = s1\<lparr>core := core s2\<rparr>" "packet (core s2) = (packet (core s1))(p := fresh_packet p)"
    and g: "pkt_next (g (fresh_packet p)) = gh s2"
  defines "s3 \<equiv> sh (Some p) (upd_pkt p g s2)"
  shows "p \<notin> set ys" "pkt s3 q = (if q = p then g (fresh_packet p) else pkt s1 q)" "plist gh s3 (p # ys)" "own drv_held (toks (p # ys) f) s3"
    "s3 = sh (Some p) (s1\<lparr>core := core s3\<rparr>)"
proof -
  show notin: "p \<notin> set ys"
  proof
    assume "p \<in> set ys"
    then have "count_list ys p \<noteq> 0" by (simp add: count_list_0_iff)
    then have "0 < toks ys f p" by (simp add: toks_def)
    moreover have "buf_refs (core s1) p = held drv_held s1 p + toks ys f p" using own by (simp add: own_def)
    ultimately show False using e(2) by simp
  qed
  show pk: "pkt s3 q = (if q = p then g (fresh_packet p) else pkt s1 q)" for q by (simp add: s3_def e(4) upd_pkt_def on_core_def)
  have head: "gh s2 = gh s1" by (subst e(3)) simp
  have nx: "pkt_next (pkt s3 q) = pkt_next (pkt s1 q)" if "q \<in> set ys" for q using that notin pk [of q] by auto
  have "pchain (core s3) (gh s1) ys" using l unfolding plist_def by (subst pchain_cong [OF nx]) simp_all
  then show "plist gh s3 (p # ys)" using notin l pk [of p] g head by (simp add: plist_def) (simp add: s3_def)
  show "own drv_held (toks (p # ys) f) s3" using e(1) by (simp add: s3_def)
  show "s3 = sh (Some p) (s1\<lparr>core := core s3\<rparr>)"
    unfolding s3_def by (subst e(3)) (simp add: upd_pkt_def on_core_def sh_core)
qed

lemma new_effect:
  assumes own: "own drv_held (toks xs f) s" and l: "plist gh s xs" and ap: "apart (pbuf_expired (csp_ms (core s)) (core s)) xs"
    and cl: "pbuf_cleanup_loop sh (csp_ms (core s)) isr None (gh s) s = Some s1"
  defines "ys \<equiv> filter (\<lambda>p. \<not> pbuf_expired (csp_ms (core s)) (core s) p) xs"
  assumes e: "own drv_held (tok p (toks ys f)) s2" "buf_refs (core s1) p = 0" "s2 = s1\<lparr>core := core s2\<rparr>" "packet (core s2) = (packet (core s1))(p := fresh_packet p)"
      "csp_conf (core s2) = csp_conf (core s1)" "csp_ms (core s2) = csp_ms (core s1)"
    and g: "pkt_next (g (fresh_packet p)) = gh s2"
  defines "s3 \<equiv> sh (Some p) (upd_pkt p g s2)"
  shows "own drv_held (toks (p # ys) f) s3" "plist gh s3 (p # ys)" "p \<notin> set ys" "p \<in> set xs \<or> buf_refs (core s) p = 0"
    "\<exists>c h. s3 = sh h (s\<lparr>core := c\<rparr>)" "csp_conf (core s3) = csp_conf (core s)" "csp_ms (core s3) = csp_ms (core s)" "pkt s3 p = g (fresh_packet p)"
    "\<forall>q. q \<notin> set xs \<and> q \<noteq> p \<longrightarrow> pkt s3 q = pkt s q" "\<forall>q. q \<noteq> p \<longrightarrow> (\<exists>n. pkt s3 q = (pkt s q)\<lparr>pkt_next := n\<rparr>)"
proof -
  have s1: "own drv_held (toks ys f) s1" "plist gh s1 ys" "pkept sh (set xs) s s1"
    using cleanup_effect [OF own l ap, of isr] cl unfolding ys_def by auto
  note ins = insert_effect [where g = g, OF s1(1,2) e(1-4) g, folded s3_def]
  show "own drv_held (toks (p # ys) f) s3" "plist gh s3 (p # ys)" "p \<notin> set ys" using ins by simp_all
  obtain c h where s1c: "s1 = sh h (s\<lparr>core := c\<rparr>)" using s1(3) by (auto simp: pkept_def)
  then have "sh (Some p) (s1\<lparr>core := core s3\<rparr>) = sh (Some p) (s\<lparr>core := core s3\<rparr>)" by (simp add: sh_core sh_sh)
  with ins(5) show "\<exists>c h. s3 = sh h (s\<lparr>core := c\<rparr>)" by metis
  have "held drv_held s1 = held drv_held s" unfolding s1c by (simp add: held_sh) (simp add: held_def fun_eq_iff)
  then show "p \<in> set xs \<or> buf_refs (core s) p = 0" using own s1(1) e(2) count_list_0_iff [of xs p] by (auto simp: own_def toks_def)
  show "csp_conf (core s3) = csp_conf (core s)" "csp_ms (core s3) = csp_ms (core s)"
    using e(5,6) s1(3) by (simp_all add: s3_def upd_pkt_def on_core_def pkept_def)
  show "pkt s3 p = g (fresh_packet p)" "\<forall>q. q \<notin> set xs \<and> q \<noteq> p \<longrightarrow> pkt s3 q = pkt s q" "\<forall>q. q \<noteq> p \<longrightarrow> (\<exists>n. pkt s3 q = (pkt s q)\<lparr>pkt_next := n\<rparr>)"
    using s1(3) ins(2) by (simp_all add: pkept_def)
qed

end

end
