(* ===== verification/CSP_Can_Pbuf.thy ===== *)
theory CSP_Can_Pbuf
  imports CSP_Pbuf
begin

text \<open>
  The packets in reception from a CAN bus, \<^verbatim>\<open>src/src/interfaces/csp_if_can_pbuf.c\<close>: the list of
  \<open>CSP_Pbuf\<close> whose head is the member \<^verbatim>\<open>pbufs\<close> of the interface data.
\<close>

section \<open>Operations\<close>

abbreviation can_head :: "addr \<Rightarrow> addr option \<Rightarrow> 'e node \<Rightarrow> 'e node" where
  "can_head d h s \<equiv> upd_can d (\<lambda>c. c\<lparr>pbufs := h\<rparr>) s"

definition csp_can_pbuf_free :: "addr \<Rightarrow> addr \<Rightarrow> bool \<Rightarrow> bool \<Rightarrow> 'e node \<Rightarrow> 'e node option" where
  "csp_can_pbuf_free d buffer buf_free isr s = pbuf_free_loop (can_head d) buffer buf_free isr None (pbufs (can s d)) s"

definition csp_can_pbuf_cleanup :: "addr \<Rightarrow> bool \<Rightarrow> 'e node \<Rightarrow> 'e node option" where
  "csp_can_pbuf_cleanup d isr s = pbuf_cleanup_loop (can_head d) (csp_ms (core s)) isr None (pbufs (can s d)) s"

definition csp_can_pbuf_new :: "addr \<Rightarrow> u32 \<Rightarrow> bool \<Rightarrow> 'e node \<Rightarrow> (addr \<times> 'e node) option" where
  "csp_can_pbuf_new d can_id isr s =
     (case csp_can_pbuf_cleanup d isr s of
        None \<Rightarrow> None
      | Some s \<Rightarrow>
          let now = csp_ms (core s); (pk, s) = in_core (if isr then csp_buffer_get_always_isr else csp_buffer_get_always) s
          in case pk of
               None \<Rightarrow> None
             | Some p \<Rightarrow>
                 let s = upd_pkt p (\<lambda>k. k\<lparr>last_used := now, cfpid := can_id, remain := 0, pkt_next := pbufs (can s d)\<rparr>) s
                 in Some (p, upd_can d (\<lambda>c. c\<lparr>pbufs := Some p\<rparr>) s))"

definition csp_can_pbuf_find :: "addr \<Rightarrow> u32 \<Rightarrow> u32 \<Rightarrow> 'e node \<Rightarrow> (addr option \<times> 'e node) option" where
  "csp_can_pbuf_find d can_id msk s = pbuf_find_loop (\<lambda>k. cfpid k AND msk = can_id AND msk) (pbufs (can s d)) s"

section \<open>The list\<close>

definition can_list :: "addr \<Rightarrow> 'e node \<Rightarrow> addr list \<Rightarrow> bool" where
  "can_list d s xs \<longleftrightarrow> pchain (core s) (pbufs (can s d)) xs \<and> distinct xs"

definition can_kept :: "addr \<Rightarrow> addr set \<Rightarrow> 'e node \<Rightarrow> 'e node \<Rightarrow> bool" where
  "can_kept d P s s' \<longleftrightarrow> (\<exists>c h. s' = upd_can d (\<lambda>k. k\<lparr>pbufs := h\<rparr>) (s\<lparr>core := c\<rparr>))
     \<and> csp_conf (core s') = csp_conf (core s) \<and> csp_ms (core s') = csp_ms (core s)
     \<and> (\<forall>q. q \<notin> P \<longrightarrow> pkt s' q = pkt s q) \<and> (\<forall>q. \<exists>n. pkt s' q = (pkt s q)\<lparr>pkt_next := n\<rparr>)"

lemma upd_can_id [simp]: "upd_can d (\<lambda>k. k\<lparr>pbufs := pbufs (can s d)\<rparr>) s = s"
proof -
  have "(can s d)\<lparr>pbufs := pbufs (can s d)\<rparr> = can s d" by simp
  then show ?thesis by (simp only: upd_can_def) simp
qed

interpretation can_pb: pbuf_list "\<lambda>s. pbufs (can s d)" "can_head d" for d
  by unfold_locales (simp_all, simp_all add: upd_can_def own_def held_def queues_ok_def drv_held_def fun_eq_iff)

lemma can_list_eq: "can_list d = plist (\<lambda>s. pbufs (can s d))"
  by (simp add: can_list_def plist_def fun_eq_iff)

lemma can_kept_eq: "can_kept d = pkept (can_head d)"
  by (simp add: can_kept_def pkept_def fun_eq_iff)

lemmas can_list_bundle = can_list_eq can_kept_eq csp_can_pbuf_free_def csp_can_pbuf_cleanup_def

lemma pbuf_free_effect:
  assumes own: "own drv_held (toks xs f) s" and l: "can_list d s xs" and p: "p \<in> set xs"
  shows "\<exists>s'. csp_can_pbuf_free d p bf isr s = Some s' \<and> own drv_held (if bf then toks (remove1 p xs) f else tok p (toks (remove1 p xs) f)) s'
    \<and> can_list d s' (remove1 p xs) \<and> can_kept d (set xs) s s' \<and> pkt s' p = pkt s p"
  using can_pb.free_effect [of xs f s d p bf isr] assms by (simp only: can_list_bundle)

lemma pbuf_cleanup_effect:
  assumes "own drv_held (toks xs f) s" "can_list d s xs" "apart (pbuf_expired (csp_ms (core s)) (core s)) xs"
  shows "\<exists>s'. csp_can_pbuf_cleanup d isr s = Some s'
    \<and> own drv_held (toks (filter (\<lambda>p. \<not> pbuf_expired (csp_ms (core s)) (core s) p) xs) f) s'
    \<and> can_list d s' (filter (\<lambda>p. \<not> pbuf_expired (csp_ms (core s)) (core s) p) xs) \<and> can_kept d (set xs) s s'"
  using can_pb.cleanup_effect [of xs f s d isr] assms by (simp only: can_list_bundle)

lemma pbuf_new_effect:
  assumes own: "own drv_held (toks xs f) s" and l: "can_list d s xs" and ap: "apart (pbuf_expired (csp_ms (core s)) (core s)) xs"
  defines "ys \<equiv> filter (\<lambda>p. \<not> pbuf_expired (csp_ms (core s)) (core s) p) xs"
  shows "(case csp_can_pbuf_new d can_id isr s of
      None \<Rightarrow> \<exists>t. csp_can_pbuf_cleanup d isr s = Some t \<and> free_list (core t) = []
    | Some (p, s') \<Rightarrow> own drv_held (toks (p # ys) f) s' \<and> can_list d s' (p # ys) \<and> cfpid (pkt s' p) = can_id \<and> p \<notin> set ys
        \<and> last_used (pkt s' p) = csp_ms (core s) \<and> (p \<in> set xs \<or> buf_refs (core s) p = 0) \<and> (\<forall>n. pkt_mem (pkt s' p) n = 0)
        \<and> (\<exists>c h. s' = upd_can d (\<lambda>k. k\<lparr>pbufs := h\<rparr>) (s\<lparr>core := c\<rparr>)) \<and> csp_conf (core s') = csp_conf (core s) \<and> csp_ms (core s') = csp_ms (core s)
        \<and> (\<forall>q. q \<notin> set xs \<and> q \<noteq> p \<longrightarrow> pkt s' q = pkt s q) \<and> (\<forall>q. q \<noteq> p \<longrightarrow> (\<exists>n. pkt s' q = (pkt s q)\<lparr>pkt_next := n\<rparr>)))"
proof -
  obtain s1 where s1: "csp_can_pbuf_cleanup d isr s = Some s1" "own drv_held (toks ys f) s1" "can_list d s1 ys" "can_kept d (set xs) s s1"
    using pbuf_cleanup_effect [OF own l ap] unfolding ys_def by blast
  obtain r s2 where get: "in_core (if isr then csp_buffer_get_always_isr else csp_buffer_get_always) s1 = (r, s2)" by fastforce
  note eff = get_always_effect [OF s1(2) get]
  show ?thesis
  proof (cases r)
    case None
    then show ?thesis using eff s1(1) get by (simp add: csp_can_pbuf_new_def)
  next
    case (Some p)
    with eff have e: "own drv_held (tok p (toks ys f)) s2" "buf_refs (core s1) p = 0" "s2 = s1\<lparr>core := core s2\<rparr>"
        "packet (core s2) = (packet (core s1))(p := fresh_packet p)" "csp_conf (core s2) = csp_conf (core s1)" "csp_ms (core s2) = csp_ms (core s1)"
      by auto
    let ?k = "\<lambda>k. k\<lparr>last_used := csp_ms (core s1), cfpid := can_id, remain := 0, pkt_next := pbufs (can s2 d)\<rparr>"
    have run: "csp_can_pbuf_new d can_id isr s = Some (p, can_head d (Some p) (upd_pkt p ?k s2))"
      using s1(1) get Some by (simp add: csp_can_pbuf_new_def Let_def)
    have ms: "csp_ms (core s1) = csp_ms (core s)" using s1(4) by (simp add: can_kept_def)
    have cl: "pbuf_cleanup_loop (can_head d) (csp_ms (core s)) isr None (pbufs (can s d)) s = Some s1" using s1(1) by (simp add: csp_can_pbuf_cleanup_def)
    note new = can_pb.new_effect [where g = ?k, OF own l [unfolded can_list_eq] ap cl e [unfolded ys_def], folded ys_def]
    have fresh: "pkt_mem (fresh_packet p) n = 0" for n by (simp add: fresh_packet_def zero_packet_def)
    show ?thesis unfolding run by (simp only: option.case prod.case can_list_eq) (use new ms fresh in simp)
  qed
qed

section \<open>Old neighbours\<close>

text \<open>C29. Two old packets in a row are not handled: \<open>csp_can_pbuf_cleanup\<close> unlinks the second one
  from the first, which it has just taken out of the list and freed. Both buffers are given back to
  the pool, and the list of the interface still begins with the second: a dangling
  pointer to a free buffer.\<close>

theorem csp_can_pbuf_cleanup_dangles:
  assumes own: "own drv_held (toks [a, b] f) s" and l: "can_list d s [a, b]"
    and old: "pbuf_expired (csp_ms (core s)) (core s) a" "pbuf_expired (csp_ms (core s)) (core s) b" and last: "buf_refs (core s) b = 1"
  shows "\<exists>s'. csp_can_pbuf_cleanup d isr s = Some s' \<and> own drv_held f s' \<and> pbufs (can s' d) = Some b \<and> b \<in> set (free_list (core s'))"
proof -
  have ch: "pbufs (can s d) = Some a" "pkt_next (pkt s a) = Some b" "pkt_next (pkt s b) = None" "a \<noteq> b" using l by (auto simp: can_list_def)
  let ?s1 = "free_pkt a (upd_can d (\<lambda>c. c\<lparr>pbufs := Some b\<rparr>) s)"
  let ?s2 = "upd_pkt a (\<lambda>k. k\<lparr>pkt_next := None\<rparr>) ?s1"
  have pk1: "pkt ?s1 q = pkt s q" for q by (simp add: free_pkt_def on_core_def)
  have one: "pbuf_cleanup_loop (can_head d) (csp_ms (core s)) isr None (Some a) s = pbuf_cleanup_loop (can_head d) (csp_ms (core s)) isr (Some a) (Some b) ?s1"
    using can_pb.cleanup_drop [OF old(1), of d isr None] ch pk1 by (simp add: pbuf_unlink_def)
  have "pbuf_expired (csp_ms (core s)) (core ?s1) b" using old(2) pk1 by (simp add: pbuf_expired_def)
  from can_pb.cleanup_drop [OF this, of d isr "Some a"] have two: "pbuf_cleanup_loop (can_head d) (csp_ms (core s)) isr (Some a) (Some b) ?s1 = Some (free_pkt b ?s2)"
    using ch pk1 by (simp add: pbuf_unlink_def can_pb.cleanup_end free_pkt_def on_core_def upd_pkt_def)
  have own1: "own drv_held (tok b f) ?s1" using own_free [of drv_held a "tok b f" "upd_can d (\<lambda>c. c\<lparr>pbufs := Some b\<rparr>) s"] own by simp
  then have own2: "own drv_held f (free_pkt b ?s2)" by (intro own_free) simp
  have inv: "buf_inv (core ?s2)" using own1 by (simp add: own_def upd_pkt_def on_core_def)
  have "buf_refs (core s) a = held drv_held s a + toks [a, b] f a" using own by (simp add: own_def)
  then have "0 < buf_refs (core s) a" by (simp add: tok_def)
  then have "buf_refs (core ?s1) b = 1"
    using free_pool [of "core s" a] own last ch(4) by (simp add: own_def free_pkt_def on_core_def)
  then have "buf_refs (core ?s2) b = 1" by (simp add: upd_pkt_def on_core_def)
  then obtain t where t: "csp_buffer_free (Some b) (core ?s2) = t" "free_list t = free_list (core ?s2) @ [b]"
    by (rule free_last_ref [OF inv])
  then have "b \<in> set (free_list (core (free_pkt b ?s2)))"
    unfolding free_pkt_def [of b] on_core_def [of "csp_buffer_free (Some b)"] by simp
  moreover have "pbufs (can (free_pkt b ?s2) d) = Some b" by (simp add: free_pkt_def on_core_def upd_pkt_def)
  ultimately show ?thesis using one two own2 ch(1) by (simp add: csp_can_pbuf_cleanup_def)
qed

text \<open>Two packets in reception that began more than a second ago.\<close>

definition example_stale :: "unit node" where
  "example_stale = upd_can 0 (\<lambda>c. c\<lparr>pbufs := Some 0\<rparr>) (upd_pkt 0 (\<lambda>k. k\<lparr>pkt_next := Some 1\<rparr>)
     (on_core (\<lambda>c. c\<lparr>csp_ms := 2000\<rparr>) (snd (in_core csp_buffer_get_always (example_wired ())))))"

theorem csp_can_pbuf_cleanup_dangles_witness:
  "\<exists>s'. csp_can_pbuf_cleanup 0 False example_stale = Some s' \<and> pbufs (can s' 0) = Some 1 \<and> 1 \<in> set (free_list (core s'))"
proof -
  let ?w = "example_wired ()"
  obtain r t where get: "in_core csp_buffer_get_always ?w = (r, t)" by fastforce
  have free: "free_list (core ?w) = 1 # [Suc 1..<15]"
    unfolding example_wired_facts(4) example_sender_pkt(2) by (rule upt_conv_Cons) simp
  have inv: "buf_inv (core ?w)" using example_wired_facts(1) [of "()"] by (simp only: own_def)
  obtain c where "csp_buffer_get_actual 0 False (core ?w) = (Some 1, c)"
    using get_actual_succeed [OF inv free le0, of False] by metis
  then have r: "r = Some 1" using get by (simp add: in_core_def csp_buffer_get_always_def)
  have eff: "own drv_held (tok 1 (tok 0 (\<lambda>_. 0))) t" "buf_refs (core t) = (buf_refs (core ?w))(1 := 1)"
      "packet (core t) = (packet (core ?w))(1 := fresh_packet 1)"
    using get_always_effect [OF example_wired_facts(1), of False, simplified, OF get] r by simp_all
  have own: "own drv_held (toks [0, 1] (\<lambda>_. 0)) example_stale"
  proof -
    have "toks [0, 1] (\<lambda>_. 0) = tok 1 (tok 0 (\<lambda>_. 0))" by (auto simp: tok_apply fun_eq_iff)
    moreover have "own drv_held g (t\<lparr>core := (core t)\<lparr>csp_ms := 2000\<rparr>\<rparr>) = own drv_held g t" for g
      by (rule own_core_cong) (simp_all add: buf_inv_def buf_refs_def free_list_def fun_eq_iff)
    ultimately show ?thesis using eff(1) by (simp add: example_stale_def get on_core_def)
  qed
  have tick: "packet ((core t)\<lparr>csp_ms := 2000\<rparr>) = packet (core t)" "buf_refs ((core t)\<lparr>csp_ms := 2000\<rparr>) = buf_refs (core t)"
    by (simp_all add: packet_def buf_refs_def free_list_def fun_eq_iff)
  have pk: "pkt example_stale 0 = (fresh_packet 0)\<lparr>pkt_next := Some 1\<rparr>" "pkt example_stale 1 = fresh_packet 1"
    using eff(3) by (simp_all add: example_stale_def get tick upd_pkt_def on_core_def example_wired_facts(4) example_sender_pkt)
  have l: "can_list 0 example_stale [0, 1]" using pk by (simp add: can_list_def example_stale_def fresh_packet_def zero_packet_def)
  have ms: "csp_ms (core example_stale) = 2000" by (simp add: example_stale_def upd_pkt_def on_core_def)
  have old: "pbuf_expired (csp_ms (core example_stale)) (core example_stale) p" if "p \<in> {0, 1}" for p
    using that pk by (auto simp: pbuf_expired_def ms fresh_packet_def zero_packet_def)
  have refs: "buf_refs (core example_stale) 1 = 1" using eff(2) by (simp add: example_stale_def get on_core_def tick)
  from csp_can_pbuf_cleanup_dangles [OF own l old old refs, where isr = False] show ?thesis by auto
qed

end
