(* ===== verification/CSP_Can.thy ===== *)
theory CSP_Can
  imports CSP_Can_Pbuf
begin

text \<open>
  The CAN interface, \<^verbatim>\<open>src/src/interfaces/csp_if_can.c\<close>: the CAN fragmentation protocols of CSP 1.x
  and CSP 2.x, which cut a packet into frames of at most eight bytes. The driver's function that
  sends a frame is a parameter \<open>tf\<close>. A result \<open>None\<close> of the receivers is a call that does not
  return, when the pool has no buffer left.
\<close>

section \<open>Identifiers of frames\<close>

abbreviation (input) CAN_FRAME_SIZE :: nat where "CAN_FRAME_SIZE \<equiv> 8"
abbreviation (input) CFP_BEGIN :: u32 where "CFP_BEGIN \<equiv> 0"
abbreviation (input) CFP_MORE :: u32 where "CFP_MORE \<equiv> 1"
abbreviation (input) CSP_DBG_CAN_ERR_FRAME_LOST :: u8 where "CSP_DBG_CAN_ERR_FRAME_LOST \<equiv> 1"
abbreviation (input) CSP_DBG_CAN_ERR_RX_OVF :: u8 where "CSP_DBG_CAN_ERR_RX_OVF \<equiv> 2"
abbreviation (input) CSP_DBG_CAN_ERR_SHORT_BEGIN :: u8 where "CSP_DBG_CAN_ERR_SHORT_BEGIN \<equiv> 4"
abbreviation (input) CSP_DBG_CAN_ERR_UNKNOWN :: u8 where "CSP_DBG_CAN_ERR_UNKNOWN \<equiv> 6"

definition CFP_FIELD :: "u32 \<Rightarrow> nat \<Rightarrow> nat \<Rightarrow> u32" where
  "CFP_FIELD can_id rsiz fsiz = drop_bit rsiz can_id AND (push_bit fsiz 1 - 1)"

definition CFP_MAKE_FIELD :: "u32 \<Rightarrow> nat \<Rightarrow> nat \<Rightarrow> u32" where
  "CFP_MAKE_FIELD can_id fsiz rsiz = push_bit rsiz (can_id AND (push_bit fsiz 1 - 1))"

definition CFP_TYPE :: "u32 \<Rightarrow> u32" where "CFP_TYPE can_id = CFP_FIELD can_id 18 1"
definition CFP_REMAIN :: "u32 \<Rightarrow> u32" where "CFP_REMAIN can_id = CFP_FIELD can_id 10 8"
definition CFP_MAKE_SRC :: "u32 \<Rightarrow> u32" where "CFP_MAKE_SRC x = CFP_MAKE_FIELD x 5 24"
definition CFP_MAKE_DST :: "u32 \<Rightarrow> u32" where "CFP_MAKE_DST x = CFP_MAKE_FIELD x 5 19"
definition CFP_MAKE_TYPE :: "u32 \<Rightarrow> u32" where "CFP_MAKE_TYPE x = CFP_MAKE_FIELD x 1 18"
definition CFP_MAKE_REMAIN :: "u32 \<Rightarrow> u32" where "CFP_MAKE_REMAIN x = CFP_MAKE_FIELD x 8 10"
definition CFP_MAKE_ID :: "u32 \<Rightarrow> u32" where "CFP_MAKE_ID x = CFP_MAKE_FIELD x 10 0"

definition CFP_ID_CONN_MASK :: u32 where
  "CFP_ID_CONN_MASK = CFP_MAKE_SRC (push_bit 5 1 - 1) OR CFP_MAKE_DST (push_bit 5 1 - 1) OR CFP_MAKE_ID (push_bit 10 1 - 1)"

definition CFP2_ID_CONN_MASK :: u32 where
  "CFP2_ID_CONN_MASK = push_bit 13 0x3FFF OR push_bit 7 0x3F OR push_bit 27 0x3 OR push_bit 5 0x3"

section \<open>Reception\<close>

text \<open>What both receivers share: finding the packet of a frame, and the errors.\<close>

definition can_bind :: "u32 \<Rightarrow> bool \<Rightarrow> addr \<Rightarrow> addr \<Rightarrow> u32 \<Rightarrow> bool \<Rightarrow> 'e node \<Rightarrow> (addr option \<times> 'e node) option" where
  "can_bind msk first i d can_id isr s =
     (case csp_can_pbuf_find d can_id msk s of
        None \<Rightarrow> None
      | Some (Some p, s) \<Rightarrow> Some (Some p, s)
      | Some (None, s) \<Rightarrow>
          if first then map_option (\<lambda>(p, s). (Some p, s)) (csp_can_pbuf_new d can_id isr s)
          else Some (None, upd_iface i (\<lambda>k. k\<lparr>if_frame := if_frame k + 1\<rparr>) s))"

definition can_errno :: "u8 \<Rightarrow> 'e node \<Rightarrow> 'e node" where
  "can_errno e s = on_core (\<lambda>c. c\<lparr>csp_dbg_can_errno := e\<rparr>) s"

definition can_lost :: "u8 \<Rightarrow> addr \<Rightarrow> addr \<Rightarrow> addr \<Rightarrow> bool \<Rightarrow> 'e node \<Rightarrow> 'e node option" where
  "can_lost e i d p isr s =
     csp_can_pbuf_free d p True isr (upd_iface i (\<lambda>k. k\<lparr>if_frame := if_frame k + 1\<rparr>) (can_errno e s))"

definition can_deliver :: "u16 \<Rightarrow> addr \<Rightarrow> addr \<Rightarrow> addr \<Rightarrow> bool \<Rightarrow> 'e node \<Rightarrow> 'e node option" where
  "can_deliver bcast i d p isr s =
     (let s = (if id_dst (pkt_id (pkt s p)) = bcast
               then upd_pkt p (\<lambda>k. k\<lparr>pkt_id := (pkt_id k)\<lparr>id_dst := if_addr (iface s i)\<rparr>\<rparr>) s else s)
      in map_option (csp_qfifo_write (Some p) (Some i) isr) (csp_can_pbuf_free d p False isr s))"

text \<open>CSP 1.x: the first frame, with the result whether the switch goes on to the next case.\<close>

definition can1_begin :: "addr \<Rightarrow> addr \<Rightarrow> addr \<Rightarrow> u32 \<Rightarrow> u8 list \<Rightarrow> u8 \<Rightarrow> bool \<Rightarrow> 'e node \<Rightarrow> (bool \<times> 'e node) option" where
  "can1_begin i d p can_id data dlc isr s =
     (if dlc < 6 then map_option (Pair False) (can_lost CSP_DBG_CAN_ERR_SHORT_BEGIN i d p isr s)
      else let s = snd (in_core (csp_id_setup_rx p) s);
               s = on_core (write_frame p 0 (take 4 data)) s;
               s = upd_pkt p (\<lambda>k. k\<lparr>frame_length := frame_length k + 4\<rparr>) s;
               s = snd (in_core (csp_id_strip p) s);
               s = upd_pkt p (\<lambda>k. k\<lparr>pkt_length := be_word (take 2 (drop 4 data))\<rparr>) s
           in if unat (pkt_length (pkt s p)) > CSP_BUFFER_SIZE
              then map_option (Pair False) (csp_can_pbuf_free d p True isr (upd_iface i (\<lambda>k. k\<lparr>if_rx_error := if_rx_error k + 1\<rparr>) s))
              else Some (True, upd_pkt p (\<lambda>k. k\<lparr>rx_count := 0, remain := ucast (CFP_REMAIN can_id + 1)\<rparr>) s))"

definition can1_more :: "addr \<Rightarrow> addr \<Rightarrow> addr \<Rightarrow> u32 \<Rightarrow> u8 list \<Rightarrow> u8 \<Rightarrow> nat \<Rightarrow> bool \<Rightarrow> 'e node \<Rightarrow> 'e node option" where
  "can1_more i d p can_id data dlc offset isr s =
     (if uint (ucast (CFP_REMAIN can_id) :: u16) \<noteq> uint (remain (pkt s p)) - 1
      then map_option (upd_iface i (\<lambda>k. k\<lparr>if_frame := if_frame k + 1\<rparr>))
             (csp_can_pbuf_free d p True isr (can_errno CSP_DBG_CAN_ERR_FRAME_LOST s))
      else let s = upd_pkt p (\<lambda>k. k\<lparr>remain := remain k - 1\<rparr>) s
           in if uint (rx_count (pkt s p)) + uint dlc - int offset > uint (pkt_length (pkt s p))
              then can_lost CSP_DBG_CAN_ERR_RX_OVF i d p isr s
              else let n = unat dlc - offset;
                       s = on_core (write_data p (unat (rx_count (pkt s p))) (take n (drop offset data))) s;
                       s = upd_pkt p (\<lambda>k. k\<lparr>rx_count := rx_count k + of_nat n\<rparr>) s
                   in if rx_count (pkt s p) \<noteq> pkt_length (pkt s p) then Some s
                      else can_deliver 0x1F i d p isr s)"

definition csp_can1_rx :: "addr \<Rightarrow> u32 \<Rightarrow> u8 list \<Rightarrow> u8 \<Rightarrow> bool \<Rightarrow> 'e node \<Rightarrow> (int \<times> 'e node) option" where
  "csp_can1_rx i can_id data dlc isr s =
     (let d = the (interface_data (iface s i))
      in case can_bind CFP_ID_CONN_MASK (CFP_TYPE can_id = CFP_BEGIN) i d can_id isr s of
           None \<Rightarrow> None
         | Some (None, s) \<Rightarrow> Some (CSP_ERR_INVAL, s)
         | Some (Some p, s) \<Rightarrow>
             map_option (Pair CSP_ERR_NONE)
               (if CFP_TYPE can_id = CFP_BEGIN
                then (case can1_begin i d p can_id data dlc isr s of
                        None \<Rightarrow> None
                      | Some (fall, s) \<Rightarrow> if fall then can1_more i d p can_id data dlc 6 isr s else Some s)
                else if CFP_TYPE can_id = CFP_MORE then can1_more i d p can_id data dlc 0 isr s
                else csp_can_pbuf_free d p True isr (can_errno CSP_DBG_CAN_ERR_UNKNOWN s)))"

text \<open>CSP 2.x. The first frame and the others lead to the bytes to store, or an error.\<close>

definition can2_begin :: "addr \<Rightarrow> u32 \<Rightarrow> u8 list \<Rightarrow> 'e node \<Rightarrow> 'e node" where
  "can2_begin p can_id data s =
     (let s = snd (in_core (csp_id_setup_rx p) s);
          first_two = ucast (drop_bit 13 can_id) :: u16;
          s = on_core (write_frame p 0 (be_bytes 2 first_two)) s;
          s = on_core (write_frame p 2 (take 4 data)) s
      in upd_pkt p (\<lambda>k. k\<lparr>frame_length := 6, pkt_length := 0, rx_count := 1\<rparr>) s)"

definition can2_store :: "addr \<Rightarrow> addr \<Rightarrow> addr \<Rightarrow> u32 \<Rightarrow> u8 list \<Rightarrow> u8 \<Rightarrow> bool \<Rightarrow> 'e node \<Rightarrow> (int \<times> 'e node) option" where
  "can2_store i d p can_id data dlc isr s =
     (let (b, off) = frame_begin (pkt s p); n = unat (frame_length (pkt s p))
      in if off + n + unat dlc > DATA_END
         then map_option (Pair CSP_ERR_INVAL) (csp_can_pbuf_free d p True isr
                (upd_iface i (\<lambda>k. k\<lparr>if_rx_error := if_rx_error k + 1\<rparr>) (can_errno CSP_DBG_CAN_ERR_RX_OVF s)))
         else let s = on_core (write_frame p n (take (unat dlc) data)) s;
                  s = upd_pkt p (\<lambda>k. k\<lparr>frame_length := frame_length k + ucast dlc\<rparr>) s
              in map_option (Pair CSP_ERR_NONE)
                   (if can_id AND 1 \<noteq> 0 then can_deliver 0x3FFF i d p isr (snd (in_core (csp_id_strip p) s)) else Some s))"

definition csp_can2_rx :: "addr \<Rightarrow> u32 \<Rightarrow> u8 list \<Rightarrow> u8 \<Rightarrow> bool \<Rightarrow> 'e node \<Rightarrow> (int \<times> 'e node) option" where
  "csp_can2_rx i can_id data dlc isr s =
     (let d = the (interface_data (iface s i)); first = (can_id AND push_bit 1 1 \<noteq> 0)
      in case can_bind CFP2_ID_CONN_MASK first i d can_id isr s of
           None \<Rightarrow> None
         | Some (None, s) \<Rightarrow> Some (CSP_ERR_INVAL, s)
         | Some (Some p, s) \<Rightarrow>
             if first
             then if dlc < 4 then map_option (Pair CSP_ERR_INVAL) (can_lost CSP_DBG_CAN_ERR_SHORT_BEGIN i d p isr s)
                  else can2_store i d p can_id (drop 4 data) (dlc - 4) isr (can2_begin p can_id data s)
             else if ucast (rx_count (pkt s p)) \<noteq> drop_bit 2 can_id AND 0x7
                  then map_option (\<lambda>s. (CSP_ERR_INVAL, upd_iface i (\<lambda>k. k\<lparr>if_frame := if_frame k + 1\<rparr>) s))
                         (csp_can_pbuf_free d p True isr (can_errno CSP_DBG_CAN_ERR_FRAME_LOST s))
                  else can2_store i d p can_id data dlc isr (upd_pkt p (\<lambda>k. k\<lparr>rx_count := (rx_count k + 1) AND 0x7\<rparr>) s))"

definition csp_can_rx :: "addr \<Rightarrow> u32 \<Rightarrow> u8 list \<Rightarrow> u8 \<Rightarrow> bool \<Rightarrow> 'e node \<Rightarrow> (int \<times> 'e node) option" where
  "csp_can_rx i can_id data dlc isr s =
     (if version (csp_conf (core s)) = 1 then csp_can1_rx i can_id data dlc isr s else csp_can2_rx i can_id data dlc isr s)"

section \<open>Transmission\<close>

type_synonym 'e can_fn = "nat \<Rightarrow> addr option \<Rightarrow> u32 \<Rightarrow> u8 list \<Rightarrow> 'e \<Rightarrow> int \<times> 'e"

definition can_tx_call :: "'e can_fn \<Rightarrow> addr \<Rightarrow> u32 \<Rightarrow> u8 list \<Rightarrow> 'e node \<Rightarrow> int \<times> 'e node" where
  "can_tx_call tf i can_id bs s =
     (let (r, e) = tf (the (can_tx_func (can s (the (interface_data (iface s i)))))) (driver_data (iface s i)) can_id bs (hw (drv s))
      in (r, upd_hw (\<lambda>_. e) s))"

lemma can_tx_call_frame:
  assumes "can_tx_call tf i can_id bs s = (r, s')"
  shows "core s' = core s" "iflist s' = iflist s" "can s' e = can s e" "own drv_held f s' = own drv_held f s" "tx_frame s s'"
  using assms by (auto simp: can_tx_call_def split_beta Let_def)

definition can_tx_failed :: "addr \<Rightarrow> 'e node \<Rightarrow> int \<times> 'e node" where
  "can_tx_failed i s = (CSP_ERR_DRIVER, upd_iface i (\<lambda>k. k\<lparr>if_tx_error := if_tx_error k + 1\<rparr>) s)"

definition can1_id :: "csp_id \<Rightarrow> u8 \<Rightarrow> u32 \<Rightarrow> u32 \<Rightarrow> nat \<Rightarrow> u32" where
  "can1_id x dest ident typ rem = CFP_MAKE_SRC (ucast (id_src x)) OR CFP_MAKE_DST (ucast dest) OR CFP_MAKE_ID ident
     OR CFP_MAKE_TYPE typ OR CFP_MAKE_REMAIN (of_nat rem)"

function can1_tx_loop :: "'e can_fn \<Rightarrow> addr \<Rightarrow> addr \<Rightarrow> u32 \<Rightarrow> u8 \<Rightarrow> nat \<Rightarrow> 'e node \<Rightarrow> int \<times> 'e node" where
  "can1_tx_loop tf i p ident dest tx_count s =
     (let len = unat (pkt_length (pkt s p))
      in if tx_count < len
         then let n = (if len - tx_count \<ge> CAN_FRAME_SIZE then CAN_FRAME_SIZE else len - tx_count);
                  can_id = can1_id (pkt_id (pkt s p)) dest ident CFP_MORE ((len - tx_count - n + CAN_FRAME_SIZE - 1) div CAN_FRAME_SIZE)
              in case can_tx_call tf i can_id (take n (drop tx_count (payload (core s) p))) s of
                   (r, s') \<Rightarrow> if r \<noteq> CSP_ERR_NONE then can_tx_failed i s' else can1_tx_loop tf i p ident dest (tx_count + n) s'
         else (CSP_ERR_NONE, s))"
  by pat_completeness auto
termination
  by (relation "measure (\<lambda>(tf, i, p, ident, dest, tx_count, s). unat (pkt_length (pkt s p)) - tx_count)")
    (auto dest: can_tx_call_frame(1) [OF sym])

definition csp_can1_tx :: "'e can_fn \<Rightarrow> addr \<Rightarrow> u16 \<Rightarrow> addr \<Rightarrow> bool \<Rightarrow> 'e node \<Rightarrow> int \<times> 'e node" where
  "csp_can1_tx tf i via p from_me s =
     (if id_dst (pkt_id (pkt s p)) = if_addr (iface s i) then (CSP_ERR_NONE, csp_qfifo_write (Some p) (Some i) False s)
      else let d = the (interface_data (iface s i));
               ident = cfp_packet_counter (can s d);
               s = upd_can d (\<lambda>c. c\<lparr>cfp_packet_counter := cfp_packet_counter c + 1\<rparr>) s;
               dest = (if via \<noteq> CSP_NO_VIA_ADDRESS then ucast via else ucast (id_dst (pkt_id (pkt s p))));
               len = unat (pkt_length (pkt s p));
               can_id = can1_id (pkt_id (pkt s p)) dest ident CFP_BEGIN ((len + 6 - 1) div CAN_FRAME_SIZE);
               s = on_core (csp_id_prepend p) s;
               n = (if len \<le> 2 then len else 2);
               frame_buf = frame_bytes (core s) p 4 @ be_bytes 2 (pkt_length (pkt s p)) @ take n (payload (core s) p)
           in case can_tx_call tf i can_id frame_buf s of
                (r, s) \<Rightarrow>
                  if r \<noteq> CSP_ERR_NONE then can_tx_failed i s
                  else case can1_tx_loop tf i p ident dest n s of
                         (r, s) \<Rightarrow> if r \<noteq> CSP_ERR_NONE then (r, s) else (CSP_ERR_NONE, free_pkt p s))"

text \<open>
  CSP 2.x. The source address is shifted by 18 as an \<^verbatim>\<open>int\<close>; the value is that of the wrapping
  shift, which compilers give it.
\<close>

definition can2_id :: "csp_id \<Rightarrow> u16 \<Rightarrow> u32 \<Rightarrow> u32" where
  "can2_id x a sender_count = push_bit 27 (ucast (id_pri x) AND 0x3) OR push_bit 13 (ucast (id_dst x) AND 0x3FFF)
     OR push_bit 7 (ucast a AND 0x3F) OR push_bit 5 (sender_count AND 0x3)"

definition can2_ext :: "csp_id \<Rightarrow> u32" where
  "can2_ext x = push_bit 18 (ucast (id_src x) AND 0x3FFF) OR push_bit 12 (ucast (id_dport x) AND 0x3F)
     OR push_bit 6 (ucast (id_sport x) AND 0x3F) OR push_bit 0 (ucast (id_flags x) AND 0x3F)"

function can2_tx_loop :: "'e can_fn \<Rightarrow> addr \<Rightarrow> addr \<Rightarrow> u32 \<Rightarrow> nat \<Rightarrow> nat \<Rightarrow> 'e node \<Rightarrow> int \<times> 'e node" where
  "can2_tx_loop tf i p sender_count fragment_count tx_count s =
     (let len = unat (pkt_length (pkt s p))
      in if tx_count < len
         then let can_id = can2_id (pkt_id (pkt s p)) (if_addr (iface s i)) sender_count;
                  can_id = can_id OR push_bit 2 (of_nat fragment_count AND 0x7);
                  n = (if len - tx_count \<ge> CAN_FRAME_SIZE then CAN_FRAME_SIZE else len - tx_count);
                  can_id = (if tx_count + n = len then can_id OR 1 else can_id)
              in case can_tx_call tf i can_id (take n (drop tx_count (payload (core s) p))) s of
                   (r, s') \<Rightarrow> if r \<noteq> CSP_ERR_NONE then can_tx_failed i s'
                              else can2_tx_loop tf i p sender_count (fragment_count + 1) (tx_count + n) s'
         else (CSP_ERR_NONE, s))"
  by pat_completeness auto
termination
  by (relation "measure (\<lambda>(tf, i, p, sender_count, fragment_count, tx_count, s). unat (pkt_length (pkt s p)) - tx_count)")
    (auto dest: can_tx_call_frame(1) [OF sym])

definition csp_can2_tx :: "'e can_fn \<Rightarrow> addr \<Rightarrow> u16 \<Rightarrow> addr \<Rightarrow> bool \<Rightarrow> 'e node \<Rightarrow> int \<times> 'e node" where
  "csp_can2_tx tf i via p from_me s =
     (if id_dst (pkt_id (pkt s p)) = if_addr (iface s i) then (CSP_ERR_NONE, csp_qfifo_write (Some p) (Some i) False s)
      else let d = the (interface_data (iface s i));
               sender_count = cfp_packet_counter (can s d);
               s = upd_can d (\<lambda>c. c\<lparr>cfp_packet_counter := cfp_packet_counter c + 1\<rparr>) s;
               can_id = can2_id (pkt_id (pkt s p)) (if_addr (iface s i)) sender_count OR push_bit 1 1;
               len = unat (pkt_length (pkt s p));
               n = (if len \<ge> 4 then 4 else len);
               frame_buf = be_bytes 4 (can2_ext (pkt_id (pkt s p))) @ take n (payload (core s) p);
               can_id = (if n = len then can_id OR 1 else can_id)
           in case can_tx_call tf i can_id frame_buf s of
                (r, s) \<Rightarrow>
                  if r \<noteq> CSP_ERR_NONE then can_tx_failed i s
                  else case can2_tx_loop tf i p sender_count 1 n s of
                         (r, s) \<Rightarrow> if r \<noteq> CSP_ERR_NONE then (r, s) else (CSP_ERR_NONE, free_pkt p s))"

section \<open>Adding and removing\<close>

definition csp_can_add_interface :: "addr option \<Rightarrow> 'e node \<Rightarrow> int \<times> 'e node" where
  "csp_can_add_interface ifc s =
     (case ifc of
        None \<Rightarrow> (CSP_ERR_INVAL, s)
      | Some i \<Rightarrow>
          (case (if_name (iface s i), interface_data (iface s i)) of
             (Some nm, Some d) \<Rightarrow>
               if can_tx_func (can s d) = None then (CSP_ERR_INVAL, s)
               else let s = upd_can d (\<lambda>c. c\<lparr>cfp_packet_counter := 0\<rparr>) s;
                        s = upd_iface i (\<lambda>k. k\<lparr>if_nexthop := if version (csp_conf (core s)) = 1 then Csp_can1_tx else Csp_can2_tx\<rparr>) s
                    in (CSP_ERR_NONE, s\<lparr>iflist := csp_iflist_add (Some i) (iflist s)\<rparr>)
           | _ \<Rightarrow> (CSP_ERR_INVAL, s)))"

definition csp_can_remove_interface :: "addr option \<Rightarrow> 'e node \<Rightarrow> int \<times> 'e node" where
  "csp_can_remove_interface ifc s =
     (case ifc of None \<Rightarrow> (CSP_ERR_INVAL, s) | Some i \<Rightarrow> (CSP_ERR_NONE, s\<lparr>iflist := csp_iflist_remove (Some i) (iflist s)\<rparr>))"

end
