(* ===== verification/CSP_Can_Rx.thy ===== *)
theory CSP_Can_Rx
  imports CSP_Can
begin

text \<open>
  The receivers of the CAN interface on arbitrary frames: the accounting of buffers and the
  bounds of what they store.
\<close>

section \<open>Invariant\<close>

text \<open>A packet in reception: what is stored so far fits its buffer.\<close>

definition can_pkt_ok :: "csp_core \<Rightarrow> addr \<Rightarrow> bool" where
  "can_pkt_ok c p \<longleftrightarrow> (let k = packet c p in
     if version (csp_conf c) = 1 then rx_count k \<le> pkt_length k \<and> unat (pkt_length k) \<le> CSP_BUFFER_SIZE
     else frame_begin k = (p, DATA_OFF - hdr_size c) \<and> unat (frame_length k) \<le> CSP_BUFFER_SIZE + hdr_size c)"

definition can_inv :: "addr \<Rightarrow> (addr \<Rightarrow> nat) \<Rightarrow> addr set \<Rightarrow> addr list \<Rightarrow> 'e node \<Rightarrow> bool" where
  "can_inv d f P xs s \<longleftrightarrow> own drv_held (toks xs f) s \<and> can_list d s xs \<and> (\<forall>q\<in>set xs - P. can_pkt_ok (core s) q) \<and> mem_bounded (core s)"

text \<open>What reception leaves alone: the configuration, and every packet but those in \<open>P\<close>; no packet grows old.\<close>

definition can_frame :: "addr set \<Rightarrow> 'e node \<Rightarrow> 'e node \<Rightarrow> bool" where
  "can_frame P s s' \<longleftrightarrow> csp_conf (core s') = csp_conf (core s) \<and> (\<forall>j. interface_data (iface s' j) = interface_data (iface s j))
     \<and> (\<forall>q. q \<notin> P \<longrightarrow> pkt s' q = pkt s q) \<and> refreshed s s'"

lemma can_frame_refl [simp]: "can_frame P s s"
  by (simp add: can_frame_def)

lemma can_frame_trans: "can_frame P a b \<Longrightarrow> can_frame P b c \<Longrightarrow> can_frame P a c"
  by (auto simp: can_frame_def intro: refreshed_trans)

lemma can_frame_mono: "can_frame P a b \<Longrightarrow> P \<subseteq> Q \<Longrightarrow> can_frame Q a b"
  unfolding can_frame_def by blast

lemma can_frame_kept: "can_kept d P s s' \<Longrightarrow> can_frame P s s'"
  using refreshed_kept [of "can_head d" P s s'] unfolding can_kept_eq [symmetric] unfolding can_kept_def can_frame_def by auto

lemma can_frame_upds [simp]:
  "p \<in> P \<Longrightarrow> last_used (g (pkt s p)) = last_used (pkt s p) \<or> last_used (g (pkt s p)) = csp_ms (core s) \<Longrightarrow> can_frame P s (upd_pkt p g s)"
  "can_frame P s (upd_iface i (\<lambda>k. k\<lparr>if_frame := h k\<rparr>) s)"
  "can_frame P s (upd_iface i (\<lambda>k. k\<lparr>if_rx_error := h k\<rparr>) s)" "can_frame P s (can_errno e s)"
  by (simp_all add: can_frame_def) (auto simp: upd_pkt_def can_errno_def on_core_def refreshed_def)

section \<open>Pieces of the receivers\<close>

lemma can_inv_upd:
  assumes inv: "can_inv d f P xs s" and g: "pkt_next (g (pkt s p)) = pkt_next (pkt s p)" "\<And>off. DATA_END \<le> off \<Longrightarrow> pkt_mem (g (pkt s p)) off = 0"
  shows "can_inv d f (insert p P) xs (upd_pkt p g s)"
proof -
  let ?s = "upd_pkt p g s"
  have "pchain (core ?s) (pbufs (can s d)) xs = pchain (core s) (pbufs (can s d)) xs"
    by (rule pchain_cong) (use g(1) in simp)
  moreover have "can_pkt_ok (core ?s) q = can_pkt_ok (core s) q" if "q \<noteq> p" for q
    using that by (simp add: can_pkt_ok_def hdr_size_def upd_pkt_def on_core_def Let_def)
  ultimately show ?thesis
    using inv g(2) by (simp add: can_inv_def can_list_def mem_bounded_def)
qed

lemma can_inv_mono: "can_inv d f P xs s \<Longrightarrow> P \<subseteq> Q \<Longrightarrow> can_inv d f Q xs s"
  unfolding can_inv_def by blast

lemma can_inv_same:
  assumes inv: "can_inv d f P xs s" "P \<subseteq> {p}" and g: "pkt_next (g (pkt s p)) = pkt_next (pkt s p)" "pkt_mem (g (pkt s p)) = pkt_mem (pkt s p)"
  shows "can_inv d f {p} xs (upd_pkt p g s)"
proof -
  have "pkt_mem (g (pkt s p)) off = 0" if "DATA_END \<le> off" for off using inv(1) g(2) that by (simp add: can_inv_def mem_bounded_def)
  then have "can_inv d f (insert p P) xs (upd_pkt p g s)" using can_inv_upd [of d f P xs s g p] inv(1) g(1) by blast
  moreover have "insert p P \<subseteq> {p}" using inv(2) by simp
  ultimately show ?thesis by (rule can_inv_mono)
qed

lemma can_inv_ok: "can_inv d f {p} xs s \<Longrightarrow> can_pkt_ok (core s) p \<Longrightarrow> can_inv d f {} xs s"
  unfolding can_inv_def by blast

lemma can_inv_iface [simp]: "can_inv d f P xs (upd_iface i g s) = can_inv d f P xs s"
  by (simp add: can_inv_def can_list_def)

lemma can_inv_errno [simp]: "can_inv d f P xs (can_errno e s) = can_inv d f P xs s"
proof -
  let ?c = "(core s)\<lparr>csp_dbg_can_errno := e\<rparr>"
  have pk: "packet ?c = packet (core s)" by (simp add: packet_def fun_eq_iff)
  have "own drv_held (toks xs f) (s\<lparr>core := ?c\<rparr>) = own drv_held (toks xs f) s"
    by (rule own_core_cong) (simp_all add: buf_inv_def buf_refs_def free_list_def fun_eq_iff)
  moreover have "pchain ?c (pbufs (can s d)) xs = pchain (core s) (pbufs (can s d)) xs" by (rule pchain_cong) (simp add: pk)
  ultimately show ?thesis
    by (simp add: can_inv_def can_list_def can_errno_def on_core_def can_pkt_ok_def mem_bounded_def pk hdr_size_def csp_version_def)
qed

lemma can_kept_pkt: "can_kept d P s s' \<Longrightarrow> can_pkt_ok (core s') q = can_pkt_ok (core s) q" "can_kept d P s s' \<Longrightarrow> mem_bounded (core s') = mem_bounded (core s)"
proof -
  assume k: "can_kept d P s s'"
  have n: "\<exists>n. pkt s' q = (pkt s q)\<lparr>pkt_next := n\<rparr>" for q using k by (simp add: can_kept_def)
  have c: "csp_conf (core s') = csp_conf (core s)" using k by (simp add: can_kept_def)
  obtain n' where "pkt s' q = (pkt s q)\<lparr>pkt_next := n'\<rparr>" using n by blast
  with c show "can_pkt_ok (core s') q = can_pkt_ok (core s) q" by (simp add: can_pkt_ok_def hdr_size_def csp_version_def Let_def)
  have "pkt_mem (pkt s' q) = pkt_mem (pkt s q)" for q using n [of q] by auto
  then show "mem_bounded (core s') = mem_bounded (core s)" by (simp add: mem_bounded_def)
qed

text \<open>Taking the packet out of the list, and back to the pool or into the hands of the receiver.\<close>

lemma can_free_inv:
  assumes inv: "can_inv d f {p} xs s" and p: "p \<in> set xs"
  shows "\<exists>s'. csp_can_pbuf_free d p bf isr s = Some s' \<and> can_frame (set xs) s s'
    \<and> can_inv d (if bf then f else tok p f) {} (remove1 p xs) s' \<and> pkt s' p = pkt s p"
proof -
  from inv have i: "own drv_held (toks xs f) s" "can_list d s xs" by (simp_all add: can_inv_def)
  from pbuf_free_effect [OF this p, of bf isr] obtain s' where s': "csp_can_pbuf_free d p bf isr s = Some s'"
      "own drv_held (if bf then toks (remove1 p xs) f else tok p (toks (remove1 p xs) f)) s'" "can_list d s' (remove1 p xs)"
      "can_kept d (set xs) s s'" "pkt s' p = pkt s p"
    by auto
  have "toks ys (tok p f) = tok p (toks ys f)" for ys by (auto simp: toks_def tok_apply fun_eq_iff)
  then have own: "own drv_held (toks (remove1 p xs) (if bf then f else tok p f)) s'" using s'(2) by (cases bf) simp_all
  have "p \<notin> set (remove1 p xs)" using i(2) by (simp add: can_list_def)
  then have "can_pkt_ok (core s') q" if "q \<in> set (remove1 p xs)" for q
    using that inv can_kept_pkt(1) [OF s'(4)] notin_set_remove1 [of q xs p] by (auto simp: can_inv_def)
  then have "can_inv d (if bf then f else tok p f) {} (remove1 p xs) s'"
    using own s'(3) inv can_kept_pkt(2) [OF s'(4)] by (simp add: can_inv_def)
  with s' can_frame_kept [OF s'(4)] show ?thesis by blast
qed

text \<open>What a receiver promises after it has bound a frame to a packet of \<open>xs\<close>.\<close>

definition can_done :: "addr \<Rightarrow> (addr \<Rightarrow> nat) \<Rightarrow> addr list \<Rightarrow> 'e node \<Rightarrow> 'e node option \<Rightarrow> bool" where
  "can_done d f xs s res \<longleftrightarrow> (\<exists>s' ys. res = Some s' \<and> can_inv d f {} ys s' \<and> set ys \<subseteq> set xs \<and> can_frame (set xs) s s')"

lemma can_doneI: "can_inv d f {} xs s' \<Longrightarrow> can_frame (set xs) s s' \<Longrightarrow> can_done d f xs s (Some s')"
  by (auto simp: can_done_def)

lemma can_done_map:
  "can_done d f xs s res \<Longrightarrow> (\<And>s' ys. can_inv d f {} ys s' \<Longrightarrow> can_inv d f {} ys (g s') \<and> can_frame (set xs) s' (g s')) \<Longrightarrow>
     can_done d f xs s (map_option g res)"
  unfolding can_done_def by (force intro: can_frame_trans)

lemma can_done_from: "can_done d f xs t res \<Longrightarrow> can_frame (set xs) s t \<Longrightarrow> can_done d f xs s res"
  unfolding can_done_def by (blast intro: can_frame_trans)

lemma can_free_done:
  assumes "can_inv d f {p} xs s" "p \<in> set xs"
  shows "can_done d f xs s (csp_can_pbuf_free d p True isr s)"
  using can_free_inv [OF assms, of True isr] set_remove1_subset [of p xs] unfolding can_done_def by auto

lemma can_lost_done:
  assumes "can_inv d f {p} xs s" "p \<in> set xs"
  shows "can_done d f xs s (can_lost e i d p isr s)"
  unfolding can_lost_def
  by (rule can_done_from [OF can_free_done]) (use assms can_frame_trans [OF can_frame_upds(4) can_frame_upds(2)] in auto)

lemma can_deliver_done:
  assumes inv: "can_inv d f {p} xs s" and p: "p \<in> set xs"
  shows "can_done d f xs s (can_deliver b i d p isr s)"
proof -
  define s1 where "s1 = (if id_dst (pkt_id (pkt s p)) = b then upd_pkt p (\<lambda>k. k\<lparr>pkt_id := (pkt_id k)\<lparr>id_dst := if_addr (iface s i)\<rparr>\<rparr>) s else s)"
  have one: "can_inv d f {p} xs s1" "can_frame (set xs) s s1"
    using inv p can_inv_same [OF inv, of p "\<lambda>k. k\<lparr>pkt_id := (pkt_id k)\<lparr>id_dst := if_addr (iface s i)\<rparr>\<rparr>"]
    by (auto simp: s1_def)
  from can_free_inv [OF one(1) p, of False isr] obtain s2 where s2: "csp_can_pbuf_free d p False isr s1 = Some s2" "can_frame (set xs) s1 s2"
      "can_inv d (tok p f) {} (remove1 p xs) s2" by auto
  let ?s3 = "csp_qfifo_write (Some p) (Some i) isr s2"
  have tk: "toks ys (tok p f) = tok p (toks ys f)" for ys by (auto simp: toks_def tok_apply fun_eq_iff)
  have own2: "own drv_held (tok p (toks (remove1 p xs) f)) s2" using s2(3) by (simp add: can_inv_def tk)
  have own3: "own drv_held (toks (remove1 p xs) f) ?s3" using own_qfifo_write [of drv_held "Some p"] own2 by simp
  note pk = qfifo_write_same [of "Some p" "Some i" isr s2]
  have "can_pkt_ok (core ?s3) = can_pkt_ok (core s2)" by (simp add: can_pkt_ok_def hdr_size_def csp_version_def pk fun_eq_iff)
  then have "can_inv d f {} (remove1 p xs) ?s3" "can_frame (set xs) s2 ?s3"
    using own3 s2(3) pk pchain_cong [of "remove1 p xs" "core ?s3" "core s2"]
    by (simp_all add: can_inv_def can_list_def mem_bounded_def can_frame_def)
  moreover have "set (remove1 p xs) \<subseteq> set xs" by (rule set_remove1_subset)
  moreover have "can_frame (set xs) s ?s3"
    using can_frame_trans [OF can_frame_trans [OF one(2) s2(2)]] calculation(2) .
  ultimately show ?thesis
    unfolding can_done_def can_deliver_def Let_def s1_def [symmetric] s2(1) by auto
qed

text \<open>The steps that change only the packet, as updates of it.\<close>

lemma write_data_upd: "on_core (write_data p n bs) s = upd_pkt p (\<lambda>k. k\<lparr>pkt_mem := mem_write (pkt_mem k) (DATA_OFF + n) bs\<rparr>) s"
  by (simp add: on_core_def write_data_def upd_pkt_def) (subst mem_update, rule refl)

lemma unat_u8_u16 [simp]: "unat (ucast (w :: u8) :: u16) = unat w"
proof -
  have "unat w < 2 ^ 8" using unsigned_less [of w] by simp
  then show ?thesis by (simp add: unsigned_ucast_eq take_bit_nat_eq_self)
qed

lemma can2_begin_upd:
  assumes "4 \<le> length data"
  shows "\<exists>g. can2_begin p can_id data s = upd_pkt p g s \<and> (\<forall>k. pkt_next (g k) = pkt_next k \<and> frame_begin (g k) = (p, DATA_OFF - hdr_size (core s))
    \<and> frame_length (g k) = 6 \<and> rx_count (g k) = 1 \<and> cfpid (g k) = cfpid k \<and> last_used (g k) = last_used k
    \<and> pkt_mem (g k) = mem_write (pkt_mem k) (DATA_OFF - hdr_size (core s)) (be_bytes 2 (ucast (drop_bit 13 can_id) :: u16) @ take 4 data))"
proof -
  let ?o = "DATA_OFF - hdr_size (core s)"
  have m: "mem_write (mem_write m ?o (be_bytes 2 w)) (?o + 2) ys = mem_write m ?o (be_bytes 2 w @ ys)" for m ys and w :: u16
    using mem_write_append [of m ?o "be_bytes 2 w" ys] by simp
  show ?thesis
    unfolding can2_begin_def Let_def setup_rx_effect snd_conv
    by (subst write_frame_upd [where off = ?o], simp, subst write_frame_upd [where off = ?o], simp, simp only: upd_pkt_comp, rule exI, rule conjI, rule refl)
      (simp add: m [simplified])
qed

lemma can2_store_done:
  assumes inv: "can_inv d f {} xs s" and p: "p \<in> set xs" and v: "version (csp_conf (core s)) \<noteq> 1" and n: "length data = unat dlc"
  shows "can_done d f xs s (map_option snd (can2_store i d p can_id data dlc isr s))"
proof -
  let ?n = "unat (frame_length (pkt s p))"
  have ok: "frame_begin (pkt s p) = (p, DATA_OFF - hdr_size (core s))" "?n \<le> CSP_BUFFER_SIZE + hdr_size (core s)"
    using inv p v by (simp_all add: can_inv_def can_pkt_ok_def Let_def)
  have inv1: "can_inv d f {p} xs s" using can_inv_mono [OF inv] by simp
  show ?thesis
  proof (cases "DATA_OFF - hdr_size (core s) + ?n + unat dlc > DATA_END")
    case True
    have "can_done d f xs s (csp_can_pbuf_free d p True isr
        (upd_iface i (\<lambda>k. k\<lparr>if_rx_error := if_rx_error k + 1\<rparr>) (can_errno CSP_DBG_CAN_ERR_RX_OVF s)))"
      by (rule can_done_from [OF can_free_done]) (use inv1 p can_frame_trans [OF can_frame_upds(4) can_frame_upds(3)] in auto)
    then show ?thesis using True ok(1) by (simp add: can2_store_def option.map_comp comp_def option.map_ident)
  next
    case False
    let ?g = "\<lambda>k. k\<lparr>pkt_mem := mem_write (pkt_mem k) (DATA_OFF - hdr_size (core s) + ?n) data, frame_length := frame_length k + ucast dlc\<rparr>"
    define s1 where "s1 = upd_pkt p ?g s"
    have st: "upd_pkt p (\<lambda>k. k\<lparr>frame_length := frame_length k + ucast dlc\<rparr>) (on_core (write_frame p ?n (take (unat dlc) data)) s) = s1"
      using n by (simp add: write_frame_upd [OF ok(1)] upd_pkt_comp s1_def)
    have fits: "DATA_OFF - hdr_size (core s) + ?n + length data \<le> DATA_END" using False n by simp
    have zero: "pkt_mem (pkt s p) off = 0" if "DATA_END \<le> off" for off using inv that by (simp add: can_inv_def mem_bounded_def)
    have one: "can_inv d f {p} xs s1" unfolding s1_def
      by (rule can_inv_upd [OF inv]) (use zero mem_write_bounded [OF _ fits] in auto)
    have "unat (frame_length (pkt s p) + ucast dlc) = ?n + unat dlc"
      using False hdr_size_cases [of "core s"] by (subst unat_add_small) auto
    then have "can_pkt_ok (core s1) p"
      using ok v False hdr_size_cases [of "core s"] by (auto simp: can_pkt_ok_def s1_def Let_def upd_pkt_def on_core_def)
    then have stay: "can_done d f xs s (Some s1)" using one p by (intro can_doneI) (auto intro: can_inv_ok simp: s1_def)
    obtain h where h: "snd (in_core (csp_id_strip p) s1) = upd_pkt p h s1" "\<And>k. pkt_next (h k) = pkt_next k" "\<And>k. pkt_mem (h k) = pkt_mem k" "\<And>k. last_used (h k) = last_used k"
      using strip_upd [of p s1] by blast
    have "can_inv d f {p} xs (upd_pkt p h s1)" by (rule can_inv_same [OF one]) (simp_all add: h)
    from can_deliver_done [OF this p] have "can_done d f xs s (can_deliver 0x3FFF i d p isr (snd (in_core (csp_id_strip p) s1)))"
      unfolding h(1) by (rule can_done_from) (use p in \<open>auto simp: s1_def upd_pkt_comp h(4)\<close>)
    with stay show ?thesis
      using False ok(1) by (simp add: can2_store_def Let_def st option.map_comp comp_def option.map_ident)
  qed
qed

text \<open>CSP 1.x.\<close>

lemma can1_begin_upd:
  "\<exists>g. upd_pkt p (\<lambda>k. k\<lparr>pkt_length := be_word (take 2 (drop 4 data))\<rparr>)
      (snd (in_core (csp_id_strip p) (upd_pkt p (\<lambda>k. k\<lparr>frame_length := frame_length k + 4\<rparr>)
         (on_core (write_frame p 0 (take 4 data)) (snd (in_core (csp_id_setup_rx p) s)))))) = upd_pkt p g s
    \<and> (\<forall>k. pkt_next (g k) = pkt_next k \<and> cfpid (g k) = cfpid k \<and> last_used (g k) = last_used k \<and> pkt_length (g k) = be_word (take 2 (drop 4 data))
         \<and> pkt_mem (g k) = mem_write (pkt_mem k) (DATA_OFF - hdr_size (core s)) (take 4 data))"
proof -
  let ?o = "DATA_OFF - hdr_size (core s)"
  define s1 where "s1 = upd_pkt p (\<lambda>k. k\<lparr>frame_length := frame_length k + 4\<rparr>) (on_core (write_frame p 0 (take 4 data)) (snd (in_core (csp_id_setup_rx p) s)))"
  have s1: "s1 = upd_pkt p (\<lambda>k. k\<lparr>frame_begin := (p, ?o), pkt_mem := mem_write (pkt_mem k) ?o (take 4 data), frame_length := 4\<rparr>) s"
    unfolding s1_def setup_rx_effect snd_conv by (subst write_frame_upd [where off = ?o]) (simp_all add: upd_pkt_comp)
  obtain h where h: "snd (in_core (csp_id_strip p) s1) = upd_pkt p h s1" "\<And>k. pkt_next (h k) = pkt_next k" "\<And>k. pkt_mem (h k) = pkt_mem k" "\<And>k. cfpid (h k) = cfpid k"
      "\<And>k. last_used (h k) = last_used k"
    using strip_upd [of p s1] by blast
  show ?thesis
    unfolding s1_def [symmetric] h(1) unfolding s1 by (simp only: upd_pkt_comp) (rule exI, rule conjI, rule refl, simp add: h(2-5))
qed

lemma can1_begin_done:
  assumes inv: "can_inv d f {p} xs s" and p: "p \<in> set xs" and v: "version (csp_conf (core s)) = 1" and n: "length data = unat dlc"
  shows "\<exists>fall s'. can1_begin i d p can_id data dlc isr s = Some (fall, s')
    \<and> (if fall then can_inv d f {} xs s' \<and> can_frame (set xs) s s' \<and> 6 \<le> unat dlc else can_done d f xs s (Some s'))"
proof (cases "dlc < 6")
  case True
  with can_lost_done [OF inv p, of CSP_DBG_CAN_ERR_SHORT_BEGIN i isr] show ?thesis
    by (auto simp: can1_begin_def can_done_def)
next
  case False
  obtain g where g: "upd_pkt p (\<lambda>k. k\<lparr>pkt_length := be_word (take 2 (drop 4 data))\<rparr>)
      (snd (in_core (csp_id_strip p) (upd_pkt p (\<lambda>k. k\<lparr>frame_length := frame_length k + 4\<rparr>)
         (on_core (write_frame p 0 (take 4 data)) (snd (in_core (csp_id_setup_rx p) s)))))) = upd_pkt p g s"
      "\<And>k. pkt_next (g k) = pkt_next k" "\<And>k. pkt_length (g k) = be_word (take 2 (drop 4 data))"
      "\<And>k. pkt_mem (g k) = mem_write (pkt_mem k) (DATA_OFF - hdr_size (core s)) (take 4 data)" "\<And>k. last_used (g k) = last_used k"
    using can1_begin_upd [of p data s] by blast
  have bound: "DATA_OFF - hdr_size (core s) + length (take 4 data) \<le> DATA_END" by simp
  have zero: "pkt_mem (pkt s p) off = 0" if "DATA_END \<le> off" for off using inv that by (simp add: can_inv_def mem_bounded_def)
  have one: "can_inv d f {p} xs (upd_pkt p g s)"
    using can_inv_upd [OF inv, of g p] g zero mem_write_bounded [OF _ bound] by simp
  show ?thesis
  proof (cases "unat (pkt_length (pkt (upd_pkt p g s) p)) > CSP_BUFFER_SIZE")
    case True
    have "can_done d f xs s (csp_can_pbuf_free d p True isr (upd_iface i (\<lambda>k. k\<lparr>if_rx_error := if_rx_error k + 1\<rparr>) (upd_pkt p g s)))"
      by (rule can_done_from [OF can_free_done]) (use one p g(5) can_frame_trans [OF can_frame_upds(1) [of p "set xs" g s] can_frame_upds(3)] in auto)
    then obtain s' where "csp_can_pbuf_free d p True isr (upd_iface i (\<lambda>k. k\<lparr>if_rx_error := if_rx_error k + 1\<rparr>) (upd_pkt p g s)) = Some s'"
        "can_done d f xs s (Some s')"
      by (auto simp: can_done_def)
    with True False show ?thesis by (intro exI [of _ False] exI [of _ s']) (simp add: can1_begin_def g(1,3) Let_def)
  next
    case small: False
    let ?s2 = "upd_pkt p (\<lambda>k. k\<lparr>rx_count := 0, remain := ucast (CFP_REMAIN can_id + 1)\<rparr>) (upd_pkt p g s)"
    have "can_inv d f {p} xs ?s2" by (rule can_inv_same [OF one]) simp_all
    moreover have "can_pkt_ok (core ?s2) p" using small v by (simp add: can_pkt_ok_def Let_def upd_pkt_def on_core_def)
    ultimately have "can_inv d f {} xs ?s2" by (rule can_inv_ok)
    moreover have "can_frame (set xs) s ?s2" using p g(5) by (simp add: upd_pkt_comp)
    moreover have "6 \<le> unat dlc" using False by (simp add: word_less_nat_alt)
    ultimately show ?thesis using False small by (intro exI [of _ True] exI [of _ ?s2]) (simp add: can1_begin_def g(1,3) Let_def)
  qed
qed

lemma can1_more_done:
  assumes inv: "can_inv d f {} xs s" and p: "p \<in> set xs" and v: "version (csp_conf (core s)) = 1" and n: "length data = unat dlc" "offset \<le> unat dlc"
  shows "can_done d f xs s (can1_more i d p can_id data dlc offset isr s)"
proof -
  have inv1: "can_inv d f {p} xs s" using can_inv_mono [OF inv] by simp
  have ok: "rx_count (pkt s p) \<le> pkt_length (pkt s p)" "unat (pkt_length (pkt s p)) \<le> CSP_BUFFER_SIZE"
    using inv p v by (simp_all add: can_inv_def can_pkt_ok_def Let_def)
  show ?thesis
  proof (cases "uint (ucast (CFP_REMAIN can_id) :: u16) \<noteq> uint (remain (pkt s p)) - 1")
    case True
    have "can_done d f xs s (csp_can_pbuf_free d p True isr (can_errno CSP_DBG_CAN_ERR_FRAME_LOST s))"
      by (rule can_done_from [OF can_free_done]) (use inv1 p in auto)
    with True show ?thesis by (auto simp: can1_more_def intro!: can_done_map)
  next
    case go: False
    define s1 where "s1 = upd_pkt p (\<lambda>k. k\<lparr>remain := remain k - 1\<rparr>) s"
    have one: "can_inv d f {p} xs s1" "can_frame (set xs) s s1"
      unfolding s1_def using p by (intro can_inv_same [OF inv], simp_all)
    let ?n = "unat dlc - offset"
    show ?thesis
    proof (cases "uint (rx_count (pkt s1 p)) + uint dlc - int offset > uint (pkt_length (pkt s1 p))")
      case True
      have "can_done d f xs s (can_lost CSP_DBG_CAN_ERR_RX_OVF i d p isr s1)" by (rule can_done_from [OF can_lost_done]) (use one p in auto)
      with True go show ?thesis by (simp add: can1_more_def Let_def s1_def)
    next
      case room: False
      let ?g = "\<lambda>k. k\<lparr>pkt_mem := mem_write (pkt_mem k) (DATA_OFF + unat (rx_count (pkt s1 p))) (take ?n (drop offset data)), rx_count := rx_count k + of_nat ?n\<rparr>"
      define s2 where "s2 = upd_pkt p ?g s1"
      have le: "unat (rx_count (pkt s1 p)) + ?n \<le> unat (pkt_length (pkt s1 p))" using room n(2) unfolding uint_nat by arith
      have sm: "rx_count (pkt s1 p) = rx_count (pkt s p)" "pkt_length (pkt s1 p) = pkt_length (pkt s p)" by (simp_all add: s1_def)
      have fits: "DATA_OFF + unat (rx_count (pkt s1 p)) + length (take ?n (drop offset data)) \<le> DATA_END" using le ok sm n by simp
      have two: "can_inv d f {p} xs s2"
        using can_inv_upd [OF one(1), of ?g p] one(1) mem_write_bounded [OF _ fits] by (simp add: s2_def can_inv_def mem_bounded_def)
      have cnt: "unat (rx_count (pkt s2 p)) = unat (rx_count (pkt s1 p)) + ?n"
        using le ok sm by (simp add: s2_def) (subst unat_add_small, auto simp: unat_of_nat_small)
      then have "can_pkt_ok (core s2) p"
        using ok le sm v by (simp add: can_pkt_ok_def Let_def word_le_nat_alt) (simp add: s2_def s1_def upd_pkt_def on_core_def)
      then have stay: "can_done d f xs s (Some s2)"
        using two p one(2) by (intro can_doneI) (auto intro: can_inv_ok can_frame_trans simp: s2_def)
      have "can_done d f xs s (can_deliver 0x1F i d p isr s2)"
        using p by (intro can_done_from [OF can_deliver_done [OF two p]] can_frame_trans [OF one(2)]) (simp add: s2_def)
      moreover have "can1_more i d p can_id data dlc offset isr s = (if rx_count (pkt s2 p) \<noteq> pkt_length (pkt s2 p) then Some s2 else can_deliver 0x1F i d p isr s2)"
        using go room by (simp add: can1_more_def Let_def s1_def [symmetric] write_data_upd upd_pkt_comp s2_def)
      ultimately show ?thesis using stay by simp
    qed
  qed
qed

section \<open>Frames of any kind\<close>

lemma can_bind_done:
  assumes inv: "can_inv d f {} xs s" and ap: "apart (pbuf_expired (csp_ms (core s)) (core s)) xs"
  shows "(case can_bind msk first i d can_id isr s of
      None \<Rightarrow> \<exists>t. csp_can_pbuf_cleanup d isr s = Some t \<and> free_list (core t) = []
    | Some (None, s') \<Rightarrow> can_inv d f {} xs s' \<and> can_frame {} s s'
    | Some (Some p, s') \<Rightarrow> \<exists>ys. p \<in> set ys \<and> can_inv d f (if first then {p} else {}) ys s' \<and> can_frame (set xs \<union> set ys) s s'
        \<and> (\<forall>q\<in>set ys. q \<in> set xs \<or> buf_refs (core s) q = 0 \<and> last_used (pkt s' q) = csp_ms (core s)))"
proof -
  have l: "own drv_held (toks xs f) s" "can_list d s xs" "mem_bounded (core s)" using inv by (simp_all add: can_inv_def)
  let ?P = "\<lambda>p. cfpid (pkt s p) AND msk = can_id AND msk"
  have fnd: "csp_can_pbuf_find d can_id msk s = Some (case find ?P xs of None \<Rightarrow> (None, s)
      | Some p \<Rightarrow> (Some p, upd_pkt p (\<lambda>k. k\<lparr>last_used := csp_ms (core s)\<rparr>) s))"
    unfolding csp_can_pbuf_find_def by (rule pbuf_find_chain) (use l(2) in \<open>simp add: can_list_def\<close>)
  show ?thesis
  proof (cases "find ?P xs")
    case (Some p)
    then have p: "p \<in> set xs" by (auto simp: find_Some_iff)
    let ?s = "upd_pkt p (\<lambda>k. k\<lparr>last_used := csp_ms (core s)\<rparr>) s"
    have i: "can_inv d f {p} xs ?s" by (rule can_inv_same [OF inv]) simp_all
    have "can_pkt_ok (core s) p" using inv p by (simp add: can_inv_def)
    then have "can_pkt_ok (core ?s) p" by (simp add: can_pkt_ok_def Let_def upd_pkt_def on_core_def)
    with i have "can_inv d f {} xs ?s" by (rule can_inv_ok)
    with i p show ?thesis using Some by (auto simp: can_bind_def fnd intro!: exI [of _ xs])
  next
    case None
    show ?thesis
    proof (cases first)
      case False
      with None inv show ?thesis by (simp add: can_bind_def fnd)
    next
      case True
      let ?ys = "filter (\<lambda>p. \<not> pbuf_expired (csp_ms (core s)) (core s) p) xs"
      note new = pbuf_new_effect [OF l(1,2) ap, of isr can_id]
      show ?thesis
      proof (cases "csp_can_pbuf_new d can_id isr s")
        case None' [simp]: None
        then show ?thesis using new None True by (simp add: can_bind_def fnd)
      next
        case (Some r)
        then obtain p s' where r: "csp_can_pbuf_new d can_id isr s = Some (p, s')" by (cases r) simp
        with new have e: "own drv_held (toks (p # ?ys) f) s'" "can_list d s' (p # ?ys)" "p \<notin> set ?ys" "p \<in> set xs \<or> buf_refs (core s) p = 0"
            "\<forall>n. pkt_mem (pkt s' p) n = 0" "\<exists>c h. s' = upd_can d (\<lambda>k. k\<lparr>pbufs := h\<rparr>) (s\<lparr>core := c\<rparr>)" "csp_conf (core s') = csp_conf (core s)"
            "\<forall>q. q \<notin> set xs \<and> q \<noteq> p \<longrightarrow> pkt s' q = pkt s q" "\<forall>q. q \<noteq> p \<longrightarrow> (\<exists>n. pkt s' q = (pkt s q)\<lparr>pkt_next := n\<rparr>)"
            "last_used (pkt s' p) = csp_ms (core s)" "csp_ms (core s') = csp_ms (core s)"
          by simp_all
        have fresh: "refreshed s s'" by (rule refreshed_next [of p]) (use e(9-11) in auto)
        have same: "can_pkt_ok (core s') q = can_pkt_ok (core s) q" "pkt_mem (pkt s' q) = pkt_mem (pkt s q)" if ne: "q \<noteq> p" for q
        proof -
          obtain n where "pkt s' q = (pkt s q)\<lparr>pkt_next := n\<rparr>" using e(9) ne by blast
          with e(7) show "can_pkt_ok (core s') q = can_pkt_ok (core s) q" "pkt_mem (pkt s' q) = pkt_mem (pkt s q)"
            by (simp_all add: can_pkt_ok_def Let_def hdr_size_def csp_version_def)
        qed
        have "pkt_mem (pkt s' q) off = 0" if "DATA_END \<le> off" for q off
          using that e(5) l(3) same(2) [of q] by (cases "q = p") (simp_all add: mem_bounded_def)
        moreover have "can_pkt_ok (core s') q" if "q \<in> set (p # ?ys) - {p}" for q using that same(1) [of q] inv by (auto simp: can_inv_def)
        ultimately have "can_inv d f {p} (p # ?ys) s'" using e(1,2) by (simp add: can_inv_def mem_bounded_def)
        moreover have "can_frame (set xs \<union> set (p # ?ys)) s s'" using e(6-8) fresh by (auto simp: can_frame_def)
        moreover have "\<forall>q\<in>set (p # ?ys). q \<in> set xs \<or> buf_refs (core s) q = 0 \<and> last_used (pkt s' q) = csp_ms (core s)" using e(4,10) by simp
        ultimately show ?thesis using None True r by (auto simp: can_bind_def fnd intro!: exI [of _ "p # ?ys"])
      qed
    qed
  qed
qed

text \<open>The two receivers, after the frame is bound to a packet.\<close>

lemma can1_bound_done:
  assumes inv: "can_inv d f (if CFP_TYPE can_id = CFP_BEGIN then {p} else {}) xs s" and p: "p \<in> set xs"
    and v: "version (csp_conf (core s)) = 1" and n: "length data = unat dlc"
  shows "can_done d f xs s
    (if CFP_TYPE can_id = CFP_BEGIN
     then (case can1_begin i d p can_id data dlc isr s of
             None \<Rightarrow> None
           | Some (fall, s) \<Rightarrow> if fall then can1_more i d p can_id data dlc 6 isr s else Some s)
     else if CFP_TYPE can_id = CFP_MORE then can1_more i d p can_id data dlc 0 isr s
     else csp_can_pbuf_free d p True isr (can_errno CSP_DBG_CAN_ERR_UNKNOWN s))"
proof (cases "CFP_TYPE can_id = CFP_BEGIN")
  case True
  then obtain fall s' where b: "can1_begin i d p can_id data dlc isr s = Some (fall, s')"
      "if fall then can_inv d f {} xs s' \<and> can_frame (set xs) s s' \<and> 6 \<le> unat dlc else can_done d f xs s (Some s')"
    using can1_begin_done [OF _ p v n, of d f i can_id isr] inv by auto
  have "can_done d f xs s (can1_more i d p can_id data dlc 6 isr s')" if "fall"
    using that b(2) v n p by (intro can_done_from [OF can1_more_done]) (simp_all add: can_frame_def)
  with True b show ?thesis by simp
next
  case False
  with inv have inv': "can_inv d f {} xs s" by simp
  have "can_done d f xs s (csp_can_pbuf_free d p True isr (can_errno CSP_DBG_CAN_ERR_UNKNOWN s))"
    by (rule can_done_from [OF can_free_done]) (use can_inv_mono [OF inv', of "{p}"] p in auto)
  then show ?thesis using False can1_more_done [OF inv' p v n, of 0 i can_id isr] by simp
qed

lemma can2_bound_done:
  assumes inv: "can_inv d f (if first then {p} else {}) xs s" and p: "p \<in> set xs"
    and v: "version (csp_conf (core s)) \<noteq> 1" and n: "length data = unat dlc"
  shows "can_done d f xs s (map_option snd
    (if first
     then if dlc < 4 then map_option (Pair CSP_ERR_INVAL) (can_lost CSP_DBG_CAN_ERR_SHORT_BEGIN i d p isr s)
          else can2_store i d p can_id (drop 4 data) (dlc - 4) isr (can2_begin p can_id data s)
     else if ucast (rx_count (pkt s p)) \<noteq> drop_bit 2 can_id AND 0x7
          then map_option (\<lambda>s. (CSP_ERR_INVAL, upd_iface i (\<lambda>k. k\<lparr>if_frame := if_frame k + 1\<rparr>) s))
                 (csp_can_pbuf_free d p True isr (can_errno CSP_DBG_CAN_ERR_FRAME_LOST s))
          else can2_store i d p can_id data dlc isr (upd_pkt p (\<lambda>k. k\<lparr>rx_count := (rx_count k + 1) AND 0x7\<rparr>) s)))"
proof (cases first)
  case True
  with inv have inv': "can_inv d f {p} xs s" by simp
  show ?thesis
  proof (cases "dlc < 4")
    case short: True
    then show ?thesis using True can_lost_done [OF inv' p, of CSP_DBG_CAN_ERR_SHORT_BEGIN i isr] by (simp add: option.map_comp comp_def option.map_ident)
  next
    case False
    then have n4: "4 \<le> length data" "length (drop 4 data) = unat (dlc - 4)"
      using n by (simp_all add: word_less_nat_alt) (subst unat_diff_small, simp_all add: word_le_nat_alt)
    obtain g where g: "can2_begin p can_id data s = upd_pkt p g s" "\<And>k. pkt_next (g k) = pkt_next k" "\<And>k. frame_begin (g k) = (p, DATA_OFF - hdr_size (core s))"
        "\<And>k. frame_length (g k) = 6" "\<And>k. pkt_mem (g k) = mem_write (pkt_mem k) (DATA_OFF - hdr_size (core s)) (be_bytes 2 (ucast (drop_bit 13 can_id) :: u16) @ take 4 data)"
        "\<And>k. last_used (g k) = last_used k"
      using can2_begin_upd [OF n4(1), of p can_id s] by blast
    have bound: "DATA_OFF - hdr_size (core s) + length (be_bytes 2 (ucast (drop_bit 13 can_id) :: u16) @ take 4 data) \<le> DATA_END" by simp
    have "pkt_mem (g (pkt s p)) off = 0" if "DATA_END \<le> off" for off
      unfolding g(5) using mem_write_bounded [OF that bound] inv' that by (simp add: can_inv_def mem_bounded_def)
    then have "can_inv d f {p} xs (upd_pkt p g s)" using can_inv_upd [OF inv', of g p] g(2) by simp
    moreover have "can_pkt_ok (core (upd_pkt p g s)) p"
      using v g(3,4) by (simp add: can_pkt_ok_def Let_def upd_pkt_def on_core_def)
    ultimately have "can_inv d f {} xs (upd_pkt p g s)" by (rule can_inv_ok)
    from can2_store_done [OF this p _ n4(2)] v
    have "can_done d f xs (upd_pkt p g s) (map_option snd (can2_store i d p can_id (drop 4 data) (dlc - 4) isr (upd_pkt p g s)))"
      by (simp add: upd_pkt_def on_core_def)
    then show ?thesis using True False p by (auto simp: g(1,6) intro: can_done_from)
  qed
next
  case False
  with inv have inv': "can_inv d f {} xs s" by simp
  have lost: "can_done d f xs s (map_option (upd_iface i (\<lambda>k. k\<lparr>if_frame := if_frame k + 1\<rparr>))
      (csp_can_pbuf_free d p True isr (can_errno CSP_DBG_CAN_ERR_FRAME_LOST s)))"
    by (intro can_done_map can_done_from [OF can_free_done]) (use can_inv_mono [OF inv', of "{p}"] p in auto)
  let ?s = "upd_pkt p (\<lambda>k. k\<lparr>rx_count := (rx_count k + 1) AND 0x7\<rparr>) s"
  have "can_inv d f {p} xs ?s" by (rule can_inv_same [OF inv']) simp_all
  moreover have "can_pkt_ok (core ?s) p"
    using inv' p v by (simp add: can_inv_def can_pkt_ok_def Let_def) (simp add: upd_pkt_def on_core_def)
  ultimately have "can_inv d f {} xs ?s" by (rule can_inv_ok)
  from can2_store_done [OF this p _ n] v have "can_done d f xs ?s (map_option snd (can2_store i d p can_id data dlc isr ?s))"
    by (simp add: upd_pkt_def on_core_def)
  then have "can_done d f xs s (map_option snd (can2_store i d p can_id data dlc isr ?s))" by (rule can_done_from) (simp add: p)
  with lost False show ?thesis by (simp add: option.map_comp comp_def)
qed

text \<open>C28. The receiver of the CAN interface survives every frame, as long as no two neighbours in its list of
  packets in reception have timed out: for each identifier and each data
  field, in CSP 1.x and CSP 2.x, \<open>csp_can_rx\<close> keeps the accounting of the buffers, leaves
  a well-formed list, stores nothing behind the end of a buffer,
  and changes no packet in use that it is not receiving; it returns unless the pool is empty. No packet
  of the list grows old by it, so if at most one has timed out before the frame, which
  implies the condition (\<open>one_expired_apart\<close>), then at most one has after it; the condition can fail only when time passes. Where
  it fails the code does not keep the list: it leaves a dangling pointer in it.\<close>

theorem csp_can_rx_robust:
  assumes inv: "can_inv d f {} xs s" and ap: "apart (pbuf_expired (csp_ms (core s)) (core s)) xs"
    and d: "interface_data (iface s i) = Some d" and n: "length data = unat dlc"
  shows "(case csp_can_rx i can_id data dlc isr s of
      None \<Rightarrow> \<exists>t. csp_can_pbuf_cleanup d isr s = Some t \<and> free_list (core t) = []
    | Some (r, s') \<Rightarrow> \<exists>ys. can_inv d f {} ys s'
        \<and> (\<forall>q. 0 < buf_refs (core s) q \<and> q \<notin> set xs \<longrightarrow> pkt s' q = pkt s q \<and> q \<notin> set ys)
        \<and> csp_ms (core s') = csp_ms (core s)
        \<and> (\<forall>q\<in>set ys. pbuf_expired (csp_ms (core s')) (core s') q \<longrightarrow> q \<in> set xs \<and> pbuf_expired (csp_ms (core s)) (core s) q)
        \<and> (one_expired (core s) xs \<longrightarrow> one_expired (core s') ys))"
proof -
  define v where "v \<longleftrightarrow> version (csp_conf (core s)) = 1"
  define first where "first \<longleftrightarrow> (if v then CFP_TYPE can_id = CFP_BEGIN else can_id AND push_bit 1 1 \<noteq> 0)"
  define msk where "msk = (if v then CFP_ID_CONN_MASK else CFP2_ID_CONN_MASK)"
  note bind = can_bind_done [OF inv ap, where msk = msk and first = first and i = i and can_id = can_id and isr = isr]
  show ?thesis
  proof (cases "can_bind msk first i d can_id isr s")
    case None
    then have "csp_can_rx i can_id data dlc isr s = None"
      by (cases v) (simp_all add: csp_can_rx_def csp_can1_rx_def csp_can2_rx_def d Let_def v_def [symmetric] first_def msk_def)
    with bind None show ?thesis by simp
  next
    case (Some r)
    show ?thesis
    proof (cases "fst r")
      case none: None
      then obtain s1 where r: "r = (None, s1)" by (cases r) simp
      have "csp_can_rx i can_id data dlc isr s = Some (CSP_ERR_INVAL, s1)"
        using Some r by (cases v) (simp_all add: csp_can_rx_def csp_can1_rx_def csp_can2_rx_def d Let_def v_def [symmetric] first_def msk_def)
      moreover have "can_inv d f {} xs s1" "can_frame {} s s1" using bind Some r by simp_all
      ultimately show ?thesis
        using refreshed_list [of s s1 s1 xs xs] by (auto simp: can_frame_def intro!: exI [of _ xs])
    next
      case (Some p)
      then obtain s1 where r: "r = (Some p, s1)" by (cases r) simp
      with bind \<open>can_bind msk first i d can_id isr s = Some r\<close> obtain ys where ys: "p \<in> set ys" "can_inv d f (if first then {p} else {}) ys s1"
          "can_frame (set xs \<union> set ys) s s1" "\<forall>q\<in>set ys. q \<in> set xs \<or> buf_refs (core s) q = 0 \<and> last_used (pkt s1 q) = csp_ms (core s)"
        by auto
      have v1: "version (csp_conf (core s1)) = 1 \<longleftrightarrow> v" using ys(3) by (simp add: can_frame_def v_def)
      have "can_done d f ys s1 (map_option snd (csp_can_rx i can_id data dlc isr s))"
      proof (cases v)
        case True
        then show ?thesis
          using can1_bound_done [of d f can_id p ys s1 data dlc i isr] ys(1,2) v1 n r Some \<open>can_bind msk first i d can_id isr s = Some r\<close>
          by (simp add: csp_can_rx_def csp_can1_rx_def d Let_def v_def [symmetric] first_def msk_def option.map_comp comp_def option.map_ident)
      next
        case False
        then show ?thesis
          using can2_bound_done [of d f first p ys s1 data dlc i isr can_id] ys(1,2) v1 n r Some \<open>can_bind msk first i d can_id isr s = Some r\<close>
          by (simp add: csp_can_rx_def csp_can2_rx_def d Let_def v_def [symmetric] first_def msk_def)
      qed
      then obtain r' s' zs where s': "csp_can_rx i can_id data dlc isr s = Some (r', s')" "can_inv d f {} zs s'" "set zs \<subseteq> set ys" "can_frame (set ys) s1 s'"
        by (auto simp: can_done_def)
      have "pkt s' q = pkt s q \<and> q \<notin> set zs" if "0 < buf_refs (core s) q" "q \<notin> set xs" for q
        using that ys(3,4) s'(3,4) by (auto simp: can_frame_def)
      moreover have "\<forall>q\<in>set zs. q \<in> set xs \<or> last_used (pkt s1 q) = csp_ms (core s)" using s'(3) ys(4) by blast
      then have "csp_ms (core s') = csp_ms (core s)"
        "\<forall>q\<in>set zs. pbuf_expired (csp_ms (core s')) (core s') q \<longrightarrow> q \<in> set xs \<and> pbuf_expired (csp_ms (core s)) (core s) q"
        "one_expired (core s) xs \<longrightarrow> one_expired (core s') zs"
        using refreshed_list [of s s1 s' zs xs] ys(3) s'(4) by (simp_all add: can_frame_def)
      ultimately show ?thesis unfolding s'(1) option.case prod.case using s'(2) by blast
    qed
  qed
qed

text \<open>A first frame with two bytes of payload, on a node with no packet in reception.\<close>

theorem csp_can_rx_robust_witness:
  "case csp_can_rx 1 2 [1, 2, 3, 4, 5, 6] 6 False (example_wired ()) of
     None \<Rightarrow> \<exists>t. csp_can_pbuf_cleanup 0 False (example_wired ()) = Some t \<and> free_list (core t) = []
   | Some (r, s') \<Rightarrow> \<exists>ys. can_inv 0 (tok 0 (\<lambda>_. 0)) {} ys s' \<and> pkt s' 0 = fresh_packet 0 \<and> one_expired (core s') ys"
proof -
  let ?s = "example_wired ()"
  have refs: "0 < buf_refs (core ?s) 0" using example_wired_facts(1) [of "()"] by (simp add: own_def tok_def)
  have inv: "can_inv 0 (tok 0 (\<lambda>_. 0)) {} [] ?s"
    using example_wired_facts(1) [of "()"] example_bounded [of "()"] by (simp add: can_inv_def can_list_def example_wired_facts(8))
  have "one_expired (core ?s) []" by (simp add: one_expired_def)
  with csp_can_rx_robust [OF inv _ example_wired_facts(2), where data = "[1, 2, 3, 4, 5, 6]" and dlc = 6 and can_id = 2 and isr = False] refs
  show ?thesis by (auto simp: example_wired_facts(4) example_sender_pkt split: option.splits)
qed

end
