(* ===== verification/CSP_Can_Tx.thy ===== *)
theory CSP_Can_Tx
  imports CSP_Can_Rx
begin

text \<open>
  The transmit functions of the CAN interface send the fragments of a packet, one after the other,
  until the driver refuses one; from this follow their contract and what appears on the bus.
\<close>

section \<open>The fragments of a packet\<close>

function can1_rest :: "(nat \<Rightarrow> u32) \<Rightarrow> u8 list \<Rightarrow> (u32 \<times> u8 list) list" where
  "can1_rest g ys = (if ys = [] then [] else (g ((length (drop 8 ys) + 7) div 8), take 8 ys) # can1_rest g (drop 8 ys))"
  by pat_completeness auto
termination by (relation "measure (\<lambda>(g, ys). length ys)") auto

function can2_rest :: "u32 \<Rightarrow> nat \<Rightarrow> u8 list \<Rightarrow> (u32 \<times> u8 list) list" where
  "can2_rest b k ys = (if ys = [] then []
     else (b OR push_bit 2 (of_nat k AND 0x7) OR (if length ys \<le> 8 then 1 else 0), take 8 ys) # can2_rest b (k + 1) (drop 8 ys))"
  by pat_completeness auto
termination by (relation "measure (\<lambda>(b, k, ys). length ys)") auto

lemmas can_rest_simps [simp del] = can1_rest.simps can2_rest.simps
declare can1_tx_loop.simps [simp del] can2_tx_loop.simps [simp del]

definition can1_frames :: "u8 list \<Rightarrow> csp_id \<Rightarrow> u8 \<Rightarrow> u32 \<Rightarrow> u8 list \<Rightarrow> (u32 \<times> u8 list) list" where
  "can1_frames hdr x dest ident pay =
     (can1_id x dest ident CFP_BEGIN ((length pay + 5) div 8), hdr @ be_bytes 2 (of_nat (length pay) :: u16) @ take 2 pay)
     # can1_rest (can1_id x dest ident CFP_MORE) (drop 2 pay)"

definition can2_frames :: "csp_id \<Rightarrow> u16 \<Rightarrow> u32 \<Rightarrow> u8 list \<Rightarrow> (u32 \<times> u8 list) list" where
  "can2_frames x a sc pay =
     (can2_id x a sc OR 2 OR (if length pay \<le> 4 then 1 else 0), be_bytes 4 (can2_ext x) @ take 4 pay)
     # can2_rest (can2_id x a sc) 1 (drop 4 pay)"

fun can_send :: "'e can_fn \<Rightarrow> addr \<Rightarrow> (u32 \<times> u8 list) list \<Rightarrow> 'e node \<Rightarrow> int \<times> 'e node" where
  "can_send tf i [] s = (CSP_ERR_NONE, s)"
| "can_send tf i ((can_id, bs) # fs) s =
     (case can_tx_call tf i can_id bs s of (r, s') \<Rightarrow> if r \<noteq> CSP_ERR_NONE then can_tx_failed i s' else can_send tf i fs s')"

section \<open>The transmit functions send the fragments\<close>

lemma can1_loop_send:
  "can1_tx_loop tf i p ident dest n s = can_send tf i (can1_rest (can1_id (pkt_id (pkt s p)) dest ident CFP_MORE) (drop n (payload (core s) p))) s"
proof (induction tf i p ident dest n s rule: can1_tx_loop.induct)
  case (1 tf i p ident dest n s)
  let ?len = "unat (pkt_length (pkt s p))" and ?ys = "drop n (payload (core s) p)"
  have len: "length (payload (core s) p) = ?len" by (rule length_payload)
  show ?case
  proof (cases "n < ?len")
    case False
    then show ?thesis using len by (simp add: can1_tx_loop.simps can1_rest.simps)
  next
    case True
    define m where "m = (if ?len - n \<ge> CAN_FRAME_SIZE then CAN_FRAME_SIZE else ?len - n)"
    have m: "take m ?ys = take 8 ?ys" "drop (n + m) (payload (core s) p) = drop 8 ?ys" "?len - n - m = length (drop 8 ?ys)"
      using len by (auto simp: m_def add.commute)
    define can_id where "can_id = can1_id (pkt_id (pkt s p)) dest ident CFP_MORE ((length (drop 8 ?ys) + 7) div 8)"
    obtain r1 s1 where call: "can_tx_call tf i can_id (take 8 ?ys) s = (r1, s1)" by fastforce
    have call': "can_tx_call tf i (can1_id (pkt_id (pkt s p)) dest ident CFP_MORE ((?len - n - m + CAN_FRAME_SIZE - 1) div CAN_FRAME_SIZE)) (take m ?ys) s = (r1, s1)"
      using call m by (simp add: can_id_def add.commute)
    have loop: "can1_tx_loop tf i p ident dest n s = (if r1 \<noteq> 0 then can_tx_failed i s1 else can1_tx_loop tf i p ident dest (n + m) s1)"
      using True call' by (subst can1_tx_loop.simps) (simp add: Let_def m_def)
    have rest: "can1_rest (can1_id (pkt_id (pkt s p)) dest ident CFP_MORE) ?ys = (can_id, take 8 ?ys) # can1_rest (can1_id (pkt_id (pkt s p)) dest ident CFP_MORE) (drop 8 ?ys)"
      using True len by (subst can1_rest.simps) (simp add: can_id_def)
    have "can1_tx_loop tf i p ident dest (n + m) s1 = can_send tf i (can1_rest (can1_id (pkt_id (pkt s p)) dest ident CFP_MORE) (drop 8 ?ys)) s1" if "r1 = 0"
      using 1 [OF refl True m_def refl call' [symmetric]] that can_tx_call_frame(1) [OF call] m(2) by simp
    then show ?thesis unfolding loop rest by (simp add: call)
  qed
qed

lemma can2_loop_send:
  "can2_tx_loop tf i p sc k n s = can_send tf i (can2_rest (can2_id (pkt_id (pkt s p)) (if_addr (iface s i)) sc) k (drop n (payload (core s) p))) s"
proof (induction tf i p sc k n s rule: can2_tx_loop.induct)
  case (1 tf i p sc k n s)
  let ?len = "unat (pkt_length (pkt s p))" and ?ys = "drop n (payload (core s) p)"
  let ?b = "can2_id (pkt_id (pkt s p)) (if_addr (iface s i)) sc"
  have len: "length (payload (core s) p) = ?len" by (rule length_payload)
  show ?case
  proof (cases "n < ?len")
    case False
    then show ?thesis using len by (simp add: can2_tx_loop.simps can2_rest.simps)
  next
    case True
    define m where "m = (if ?len - n \<ge> CAN_FRAME_SIZE then CAN_FRAME_SIZE else ?len - n)"
    have m: "take m ?ys = take 8 ?ys" "drop (n + m) (payload (core s) p) = drop 8 ?ys" "n + m = ?len \<longleftrightarrow> length ?ys \<le> 8"
      using len True by (auto simp: m_def add.commute)
    define c1 where "c1 = ?b OR push_bit 2 (of_nat k AND 0x7)"
    define can_id where "can_id = (if n + m = ?len then c1 OR 1 else c1)"
    obtain r1 s1 where call: "can_tx_call tf i can_id (take m ?ys) s = (r1, s1)" by fastforce
    have loop: "can2_tx_loop tf i p sc k n s = (if r1 \<noteq> 0 then can_tx_failed i s1 else can2_tx_loop tf i p sc (k + 1) (n + m) s1)"
      using True by (subst can2_tx_loop.simps) (simp only: Let_def m_def [symmetric] c1_def [symmetric] can_id_def [symmetric] call if_True prod.case)
    have rest: "can2_rest ?b k ?ys = (can_id, take m ?ys) # can2_rest ?b (k + 1) (drop 8 ?ys)"
      using True len m by (subst can2_rest.simps) (simp add: can_id_def c1_def or.assoc)
    have "can2_tx_loop tf i p sc (k + 1) (n + m) s1 = can_send tf i (can2_rest ?b (k + 1) (drop 8 ?ys)) s1" if "r1 = 0"
      using 1 [OF refl True refl c1_def m_def can_id_def call [symmetric]] that can_tx_call_frame(1,2) [OF call] m(2) by simp
    then show ?thesis unfolding loop rest by (simp add: call)
  qed
qed

lemma csp_can2_tx_send:
  assumes "id_dst (pkt_id (pkt s p)) \<noteq> if_addr (iface s i)"
  defines "d \<equiv> the (interface_data (iface s i))"
  shows "csp_can2_tx tf i via p fm s =
    (case can_send tf i (can2_frames (pkt_id (pkt s p)) (if_addr (iface s i)) (cfp_packet_counter (can s d)) (payload (core s) p))
        (upd_can d (\<lambda>c. c\<lparr>cfp_packet_counter := cfp_packet_counter c + 1\<rparr>) s) of
       (r, s') \<Rightarrow> if r \<noteq> CSP_ERR_NONE then (r, s') else (CSP_ERR_NONE, free_pkt p s'))"
proof -
  let ?x = "pkt_id (pkt s p)" and ?a = "if_addr (iface s i)" and ?sc = "cfp_packet_counter (can s d)" and ?pay = "payload (core s) p"
  define s1 where "s1 = upd_can d (\<lambda>c. c\<lparr>cfp_packet_counter := cfp_packet_counter c + 1\<rparr>) s"
  have len: "unat (pkt_length (pkt s p)) = length ?pay" by (simp add: length_payload)
  define n where "n = (if length ?pay \<ge> 4 then 4 else length ?pay)"
  have n: "take n ?pay = take 4 ?pay" "drop n ?pay = drop 4 ?pay" "n = length ?pay \<longleftrightarrow> length ?pay \<le> 4" by (auto simp: n_def)
  have sc: "core s1 = core s" "iflist s1 = iflist s" by (simp_all add: s1_def)
  define can_id where "can_id = (if n = length ?pay then (can2_id ?x ?a ?sc OR push_bit 1 1) OR 1 else can2_id ?x ?a ?sc OR push_bit 1 1)"
  obtain r2 s2 where call: "can_tx_call tf i can_id (be_bytes 4 (can2_ext ?x) @ take n ?pay) s1 = (r2, s2)" by fastforce
  note fr = can_tx_call_frame [OF call]
  have "csp_can2_tx tf i via p fm s = (if r2 \<noteq> 0 then can_tx_failed i s2
      else case can2_tx_loop tf i p ?sc 1 n s2 of (r, s') \<Rightarrow> if r \<noteq> 0 then (r, s') else (0, free_pkt p s'))"
    unfolding csp_can2_tx_def Let_def d_def [symmetric] s1_def [symmetric] sc len n_def [symmetric] can_id_def [symmetric] call
    using assms(1) by simp
  moreover have "can2_frames ?x ?a ?sc ?pay = (can_id, be_bytes 4 (can2_ext ?x) @ take n ?pay) # can2_rest (can2_id ?x ?a ?sc) 1 (drop n ?pay)"
    using n by (simp add: can2_frames_def can_id_def or.assoc)
  ultimately show ?thesis
    using call fr by (simp add: s1_def [symmetric] can2_loop_send can_tx_failed_def) (simp add: s1_def)
qed

lemma csp_can1_tx_send:
  fixes via :: u16
  assumes "id_dst (pkt_id (pkt s p)) \<noteq> if_addr (iface s i)"
  defines "d \<equiv> the (interface_data (iface s i))" and "dest \<equiv> (if via \<noteq> CSP_NO_VIA_ADDRESS then ucast via else ucast (id_dst (pkt_id (pkt s p))) :: u8)"
  shows "csp_can1_tx tf i via p fm s =
    (case can_send tf i (can1_frames (take 4 (id_bytes (core s) (pkt_id (pkt s p)))) (pkt_id (pkt s p)) dest (cfp_packet_counter (can s d)) (payload (core s) p))
        (on_core (csp_id_prepend p) (upd_can d (\<lambda>c. c\<lparr>cfp_packet_counter := cfp_packet_counter c + 1\<rparr>) s)) of
       (r, s') \<Rightarrow> if r \<noteq> CSP_ERR_NONE then (r, s') else (CSP_ERR_NONE, free_pkt p s'))"
proof -
  let ?x = "pkt_id (pkt s p)" and ?ident = "cfp_packet_counter (can s d)" and ?pay = "payload (core s) p"
  define s0 where "s0 = upd_can d (\<lambda>c. c\<lparr>cfp_packet_counter := cfp_packet_counter c + 1\<rparr>) s"
  have sc: "core s0 = core s" "iflist s0 = iflist s" by (simp_all add: s0_def)
  define s1 where "s1 = on_core (csp_id_prepend p) s0"
  have len: "unat (pkt_length (pkt s p)) = length ?pay" by (simp add: length_payload)
  have s1: "pkt_length (pkt s1 p) = pkt_length (pkt s p)" "payload (core s1) p = ?pay" "pkt_id (pkt s1 p) = ?x" "iflist s1 = iflist s"
    using sc by (simp_all add: s1_def on_core_def)
  have hdr: "frame_bytes (core s1) p 4 = take 4 (id_bytes (core s) ?x)"
  proof -
    have "take 4 (frame_bytes (core s1) p (hdr_size (core s))) = frame_bytes (core s1) p 4"
      using hdr_size_cases [of "core s"] by (auto simp: frame_bytes_def split_beta)
    then show ?thesis using frame_bytes_prepend [of p "core s" 0] by (simp add: s1_def on_core_def sc data_bytes_def)
  qed
  define n where "n = (if length ?pay \<le> 2 then length ?pay else 2)"
  have n: "take n ?pay = take 2 ?pay" "drop n ?pay = drop 2 ?pay" by (auto simp: n_def)
  define can_id where "can_id = can1_id ?x dest ?ident CFP_BEGIN ((length ?pay + 6 - 1) div CAN_FRAME_SIZE)"
  let ?buf = "take 4 (id_bytes (core s) ?x) @ be_bytes 2 (pkt_length (pkt s p)) @ take n ?pay"
  obtain r2 s2 where call: "can_tx_call tf i can_id ?buf s1 = (r2, s2)" by fastforce
  note fr = can_tx_call_frame [OF call]
  have "csp_can1_tx tf i via p fm s = (if r2 \<noteq> 0 then can_tx_failed i s2
      else case can1_tx_loop tf i p ?ident dest n s2 of (r, s') \<Rightarrow> if r \<noteq> 0 then (r, s') else (0, free_pkt p s'))"
    unfolding csp_can1_tx_def Let_def d_def [symmetric] s0_def [symmetric] sc dest_def [symmetric] s1_def [symmetric] s1(1,2) hdr len
      n_def [symmetric] can_id_def [symmetric] call
    using assms(1) by simp
  moreover have "can1_frames (take 4 (id_bytes (core s) ?x)) ?x dest ?ident ?pay = (can_id, ?buf) # can1_rest (can1_id ?x dest ?ident CFP_MORE) (drop n ?pay)"
  proof -
    have "of_nat (length ?pay) = pkt_length (pkt s p)" by (simp add: length_payload)
    then show ?thesis using n by (simp add: can1_frames_def can_id_def add.commute)
  qed
  ultimately show ?thesis
    using call fr(1) s1 by (simp add: s0_def [symmetric] s1_def [symmetric] can1_loop_send can_tx_failed_def)
qed

section \<open>Contract\<close>

lemma can_send_contract:
  assumes "can_send tf i fs s = (r, s')"
  shows "core s' = core s \<and> tx_frame s s' \<and> (\<forall>f. own drv_held f s' = own drv_held f s)"
  using assms
proof (induction fs arbitrary: s)
  case (Cons x fs)
  obtain can_id bs where x: "x = (can_id, bs)" by fastforce
  obtain r1 s1 where call: "can_tx_call tf i can_id bs s = (r1, s1)" by fastforce
  note fr = can_tx_call_frame [OF call]
  show ?case
  proof (cases "r1 = 0")
    case True
    then show ?thesis using Cons.IH [of s1] Cons.prems call x fr by (auto intro: tx_frame_trans)
  next
    case False
    then have s': "s' = upd_iface i (\<lambda>k. k\<lparr>if_tx_error := if_tx_error k + 1\<rparr>) s1" using Cons.prems call x by (simp add: can_tx_failed_def)
    then have "tx_frame s s'" using tx_frame_trans [OF fr(5) tx_frame_counters(1)] by simp
    then show ?thesis using s' fr by simp
  qed
qed simp

lemma can_send_result: "can_send tf i fs s = (r, s') \<Longrightarrow> r = 0 \<or> r = CSP_ERR_DRIVER"
proof (induction fs arbitrary: s)
  case (Cons x fs)
  then show ?case by (cases x) (auto simp: can_tx_failed_def split: prod.splits if_splits)
qed simp

lemma can_free_contract:
  assumes own: "own drv_held (tok p f) s" and fr: "tx_frame s s1" "pkts_kept {p} s s1" "own drv_held (tok p f) s1"
    and run: "(case can_send tf i fs s1 of (r, s') \<Rightarrow> if r \<noteq> CSP_ERR_NONE then (r, s') else (CSP_ERR_NONE, free_pkt p s')) = (r, s')"
  shows "own drv_held (if r = 0 then f else tok p f) s'" "tx_frame s s'" "pkts_kept {p} s s'"
proof -
  obtain r2 s2 where send: "can_send tf i fs s1 = (r2, s2)" by fastforce
  note c = can_send_contract [OF send]
  have two: "tx_frame s s2" "pkts_kept {p} s s2" "own drv_held (tok p f) s2"
    using c fr tx_frame_trans by (auto simp: pkts_kept_def)
  have r: "r = r2" "s' = (if r2 = 0 then free_pkt p s2 else s2)" using run send by (auto split: if_splits)
  show "own drv_held (if r = 0 then f else tok p f) s'" using own_free [OF two(3)] two(3) r by simp
  show "tx_frame s s'" using two(1) tx_frame_trans [OF two(1) tx_frame_free] r by simp
  show "pkts_kept {p} s s'" using pkts_kept_trans [OF two(2) pkts_kept_free [OF two(3)]] two(2) r by simp
qed

lemma can_loopback_contract:
  assumes "own drv_held (tok p f) s"
  shows "own drv_held f (csp_qfifo_write (Some p) (Some i) False s)" "tx_frame s (csp_qfifo_write (Some p) (Some i) False s)"
    "pkts_kept {p} s (csp_qfifo_write (Some p) (Some i) False s)"
  using own_qfifo_write [of drv_held "Some p"] qfifo_write_frames assms by auto

interpretation can2_tx: nexthop_contract "\<lambda>_. csp_can2_tx tf" drv_held for tf
proof
  fix p :: addr and f s n i via fm and r :: int and s'
  assume own: "own drv_held (tok p f) s" and run: "csp_can2_tx tf i via p fm s = (r, s')"
  have "own drv_held (if r = 0 then f else tok p f) s' \<and> tx_frame s s' \<and> pkts_kept {p} s s'"
  proof (cases "id_dst (pkt_id (pkt s p)) = if_addr (iface s i)")
    case True
    then show ?thesis using run can_loopback_contract [OF own, of i] by (auto simp: csp_can2_tx_def)
  next
    case False
    let ?s1 = "upd_can (the (interface_data (iface s i))) (\<lambda>c. c\<lparr>cfp_packet_counter := cfp_packet_counter c + 1\<rparr>) s"
    have s1: "tx_frame s ?s1" "pkts_kept {p} s ?s1" "own drv_held (tok p f) ?s1" using own by (simp_all add: pkts_kept_def)
    show ?thesis using can_free_contract [OF own s1 run [unfolded csp_can2_tx_send [OF False]]] by blast
  qed
  then show "own drv_held (if r = 0 then f else tok p f) s'" "tx_frame s s'" "pkts_kept {p} s s'" by blast+
qed

interpretation can1_tx: nexthop_contract "\<lambda>_. csp_can1_tx tf" drv_held for tf
proof
  fix p :: addr and f s n i via fm and r :: int and s'
  assume own: "own drv_held (tok p f) s" and run: "csp_can1_tx tf i via p fm s = (r, s')"
  have "own drv_held (if r = 0 then f else tok p f) s' \<and> tx_frame s s' \<and> pkts_kept {p} s s'"
  proof (cases "id_dst (pkt_id (pkt s p)) = if_addr (iface s i)")
    case True
    then show ?thesis using run can_loopback_contract [OF own, of i] by (auto simp: csp_can1_tx_def)
  next
    case False
    define s0 where "s0 = upd_can (the (interface_data (iface s i))) (\<lambda>c. c\<lparr>cfp_packet_counter := cfp_packet_counter c + 1\<rparr>) s"
    have s0: "tx_frame s s0" "core s0 = core s" "own drv_held (tok p f) s0" using own by (simp_all add: s0_def)
    let ?s1 = "on_core (csp_id_prepend p) s0"
    have s1: "tx_frame s ?s1" "pkts_kept {p} s ?s1" "own drv_held (tok p f) ?s1"
      using s0 tx_frame_trans [OF s0(1) tx_frame_upds(7)] by (auto simp: pkts_kept_def on_core_def csp_id_prepend_other own_core_cong)
    show ?thesis using can_free_contract [OF own s1 run [unfolded csp_can1_tx_send [OF False], folded s0_def]] by blast
  qed
  then show "own drv_held (if r = 0 then f else tok p f) s'" "tx_frame s s'" "pkts_kept {p} s s'" by blast+
qed

section \<open>The bus\<close>

text \<open>A driver that takes every frame, and adds it to the bus, of which \<open>bus\<close> is the abstraction.\<close>

lemma can_send_bus:
  assumes tf: "\<And>n v can_id bs e. fst (tf n v can_id bs e) = 0 \<and> bus (snd (tf n v can_id bs e)) = bus e @ [(can_id, bs)]"
  shows "\<exists>s'. can_send tf i fs s = (0, s') \<and> bus (hw (drv s')) = bus (hw (drv s)) @ fs"
proof (induction fs arbitrary: s)
  case (Cons x fs)
  obtain can_id bs where x: "x = (can_id, bs)" by fastforce
  obtain s1 where call: "can_tx_call tf i can_id bs s = (0, s1)" "bus (hw (drv s1)) = bus (hw (drv s)) @ [x]"
    using tf by (fastforce simp: can_tx_call_def split_beta Let_def x)
  then show ?case using Cons.IH [of s1] by (auto simp: x)
qed simp

lemma hw_free [simp]: "hw (drv (free_pkt p s)) = hw (drv s)"
  by (simp add: free_pkt_def on_core_def)

lemma csp_can2_tx_bus:
  assumes tf: "\<And>n v can_id bs e. fst (tf n v can_id bs e) = 0 \<and> bus (snd (tf n v can_id bs e)) = bus e @ [(can_id, bs)]"
    and "id_dst (pkt_id (pkt s p)) \<noteq> if_addr (iface s i)" and run: "csp_can2_tx tf i via p fm s = (r, s')"
  shows "bus (hw (drv s')) = bus (hw (drv s)) @ can2_frames (pkt_id (pkt s p)) (if_addr (iface s i))
      (cfp_packet_counter (can s (the (interface_data (iface s i))))) (payload (core s) p)" "r = CSP_ERR_NONE"
proof -
  let ?d = "the (interface_data (iface s i))"
  let ?fs = "can2_frames (pkt_id (pkt s p)) (if_addr (iface s i)) (cfp_packet_counter (can s ?d)) (payload (core s) p)"
  obtain u where "can_send tf i ?fs (upd_can ?d (\<lambda>c. c\<lparr>cfp_packet_counter := cfp_packet_counter c + 1\<rparr>) s) = (0, u)" "bus (hw (drv u)) = bus (hw (drv s)) @ ?fs"
    using can_send_bus [of tf bus i ?fs "upd_can ?d (\<lambda>c. c\<lparr>cfp_packet_counter := cfp_packet_counter c + 1\<rparr>) s", OF tf] by auto
  then show "bus (hw (drv s')) = bus (hw (drv s)) @ ?fs" "r = CSP_ERR_NONE" using run csp_can2_tx_send [OF assms(2)] by auto
qed

lemma csp_can1_tx_bus:
  assumes tf: "\<And>n v can_id bs e. fst (tf n v can_id bs e) = 0 \<and> bus (snd (tf n v can_id bs e)) = bus e @ [(can_id, bs)]"
    and "id_dst (pkt_id (pkt s p)) \<noteq> if_addr (iface s i)" and run: "csp_can1_tx tf i via p fm s = (r, s')"
  shows "bus (hw (drv s')) = bus (hw (drv s)) @ can1_frames (take 4 (id_bytes (core s) (pkt_id (pkt s p)))) (pkt_id (pkt s p))
      (if via \<noteq> CSP_NO_VIA_ADDRESS then ucast via else ucast (id_dst (pkt_id (pkt s p))))
      (cfp_packet_counter (can s (the (interface_data (iface s i))))) (payload (core s) p)" (is "_ = _ @ ?fs")
    "r = CSP_ERR_NONE"
proof -
  let ?d = "the (interface_data (iface s i))"
  let ?s = "on_core (csp_id_prepend p) (upd_can ?d (\<lambda>c. c\<lparr>cfp_packet_counter := cfp_packet_counter c + 1\<rparr>) s)"
  have hw: "hw (drv ?s) = hw (drv s)" by (simp add: on_core_def)
  obtain u where "can_send tf i ?fs ?s = (0, u)" "bus (hw (drv u)) = bus (hw (drv s)) @ ?fs"
    using can_send_bus [of tf bus i ?fs ?s, OF tf] hw by auto
  then show "bus (hw (drv s')) = bus (hw (drv s)) @ ?fs" "r = CSP_ERR_NONE" using run csp_can1_tx_send [OF assms(2), where via = via] by auto
qed

end
