(* ===== verification/CSP_Can_Frag.thy ===== *)
theory CSP_Can_Frag
  imports CSP_Can_Tx
begin

text \<open>
  The fields of the CAN identifiers that the transmit functions build, as the receivers read them,
  and the CSP identifier that the first fragment carries.
\<close>

section \<open>Identifiers of the fragments\<close>

lemma and_7: "x AND 0x7 = take_bit 3 (x :: 'a::len word)" "x AND 0x1 = take_bit 1 (x :: 'a::len word)"
  by (simp_all add: take_bit_eq_mask mask_eq_exp_minus_1)

lemma can2_id_bits: "bit (can2_id x a sc) n \<longleftrightarrow> n < 32 \<and>
   (if n < 5 then False else if n < 7 then bit sc (n - 5) else if n < 13 then bit a (n - 7)
    else if n < 27 then bit (id_dst x) (n - 13) else if n < 29 then bit (id_pri x) (n - 27) else False)"
  unfolding can2_id_def and_masks by (auto simp: bit_simps dest: bit_imp_le_length)

lemma mask2_bits: "bit CFP2_ID_CONN_MASK n \<longleftrightarrow> 5 \<le> n \<and> n < 29"
proof -
  have m: "CFP2_ID_CONN_MASK = push_bit 5 (mask 24)" by (simp add: CFP2_ID_CONN_MASK_def mask_eq_exp_minus_1)
  show ?thesis unfolding m by (auto simp: bit_simps)
qed

lemma flag_bits: "(w :: u32) AND push_bit 1 1 \<noteq> 0 \<longleftrightarrow> bit w 1" "w AND 1 \<noteq> 0 \<longleftrightarrow> bit w 0"
  using bit_iff_and_push_bit_not_eq_0 [of w 1] bit_iff_and_push_bit_not_eq_0 [of w 0] by simp_all

lemma can2_first_id:
  assumes b_def: "b = can2_id x a sc" and e: "e = 0 \<or> e = 1"
  shows "(b OR 2 OR e) AND push_bit 1 1 \<noteq> 0" "(b OR 2 OR e) AND 1 \<noteq> 0 \<longleftrightarrow> e = 1" "(b OR 2 OR e) AND CFP2_ID_CONN_MASK = b"
    "drop_bit 13 (b OR 2 OR e) = drop_bit 13 b"
proof -
  have two: "bit (2 :: u32) n \<longleftrightarrow> n = 1" for n using bit_push_bit_iff [of 1 "1 :: u32" n] by (auto simp: bit_simps)
  have eb: "bit e n \<longleftrightarrow> e = 1 \<and> n = 0" for n using e by (auto simp: bit_simps)
  show "(b OR 2 OR e) AND push_bit 1 1 \<noteq> 0" "(b OR 2 OR e) AND 1 \<noteq> 0 \<longleftrightarrow> e = 1"
    unfolding flag_bits b_def by (simp_all add: bit_or_iff two eb can2_id_bits)
  show "(b OR 2 OR e) AND CFP2_ID_CONN_MASK = b" "drop_bit 13 (b OR 2 OR e) = drop_bit 13 b"
    by (rule bit_word_eqI; simp only: b_def bit_or_iff bit_and_iff bit_drop_bit_eq o_apply two eb can2_id_bits mask2_bits; auto)+
qed

lemma can2_next_id:
  assumes b_def: "b = can2_id x a sc" and e: "e = 0 \<or> e = 1"
  shows "(b OR push_bit 2 (of_nat k AND 0x7) OR e) AND push_bit 1 1 = 0" "(b OR push_bit 2 (of_nat k AND 0x7) OR e) AND 1 \<noteq> 0 \<longleftrightarrow> e = 1"
    "drop_bit 2 (b OR push_bit 2 (of_nat k AND 0x7) OR e) AND 0x7 = of_nat k AND 0x7"
    "(b OR push_bit 2 (of_nat k AND 0x7) OR e) AND CFP2_ID_CONN_MASK = b"
proof -
  let ?w = "b OR push_bit 2 (of_nat k AND 0x7) OR e"
  have eb: "bit e n \<longleftrightarrow> e = 1 \<and> n = 0" for n using e by (auto simp: bit_simps)
  have w: "bit ?w n \<longleftrightarrow> (if n = 0 then e = 1 else if n = 1 then False else if n < 5 then bit (of_nat k :: u32) (n - 2) else bit b n)" for n
    unfolding and_7 by (auto simp: b_def bit_or_iff bit_push_bit_iff bit_take_bit_iff eb can2_id_bits)
  have "\<not> (?w AND push_bit 1 1 \<noteq> 0)" unfolding flag_bits w by simp
  then show "?w AND push_bit 1 1 = 0" by simp
  show "?w AND 1 \<noteq> 0 \<longleftrightarrow> e = 1" unfolding flag_bits w by simp
  show "drop_bit 2 ?w AND 0x7 = of_nat k AND 0x7"
    unfolding and_7 by (rule bit_word_eqI) (simp only: bit_take_bit_iff bit_drop_bit_eq o_apply w [unfolded and_7], auto)
  show "?w AND CFP2_ID_CONN_MASK = b"
  proof (rule bit_word_eqI)
    show "bit (?w AND CFP2_ID_CONN_MASK) n \<longleftrightarrow> bit b n" for n
      unfolding bit_and_iff w mask2_bits by (auto simp: b_def can2_id_bits split: if_splits)
  qed
qed

text \<open>The identifier of a CSP 2.x packet, spread over the first frame.\<close>

lemma be_bytes_split: "be_bytes (m + n) w = be_bytes m (drop_bit (8 * n) w) @ be_bytes n w"
proof (induction n arbitrary: w)
  case (Suc n)
  then show ?case by (simp add: add.commute)
qed simp

lemma be_bytes_cong: "(\<And>k. k < 8 * n \<Longrightarrow> bit v k \<longleftrightarrow> bit w k) \<Longrightarrow> be_bytes n (v :: 'a::len word) = be_bytes n (w :: 'b::len word)"
proof (induction n arbitrary: v w)
  case (Suc n)
  have "(ucast v :: u8) = ucast w" by (rule bit_word_eqI) (use Suc.prems in \<open>auto simp: bit_simps\<close>)
  moreover have "be_bytes n (drop_bit 8 v) = be_bytes n (drop_bit 8 w)"
    by (rule Suc.IH) (use Suc.prems in \<open>simp add: bit_drop_bit_eq\<close>)
  ultimately show ?case by simp
qed simp

lemma small_bit: "(w :: 'a::len word) < 2 ^ n \<Longrightarrow> n < LENGTH('a) \<Longrightarrow> bit w k \<Longrightarrow> k < n"
  by (metis bit_take_bit_iff less_mask_eq mask_eq_exp_minus_1 take_bit_eq_mask take_bit_word_eq_self)

lemma id2_bytes_can:
  assumes fits: "id2_fits x"
  shows "id2_bytes x = be_bytes 2 (ucast (drop_bit 13 (can2_id x a sc)) :: u16) @ be_bytes 4 (can2_ext x)"
proof -
  have small: "bit (id_pri x) k \<Longrightarrow> k < 2" "bit (id_dst x) k \<Longrightarrow> k < 14" "bit (id_src x) k \<Longrightarrow> k < 14" "bit (id_dport x) k \<Longrightarrow> k < 6"
      "bit (id_sport x) k \<Longrightarrow> k < 6" "bit (id_flags x) k \<Longrightarrow> k < 6" for k
    using fits small_bit [of "id_pri x" 2 k] small_bit [of "id_dst x" 14 k] small_bit [of "id_src x" 14 k] small_bit [of "id_dport x" 6 k]
      small_bit [of "id_sport x" 6 k] small_bit [of "id_flags x" 6 k] by (simp_all add: id2_fits_def)
  let ?raw = "take_bit 48 (id2_raw x)"
  have raw: "bit ?raw k \<longleftrightarrow> k < 48 \<and> (if k < 6 then bit (id_flags x) k else if k < 12 then bit (id_sport x) (k - 6) else if k < 18 then bit (id_dport x) (k - 12)
      else if k < 32 then bit (id_src x) (k - 18) else if k < 46 then bit (id_dst x) (k - 32) else bit (id_pri x) (k - 46))" for k
    unfolding id2_raw_def by (auto simp: bit_simps dest: small)
  have ext: "bit (can2_ext x) k \<longleftrightarrow> k < 32 \<and> (if k < 6 then bit (id_flags x) k else if k < 12 then bit (id_sport x) (k - 6) else if k < 18 then bit (id_dport x) (k - 12)
      else bit (id_src x) (k - 18))" for k
    unfolding can2_ext_def and_masks by (auto simp: bit_simps dest: small)
  have "id2_bytes x = be_bytes 2 (drop_bit 32 ?raw) @ be_bytes 4 ?raw" using be_bytes_split [of 2 4 ?raw] by (simp add: id2_bytes_eq)
  moreover have "be_bytes 2 (drop_bit 32 ?raw) = be_bytes 2 (ucast (drop_bit 13 (can2_id x a sc)) :: u16)"
  proof (rule be_bytes_cong)
    fix k :: nat assume k: "k < 8 * 2"
    have "bit (drop_bit 32 ?raw) k \<longleftrightarrow> bit ?raw (32 + k)" by (simp only: bit_drop_bit_eq comp_apply)
    moreover have "bit (ucast (drop_bit 13 (can2_id x a sc)) :: u16) k \<longleftrightarrow> bit (can2_id x a sc) (13 + k)" using k by (simp add: bit_simps)
    ultimately show "bit (drop_bit 32 ?raw) k \<longleftrightarrow> bit (ucast (drop_bit 13 (can2_id x a sc)) :: u16) k"
      unfolding raw can2_id_bits using k by auto
  qed
  moreover have "be_bytes 4 ?raw = be_bytes 4 (can2_ext x)" by (rule be_bytes_cong) (simp only: raw ext, auto)
  ultimately show ?thesis by simp
qed

section \<open>CSP 1.x identifiers\<close>

lemma can1_id_bits: "bit (can1_id x dest ident typ r) n \<longleftrightarrow> n < 32 \<and>
   (if n < 10 then bit ident n else if n < 18 then bit (of_nat r :: u32) (n - 10) else if n = 18 then bit typ 0
    else if n < 24 then bit dest (n - 19) else if n < 29 then bit (id_src x) (n - 24) else False)"
proof -
  have m: "push_bit 5 1 - 1 = (mask 5 :: u32)" "push_bit 10 1 - 1 = (mask 10 :: u32)" "push_bit 1 1 - 1 = (mask 1 :: u32)" "push_bit 8 1 - 1 = (mask 8 :: u32)"
    by (simp_all add: mask_eq_exp_minus_1)
  show ?thesis
    unfolding can1_id_def CFP_MAKE_SRC_def CFP_MAKE_DST_def CFP_MAKE_ID_def CFP_MAKE_TYPE_def CFP_MAKE_REMAIN_def CFP_MAKE_FIELD_def m
    by (simp only: bit_or_iff bit_push_bit_iff bit_and_iff bit_mask_iff bit_ucast_iff possible_bit_word) auto
qed

lemma mask1_bits: "bit CFP_ID_CONN_MASK n \<longleftrightarrow> n < 10 \<or> 19 \<le> n \<and> n < 29"
proof -
  have m: "CFP_ID_CONN_MASK = mask 10 OR push_bit 19 (mask 10)"
    by (simp add: CFP_ID_CONN_MASK_def CFP_MAKE_SRC_def CFP_MAKE_DST_def CFP_MAKE_ID_def CFP_MAKE_FIELD_def mask_eq_exp_minus_1)
  show ?thesis unfolding m by (auto simp: bit_simps)
qed

lemma can1_frag_id:
  assumes "r < 256"
  shows "CFP_TYPE (can1_id x dest ident CFP_BEGIN r) = CFP_BEGIN" "CFP_TYPE (can1_id x dest ident CFP_MORE r) = CFP_MORE"
    "CFP_REMAIN (can1_id x dest ident typ r) = of_nat r"
    "can1_id x dest ident typ r AND CFP_ID_CONN_MASK = can1_id x dest ident CFP_BEGIN 0"
proof -
  have m: "push_bit 1 1 - 1 = (mask 1 :: u32)" "push_bit 8 1 - 1 = (mask 8 :: u32)" by (simp_all add: mask_eq_exp_minus_1)
  have ty: "bit (CFP_TYPE (can1_id x dest ident ty r)) n \<longleftrightarrow> n = 0 \<and> bit ty 0" for n ty
    unfolding CFP_TYPE_def CFP_FIELD_def m by (simp only: bit_and_iff bit_mask_iff bit_drop_bit_eq o_apply can1_id_bits possible_bit_word) auto
  show "CFP_TYPE (can1_id x dest ident CFP_BEGIN r) = CFP_BEGIN" "CFP_TYPE (can1_id x dest ident CFP_MORE r) = CFP_MORE"
    by (rule bit_word_eqI; simp only: ty; simp add: bit_1_iff)+
  have rb: "bit (of_nat r :: u32) k \<Longrightarrow> k < 8" for k
    using small_bit [of "of_nat r :: u32" 8 k] assms by (simp add: word_less_nat_alt unat_of_nat_small)
  show "CFP_REMAIN (can1_id x dest ident typ r) = of_nat r"
    unfolding CFP_REMAIN_def CFP_FIELD_def m
    by (rule bit_word_eqI) (simp only: bit_and_iff bit_mask_iff bit_drop_bit_eq o_apply can1_id_bits possible_bit_word, auto dest: rb)
  show "can1_id x dest ident typ r AND CFP_ID_CONN_MASK = can1_id x dest ident CFP_BEGIN 0"
    by (rule bit_word_eqI) (simp only: bit_and_iff mask1_bits can1_id_bits, auto)
qed

end
