(* ===== verification/CSP_Can_Link.thy ===== *)
theory CSP_Can_Link
  imports CSP_Can_Frag
begin

text \<open>
  A CAN bus between two nodes: what the receivers make of the fragments that the transmit functions
  put on the bus.
\<close>

section \<open>Receiving the fragments\<close>

fun can_rx_frames :: "addr \<Rightarrow> bool \<Rightarrow> (u32 \<times> u8 list) list \<Rightarrow> 'e node \<Rightarrow> 'e node option" where
  "can_rx_frames i isr [] s = Some s"
| "can_rx_frames i isr ((can_id, data) # fs) s =
     (case csp_can_rx i can_id data (of_nat (length data)) isr s of None \<Rightarrow> None | Some (r, s) \<Rightarrow> can_rx_frames i isr fs s)"

text \<open>A receiver of \<open>t\<close> whose newest packet \<open>q\<close> is bound to the identifier \<open>b\<close>.\<close>

definition can_bound :: "u32 \<Rightarrow> addr \<Rightarrow> addr \<Rightarrow> (addr \<Rightarrow> nat) \<Rightarrow> u32 \<Rightarrow> addr \<Rightarrow> addr list \<Rightarrow> 'e node \<Rightarrow> 'e node \<Rightarrow> bool" where
  "can_bound msk i d f b q ys t s \<longleftrightarrow> own drv_held (toks (q # ys) f) s \<and> can_list d s (q # ys) \<and> csp_conf (core s) = csp_conf (core t)
     \<and> interface_data (iface t i) = Some d \<and> iflist s = iflist t \<and> qfifo_queue s = qfifo_queue t \<and> cfpid (pkt s q) AND msk = b"

lemma can_bound_upd:
  assumes "can_bound msk i d f b q ys t s" "pkt_next (g (pkt s q)) = pkt_next (pkt s q)" "cfpid (g (pkt s q)) = cfpid (pkt s q)"
  shows "can_bound msk i d f b q ys t (upd_pkt q g s)"
proof -
  have "pchain (core (upd_pkt q g s)) (pbufs (can s d)) (q # ys) = pchain (core s) (pbufs (can s d)) (q # ys)"
    by (rule pchain_cong) (use assms(2) in simp)
  moreover have "csp_conf (core (upd_pkt q g s)) = csp_conf (core s)" "qfifo_queue (upd_pkt q g s) = qfifo_queue s" by (simp_all add: upd_pkt_def on_core_def)
  ultimately show ?thesis
    using assms(1,3) by (simp add: can_bound_def can_list_def)
qed

text \<open>A frame with the same identifier goes to that packet.\<close>

lemma can_bound_bind:
  assumes m: "can_bound msk i d f b q ys t s" and can_id: "can_id AND msk = b"
  shows "\<exists>s'. can_bind msk first i d can_id isr s = Some (Some q, s') \<and> s' = upd_pkt q (\<lambda>k. k\<lparr>last_used := csp_ms (core s)\<rparr>) s
    \<and> can_bound msk i d f b q ys t s'"
proof -
  have l: "pchain (core s) (pbufs (can s d)) (q # ys)" "cfpid (pkt s q) AND msk = can_id AND msk" using m can_id by (simp_all add: can_bound_def can_list_def)
  have "csp_can_pbuf_find d can_id msk s = Some (Some q, upd_pkt q (\<lambda>k. k\<lparr>last_used := csp_ms (core s)\<rparr>) s)"
    unfolding csp_can_pbuf_find_def using pbuf_find_chain [OF l(1), where P = "\<lambda>k. cfpid k AND msk = can_id AND msk"] l(2) by simp
  then show ?thesis using can_bound_upd [OF m, of "\<lambda>k. k\<lparr>last_used := csp_ms (core s)\<rparr>"] by (simp add: can_bind_def)
qed

text \<open>Delivery of the complete packet.\<close>

lemma can_bound_deliver:
  assumes m: "can_bound msk i d f b q ys t s" and x: "pkt_id (pkt s q) = x" "payload (core s) q = pay"
    and room: "length (queue_list (qfifo_queue t)) < q_size (qfifo_queue t)"
  shows "\<exists>s'. can_deliver bc i d q isr s = Some s' \<and> own drv_held (toks ys f) s' \<and> can_list d s' ys
    \<and> queue_list (qfifo_queue s') = queue_list (qfifo_queue t) @ [\<lparr>qf_iface = Some i, qf_packet = Some q\<rparr>]
    \<and> pkt_id (pkt s' q) = (if id_dst x = bc then x\<lparr>id_dst := if_addr (iface t i)\<rparr> else x) \<and> payload (core s') q = pay"
proof -
  define s1 where "s1 = (if id_dst (pkt_id (pkt s q)) = bc then upd_pkt q (\<lambda>k. k\<lparr>pkt_id := (pkt_id k)\<lparr>id_dst := if_addr (iface s i)\<rparr>\<rparr>) s else s)"
  have one: "can_bound msk i d f b q ys t s1"
    using m can_bound_upd [OF m, of "\<lambda>k. k\<lparr>pkt_id := (pkt_id k)\<lparr>id_dst := if_addr (iface s i)\<rparr>\<rparr>"] by (simp add: s1_def)
  have x1: "pkt_id (pkt s1 q) = (if id_dst x = bc then x\<lparr>id_dst := if_addr (iface t i)\<rparr> else x)" "payload (core s1) q = pay"
    using x m by (auto simp: s1_def can_bound_def payload_def data_bytes_def)
  have l: "own drv_held (toks (q # ys) f) s1" "can_list d s1 (q # ys)" using one by (simp_all add: can_bound_def)
  obtain s2 where s2: "csp_can_pbuf_free d q False isr s1 = Some s2" "own drv_held (tok q (toks ys f)) s2" "can_list d s2 ys"
      "can_kept d (set (q # ys)) s1 s2" "pkt s2 q = pkt s1 q"
    using pbuf_free_effect [OF l, of q False isr] by auto
  have q2: "qfifo_queue s2 = qfifo_queue t" using s2(4) one by (auto simp: can_kept_def can_bound_def upd_can_def)
  have "queue_ok (qfifo_queue s2)" using s2(2) by (simp add: own_def queues_ok_def)
  with room q2 obtain q' where q': "csp_qfifo_write (Some q) (Some i) isr s2 = s2\<lparr>qfifo_queue := q'\<rparr>"
      "queue_list q' = queue_list (qfifo_queue t) @ [\<lparr>qf_iface = Some i, qf_packet = Some q\<rparr>]"
    using qfifo_write_room [of s2 q i isr] by auto
  let ?s3 = "s2\<lparr>qfifo_queue := q'\<rparr>"
  have "own drv_held (toks ys f) ?s3" using own_qfifo_write [of drv_held "Some q" "toks ys f" s2 "Some i" isr] s2(2) q'(1) by simp
  moreover have "can_list d ?s3 ys" using s2(3) by (simp add: can_list_def)
  moreover have "can_deliver bc i d q isr s = Some ?s3" by (simp add: can_deliver_def Let_def s1_def [symmetric] s2(1) q'(1))
  moreover have "payload (core ?s3) q = pay" using x1(2) s2(5) by (simp add: payload_def data_bytes_def)
  ultimately show ?thesis using q'(2) x1(1) s2(5) by auto
qed

text \<open>The first frame of a packet, at a receiver that has a buffer left and no packet with its identifier.\<close>

definition can_idle :: "u32 \<Rightarrow> addr \<Rightarrow> addr \<Rightarrow> (addr \<Rightarrow> nat) \<Rightarrow> u32 \<Rightarrow> addr list \<Rightarrow> 'e node \<Rightarrow> bool" where
  "can_idle msk i d f b xs t \<longleftrightarrow> own drv_held (toks xs f) t \<and> can_list d t xs \<and> apart (pbuf_expired (csp_ms (core t)) (core t)) xs
     \<and> interface_data (iface t i) = Some d \<and> free_list (core t) \<noteq> [] \<and> (\<forall>p\<in>set xs. cfpid (pkt t p) AND msk \<noteq> b)
     \<and> length (queue_list (qfifo_queue t)) < q_size (qfifo_queue t)"

abbreviation can_alive :: "'e node \<Rightarrow> addr list \<Rightarrow> addr list" where
  "can_alive t xs \<equiv> filter (\<lambda>p. \<not> pbuf_expired (csp_ms (core t)) (core t) p) xs"

lemma free_list_refs:
  assumes "buf_inv c"
  shows "free_list c \<noteq> [] \<longleftrightarrow> (\<exists>p<CSP_BUFFER_COUNT. buf_refs c p = 0)"
proof
  assume "free_list c \<noteq> []"
  then have "hd (free_list c) \<in> set (free_list c)" by simp
  moreover then have "hd (free_list c) < CSP_BUFFER_COUNT" using assms by (auto simp: buf_inv_def)
  ultimately show "\<exists>p<CSP_BUFFER_COUNT. buf_refs c p = 0" by (auto simp: buf_refs_def)
next
  assume "\<exists>p<CSP_BUFFER_COUNT. buf_refs c p = 0"
  then show "free_list c \<noteq> []" using assms by (auto simp: buf_inv_def buf_refs_def unat_eq_0 split: if_splits)
qed

lemma can_cleanup_free:
  assumes own: "own drv_held (toks xs f) t" "can_list d t xs" "apart (pbuf_expired (csp_ms (core t)) (core t)) xs" and fr: "free_list (core t) \<noteq> []"
    and s: "csp_can_pbuf_cleanup d isr t = Some s"
  shows "free_list (core s) \<noteq> []"
proof -
  have e: "own drv_held (toks (can_alive t xs) f) s" "can_kept d (set xs) t s" using pbuf_cleanup_effect [OF own, of isr] s by auto
  have held: "held drv_held s = held drv_held t" using e(2) by (auto simp: can_kept_def held_def upd_can_def drv_held_def fun_eq_iff)
  have "buf_inv (core t)" using own(1) by (simp add: own_def)
  with fr obtain p where p: "p < CSP_BUFFER_COUNT" "buf_refs (core t) p = 0" using free_list_refs by blast
  then have "held drv_held t p = 0" "f p = 0" "count_list xs p = 0" using own(1) by (auto simp: own_def toks_def)
  then have "buf_refs (core s) p = 0" using e(1) held by (auto simp: own_def toks_def count_list_0_iff)
  moreover have "buf_inv (core s)" using e(1) by (simp add: own_def)
  ultimately show ?thesis using p(1) free_list_refs by blast
qed

lemma can_idle_bind:
  assumes idle: "can_idle msk i d f b xs t" and can_id: "can_id AND msk = b"
  shows "\<exists>q s. can_bind msk True i d can_id isr t = Some (Some q, s) \<and> can_bound msk i d f b q (can_alive t xs) t s"
proof -
  have l: "own drv_held (toks xs f) t" "can_list d t xs" "apart (pbuf_expired (csp_ms (core t)) (core t)) xs" "free_list (core t) \<noteq> []"
    using idle by (simp_all add: can_idle_def)
  have "find (\<lambda>p. cfpid (pkt t p) AND msk = can_id AND msk) xs = None" using idle can_id by (auto simp: can_idle_def find_None_iff)
  then have fnd: "csp_can_pbuf_find d can_id msk t = Some (None, t)"
    unfolding csp_can_pbuf_find_def using pbuf_find_chain [of t "pbufs (can t d)" xs, where P = "\<lambda>k. cfpid k AND msk = can_id AND msk"] l(2) by (simp add: can_list_def)
  note new = pbuf_new_effect [OF l(1-3), of isr can_id]
  have "csp_can_pbuf_new d can_id isr t \<noteq> None"
    using new can_cleanup_free [OF l, of isr] by (auto split: option.splits)
  then obtain q s where r: "csp_can_pbuf_new d can_id isr t = Some (q, s)" by fastforce
  with new have e: "own drv_held (toks (q # can_alive t xs) f) s" "can_list d s (q # can_alive t xs)" "cfpid (pkt s q) = can_id"
      "\<exists>c h. s = upd_can d (\<lambda>k. k\<lparr>pbufs := h\<rparr>) (t\<lparr>core := c\<rparr>)" "csp_conf (core s) = csp_conf (core t)"
    by simp_all
  have "iflist s = iflist t" "qfifo_queue s = qfifo_queue t" using e(4) by auto
  with e r idle can_id show ?thesis by (auto simp: can_bind_def fnd can_bound_def can_idle_def)
qed

section \<open>CSP 2.x\<close>

text \<open>The bytes of the frame received so far.\<close>

definition can2_part :: "addr \<Rightarrow> u8 list \<Rightarrow> 'e node \<Rightarrow> bool" where
  "can2_part q got s \<longleftrightarrow> frame_begin (pkt s q) = (q, 2) \<and> frame_length (pkt s q) = of_nat (length got)
     \<and> mem_read (pkt_mem (pkt s q)) 2 (length got) = got"

lemma can2_store_part:
  assumes m: "can_bound CFP2_ID_CONN_MASK i d f b q ys t s" and part: "can2_part q got s"
    and n: "length data = unat dlc" "length got + length data \<le> 262"
  shows "\<exists>s1. can2_store i d q can_id data dlc isr s = map_option (Pair CSP_ERR_NONE)
      (if can_id AND 1 \<noteq> 0 then can_deliver 0x3FFF i d q isr (snd (in_core (csp_id_strip q) s1)) else Some s1)
    \<and> can_bound CFP2_ID_CONN_MASK i d f b q ys t s1 \<and> can2_part q (got @ data) s1 \<and> rx_count (pkt s1 q) = rx_count (pkt s q)"
proof -
  have p: "frame_begin (pkt s q) = (q, 2)" "frame_length (pkt s q) = of_nat (length got)" "mem_read (pkt_mem (pkt s q)) 2 (length got) = got"
    using part by (simp_all add: can2_part_def)
  have u: "unat (frame_length (pkt s q)) = length got" unfolding p(2) by (rule unat_of_nat_small) (use n in simp)
  let ?g = "\<lambda>k. k\<lparr>pkt_mem := mem_write (pkt_mem k) (2 + length got) data, frame_length := frame_length k + ucast dlc\<rparr>"
  have st: "upd_pkt q (\<lambda>k. k\<lparr>frame_length := frame_length k + ucast dlc\<rparr>) (on_core (write_frame q (length got) data) s) = upd_pkt q ?g s"
    using n by (simp add: write_frame_upd [OF p(1)] upd_pkt_comp)
  have dl: "(ucast dlc :: u16) = of_nat (length data)"
    using n by simp
  have "mem_read (mem_write m (2 + length got) data) 2 (length got + length data) = mem_read m 2 (length got) @ data" for m
    by (simp add: mem_read_append mem_write_disjoint mem_write_same)
  then have "can2_part q (got @ data) (upd_pkt q ?g s)" using p dl by (simp add: can2_part_def add.commute)
  moreover have "can_bound CFP2_ID_CONN_MASK i d f b q ys t (upd_pkt q ?g s)" by (rule can_bound_upd [OF m]) simp_all
  moreover have "can2_store i d q can_id data dlc isr s = map_option (Pair CSP_ERR_NONE)
      (if can_id AND 1 \<noteq> 0 then can_deliver 0x3FFF i d q isr (snd (in_core (csp_id_strip q) (upd_pkt q ?g s))) else Some (upd_pkt q ?g s))"
    using n u by (simp add: can2_store_def p(1) st Let_def)
  ultimately show ?thesis by (intro exI [of _ "upd_pkt q ?g s"]) simp
qed

text \<open>The last frame: the packet is delivered.\<close>

definition can_delivered :: "addr \<Rightarrow> addr \<Rightarrow> (addr \<Rightarrow> nat) \<Rightarrow> addr list \<Rightarrow> csp_id \<Rightarrow> u8 list \<Rightarrow> 'e node \<Rightarrow> 'e node \<Rightarrow> bool" where
  "can_delivered i d f ys x pay t s' \<longleftrightarrow> own drv_held (toks ys f) s' \<and> can_list d s' ys
     \<and> (\<exists>q. queue_list (qfifo_queue s') = queue_list (qfifo_queue t) @ [\<lparr>qf_iface = Some i, qf_packet = Some q\<rparr>]
          \<and> pkt_id (pkt s' q) = x \<and> payload (core s') q = pay)"

lemma can2_last:
  assumes m: "can_bound CFP2_ID_CONN_MASK i d f b q ys t s" and part: "can2_part q (id2_bytes x @ pay) s" and fits: "id2_fits x"
    and ver: "version (csp_conf (core t)) = 2" and n: "length pay \<le> CSP_BUFFER_SIZE"
    and room: "length (queue_list (qfifo_queue t)) < q_size (qfifo_queue t)"
  shows "\<exists>s'. can_deliver 0x3FFF i d q isr (snd (in_core (csp_id_strip q) s)) = Some s'
    \<and> can_delivered i d f ys (if id_dst x = 0x3FFF then x\<lparr>id_dst := if_addr (iface t i)\<rparr> else x) pay t s'"
proof -
  have v: "csp_version (core s) = 2" "hdr_size (core s) = 6" using m ver by (simp_all add: can_bound_def hdr_size_def csp_version_def)
  have p: "frame_begin (pkt s q) = (q, 2)" "frame_length (pkt s q) = of_nat (6 + length pay)"
      "mem_read (pkt_mem (pkt s q)) 2 (6 + length pay) = id2_bytes x @ pay"
    using part by (simp_all add: can2_part_def id2_bytes_eq)
  have "\<exists>c'. csp_id_strip q (core s) = (0, c') \<and> pkt_id (packet c' q) = x \<and> payload c' q = pay \<and> pkt_length (packet c' q) = of_nat (length pay)"
    by (rule id_strip_received) (use p v n fits in \<open>simp_all add: frame_bytes_def id_bytes_def id_fits_def\<close>)
  then obtain c' where c': "csp_id_strip q (core s) = (0, c')" "pkt_id (packet c' q) = x" "payload c' q = pay" by blast
  obtain h where h: "snd (in_core (csp_id_strip q) s) = upd_pkt q h s" "\<And>k. pkt_next (h k) = pkt_next k" "\<And>k. cfpid (h k) = cfpid k"
    using strip_upd [of q s] by blast
  have core: "core (upd_pkt q h s) = c'" using arg_cong [OF h(1), of core] c'(1) by (simp add: in_core_def)
  have one: "can_bound CFP2_ID_CONN_MASK i d f b q ys t (upd_pkt q h s)" by (rule can_bound_upd [OF m]) (simp_all add: h)
  from can_bound_deliver [OF one refl refl room, where bc = "0x3FFF" and isr = isr] c' show ?thesis unfolding h(1) can_delivered_def core by blast
qed

text \<open>The fragment counter counts modulo eight.\<close>

lemma fc_ucast: "(ucast (of_nat k AND 0x7 :: u16) :: u32) = of_nat k AND 0x7"
  unfolding and_7 by (rule bit_word_eqI) (auto simp: bit_simps bit_of_nat_iff)

lemma fc_next: "((of_nat k AND 0x7 :: u16) + 1) AND 0x7 = of_nat (k + 1) AND 0x7"
proof -
  have u: "unat (w AND 0x7 :: u16) = unat w mod 8" for w :: u16 unfolding and_7 unsigned_take_bit_eq by (simp add: take_bit_eq_mod)
  have m: "unat (of_nat j :: u16) mod 8 = j mod 8" for j by (simp add: unat_of_nat take_bit_eq_mod mod_mod_cancel)
  have "unat ((of_nat k AND 0x7 :: u16) + 1) = Suc (k mod 8)" by (subst unat_Suc_small) (simp_all only: u m, simp_all)
  then have "unat (((of_nat k AND 0x7 :: u16) + 1) AND 0x7) = unat (of_nat (k + 1) AND 0x7 :: u16)"
    by (simp only: u m) (simp add: mod_Suc_eq)
  then show ?thesis by (rule unsigned_word_eqI)
qed

lemma can2_rest_received:
  assumes "can_bound CFP2_ID_CONN_MASK i d f b q ys t s" "can2_part q (id2_bytes x @ got) s" "rx_count (pkt s q) = of_nat k AND 0x7"
    and b: "b = can2_id x' a sc" and fits: "id2_fits x" and ver: "version (csp_conf (core t)) = 2"
    and room: "length (queue_list (qfifo_queue t)) < q_size (qfifo_queue t)"
    and "length got + length rest \<le> CSP_BUFFER_SIZE" "rest \<noteq> []"
  shows "\<exists>s'. can_rx_frames i isr (can2_rest b k rest) s = Some s'
    \<and> can_delivered i d f ys (if id_dst x = 0x3FFF then x\<lparr>id_dst := if_addr (iface t i)\<rparr> else x) (got @ rest) t s'"
  using assms(1-3,8,9)
proof (induction "length rest" arbitrary: rest s got k rule: less_induct)
  case less
  let ?e = "if length rest \<le> 8 then 1 else 0 :: u32" and ?chunk = "take 8 rest"
  let ?id = "b OR push_bit 2 (of_nat k AND 0x7) OR ?e" and ?dlc = "of_nat (length (take 8 rest)) :: u8"
  have e: "?e = 0 \<or> ?e = 1" by simp
  note nid = can2_next_id [OF b e, of k]
  have dlc: "length ?chunk = unat ?dlc" by (subst unat_of_nat_small) simp_all
  from can_bound_bind [OF less.prems(1) nid(4), of False isr] obtain s1 where s1: "can_bind CFP2_ID_CONN_MASK False i d ?id isr s = Some (Some q, s1)"
      "s1 = upd_pkt q (\<lambda>k. k\<lparr>last_used := csp_ms (core s)\<rparr>) s" "can_bound CFP2_ID_CONN_MASK i d f b q ys t s1"
    by blast
  let ?s2 = "upd_pkt q (\<lambda>k. k\<lparr>rx_count := (rx_count k + 1) AND 0x7\<rparr>) s1"
  have two: "can_bound CFP2_ID_CONN_MASK i d f b q ys t ?s2" "can2_part q (id2_bytes x @ got) ?s2" "rx_count (pkt ?s2 q) = of_nat (k + 1) AND 0x7"
    using can_bound_upd [OF s1(3), of "\<lambda>k. k\<lparr>rx_count := (rx_count k + 1) AND 0x7\<rparr>"] less.prems(2,3) fc_next [of k] by (simp_all add: s1(2) can2_part_def)
  have len: "length (id2_bytes x @ got) + length ?chunk \<le> 262" using less.prems(4) by (simp add: id2_bytes_eq)
  from can2_store_part [OF two(1,2) dlc len, of ?id isr] two(3) obtain s3 where
      s3: "can2_store i d q ?id ?chunk ?dlc isr ?s2 = map_option (Pair CSP_ERR_NONE)
        (if ?id AND 1 \<noteq> 0 then can_deliver 0x3FFF i d q isr (snd (in_core (csp_id_strip q) s3)) else Some s3)"
      "can_bound CFP2_ID_CONN_MASK i d f b q ys t s3" "can2_part q ((id2_bytes x @ got) @ ?chunk) s3" "rx_count (pkt s3 q) = of_nat (k + 1) AND 0x7"
    by auto
  have conf: "version (csp_conf (core s)) = 2" "interface_data (iface s i) = Some d" using less.prems(1) ver by (simp_all add: can_bound_def)
  have cnt: "ucast (rx_count (pkt s1 q)) = drop_bit 2 ?id AND 0x7" using less.prems(3) fc_ucast [of k] nid(3) by (simp add: s1(2))
  have rx: "csp_can_rx i ?id ?chunk ?dlc isr s = can2_store i d q ?id ?chunk ?dlc isr ?s2"
    unfolding csp_can_rx_def csp_can2_rx_def Let_def conf nid(1) using s1(1) cnt by simp
  have frames: "can_rx_frames i isr (can2_rest b k rest) s
      = (case can2_store i d q ?id ?chunk ?dlc isr ?s2 of None \<Rightarrow> None | Some (r, s) \<Rightarrow> can_rx_frames i isr (can2_rest b (k + 1) (drop 8 rest)) s)"
  proof -
    have "can2_rest b k rest = (?id, ?chunk) # can2_rest b (k + 1) (drop 8 rest)" using less.prems(5) by (subst can2_rest.simps) (simp only: if_False)
    then show ?thesis by (simp only: can_rx_frames.simps rx)
  qed
  show ?case
  proof (cases "length rest \<le> 8")
    case True
    then have "?id AND 1 \<noteq> 0" using nid(2) by simp
    moreover obtain s' where "can_deliver 0x3FFF i d q isr (snd (in_core (csp_id_strip q) s3)) = Some s'"
        "can_delivered i d f ys (if id_dst x = 0x3FFF then x\<lparr>id_dst := if_addr (iface t i)\<rparr> else x) (got @ rest) t s'"
      using can2_last [OF s3(2) _ fits ver _ room, of "got @ rest" isr] s3(3) True less.prems(4) by auto
    ultimately show ?thesis using frames s3(1) True by (auto simp: can2_rest.simps)
  next
    case False
    then have "\<not> (?id AND 1 \<noteq> 0)" using nid(2) by simp
    then have "can_rx_frames i isr (can2_rest b k rest) s = can_rx_frames i isr (can2_rest b (k + 1) (drop 8 rest)) s3" unfolding frames s3(1) by simp
    moreover have "\<exists>s'. can_rx_frames i isr (can2_rest b (k + 1) (drop 8 rest)) s3 = Some s'
      \<and> can_delivered i d f ys (if id_dst x = 0x3FFF then x\<lparr>id_dst := if_addr (iface t i)\<rparr> else x) ((got @ ?chunk) @ drop 8 rest) t s'"
      using False less.prems(4,5) s3(2-4) by (intro less.hyps) auto
    ultimately show ?thesis by simp
  qed
qed

text \<open>All frames of a packet, at an idle receiver.\<close>

lemma can2_frames_received:
  assumes idle: "can_idle CFP2_ID_CONN_MASK j d f (can2_id x a sc) xs t" and fits: "id2_fits x" and ver: "version (csp_conf (core t)) = 2"
    and n: "length pay \<le> CSP_BUFFER_SIZE"
  shows "\<exists>t'. can_rx_frames j isr (can2_frames x a sc pay) t = Some t'
    \<and> can_delivered j d f (can_alive t xs) (if id_dst x = 0x3FFF then x\<lparr>id_dst := if_addr (iface t j)\<rparr> else x) pay t t'"
proof -
  let ?b = "can2_id x a sc" and ?ys = "can_alive t xs"
  let ?e = "if length pay \<le> 4 then 1 else 0 :: u32" and ?data = "be_bytes 4 (can2_ext x) @ take 4 pay"
  let ?id = "?b OR 2 OR ?e" and ?dlc = "of_nat (length (be_bytes 4 (can2_ext x) @ take 4 pay)) :: u8"
  have room: "length (queue_list (qfifo_queue t)) < q_size (qfifo_queue t)" using idle by (simp add: can_idle_def)
  have e: "?e = 0 \<or> ?e = 1" by simp
  note fid = can2_first_id [OF refl e, of x a sc]
  from can_idle_bind [OF idle fid(3), of isr] obtain q s where s: "can_bind CFP2_ID_CONN_MASK True j d ?id isr t = Some (Some q, s)"
      "can_bound CFP2_ID_CONN_MASK j d f ?b q ?ys t s"
    by blast
  have dlc: "unat ?dlc = 4 + length (take 4 pay)" by (subst unat_of_nat_small) simp_all
  then have dlc4: "\<not> ?dlc < 4" "length (take 4 pay) = unat (?dlc - 4)"
    by (simp add: word_less_nat_alt) (subst unat_diff_small, simp_all only: word_le_nat_alt dlc, simp_all)
  have hd: "hdr_size (core s) = 6" using s(2) ver by (simp add: can_bound_def hdr_size_def csp_version_def)
  obtain g where g: "can2_begin q ?id ?data s = upd_pkt q g s" "\<And>k. pkt_next (g k) = pkt_next k" "\<And>k. cfpid (g k) = cfpid k" "\<And>k. rx_count (g k) = 1"
      "\<And>k. frame_begin (g k) = (q, 2)" "\<And>k. frame_length (g k) = 6"
      "\<And>k. pkt_mem (g k) = mem_write (pkt_mem k) 2 (be_bytes 2 (ucast (drop_bit 13 ?id) :: u16) @ be_bytes 4 (can2_ext x))"
    using can2_begin_upd [of ?data q ?id s] hd by auto
  have bytes: "be_bytes 2 (ucast (drop_bit 13 ?id) :: u16) @ be_bytes 4 (can2_ext x) = id2_bytes x"
    using id2_bytes_can [OF fits, of a sc] fid(4) by simp
  have one: "can_bound CFP2_ID_CONN_MASK j d f ?b q ?ys t (upd_pkt q g s)" "can2_part q (id2_bytes x) (upd_pkt q g s)" "rx_count (pkt (upd_pkt q g s) q) = 1"
    using can_bound_upd [OF s(2), of g] g(2-7) bytes by (simp_all add: can2_part_def id2_bytes_eq mem_write_same)
  have len: "length (id2_bytes x) + length (take 4 pay) \<le> 262" by (simp add: id2_bytes_eq)
  from can2_store_part [OF one(1,2) dlc4(2) len, of ?id isr] one(3) obtain s3 where
      s3: "can2_store j d q ?id (take 4 pay) (?dlc - 4) isr (upd_pkt q g s) = map_option (Pair CSP_ERR_NONE)
        (if ?id AND 1 \<noteq> 0 then can_deliver 0x3FFF j d q isr (snd (in_core (csp_id_strip q) s3)) else Some s3)"
      "can_bound CFP2_ID_CONN_MASK j d f ?b q ?ys t s3" "can2_part q (id2_bytes x @ take 4 pay) s3" "rx_count (pkt s3 q) = 1"
    by auto
  have conf: "version (csp_conf (core t)) = 2" "interface_data (iface t j) = Some d" using idle ver by (simp_all add: can_idle_def)
  have rx: "csp_can_rx j ?id ?data ?dlc isr t = can2_store j d q ?id (take 4 pay) (?dlc - 4) isr (upd_pkt q g s)"
    unfolding csp_can_rx_def csp_can2_rx_def Let_def conf using fid(1) s(1) g(1) dlc4(1) by simp
  have frames: "can_rx_frames j isr (can2_frames x a sc pay) t
      = (case can2_store j d q ?id (take 4 pay) (?dlc - 4) isr (upd_pkt q g s) of None \<Rightarrow> None | Some (r, s) \<Rightarrow> can_rx_frames j isr (can2_rest ?b 1 (drop 4 pay)) s)"
    unfolding can2_frames_def can_rx_frames.simps rx ..
  show ?thesis
  proof (cases "length pay \<le> 4")
    case True
    then have "?id AND 1 \<noteq> 0" using fid(2) by simp
    moreover obtain s' where "can_deliver 0x3FFF j d q isr (snd (in_core (csp_id_strip q) s3)) = Some s'"
        "can_delivered j d f ?ys (if id_dst x = 0x3FFF then x\<lparr>id_dst := if_addr (iface t j)\<rparr> else x) pay t s'"
      using can2_last [OF s3(2) _ fits ver n room, of isr] s3(3) True by auto
    ultimately show ?thesis using frames s3(1) True by (auto simp: can2_rest.simps)
  next
    case False
    then have "\<not> (?id AND 1 \<noteq> 0)" using fid(2) by simp
    then have "can_rx_frames j isr (can2_frames x a sc pay) t = can_rx_frames j isr (can2_rest ?b 1 (drop 4 pay)) s3" unfolding frames s3(1) by simp
    moreover have "\<exists>s'. can_rx_frames j isr (can2_rest ?b 1 (drop 4 pay)) s3 = Some s'
      \<and> can_delivered j d f ?ys (if id_dst x = 0x3FFF then x\<lparr>id_dst := if_addr (iface t j)\<rparr> else x) (take 4 pay @ drop 4 pay) t s'"
      using False n s3(4) by (intro can2_rest_received [OF s3(2,3) _ refl fits ver room]) auto
    ultimately show ?thesis by simp
  qed
qed

end
