(* ===== verification/CSP_Can_Link1.thy ===== *)
theory CSP_Can_Link1
  imports CSP_Can_Link
begin

text \<open>The same for the fragmentation protocol of CSP 1.x, which counts the frames that remain.\<close>

section \<open>Receiving the fragments\<close>

definition can1_part :: "addr \<Rightarrow> csp_id \<Rightarrow> u8 list \<Rightarrow> u8 list \<Rightarrow> nat \<Rightarrow> 'e node \<Rightarrow> bool" where
  "can1_part q x pay got r s \<longleftrightarrow> pkt_id (pkt s q) = x \<and> pkt_length (pkt s q) = of_nat (length pay) \<and> rx_count (pkt s q) = of_nat (length got)
     \<and> mem_read (pkt_mem (pkt s q)) DATA_OFF (length got) = got \<and> remain (pkt s q) = of_nat r"

lemma can1_more_part:
  assumes m: "can_bound CFP_ID_CONN_MASK i d f b q ys t s" and part: "can1_part q x pay got (Suc r) s"
    and rem: "CFP_REMAIN can_id = of_nat r" "r < 256" and data: "length data = unat dlc" "drop offset data = chunk" "offset + length chunk = unat dlc"
    and n: "length got + length chunk \<le> length pay" "length pay \<le> CSP_BUFFER_SIZE"
  shows "\<exists>s1. can1_more i d q can_id data dlc offset isr s =
      (if length got + length chunk = length pay then can_deliver 0x1F i d q isr s1 else Some s1)
    \<and> can_bound CFP_ID_CONN_MASK i d f b q ys t s1 \<and> can1_part q x pay (got @ chunk) r s1"
proof -
  have p: "pkt_id (pkt s q) = x" "pkt_length (pkt s q) = of_nat (length pay)" "rx_count (pkt s q) = of_nat (length got)"
      "mem_read (pkt_mem (pkt s q)) DATA_OFF (length got) = got" "remain (pkt s q) = of_nat (Suc r)"
    using part by (simp_all only: can1_part_def)
  have u: "unat (of_nat (length pay) :: u16) = length pay" "unat (of_nat (length got) :: u16) = length got" "unat (of_nat (Suc r) :: u16) = Suc r"
      "unat (of_nat r :: u32) = r"
    by (rule unat_of_nat_small; use n rem(2) in simp)+
  have ur: "unat (ucast (of_nat r :: u32) :: u16) = r" using ucast_of_nat_small [of r] rem(2) by (simp add: unat_of_nat_small)
  have go: "uint (ucast (CFP_REMAIN can_id) :: u16) = uint (remain (pkt s q)) - 1" unfolding rem(1) p(5) uint_nat ur u by simp
  let ?g = "\<lambda>k. k\<lparr>remain := remain k - 1, pkt_mem := mem_write (pkt_mem k) (DATA_OFF + length got) chunk, rx_count := rx_count k + of_nat (length chunk)\<rparr>"
  define s1 where "s1 = upd_pkt q (\<lambda>k. k\<lparr>remain := remain k - 1\<rparr>) s"
  have s1: "rx_count (pkt s1 q) = of_nat (length got)" "pkt_length (pkt s1 q) = of_nat (length pay)" using p by (simp_all add: s1_def)
  have len: "unat dlc - offset = length chunk" using data(3) by simp
  have le: "\<not> uint (rx_count (pkt s1 q)) + uint dlc - int offset > uint (pkt_length (pkt s1 q))"
    unfolding s1 uint_nat u using n(1) data(3) by arith
  have cnt: "rx_count (pkt (upd_pkt q ?g s) q) = pkt_length (pkt (upd_pkt q ?g s) q) \<longleftrightarrow> length got + length chunk = length pay"
  proof -
    have "rx_count (pkt (upd_pkt q ?g s) q) = of_nat (length got + length chunk)" using p by simp
    moreover have "unat (of_nat (length got + length chunk) :: u16) = length got + length chunk" by (rule unat_of_nat_small) (use n in simp)
    ultimately show ?thesis using of_nat_eq_word [of "length got + length chunk" "of_nat (length pay) :: u16"] u(1) p(2) n by simp
  qed
  have "can1_more i d q can_id data dlc offset isr s =
      (if length got + length chunk = length pay then can_deliver 0x1F i d q isr (upd_pkt q ?g s) else Some (upd_pkt q ?g s))"
    using go le cnt [simplified] len data(2) p(2,3) by (simp add: can1_more_def Let_def s1_def [symmetric] s1 u write_data_upd) (simp add: s1_def upd_pkt_comp)
  moreover have "can_bound CFP_ID_CONN_MASK i d f b q ys t (upd_pkt q ?g s)" by (rule can_bound_upd [OF m]) simp_all
  moreover have "can1_part q x pay (got @ chunk) r (upd_pkt q ?g s)"
    using p by (simp add: can1_part_def mem_read_append mem_write_disjoint mem_write_same)
  ultimately show ?thesis by blast
qed

lemma can1_begin_part:
  assumes m: "can_bound CFP_ID_CONN_MASK i d f b q ys t s" and ver: "version (csp_conf (core t)) = 1" and fits: "id1_fits x"
    and rem: "CFP_REMAIN can_id = of_nat r" "r < 256" and n: "length pay \<le> CSP_BUFFER_SIZE"
    and data: "data = id1_bytes False x @ be_bytes 2 (of_nat (length pay) :: u16) @ chunk" "length data = unat dlc"
  shows "\<exists>s1. can1_begin i d q can_id data dlc isr s = Some (True, s1) \<and> can_bound CFP_ID_CONN_MASK i d f b q ys t s1
    \<and> can1_part q x pay [] (Suc r) s1"
proof -
  have v: "csp_version (core s) \<noteq> 2" "hdr_size (core s) = 4" using m ver by (simp_all add: can_bound_def hdr_size_def csp_version_def)
  have l: "length (id1_bytes False x) = 4" by (simp add: id1_bytes_def)
  have parts: "take 4 data = id1_bytes False x" "be_word (take 2 (drop 4 data)) = (of_nat (length pay) :: u16)" by (simp_all add: data(1) l)
  have dlc: "\<not> dlc < 6" using data(2) by (simp add: data(1) l word_less_nat_alt)
  define s1 where "s1 = upd_pkt q (\<lambda>k. k\<lparr>frame_length := frame_length k + 4\<rparr>) (on_core (write_frame q 0 (take 4 data)) (snd (in_core (csp_id_setup_rx q) s)))"
  have s1: "s1 = upd_pkt q (\<lambda>k. k\<lparr>frame_begin := (q, 4), pkt_mem := mem_write (pkt_mem k) 4 (take 4 data), frame_length := 4\<rparr>) s"
    unfolding s1_def setup_rx_effect snd_conv v by (subst write_frame_upd [where off = 4]) (simp_all add: upd_pkt_comp)
  have one: "can_bound CFP_ID_CONN_MASK i d f b q ys t s1" unfolding s1 by (rule can_bound_upd [OF m]) simp_all
  have v1: "csp_version (core s1) \<noteq> 2" "hdr_size (core s1) = 4" using v by (simp_all add: s1) (simp add: upd_pkt_def on_core_def)
  have "\<exists>c'. csp_id_strip q (core s1) = (0, c') \<and> pkt_id (packet c' q) = x \<and> payload c' q = [] \<and> pkt_length (packet c' q) = of_nat (length ([] :: u8 list))"
    by (rule id_strip_received) (use v1 fits l in \<open>simp_all add: id_bytes_def id_fits_def, simp_all add: s1 frame_bytes_def parts mem_write_same\<close>)
  then obtain c' where c': "csp_id_strip q (core s1) = (0, c')" "pkt_id (packet c' q) = x" by blast
  obtain h where h: "snd (in_core (csp_id_strip q) s1) = upd_pkt q h s1" "\<And>k. pkt_next (h k) = pkt_next k" "\<And>k. cfpid (h k) = cfpid k"
    using strip_upd [of q s1] by blast
  have idx: "pkt_id (pkt (upd_pkt q h s1) q) = x" using arg_cong [OF h(1), of core] c' by (simp add: in_core_def)
  let ?g = "\<lambda>k. (h k)\<lparr>pkt_length := of_nat (length pay), rx_count := 0, remain := ucast (CFP_REMAIN can_id + 1)\<rparr>"
  have small: "\<not> CSP_BUFFER_SIZE < unat (of_nat (length pay) :: u16)" using n by (simp add: unat_of_nat_small)
  have "can1_begin i d q can_id data dlc isr s = Some (True, upd_pkt q ?g s1)"
    unfolding can1_begin_def Let_def s1_def [symmetric] h(1) parts(2) using dlc small by (simp add: upd_pkt_comp)
  moreover have "can_bound CFP_ID_CONN_MASK i d f b q ys t (upd_pkt q ?g s1)" by (rule can_bound_upd [OF one]) (simp_all add: h)
  moreover have "ucast (CFP_REMAIN can_id + 1) = (of_nat (Suc r) :: u16)"
    using ucast_of_nat_small [of "Suc r"] rem by (simp add: add.commute)
  then have "can1_part q x pay [] (Suc r) (upd_pkt q ?g s1)" using idx by (simp add: can1_part_def)
  ultimately show ?thesis by blast
qed

lemma can1_last:
  assumes m: "can_bound CFP_ID_CONN_MASK i d f b q ys t s" and part: "can1_part q x pay pay r s" and n: "length pay \<le> CSP_BUFFER_SIZE"
    and room: "length (queue_list (qfifo_queue t)) < q_size (qfifo_queue t)"
  shows "\<exists>s'. can_deliver 0x1F i d q isr s = Some s'
    \<and> can_delivered i d f ys (if id_dst x = 0x1F then x\<lparr>id_dst := if_addr (iface t i)\<rparr> else x) pay t s'"
proof -
  have "unat (of_nat (length pay) :: u16) = length pay" by (rule unat_of_nat_small) (use n in simp)
  then have "payload (core s) q = pay" "pkt_id (pkt s q) = x" using part by (simp_all add: can1_part_def payload_def data_bytes_def)
  with can_bound_deliver [OF m _ _ room, where bc = "0x1F" and isr = isr] show ?thesis unfolding can_delivered_def by blast
qed

lemma can1_rest_received:
  assumes "can_bound CFP_ID_CONN_MASK i d f b q ys t s" "can1_part q x (got @ rest) got ((length rest + 7) div 8) s"
    and b: "b = can1_id x' dest ident CFP_BEGIN 0" and ver: "version (csp_conf (core t)) = 1"
    and room: "length (queue_list (qfifo_queue t)) < q_size (qfifo_queue t)"
    and "length got + length rest \<le> CSP_BUFFER_SIZE" "rest \<noteq> []"
  shows "\<exists>s'. can_rx_frames i isr (can1_rest (can1_id x' dest ident CFP_MORE) rest) s = Some s'
    \<and> can_delivered i d f ys (if id_dst x = 0x1F then x\<lparr>id_dst := if_addr (iface t i)\<rparr> else x) (got @ rest) t s'"
  using assms(1,2,6,7)
proof (induction "length rest" arbitrary: rest s got rule: less_induct)
  case less
  let ?chunk = "take 8 rest" and ?r = "(length (drop 8 rest) + 7) div 8"
  let ?id = "can1_id x' dest ident CFP_MORE ?r" and ?dlc = "of_nat (length (take 8 rest)) :: u8"
  have r: "?r < 256" using less.prems(3) by auto
  note fid = can1_frag_id [OF r, of x' dest ident]
  have dlc: "length ?chunk = unat ?dlc" by (subst unat_of_nat_small) simp_all
  have "(n + 7) div 8 = Suc ((n - 8 + 7) div 8)" if "0 < n" for n :: nat
    using that div_add_self1 [of 8 "n - 1"] by (cases "n \<le> 8") simp_all
  from this [of "length rest"] have suc: "(length rest + 7) div 8 = Suc ?r" using less.prems(4) by simp
  from can_bound_bind [OF less.prems(1), of ?id False isr] fid(4) [of CFP_MORE] b obtain s1 where s1: "can_bind CFP_ID_CONN_MASK False i d ?id isr s = Some (Some q, s1)"
      "s1 = upd_pkt q (\<lambda>k. k\<lparr>last_used := csp_ms (core s)\<rparr>) s" "can_bound CFP_ID_CONN_MASK i d f b q ys t s1"
    by blast
  have part1: "can1_part q x (got @ rest) got (Suc ?r) s1" using less.prems(2) suc by (simp add: s1(2) can1_part_def)
  from can1_more_part [OF s1(3) part1 fid(3) [of CFP_MORE] r dlc, of 0 ?chunk isr] less.prems(3) dlc obtain s2 where
      s2: "can1_more i d q ?id ?chunk ?dlc 0 isr s1 = (if length got + length ?chunk = length (got @ rest) then can_deliver 0x1F i d q isr s2 else Some s2)"
      "can_bound CFP_ID_CONN_MASK i d f b q ys t s2" "can1_part q x (got @ rest) (got @ ?chunk) ?r s2"
    by auto
  have conf: "version (csp_conf (core s)) = 1" "interface_data (iface s i) = Some d" using less.prems(1) ver by (simp_all add: can_bound_def)
  have rx: "csp_can_rx i ?id ?chunk ?dlc isr s = map_option (Pair CSP_ERR_NONE) (can1_more i d q ?id ?chunk ?dlc 0 isr s1)"
    using conf s1(1) fid(2) by (simp add: csp_can_rx_def csp_can1_rx_def Let_def)
  have frames: "can_rx_frames i isr (can1_rest (can1_id x' dest ident CFP_MORE) rest) s
      = (case can1_more i d q ?id ?chunk ?dlc 0 isr s1 of None \<Rightarrow> None | Some s \<Rightarrow> can_rx_frames i isr (can1_rest (can1_id x' dest ident CFP_MORE) (drop 8 rest)) s)"
  proof -
    have "can1_rest (can1_id x' dest ident CFP_MORE) rest = (?id, ?chunk) # can1_rest (can1_id x' dest ident CFP_MORE) (drop 8 rest)"
      using less.prems(4) by (subst can1_rest.simps) (simp only: if_False)
    then show ?thesis by (simp only: can_rx_frames.simps rx) (simp split: option.splits)
  qed
  show ?case
  proof (cases "length rest \<le> 8")
    case True
    obtain s' where "can_deliver 0x1F i d q isr s2 = Some s'"
        "can_delivered i d f ys (if id_dst x = 0x1F then x\<lparr>id_dst := if_addr (iface t i)\<rparr> else x) (got @ rest) t s'"
      using can1_last [OF s2(2) _ _ room, of x "got @ rest" ?r isr] s2(3) True less.prems(3) by auto
    then show ?thesis using frames s2(1) True by (auto simp: can1_rest.simps)
  next
    case False
    then have "can_rx_frames i isr (can1_rest (can1_id x' dest ident CFP_MORE) rest) s = can_rx_frames i isr (can1_rest (can1_id x' dest ident CFP_MORE) (drop 8 rest)) s2"
      unfolding frames s2(1) by simp
    moreover have "\<exists>s'. can_rx_frames i isr (can1_rest (can1_id x' dest ident CFP_MORE) (drop 8 rest)) s2 = Some s'
      \<and> can_delivered i d f ys (if id_dst x = 0x1F then x\<lparr>id_dst := if_addr (iface t i)\<rparr> else x) ((got @ ?chunk) @ drop 8 rest) t s'"
      using False less.prems(3,4) s2(2,3) by (intro less.hyps) auto
    ultimately show ?thesis by simp
  qed
qed

lemma can1_frames_received:
  assumes idle: "can_idle CFP_ID_CONN_MASK j d f (can1_id x dest ident CFP_BEGIN 0) xs t" and fits: "id1_fits x" and ver: "version (csp_conf (core t)) = 1"
    and n: "length pay \<le> CSP_BUFFER_SIZE"
  shows "\<exists>t'. can_rx_frames j isr (can1_frames (id1_bytes False x) x dest ident pay) t = Some t'
    \<and> can_delivered j d f (can_alive t xs) (if id_dst x = 0x1F then x\<lparr>id_dst := if_addr (iface t j)\<rparr> else x) pay t t'"
proof -
  let ?b = "can1_id x dest ident CFP_BEGIN 0" and ?ys = "can_alive t xs" and ?r = "(length pay + 5) div 8" and ?chunk = "take 2 pay"
  let ?id = "can1_id x dest ident CFP_BEGIN ?r" and ?data = "id1_bytes False x @ be_bytes 2 (of_nat (length pay) :: u16) @ take 2 pay"
  let ?dlc = "of_nat (length ?data) :: u8"
  have room: "length (queue_list (qfifo_queue t)) < q_size (qfifo_queue t)" using idle by (simp add: can_idle_def)
  have r: "?r < 256" using n by auto
  note fid = can1_frag_id [OF r, of x dest ident]
  from can_idle_bind [OF idle fid(4) [of CFP_BEGIN], of isr] obtain q s where s: "can_bind CFP_ID_CONN_MASK True j d ?id isr t = Some (Some q, s)"
      "can_bound CFP_ID_CONN_MASK j d f ?b q ?ys t s"
    by blast
  have l: "length (id1_bytes False x) = 4" by (simp add: id1_bytes_def)
  have dlc: "length ?data = unat ?dlc" by (subst unat_of_nat_small) (simp_all add: l)
  have six: "6 + length ?chunk = unat ?dlc" "drop 6 ?data = ?chunk" using dlc by (simp_all add: l)
  from can1_begin_part [OF s(2) ver fits fid(3) [of CFP_BEGIN] r n refl dlc, of isr] obtain s1 where
      s1: "can1_begin j d q ?id ?data ?dlc isr s = Some (True, s1)" "can_bound CFP_ID_CONN_MASK j d f ?b q ?ys t s1" "can1_part q x pay [] (Suc ?r) s1"
    by blast
  have le: "length ([] :: u8 list) + length ?chunk \<le> length pay" by simp
  from can1_more_part [OF s1(2,3) fid(3) [of CFP_BEGIN] r dlc six(2,1) le n, of isr] obtain s2 where
      s2: "can1_more j d q ?id ?data ?dlc 6 isr s1 = (if length ?chunk = length pay then can_deliver 0x1F j d q isr s2 else Some s2)"
      "can_bound CFP_ID_CONN_MASK j d f ?b q ?ys t s2" "can1_part q x pay ?chunk ?r s2"
    by auto
  have conf: "interface_data (iface t j) = Some d" using idle by (simp add: can_idle_def)
  have rx: "csp_can_rx j ?id ?data ?dlc isr t = map_option (Pair CSP_ERR_NONE) (can1_more j d q ?id ?data ?dlc 6 isr s1)"
    unfolding csp_can_rx_def csp_can1_rx_def Let_def conf using ver s(1) fid(1) s1(1) by simp
  have frames: "can_rx_frames j isr (can1_frames (id1_bytes False x) x dest ident pay) t
      = (case can1_more j d q ?id ?data ?dlc 6 isr s1 of None \<Rightarrow> None | Some s \<Rightarrow> can_rx_frames j isr (can1_rest (can1_id x dest ident CFP_MORE) (drop 2 pay)) s)"
    unfolding can1_frames_def can_rx_frames.simps rx by (simp split: option.splits)
  show ?thesis
  proof (cases "length pay \<le> 2")
    case True
    obtain s' where "can_deliver 0x1F j d q isr s2 = Some s'"
        "can_delivered j d f ?ys (if id_dst x = 0x1F then x\<lparr>id_dst := if_addr (iface t j)\<rparr> else x) pay t s'"
      using can1_last [OF s2(2) _ n room, of x ?r isr] s2(3) True by auto
    then show ?thesis using frames s2(1) True by (auto simp: can1_rest.simps)
  next
    case False
    then have "can_rx_frames j isr (can1_frames (id1_bytes False x) x dest ident pay) t
        = can_rx_frames j isr (can1_rest (can1_id x dest ident CFP_MORE) (drop 2 pay)) s2" unfolding frames s2(1) by simp
    moreover have "?r = (length (drop 2 pay) + 7) div 8" using False by simp
    then have "\<exists>s'. can_rx_frames j isr (can1_rest (can1_id x dest ident CFP_MORE) (drop 2 pay)) s2 = Some s'
      \<and> can_delivered j d f ?ys (if id_dst x = 0x1F then x\<lparr>id_dst := if_addr (iface t j)\<rparr> else x) (take 2 pay @ drop 2 pay) t s'"
      using False n s2(3) by (intro can1_rest_received [OF s2(2) _ refl ver room]) auto
    ultimately show ?thesis by simp
  qed
qed

section \<open>From one node to the other\<close>

text \<open>C26. A packet that a node sends on the CAN bus arrives, in both versions of the fragmentation protocol: when the
  driver takes every frame, the frames that \<open>csp_can1_tx\<close> or \<open>csp_can2_tx\<close> puts on the bus, given to
  \<open>csp_can_rx\<close> of a node with a buffer left and no packet in reception with the same identifier, put one
  packet into its router queue, with the identifier and the payload of the packet sent; only a
  broadcast address is replaced by the address of the interface.\<close>

theorem csp_can_transfer:
  fixes bus :: "'e \<Rightarrow> (u32 \<times> u8 list) list" and s :: "'e node" and t :: "'g node"
  assumes tf: "\<And>n v can_id bs e. fst (tf n v can_id bs e) = 0 \<and> bus (snd (tf n v can_id bs e)) = bus e @ [(can_id, bs)]"
    and ver: "version (csp_conf (core s)) = v" "version (csp_conf (core t)) = v" "v = 1 \<or> v = 2"
    and sent: "(if v = 1 then csp_can1_tx else csp_can2_tx) tf i via p fm s = (r, s')" "bus (hw (drv s')) = bus (hw (drv s)) @ frames"
    and x: "id_fits (core s) (pkt_id (pkt s p))" "unat (pkt_length (pkt s p)) \<le> CSP_BUFFER_SIZE" "id_dst (pkt_id (pkt s p)) \<noteq> if_addr (iface s i)"
    and idle: "can_idle (if v = 1 then CFP_ID_CONN_MASK else CFP2_ID_CONN_MASK) j d f
      (fst (hd frames) AND (if v = 1 then CFP_ID_CONN_MASK else CFP2_ID_CONN_MASK)) xs t"
  shows "r = CSP_ERR_NONE \<and> (\<exists>t'. can_rx_frames j isr frames t = Some t'
    \<and> can_delivered j d f (can_alive t xs) (if id_dst (pkt_id (pkt s p)) = (if v = 1 then 0x1F else 0x3FFF) then (pkt_id (pkt s p))\<lparr>id_dst := if_addr (iface t j)\<rparr>
        else pkt_id (pkt s p)) (payload (core s) p) t t')"
proof -
  let ?x = "pkt_id (pkt s p)" and ?pay = "payload (core s) p" and ?c = "cfp_packet_counter (can s (the (interface_data (iface s i))))"
  let ?dest = "if via \<noteq> CSP_NO_VIA_ADDRESS then ucast via else ucast (id_dst ?x) :: u8"
  have n: "length ?pay \<le> CSP_BUFFER_SIZE" using x(2) by (simp add: length_payload)
  show ?thesis
  proof (cases "v = 1")
    case True
    have v2: "csp_version (core s) \<noteq> 2" using ver True by (simp add: csp_version_def)
    then have id: "id1_fits ?x" "take 4 (id_bytes (core s) ?x) = id1_bytes False ?x" using x(1) by (simp_all add: id_fits_def id_bytes_def id1_bytes_def)
    have run: "csp_can1_tx tf i via p fm s = (r, s')" using sent(1) True by simp
    note tx = csp_can1_tx_bus [of tf bus, OF tf x(3) run]
    have fr: "frames = can1_frames (id1_bytes False ?x) ?x ?dest ?c ?pay" using tx(1) sent(2) id(2) by simp
    have "fst (hd frames) AND CFP_ID_CONN_MASK = can1_id ?x ?dest ?c CFP_BEGIN 0"
      unfolding fr using n by (simp add: can1_frames_def can1_frag_id)
    then have "can_idle CFP_ID_CONN_MASK j d f (can1_id ?x ?dest ?c CFP_BEGIN 0) xs t" using idle True by simp
    from can1_frames_received [OF this id(1) _ n, of isr] show ?thesis using ver True fr tx(2) by simp
  next
    case False
    then have v2: "v = 2" using ver by simp
    then have id: "id2_fits ?x" using x(1) ver by (simp add: id_fits_def csp_version_def)
    have run: "csp_can2_tx tf i via p fm s = (r, s')" using sent(1) False by simp
    note tx = csp_can2_tx_bus [of tf bus, OF tf x(3) run]
    have fr: "frames = can2_frames ?x (if_addr (iface s i)) ?c ?pay" using tx(1) sent(2) by simp
    have "fst (hd frames) AND CFP2_ID_CONN_MASK = can2_id ?x (if_addr (iface s i)) ?c"
      unfolding fr using can2_first_id(3) [OF refl, of "if length ?pay \<le> 4 then 1 else 0" ?x "if_addr (iface s i)" ?c] by (simp add: can2_frames_def)
    then have "can_idle CFP2_ID_CONN_MASK j d f (can2_id ?x (if_addr (iface s i)) ?c) xs t" using idle False by simp
    from can2_frames_received [OF this id _ n, of isr] show ?thesis using ver v2 fr tx(2) by simp
  qed
qed

theorem csp_can_transfer_witness:
  "\<exists>s'. csp_can2_tx (\<lambda>n v can_id bs e. (0, e @ [(can_id, bs)])) 1 0 0 True (example_wired []) = (CSP_ERR_NONE, s')
     \<and> (\<exists>t'. can_rx_frames 1 False (hw (drv s')) (example_wired ()) = Some t'
       \<and> can_delivered 1 0 (tok 0 (\<lambda>_. 0)) [] zero_id [] (example_wired ()) t')"
proof -
  let ?tf = "\<lambda>n v can_id bs e. (0, e @ [(can_id, bs)]) :: int \<times> (u32 \<times> u8 list) list"
  let ?s = "example_wired [] :: (u32 \<times> u8 list) list node" and ?t = "example_wired () :: unit node"
  obtain r s' where sent: "(if (2 :: u8) = 1 then csp_can1_tx else csp_can2_tx) ?tf 1 0 0 True ?s = (r, s')" by fastforce
  have p: "pkt ?s 0 = fresh_packet 0" "free_list (core ?t) = [1..<15]" by (simp_all add: example_wired_facts(4) example_sender_pkt)
  have ver: "version (csp_conf (core ?s)) = 2" "version (csp_conf (core ?t)) = 2"
    using example_wired_facts(5) [of "[] :: (u32 \<times> u8 list) list"] example_wired_facts(5) [of "()"] by (simp_all add: csp_version_def)
  have x: "pkt_id (pkt ?s 0) = zero_id" "unat (pkt_length (pkt ?s 0)) = 0" by (simp_all add: p fresh_packet_def zero_packet_def)
  have pay: "payload (core ?s) 0 = []" using x(2) length_payload [of "core ?s" 0] by (metis length_0_conv)
  have fits: "id_fits (core ?s) (pkt_id (pkt ?s 0))" using ver(1) by (simp add: id_fits_def csp_version_def x zero_id_def id2_fits_def)
  have line: "hw (drv s') = hw (drv ?s) @ hw (drv s')" by (simp add: example_wired_facts(6))
  have dst: "id_dst (pkt_id (pkt ?s 0)) \<noteq> if_addr (iface ?s 1)"
  proof -
    have "if_addr (iface ?s 1) = if_addr (iface example_sender 1)" by (simp add: example_wired_def with_drv_def upd_iface_def)
    also have "\<dots> = if_addr (ifaces example_iflist 1)" by (subst example_sender_frame(1)) (simp add: example_node_def)
    finally show ?thesis by (simp add: x zero_id_def example_iflist_def blank_iface_def)
  qed
  have idle: "can_idle (if (2 :: u8) = 1 then CFP_ID_CONN_MASK else CFP2_ID_CONN_MASK) 1 0 (tok 0 (\<lambda>_. 0)) b [] ?t" for b
    using p(2) example_wired_facts(1) [of "()"] by (simp add: can_idle_def can_list_def example_wired_facts del: One_nat_def)
  from csp_can_transfer [where bus = "\<lambda>e. e" and isr = False, OF _ ver _ sent line fits _ dst idle] x pay sent show ?thesis
    by (auto simp: zero_id_def)
qed

end
