(* ===== verification/CSP_Eth.thy ===== *)
theory CSP_Eth
  imports CSP_Pbuf
begin

text \<open>
  The Ethernet interface, \<^verbatim>\<open>src/src/interfaces/csp_if_eth.c\<close> and \<^verbatim>\<open>csp_if_eth_pbuf.c\<close>: the segment header, the table
  of Ethernet addresses, the packets in reception, receiving a frame and sending a packet in
  segments. A frame is a memory with the header at its begin. The driver's function gets the
  frame and acts on the hardware; it is the parameter \<open>tf\<close>. The printed messages and the
  hex dumps of \<^verbatim>\<open>eth_debug\<close> are left out.
\<close>

section \<open>The header of a frame\<close>

abbreviation (input) CSP_ETH_TYPE_CSP :: u16 where "CSP_ETH_TYPE_CSP \<equiv> 0x88B5"
abbreviation (input) CSP_ETH_FRAME_SIZE_MAX :: u16 where "CSP_ETH_FRAME_SIZE_MAX \<equiv> 1500"
abbreviation (input) CSP_ETH_ALEN :: nat where "CSP_ETH_ALEN \<equiv> 6"

text \<open>Offsets of the members of \<^verbatim>\<open>csp_eth_header_t\<close>, which is packed, and its size.\<close>

abbreviation (input) ETH_DHOST :: nat where "ETH_DHOST \<equiv> 0"
abbreviation (input) ETH_SHOST :: nat where "ETH_SHOST \<equiv> 6"
abbreviation (input) ETH_TYPE :: nat where "ETH_TYPE \<equiv> 12"
abbreviation (input) ETH_PACKET_ID :: nat where "ETH_PACKET_ID \<equiv> 14"
abbreviation (input) ETH_SRC_ADDR :: nat where "ETH_SRC_ADDR \<equiv> 16"
abbreviation (input) ETH_SEG_SIZE :: nat where "ETH_SEG_SIZE \<equiv> 18"
abbreviation (input) ETH_PACKET_LENGTH :: nat where "ETH_PACKET_LENGTH \<equiv> 20"
abbreviation (input) ETH_HEADER :: nat where "ETH_HEADER \<equiv> 22"

definition csp_eth_pack_header :: "u16 \<Rightarrow> u16 \<Rightarrow> u16 \<Rightarrow> u16 \<Rightarrow> mem option \<Rightarrow> bool \<times> mem option" where
  "csp_eth_pack_header packet_id src_addr seg_size packet_length buf =
     (case buf of
        None \<Rightarrow> (False, None)
      | Some m \<Rightarrow>
          let m = mem_write m ETH_PACKET_ID (be_bytes 2 packet_id);
              m = mem_write m ETH_SRC_ADDR (be_bytes 2 src_addr);
              m = mem_write m ETH_SEG_SIZE (be_bytes 2 seg_size);
              m = mem_write m ETH_PACKET_LENGTH (be_bytes 2 packet_length)
          in (True, Some m))"

text \<open>The two halves of the identifier are used as they are, in the byte order of the host.\<close>

definition csp_if_eth_unpack_header :: "mem \<Rightarrow> u32 \<times> u16 \<times> u16" where
  "csp_if_eth_unpack_header buf =
     (push_bit 16 (ucast (le_word (mem_read buf ETH_PACKET_ID 2) :: u16)) OR ucast (le_word (mem_read buf ETH_SRC_ADDR 2) :: u16),
      be_word (mem_read buf ETH_SEG_SIZE 2), be_word (mem_read buf ETH_PACKET_LENGTH 2))"

section \<open>Address resolution\<close>

abbreviation (input) ARP_MAX_ENTRIES :: nat where "ARP_MAX_ENTRIES \<equiv> 10"

definition arp_alloc :: "csp_eth_static \<Rightarrow> nat option \<times> csp_eth_static" where
  "arp_alloc a = (if arp_used a \<ge> ARP_MAX_ENTRIES then (None, a) else (Some (arp_used a), a\<lparr>arp_used := arp_used a + 1\<rparr>))"

text \<open>The walk along the table: whether the address is there, and the last entry before that.\<close>

fun arp_walk :: "nat \<Rightarrow> u16 \<Rightarrow> nat option \<Rightarrow> nat option \<Rightarrow> csp_eth_static \<Rightarrow> nat option \<times> nat option" where
  "arp_walk 0 csp_addr last_arp cur a = (None, last_arp)"
| "arp_walk (Suc n) csp_addr last_arp cur a =
     (case cur of
        None \<Rightarrow> (None, last_arp)
      | Some e \<Rightarrow> if arp_csp_addr (arp_array a e) = csp_addr then (Some e, Some e)
                 else arp_walk n csp_addr (Some e) (arp_next (arp_array a e)) a)"

definition upd_arp :: "nat \<Rightarrow> (arp_list_entry \<Rightarrow> arp_list_entry) \<Rightarrow> csp_eth_static \<Rightarrow> csp_eth_static" where
  "upd_arp e g a = a\<lparr>arp_array := (arp_array a)(e := g (arp_array a e))\<rparr>"

definition csp_eth_arp_set_addr :: "u8 list \<Rightarrow> u16 \<Rightarrow> csp_eth_static \<Rightarrow> csp_eth_static" where
  "csp_eth_arp_set_addr mac csp_addr a =
     (case arp_walk ARP_MAX_ENTRIES csp_addr None (arp_list a) a of
        (Some _, _) \<Rightarrow> a
      | (None, last_arp) \<Rightarrow>
          (case arp_alloc a of
             (None, a) \<Rightarrow> a
           | (Some new_arp, a) \<Rightarrow>
               let a = upd_arp new_arp (\<lambda>x. x\<lparr>arp_csp_addr := csp_addr, arp_mac_addr := take CSP_ETH_ALEN mac, arp_next := None\<rparr>) a
               in case last_arp of
                    Some l \<Rightarrow> upd_arp l (\<lambda>x. x\<lparr>arp_next := Some new_arp\<rparr>) a
                  | None \<Rightarrow> a\<lparr>arp_list := Some new_arp\<rparr>))"

definition csp_eth_arp_get_addr :: "u16 \<Rightarrow> csp_eth_static \<Rightarrow> u8 list" where
  "csp_eth_arp_get_addr csp_addr a =
     (case fst (arp_walk ARP_MAX_ENTRIES csp_addr None (arp_list a) a) of
        Some e \<Rightarrow> arp_mac_addr (arp_array a e)
      | None \<Rightarrow> replicate CSP_ETH_ALEN 0xff)"

text \<open>The entries in use are the first ones of the array, linked in order.\<close>

definition arp_ok :: "csp_eth_static \<Rightarrow> bool" where
  "arp_ok a \<longleftrightarrow> arp_used a \<le> ARP_MAX_ENTRIES \<and> arp_list a = (if arp_used a = 0 then None else Some 0)
     \<and> (\<forall>e<arp_used a. arp_next (arp_array a e) = (if Suc e < arp_used a then Some (Suc e) else None))"

definition arp_find :: "u16 \<Rightarrow> csp_eth_static \<Rightarrow> nat option" where
  "arp_find x a = find (\<lambda>e. arp_csp_addr (arp_array a e) = x) [0..<arp_used a]"

lemma arp_walk_from:
  assumes "arp_ok a" "e \<le> arp_used a" "arp_used a - e \<le> n" "cur = (if e < arp_used a then Some e else None)"
  shows "arp_walk n x l cur a = (case find (\<lambda>e. arp_csp_addr (arp_array a e) = x) [e..<arp_used a] of
      Some k \<Rightarrow> (Some k, Some k) | None \<Rightarrow> (None, if e < arp_used a then Some (arp_used a - 1) else l))"
  using assms(2-4)
proof (induction n arbitrary: e l cur)
  case (Suc n)
  show ?case
  proof (cases "e < arp_used a")
    case True
    have nx: "arp_next (arp_array a e) = (if Suc e < arp_used a then Some (Suc e) else None)" using assms(1) True by (simp add: arp_ok_def)
    show ?thesis
      using True Suc.IH [of "Suc e" "arp_next (arp_array a e)" "Some e"] Suc.prems nx by (auto simp: upt_conv_Cons split: option.splits)
  qed (use Suc.prems in simp)
qed simp

lemma arp_walk_eq:
  assumes "arp_ok a"
  shows "arp_walk ARP_MAX_ENTRIES x None (arp_list a) a = (case arp_find x a of Some k \<Rightarrow> (Some k, Some k)
     | None \<Rightarrow> (None, if arp_used a = 0 then None else Some (arp_used a - 1)))"
  using arp_walk_from [OF assms, of 0 ARP_MAX_ENTRIES "arp_list a" x None] assms
  by (auto simp: arp_find_def arp_ok_def split: option.splits)

lemma arp_find_less: "arp_find x a = Some k \<Longrightarrow> k < arp_used a"
  by (auto simp: arp_find_def find_Some_iff)

text \<open>A new entry at the end.\<close>

lemma arp_new_entry:
  fixes mac :: "u8 list"
  assumes ok: "arp_ok a" and none: "arp_find x a = None" and room: "arp_used a < ARP_MAX_ENTRIES"
  defines "n \<equiv> arp_used a" and "a' \<equiv> csp_eth_arp_set_addr mac x a"
  shows "arp_used a' = Suc n" "arp_array a' n = \<lparr>arp_csp_addr = x, arp_mac_addr = take CSP_ETH_ALEN mac, arp_next = None\<rparr>"
    "e < n \<Longrightarrow> arp_csp_addr (arp_array a' e) = arp_csp_addr (arp_array a e) \<and> arp_mac_addr (arp_array a' e) = arp_mac_addr (arp_array a e)"
    "arp_ok a'"
proof -
  have a': "a' = (let b = upd_arp n (\<lambda>x'. x'\<lparr>arp_csp_addr := x, arp_mac_addr := take CSP_ETH_ALEN mac, arp_next := None\<rparr>) (a\<lparr>arp_used := Suc n\<rparr>)
      in if n = 0 then b\<lparr>arp_list := Some n\<rparr> else upd_arp (n - 1) (\<lambda>x. x\<lparr>arp_next := Some n\<rparr>) b)"
    using arp_walk_eq [OF ok, of x] none room by (simp add: a'_def csp_eth_arp_set_addr_def arp_alloc_def n_def Let_def)
  show "arp_used a' = Suc n" "arp_array a' n = \<lparr>arp_csp_addr = x, arp_mac_addr = take CSP_ETH_ALEN mac, arp_next = None\<rparr>"
    "e < n \<Longrightarrow> arp_csp_addr (arp_array a' e) = arp_csp_addr (arp_array a e) \<and> arp_mac_addr (arp_array a' e) = arp_mac_addr (arp_array a e)"
    by (auto simp: a' upd_arp_def Let_def)
  show "arp_ok a'"
    using ok room by (auto simp: a' arp_ok_def upd_arp_def Let_def n_def less_Suc_eq)
qed

text \<open>C33. The table of Ethernet addresses: the first Ethernet address from which a packet of a node is
  received stays its address. A lookup after a packet of node \<open>x\<close> gives the address of its sender if
  \<open>x\<close> was not known and one of the ten entries was free, and otherwise for every node what it gave
  before: an entry is never replaced or removed; nodes that are not in the table have the broadcast address.\<close>

theorem csp_eth_arp_spec:
  fixes mac :: "u8 list" and x :: u16
  assumes ok: "arp_ok a"
  defines "a' \<equiv> csp_eth_arp_set_addr mac x a"
  shows "arp_ok a' \<and> (arp_find y a = None \<longrightarrow> csp_eth_arp_get_addr y a = replicate 6 0xff)
    \<and> csp_eth_arp_get_addr y a' = (if y = x \<and> arp_find x a = None \<and> arp_used a < ARP_MAX_ENTRIES then take 6 mac else csp_eth_arp_get_addr y a)"
proof -
  have get: "csp_eth_arp_get_addr y b = (case arp_find y b of Some e \<Rightarrow> arp_mac_addr (arp_array b e) | None \<Rightarrow> replicate CSP_ETH_ALEN 0xff)"
    if "arp_ok b" for b y using arp_walk_eq [OF that, of y] by (simp add: csp_eth_arp_get_addr_def split: option.splits)
  show ?thesis
  proof (cases "arp_find x a = None \<and> arp_used a < ARP_MAX_ENTRIES")
    case False
    then have "a' = a" using arp_walk_eq [OF ok, of x] by (auto simp: a'_def csp_eth_arp_set_addr_def arp_alloc_def split: option.splits)
    with ok get [OF ok, of y] False show ?thesis by auto
  next
    case True
    note new = arp_new_entry [OF ok conjunct1 [OF True] conjunct2 [OF True], where mac = mac, folded a'_def]
    have old: "find (\<lambda>e. arp_csp_addr (arp_array a' e) = y) [0..<arp_used a] = arp_find y a"
      unfolding arp_find_def by (rule find_cong) (use new(3) in auto)
    have "find P (es @ [n]) = (case find P es of Some k \<Rightarrow> Some k | None \<Rightarrow> if P n then Some n else None)" for P es and n :: nat
      by (induction es) auto
    then have fnd: "arp_find y a' = (case arp_find y a of Some k \<Rightarrow> Some k | None \<Rightarrow> if x = y then Some (arp_used a) else None)"
      using new(1,2) old unfolding arp_find_def [of y a'] by simp
    show ?thesis
      using new(4) True get [OF new(4), of y] get [OF ok, of y] fnd new(2,3) arp_find_less [of y a] by (auto split: option.splits)
  qed
qed

theorem csp_eth_arp_spec_witness:
  "csp_eth_arp_get_addr 5 (csp_eth_arp_set_addr [2, 0, 0, 0, 0, 9] 5 (eth_static (drv (example_wired ())))) = [2, 0, 0, 0, 0, 9]"
proof -
  let ?a = "eth_static (drv (example_wired ()))"
  have a: "arp_ok ?a" "arp_find 5 ?a = None" "arp_used ?a = 0"
    by (simp_all add: example_wired_def with_drv_def upd_iface_def arp_ok_def arp_find_def)
  from csp_eth_arp_spec [OF a(1), where x = 5 and y = 5 and mac = "[2, 0, 0, 0, 0, 9]"] a show ?thesis by simp
qed

section \<open>Packets in reception\<close>

abbreviation eth_head :: "addr \<Rightarrow> addr option \<Rightarrow> 'e node \<Rightarrow> 'e node" where
  "eth_head d h s \<equiv> upd_eth d (\<lambda>c. c\<lparr>eth_pbufs := h\<rparr>) s"

definition csp_eth_pbuf_free :: "addr \<Rightarrow> addr \<Rightarrow> bool \<Rightarrow> bool \<Rightarrow> 'e node \<Rightarrow> 'e node option" where
  "csp_eth_pbuf_free d buffer buf_free isr s = pbuf_free_loop (eth_head d) buffer buf_free isr None (eth_pbufs (eth s d)) s"

definition csp_eth_pbuf_cleanup :: "addr \<Rightarrow> u32 \<Rightarrow> bool \<Rightarrow> 'e node \<Rightarrow> 'e node option" where
  "csp_eth_pbuf_cleanup d now isr s = pbuf_cleanup_loop (eth_head d) now isr None (eth_pbufs (eth s d)) s"

definition csp_eth_pbuf_new :: "addr \<Rightarrow> u32 \<Rightarrow> u32 \<Rightarrow> bool \<Rightarrow> 'e node \<Rightarrow> (addr option \<times> 'e node) option" where
  "csp_eth_pbuf_new d ident now isr s =
     (case csp_eth_pbuf_cleanup d now isr s of
        None \<Rightarrow> None
      | Some s \<Rightarrow>
          let (pk, s) = in_core (if isr then csp_buffer_get_isr else csp_buffer_get) s
          in case pk of
               None \<Rightarrow> Some (None, s)
             | Some p \<Rightarrow>
                 let s = upd_pkt p (\<lambda>k. k\<lparr>last_used := now, cfpid := ident, frame_length := 0, pkt_next := eth_pbufs (eth s d)\<rparr>) s
                 in Some (Some p, eth_head d (Some p) s))"

definition csp_eth_pbuf_find :: "addr \<Rightarrow> u32 \<Rightarrow> bool \<Rightarrow> 'e node \<Rightarrow> (addr option \<times> 'e node) option" where
  "csp_eth_pbuf_find d ident isr s =
     (case pbuf_find_loop (\<lambda>k. cfpid k = ident) (eth_pbufs (eth s d)) s of
        None \<Rightarrow> None
      | Some (Some p, s) \<Rightarrow> Some (Some p, s)
      | Some (None, s) \<Rightarrow> csp_eth_pbuf_new d ident (csp_ms (core s)) isr s)"

section \<open>Reception\<close>

definition eth_frame_err :: "addr \<Rightarrow> 'e node \<Rightarrow> int \<times> 'e node" where
  "eth_frame_err i s = (CSP_ERR_INVAL, upd_iface i (\<lambda>k. k\<lparr>if_frame := if_frame k + 1\<rparr>) s)"

text \<open>A packet that is complete.\<close>

definition eth_complete :: "addr \<Rightarrow> addr \<Rightarrow> u8 list \<Rightarrow> bool \<Rightarrow> addr \<Rightarrow> 'e node \<Rightarrow> (int \<times> 'e node) option" where
  "eth_complete i d shost isr p s =
     (case csp_eth_pbuf_free d p False isr s of
        None \<Rightarrow> None
      | Some s \<Rightarrow>
          let (r, s) = in_core (csp_id_strip p) s
          in if r \<noteq> 0
             then Some (CSP_ERR_INVAL, pbuf_buffer_free isr p (upd_iface i (\<lambda>k. k\<lparr>if_frame := if_frame k + 1\<rparr>) s))
             else let s = upd_eth_static (csp_eth_arp_set_addr shost (id_src (pkt_id (pkt s p)))) s
                  in if id_dst (pkt_id (pkt s p)) \<noteq> if_addr (iface s i) \<and> \<not> eth_promisc (eth s d)
                     then map_option (\<lambda>s. (CSP_ERR_NONE, pbuf_buffer_free isr p s)) (csp_eth_pbuf_free d p True isr s)
                     else Some (CSP_ERR_NONE, csp_qfifo_write (Some p) (Some i) isr s))"

text \<open>A segment for the packet \<open>p\<close>.\<close>

definition eth_segment :: "addr \<Rightarrow> addr \<Rightarrow> mem \<Rightarrow> u16 \<Rightarrow> u16 \<Rightarrow> bool \<Rightarrow> addr \<Rightarrow> 'e node \<Rightarrow> (int \<times> 'e node) option" where
  "eth_segment i d eth_frame seg_size flen isr p s =
     (let s = (if frame_length (pkt s p) = 0
               then upd_pkt p (\<lambda>k. k\<lparr>frame_length := flen, rx_count := 0\<rparr>) (snd (in_core (csp_id_setup_rx p) s))
               else s)
      in if flen \<noteq> frame_length (pkt s p) then map_option (eth_frame_err i) (csp_eth_pbuf_free d p True isr s)
         else if unat (rx_count (pkt s p)) + unat seg_size > unat (frame_length (pkt s p))
         then map_option (eth_frame_err i) (csp_eth_pbuf_free d p True isr s)
         else let s = on_core (write_frame p (unat (rx_count (pkt s p))) (mem_read eth_frame ETH_HEADER (unat seg_size))) s;
                  s = upd_pkt p (\<lambda>k. k\<lparr>rx_count := rx_count k + seg_size\<rparr>) s
              in if rx_count (pkt s p) < frame_length (pkt s p) then Some (CSP_ERR_NONE, s)
                 else eth_complete i d (mem_read eth_frame ETH_SHOST CSP_ETH_ALEN) isr p s)"

definition csp_eth_rx :: "addr \<Rightarrow> mem \<Rightarrow> u32 \<Rightarrow> bool \<Rightarrow> 'e node \<Rightarrow> (int \<times> 'e node) option" where
  "csp_eth_rx i eth_frame received_len isr s =
     (if be_word (mem_read eth_frame ETH_TYPE 2) \<noteq> CSP_ETH_TYPE_CSP then Some (eth_frame_err i s)
      else if unat received_len < ETH_HEADER then Some (eth_frame_err i s)
      else let d = the (interface_data (iface s i));
               (packet_id, seg_size, flen) = csp_if_eth_unpack_header eth_frame
           in if seg_size = 0 \<or> seg_size > CSP_ETH_FRAME_SIZE_MAX then Some (eth_frame_err i s)
              else if seg_size > flen then Some (eth_frame_err i s)
              else if ETH_HEADER + unat seg_size > unat received_len then Some (eth_frame_err i s)
              else if flen = 0 \<or> unat flen > CSP_BUFFER_SIZE then Some (eth_frame_err i s)
              else case csp_eth_pbuf_find d packet_id isr s of
                     None \<Rightarrow> None
                   | Some (None, s) \<Rightarrow> Some (CSP_ERR_INVAL, upd_iface i (\<lambda>k. k\<lparr>if_drop := if_drop k + 1\<rparr>) s)
                   | Some (Some p, s) \<Rightarrow> eth_segment i d eth_frame seg_size flen isr p s)"

section \<open>Transmission\<close>

type_synonym 'e eth_fn = "nat \<Rightarrow> addr option \<Rightarrow> mem \<Rightarrow> 'e \<Rightarrow> int \<times> 'e"

text \<open>The frame for the segment at \<open>offset\<close>, in the transmit buffer.\<close>

definition eth_seg_size :: "u16 \<Rightarrow> u16 \<Rightarrow> u16 \<Rightarrow> u16" where
  "eth_seg_size mtu flen offset = (let mx = mtu - of_nat ETH_HEADER; n = flen - offset in if n > mx then mx else n)"

definition eth_fill :: "addr \<Rightarrow> addr \<Rightarrow> u16 \<Rightarrow> u16 \<Rightarrow> u16 \<Rightarrow> 'e node \<Rightarrow> mem \<Rightarrow> mem" where
  "eth_fill d p packet_id offset seg_size s m =
     (let m = mem_write m ETH_TYPE (be_bytes 2 CSP_ETH_TYPE_CSP);
          m = mem_write m ETH_DHOST (csp_eth_arp_get_addr (id_dst (pkt_id (pkt s p))) (eth_static (drv s)));
          m = mem_write m ETH_SHOST (take CSP_ETH_ALEN (if_mac (eth s d)));
          m = the (snd (csp_eth_pack_header packet_id (id_src (pkt_id (pkt s p))) seg_size (frame_length (pkt s p)) (Some m)))
      in mem_write m ETH_HEADER (take (unat seg_size) (drop (unat offset) (frame_bytes (core s) p (unat offset + unat seg_size)))))"

definition eth_tx_call :: "'e eth_fn \<Rightarrow> addr \<Rightarrow> addr \<Rightarrow> 'e node \<Rightarrow> int \<times> 'e node" where
  "eth_tx_call tf i d s =
     (let (r, e) = tf (the (eth_tx_func (eth s d))) (driver_data (iface s i)) (tx_buf (eth s d)) (hw (drv s)) in (r, upd_hw (\<lambda>_. e) s))"

partial_function (option) eth_tx_loop :: "'e eth_fn \<Rightarrow> addr \<Rightarrow> addr \<Rightarrow> addr \<Rightarrow> u16 \<Rightarrow> u16 \<Rightarrow> 'e node \<Rightarrow> (int \<times> 'e node) option" where
  "eth_tx_loop tf i d p packet_id offset s =
     (if offset < frame_length (pkt s p)
      then let seg_size = eth_seg_size (tx_mtu (eth s d)) (frame_length (pkt s p)) offset;
               s = upd_eth d (\<lambda>k. k\<lparr>tx_buf := eth_fill d p packet_id offset seg_size s (tx_buf k)\<rparr>) s;
               (r, s) = eth_tx_call tf i d s
           in if r \<noteq> CSP_ERR_NONE then Some (CSP_ERR_DRIVER, upd_iface i (\<lambda>k. k\<lparr>if_tx_error := if_tx_error k + 1\<rparr>) s)
              else eth_tx_loop tf i d p packet_id (offset + seg_size) s
      else Some (CSP_ERR_NONE, free_pkt p s))"

definition csp_eth_tx :: "'e eth_fn \<Rightarrow> addr \<Rightarrow> u16 \<Rightarrow> addr \<Rightarrow> bool \<Rightarrow> 'e node \<Rightarrow> (int \<times> 'e node) option" where
  "csp_eth_tx tf i via p from_me s =
     (let d = the (interface_data (iface s i))
      in if id_dst (pkt_id (pkt s p)) = if_addr (iface s i) then Some (CSP_ERR_NONE, csp_qfifo_write (Some p) (Some i) False s)
         else let s = on_core (csp_id_prepend p) s;
                  s = upd_eth_static (\<lambda>a. a\<lparr>eth_packet_id := eth_packet_id a + 1\<rparr>) s
              in eth_tx_loop tf i d p (eth_packet_id (eth_static (drv s))) 0 s)"

end
