(* ===== verification/CSP_Eth_Tx.thy ===== *)
theory CSP_Eth_Tx
  imports CSP_Eth
begin

text \<open>
  Sending over Ethernet: the transmit function returns unless the frame size leaves no room
  for a segment, it keeps the contract of the transmit functions, and what it gives to the
  driver are the segments of the frame.
\<close>

section \<open>Segments\<close>

lemma eth_seg_size_pos:
  assumes "offset < flen" "mtu \<noteq> of_nat ETH_HEADER"
  shows "0 < unat (eth_seg_size mtu flen offset)" "unat (offset + eth_seg_size mtu flen offset) = unat offset + unat (eth_seg_size mtu flen offset)"
    "unat offset + unat (eth_seg_size mtu flen offset) \<le> unat flen"
proof -
  let ?n = "eth_seg_size mtu flen offset"
  have d: "unat (flen - offset) = unat flen - unat offset" using assms(1) by (subst unat_diff_small) (simp_all add: word_less_nat_alt word_le_nat_alt)
  have le: "unat ?n \<le> unat flen - unat offset" using d by (auto simp: eth_seg_size_def Let_def word_less_nat_alt)
  have "?n \<noteq> 0" using assms by (auto simp: eth_seg_size_def Let_def split: if_splits)
  then show "0 < unat ?n" by (simp add: unat_gt_0)
  show "unat offset + unat ?n \<le> unat flen" using le assms(1) by (simp add: word_less_nat_alt)
  then show "unat (offset + ?n) = unat offset + unat ?n" using unsigned_less [of flen, where ?'a = nat] by (simp add: unat_add_small)
qed

lemma eth_seg_size_min:
  assumes "offset < flen" "of_nat ETH_HEADER < mtu"
  shows "unat (eth_seg_size mtu flen offset) = min (unat mtu - ETH_HEADER) (unat flen - unat offset)"
proof -
  have "unat (flen - offset) = unat flen - unat offset" "unat (mtu - of_nat ETH_HEADER) = unat mtu - ETH_HEADER"
    using assms by (simp_all add: unat_diff_small word_less_nat_alt word_le_nat_alt)
  then show ?thesis by (auto simp: eth_seg_size_def Let_def word_less_nat_alt)
qed

text \<open>One round: what it leaves alone.\<close>

lemma eth_tx_round:
  assumes "eth_tx_call tf i d (upd_eth d (\<lambda>k. k\<lparr>tx_buf := g (tx_buf k)\<rparr>) s) = (r, s')"
  shows "core s' = core s" "iflist s' = iflist s" "tx_mtu (eth s' d) = tx_mtu (eth s d)" "if_mac (eth s' d) = if_mac (eth s d)" "eth_static (drv s') = eth_static (drv s)"
    "own drv_held f s' = own drv_held f s" "tx_frame s s'"
    "(r, hw (drv s')) = tf (the (eth_tx_func (eth s d))) (driver_data (iface s i)) (g (tx_buf (eth s d))) (hw (drv s))"
  using assms by (auto simp: eth_tx_call_def Let_def split: prod.splits intro: tx_frame_trans [OF upd_eth_simps(8) upd_hw_simps(5)])

text \<open>Ownership and return, for every driver.\<close>

lemma eth_tx_loop_contract:
  assumes "own drv_held (tok p f) s" "tx_mtu (eth s d) \<noteq> of_nat ETH_HEADER"
  shows "\<exists>r s'. eth_tx_loop tf i d p packet_id offset s = Some (r, s')
    \<and> own drv_held (if r = 0 then f else tok p f) s' \<and> tx_frame s s' \<and> pkts_kept {p} s s'"
  using assms
proof (induction "unat (frame_length (pkt s p)) - unat offset" arbitrary: offset s rule: less_induct)
  case less
  show ?case
  proof (cases "offset < frame_length (pkt s p)")
    case False
    then have "eth_tx_loop tf i d p packet_id offset s = Some (CSP_ERR_NONE, free_pkt p s)" by (subst eth_tx_loop.simps) simp
    then show ?thesis using own_free [OF less.prems(1)] pkts_kept_free [OF less.prems(1)] by simp
  next
    case True
    let ?n = "eth_seg_size (tx_mtu (eth s d)) (frame_length (pkt s p)) offset"
    obtain r s1 where call: "eth_tx_call tf i d (upd_eth d (\<lambda>k. k\<lparr>tx_buf := eth_fill d p packet_id offset ?n s (tx_buf k)\<rparr>) s) = (r, s1)" by fastforce
    note fr = eth_tx_round [OF call]
    have kept: "pkts_kept {p} s s1" by (simp add: pkts_kept_def fr(1))
    show ?thesis
    proof (cases "r = CSP_ERR_NONE")
      case ok: True
      have step: "eth_tx_loop tf i d p packet_id offset s = eth_tx_loop tf i d p packet_id (offset + ?n) s1"
        using True call ok by (subst eth_tx_loop.simps) (simp add: Let_def)
      note sz = eth_seg_size_pos [OF True less.prems(2)]
      have "unat (frame_length (pkt s1 p)) - unat (offset + ?n) < unat (frame_length (pkt s p)) - unat offset"
        using sz True by (simp add: fr(1) word_less_nat_alt)
      from less.hyps [OF this] obtain r' s' where s': "eth_tx_loop tf i d p packet_id (offset + ?n) s1 = Some (r', s')"
          "own drv_held (if r' = 0 then f else tok p f) s'" "tx_frame s1 s'" "pkts_kept {p} s1 s'"
        using less.prems fr(3,6) by auto
      then show ?thesis using step tx_frame_trans [OF fr(7)] pkts_kept_trans [OF kept] by auto
    next
      case bad: False
      let ?s2 = "upd_iface i (\<lambda>k. k\<lparr>if_tx_error := if_tx_error k + 1\<rparr>) s1"
      have "eth_tx_loop tf i d p packet_id offset s = Some (CSP_ERR_DRIVER, ?s2)" using True call bad by (subst eth_tx_loop.simps) (simp add: Let_def)
      moreover have "tx_frame s ?s2" using tx_frame_trans [OF fr(7) tx_frame_counters(1)] .
      ultimately show ?thesis using less.prems(1) fr(6) kept by (simp add: pkts_kept_def)
    qed
  qed
qed

lemma eth_tx_loop_stuck:
  assumes "eth_tx_loop tf i d p packet_id offset s = Some y"
  shows "\<not> (tx_mtu (eth s d) = of_nat ETH_HEADER \<and> offset < frame_length (pkt s p) \<and> (\<forall>n v m e. fst (tf n v m e) = CSP_ERR_NONE))"
  using assms
proof (induction rule: eth_tx_loop.raw_induct [rotated 1, consumes 1, case_names step])
  case (step loop tf i d p packet_id offset s y)
  show ?case
  proof (rule notI, elim conjE)
    assume mtu: "tx_mtu (eth s d) = of_nat ETH_HEADER" and more: "offset < frame_length (pkt s p)" and ok: "\<forall>n v m e. fst (tf n v m e) = CSP_ERR_NONE"
    let ?n = "eth_seg_size (tx_mtu (eth s d)) (frame_length (pkt s p)) offset"
    have zero: "?n = 0" using more mtu by (simp add: eth_seg_size_def Let_def word_gt_0)
    obtain r s1 where call: "eth_tx_call tf i d (upd_eth d (\<lambda>k. k\<lparr>tx_buf := eth_fill d p packet_id offset ?n s (tx_buf k)\<rparr>) s) = (r, s1)" by fastforce
    note fr = eth_tx_round [OF call]
    have "r = CSP_ERR_NONE" using fr(8) ok by (metis fst_conv)
    then have "loop tf i d p packet_id (offset + ?n) s1 = Some y" using step(2) more call by (simp add: Let_def)
    from step(1) [OF this] show False using zero mtu more ok fr(1,3) by simp
  qed
qed

text \<open>C32. \<open>csp_eth_tx\<close> returns, whatever the driver does, and keeps the contract of the transmit functions: it gives
  up its reference to the packet exactly when it reports success and changes no other packet in use; except when
  the configured frame size is that of the header, 22: then a segment has no bytes, and with a driver that
  takes every frame the loop never ends.\<close>

theorem csp_eth_tx_returns:
  assumes own: "own drv_held (tok p f) s" and len: "unat (pkt_length (pkt s p)) \<le> CSP_BUFFER_SIZE"
  shows "if id_dst (pkt_id (pkt s p)) = if_addr (iface s i) \<or> tx_mtu (eth s (the (interface_data (iface s i)))) \<noteq> 22
    then \<exists>r s'. csp_eth_tx tf i via p fm s = Some (r, s') \<and> own drv_held (if r = 0 then f else tok p f) s' \<and> tx_frame s s' \<and> pkts_kept {p} s s'
    else (\<forall>n v m e. fst (tf n v m e) = CSP_ERR_NONE) \<longrightarrow> csp_eth_tx tf i via p fm s = None"
proof (cases "id_dst (pkt_id (pkt s p)) = if_addr (iface s i)")
  case True
  then show ?thesis
    using own_qfifo_write [of drv_held "Some p" f s] qfifo_write_frames [OF own] own by (auto simp: csp_eth_tx_def Let_def)
next
  case False
  define d where "d = the (interface_data (iface s i))"
  define s1 where "s1 = on_core (csp_id_prepend p) s"
  define s2 where "s2 = upd_eth_static (\<lambda>a. a\<lparr>eth_packet_id := eth_packet_id a + 1\<rparr>) s1"
  have run: "csp_eth_tx tf i via p fm s = eth_tx_loop tf i d p (eth_packet_id (eth_static (drv s2))) 0 s2"
    using False by (simp add: csp_eth_tx_def Let_def d_def s1_def s2_def)
  have own2: "own drv_held (tok p f) s2" and mtu: "tx_mtu (eth s2 d) = tx_mtu (eth s d)" and kept: "pkts_kept {p} s s2"
    using own by (auto simp: s2_def s1_def on_core_def own_core_cong pkts_kept_def csp_id_prepend_other)
  have fr: "tx_frame s s2" unfolding s2_def s1_def on_core_def by (rule tx_frame_trans [OF tx_frame_upds(7) upd_eth_static_simps(8)])
  show ?thesis
  proof (cases "tx_mtu (eth s d) = 22")
    case True
    have "0 < frame_length (pkt s2 p)"
    proof -
      have "unat (frame_length (pkt s2 p)) = unat (pkt_length (pkt s p)) + hdr_size (core s)"
        using len hdr_size_cases [of "core s"] by (auto simp: s2_def s1_def on_core_def csp_id_prepend_eq unat_add_small)
      then have "frame_length (pkt s2 p) \<noteq> 0" using hdr_size_cases [of "core s"] by auto
      then show ?thesis by (simp add: word_gt_0)
    qed
    then have "(\<forall>n v m e. fst (tf n v m e) = CSP_ERR_NONE) \<Longrightarrow> eth_tx_loop tf i d p (eth_packet_id (eth_static (drv s2))) 0 s2 = None"
      using eth_tx_loop_stuck [of tf i d p "eth_packet_id (eth_static (drv s2))" 0 s2] True mtu
      by (cases "eth_tx_loop tf i d p (eth_packet_id (eth_static (drv s2))) 0 s2") auto
    then show ?thesis using run True False by (simp add: d_def)
  next
    case mtu22: False
    from eth_tx_loop_contract [OF own2, of d tf i "eth_packet_id (eth_static (drv s2))" 0] mtu mtu22
    obtain r s' where "csp_eth_tx tf i via p fm s = Some (r, s')" "own drv_held (if r = 0 then f else tok p f) s'" "tx_frame s2 s'" "pkts_kept {p} s2 s'"
      using run by auto
    then show ?thesis using mtu22 tx_frame_trans [OF fr] pkts_kept_trans [OF kept] by (auto simp: d_def)
  qed
qed

theorem csp_eth_tx_returns_witness:
  "csp_eth_tx (\<lambda>_ _ m e. (0, e)) 1 0 0 True (upd_pkt 0 (\<lambda>k. k\<lparr>pkt_id := example_id\<lparr>id_dst := 77\<rparr>\<rparr>) (upd_eth 0 (\<lambda>k. k\<lparr>tx_mtu := 22\<rparr>) (example_wired ()))) = None"
proof -
  let ?s = "upd_pkt 0 (\<lambda>k. k\<lparr>pkt_id := example_id\<lparr>id_dst := 77\<rparr>\<rparr>) (upd_eth 0 (\<lambda>k. k\<lparr>tx_mtu := 22\<rparr>) (example_wired ()))"
  have own: "own drv_held (tok 0 (\<lambda>_. 0)) ?s" using example_wired_facts(1) [of "()"] by simp
  have len: "unat (pkt_length (pkt ?s 0)) \<le> CSP_BUFFER_SIZE" by (simp add: example_wired_facts(4) example_sender_pkt fresh_packet_def zero_packet_def)
  have a: "if_addr (iface ?s 1) \<noteq> 77" by (simp add: example_wired_def upd_iface_def with_drv_def) (subst example_sender_frame(1), simp add: example_node_def example_iflist_def blank_iface_def)
  have m: "tx_mtu (eth ?s (the (interface_data (iface ?s 1)))) = 22" by (simp add: example_wired_facts(2,9) del: One_nat_def)
  have g: "id_dst (pkt_id (pkt ?s 0)) \<noteq> if_addr (iface ?s 1)" using a by simp
  from csp_eth_tx_returns [OF own len, where i = 1 and tf = "\<lambda>_ _ m e. (0, e)" and via = 0 and fm = True] g m show ?thesis by (simp only: simp_thms if_False fst_conv)
qed

section \<open>Frames on the wire\<close>

text \<open>The bytes of a frame: header and segment.\<close>

definition eth_image :: "u8 list \<Rightarrow> u8 list \<Rightarrow> u16 \<Rightarrow> u16 \<Rightarrow> u16 \<Rightarrow> u8 list \<Rightarrow> u8 list" where
  "eth_image dhost shost packet_id src flen seg =
     dhost @ shost @ be_bytes 2 CSP_ETH_TYPE_CSP @ be_bytes 2 packet_id @ be_bytes 2 src @ be_bytes 2 (of_nat (length seg) :: u16) @ be_bytes 2 flen @ seg"

text \<open>What a driver sends of the transmit buffer.\<close>

definition eth_sent :: "mem \<Rightarrow> u8 list" where
  "eth_sent m = mem_read m 0 (ETH_HEADER + unat (be_word (mem_read m ETH_SEG_SIZE 2) :: u16))"

fun eth_pieces :: "nat \<Rightarrow> u8 list \<Rightarrow> u8 list list" where
  "eth_pieces mx bs = (if mx = 0 \<or> bs = [] then [] else take mx bs # eth_pieces mx (drop mx bs))"

declare eth_pieces.simps [simp del]

lemma arp_get_length:
  assumes "\<And>e. length (arp_mac_addr (arp_array a e)) = 6"
  shows "length (csp_eth_arp_get_addr x a) = 6"
  using assms by (simp add: csp_eth_arp_get_addr_def split: option.splits)

lemma eth_fill_sent:
  assumes dh: "length (csp_eth_arp_get_addr (id_dst (pkt_id (pkt s p))) (eth_static (drv s))) = 6" and sh: "length (if_mac (eth s d)) = 6"
    and seg: "seg = take (unat n) (drop (unat offset) (frame_bytes (core s) p (unat offset + unat n)))"
  shows "eth_sent (eth_fill d p packet_id offset n s m) = eth_image (csp_eth_arp_get_addr (id_dst (pkt_id (pkt s p))) (eth_static (drv s)))
    (if_mac (eth s d)) packet_id (id_src (pkt_id (pkt s p))) (frame_length (pkt s p)) seg"
proof -
  let ?m = "eth_fill d p packet_id offset n s m"
  have len: "length seg = unat n" by (simp add: seg frame_bytes_def split_beta)
  note def = eth_fill_def Let_def csp_eth_pack_header_def option.case option.sel snd_conv seg [symmetric]
  have parts: "mem_read ?m 0 6 = csp_eth_arp_get_addr (id_dst (pkt_id (pkt s p))) (eth_static (drv s))" "mem_read ?m 6 6 = if_mac (eth s d)"
      "mem_read ?m 12 2 = be_bytes 2 CSP_ETH_TYPE_CSP" "mem_read ?m 14 2 = be_bytes 2 packet_id" "mem_read ?m 16 2 = be_bytes 2 (id_src (pkt_id (pkt s p)))"
      "mem_read ?m 18 2 = be_bytes 2 n" "mem_read ?m 20 2 = be_bytes 2 (frame_length (pkt s p))" "mem_read ?m 22 (unat n) = seg"
    using dh sh len by (simp_all add: def mem_simps)
  have "mem_read ?m 0 (6 + (6 + (2 + (2 + (2 + (2 + (2 + unat n))))))) = mem_read ?m 0 6 @ mem_read ?m 6 6 @ mem_read ?m 12 2 @ mem_read ?m 14 2
      @ mem_read ?m 16 2 @ mem_read ?m 18 2 @ mem_read ?m 20 2 @ mem_read ?m 22 (unat n)"
    by (simp only: mem_read_append) simp
  moreover have "6 + (6 + (2 + (2 + (2 + (2 + (2 + unat n)))))) = ETH_HEADER + unat n" by simp
  ultimately show ?thesis unfolding eth_sent_def parts(6) be_word_be_bytes_16 by (simp only: parts eth_image_def) (simp add: len)
qed

lemma eth_tx_loop_sent:
  assumes tf: "\<And>n v m e. fst (tf n v m e) = CSP_ERR_NONE \<and> wire (snd (tf n v m e)) = wire e @ [eth_sent m]"
  assumes "of_nat ETH_HEADER < tx_mtu (eth s d)" "length (csp_eth_arp_get_addr (id_dst (pkt_id (pkt s p))) (eth_static (drv s))) = 6"
    "length (if_mac (eth s d)) = 6" "offset \<le> frame_length (pkt s p)"
  shows "\<exists>s'. eth_tx_loop tf i d p packet_id offset s = Some (CSP_ERR_NONE, s') \<and> wire (hw (drv s')) = wire (hw (drv s)) @
    map (eth_image (csp_eth_arp_get_addr (id_dst (pkt_id (pkt s p))) (eth_static (drv s))) (if_mac (eth s d)) packet_id (id_src (pkt_id (pkt s p))) (frame_length (pkt s p)))
      (eth_pieces (unat (tx_mtu (eth s d)) - ETH_HEADER) (drop (unat offset) (frame_bytes (core s) p (unat (frame_length (pkt s p))))))"
  using assms(2-)
proof (induction "unat (frame_length (pkt s p)) - unat offset" arbitrary: offset s rule: less_induct)
  case less
  let ?fl = "frame_length (pkt s p)" and ?fb = "frame_bytes (core s) p" and ?mx = "unat (tx_mtu (eth s d)) - ETH_HEADER"
  have lfb: "length (?fb k) = k" "take j (?fb k) = ?fb (min j k)" for j k by (simp_all add: frame_bytes_def split_beta)
  show ?case
  proof (cases "offset < ?fl")
    case False
    then have "drop (unat offset) (?fb (unat ?fl)) = []" by (simp add: lfb word_less_nat_alt)
    with False show ?thesis by (subst eth_tx_loop.simps) (simp add: eth_pieces.simps free_pkt_def on_core_def)
  next
    case True
    let ?n = "eth_seg_size (tx_mtu (eth s d)) ?fl offset"
    obtain r s1 where call: "eth_tx_call tf i d (upd_eth d (\<lambda>k. k\<lparr>tx_buf := eth_fill d p packet_id offset ?n s (tx_buf k)\<rparr>) s) = (r, s1)" by fastforce
    note fr = eth_tx_round [OF call]
    have mtu: "tx_mtu (eth s d) \<noteq> of_nat ETH_HEADER" using less.prems(1) by auto
    note sz = eth_seg_size_pos [OF True mtu]
    have mn: "unat ?n = min ?mx (unat ?fl - unat offset)" by (rule eth_seg_size_min [OF True less.prems(1)])
    have r: "r = CSP_ERR_NONE" "wire (hw (drv s1)) = wire (hw (drv s)) @ [eth_sent (eth_fill d p packet_id offset ?n s (tx_buf (eth s d)))]"
      using fr(8) tf by (metis fst_conv, metis snd_conv)
    have step: "eth_tx_loop tf i d p packet_id offset s = eth_tx_loop tf i d p packet_id (offset + ?n) s1"
      using True call r(1) by (subst eth_tx_loop.simps) (simp add: Let_def)
    have "unat (frame_length (pkt s1 p)) - unat (offset + ?n) < unat ?fl - unat offset" using sz True by (simp add: fr(1) word_less_nat_alt)
    moreover have "offset + ?n \<le> frame_length (pkt s1 p)" using sz by (simp add: fr(1) word_le_nat_alt)
    ultimately obtain s' where s': "eth_tx_loop tf i d p packet_id (offset + ?n) s1 = Some (CSP_ERR_NONE, s')" "wire (hw (drv s')) = wire (hw (drv s1)) @
    map (eth_image (csp_eth_arp_get_addr (id_dst (pkt_id (pkt s p))) (eth_static (drv s))) (if_mac (eth s d)) packet_id (id_src (pkt_id (pkt s p))) ?fl)
      (eth_pieces ?mx (drop (unat (offset + ?n)) (?fb (unat ?fl))))"
      using less.hyps [of s1 "offset + ?n"] less.prems fr(1-5) by auto
    let ?seg = "take (unat ?n) (drop (unat offset) (?fb (unat offset + unat ?n)))"
    have "?seg = take ?mx (drop (unat offset) (?fb (unat ?fl)))"
      using sz(3) mn lfb(2) [of "unat offset + unat ?n" "unat ?fl"] by (simp add: take_drop [symmetric] min_def) (auto simp: take_drop lfb)
    moreover have "drop (unat (offset + ?n)) (?fb (unat ?fl)) = drop ?mx (drop (unat offset) (?fb (unat ?fl)))"
      using sz(2) mn by (auto simp: min_def lfb add.commute)
    moreover have "?mx \<noteq> 0" using less.prems(1) by (simp add: word_less_nat_alt)
    moreover have "drop (unat offset) (?fb (unat ?fl)) \<noteq> []" using True by (simp add: lfb word_less_nat_alt)
    ultimately have "eth_pieces ?mx (drop (unat offset) (?fb (unat ?fl))) = ?seg # eth_pieces ?mx (drop (unat (offset + ?n)) (?fb (unat ?fl)))"
      by (subst eth_pieces.simps) simp
    then show ?thesis using step s' r(2) eth_fill_sent [OF less.prems(2,3) refl, where n = ?n and offset = offset and packet_id = packet_id and m = "tx_buf (eth s d)"] by simp
  qed
qed

text \<open>A packet for another node.\<close>

lemma csp_eth_tx_sent:
  assumes tf: "\<And>n v m e. fst (tf n v m e) = CSP_ERR_NONE \<and> wire (snd (tf n v m e)) = wire e @ [eth_sent m]"
    and d: "interface_data (iface s i) = Some d" and cfg: "22 < tx_mtu (eth s d)" "length (if_mac (eth s d)) = 6"
      "length (csp_eth_arp_get_addr (id_dst (pkt_id (pkt s p))) (eth_static (drv s))) = 6"
    and dst: "id_dst (pkt_id (pkt s p)) \<noteq> if_addr (iface s i)" and len: "unat (pkt_length (pkt s p)) \<le> CSP_BUFFER_SIZE"
  defines "frame \<equiv> id_bytes (core s) (pkt_id (pkt s p)) @ payload (core s) p"
  shows "\<exists>s'. csp_eth_tx tf i via p fm s = Some (CSP_ERR_NONE, s') \<and> wire (hw (drv s')) = wire (hw (drv s)) @
    map (eth_image (csp_eth_arp_get_addr (id_dst (pkt_id (pkt s p))) (eth_static (drv s))) (if_mac (eth s d)) (eth_packet_id (eth_static (drv s)) + 1)
      (id_src (pkt_id (pkt s p))) (of_nat (length frame))) (eth_pieces (unat (tx_mtu (eth s d)) - 22) frame)"
proof -
  define s2 where "s2 = upd_eth_static (\<lambda>a. a\<lparr>eth_packet_id := eth_packet_id a + 1\<rparr>) (on_core (csp_id_prepend p) s)"
  have run: "csp_eth_tx tf i via p fm s = eth_tx_loop tf i d p (eth_packet_id (eth_static (drv s)) + 1) 0 s2"
    using dst d by (simp add: csp_eth_tx_def Let_def s2_def) (simp add: on_core_def)
  have b: "unat (pkt_length (packet (core s) p)) + hdr_size (core s) < 2 ^ 16" using len hdr_size_cases [of "core s"] by auto
  have fb: "frame_bytes (core s2) p (unat (frame_length (pkt s2 p))) = frame" using frame_sent [OF b] by (simp add: s2_def on_core_def frame_def)
  then have fl: "length frame = unat (frame_length (pkt s2 p))" by (auto simp: frame_bytes_def split_beta)
  have same: "eth s2 d = eth s d" "hw (drv s2) = hw (drv s)" "pkt_id (pkt s2 p) = pkt_id (pkt s p)" by (simp_all add: s2_def on_core_def)
  have arp: "csp_eth_arp_get_addr x (eth_static (drv s2)) = csp_eth_arp_get_addr x (eth_static (drv s))" for x
  proof -
    have "arp_walk n x l c (a\<lparr>eth_packet_id := v\<rparr>) = arp_walk n x l c a" for n l c v and a :: csp_eth_static
      by (induction n arbitrary: l c) (simp_all split: option.splits)
    then show ?thesis by (simp add: csp_eth_arp_get_addr_def s2_def on_core_def split: option.splits)
  qed
  show ?thesis
    using eth_tx_loop_sent [of tf wire s2 d p 0 i "eth_packet_id (eth_static (drv s)) + 1", OF tf] cfg same arp fb fl by (simp add: run)
qed

end
