(* ===== verification/CSP_Eth_Rx.thy ===== *)
theory CSP_Eth_Rx
  imports CSP_Eth
begin

text \<open>
  The receiver of the Ethernet interface on arbitrary frames: the accounting of buffers, the
  list of packets in reception and the bounds of what is stored.
\<close>

section \<open>The list\<close>

interpretation eth_pb: pbuf_list "\<lambda>s. eth_pbufs (eth s d)" "eth_head d" for d
  by unfold_locales (simp_all, simp_all add: upd_eth_def own_def held_def queues_ok_def drv_held_def fun_eq_iff)

abbreviation eth_list :: "addr \<Rightarrow> 'e node \<Rightarrow> addr list \<Rightarrow> bool" where
  "eth_list d \<equiv> plist (\<lambda>s. eth_pbufs (eth s d))"

text \<open>Freeing a packet that is not in the list does nothing.\<close>

lemma eth_pbuf_free_absent:
  assumes "eth_list d s xs" "p \<notin> set xs"
  shows "csp_eth_pbuf_free d p bf isr s = Some s"
  using eth_pb.pbuf_free_walk [of s "eth_pbufs (eth s d)" xs "[]" p d bf isr None] assms
  by (simp add: csp_eth_pbuf_free_def plist_def hd_opt_def pbuf_free_loop.simps)

lemma eth_pbuf_new_effect:
  assumes own: "own drv_held (toks xs f) s" and l: "eth_list d s xs" and ap: "apart (pbuf_expired (csp_ms (core s)) (core s)) xs"
  defines "ys \<equiv> filter (\<lambda>p. \<not> pbuf_expired (csp_ms (core s)) (core s) p) xs"
  shows "\<exists>r s'. csp_eth_pbuf_new d ident (csp_ms (core s)) isr s = Some (r, s')
    \<and> (\<exists>c h. s' = eth_head d h (s\<lparr>core := c\<rparr>)) \<and> csp_conf (core s') = csp_conf (core s) \<and> refreshed s s' \<and>
    (case r of
      None \<Rightarrow> own drv_held (toks ys f) s' \<and> eth_list d s' ys \<and> (\<forall>q. q \<notin> set xs \<longrightarrow> pkt s' q = pkt s q) \<and> (\<forall>q. \<exists>n. pkt s' q = (pkt s q)\<lparr>pkt_next := n\<rparr>)
        \<and> (\<exists>t. csp_eth_pbuf_cleanup d (csp_ms (core s)) isr s = Some t \<and> length (free_list (core t)) < 2)
    | Some p \<Rightarrow> own drv_held (toks (p # ys) f) s' \<and> eth_list d s' (p # ys) \<and> p \<notin> set ys \<and> (p \<in> set xs \<or> buf_refs (core s) p = 0)
        \<and> last_used (pkt s' p) = csp_ms (core s) \<and> cfpid (pkt s' p) = ident \<and> frame_length (pkt s' p) = 0 \<and> (\<forall>n. pkt_mem (pkt s' p) n = 0)
        \<and> (\<forall>q. q \<notin> set xs \<and> q \<noteq> p \<longrightarrow> pkt s' q = pkt s q) \<and> (\<forall>q. q \<noteq> p \<longrightarrow> (\<exists>n. pkt s' q = (pkt s q)\<lparr>pkt_next := n\<rparr>)))"
proof -
  obtain s1 where cl: "csp_eth_pbuf_cleanup d (csp_ms (core s)) isr s = Some s1" and s1: "own drv_held (toks ys f) s1" "eth_list d s1 ys" "pkept (eth_head d) (set xs) s s1"
    using eth_pb.cleanup_effect [OF own l ap, of isr] unfolding ys_def csp_eth_pbuf_cleanup_def by blast
  obtain r s2 where get: "in_core (if isr then csp_buffer_get_isr else csp_buffer_get) s1 = (r, s2)" by fastforce
  note eff = get_effect [OF s1(1) get]
  obtain c1 h1 where s1c: "s1 = eth_head d h1 (s\<lparr>core := c1\<rparr>)" using s1(3) by (auto simp: pkept_def)
  show ?thesis
  proof (cases r)
    case None
    then have run: "csp_eth_pbuf_new d ident (csp_ms (core s)) isr s = Some (None, s2)" using cl get by (simp add: csp_eth_pbuf_new_def)
    have e: "length (free_list (core s1)) < 2" "own drv_held (toks ys f) s2" "packet (core s2) = packet (core s1)" using eff(4) None by simp_all
    have "eth_list d s2 ys" using s1(2) e(3) pchain_cong [of ys "core s2" "core s1"] by (subst eff(1)) (simp add: plist_def)
    moreover have "\<exists>c h. s2 = eth_head d h (s\<lparr>core := c\<rparr>)"
      by (intro exI [of _ "core s2"] exI [of _ h1]) (subst eff(1), simp add: s1c upd_eth_def)
    moreover have "refreshed s s2" using refreshed_kept [OF s1(3)] e(3) eff(3) by (simp add: refreshed_def)
    ultimately show ?thesis
      using run None e cl s1(3) eff(2) by (auto simp: pkept_def)
  next
    case (Some p)
    have e: "own drv_held (tok p (toks ys f)) s2" "buf_refs (core s1) p = 0" "packet (core s2) = (packet (core s1))(p := fresh_packet p)" using eff(4) Some by simp_all
    let ?k = "\<lambda>k. k\<lparr>last_used := csp_ms (core s), cfpid := ident, frame_length := 0, pkt_next := eth_pbufs (eth s2 d)\<rparr>"
    have run: "csp_eth_pbuf_new d ident (csp_ms (core s)) isr s = Some (Some p, eth_head d (Some p) (upd_pkt p ?k s2))"
      using cl get Some by (simp add: csp_eth_pbuf_new_def Let_def)
    note new = eth_pb.new_effect [where g = ?k, OF own l ap cl [unfolded csp_eth_pbuf_cleanup_def] e(1) [unfolded ys_def] e(2) eff(1) e(3) eff(2,3), folded ys_def]
    have fresh: "pkt_mem (fresh_packet p) n = 0" for n by (simp add: fresh_packet_def zero_packet_def)
    have rf: "refreshed s (eth_head d (Some p) (upd_pkt p ?k s2))" by (rule refreshed_next [of p]) (use new(7,8,10) in auto)
    show ?thesis unfolding run by (rule exI, rule exI, rule conjI [OF refl]) (simp only: option.case, use new fresh rf in simp)
  qed
qed

section \<open>Invariant\<close>

text \<open>A packet in reception: a new one, or one whose frame fits the buffer and has bytes missing.\<close>

definition eth_pkt_ok :: "csp_core \<Rightarrow> addr \<Rightarrow> bool" where
  "eth_pkt_ok c p \<longleftrightarrow> (let k = packet c p in frame_length k \<noteq> 0 \<longrightarrow>
     frame_begin k = (p, DATA_OFF - hdr_size c) \<and> unat (frame_length k) \<le> CSP_BUFFER_SIZE \<and> rx_count k < frame_length k)"

definition eth_inv :: "addr \<Rightarrow> (addr \<Rightarrow> nat) \<Rightarrow> addr set \<Rightarrow> addr list \<Rightarrow> 'e node \<Rightarrow> bool" where
  "eth_inv d f P xs s \<longleftrightarrow> own drv_held (toks xs f) s \<and> eth_list d s xs \<and> (\<forall>q\<in>set xs - P. eth_pkt_ok (core s) q)
     \<and> mem_bounded (core s) \<and> arp_ok (eth_static (drv s))"

text \<open>What reception leaves alone: the configuration, and every packet but those in \<open>P\<close>; no packet grows old.\<close>

definition eth_frame :: "addr set \<Rightarrow> 'e node \<Rightarrow> 'e node \<Rightarrow> bool" where
  "eth_frame P s s' \<longleftrightarrow> csp_conf (core s') = csp_conf (core s) \<and> (\<forall>j. interface_data (iface s' j) = interface_data (iface s j))
     \<and> (\<forall>q. q \<notin> P \<longrightarrow> pkt s' q = pkt s q) \<and> refreshed s s'"

lemma eth_frame_refl [simp]: "eth_frame P s s"
  by (simp add: eth_frame_def)

lemma eth_frame_trans: "eth_frame P a b \<Longrightarrow> eth_frame P b c \<Longrightarrow> eth_frame P a c"
  by (auto simp: eth_frame_def intro: refreshed_trans)

lemma eth_frame_upds [simp]:
  "p \<in> P \<Longrightarrow> last_used (g (pkt s p)) = last_used (pkt s p) \<or> last_used (g (pkt s p)) = csp_ms (core s) \<Longrightarrow> eth_frame P s (upd_pkt p g s)"
  "eth_frame P s (upd_iface i (\<lambda>k. k\<lparr>if_frame := h k\<rparr>) s)" "eth_frame P s (upd_eth_static u s)"
  "eth_frame P s (free_pkt p s)"
  by (simp_all add: eth_frame_def) (auto simp: upd_pkt_def on_core_def free_pkt_def refreshed_def)

lemma eth_inv_upd:
  assumes inv: "eth_inv d f P xs s" and P: "P \<subseteq> {p}" and g: "pkt_next (g (pkt s p)) = pkt_next (pkt s p)" "\<And>off. DATA_END \<le> off \<Longrightarrow> pkt_mem (g (pkt s p)) off = 0"
  shows "eth_inv d f {p} xs (upd_pkt p g s)"
proof -
  let ?s = "upd_pkt p g s"
  have "pchain (core ?s) (eth_pbufs (eth s d)) xs = pchain (core s) (eth_pbufs (eth s d)) xs"
    by (rule pchain_cong) (use g(1) in simp)
  moreover have "eth_pkt_ok (core ?s) q = eth_pkt_ok (core s) q" if "q \<noteq> p" for q
    using that by (simp add: eth_pkt_ok_def hdr_size_def upd_pkt_def on_core_def Let_def)
  ultimately show ?thesis
    using inv P g(2) by (auto simp: eth_inv_def plist_def mem_bounded_def)
qed

lemma eth_inv_ok: "eth_inv d f {p} xs s \<Longrightarrow> eth_pkt_ok (core s) p \<Longrightarrow> eth_inv d f {} xs s"
  unfolding eth_inv_def by blast

lemma eth_inv_iface [simp]: "eth_inv d f P xs (upd_iface i g s) = eth_inv d f P xs s"
  by (simp add: eth_inv_def plist_def)

text \<open>When only the links of packets and the pool change.\<close>

lemma eth_next_ok:
  assumes "\<exists>n. pkt s' q = (pkt s q)\<lparr>pkt_next := n\<rparr>" "csp_conf (core s') = csp_conf (core s)"
  shows "eth_pkt_ok (core s') q = eth_pkt_ok (core s) q" "pkt_mem (pkt s' q) = pkt_mem (pkt s q)"
  using assms by (auto simp: eth_pkt_ok_def hdr_size_def csp_version_def Let_def)

lemma eth_kept_frame: "pkept (eth_head d) P s s' \<Longrightarrow> eth_frame P s s'"
  using refreshed_kept [of "eth_head d" P s s'] unfolding pkept_def eth_frame_def by auto

lemma eth_kept_static: "pkept (eth_head d) P s s' \<Longrightarrow> eth_static (drv s') = eth_static (drv s)"
  unfolding pkept_def by auto

text \<open>Taking the packet out of the list, and back to the pool or into the hands of the receiver.\<close>

lemma eth_free_inv:
  assumes inv: "eth_inv d f {p} xs s" and p: "p \<in> set xs"
  shows "\<exists>s'. csp_eth_pbuf_free d p bf isr s = Some s' \<and> eth_frame (set xs) s s'
    \<and> eth_inv d (if bf then f else tok p f) {} (remove1 p xs) s' \<and> pkt s' p = pkt s p"
proof -
  from inv have i: "own drv_held (toks xs f) s" "eth_list d s xs" by (simp_all add: eth_inv_def)
  from eth_pb.free_effect [OF this p, of bf isr] obtain s' where s': "csp_eth_pbuf_free d p bf isr s = Some s'"
      "own drv_held (if bf then toks (remove1 p xs) f else tok p (toks (remove1 p xs) f)) s'" "eth_list d s' (remove1 p xs)"
      "pkept (eth_head d) (set xs) s s'" "pkt s' p = pkt s p"
    unfolding csp_eth_pbuf_free_def by auto
  have own: "own drv_held (toks (remove1 p xs) (if bf then f else tok p f)) s'" using s'(2) by (cases bf) (simp_all add: toks_tok)
  have nx: "\<exists>n. pkt s' q = (pkt s q)\<lparr>pkt_next := n\<rparr>" "csp_conf (core s') = csp_conf (core s)" for q using s'(4) by (simp_all add: pkept_def)
  have "p \<notin> set (remove1 p xs)" using i(2) by (simp add: plist_def)
  then have "eth_pkt_ok (core s') q" if "q \<in> set (remove1 p xs)" for q
    using that inv eth_next_ok(1) [OF nx] notin_set_remove1 [of q xs p] by (auto simp: eth_inv_def)
  moreover have "mem_bounded (core s')" using inv eth_next_ok(2) [OF nx] by (simp add: eth_inv_def mem_bounded_def)
  ultimately have "eth_inv d (if bf then f else tok p f) {} (remove1 p xs) s'"
    using own s'(3) inv eth_kept_static [OF s'(4)] by (simp add: eth_inv_def)
  with s' eth_kept_frame [OF s'(4)] show ?thesis by blast
qed

text \<open>What the receiver promises after it has found a packet of \<open>xs\<close>.\<close>

definition eth_done :: "addr \<Rightarrow> (addr \<Rightarrow> nat) \<Rightarrow> addr list \<Rightarrow> 'e node \<Rightarrow> (int \<times> 'e node) option \<Rightarrow> bool" where
  "eth_done d f xs s res \<longleftrightarrow> (\<exists>r s' ys. res = Some (r, s') \<and> eth_inv d f {} ys s' \<and> set ys \<subseteq> set xs \<and> eth_frame (set xs) s s')"

lemma eth_done_from: "eth_done d f xs t res \<Longrightarrow> eth_frame (set xs) s t \<Longrightarrow> eth_done d f xs s res"
  unfolding eth_done_def by (blast intro: eth_frame_trans)

lemma eth_reject_done:
  assumes "eth_inv d f {p} xs s" "p \<in> set xs"
  shows "eth_done d f xs s (map_option (eth_frame_err i) (csp_eth_pbuf_free d p True isr s))"
proof -
  obtain s' where s': "csp_eth_pbuf_free d p True isr s = Some s'" "eth_frame (set xs) s s'" "eth_inv d f {} (remove1 p xs) s'"
    using eth_free_inv [OF assms, of True isr] by auto
  have "eth_frame (set xs) s (upd_iface i (\<lambda>k. k\<lparr>if_frame := if_frame k + 1\<rparr>) s')" by (rule eth_frame_trans [OF s'(2)]) simp
  then show ?thesis using s' set_remove1_subset [of p xs] by (auto simp: eth_done_def eth_frame_err_def)
qed

lemma eth_drop_inv:
  assumes inv: "eth_inv d (tok p f) {} ys s"
  shows "eth_inv d f {} ys (free_pkt p s)"
proof -
  have pk: "packet (core (free_pkt p s)) = packet (core s)" "csp_conf (core (free_pkt p s)) = csp_conf (core s)" "drv (free_pkt p s) = drv s"
    by (simp_all add: free_pkt_def on_core_def fun_eq_iff)
  have "own drv_held (toks ys f) (free_pkt p s)" using inv own_free [of drv_held p "toks ys f" s] by (simp add: eth_inv_def toks_tok)
  moreover have "eth_pkt_ok (core (free_pkt p s)) = eth_pkt_ok (core s)" by (simp add: eth_pkt_ok_def hdr_size_def csp_version_def pk fun_eq_iff)
  ultimately show ?thesis
    using inv pk pchain_cong [of ys "core (free_pkt p s)" "core s"] by (simp add: eth_inv_def plist_def mem_bounded_def)
qed

lemma eth_queue_inv:
  assumes inv: "eth_inv d (tok p f) {} ys s"
  shows "eth_inv d f {} ys (csp_qfifo_write (Some p) (Some i) isr s)" "eth_frame P s (csp_qfifo_write (Some p) (Some i) isr s)"
proof -
  let ?s = "csp_qfifo_write (Some p) (Some i) isr s"
  note pk = qfifo_write_same [of "Some p" "Some i" isr s]
  have "own drv_held (toks ys f) ?s" using inv own_qfifo_write [of drv_held "Some p" "toks ys f" s] by (simp add: eth_inv_def toks_tok)
  moreover have "eth_pkt_ok (core ?s) = eth_pkt_ok (core s)" by (simp add: eth_pkt_ok_def hdr_size_def csp_version_def pk fun_eq_iff)
  ultimately show "eth_inv d f {} ys ?s"
    using inv pk pchain_cong [of ys "core ?s" "core s"] by (simp add: eth_inv_def plist_def mem_bounded_def)
  show "eth_frame P s ?s" by (simp add: eth_frame_def pk)
qed

lemma arp_ok_set: "arp_ok a \<Longrightarrow> arp_ok (csp_eth_arp_set_addr mac x a)"
proof (cases "arp_find x a = None \<and> arp_used a < ARP_MAX_ENTRIES")
  case True
  assume "arp_ok a"
  from arp_new_entry(4) [OF this, of x mac] True show ?thesis by simp
next
  case False
  assume ok: "arp_ok a"
  then have "csp_eth_arp_set_addr mac x a = a"
    using arp_walk_eq [OF ok, of x] False by (auto simp: csp_eth_arp_set_addr_def arp_alloc_def split: option.splits)
  with ok show ?thesis by simp
qed

section \<open>Segments\<close>

lemma eth_complete_done:
  assumes inv: "eth_inv d f {p} xs s" and p: "p \<in> set xs"
  shows "eth_done d f xs s (eth_complete i d shost isr p s)"
proof -
  obtain s1 where s1: "csp_eth_pbuf_free d p False isr s = Some s1" "eth_frame (set xs) s s1" "eth_inv d (tok p f) {} (remove1 p xs) s1"
    using eth_free_inv [OF inv p, of False isr] by auto
  have dist: "p \<notin> set (remove1 p xs)" "set (remove1 p xs) \<subseteq> set xs" using inv by (auto simp: eth_inv_def plist_def set_remove1_subset)
  obtain r s2 where strip: "in_core (csp_id_strip p) s1 = (r, s2)" by fastforce
  obtain g where g: "s2 = upd_pkt p g s1" "\<And>k. pkt_next (g k) = pkt_next k" "\<And>k. pkt_mem (g k) = pkt_mem k" "\<And>k. last_used (g k) = last_used k"
    using strip_upd [of p s1] strip by auto
  have "eth_inv d (tok p f) {p} (remove1 p xs) s2" unfolding g(1)
    by (rule eth_inv_upd [OF s1(3)]) (use g(2,3) s1(3) in \<open>auto simp: eth_inv_def mem_bounded_def\<close>)
  then have s2: "eth_inv d (tok p f) {} (remove1 p xs) s2" using dist by (simp add: eth_inv_def)
  have f2: "eth_frame (set xs) s s2" unfolding g(1) using p g(4) by (intro eth_frame_trans [OF s1(2)]) simp
  have drop: "eth_inv d f {} (remove1 p xs) (free_pkt p t)" "eth_frame (set xs) s (free_pkt p t)"
    if "eth_inv d (tok p f) {} (remove1 p xs) t" "eth_frame (set xs) s t" for t
    using eth_drop_inv [OF that(1)] eth_frame_trans [OF that(2), of "free_pkt p t"] by simp_all
  show ?thesis
  proof (cases "r = 0")
    case False
    let ?t = "upd_iface i (\<lambda>k. k\<lparr>if_frame := if_frame k + 1\<rparr>) s2"
    have "eth_complete i d shost isr p s = Some (CSP_ERR_INVAL, free_pkt p ?t)" using False by (simp add: eth_complete_def s1(1) strip pbuf_buffer_free_eq)
    moreover have "eth_inv d (tok p f) {} (remove1 p xs) ?t" "eth_frame (set xs) s ?t" using s2 eth_frame_trans [OF f2, of ?t] by simp_all
    ultimately show ?thesis using drop [of ?t] dist(2) unfolding eth_done_def by blast
  next
    case True
    let ?t = "upd_eth_static (csp_eth_arp_set_addr shost (id_src (pkt_id (pkt s2 p)))) s2"
    have t: "eth_inv d (tok p f) {} (remove1 p xs) ?t" "eth_frame (set xs) s ?t"
      using s2 eth_frame_trans [OF f2, of ?t] by (simp_all add: eth_inv_def plist_def arp_ok_set)
    show ?thesis
    proof (cases "id_dst (pkt_id (pkt ?t p)) \<noteq> if_addr (iface ?t i) \<and> \<not> eth_promisc (eth ?t d)")
      case other: True
      have "csp_eth_pbuf_free d p True isr ?t = Some ?t" using t(1) dist(1) by (intro eth_pbuf_free_absent [of d ?t "remove1 p xs"]) (simp_all add: eth_inv_def)
      then have "eth_complete i d shost isr p s = Some (CSP_ERR_NONE, free_pkt p ?t)"
        using True other by (simp add: eth_complete_def s1(1) strip pbuf_buffer_free_eq Let_def)
      then show ?thesis using drop [OF t] dist(2) unfolding eth_done_def by blast
    next
      case False
      then have "eth_complete i d shost isr p s = Some (CSP_ERR_NONE, csp_qfifo_write (Some p) (Some i) isr ?t)"
        using True by (auto simp: eth_complete_def s1(1) strip Let_def)
      then show ?thesis using eth_queue_inv [OF t(1)] eth_frame_trans [OF t(2)] dist(2) unfolding eth_done_def by blast
    qed
  qed
qed

lemma eth_segment_done:
  assumes inv: "eth_inv d f {} xs s" and p: "p \<in> set xs" and fl: "flen \<noteq> 0" "unat flen \<le> CSP_BUFFER_SIZE"
  shows "eth_done d f xs s (eth_segment i d m seg_size flen isr p s)"
proof -
  define s1 where "s1 = (if frame_length (pkt s p) = 0
      then upd_pkt p (\<lambda>k. k\<lparr>frame_length := flen, rx_count := 0\<rparr>) (snd (in_core (csp_id_setup_rx p) s)) else s)"
  have zero: "pkt_mem (pkt s p) off = 0" if "DATA_END \<le> off" for off using inv that by (simp add: eth_inv_def mem_bounded_def)
  have one: "eth_inv d f {} xs s1" "eth_frame (set xs) s s1" "frame_length (pkt s1 p) \<noteq> 0"
  proof -
    have "eth_inv d f {} xs s1 \<and> eth_frame (set xs) s s1 \<and> frame_length (pkt s1 p) \<noteq> 0"
    proof (cases "frame_length (pkt s p) = 0")
      case True
      then have s1: "s1 = upd_pkt p (\<lambda>k. k\<lparr>frame_begin := (p, DATA_OFF - hdr_size (core s)), frame_length := flen, rx_count := 0\<rparr>) s"
        unfolding s1_def setup_rx_effect snd_conv by (simp add: upd_pkt_comp)
      have "eth_inv d f {p} xs s1" unfolding s1 by (rule eth_inv_upd [OF inv]) (use zero in auto)
      moreover have "eth_pkt_ok (core s1) p" using fl by (simp add: s1 eth_pkt_ok_def word_gt_0)
      ultimately show ?thesis using eth_inv_ok p fl(1) by (auto simp: s1)
    qed (use inv in \<open>simp_all add: s1_def\<close>)
    then show "eth_inv d f {} xs s1" "eth_frame (set xs) s s1" "frame_length (pkt s1 p) \<noteq> 0" by simp_all
  qed
  have p1: "eth_inv d f {p} xs s1" using one(1) unfolding eth_inv_def by blast
  have ok: "frame_begin (pkt s1 p) = (p, DATA_OFF - hdr_size (core s1))" "unat (frame_length (pkt s1 p)) \<le> CSP_BUFFER_SIZE"
    using one(1,3) p by (auto simp: eth_inv_def eth_pkt_ok_def Let_def)
  have def: "eth_segment i d m seg_size flen isr p s =
    (if flen \<noteq> frame_length (pkt s1 p) \<or> unat (rx_count (pkt s1 p)) + unat seg_size > unat (frame_length (pkt s1 p)) then map_option (eth_frame_err i) (csp_eth_pbuf_free d p True isr s1)
     else let s = on_core (write_frame p (unat (rx_count (pkt s1 p))) (mem_read m ETH_HEADER (unat seg_size))) s1;
              s = upd_pkt p (\<lambda>k. k\<lparr>rx_count := rx_count k + seg_size\<rparr>) s
          in if rx_count (pkt s p) < frame_length (pkt s p) then Some (CSP_ERR_NONE, s)
             else eth_complete i d (mem_read m ETH_SHOST CSP_ETH_ALEN) isr p s)"
    by (simp only: eth_segment_def s1_def [symmetric] Let_def) auto
  show ?thesis
  proof (cases "flen \<noteq> frame_length (pkt s1 p) \<or> unat (rx_count (pkt s1 p)) + unat seg_size > unat (frame_length (pkt s1 p))")
    case True
    then show ?thesis unfolding def using eth_done_from [OF eth_reject_done [OF p1 p] one(2)] by simp
  next
    case False
    let ?o = "DATA_OFF - hdr_size (core s1)" and ?n = "unat (rx_count (pkt s1 p))"
    define s2 where "s2 = upd_pkt p (\<lambda>k. k\<lparr>pkt_mem := mem_write (pkt_mem k) (?o + ?n) (mem_read m ETH_HEADER (unat seg_size)), rx_count := rx_count k + seg_size\<rparr>) s1"
    have fits: "?o + ?n + length (mem_read m ETH_HEADER (unat seg_size)) \<le> DATA_END" using False ok(2) diff_le_self [of DATA_OFF "hdr_size (core s1)"] by auto
    have z1: "pkt_mem (pkt s1 p) off = 0" if "DATA_END \<le> off" for off using one(1) that by (simp add: eth_inv_def mem_bounded_def)
    have inv2: "eth_inv d f {p} xs s2" unfolding s2_def
      by (rule eth_inv_upd [OF one(1)]) (use z1 mem_write_bounded [OF _ fits] in auto)
    have f2: "eth_frame (set xs) s s2" unfolding s2_def using p by (intro eth_frame_trans [OF one(2)]) simp
    have st: "upd_pkt p (\<lambda>k. k\<lparr>rx_count := rx_count k + seg_size\<rparr>) (on_core (write_frame p ?n (mem_read m ETH_HEADER (unat seg_size))) s1) = s2"
      by (simp add: write_frame_upd [OF ok(1)] upd_pkt_comp s2_def)
    show ?thesis
    proof (cases "rx_count (pkt s2 p) < frame_length (pkt s2 p)")
      case True
      then have "eth_pkt_ok (core s2) p" using ok by (simp add: s2_def eth_pkt_ok_def)
      then have "eth_inv d f {} xs s2" by (rule eth_inv_ok [OF inv2])
      then show ?thesis unfolding def using False True f2 st by (auto simp: Let_def eth_done_def)
    next
      case full: False
      then have "eth_segment i d m seg_size flen isr p s = eth_complete i d (mem_read m ETH_SHOST CSP_ETH_ALEN) isr p s2"
        unfolding def Let_def st using False by simp
      then show ?thesis using eth_done_from [OF eth_complete_done [OF inv2 p] f2] by simp
    qed
  qed
qed

text \<open>The packet for an identifier: one in the list, a new one, or none when the pool is almost empty.\<close>

lemma eth_find_done:
  assumes inv: "eth_inv d f {} xs s" and ap: "apart (pbuf_expired (csp_ms (core s)) (core s)) xs"
  shows "\<exists>r s'. csp_eth_pbuf_find d ident isr s = Some (r, s') \<and> (\<exists>ys. eth_inv d f {} ys s' \<and> eth_frame (set xs \<union> set ys) s s'
    \<and> (\<forall>q\<in>set ys. q \<in> set xs \<or> buf_refs (core s) q = 0 \<and> last_used (pkt s' q) = csp_ms (core s)) \<and> (case r of None \<Rightarrow> True | Some p \<Rightarrow> p \<in> set ys))"
proof -
  have l: "own drv_held (toks xs f) s" "eth_list d s xs" using inv by (simp_all add: eth_inv_def)
  have fnd: "pbuf_find_loop (\<lambda>k. cfpid k = ident) (eth_pbufs (eth s d)) s = Some (case find (\<lambda>p. cfpid (pkt s p) = ident) xs of None \<Rightarrow> (None, s)
      | Some p \<Rightarrow> (Some p, upd_pkt p (\<lambda>k. k\<lparr>last_used := csp_ms (core s)\<rparr>) s))"
    by (rule pbuf_find_chain) (use l(2) in \<open>simp add: plist_def\<close>)
  show ?thesis
  proof (cases "find (\<lambda>p. cfpid (pkt s p) = ident) xs")
    case (Some p)
    let ?s = "upd_pkt p (\<lambda>k. k\<lparr>last_used := csp_ms (core s)\<rparr>) s"
    have p: "p \<in> set xs" using Some by (auto simp: find_Some_iff)
    have "eth_inv d f {p} xs ?s" by (rule eth_inv_upd [OF inv]) (use inv in \<open>auto simp: eth_inv_def mem_bounded_def\<close>)
    moreover have "eth_pkt_ok (core ?s) p" using inv p by (simp add: eth_inv_def eth_pkt_ok_def Let_def)
    ultimately have "eth_inv d f {} xs ?s" by (rule eth_inv_ok)
    then show ?thesis using fnd Some p by (auto simp: csp_eth_pbuf_find_def)
  next
    case None
    let ?ys = "filter (\<lambda>p. \<not> pbuf_expired (csp_ms (core s)) (core s) p) xs"
    obtain r s' where new: "csp_eth_pbuf_new d ident (csp_ms (core s)) isr s = Some (r, s')" "\<exists>c h. s' = eth_head d h (s\<lparr>core := c\<rparr>)" "csp_conf (core s') = csp_conf (core s)"
        "(case r of
      None \<Rightarrow> own drv_held (toks ?ys f) s' \<and> eth_list d s' ?ys \<and> (\<forall>q. q \<notin> set xs \<longrightarrow> pkt s' q = pkt s q) \<and> (\<forall>q. \<exists>n. pkt s' q = (pkt s q)\<lparr>pkt_next := n\<rparr>)
        \<and> (\<exists>t. csp_eth_pbuf_cleanup d (csp_ms (core s)) isr s = Some t \<and> length (free_list (core t)) < 2)
    | Some p \<Rightarrow> own drv_held (toks (p # ?ys) f) s' \<and> eth_list d s' (p # ?ys) \<and> p \<notin> set ?ys \<and> (p \<in> set xs \<or> buf_refs (core s) p = 0)
        \<and> last_used (pkt s' p) = csp_ms (core s) \<and> cfpid (pkt s' p) = ident \<and> frame_length (pkt s' p) = 0 \<and> (\<forall>n. pkt_mem (pkt s' p) n = 0)
        \<and> (\<forall>q. q \<notin> set xs \<and> q \<noteq> p \<longrightarrow> pkt s' q = pkt s q) \<and> (\<forall>q. q \<noteq> p \<longrightarrow> (\<exists>n. pkt s' q = (pkt s q)\<lparr>pkt_next := n\<rparr>)))"
        and fresh: "refreshed s s'"
      using eth_pbuf_new_effect [OF l ap, of ident isr] by blast
    have run: "csp_eth_pbuf_find d ident isr s = Some (r, s')" using fnd None new(1) by (simp add: csp_eth_pbuf_find_def)
    have st: "arp_ok (eth_static (drv s'))" "interface_data (iface s' j) = interface_data (iface s j)" for j
      using new(2) inv by (auto simp: eth_inv_def)
    have old: "eth_pkt_ok (core s) q" "pkt_mem (pkt s q') off = 0" if "q \<in> set xs" "DATA_END \<le> off" for q q' off
      using inv that by (auto simp: eth_inv_def mem_bounded_def)
    have "eth_inv d f {} (case r of None \<Rightarrow> ?ys | Some p \<Rightarrow> p # ?ys) s' \<and> eth_frame (set xs \<union> set (case r of None \<Rightarrow> ?ys | Some p \<Rightarrow> p # ?ys)) s s'
      \<and> (\<forall>q\<in>set (case r of None \<Rightarrow> ?ys | Some p \<Rightarrow> p # ?ys). q \<in> set xs \<or> buf_refs (core s) q = 0 \<and> last_used (pkt s' q) = csp_ms (core s))"
    proof (cases r)
      case none: None
      then have nx: "\<exists>n. pkt s' q = (pkt s q)\<lparr>pkt_next := n\<rparr>" for q using new(4) by simp
      show ?thesis
        using none new(3,4) st inv eth_next_ok [OF nx new(3)] fresh by (auto simp: eth_inv_def mem_bounded_def eth_frame_def)
    next
      case (Some p)
      have nx: "\<exists>n. pkt s' q = (pkt s q)\<lparr>pkt_next := n\<rparr>" if "q \<noteq> p" for q using new(4) Some that by simp
      have "eth_pkt_ok (core s') q" if "q \<in> set (p # ?ys)" for q
        using that new(4) Some eth_next_ok(1) [OF nx new(3)] inv by (cases "q = p") (auto simp: eth_inv_def eth_pkt_ok_def [of _ p])
      moreover have "pkt_mem (pkt s' q) off = 0" if "DATA_END \<le> off" for q off
        using that new(4) Some eth_next_ok(2) [OF nx new(3)] inv by (cases "q = p") (auto simp: eth_inv_def mem_bounded_def)
      ultimately show ?thesis using Some new(3,4) st fresh by (auto simp: eth_inv_def mem_bounded_def eth_frame_def)
    qed
    then show ?thesis using run by (cases r) (auto intro!: exI [of _ "case r of None \<Rightarrow> ?ys | Some p \<Rightarrow> p # ?ys"])
  qed
qed

text \<open>C31. The receiver of the Ethernet interface survives every frame, as long as no two neighbours in its list of
  packets in reception have timed out: for each content and length, \<open>csp_eth_rx\<close>
  returns, keeps the accounting of the buffers, leaves a well-formed list and
  table of addresses, stores nothing behind the end of a buffer, and changes no packet in use that it is
  not receiving. No packet of the list grows old by it, so if at most one has timed out before the frame, which
  implies the condition (\<open>one_expired_apart\<close>), then at most one has after it; the condition can fail only when time passes. The loop
  that removes timed-out packets is that of the CAN interface, and it does not keep the list where the condition fails.\<close>

theorem csp_eth_rx_robust:
  assumes inv: "eth_inv d f {} xs s" and ap: "apart (pbuf_expired (csp_ms (core s)) (core s)) xs"
    and d: "interface_data (iface s i) = Some d"
  shows "\<exists>r s' ys. csp_eth_rx i m len isr s = Some (r, s') \<and> eth_inv d f {} ys s'
    \<and> (\<forall>q. 0 < buf_refs (core s) q \<and> q \<notin> set xs \<longrightarrow> pkt s' q = pkt s q \<and> q \<notin> set ys)
    \<and> csp_ms (core s') = csp_ms (core s)
    \<and> (\<forall>q\<in>set ys. pbuf_expired (csp_ms (core s')) (core s') q \<longrightarrow> q \<in> set xs \<and> pbuf_expired (csp_ms (core s)) (core s) q)
    \<and> (one_expired (core s) xs \<longrightarrow> one_expired (core s') ys)"
proof -
  obtain ident n flen where un: "csp_if_eth_unpack_header m = (ident, n, flen)" by (cases "csp_if_eth_unpack_header m") auto
  show ?thesis
  proof (cases "be_word (mem_read m ETH_TYPE 2) \<noteq> CSP_ETH_TYPE_CSP \<or> unat len < ETH_HEADER \<or> n = 0 \<or> n > CSP_ETH_FRAME_SIZE_MAX \<or> n > flen
      \<or> ETH_HEADER + unat n > unat len \<or> flen = 0 \<or> unat flen > CSP_BUFFER_SIZE")
    case True
    then have "csp_eth_rx i m len isr s = Some (eth_frame_err i s)" using un by (auto simp: csp_eth_rx_def Let_def)
    then show ?thesis using inv by (auto simp: eth_frame_err_def one_expired_def intro!: exI [of _ xs])
  next
    case False
    obtain r s1 ys where r: "csp_eth_pbuf_find d ident isr s = Some (r, s1)" "eth_inv d f {} ys s1" "eth_frame (set xs \<union> set ys) s s1"
        "\<forall>q\<in>set ys. q \<in> set xs \<or> buf_refs (core s) q = 0 \<and> last_used (pkt s1 q) = csp_ms (core s)" "case r of None \<Rightarrow> True | Some p \<Rightarrow> p \<in> set ys"
      using eth_find_done [OF inv ap, of ident isr] by blast
    have old: "csp_ms (core s') = csp_ms (core s)
        \<and> (\<forall>q\<in>set zs. pbuf_expired (csp_ms (core s')) (core s') q \<longrightarrow> q \<in> set xs \<and> pbuf_expired (csp_ms (core s)) (core s) q)
        \<and> (one_expired (core s) xs \<longrightarrow> one_expired (core s') zs)" if "refreshed s1 s'" "set zs \<subseteq> set ys" for s' zs
    proof -
      have "\<forall>q\<in>set zs. q \<in> set xs \<or> last_used (pkt s1 q) = csp_ms (core s)" using r(4) that(2) by blast
      moreover have "refreshed s s1" using r(3) unfolding eth_frame_def by blast
      ultimately show ?thesis using refreshed_list [OF _ that(1)] by blast
    qed
    show ?thesis
    proof (cases r)
      case None
      then have "csp_eth_rx i m len isr s = Some (CSP_ERR_INVAL, upd_iface i (\<lambda>k. k\<lparr>if_drop := if_drop k + 1\<rparr>) s1)"
        using False un d r(1) by (simp add: csp_eth_rx_def Let_def)
      moreover have "eth_inv d f {} ys (upd_iface i (\<lambda>k. k\<lparr>if_drop := if_drop k + 1\<rparr>) s1)" using r(2) by simp
      moreover have "\<forall>q. 0 < buf_refs (core s) q \<and> q \<notin> set xs \<longrightarrow> pkt (upd_iface i (\<lambda>k. k\<lparr>if_drop := if_drop k + 1\<rparr>) s1) q = pkt s q \<and> q \<notin> set ys"
        using r(3,4) by (auto simp: eth_frame_def)
      ultimately show ?thesis using old [OF refreshed_upds(1) order.refl] by blast
    next
      case (Some p)
      then have run: "csp_eth_rx i m len isr s = eth_segment i d m n flen isr p s1" using False un d r(1) by (simp add: csp_eth_rx_def Let_def)
      have "eth_done d f ys s1 (eth_segment i d m n flen isr p s1)" by (rule eth_segment_done [OF r(2)]) (use r(5) Some False in auto)
      then obtain e s' zs where s': "csp_eth_rx i m len isr s = Some (e, s')" "eth_inv d f {} zs s'" "set zs \<subseteq> set ys" "eth_frame (set ys) s1 s'"
        unfolding run eth_done_def by blast
      moreover have "\<forall>q. 0 < buf_refs (core s) q \<and> q \<notin> set xs \<longrightarrow> pkt s' q = pkt s q \<and> q \<notin> set zs"
        using r(3,4) s'(3,4) by (auto simp: eth_frame_def)
      moreover have "refreshed s1 s'" using s'(4) by (simp add: eth_frame_def)
      ultimately show ?thesis using old [of s' zs] by blast
    qed
  qed
qed

text \<open>A frame of a packet of two bytes, on a node with no packet in reception.\<close>

theorem csp_eth_rx_robust_witness:
  "\<exists>r s' ys. csp_eth_rx 1 (mem_write (\<lambda>_. 0) 12 [0x88, 0xB5, 0, 1, 0, 2, 0, 8, 0, 8]) 60 False (example_wired ()) = Some (r, s')
     \<and> eth_inv 0 (tok 0 (\<lambda>_. 0)) {} ys s' \<and> pkt s' 0 = fresh_packet 0 \<and> one_expired (core s') ys"
proof -
  let ?s = "example_wired ()"
  have refs: "0 < buf_refs (core ?s) 0" using example_wired_facts(1) [of "()"] by (simp add: own_def tok_def)
  have arp: "arp_ok (eth_static (drv ?s))" by (simp add: example_wired_def with_drv_def upd_iface_def arp_ok_def)
  have inv: "eth_inv 0 (tok 0 (\<lambda>_. 0)) {} [] ?s"
    using example_wired_facts(1) [of "()"] example_bounded [of "()"] arp by (simp add: eth_inv_def plist_def example_wired_facts(9))
  have "one_expired (core ?s) []" by (simp add: one_expired_def)
  with csp_eth_rx_robust [OF inv _ example_wired_facts(2), where m = "mem_write (\<lambda>_. 0) 12 [0x88, 0xB5, 0, 1, 0, 2, 0, 8, 0, 8]" and len = 60 and isr = False] refs
  show ?thesis by (auto simp: example_wired_facts(4) example_sender_pkt)
qed

end
