(* ===== verification/CSP_Eth_Link.thy ===== *)
theory CSP_Eth_Link
  imports CSP_Eth_Tx CSP_Eth_Rx
begin

text \<open>
  An Ethernet between two nodes: what the receiver makes of the frames that the transmit function
  of another node gives to its driver.
\<close>

section \<open>Frames at the receiver\<close>

definition frame_mem :: "u8 list \<Rightarrow> mem" where
  "frame_mem bs = mem_write (\<lambda>_. 0) 0 bs"

fun eth_rx_frames :: "addr \<Rightarrow> bool \<Rightarrow> u8 list list \<Rightarrow> 'e node \<Rightarrow> 'e node option" where
  "eth_rx_frames i isr [] s = Some s"
| "eth_rx_frames i isr (bs # fs) s =
     (case csp_eth_rx i (frame_mem bs) (of_nat (length bs)) isr s of None \<Rightarrow> None | Some (r, s) \<Rightarrow> eth_rx_frames i isr fs s)"

definition eth_ident :: "u16 \<Rightarrow> u16 \<Rightarrow> u32" where
  "eth_ident packet_id src = push_bit 16 (ucast (le_word (be_bytes 2 packet_id) :: u16)) OR ucast (le_word (be_bytes 2 src) :: u16)"

lemma eth_image_parts:
  fixes pid src flen :: u16 and dh sh seg :: "u8 list"
  assumes dh: "length dh = 6" "length sh = 6" and n: "length seg < 2 ^ 16"
  defines "m \<equiv> frame_mem (eth_image dh sh pid src flen seg)"
  shows "mem_read m ETH_SHOST 6 = sh" "be_word (mem_read m ETH_TYPE 2) = CSP_ETH_TYPE_CSP"
    "csp_if_eth_unpack_header m = (eth_ident pid src, of_nat (length seg), flen)" "mem_read m ETH_HEADER (length seg) = seg"
    "length (eth_image dh sh pid src flen seg) = ETH_HEADER + length seg"
proof -
  have rd: "mem_read m a k = take k (drop a (eth_image dh sh pid src flen seg))" if "a + k \<le> length (eth_image dh sh pid src flen seg)" for a k
    using mem_write_inside [of 0 a k "eth_image dh sh pid src flen seg"] that by (simp add: m_def frame_mem_def)
  show len: "length (eth_image dh sh pid src flen seg) = ETH_HEADER + length seg" using dh by (simp add: eth_image_def)
  show "mem_read m ETH_SHOST 6 = sh" using rd [of 6 6] dh unfolding len by (simp add: eth_image_def)
  show "be_word (mem_read m ETH_TYPE 2) = CSP_ETH_TYPE_CSP" using rd [of 12 2] dh unfolding len by (simp add: eth_image_def)
  show "mem_read m ETH_HEADER (length seg) = seg" using rd [of 22 "length seg"] dh unfolding len by (simp add: eth_image_def)
  have "mem_read m 14 2 = be_bytes 2 pid" "mem_read m 16 2 = be_bytes 2 src" "mem_read m 18 2 = be_bytes 2 (of_nat (length seg) :: u16)" "mem_read m 20 2 = be_bytes 2 flen"
    using rd [of 14 2] rd [of 16 2] rd [of 18 2] rd [of 20 2] dh unfolding len by (simp_all add: eth_image_def)
  then show "csp_if_eth_unpack_header m = (eth_ident pid src, of_nat (length seg), flen)" by (simp add: csp_if_eth_unpack_header_def eth_ident_def)
qed

text \<open>A frame that is accepted goes to the packet with its identifier; one that announces too long a packet is rejected.\<close>

lemma csp_eth_rx_image:
  fixes pid src flen :: u16 and dh sh seg :: "u8 list"
  assumes dh: "length dh = 6" "length sh = 6" and n: "seg \<noteq> []" "length seg \<le> unat flen" and d: "interface_data (iface s i) = Some d"
  defines "bs \<equiv> eth_image dh sh pid src flen seg"
  shows "unat flen \<le> CSP_BUFFER_SIZE \<Longrightarrow> csp_eth_rx i (frame_mem bs) (of_nat (length bs)) isr s =
      (case csp_eth_pbuf_find d (eth_ident pid src) isr s of
         None \<Rightarrow> None
       | Some (None, s) \<Rightarrow> Some (CSP_ERR_INVAL, upd_iface i (\<lambda>k. k\<lparr>if_drop := if_drop k + 1\<rparr>) s)
       | Some (Some p, s) \<Rightarrow> eth_segment i d (frame_mem bs) (of_nat (length seg)) flen isr p s)"
    "unat flen > CSP_BUFFER_SIZE \<Longrightarrow> csp_eth_rx i (frame_mem bs) (of_nat (length bs)) isr s = Some (eth_frame_err i s)"
proof -
  have b: "length seg < 2 ^ 16" using n(2) unsigned_less [of flen, where ?'a = nat] by simp
  note im = eth_image_parts [OF dh b, of pid src flen, folded bs_def]
  have sz: "unat (of_nat (length seg) :: u16) = length seg" using b by (simp add: unat_of_nat_small)
  have rl: "unat (of_nat (length bs) :: u32) = ETH_HEADER + length seg" unfolding im(5) by (rule unat_of_nat_small) (use b in simp)
  have c: "of_nat (length seg) \<noteq> (0 :: u16)" "\<not> of_nat (length seg) > flen" "flen \<noteq> 0"
    using n sz by (auto simp: word_less_nat_alt)
  show "csp_eth_rx i (frame_mem bs) (of_nat (length bs)) isr s =
      (case csp_eth_pbuf_find d (eth_ident pid src) isr s of
         None \<Rightarrow> None
       | Some (None, s) \<Rightarrow> Some (CSP_ERR_INVAL, upd_iface i (\<lambda>k. k\<lparr>if_drop := if_drop k + 1\<rparr>) s)
       | Some (Some p, s) \<Rightarrow> eth_segment i d (frame_mem bs) (of_nat (length seg)) flen isr p s)" if "unat flen \<le> CSP_BUFFER_SIZE"
  proof -
    have "\<not> of_nat (length seg) > CSP_ETH_FRAME_SIZE_MAX" using that n(2) sz by (simp add: word_less_nat_alt)
    then show ?thesis using im c d sz rl that by (simp add: csp_eth_rx_def Let_def)
  qed
  show "csp_eth_rx i (frame_mem bs) (of_nat (length bs)) isr s = Some (eth_frame_err i s)" if "unat flen > CSP_BUFFER_SIZE"
    using im c d sz rl that by (simp add: csp_eth_rx_def Let_def)
qed

section \<open>A packet in reception\<close>

text \<open>At the receiver \<open>t\<close> the bytes \<open>got\<close> of a frame of \<open>flen\<close> bytes have arrived in the packet \<open>q\<close>.\<close>

definition eth_part :: "addr \<Rightarrow> (addr \<Rightarrow> nat) \<Rightarrow> u32 \<Rightarrow> addr \<Rightarrow> addr list \<Rightarrow> 'e node \<Rightarrow> nat \<Rightarrow> u8 list \<Rightarrow> 'e node \<Rightarrow> bool" where
  "eth_part d f ident q ys t flen got s \<longleftrightarrow> own drv_held (toks (q # ys) f) s \<and> eth_list d s (q # ys) \<and> csp_conf (core s) = csp_conf (core t)
     \<and> iflist s = iflist t \<and> qfifo_queue s = qfifo_queue t \<and> eth_static (drv s) = eth_static (drv t) \<and> eth_promisc (eth s d) = eth_promisc (eth t d) \<and> cfpid (pkt s q) = ident
     \<and> frame_begin (pkt s q) = (q, DATA_OFF - hdr_size (core t)) \<and> frame_length (pkt s q) = of_nat flen \<and> rx_count (pkt s q) = of_nat (length got)
     \<and> mem_read (pkt_mem (pkt s q)) (DATA_OFF - hdr_size (core t)) (length got) = got"

lemma eth_part_upd:
  assumes "eth_part d f ident q ys t flen got s" "pkt_next (g (pkt s q)) = pkt_next (pkt s q)" "cfpid (g (pkt s q)) = cfpid (pkt s q)"
    "frame_begin (g (pkt s q)) = frame_begin (pkt s q)" "frame_length (g (pkt s q)) = frame_length (pkt s q)" "rx_count (g (pkt s q)) = of_nat (length got')"
    "mem_read (pkt_mem (g (pkt s q))) (DATA_OFF - hdr_size (core t)) (length got') = got'"
  shows "eth_part d f ident q ys t flen got' (upd_pkt q g s)"
proof -
  have "pchain (core (upd_pkt q g s)) (eth_pbufs (eth s d)) (q # ys) = pchain (core s) (eth_pbufs (eth s d)) (q # ys)"
    by (rule pchain_cong) (use assms(2) in simp)
  then show ?thesis
    using assms by (simp add: eth_part_def plist_def) (simp add: upd_pkt_def on_core_def)
qed

lemma eth_part_segment:
  assumes pt: "eth_part d f ident q ys t flen got s" and fl: "length got + length seg \<le> flen" "flen \<le> CSP_BUFFER_SIZE" "flen \<noteq> 0"
    and m: "mem_read m ETH_HEADER (length seg) = seg"
  shows "\<exists>s2. eth_part d f ident q ys t flen (got @ seg) s2 \<and> eth_segment i d m (of_nat (length seg)) (of_nat flen) isr q s =
    (if length got + length seg < flen then Some (CSP_ERR_NONE, s2) else eth_complete i d (mem_read m ETH_SHOST CSP_ETH_ALEN) isr q s2)"
proof -
  let ?o = "DATA_OFF - hdr_size (core t)"
  have un: "unat (of_nat k :: u16) = k" if "k \<le> flen" for k using that fl(2) by (simp add: unat_of_nat_small)
  have fb: "frame_begin (pkt s q) = (q, ?o)" "frame_length (pkt s q) = of_nat flen" "rx_count (pkt s q) = of_nat (length got)"
    using pt by (simp_all add: eth_part_def)
  have nz: "of_nat flen \<noteq> (0 :: u16)" using un [of flen] fl(3) by auto
  have cnt: "(of_nat (length got) :: u16) + of_nat (length seg) = of_nat (length (got @ seg))" by simp
  define s2 where "s2 = upd_pkt q (\<lambda>k. k\<lparr>pkt_mem := mem_write (pkt_mem k) (?o + length got) seg, rx_count := rx_count k + of_nat (length seg)\<rparr>) s"
  have part2: "eth_part d f ident q ys t flen (got @ seg) s2" unfolding s2_def
  proof (rule eth_part_upd [OF pt])
    have "mem_read (pkt_mem (pkt s q)) ?o (length got) = got" using pt by (simp add: eth_part_def)
    then show "mem_read (pkt_mem ((pkt s q)\<lparr>pkt_mem := mem_write (pkt_mem (pkt s q)) (?o + length got) seg, rx_count := rx_count (pkt s q) + of_nat (length seg)\<rparr>)) ?o (length (got @ seg)) = got @ seg"
      by (simp add: mem_read_append mem_simps)
  qed (simp_all add: fb)
  have st: "upd_pkt q (\<lambda>k. k\<lparr>rx_count := rx_count k + of_nat (length seg)\<rparr>) (on_core (write_frame q (length got) seg) s) = s2"
    by (simp add: write_frame_upd [OF fb(1)] upd_pkt_comp s2_def)
  have rx: "rx_count (pkt s2 q) < frame_length (pkt s2 q) \<longleftrightarrow> length got + length seg < flen"
    using part2 un [of flen] un [of "length got + length seg"] fl(1) by (simp add: eth_part_def word_less_nat_alt)
  have "eth_segment i d m (of_nat (length seg)) (of_nat flen) isr q s =
      (if rx_count (pkt s2 q) < frame_length (pkt s2 q) then Some (CSP_ERR_NONE, s2) else eth_complete i d (mem_read m ETH_SHOST CSP_ETH_ALEN) isr q s2)"
    using fb nz un [of "length got"] un [of "length seg"] un [of flen] fl(1) m unfolding eth_segment_def
    by (simp only: Let_def if_False simp_thms st) (simp add: not_less)
  then show ?thesis using part2 rx by auto
qed

text \<open>A frame with the identifier of the newest packet goes to it.\<close>

lemma eth_part_find:
  assumes pt: "eth_part d f ident q ys t flen got s"
  shows "\<exists>s2. csp_eth_pbuf_find d ident isr s = Some (Some q, s2) \<and> eth_part d f ident q ys t flen got s2"
proof -
  have l: "pchain (core s) (eth_pbufs (eth s d)) (q # ys)" "cfpid (pkt s q) = ident" using pt by (simp_all add: eth_part_def plist_def)
  have "csp_eth_pbuf_find d ident isr s = Some (Some q, upd_pkt q (\<lambda>k. k\<lparr>last_used := csp_ms (core s)\<rparr>) s)"
    unfolding csp_eth_pbuf_find_def using pbuf_find_chain [OF l(1), where P = "\<lambda>k. cfpid k = ident"] l(2) by simp
  moreover have "eth_part d f ident q ys t flen got (upd_pkt q (\<lambda>k. k\<lparr>last_used := csp_ms (core s)\<rparr>) s)"
    by (rule eth_part_upd [OF pt]) (use pt in \<open>simp_all add: eth_part_def\<close>)
  ultimately show ?thesis by blast
qed

section \<open>Delivery\<close>

definition eth_delivered :: "addr \<Rightarrow> addr \<Rightarrow> (addr \<Rightarrow> nat) \<Rightarrow> addr list \<Rightarrow> csp_id \<Rightarrow> u8 list \<Rightarrow> u8 list \<Rightarrow> 'e node \<Rightarrow> 'e node \<Rightarrow> bool" where
  "eth_delivered i d f ys x pay shost t s' \<longleftrightarrow> own drv_held (toks ys f) s' \<and> eth_list d s' ys
     \<and> eth_static (drv s') = csp_eth_arp_set_addr shost (id_src x) (eth_static (drv t))
     \<and> (\<exists>q. queue_list (qfifo_queue s') = queue_list (qfifo_queue t) @ [\<lparr>qf_iface = Some i, qf_packet = Some q\<rparr>]
          \<and> pkt_id (pkt s' q) = x \<and> payload (core s') q = pay)"

lemma eth_part_complete:
  assumes pt: "eth_part d f ident q ys t (hdr_size (core t) + length pay) (id_bytes (core t) x @ pay) s" and fits: "id_fits (core t) x"
    and n: "hdr_size (core t) + length pay \<le> CSP_BUFFER_SIZE" and dst: "id_dst x = if_addr (iface t i) \<or> eth_promisc (eth t d)"
    and room: "length (queue_list (qfifo_queue t)) < q_size (qfifo_queue t)"
  shows "\<exists>s'. eth_complete i d shost isr q s = Some (CSP_ERR_NONE, s') \<and> eth_delivered i d f ys x pay shost t s'"
proof -
  let ?h = "hdr_size (core t)"
  have l: "own drv_held (toks (q # ys) f) s" "eth_list d s (q # ys)" using pt by (simp_all add: eth_part_def)
  obtain s1 where s1: "csp_eth_pbuf_free d q False isr s = Some s1" "own drv_held (tok q (toks ys f)) s1" "eth_list d s1 ys"
      "pkept (eth_head d) (set (q # ys)) s s1" "pkt s1 q = pkt s q"
    using eth_pb.free_effect [OF l, of q False isr] unfolding csp_eth_pbuf_free_def by auto
  have conf: "csp_conf (core s1) = csp_conf (core t)" and same: "iflist s1 = iflist t" "qfifo_queue s1 = qfifo_queue t"
      "eth_static (drv s1) = eth_static (drv t)" "eth_promisc (eth s1 d) = eth_promisc (eth t d)"
    using s1(4) pt by (auto simp: pkept_def eth_part_def upd_eth_def)
  have ver: "csp_version (core s1) = csp_version (core t)" using conf by (simp add: csp_version_def)
  have hd: "hdr_size (core s1) = ?h" "id_bytes (core s1) = id_bytes (core t)" "id_fits (core s1) = id_fits (core t)"
    using ver by (simp_all add: hdr_size_def id_bytes_def id_fits_def fun_eq_iff)
  have lb: "length (id_bytes (core t) x) = ?h" by simp
  have fb: "frame_begin (pkt s1 q) = (q, DATA_OFF - hdr_size (core s1))" "frame_length (pkt s1 q) = of_nat (hdr_size (core s1) + length pay)"
      "frame_bytes (core s1) q (hdr_size (core s1) + length pay) = id_bytes (core s1) x @ pay"
    using pt s1(5) hd lb by (simp_all add: eth_part_def frame_bytes_def)
  obtain c' where c': "csp_id_strip q (core s1) = (0, c')" "pkt_id (packet c' q) = x" "payload c' q = pay"
    using id_strip_received [OF fb(1,3,2)] n fits hd by auto
  obtain g where g: "snd (in_core (csp_id_strip q) s1) = upd_pkt q g s1" "\<And>k. pkt_next (g k) = pkt_next k" using strip_upd [of q s1] by blast
  have strip: "in_core (csp_id_strip q) s1 = (0, upd_pkt q g s1)" using g(1) c'(1) by (simp add: in_core_def)
  have core: "core (upd_pkt q g s1) = c'" using arg_cong [OF g(1), of core] c'(1) by (simp add: in_core_def)
  let ?s2 = "upd_eth_static (csp_eth_arp_set_addr shost (id_src x)) (upd_pkt q g s1)"
  have x2: "pkt_id (pkt ?s2 q) = x" "payload (core ?s2) q = pay" using c' core by simp_all
  have l2: "own drv_held (tok q (toks ys f)) ?s2" "eth_list d ?s2 ys"
  proof -
    show "own drv_held (tok q (toks ys f)) ?s2" using s1(2) by simp
    have "pchain (core ?s2) (eth_pbufs (eth s1 d)) ys = pchain (core s1) (eth_pbufs (eth s1 d)) ys" by (rule pchain_cong) (use g(2) in simp)
    then show "eth_list d ?s2 ys" using s1(3) by (simp add: plist_def)
  qed
  have q2: "qfifo_queue ?s2 = qfifo_queue t" using same(2) by (simp add: upd_pkt_def on_core_def)
  have "queue_ok (qfifo_queue ?s2)" using l2(1) by (simp only: own_def queues_ok_def)
  with room q2 obtain q' where q': "csp_qfifo_write (Some q) (Some i) isr ?s2 = ?s2\<lparr>qfifo_queue := q'\<rparr>"
      "queue_list q' = queue_list (qfifo_queue t) @ [\<lparr>qf_iface = Some i, qf_packet = Some q\<rparr>]"
    using qfifo_write_room [of ?s2 q i isr] by metis
  let ?s3 = "?s2\<lparr>qfifo_queue := q'\<rparr>"
  have "eth_complete i d shost isr q s = Some (CSP_ERR_NONE, ?s3)"
    using dst same x2(1) c' core q'(1) by (auto simp: eth_complete_def s1(1) strip Let_def)
  moreover have "own drv_held (toks ys f) ?s3" using own_qfifo_write [of drv_held "Some q" "toks ys f" ?s2 "Some i" isr] l2(1) q'(1) by simp
  moreover have "eth_list d ?s3 ys" using l2(2) by (simp add: plist_def)
  moreover have "eth_static (drv ?s3) = csp_eth_arp_set_addr shost (id_src x) (eth_static (drv t))" using same by simp
  ultimately show ?thesis using q'(2) x2 unfolding eth_delivered_def by (intro exI [of _ ?s3]) (auto simp: payload_def data_bytes_def)
qed

section \<open>All frames of a packet\<close>

text \<open>A receiver with two buffers left and no packet in reception with the identifier.\<close>

definition eth_idle :: "addr \<Rightarrow> addr \<Rightarrow> (addr \<Rightarrow> nat) \<Rightarrow> u32 \<Rightarrow> addr list \<Rightarrow> 'e node \<Rightarrow> bool" where
  "eth_idle i d f ident xs t \<longleftrightarrow> own drv_held (toks xs f) t \<and> eth_list d t xs \<and> apart (pbuf_expired (csp_ms (core t)) (core t)) xs
     \<and> interface_data (iface t i) = Some d \<and> 2 \<le> length (free_list (core t)) \<and> (\<forall>p\<in>set xs. cfpid (pkt t p) \<noteq> ident)
     \<and> length (queue_list (qfifo_queue t)) < q_size (qfifo_queue t)"

abbreviation eth_alive :: "'e node \<Rightarrow> addr list \<Rightarrow> addr list" where
  "eth_alive t xs \<equiv> filter (\<lambda>p. \<not> pbuf_expired (csp_ms (core t)) (core t) p) xs"

lemma free_list_mono:
  assumes "buf_inv c" "buf_inv c'" "\<And>p. buf_refs c p = 0 \<Longrightarrow> buf_refs c' p = 0"
  shows "length (free_list c) \<le> length (free_list c')"
proof -
  have "set (free_list b) = {p. p < CSP_BUFFER_COUNT \<and> buf_refs b p = 0}" if "buf_inv b" for b
    using that by (auto simp: buf_inv_def buf_refs_def unat_eq_0)
  then have "set (free_list c) \<subseteq> set (free_list c')" using assms by auto
  moreover have "distinct (free_list c)" "distinct (free_list c')" using assms(1,2) by (simp_all add: buf_inv_def)
  ultimately show ?thesis using card_mono [of "set (free_list c')" "set (free_list c)"] by (simp add: distinct_card)
qed

lemma eth_cleanup_free:
  assumes l: "own drv_held (toks xs f) t" "eth_list d t xs" "apart (pbuf_expired (csp_ms (core t)) (core t)) xs"
    and s: "csp_eth_pbuf_cleanup d (csp_ms (core t)) isr t = Some s"
  shows "length (free_list (core t)) \<le> length (free_list (core s))"
proof (rule free_list_mono)
  have e: "own drv_held (toks (eth_alive t xs) f) s" "pkept (eth_head d) (set xs) t s"
    using eth_pb.cleanup_effect [OF l, of isr] s unfolding csp_eth_pbuf_cleanup_def by auto
  show "buf_inv (core t)" "buf_inv (core s)" using l(1) e(1) by (simp_all add: own_def)
  have held: "held drv_held s = held drv_held t" using e(2) by (auto simp: pkept_def held_def upd_eth_def drv_held_def fun_eq_iff)
  fix p
  assume "buf_refs (core t) p = 0"
  then have "held drv_held t p = 0" "f p = 0" "count_list xs p = 0" using l(1) by (auto simp: own_def toks_def)
  then show "buf_refs (core s) p = 0" using e(1) held by (auto simp: own_def toks_def count_list_0_iff)
qed

text \<open>The first frame: a new packet, whose frame begins where the header fits before the data.\<close>

lemma eth_idle_first:
  assumes idle: "eth_idle i d f ident xs t" and fl: "flen \<noteq> 0" "flen \<le> CSP_BUFFER_SIZE"
  shows "\<exists>q s s1. csp_eth_pbuf_find d ident isr t = Some (Some q, s) \<and> eth_part d f ident q (eth_alive t xs) t flen [] s1
    \<and> eth_segment i d m n (of_nat flen) isr q s = eth_segment i d m n (of_nat flen) isr q s1"
proof -
  have l: "own drv_held (toks xs f) t" "eth_list d t xs" "apart (pbuf_expired (csp_ms (core t)) (core t)) xs" "2 \<le> length (free_list (core t))"
    using idle by (simp_all add: eth_idle_def)
  have "find (\<lambda>p. cfpid (pkt t p) = ident) xs = None" using idle by (auto simp: eth_idle_def find_None_iff)
  then have fnd: "csp_eth_pbuf_find d ident isr t = csp_eth_pbuf_new d ident (csp_ms (core t)) isr t"
    unfolding csp_eth_pbuf_find_def using pbuf_find_chain [of t "eth_pbufs (eth t d)" xs, where P = "\<lambda>k. cfpid k = ident"] l(2) by (simp add: plist_def)
  obtain r s where r: "csp_eth_pbuf_new d ident (csp_ms (core t)) isr t = Some (r, s)" and c: "\<exists>c h. s = eth_head d h (t\<lparr>core := c\<rparr>)"
      and conf: "csp_conf (core s) = csp_conf (core t)"
      and none: "r = None \<Longrightarrow> \<exists>s1. csp_eth_pbuf_cleanup d (csp_ms (core t)) isr t = Some s1 \<and> length (free_list (core s1)) < 2"
      and some: "\<And>q. r = Some q \<Longrightarrow> own drv_held (toks (q # eth_alive t xs) f) s \<and> eth_list d s (q # eth_alive t xs) \<and> cfpid (pkt s q) = ident \<and> frame_length (pkt s q) = 0"
    using eth_pbuf_new_effect [OF l(1-3), of ident isr] by (fastforce split: option.splits)
  have "r \<noteq> None" using none eth_cleanup_free [OF l(1-3), of isr] l(4) by fastforce
  then obtain q where q: "r = Some q" by blast
  note new = some [OF q]
  have hd: "hdr_size (core s) = hdr_size (core t)" using conf by (simp add: hdr_size_def csp_version_def)
  let ?g = "\<lambda>k. k\<lparr>frame_begin := (q, DATA_OFF - hdr_size (core s)), frame_length := of_nat flen, rx_count := 0\<rparr>"
  have st: "upd_pkt q (\<lambda>k. k\<lparr>frame_length := of_nat flen, rx_count := 0\<rparr>) (snd (in_core (csp_id_setup_rx q) s)) = upd_pkt q ?g s"
    unfolding setup_rx_effect snd_conv by (simp add: upd_pkt_comp)
  have nz: "(of_nat flen :: u16) \<noteq> 0" using unat_of_nat_small [of flen, where ?'a = 16] fl by auto
  have "eth_segment i d m n (of_nat flen) isr q s = eth_segment i d m n (of_nat flen) isr q (upd_pkt q ?g s)"
    using new nz unfolding eth_segment_def st by simp
  moreover have "eth_part d f ident q (eth_alive t xs) t flen [] (upd_pkt q ?g s)"
  proof -
    have "pchain (core (upd_pkt q ?g s)) (eth_pbufs (eth s d)) (q # eth_alive t xs) = pchain (core s) (eth_pbufs (eth s d)) (q # eth_alive t xs)"
      by (rule pchain_cong) simp
    moreover have "iflist s = iflist t" "qfifo_queue s = qfifo_queue t" "eth_static (drv s) = eth_static (drv t)" "eth_promisc (eth s d) = eth_promisc (eth t d)"
      using c by auto
    ultimately show ?thesis using new conf hd by (simp add: eth_part_def plist_def) (simp add: upd_pkt_def on_core_def)
  qed
  ultimately show ?thesis
    unfolding fnd r q by (intro exI [of _ q] exI [of _ s] exI [of _ "upd_pkt q ?g s"]) simp
qed

text \<open>The segments that are left, from a state in which the bytes \<open>got\<close> have arrived.\<close>

lemma eth_pieces_Cons: "mx \<noteq> 0 \<Longrightarrow> bs \<noteq> [] \<Longrightarrow> eth_pieces mx bs = take mx bs # eth_pieces mx (drop mx bs)"
  by (subst eth_pieces.simps) simp

lemma eth_pieces_Nil [simp]: "eth_pieces mx [] = []"
  by (subst eth_pieces.simps) simp

lemma eth_rest_received:
  fixes pid src :: u16 and dh sh :: "u8 list"
  assumes frame: "frame = id_bytes (core t) x @ pay" "length frame \<le> CSP_BUFFER_SIZE" and h: "length dh = 6" "length sh = 6" and mx: "mx \<noteq> 0"
    and d: "interface_data (iface t i) = Some d" and fits: "id_fits (core t) x" and dst: "id_dst x = if_addr (iface t i) \<or> eth_promisc (eth t d)"
    and room: "length (queue_list (qfifo_queue t)) < q_size (qfifo_queue t)"
  defines "img \<equiv> eth_image dh sh pid src (of_nat (length frame))"
  assumes "eth_part d f (eth_ident pid src) q ys t (length frame) got s" "got @ rest = frame" "rest \<noteq> []"
  shows "\<exists>s'. (case eth_segment i d (frame_mem (img (take mx rest))) (of_nat (length (take mx rest))) (of_nat (length frame)) isr q s of
      None \<Rightarrow> None | Some (r, s) \<Rightarrow> eth_rx_frames i isr (map img (eth_pieces mx (drop mx rest))) s) = Some s' \<and> eth_delivered i d f ys x pay sh t s'"
  using assms(11-)
proof (induction "length rest" arbitrary: rest got s rule: less_induct)
  case less
  let ?seg = "take mx rest" and ?n = "length frame"
  have len: "length got + length ?seg \<le> ?n" "length ?seg < 2 ^ 16" "?n \<noteq> 0" using frame(2) less.prems(2,3) by auto
  note im = eth_image_parts [OF h len(2), of pid src "of_nat ?n", folded img_def]
  obtain s2 where s2: "eth_part d f (eth_ident pid src) q ys t ?n (got @ ?seg) s2"
      "eth_segment i d (frame_mem (img ?seg)) (of_nat (length ?seg)) (of_nat ?n) isr q s =
        (if length got + length ?seg < ?n then Some (CSP_ERR_NONE, s2) else eth_complete i d sh isr q s2)"
    using eth_part_segment [OF less.prems(1) len(1) frame(2) len(3) im(4), of i isr] im(1) by auto
  show ?case
  proof (cases "length got + length ?seg < ?n")
    case True
    let ?rest = "drop mx rest" and ?seg2 = "take mx (drop mx rest)"
    have more: "?rest \<noteq> []" "length ?rest < length rest" "(got @ ?seg) @ ?rest = frame" using True mx less.prems(2,3) by auto
    obtain s3 where s3: "csp_eth_pbuf_find d (eth_ident pid src) isr s2 = Some (Some q, s3)" "eth_part d f (eth_ident pid src) q ys t ?n (got @ ?seg) s3"
      using eth_part_find [OF s2(1)] by blast
    have un: "unat (of_nat ?n :: u16) = ?n" by (rule unat_of_nat_small) (use frame(2) in simp)
    have seg2: "?seg2 \<noteq> []" "length ?seg2 \<le> unat (of_nat ?n :: u16)" using more mx un by auto
    have d2: "interface_data (iface s2 i) = Some d" using s2(1) d by (simp add: eth_part_def)
    have rx: "csp_eth_rx i (frame_mem (img ?seg2)) (of_nat (length (img ?seg2))) isr s2 =
        eth_segment i d (frame_mem (img ?seg2)) (of_nat (length ?seg2)) (of_nat ?n) isr q s3"
      using csp_eth_rx_image(1) [OF h seg2 d2, of pid src isr, folded img_def] un frame(2) s3(1) by simp
    from less.hyps [OF more(2) s3(2) more(3,1)] rx show ?thesis
      unfolding s2(2) eth_pieces_Cons [OF mx more(1)] using True by (simp del: drop_drop)
  next
    case False
    then have all: "got @ ?seg = frame" "drop mx rest = []" using less.prems(2) by auto
    have n: "hdr_size (core t) + length pay = ?n" using frame(1) by simp
    have "eth_part d f (eth_ident pid src) q ys t (hdr_size (core t) + length pay) (id_bytes (core t) x @ pay) s2" using s2(1) unfolding all(1) n frame(1) .
    from eth_part_complete [OF this fits _ dst room, of sh isr] n frame(2) obtain s' where
      "eth_complete i d sh isr q s2 = Some (CSP_ERR_NONE, s')" "eth_delivered i d f ys x pay sh t s'" by auto
    then show ?thesis unfolding s2(2) all(2) using False by simp
  qed
qed

lemma eth_frames_received:
  fixes pid src :: u16 and dh sh :: "u8 list"
  assumes idle: "eth_idle i d f (eth_ident pid src) xs t" and n: "hdr_size (core t) + length pay \<le> CSP_BUFFER_SIZE" and h: "length dh = 6" "length sh = 6" and mx: "mx \<noteq> 0"
    and fits: "id_fits (core t) x" and dst: "id_dst x = if_addr (iface t i) \<or> eth_promisc (eth t d)"
  defines "frame \<equiv> id_bytes (core t) x @ pay"
  shows "\<exists>t'. eth_rx_frames i isr (map (eth_image dh sh pid src (of_nat (length frame))) (eth_pieces mx frame)) t = Some t'
    \<and> eth_delivered i d f (eth_alive t xs) x pay sh t t'"
proof -
  let ?img = "eth_image dh sh pid src (of_nat (length frame))" and ?seg = "take mx frame" and ?n = "length frame"
  have n0: "?n = hdr_size (core t) + length pay" by (simp add: frame_def)
  then have len: "?n \<le> CSP_BUFFER_SIZE" "?n \<noteq> 0" using n hdr_size_cases [of "core t"] by auto
  then have ne: "frame \<noteq> []" by auto
  have d: "interface_data (iface t i) = Some d" and room: "length (queue_list (qfifo_queue t)) < q_size (qfifo_queue t)" using idle by (simp_all add: eth_idle_def)
  obtain q s s1 where s: "csp_eth_pbuf_find d (eth_ident pid src) isr t = Some (Some q, s)" "eth_part d f (eth_ident pid src) q (eth_alive t xs) t ?n [] s1"
      "eth_segment i d (frame_mem (?img ?seg)) (of_nat (length ?seg)) (of_nat ?n) isr q s = eth_segment i d (frame_mem (?img ?seg)) (of_nat (length ?seg)) (of_nat ?n) isr q s1"
    using eth_idle_first [OF idle len(2,1)] by blast
  have un: "unat (of_nat ?n :: u16) = ?n" by (rule unat_of_nat_small) (use len(1) in simp)
  have seg: "?seg \<noteq> []" "length ?seg \<le> unat (of_nat ?n :: u16)" using ne mx un by auto
  have "csp_eth_rx i (frame_mem (?img ?seg)) (of_nat (length (?img ?seg))) isr t = eth_segment i d (frame_mem (?img ?seg)) (of_nat (length ?seg)) (of_nat ?n) isr q s1"
    using csp_eth_rx_image(1) [OF h seg d, of pid src isr] un len(1) s(1,3) by simp
  then show ?thesis
    using eth_rest_received [OF frame_def [THEN meta_eq_to_obj_eq] len(1) h mx d fits dst room s(2), of frame isr] ne
    by (simp add: eth_pieces_Cons [OF mx ne])
qed

text \<open>A packet that is too long: every frame is rejected and counted.\<close>

lemma eth_pieces_parts: "seg \<in> set (eth_pieces mx bs) \<Longrightarrow> seg \<noteq> [] \<and> length seg \<le> length bs"
proof (induction mx bs rule: eth_pieces.induct)
  case (1 mx bs)
  then show ?case by (subst (asm) (2) eth_pieces.simps) (fastforce split: if_splits)
qed

lemma eth_frames_rejected:
  fixes pid src flen :: u16 and dh sh :: "u8 list"
  assumes h: "length dh = 6" "length sh = 6" and fl: "CSP_BUFFER_SIZE < unat flen" and d: "interface_data (iface t i) = Some d"
    and segs: "\<And>seg. seg \<in> set segs \<Longrightarrow> seg \<noteq> [] \<and> length seg \<le> unat flen"
  shows "eth_rx_frames i isr (map (eth_image dh sh pid src flen) segs) t = Some (upd_iface i (\<lambda>k. k\<lparr>if_frame := if_frame k + of_nat (length segs)\<rparr>) t)"
  using d segs
proof (induction segs arbitrary: t)
  case Nil
  then show ?case by (simp add: upd_iface_def)
next
  case (Cons seg segs)
  have seg: "seg \<noteq> []" "length seg \<le> unat flen" using Cons.prems(2) [of seg] by simp_all
  have "csp_eth_rx i (frame_mem (eth_image dh sh pid src flen seg)) (of_nat (length (eth_image dh sh pid src flen seg))) isr t = Some (eth_frame_err i t)"
    using csp_eth_rx_image(2) [OF h seg Cons.prems(1), of pid src isr] fl by simp
  then show ?case
    using Cons.IH [of "snd (eth_frame_err i t)"] Cons.prems by (simp add: eth_frame_err_def) (simp add: upd_iface_def add.commute add.left_commute)
qed

section \<open>From one node to the other\<close>

text \<open>C30. A packet that a node sends on the Ethernet arrives: when the driver takes every frame, the frames that
  \<open>csp_eth_tx\<close> gives to it, received by \<open>csp_eth_rx\<close> of a node that has two buffers left and no packet in
  reception with the same identifier, and that is addressed or promiscuous, put one packet into its
  router queue, with the identifier and the payload of the packet sent, and the sender's Ethernet address
  is learned. This needs header and payload together to fit 256 bytes: \<open>csp_eth_tx\<close> also sends packets
  with a longer payload, up to 256 bytes, and of these the receiver rejects and counts every frame.\<close>

theorem csp_eth_transfer:
  fixes wire :: "'e \<Rightarrow> u8 list list" and s :: "'e node" and t :: "'g node"
  assumes tf: "\<And>n v m e. fst (tf n v m e) = CSP_ERR_NONE \<and> wire (snd (tf n v m e)) = wire e @ [eth_sent m]"
    and d: "interface_data (iface s i) = Some d" "22 < tx_mtu (eth s d)" "length (if_mac (eth s d)) = 6"
      "length (csp_eth_arp_get_addr (id_dst (pkt_id (pkt s p))) (eth_static (drv s))) = 6"
    and x: "id_fits (core s) (pkt_id (pkt s p))" "unat (pkt_length (pkt s p)) \<le> CSP_BUFFER_SIZE" "id_dst (pkt_id (pkt s p)) \<noteq> if_addr (iface s i)"
    and ver: "csp_version (core t) = csp_version (core s)"
    and idle: "eth_idle j e f (eth_ident (eth_packet_id (eth_static (drv s)) + 1) (id_src (pkt_id (pkt s p)))) xs t"
    and dst: "id_dst (pkt_id (pkt s p)) = if_addr (iface t j) \<or> eth_promisc (eth t e)"
  shows "\<exists>s' frames. csp_eth_tx tf i via p fm s = Some (CSP_ERR_NONE, s') \<and> wire (hw (drv s')) = wire (hw (drv s)) @ frames \<and> frames \<noteq> []
    \<and> (if hdr_size (core s) + unat (pkt_length (pkt s p)) \<le> CSP_BUFFER_SIZE
       then \<exists>t'. eth_rx_frames j isr frames t = Some t' \<and> eth_delivered j e f (eth_alive t xs) (pkt_id (pkt s p)) (payload (core s) p) (if_mac (eth s d)) t t'
       else eth_rx_frames j isr frames t = Some (upd_iface j (\<lambda>k. k\<lparr>if_frame := if_frame k + of_nat (length frames)\<rparr>) t))"
proof -
  let ?x = "pkt_id (pkt s p)" and ?pay = "payload (core s) p" and ?mx = "unat (tx_mtu (eth s d)) - 22"
  let ?dh = "csp_eth_arp_get_addr (id_dst (pkt_id (pkt s p))) (eth_static (drv s))" and ?pid = "eth_packet_id (eth_static (drv s)) + 1"
  define frame where "frame = id_bytes (core s) ?x @ ?pay"
  define frames where "frames = map (eth_image ?dh (if_mac (eth s d)) ?pid (id_src ?x) (of_nat (length frame))) (eth_pieces ?mx frame)"
  obtain s' where s': "csp_eth_tx tf i via p fm s = Some (CSP_ERR_NONE, s')" "wire (hw (drv s')) = wire (hw (drv s)) @ frames"
    using csp_eth_tx_sent [of tf wire, OF tf d(1-4) x(3,2)] unfolding frames_def frame_def by blast
  have mx: "?mx \<noteq> 0" using d(2) by (simp add: word_less_nat_alt)
  have hd: "hdr_size (core t) = hdr_size (core s)" "id_bytes (core t) = id_bytes (core s)" "id_fits (core t) = id_fits (core s)"
    using ver by (simp_all add: hdr_size_def id_bytes_def id_fits_def fun_eq_iff)
  have n: "length frame = hdr_size (core s) + unat (pkt_length (pkt s p))" by (simp add: frame_def length_payload)
  have ne: "frame \<noteq> []" using n hdr_size_cases [of "core s"] by auto
  then have fne: "frames \<noteq> []" by (simp add: frames_def eth_pieces_Cons [OF mx])
  show ?thesis
  proof (cases "hdr_size (core s) + unat (pkt_length (pkt s p)) \<le> CSP_BUFFER_SIZE")
    case True
    then have "\<exists>t'. eth_rx_frames j isr frames t = Some t' \<and> eth_delivered j e f (eth_alive t xs) ?x ?pay (if_mac (eth s d)) t t'"
      using eth_frames_received [OF idle _ d(4,3) mx _ dst, of ?pay isr] x(1) hd unfolding frames_def frame_def by (simp add: length_payload)
    then show ?thesis using s' fne True by auto
  next
    case False
    have un: "unat (of_nat (length frame) :: u16) = length frame" by (rule unat_of_nat_small) (use n x(2) hdr_size_cases [of "core s"] in auto)
    have "interface_data (iface t j) = Some e" using idle by (simp add: eth_idle_def)
    from eth_frames_rejected [OF d(4,3) _ this, of "of_nat (length frame)" "eth_pieces ?mx frame" isr ?pid "id_src ?x"]
    have "eth_rx_frames j isr frames t = Some (upd_iface j (\<lambda>k. k\<lparr>if_frame := if_frame k + of_nat (length frames)\<rparr>) t)"
      using eth_pieces_parts [of _ ?mx frame] False n un by (simp add: frames_def)
    then show ?thesis using s' fne False by auto
  qed
qed

text \<open>An empty packet, at a node that is promiscuous.\<close>

theorem csp_eth_transfer_witness:
  "\<exists>s' t'. csp_eth_tx (\<lambda>_ _ m e. (CSP_ERR_NONE, e @ [eth_sent m])) 1 0 0 True (example_wired []) = Some (CSP_ERR_NONE, s')
     \<and> eth_rx_frames 1 False (hw (drv s')) (upd_eth 0 (\<lambda>k. k\<lparr>eth_promisc := True\<rparr>) (example_wired ())) = Some t'
     \<and> eth_delivered 1 0 (tok 0 (\<lambda>_. 0)) [] zero_id [] [2, 0, 0, 0, 0, 1] (upd_eth 0 (\<lambda>k. k\<lparr>eth_promisc := True\<rparr>) (example_wired ())) t'"
proof -
  let ?tf = "\<lambda>n v m e. (CSP_ERR_NONE, e @ [eth_sent m]) :: int \<times> u8 list list"
  let ?s = "example_wired [] :: u8 list list node" and ?t = "upd_eth 0 (\<lambda>k. k\<lparr>eth_promisc := True\<rparr>) (example_wired ()) :: unit node"
  have p: "pkt ?s 0 = fresh_packet 0" "free_list (core ?t) = [1..<15]" by (simp_all add: example_wired_facts(4) example_sender_pkt)
  have ver: "csp_version (core ?s) = 2" "csp_version (core ?t) = csp_version (core ?s)"
    using example_wired_facts(5) [of "[] :: u8 list list"] by (simp_all add: example_wired_facts(4))
  have x: "pkt_id (pkt ?s 0) = zero_id" "unat (pkt_length (pkt ?s 0)) = 0" by (simp_all add: p fresh_packet_def zero_packet_def)
  have pay: "payload (core ?s) 0 = []" using x(2) length_payload [of "core ?s" 0] by (metis length_0_conv)
  have fits: "id_fits (core ?s) (pkt_id (pkt ?s 0))" using ver(1) by (simp add: id_fits_def x zero_id_def id2_fits_def)
  have dst: "id_dst (pkt_id (pkt ?s 0)) \<noteq> if_addr (iface ?s 1)"
  proof -
    have "if_addr (iface ?s 1) = if_addr (iface example_sender 1)" by (simp add: example_wired_def with_drv_def upd_iface_def)
    also have "\<dots> = if_addr (ifaces example_iflist 1)" by (subst example_sender_frame(1)) (simp add: example_node_def)
    finally show ?thesis by (simp add: x zero_id_def example_iflist_def blank_iface_def)
  qed
  have arp: "length (csp_eth_arp_get_addr y (eth_static (drv ?s))) = 6" for y
    by (simp add: csp_eth_arp_get_addr_def example_wired_def with_drv_def upd_iface_def numeral_eq_Suc)
  have idle: "eth_idle 1 0 (tok 0 (\<lambda>_. 0)) b [] ?t" for b
    using p(2) example_wired_facts(1) [of "()"] by (simp add: eth_idle_def plist_def example_wired_facts del: One_nat_def)
  have hd: "hdr_size (core ?s) = 6" using ver(1) by (simp add: hdr_size_def)
  have eth: "22 < tx_mtu (eth ?s 0)" "length (if_mac (eth ?s 0)) = 6" "if_mac (eth ?s 0) = [2, 0, 0, 0, 0, 1]" by (simp_all add: example_wired_facts(9))
  from csp_eth_transfer [where wire = "\<lambda>e. e" and isr = False and tf = ?tf and via = 0 and fm = True,
      OF _ example_wired_facts(2) eth(1,2) arp fits _ dst ver(2) idle] x pay hd eth(3) show ?thesis
    by (fastforce simp: example_wired_facts(6))
qed

end
