(* ===== verification/CSP_I2c.thy ===== *)
theory CSP_I2c
  imports CSP_Frames
begin

text \<open>
  The I2C interface, \<^verbatim>\<open>src/src/interfaces/csp_if_i2c.c\<close>: one frame per packet. The driver's
  function gets the packet itself and frees it when it succeeds; it is a parameter \<open>tf\<close> that
  acts on the node.
\<close>

section \<open>Operations\<close>

type_synonym 'e i2c_fn = "nat \<Rightarrow> addr option \<Rightarrow> addr \<Rightarrow> 'e node \<Rightarrow> int \<times> 'e node"

definition csp_i2c_tx :: "'e i2c_fn \<Rightarrow> addr \<Rightarrow> u16 \<Rightarrow> addr \<Rightarrow> bool \<Rightarrow> 'e node \<Rightarrow> int \<times> 'e node" where
  "csp_i2c_tx tf i via p from_me s =
     (if id_dst (pkt_id (pkt s p)) = if_addr (iface s i) then (CSP_ERR_NONE, csp_qfifo_write (Some p) (Some i) False s)
      else let s = on_core (csp_id_prepend p) s;
               s = upd_pkt p (\<lambda>k. k\<lparr>cfpid := if via \<noteq> CSP_NO_VIA_ADDRESS then ucast via else ucast (id_dst (pkt_id k))\<rparr>) s;
               s = upd_pkt p (\<lambda>k. k\<lparr>cfpid := cfpid k AND 0x7F\<rparr>) s
           in tf (the (i2c_tx_func (i2c_data (drv s) (the (interface_data (iface s i)))))) (driver_data (iface s i)) p s)"

definition csp_i2c_rx :: "addr \<Rightarrow> addr option \<Rightarrow> bool \<Rightarrow> 'e node \<Rightarrow> 'e node" where
  "csp_i2c_rx i pk isr s =
     (case pk of
        None \<Rightarrow> s
      | Some p \<Rightarrow>
          if frame_length (pkt s p) < 4
          then on_core (if isr then csp_buffer_free_isr (Some p) else csp_buffer_free (Some p)) (upd_iface i (\<lambda>k. k\<lparr>if_frame := if_frame k + 1\<rparr>) s)
          else csp_qfifo_write (Some p) (Some i) isr (snd (in_core (csp_id_strip p) s)))"

definition csp_i2c_add_interface :: "addr option \<Rightarrow> 'e node \<Rightarrow> int \<times> 'e node" where
  "csp_i2c_add_interface ifc s =
     (case ifc of
        None \<Rightarrow> (CSP_ERR_INVAL, s)
      | Some i \<Rightarrow>
          (case (if_name (iface s i), interface_data (iface s i)) of
             (Some nm, Some d) \<Rightarrow>
               if i2c_tx_func (i2c_data (drv s) d) = None then (CSP_ERR_INVAL, s)
               else let s = upd_iface i (\<lambda>k. k\<lparr>if_nexthop := Csp_i2c_tx\<rparr>) s
                    in (CSP_ERR_NONE, s\<lparr>iflist := csp_iflist_add (Some i) (iflist s)\<rparr>)
           | _ \<Rightarrow> (CSP_ERR_INVAL, s)))"

section \<open>Contract\<close>

text \<open>What the documentation of \<^verbatim>\<open>csp_i2c_driver_tx_t\<close> asks of the driver's function.\<close>

definition i2c_driver :: "'e i2c_fn \<Rightarrow> bool" where
  "i2c_driver tf \<longleftrightarrow> (\<forall>n v p f s r s'. own drv_held (tok p f) s \<and> tf n v p s = (r, s') \<longrightarrow>
     own drv_held (if r = 0 then f else tok p f) s' \<and> tx_frame s s' \<and> pkts_kept {p} s s')"

lemma csp_i2c_tx_contract:
  assumes tf: "i2c_driver tf" and own: "own drv_held (tok p f) s" and run: "csp_i2c_tx tf i via p fm s = (r, s')"
  shows "own drv_held (if r = 0 then f else tok p f) s' \<and> tx_frame s s' \<and> pkts_kept {p} s s'"
proof (cases "id_dst (pkt_id (pkt s p)) = if_addr (iface s i)")
  case True
  then show ?thesis
    using run own_qfifo_write [of drv_held "Some p" f s] qfifo_write_frames [OF own] own by (auto simp: csp_i2c_tx_def)
next
  case False
  define s1 where "s1 = on_core (csp_id_prepend p) s"
  obtain g where s2: "csp_i2c_tx tf i via p fm s = tf (the (i2c_tx_func (i2c_data (drv s1) (the (interface_data (iface s1 i)))))) (driver_data (iface s1 i)) p (upd_pkt p g s1)"
    using False by (simp add: csp_i2c_tx_def Let_def s1_def [symmetric] upd_pkt_comp)
  have one: "own drv_held (tok p f) (upd_pkt p g s1)" "tx_frame s (upd_pkt p g s1)" "pkts_kept {p} s (upd_pkt p g s1)"
    using own tx_frame_trans [OF tx_frame_upds(7) tx_frame_upds(6)] pkts_kept_trans [OF _ pkts_kept_upd_pkt, of "{p}" s s1 p g]
    by (auto simp: s1_def on_core_def pkts_kept_def csp_id_prepend_other own_core_cong)
  then show ?thesis
    using run tf one tx_frame_trans [OF one(2)] pkts_kept_trans [OF one(3)] unfolding s2 i2c_driver_def by blast
qed

lemma i2c_nexthop: "i2c_driver tf \<Longrightarrow> nexthop_contract (\<lambda>_. csp_i2c_tx tf) drv_held"
  by unfold_locales (blast dest: csp_i2c_tx_contract)+

section \<open>Reception\<close>

text \<open>The receiver frees a frame shorter than a CSP 1.x header and counts it, and passes every other one
  to the router: with identifier and payload parsed if the frame is at least as long as the header, but a
  frame of four or five bytes of a CSP 2.x network with the identifier and length that were in the buffer
  before, since the result of \<open>csp_id_strip\<close> is not looked at. In each case the reference to the
  packet is given up exactly once.\<close>

theorem csp_i2c_rx_spec:
  fixes i :: addr and isr :: bool
  assumes own: "own drv_held (tok p f) s" and room: "length (queue_list (qfifo_queue s)) < q_size (qfifo_queue s)"
    and fb: "frame_begin (pkt s p) = (p, DATA_OFF - hdr_size (core s))"
  defines "n \<equiv> unat (frame_length (pkt s p))" and "s' \<equiv> csp_i2c_rx i (Some p) isr s"
  shows "own drv_held f s' \<and>
    (if n < 4 then if_frame (iface s' i) = if_frame (iface s i) + 1 \<and> queue_list (qfifo_queue s') = queue_list (qfifo_queue s)
     else queue_list (qfifo_queue s') = queue_list (qfifo_queue s) @ [\<lparr>qf_iface = Some i, qf_packet = Some p\<rparr>]
       \<and> (if n < hdr_size (core s) then pkt s' p = pkt s p
          else payload (core s') p = drop (hdr_size (core s)) (frame_bytes (core s) p n)
            \<and> (\<forall>x. id_fits (core s) x \<and> take (hdr_size (core s)) (frame_bytes (core s) p n) = id_bytes (core s) x \<longrightarrow> pkt_id (pkt s' p) = x)))"
proof (cases "n < 4")
  case True
  then have "frame_length (pkt s p) < 4" by (simp add: n_def word_less_nat_alt)
  then have s': "s' = free_pkt p (upd_iface i (\<lambda>k. k\<lparr>if_frame := if_frame k + 1\<rparr>) s)" by (simp add: s'_def csp_i2c_rx_def free_pkt_def)
  have "own drv_held f s'" unfolding s' by (rule own_free) (simp add: own)
  then show ?thesis using True s' by (simp add: free_pkt_def on_core_def upd_iface_def)
next
  case False
  then have ge: "\<not> frame_length (pkt s p) < 4" by (simp add: n_def word_less_nat_alt)
  define s1 where "s1 = snd (in_core (csp_id_strip p) s)"
  have s': "s' = csp_qfifo_write (Some p) (Some i) isr s1" using ge by (simp add: s'_def csp_i2c_rx_def s1_def)
  have q1: "qfifo_queue s1 = qfifo_queue s" by (simp add: s1_def in_core_def)
  have own1: "own drv_held (tok p f) s1" using own by (simp add: s1_def in_core_def own_core_cong)
  then have "queue_ok (qfifo_queue s1)" by (simp add: own_def queues_ok_def)
  with room q1 obtain q' where q': "s' = s1\<lparr>qfifo_queue := q'\<rparr>" "queue_list q' = queue_list (qfifo_queue s) @ [\<lparr>qf_iface = Some i, qf_packet = Some p\<rparr>]"
    using qfifo_write_room [of s1 p i isr] s' by auto
  have "own drv_held f s'" using own_qfifo_write [of drv_held "Some p" f s1] own1 s' by simp
  moreover have "pkt s' p = pkt s p" if "n < hdr_size (core s)" using that by (simp add: q'(1) s1_def in_core_def csp_id_strip_eq n_def)
  moreover have "payload (core s') p = drop (hdr_size (core s)) (frame_bytes (core s) p n)
      \<and> (\<forall>x. id_fits (core s) x \<and> take (hdr_size (core s)) (frame_bytes (core s) p n) = id_bytes (core s) x \<longrightarrow> pkt_id (pkt s' p) = x)"
    if long: "\<not> n < hdr_size (core s)"
  proof (intro conjI allI impI)
    let ?h = "hdr_size (core s)"
    have split: "length (frame_bytes (core s) p n) = n" "?h + length (drop ?h (frame_bytes (core s) p n)) = n" using long by (simp_all add: frame_bytes_def split_beta)
    have hn: "unat (of_nat ?h :: u16) = ?h" using hdr_size_cases [of "core s"] by auto
    have "unat (frame_length (pkt s p) - of_nat ?h) = n - ?h" using long hn by (subst unat_diff_small) (simp_all add: n_def word_le_nat_alt)
    then show "payload (core s') p = drop ?h (frame_bytes (core s) p n)"
      using long fb hdr_size_cases [of "core s"] by (auto simp: q'(1) s1_def in_core_def csp_id_strip_eq n_def payload_def data_bytes_def frame_bytes_def)
    fix x assume x: "id_fits (core s) x \<and> take ?h (frame_bytes (core s) p n) = id_bytes (core s) x"
    have "n < 2 ^ 16" unfolding n_def using unsigned_less [of "frame_length (pkt s p)"] by simp
    moreover have "frame_bytes (core s) p (?h + length (drop ?h (frame_bytes (core s) p n))) = id_bytes (core s) x @ drop ?h (frame_bytes (core s) p n)"
      using x append_take_drop_id [of ?h "frame_bytes (core s) p n"] unfolding split(2) by metis
    moreover have "frame_length (pkt s p) = of_nat (?h + length (drop ?h (frame_bytes (core s) p n)))" unfolding split(2) by (simp add: n_def)
    ultimately obtain c' where "csp_id_strip p (core s) = (0, c')" "pkt_id (packet c' p) = x"
      using id_strip_received [OF fb, of "drop ?h (frame_bytes (core s) p n)" x] x unfolding split(2) by blast
    then show "pkt_id (pkt s' p) = x" by (simp add: q'(1) s1_def in_core_def)
  qed
  ultimately show ?thesis using False q' by auto
qed

end
