(* ===== verification/CSP_Sfp.thy ===== *)
theory CSP_Sfp
  imports CSP_Io
begin

text \<open>
  The simple fragmentation protocol, \<^verbatim>\<open>src/src/csp_sfp.c\<close>: a block of memory is sent as a sequence
  of packets over a connection and put together by the receiver. The function that copies
  from the memory of the sender is the parameter \<open>mc\<close> (offset and size to bytes), \<open>ml\<close> is
  \<^verbatim>\<open>malloc\<close>: the contents of a new block of the given size, or \<open>None\<close>. Sizes of type \<^verbatim>\<open>size_t\<close>
  have 64 bits.
\<close>

section \<open>Operations\<close>

text \<open>A header at offset \<open>h\<close> of the data, in the byte order of the host.\<close>

definition sfp_offset :: "'d csp_state \<Rightarrow> addr \<Rightarrow> nat \<Rightarrow> u32" where
  "sfp_offset s p h = le_word (mem_read (pkt_mem (pkt s p)) (DATA_OFF + h) 4)"

definition sfp_totalsize :: "'d csp_state \<Rightarrow> addr \<Rightarrow> nat \<Rightarrow> u32" where
  "sfp_totalsize s p h = le_word (mem_read (pkt_mem (pkt s p)) (DATA_OFF + h + 4) 4)"

definition csp_sfp_header_add :: "addr \<Rightarrow> 'd csp_state \<Rightarrow> nat \<times> 'd csp_state" where
  "csp_sfp_header_add p s = (unat (pkt_length (pkt s p)), upd_pkt p (\<lambda>k. k\<lparr>pkt_length := pkt_length k + 8\<rparr>) s)"

text \<open>The fields are converted in place.\<close>

definition csp_sfp_header_remove :: "addr \<Rightarrow> 'd csp_state \<Rightarrow> nat option \<times> 'd csp_state" where
  "csp_sfp_header_remove p s =
     (if id_flags (pkt_id (pkt s p)) AND CSP_FFRAG = 0 then (None, s)
      else if pkt_length (pkt s p) < 8 then (None, s)
      else let h = unat (pkt_length (pkt s p) - 8);
               s = upd_pkt p (\<lambda>k. k\<lparr>pkt_length := pkt_length k - 8\<rparr>) s;
               s = on_core (write_data p h (le_bytes 4 (be_word (mem_read (pkt_mem (pkt s p)) (DATA_OFF + h) 4) :: u32))) s;
               s = on_core (write_data p (h + 4) (le_bytes 4 (be_word (mem_read (pkt_mem (pkt s p)) (DATA_OFF + h + 4) 4) :: u32))) s
           in (if sfp_offset s p h > sfp_totalsize s p h then None else Some h, s))"

text \<open>One round of the loop that sends: the packet is filled and sent.\<close>

definition sfp_send_packet ::
  "'d nexthop_fn \<Rightarrow> 'd task_fn \<Rightarrow> (nat \<Rightarrow> nat \<Rightarrow> u8 list) \<Rightarrow> addr \<Rightarrow> u32 \<Rightarrow> u32 \<Rightarrow> u32 \<Rightarrow> addr \<Rightarrow> 'd csp_state \<Rightarrow> 'd csp_state option" where
  "sfp_send_packet nh wt mc c totalsize sz cnt p s =
     (let s = on_core (write_data p 0 (mc (unat cnt) (unat sz))) s;
          s = upd_pkt p (\<lambda>k. k\<lparr>pkt_length := ucast sz\<rparr>) s;
          s = upd_conn c (\<lambda>k. k\<lparr>idout := (idout k)\<lparr>id_flags := id_flags (idout k) OR CSP_FFRAG\<rparr>\<rparr>) s;
          (h, s) = csp_sfp_header_add p s;
          s = on_core (write_data p (h + 4) (be_bytes 4 totalsize)) s;
          s = on_core (write_data p h (be_bytes 4 cnt)) s
      in csp_send nh wt (Some c) (Some p) s)"

definition sfp_size :: "u32 \<Rightarrow> u32 \<Rightarrow> u32 \<Rightarrow> u32" where
  "sfp_size totalsize mtu cnt = (if totalsize - cnt > mtu then mtu else totalsize - cnt)"

partial_function (option) sfp_send_loop ::
  "'d nexthop_fn \<Rightarrow> 'd task_fn \<Rightarrow> (nat \<Rightarrow> nat \<Rightarrow> u8 list) \<Rightarrow> addr \<Rightarrow> u32 \<Rightarrow> u32 \<Rightarrow> u32 \<Rightarrow> 'd csp_state \<Rightarrow> (int \<times> 'd csp_state) option" where
  "sfp_send_loop nh wt mc c totalsize mtu cnt s =
     (if cnt < totalsize \<and> csp_conn_is_active c s
      then (case in_core csp_buffer_get s of
              (None, s) \<Rightarrow> Some (CSP_ERR_NOMEM, s)
            | (Some p, s) \<Rightarrow>
                Option.bind (sfp_send_packet nh wt mc c totalsize (sfp_size totalsize mtu cnt) cnt p s)
                  (\<lambda>s. sfp_send_loop nh wt mc c totalsize mtu (cnt + sfp_size totalsize mtu cnt) s))
      else Some (CSP_ERR_NONE, s))"

definition csp_sfp_send_own_memcpy ::
  "'d nexthop_fn \<Rightarrow> 'd task_fn \<Rightarrow> addr \<Rightarrow> u32 \<Rightarrow> u32 \<Rightarrow> u32 \<Rightarrow> (nat \<Rightarrow> nat \<Rightarrow> u8 list) \<Rightarrow> 'd csp_state \<Rightarrow> (int \<times> 'd csp_state) option" where
  "csp_sfp_send_own_memcpy nh wt c totalsize mtu timeout mc s =
     (if mtu = 0 \<or> unat mtu + 8 > CSP_BUFFER_SIZE then Some (CSP_ERR_INVAL, s)
      else sfp_send_loop nh wt mc c totalsize mtu 0 s)"

definition csp_sfp_send ::
  "'d nexthop_fn \<Rightarrow> 'd task_fn \<Rightarrow> addr \<Rightarrow> u8 list \<Rightarrow> u32 \<Rightarrow> u32 \<Rightarrow> u32 \<Rightarrow> 'd csp_state \<Rightarrow> (int \<times> 'd csp_state) option" where
  "csp_sfp_send nh wt c data datasize mtu timeout s =
     csp_sfp_send_own_memcpy nh wt c datasize mtu timeout (\<lambda>off n. take n (drop off data)) s"

text \<open>
  The receiver keeps the block, its size and the number of bytes received. A round ends the
  transfer (\<open>Inl\<close>: return value, block and size for the caller) or goes on.
\<close>

type_synonym sfp_rx = "u8 list option \<times> u32 \<times> u32"
type_synonym sfp_result = "int \<times> u8 list option \<times> int"

definition sfp_recv_step :: "(u32 \<Rightarrow> u8 list option) \<Rightarrow> addr \<Rightarrow> sfp_rx \<Rightarrow> 'd csp_state \<Rightarrow> (sfp_result + sfp_rx) \<times> 'd csp_state" where
  "sfp_recv_step ml p acc s =
     (case csp_sfp_header_remove p s of
        (None, s) \<Rightarrow> (Inl (CSP_ERR_SFP, None, 0), free_pkt p s)
      | (Some h, s) \<Rightarrow>
          let (data, datasize, data_offset) = acc
          in if sfp_offset s p h \<noteq> data_offset then (Inl (CSP_ERR_SFP, None, 0), free_pkt p s)
             else let (data, datasize) = (if data = None then (ml (sfp_totalsize s p h), sfp_totalsize s p h) else (data, datasize))
                  in case data of
                       None \<Rightarrow> (Inl (CSP_ERR_NOMEM, None, 0), free_pkt p s)
                     | Some d \<Rightarrow>
                         let n = pkt_length (pkt s p); pos = unat data_offset
                         in if data_offset + ucast n > datasize \<or> datasize \<noteq> sfp_totalsize s p h
                            then (Inl (CSP_ERR_SFP, None, 0), free_pkt p s)
                            else let d = take pos d @ data_bytes (core s) p (unat n) @ drop (pos + unat n) d;
                                     data_offset = data_offset + ucast n
                                 in if data_offset \<ge> datasize then (Inl (CSP_ERR_NONE, Some d, sint datasize), free_pkt p s)
                                    else if n = 0 then (Inl (CSP_ERR_SFP, None, 0), free_pkt p s)
                                    else (Inr (Some d, datasize, data_offset), free_pkt p s))"

partial_function (option) sfp_recv_loop ::
  "'d nexthop_fn \<Rightarrow> 'd task_fn \<Rightarrow> (u32 \<Rightarrow> u8 list option) \<Rightarrow> addr option \<Rightarrow> u32 \<Rightarrow> sfp_rx \<Rightarrow> addr \<Rightarrow> 'd csp_state \<Rightarrow> (sfp_result \<times> 'd csp_state) option" where
  "sfp_recv_loop nh wt ml conn timeout acc p s =
     (case sfp_recv_step ml p acc s of
        (Inl r, s) \<Rightarrow> Some (r, s)
      | (Inr acc, s) \<Rightarrow>
          (case csp_read nh wt conn timeout s of
             (None, s) \<Rightarrow> Some ((CSP_ERR_TIMEDOUT, None, 0), s)
           | (Some p, s) \<Rightarrow> sfp_recv_loop nh wt ml conn timeout acc p s))"

definition csp_sfp_recv_fp ::
  "'d nexthop_fn \<Rightarrow> 'd task_fn \<Rightarrow> (u32 \<Rightarrow> u8 list option) \<Rightarrow> addr option \<Rightarrow> u32 \<Rightarrow> addr option \<Rightarrow> 'd csp_state \<Rightarrow> (sfp_result \<times> 'd csp_state) option" where
  "csp_sfp_recv_fp nh wt ml conn timeout first_packet s =
     (case first_packet of
        None \<Rightarrow>
          (case csp_read nh wt conn timeout s of
             (None, s) \<Rightarrow> Some ((CSP_ERR_TIMEDOUT, None, 0), s)
           | (Some p, s) \<Rightarrow> sfp_recv_loop nh wt ml conn timeout (None, 0, 0) p s)
      | Some p \<Rightarrow> sfp_recv_loop nh wt ml conn timeout (None, 0, 0) p s)"

definition csp_sfp_recv ::
  "'d nexthop_fn \<Rightarrow> 'd task_fn \<Rightarrow> (u32 \<Rightarrow> u8 list option) \<Rightarrow> addr option \<Rightarrow> u32 \<Rightarrow> 'd csp_state \<Rightarrow> (sfp_result \<times> 'd csp_state) option" where
  "csp_sfp_recv nh wt ml conn timeout s = csp_sfp_recv_fp nh wt ml conn timeout None s"

section \<open>The frames of a block\<close>

text \<open>The payloads for the rest of a block of \<open>tot\<close> bytes, from offset \<open>off\<close> on.\<close>

fun sfp_frames :: "nat \<Rightarrow> nat \<Rightarrow> nat \<Rightarrow> u8 list \<Rightarrow> u8 list list" where
  "sfp_frames mtu tot off rest =
     (if mtu = 0 \<or> rest = [] then []
      else (take mtu rest @ be_bytes 4 (of_nat off :: u32) @ be_bytes 4 (of_nat tot :: u32))
        # sfp_frames mtu tot (off + length (take mtu rest)) (drop mtu rest))"

declare sfp_frames.simps [simp del]

text \<open>Sending payloads one after the other, while the connection is active and buffers are left.\<close>

primrec sfp_send_frames :: "'d nexthop_fn \<Rightarrow> 'd task_fn \<Rightarrow> addr \<Rightarrow> u8 list list \<Rightarrow> 'd csp_state \<Rightarrow> (int \<times> 'd csp_state) option" where
  "sfp_send_frames nh wt c [] s = Some (CSP_ERR_NONE, s)"
| "sfp_send_frames nh wt c (x # xs) s =
     (if \<not> csp_conn_is_active c s then Some (CSP_ERR_NONE, s)
      else case in_core csp_buffer_get s of
             (None, s) \<Rightarrow> Some (CSP_ERR_NOMEM, s)
           | (Some p, s) \<Rightarrow>
               let s = upd_pkt p (\<lambda>k. k\<lparr>pkt_mem := mem_write (pkt_mem k) DATA_OFF x, pkt_length := of_nat (length x)\<rparr>) s;
                   s = upd_conn c (\<lambda>k. k\<lparr>idout := (idout k)\<lparr>id_flags := id_flags (idout k) OR CSP_FFRAG\<rparr>\<rparr>) s
               in Option.bind (csp_send nh wt (Some c) (Some p) s) (sfp_send_frames nh wt c xs))"

lemma on_core_upd_conn: "on_core g (upd_conn c f s) = upd_conn c f (on_core g s)"
  by (cases s) (simp add: on_core_def upd_conn_def)

lemma mem_write_before: "mem_write (mem_write m (h + length a) b) h a = mem_write m h (a @ b)"
  by (rule ext) (auto simp: mem_write_def nth_append)

lemma sfp_packet_image:
  assumes n: "unat sz + 8 < 2 ^ 16" and mc: "length (mc (unat cnt) (unat sz)) = unat sz"
  shows "sfp_send_packet nh wt mc c tot sz cnt p s =
    (let x = mc (unat cnt) (unat sz) @ be_bytes 4 cnt @ be_bytes 4 tot;
         s = upd_pkt p (\<lambda>k. k\<lparr>pkt_mem := mem_write (pkt_mem k) DATA_OFF x, pkt_length := of_nat (length x)\<rparr>) s;
         s = upd_conn c (\<lambda>k. k\<lparr>idout := (idout k)\<lparr>id_flags := id_flags (idout k) OR CSP_FFRAG\<rparr>\<rparr>) s
     in csp_send nh wt (Some c) (Some p) s)"
proof -
  have h: "unat (ucast sz :: u16) = unat sz" and len: "ucast sz + 8 = (of_nat (unat sz + 8) :: u16)"
    using n by (simp_all add: unsigned_ucast_eq take_bit_nat_eq_self word_eq_iff_unsigned unsigned_of_nat)
  have w: "mem_write (mem_write (mem_write m DATA_OFF xs) (DATA_OFF + (length xs + 4)) b) (DATA_OFF + length xs) a
      = mem_write m DATA_OFF (xs @ a @ b)" if "length a = 4" for m xs and a b :: "u8 list"
    using mem_write_before [of "mem_write m DATA_OFF xs" "DATA_OFF + length xs" a b] mem_write_append [of m DATA_OFF xs "a @ b"] that
    by (simp add: ac_simps)
  let ?x = "mc (unat cnt) (unat sz) @ be_bytes 4 cnt @ be_bytes 4 tot"
  have g: "(\<lambda>k. pkt_mem_update ((\<lambda>m. mem_write m (8 + unat sz) (be_bytes 4 cnt)) \<circ> ((\<lambda>m. mem_write m (12 + unat sz) (be_bytes 4 tot)) \<circ>
        (\<lambda>m. mem_write m 8 (mc (unat cnt) (unat sz))))) (k\<lparr>pkt_length := ucast sz + 8\<rparr>))
      = (\<lambda>k. k\<lparr>pkt_mem := mem_write (pkt_mem k) 8 ?x, pkt_length := ucast sz + 8\<rparr>)" (is "?f = ?g")
  proof
    fix k show "?f k = ?g k" using w [of "be_bytes 4 cnt" _ "mc (unat cnt) (unat sz)" "be_bytes 4 tot"] mc by (cases k) simp
  qed
  show ?thesis
    using mc len by (simp add: sfp_send_packet_def csp_sfp_header_add_def Let_def upd_pkt_def on_core_upd_conn) (simp add: on_core_def write_data_def upd_conn_def h g)
qed

text \<open>The loop with its machine integers sends these frames.\<close>

lemma sfp_send_loop_frames:
  assumes mtu: "mtu \<noteq> 0" "unat mtu + 8 \<le> CSP_BUFFER_SIZE" and len: "length data < 2 ^ 32" and off: "off \<le> length data"
  shows "sfp_send_loop nh wt (\<lambda>off n. take n (drop off data)) c (of_nat (length data)) mtu (of_nat off) s =
    sfp_send_frames nh wt c (sfp_frames (unat mtu) (length data) off (drop off data)) s"
  using off
proof (induction "length data - off" arbitrary: off s rule: less_induct)
  case less
  let ?t = "of_nat (length data) :: u32" and ?o = "of_nat off :: u32"
  have un: "unat ?t = length data" "unat ?o = off" using less.prems len by (simp_all add: unat_of_nat_small)
  show ?case
  proof (cases "off < length data")
    case False
    with un less.prems show ?thesis by (subst sfp_send_loop.simps, subst sfp_frames.simps) (simp add: word_less_nat_alt)
  next
    case True
    let ?n = "min (unat mtu) (length data - off)" and ?z = "sfp_size ?t mtu ?o"
    have n0: "0 < ?n" using mtu(1) True by (simp add: unat_gt_0)
    have z: "unat ?z = ?n" using True un by (auto simp: sfp_size_def word_less_nat_alt unat_diff_small word_le_nat_alt)
    have step: "?o + ?z = of_nat (off + ?n)" by (simp add: z [symmetric])
    have fr: "sfp_frames (unat mtu) (length data) off (drop off data)
        = (take ?n (drop off data) @ be_bytes 4 ?o @ be_bytes 4 ?t) # sfp_frames (unat mtu) (length data) (off + ?n) (drop (off + ?n) data)"
      using True mtu(1) by (subst sfp_frames.simps) (auto simp: min_def unat_eq_zero ac_simps)
    have pk: "sfp_send_packet nh wt (\<lambda>off n. take n (drop off data)) c ?t ?z ?o p s' = (let x = take ?n (drop off data) @ be_bytes 4 ?o @ be_bytes 4 ?t;
         s = upd_pkt p (\<lambda>k. k\<lparr>pkt_mem := mem_write (pkt_mem k) DATA_OFF x, pkt_length := of_nat (length x)\<rparr>) s';
         s = upd_conn c (\<lambda>k. k\<lparr>idout := (idout k)\<lparr>id_flags := id_flags (idout k) OR CSP_FFRAG\<rparr>\<rparr>) s
       in csp_send nh wt (Some c) (Some p) s)" for p s'
      using sfp_packet_image [of ?z "\<lambda>off n. take n (drop off data)" ?o nh wt c ?t p s'] mtu(2) un(2) z by (simp add: min_def)
    have rec: "sfp_send_loop nh wt (\<lambda>off n. take n (drop off data)) c ?t mtu (?o + ?z) s'
        = sfp_send_frames nh wt c (sfp_frames (unat mtu) (length data) (off + ?n) (drop (off + ?n) data)) s'" for s'
      unfolding step by (rule less.hyps) (use n0 True in auto)
    have lt: "?o < ?t" using True un by (simp add: word_less_nat_alt)
    show ?thesis
      unfolding fr sfp_send_frames.simps by (subst sfp_send_loop.simps) (auto simp: lt ext [OF rec] pk Let_def split: prod.splits option.splits)
  qed
qed

lemma sfp_frames_bound: "x \<in> set (sfp_frames mtu tot off rest) \<Longrightarrow> length x \<le> mtu + 8"
  by (induction mtu tot off rest rule: sfp_frames.induct) (subst (asm) (2) sfp_frames.simps, auto split: if_splits)

text \<open>C39. Sending a block of memory with \<open>csp_sfp_send\<close> is sending its frames one after the other: a size
  that does not fit a packet is refused, otherwise each packet handed to \<open>csp_send\<close> is a
  piece of at most \<open>mtu\<close> bytes with its offset and the total size behind it, in order, and
  fits a buffer. The loop ends at the first packet for which there is no buffer, with an
  error, and also, without one, when the connection is no longer active.\<close>

theorem csp_sfp_send_refines:
  fixes mtu :: u32
  assumes "length data < 2 ^ 32"
  defines "frames \<equiv> sfp_frames (unat mtu) (length data) 0 data"
  shows "csp_sfp_send nh wt c data (of_nat (length data)) mtu t s =
      (if mtu = 0 \<or> unat mtu + 8 > CSP_BUFFER_SIZE then Some (CSP_ERR_INVAL, s) else sfp_send_frames nh wt c frames s)
    \<and> (unat mtu + 8 \<le> CSP_BUFFER_SIZE \<longrightarrow> (\<forall>x\<in>set frames. length x \<le> CSP_BUFFER_SIZE))"
  using sfp_send_loop_frames [of mtu data 0 nh wt c s] assms sfp_frames_bound [of _ "unat mtu" "length data" 0 data]
  by (fastforce simp: csp_sfp_send_def csp_sfp_send_own_memcpy_def)

theorem csp_sfp_send_refines_witness:
  "csp_sfp_send (\<lambda>_. csp_lo_tx) (\<lambda>_ s. s) 0 [1, 2, 3] 3 2 0 example_sender
     = sfp_send_frames (\<lambda>_. csp_lo_tx) (\<lambda>_ s. s) 0 [[1, 2, 0, 0, 0, 0, 0, 0, 0, 3], [3, 0, 0, 0, 2, 0, 0, 0, 3]] example_sender"
proof -
  have "sfp_frames 2 (Suc (Suc (Suc 0))) 0 [1, 2, 3] = [[1, 2, 0, 0, 0, 0, 0, 0, 0, 3], [3, 0, 0, 0, 2, 0, 0, 0, 3]]" by code_simp
  then show ?thesis using csp_sfp_send_refines [of "[1, 2, 3]" "\<lambda>_. csp_lo_tx" "\<lambda>_ s. s" 0 2 0 example_sender] by (simp del: sfp_send_frames.simps)
qed

section \<open>Reception\<close>

text \<open>What a round does with a packet that carries a frame.\<close>

lemma sfp_header_received:
  assumes pay: "payload (core s) p = x @ be_bytes 4 (off :: u32) @ be_bytes 4 (tot :: u32)"
    and fl: "id_flags (pkt_id (pkt s p)) AND CSP_FFRAG \<noteq> 0" and le: "off \<le> tot"
  obtains s' where "csp_sfp_header_remove p s = (Some (length x), s')" "sfp_offset s' p (length x) = off" "sfp_totalsize s' p (length x) = tot"
    "data_bytes (core s') p (length x) = x" "unat (pkt_length (pkt s' p)) = length x"
proof -
  let ?m = "pkt_mem (pkt s p)" and ?n = "length x"
  have len: "unat (pkt_length (pkt s p)) = ?n + 8" using arg_cong [OF pay, of length] by (simp add: length_payload)
  then have h: "unat (pkt_length (pkt s p) - 8) = ?n" and ge: "\<not> pkt_length (pkt s p) < 8"
    by (simp_all add: unat_diff_small word_le_nat_alt word_less_nat_alt)
  have m: "mem_read ?m DATA_OFF (?n + 8) = x @ be_bytes 4 off @ be_bytes 4 tot" using pay len by (simp add: payload_def data_bytes_def)
  have b: "mem_read ?m DATA_OFF ?n = x" "mem_read ?m (DATA_OFF + ?n) 4 = be_bytes 4 off" "mem_read ?m (DATA_OFF + ?n + 4) 4 = be_bytes 4 tot"
    using arg_cong [OF m, of "take ?n"] arg_cong [OF m, of "\<lambda>l. take 4 (drop ?n l)"] arg_cong [OF m, of "drop (?n + 4)"] by (simp_all add: add.assoc)
  define s' where "s' = snd (csp_sfp_header_remove p s)"
  show thesis
  proof (rule that [of s'])
  qed (use fl ge h b le in \<open>simp_all add: s'_def csp_sfp_header_remove_def Let_def sfp_offset_def sfp_totalsize_def
      upd_pkt_def on_core_def write_data_def data_bytes_def mem_simps add.assoc\<close>)
qed

lemma sfp_recv_step_frame:
  assumes pay: "payload (core s) p = x @ be_bytes 4 (off :: u32) @ be_bytes 4 (tot :: u32)"
    and fl: "id_flags (pkt_id (pkt s p)) AND CSP_FFRAG \<noteq> 0" and fit: "unat off + length x \<le> unat tot" and x: "x \<noteq> []"
    and mem: "case data of None \<Rightarrow> ml tot = Some d | Some e \<Rightarrow> e = d \<and> datasize = tot"
  shows "sfp_recv_step ml p (data, datasize, off) s =
    (let d' = take (unat off) d @ x @ drop (unat off + length x) d
     in (if unat off + length x = unat tot then Inl (CSP_ERR_NONE, Some d', sint tot) else Inr (Some d', tot, of_nat (unat off + length x)),
         free_pkt p (snd (csp_sfp_header_remove p s))))"
proof -
  have le: "off \<le> tot" using fit by (simp add: word_le_nat_alt)
  obtain s' where s': "csp_sfp_header_remove p s = (Some (length x), s')" "sfp_offset s' p (length x) = off" "sfp_totalsize s' p (length x) = tot"
      "data_bytes (core s') p (length x) = x" "unat (pkt_length (pkt s' p)) = length x"
    by (rule sfp_header_received [OF pay fl le])
  let ?n = "ucast (pkt_length (pkt s' p)) :: u32"
  have n: "unat ?n = length x" using s'(5) unsigned_less [of "pkt_length (pkt s' p)", where ?'a = nat] by (simp add: unsigned_ucast_eq take_bit_nat_eq_self)
  have nz: "pkt_length (pkt s' p) \<noteq> 0" using s'(5) x by auto
  have sum: "unat (off + ?n) = unat off + length x" using fit n unsigned_less [of tot, where ?'a = nat] by (simp add: unat_add_small)
  have sum2: "off + ?n = of_nat (unat off + length x)" unfolding sum [symmetric] by simp
  from mem show ?thesis
    using fit nz sum sum2 s' by (auto simp: sfp_recv_step_def Let_def word_less_nat_alt word_le_nat_alt split: option.splits)
qed

text \<open>The next reads of a connection give packets with these payloads.\<close>

primrec sfp_feed :: "'d nexthop_fn \<Rightarrow> 'd task_fn \<Rightarrow> addr option \<Rightarrow> u32 \<Rightarrow> u8 list list \<Rightarrow> 'd csp_state \<Rightarrow> bool" where
  "sfp_feed nh wt conn t [] s = True"
| "sfp_feed nh wt conn t (x # xs) s =
     (case csp_read nh wt conn t s of
        (None, s) \<Rightarrow> False
      | (Some p, s) \<Rightarrow> payload (core s) p = x \<and> id_flags (pkt_id (pkt s p)) AND CSP_FFRAG \<noteq> 0
          \<and> sfp_feed nh wt conn t xs (free_pkt p (snd (csp_sfp_header_remove p s))))"

lemma sfp_recv_frames:
  assumes "rest \<noteq> []" "mtu \<noteq> 0" "off + length rest = tot" "tot < 2 ^ 31"
    "case data of None \<Rightarrow> ml (of_nat tot) = Some d | Some e \<Rightarrow> e = d \<and> datasize = of_nat tot" "length d = tot"
    "sfp_feed nh wt conn t (sfp_frames mtu tot off rest) s"
  shows "\<exists>s'. (case csp_read nh wt conn t s of
             (None, s) \<Rightarrow> Some ((CSP_ERR_TIMEDOUT, None, 0), s)
           | (Some p, s) \<Rightarrow> sfp_recv_loop nh wt ml conn t (data, datasize, of_nat off) p s)
         = Some ((CSP_ERR_NONE, Some (take off d @ rest), int tot), s')"
  using assms
proof (induction mtu tot off rest arbitrary: data datasize d s rule: sfp_frames.induct)
  case (1 mtu tot off rest)
  let ?x = "take mtu rest"
  have fr: "sfp_frames mtu tot off rest = (?x @ be_bytes 4 (of_nat off :: u32) @ be_bytes 4 (of_nat tot :: u32)) # sfp_frames mtu tot (off + length ?x) (drop mtu rest)"
    using "1.prems"(1,2) by (subst sfp_frames.simps) simp
  obtain p s1 where rd: "csp_read nh wt conn t s = (Some p, s1)" "payload (core s1) p = ?x @ be_bytes 4 (of_nat off :: u32) @ be_bytes 4 (of_nat tot :: u32)"
      "id_flags (pkt_id (pkt s1 p)) AND CSP_FFRAG \<noteq> 0"
      "sfp_feed nh wt conn t (sfp_frames mtu tot (off + length ?x) (drop mtu rest)) (free_pkt p (snd (csp_sfp_header_remove p s1)))"
    using "1.prems"(7) unfolding fr by (auto split: prod.splits option.splits)
  have un: "unat (of_nat off :: u32) = off" "unat (of_nat tot :: u32) = tot" using "1.prems"(3,4) by (simp_all add: unat_of_nat_small)
  have si: "sint (of_nat tot :: u32) = int tot" using "1.prems"(4) by (simp add: signed_of_nat signed_take_bit_int_eq_self)
  let ?d = "take off d @ ?x @ drop (off + length ?x) d" and ?s = "free_pkt p (snd (csp_sfp_header_remove p s1))"
  have pre: "unat (of_nat off :: u32) + length ?x \<le> unat (of_nat tot :: u32)" "?x \<noteq> []" unfolding un using "1.prems"(1-3) by auto
  have step: "sfp_recv_step ml p (data, datasize, of_nat off) s1 =
      (if off + length ?x = tot then Inl (CSP_ERR_NONE, Some ?d, int tot) else Inr (Some ?d, of_nat tot, of_nat (off + length ?x)), ?s)"
    using sfp_recv_step_frame [of s1 p ?x "of_nat off" "of_nat tot" ml d datasize data, OF rd(2,3) pre "1.prems"(5), unfolded un si Let_def] .
  show ?case
  proof (cases "off + length ?x = tot")
    case True
    then have "mtu \<ge> length rest" using "1.prems"(3) by simp
    then show ?thesis using rd(1) step True "1.prems"(3,6) by (subst sfp_recv_loop.simps) simp
  next
    case False
    then have rest: "drop mtu rest \<noteq> []" "off + length ?x + length (drop mtu rest) = tot" "length ?d = tot" using "1.prems"(3,6) by auto
    obtain s' where s': "(case csp_read nh wt conn t ?s of
             (None, s) \<Rightarrow> Some ((CSP_ERR_TIMEDOUT, None, 0), s)
           | (Some p, s) \<Rightarrow> sfp_recv_loop nh wt ml conn t (Some ?d, of_nat tot, of_nat (off + length ?x)) p s)
         = Some ((CSP_ERR_NONE, Some (take (off + length ?x) ?d @ drop mtu rest), int tot), s')"
      using "1.IH" [OF _ rest(1) "1.prems"(2) rest(2) "1.prems"(4) _ rest(3) rd(4), where data = "Some ?d" and datasize = "of_nat tot"] "1.prems"(1,2) by auto
    have "take (min (length rest) mtu) rest = take mtu rest" by (simp add: min_def)
    then have "take (off + length ?x) ?d @ drop mtu rest = take off d @ rest" using "1.prems"(3,6) by simp
    with s' show ?thesis
      unfolding rd(1) prod.case option.case
      by (subst sfp_recv_loop.simps) (simp only: step False if_False prod.case sum.case; blast)
  qed
qed

text \<open>C38. What \<open>csp_sfp_send\<close> sends is what \<open>csp_sfp_recv\<close> puts together: when the reads of a connection give
  the frames of a block in order, the receiver returns \<open>CSP_ERR_NONE\<close> with a block that has
  the same bytes and size, whatever the size of the pieces is.\<close>

theorem csp_sfp_transfer:
  assumes "data \<noteq> []" "length data < 2 ^ 31" "mtu \<noteq> 0" "ml (of_nat (length data)) = Some d" "length d = length data"
    "sfp_feed nh wt conn t (sfp_frames mtu (length data) 0 data) s"
  shows "\<exists>s'. csp_sfp_recv nh wt ml conn t s = Some ((CSP_ERR_NONE, Some data, int (length data)), s')"
  using sfp_recv_frames [where rest = data and off = 0 and data = None and datasize = 0
      and mtu = mtu and tot = "length data" and ml = ml and d = d and nh = nh and wt = wt and conn = conn and t = t and s = s] assms
  by (simp add: csp_sfp_recv_def csp_sfp_recv_fp_def split: prod.splits option.splits)

section \<open>Frames in the queue of a connection\<close>

lemma header_remove_frame:
  "arr_conn (snd (csp_sfp_header_remove p s)) = arr_conn s" "q \<noteq> p \<Longrightarrow> pkt (snd (csp_sfp_header_remove p s)) q = pkt s q"
  "own dh f (snd (csp_sfp_header_remove p s)) = own dh f s"
  by (simp_all add: csp_sfp_header_remove_def Let_def) (simp_all add: upd_pkt_def on_core_def write_data_def)

lemma free_pkt_packet: "packet (core (free_pkt p s)) = packet (core s)" "arr_conn (free_pkt p s) = arr_conn s"
  by (auto simp: free_pkt_def on_core_def csp_buffer_free_def Let_def upd_skbf_def packet_def fun_eq_iff split: prod.splits)

lemma sfp_feed_queue:
  assumes "conn_state (arr_conn s c) = CONN_OPEN" "id_flags (idin (arr_conn s c)) AND CSP_FRDP = 0"
    and "queue_ok (conn_rx_queue (arr_conn s c))" "queue_list (conn_rx_queue (arr_conn s c)) = map Some ps" "distinct ps"
    and "list_all2 (\<lambda>p x. payload (core s) p = x \<and> id_flags (pkt_id (pkt s p)) AND CSP_FFRAG \<noteq> 0) ps xs"
  shows "sfp_feed nh wt (Some c) t xs s"
  using assms
proof (induction ps arbitrary: xs s)
  case Nil
  then show ?case by simp
next
  case (Cons p ps)
  then obtain x ys where xs: "xs = x # ys" "payload (core s) p = x" "id_flags (pkt_id (pkt s p)) AND CSP_FFRAG \<noteq> 0"
      "list_all2 (\<lambda>p x. payload (core s) p = x \<and> id_flags (pkt_id (pkt s p)) AND CSP_FFRAG \<noteq> 0) ps ys"
    by (auto simp: list_all2_Cons1)
  let ?q = "conn_rx_queue (arr_conn s c)"
  obtain q' where deq: "csp_queue_dequeue ?q = (Some (Some p), q')" "queue_ok q'" "queue_list q' = map Some ps"
    using csp_q.dequeue_some [of ?q "Some p" "map Some ps"] Cons.prems(3,4) by (metis list.simps(9) prod.collapse)
  define s1 where "s1 = upd_conn c (\<lambda>k. k\<lparr>conn_rx_queue := q'\<rparr>) s"
  have rd: "csp_read nh wt (Some c) t s = (Some p, s1)"
    using Cons.prems(1-4) deq csp_q.size_of_contents [of ?q] by (simp add: csp_read_def conn_dequeue_def s1_def Let_def) (simp add: upd_conn_def)
  let ?s = "free_pkt p (snd (csp_sfp_header_remove p s1))"
  have kept: "pkt ?s q = pkt s q" if "q \<in> set ps" for q
    using that Cons.prems(5) header_remove_frame(2) [of q p s1] by (auto simp: free_pkt_packet) (auto simp: s1_def upd_conn_def)
  have "sfp_feed nh wt (Some c) t ys ?s"
  proof (rule Cons.IH)
    show "list_all2 (\<lambda>p x. payload (core ?s) p = x \<and> id_flags (pkt_id (pkt ?s p)) AND CSP_FFRAG \<noteq> 0) ps ys"
      by (rule list.rel_mono_strong [OF xs(4)]) (simp add: kept payload_def data_bytes_def)
  qed (use Cons.prems deq in \<open>simp_all add: free_pkt_packet header_remove_frame s1_def upd_conn_def\<close>)
  then show ?case using rd xs by (simp add: s1_def) (simp add: upd_conn_def)
qed

text \<open>A connection of the example node with the two frames of a block of three bytes.\<close>

definition example_sfp :: "unit csp_state" where
  "example_sfp = upd_conn 0 (\<lambda>k. k\<lparr>conn_state := CONN_OPEN,
       conn_rx_queue := snd (csp_queue_enqueue (snd (csp_queue_enqueue (conn_rx_queue k) (Some 0))) (Some 1))\<rparr>)
     (upd_pkt 0 (\<lambda>k. k\<lparr>pkt_id := example_id\<lparr>id_flags := CSP_FFRAG\<rparr>, pkt_length := 10, pkt_mem := mem_write (pkt_mem k) DATA_OFF [1, 2, 0, 0, 0, 0, 0, 0, 0, 3]\<rparr>)
     (upd_pkt 1 (\<lambda>k. k\<lparr>pkt_id := example_id\<lparr>id_flags := CSP_FFRAG\<rparr>, pkt_length := 9, pkt_mem := mem_write (pkt_mem k) DATA_OFF [3, 0, 0, 0, 2, 0, 0, 0, 3]\<rparr>)
     example_node))"

lemma example_sfp_feed: "sfp_feed nh wt (Some 0) t [[1, 2, 0, 0, 0, 0, 0, 0, 0, 3], [3, 0, 0, 0, 2, 0, 0, 0, 3]] example_sfp"
proof (rule sfp_feed_queue [where ps = "[0, 1]"])
  let ?q = "csp_queue_create_static CSP_CONN_RXQUEUE_LEN (\<lambda>_. None) :: addr option pthread_queue"
  let ?q1 = "snd (csp_queue_enqueue ?q (Some 0))" and ?q2 = "\<lambda>q. snd (csp_queue_enqueue q (Some 1))"
  have q: "conn_rx_queue (arr_conn example_sfp 0) = ?q2 ?q1" by (simp add: example_sfp_def upd_conn_def upd_pkt_def on_core_def) (simp add: example_node_def)
  have q1: "queue_ok ?q1 \<and> queue_list ?q1 = [Some 0] \<and> q_size ?q1 = CSP_CONN_RXQUEUE_LEN" using csp_q.enqueue_room [of ?q "Some 0"] by simp
  then have "queue_ok (?q2 ?q1) \<and> queue_list (?q2 ?q1) = [Some 0, Some 1]" using csp_q.enqueue_room [of ?q1 "Some 1"] by simp
  then show "queue_ok (conn_rx_queue (arr_conn example_sfp 0))" "queue_list (conn_rx_queue (arr_conn example_sfp 0)) = map Some [0, 1]"
    by (simp_all add: q)
  show "id_flags (idin (arr_conn example_sfp 0)) AND CSP_FRDP = 0" "conn_state (arr_conn example_sfp 0) = CONN_OPEN"
    by (simp_all add: example_sfp_def upd_conn_def upd_pkt_def on_core_def) (simp add: example_node_def zero_id_def)
qed (simp_all add: example_sfp_def upd_conn_def upd_pkt_def on_core_def payload_def data_bytes_def mem_write_same)

theorem csp_sfp_transfer_witness:
  "\<exists>s'. csp_sfp_recv (\<lambda>_. csp_lo_tx) (\<lambda>_ s. s) (\<lambda>n. Some (replicate (unat n) 0)) (Some 0) 100 example_sfp = Some ((0, Some [1, 2, 3], 3), s')"
proof -
  have fr: "sfp_frames 2 (length [1, 2, 3::u8]) 0 [1, 2, 3] = [[1, 2, 0, 0, 0, 0, 0, 0, 0, 3], [3, 0, 0, 0, 2, 0, 0, 0, 3]]" by code_simp
  show ?thesis
    using csp_sfp_transfer [of "[1, 2, 3]" 2 "\<lambda>n. Some (replicate (unat n) 0)" "replicate 3 0", OF _ _ _ _ _ example_sfp_feed [folded fr]] by simp
qed

section \<open>Arbitrary packets\<close>

text \<open>A host that has no block of 2 GiB; what a successful \<^verbatim>\<open>malloc\<close> returns has the size asked for.\<close>

definition malloc_ok :: "(u32 \<Rightarrow> u8 list option) \<Rightarrow> bool" where
  "malloc_ok ml \<longleftrightarrow> (\<forall>n m. ml n = Some m \<longrightarrow> length m = unat n \<and> unat n < 2 ^ 31)"

definition sfp_rx_ok :: "sfp_rx \<Rightarrow> bool" where
  "sfp_rx_ok acc \<longleftrightarrow> (case acc of (data, datasize, off) \<Rightarrow>
     (case data of None \<Rightarrow> off = 0 | Some d \<Rightarrow> length d = unat datasize \<and> unat datasize < 2 ^ 31 \<and> off < datasize))"

definition sfp_missing :: "sfp_rx \<Rightarrow> nat" where
  "sfp_missing acc = (case acc of (data, datasize, off) \<Rightarrow> case data of None \<Rightarrow> 2 ^ 31 | Some d \<Rightarrow> unat datasize - unat off)"

definition sfp_result_ok :: "sfp_result \<Rightarrow> bool" where
  "sfp_result_ok r \<longleftrightarrow> (case r of (e, data, n) \<Rightarrow>
     (case data of None \<Rightarrow> e \<noteq> CSP_ERR_NONE \<and> n = 0 | Some d \<Rightarrow> e = CSP_ERR_NONE \<and> n = int (length d)))"

lemma sfp_store:
  fixes off :: u32 and n :: u16
  assumes "length d = unat datasize" "unat datasize < 2 ^ 31" "off \<le> datasize" "off + ucast n \<le> datasize" "length xs = unat n"
  shows "unat (off + ucast n) = unat off + unat n" "length (take (unat off) d @ xs @ drop (unat off + unat n) d) = unat datasize"
proof -
  have "unat (ucast n :: u32) = unat n" "unat n < 2 ^ 16"
    using unsigned_less [of n, where ?'a = nat] by (simp_all add: unsigned_ucast_eq take_bit_nat_eq_self)
  with assms show one: "unat (off + ucast n) = unat off + unat n" by (subst unat_add_small) (simp_all add: word_le_nat_alt)
  with assms show "length (take (unat off) d @ xs @ drop (unat off + unat n) d) = unat datasize" by (simp add: word_le_nat_alt)
qed

lemma sfp_recv_step_ok:
  assumes ml: "malloc_ok ml" and acc: "sfp_rx_ok acc" and run: "sfp_recv_step ml p acc s = (r, s')"
  shows "s' = free_pkt p (snd (csp_sfp_header_remove p s))"
    "case r of Inl x \<Rightarrow> sfp_result_ok x | Inr acc' \<Rightarrow> sfp_rx_ok acc' \<and> sfp_missing acc' < sfp_missing acc"
proof -
  obtain data datasize off where a: "acc = (data, datasize, off)" by (cases acc)
  obtain hd s1 where hd: "csp_sfp_header_remove p s = (hd, s1)" by fastforce
  show "s' = free_pkt p (snd (csp_sfp_header_remove p s))"
    using run hd unfolding sfp_recv_step_def a by (auto simp: Let_def split: option.splits if_splits)
  show "case r of Inl x \<Rightarrow> sfp_result_ok x | Inr acc' \<Rightarrow> sfp_rx_ok acc' \<and> sfp_missing acc' < sfp_missing acc"
  proof (cases hd)
    case None
    with run hd show ?thesis by (auto simp: sfp_recv_step_def sfp_result_ok_def)
  next
    case (Some h)
    define ds where "ds = (if data = None then sfp_totalsize s1 p h else datasize)"
    define n where "n = pkt_length (pkt s1 p)"
    let ?xs = "data_bytes (core s1) p (unat n)"
    obtain dm where dm: "dm = (if data = None then ml (sfp_totalsize s1 p h) else data)" by blast
    show ?thesis
    proof (cases "sfp_offset s1 p h \<noteq> off \<or> dm = None \<or> off + ucast n > ds \<or> ds \<noteq> sfp_totalsize s1 p h")
      case True
      with run hd Some show ?thesis
        by (auto simp: sfp_recv_step_def a Let_def sfp_result_ok_def dm ds_def n_def split: option.splits if_splits)
    next
      case False
      then obtain d where d: "dm = Some d" by (cases dm) simp_all
      have le: "off \<le> ds" and len: "length d = unat ds" "unat ds < 2 ^ 31"
        using acc ml d unfolding a dm ds_def by (auto simp: sfp_rx_ok_def malloc_ok_def split: if_splits)
      let ?d = "take (unat off) d @ ?xs @ drop (unat off + unat n) d"
      have fit: "off + ucast n \<le> ds" "length ?xs = unat n" using False by (auto simp: data_bytes_def not_less)
      note st = sfp_store [OF len le fit]
      have r: "r = (if off + ucast n \<ge> ds then Inl (CSP_ERR_NONE, Some ?d, sint ds) else if n = 0 then Inl (CSP_ERR_SFP, None, 0) else Inr (Some ?d, ds, off + ucast n))"
        using run hd Some False d fit by (cases data; simp add: sfp_recv_step_def a Let_def dm ds_def n_def [symmetric] not_less split: if_splits; auto)
      have "uint ds < 2 ^ 31" using len(2) of_nat_less_iff [of "unat ds" "2 ^ 31", where ?'a = int] by simp
      moreover have "- (2 ^ 31) \<le> uint ds" by (rule order_trans [of _ 0]) simp_all
      ultimately have si: "sint ds = int (unat ds)" by (simp add: sint_uint signed_take_bit_int_eq_self)
      have "sfp_missing (Some ?d, ds, off + ucast n) < sfp_missing acc" if "n \<noteq> 0" "\<not> off + ucast n \<ge> ds"
      proof -
        from that(1) obtain m where "unat n = Suc m" by (cases "unat n") (auto simp: unat_eq_zero)
        then show ?thesis using that st(1) len(2) by (auto simp: sfp_missing_def a ds_def word_le_nat_alt split: option.splits)
      qed
      then show ?thesis unfolding r using st(2) si len(2) by (auto simp: sfp_result_ok_def sfp_rx_ok_def)
    qed
  qed
qed

context task_env
begin

lemma sfp_send_frames_safe: "safe dh f s \<Longrightarrow> sfp_send_frames nh wt c xs s = Some (r, s') \<Longrightarrow> safe dh f s'"
proof (induction xs arbitrary: s)
  case Nil
  then show ?case by simp
next
  case (Cons x xs)
  obtain b s1 where get: "in_core csp_buffer_get s = (b, s1)" by fastforce
  have one: "safe dh (otok b f) s1" using Cons.prems(1) by (rule safe_produce) (rule own_get [OF _ get])
  show ?case
  proof (cases "csp_conn_is_active c s \<and> b \<noteq> None")
    case False
    with Cons.prems get one show ?thesis by (auto split: if_splits)
  next
    case True
    then obtain p where p: "b = Some p" by blast
    define s2 where "s2 = upd_conn c (\<lambda>k. k\<lparr>idout := (idout k)\<lparr>id_flags := id_flags (idout k) OR CSP_FFRAG\<rparr>\<rparr>)
      (upd_pkt p (\<lambda>k. k\<lparr>pkt_mem := mem_write (pkt_mem k) DATA_OFF x, pkt_length := of_nat (length x)\<rparr>) s1)"
    obtain s3 where s3: "csp_send nh wt (Some c) (Some p) s2 = Some s3" "sfp_send_frames nh wt c xs s3 = Some (r, s')"
      using Cons.prems(2) True get p by (auto simp: s2_def Let_def split: bind_splits)
    have "safe dh (tok p f) s2" using one p by (auto simp: s2_def elim!: safe_map)
    from Cons.IH [OF send_safe [OF this s3(1)] s3(2)] show ?thesis .
  qed
qed

end

context leak_env
begin

lemma sfp_recv_loop_owes:
  assumes "malloc_ok ml" "c < CSP_CONN_MAX" "sfp_rx_ok acc" "owes dh L (tok p f) s"
  shows "\<exists>r s'. sfp_recv_loop nh wt ml (Some c) t acc p s = Some (r, s') \<and> owes dh L f s' \<and> sfp_result_ok r"
  using assms(3,4)
proof (induction "sfp_missing acc" arbitrary: acc p s rule: less_induct)
  case less
  obtain r s1 where st: "sfp_recv_step ml p acc s = (r, s1)" by fastforce
  note ok = sfp_recv_step_ok [OF assms(1) less.prems(1) st]
  have s1: "owes dh L f s1" unfolding ok(1)
    using less.prems(2) by (rule owes_consume) (rule own_free, simp add: header_remove_frame)
  show ?case
  proof (cases r)
    case (Inl x)
    with st ok(2) s1 show ?thesis by (subst sfp_recv_loop.simps) simp
  next
    case (Inr acc')
    obtain pk s2 where rd: "csp_read nh wt (Some c) t s1 = (pk, s2)" by fastforce
    note s2 = read_owes [OF s1 assms(2) rd]
    show ?thesis
    proof (cases pk)
      case None
      with st Inr rd s2 show ?thesis by (subst sfp_recv_loop.simps) (simp add: sfp_result_ok_def)
    next
      case (Some q)
      with less.hyps [of acc' q s2] ok(2) Inr s2 st rd show ?thesis by (subst sfp_recv_loop.simps) simp
    qed
  qed
qed

lemma sfp_recv_fp_owes:
  assumes ml: "malloc_ok ml" and c: "c < CSP_CONN_MAX" and s: "owes dh L (otok first f) s"
  shows "\<exists>r s'. csp_sfp_recv_fp nh wt ml (Some c) t first s = Some (r, s') \<and> owes dh L f s' \<and> sfp_result_ok r"
proof (cases first)
  case (Some p)
  with sfp_recv_loop_owes [OF ml c, of "(None, 0, 0)" p f s] s show ?thesis by (simp add: csp_sfp_recv_fp_def sfp_rx_ok_def)
next
  case None
  obtain pk s2 where rd: "csp_read nh wt (Some c) t s = (pk, s2)" by fastforce
  have "owes dh L (otok pk f) s2" using read_owes [OF _ c rd] s None by simp
  with sfp_recv_loop_owes [OF ml c, of "(None, 0, 0)" _ f s2] rd None show ?thesis
    by (cases pk) (auto simp: csp_sfp_recv_fp_def sfp_rx_ok_def sfp_result_ok_def)
qed

end

text \<open>C40. Whatever packets arrive, \<open>csp_sfp_recv_fp\<close> returns: it needs no more rounds than the block has bytes. It
  frees every packet it reads, and the first one, exactly once: all that is lost is what the other tasks
  lose while it waits (counts in \<open>L\<close>; nothing at all if \<open>L\<close> is \<open>{\<lambda>_. 0}\<close>). No step stores a byte outside
  the allocated block (\<open>sfp_rx_ok\<close>), and a block is given to the caller, with its size, exactly on success. The
  hypothesis \<open>malloc_ok\<close> is a host that has no block of 2 GiB or more; for one that has blocks of almost 4 GiB
  the bounds fail, see \<open>sfp_recv_wraps\<close>.\<close>

theorem csp_sfp_recv_fp_safe:
  assumes env: "leak_env nh dh wt L" and ml: "malloc_ok ml" and c: "c < CSP_CONN_MAX" and own: "own dh (otok first f) s"
  shows "\<exists>e data n s'. csp_sfp_recv_fp nh wt ml (Some c) t first s = Some ((e, data, n), s')
    \<and> (\<exists>g\<in>L. own dh (\<lambda>x. f x + g x) s')
    \<and> (case data of None \<Rightarrow> e \<noteq> CSP_ERR_NONE \<and> n = 0 | Some d \<Rightarrow> e = CSP_ERR_NONE \<and> n = int (length d))
    \<and> (\<forall>acc p acc' u u'. sfp_rx_ok acc \<and> sfp_recv_step ml p acc u = (Inr acc', u') \<longrightarrow> sfp_rx_ok acc')"
proof -
  have "owes dh L (otok first f) s" using leak_env.owesI [OF env own] .
  from leak_env.sfp_recv_fp_owes [OF env ml c this, of t] obtain e data n s' where
    run: "csp_sfp_recv_fp nh wt ml (Some c) t first s = Some ((e, data, n), s')" and s': "owes dh L f s'" "sfp_result_ok (e, data, n)"
    by (metis prod_cases3)
  have "sfp_rx_ok acc'" if "sfp_rx_ok acc" "sfp_recv_step ml p acc u = (Inr acc', u')" for acc p acc' u u'
    using sfp_recv_step_ok(2) [OF ml that] by simp
  with run s' show ?thesis unfolding owes_def sfp_result_ok_def by auto
qed

theorem csp_sfp_recv_fp_safe_witness:
  "\<exists>e data n s'. csp_sfp_recv_fp (\<lambda>_. csp_lo_tx) (\<lambda>t s. csp_conn_check_timeouts (\<lambda>_. csp_lo_tx) (clock_tick t s))
       (\<lambda>n. if n < 1000 then Some (replicate (unat n) 0) else None) (Some 0) 100 (Some 0) example_sender
     = Some ((e, data, n), s') \<and> own no_driver (\<lambda>_. 0) s'
     \<and> (case data of None \<Rightarrow> e \<noteq> CSP_ERR_NONE \<and> n = 0 | Some d \<Rightarrow> e = CSP_ERR_NONE \<and> n = int (length d))"
proof -
  let ?ml = "\<lambda>n :: u32. if n < 1000 then Some (replicate (unat n) (0 :: u8)) else None"
  have ml: "malloc_ok ?ml" by (auto simp: malloc_ok_def word_less_nat_alt)
  have "own no_driver (otok (Some 0) (\<lambda>_. 0)) example_sender" using example_sender_own by simp
  from csp_sfp_recv_fp_safe [OF lo_tx.timers.leak_env_axioms ml _ this, of 0 100] show ?thesis by simp blast
qed

text \<open>The sum of offset and length is taken modulo \<open>2 ^ 32\<close>: with a block that large bytes are stored behind its end.\<close>

lemma sfp_recv_wraps:
  assumes pay: "payload (core s) p = x @ be_bytes 4 (0xFFFFFFF0 :: u32) @ be_bytes 4 (0xFFFFFFFF :: u32)" and x: "length x = 32"
    and fl: "id_flags (pkt_id (pkt s p)) AND CSP_FFRAG \<noteq> 0" and d: "length d = unat (0xFFFFFFFF :: u32)"
  shows "\<exists>d'. fst (sfp_recv_step ml p (Some d, 0xFFFFFFFF, 0xFFFFFFF0) s) = Inr (Some d', 0xFFFFFFFF, 0x10) \<and> length d' > length d"
proof -
  obtain s' where s': "csp_sfp_header_remove p s = (Some 32, s')" "sfp_offset s' p 32 = 0xFFFFFFF0" "sfp_totalsize s' p 32 = 0xFFFFFFFF"
      "unat (pkt_length (pkt s' p)) = 32"
    by (rule sfp_header_received [OF pay fl]) (auto simp: x)
  have "pkt_length (pkt s' p) = 32" using arg_cong [OF s'(4), of "of_nat :: nat \<Rightarrow> u16"] by simp
  then show ?thesis using s' d by (simp add: sfp_recv_step_def Let_def data_bytes_def)
qed

end
