(* ===== verification/CSP_Tun.thy ===== *)
theory CSP_Tun
  imports CSP_Pbuf
begin

text \<open>
  The tunnel interface, \<^verbatim>\<open>src/src/interfaces/csp_if_tun.c\<close>: a packet for the other end is encrypted with its header
  into the payload of a new packet, a packet that arrives for this end is decrypted to a frame. The
  encryption is that of the application; the functions \<^verbatim>\<open>csp_crypto_encrypt\<close> and \<^verbatim>\<open>csp_crypto_decrypt\<close> are the parameters
  \<open>enc\<close> and \<open>dec\<close>, which give the length they return and the bytes they store. The defaults in the
  file only return \<open>-1\<close>.
\<close>

section \<open>Operations\<close>

type_synonym crypto_fn = "u8 list \<Rightarrow> int \<times> u8 list"

definition csp_crypto_decrypt :: crypto_fn where
  "csp_crypto_decrypt ciphertext_in = (-1, [])"

definition csp_crypto_encrypt :: crypto_fn where
  "csp_crypto_encrypt msg_begin = (-1, [])"

text \<open>A packet of the tunnel for this end. The length is passed as one byte.\<close>

definition tun_incoming :: "crypto_fn \<Rightarrow> addr \<Rightarrow> addr \<Rightarrow> addr \<Rightarrow> 'e node \<Rightarrow> int \<times> 'e node" where
  "tun_incoming dec i p new_packet s =
     (let s = snd (in_core (csp_id_setup_rx new_packet) s);
          (len, msg) = dec (data_bytes (core s) p (unat (ucast (pkt_length (pkt s p)) :: u8)));
          s = on_core (write_frame new_packet 0 msg) s
      in if len < 0
         then (CSP_ERR_NONE, upd_iface i (\<lambda>k. k\<lparr>if_rx_error := if_rx_error k + 1\<rparr>) (free_pkt p (free_pkt new_packet s)))
         else let s = upd_pkt new_packet (\<lambda>k. k\<lparr>frame_length := of_int len\<rparr>) s;
                  s = snd (in_core (csp_id_strip new_packet) (free_pkt p s))
              in (CSP_ERR_NONE, csp_qfifo_write (Some new_packet) (Some i) False s))"

text \<open>A packet for the other end.\<close>

definition tun_outgoing :: "crypto_fn \<Rightarrow> csp_if_tun_conf \<Rightarrow> addr \<Rightarrow> addr \<Rightarrow> addr \<Rightarrow> 'e node \<Rightarrow> int \<times> 'e node" where
  "tun_outgoing enc ifconf i p new_packet s =
     (let s = on_core (csp_id_prepend p) s;
          k = pkt s p;
          s = upd_pkt new_packet (\<lambda>q. q\<lparr>pkt_id := (pkt_id q)\<lparr>id_dst := of_int (tun_dst ifconf), id_src := of_int (tun_src ifconf),
                id_sport := 0, id_dport := 0, id_pri := id_pri (pkt_id k)\<rparr>, pkt_length := frame_length k\<rparr>) s;
          (len, ciphertext) = enc (frame_bytes (core s) p (unat (ucast (frame_length (pkt s p)) :: u8)));
          s = on_core (write_data new_packet 0 ciphertext) s;
          s = upd_pkt new_packet (\<lambda>q. q\<lparr>pkt_length := of_int len\<rparr>) s;
          s = on_core (csp_id_prepend new_packet) (free_pkt p s)
      in (CSP_ERR_NONE, csp_qfifo_write (Some new_packet) (Some i) False s))"

text \<open>The result \<open>None\<close> is a call that never returns, when \<open>csp_buffer_get_always\<close> finds no buffer.\<close>

definition csp_if_tun_tx :: "crypto_fn \<Rightarrow> crypto_fn \<Rightarrow> addr \<Rightarrow> u16 \<Rightarrow> addr \<Rightarrow> bool \<Rightarrow> 'e node \<Rightarrow> (int \<times> 'e node) option" where
  "csp_if_tun_tx enc dec i via p from_me s =
     (let ifconf = tun_data (drv s) (the (driver_data (iface s i)));
          (pk, s) = in_core csp_buffer_get_always s
      in case pk of
           None \<Rightarrow> None
         | Some new_packet \<Rightarrow>
             Some (if uint (id_dst (pkt_id (pkt s p))) = tun_src ifconf then tun_incoming dec i p new_packet s
                   else tun_outgoing enc ifconf i p new_packet s))"

definition csp_if_tun_init :: "addr \<Rightarrow> addr \<Rightarrow> 'e node \<Rightarrow> 'e node" where
  "csp_if_tun_init i ifconf s =
     (let s = upd_iface i (\<lambda>k. k\<lparr>driver_data := Some ifconf, if_name := Some ''TUN'', if_nexthop := Csp_if_tun_tx\<rparr>) s
      in s\<lparr>iflist := csp_iflist_add (Some i) (iflist s)\<rparr>)"

section \<open>Both directions\<close>

text \<open>A new buffer beside the packet.\<close>

lemma tun_new_buffer:
  assumes own: "own drv_held (tok p f) s" and free: "free_list (core s) \<noteq> []"
  shows "\<exists>q s1. in_core csp_buffer_get_always s = (Some q, s1) \<and> own drv_held (tok q (tok p f)) s1 \<and> q \<noteq> p \<and> s1 = s\<lparr>core := core s1\<rparr>
    \<and> csp_conf (core s1) = csp_conf (core s) \<and> pkt s1 q = fresh_packet q \<and> pkt s1 p = pkt s p"
proof -
  obtain r s1 where get: "in_core csp_buffer_get_always s = (r, s1)" by fastforce
  note eff = get_always_effect [OF own, of False, simplified, OF get]
  then obtain q where r: "r = Some q" using free by (cases r) auto
  have e: "own drv_held (tok q (tok p f)) s1" "buf_refs (core s) q = 0" "csp_conf (core s1) = csp_conf (core s)" "s1 = s\<lparr>core := core s1\<rparr>"
      "packet (core s1) = (packet (core s))(q := fresh_packet q)" using eff r by simp_all
  have "0 < buf_refs (core s) p" using own by (simp add: own_def tok_def)
  then have "q \<noteq> p" using e(2) by auto
  then show ?thesis using get r e by auto
qed

lemma own_swap: "tok p (tok q f) = tok q (tok p f)"
  by (auto simp: tok_apply fun_eq_iff)

lemma tun_outgoing_queued:
  fixes s :: "'e node"
  assumes own: "own drv_held (tok q (tok p f)) s" and qp: "q \<noteq> p" "pkt s q = fresh_packet q"
    and room: "length (queue_list (qfifo_queue s)) < q_size (qfifo_queue s)"
    and len: "unat (pkt_length (pkt s p)) + hdr_size (core s) < 2 ^ 16"
    and m: "m = take ((hdr_size (core s) + unat (pkt_length (pkt s p))) mod 256) (id_bytes (core s) (pkt_id (pkt s p)) @ payload (core s) p)"
    and enc: "fst (enc m) = int (length (snd (enc m)))" "length (snd (enc m)) < 2 ^ 16"
  shows "\<exists>s'. tun_outgoing enc conf i p q s = (CSP_ERR_NONE, s') \<and> own drv_held f s'
    \<and> queued i \<lparr>id_pri = id_pri (pkt_id (pkt s p)), id_flags = 0, id_src = of_int (tun_src conf), id_dst = of_int (tun_dst conf), id_dport = 0, id_sport = 0\<rparr> (snd (enc m)) s s'"
proof -
  let ?x = "\<lparr>id_pri = id_pri (pkt_id (pkt s p)), id_flags = 0, id_src = of_int (tun_src conf), id_dst = of_int (tun_dst conf), id_dport = 0, id_sport = 0\<rparr> :: csp_id"
  define s2 where "s2 = on_core (csp_id_prepend p) s"
  let ?h = "\<lambda>k. k\<lparr>pkt_id := (pkt_id k)\<lparr>id_dst := of_int (tun_dst conf), id_src := of_int (tun_src conf), id_sport := 0, id_dport := 0, id_pri := id_pri (pkt_id (pkt s2 p))\<rparr>, pkt_length := frame_length (pkt s2 p)\<rparr>"
  let ?g = "\<lambda>k. (?h k)\<lparr>pkt_mem := mem_write (pkt_mem k) DATA_OFF (snd (enc m)), pkt_length := of_int (fst (enc m))\<rparr>"
  define s6 where "s6 = free_pkt p (upd_pkt q ?g s2)"
  define s7 where "s7 = on_core (csp_id_prepend q) s6"
  have fl: "unat (frame_length (pkt s2 p)) = hdr_size (core s) + unat (pkt_length (pkt s p))"
    using len hdr_size_cases [of "core s"] by (auto simp: s2_def on_core_def csp_id_prepend_eq unat_add_small)
  let ?n = "hdr_size (core s) + unat (pkt_length (pkt s p))"
  have cut: "unat (ucast (frame_length (pkt s2 p)) :: u8) = ?n mod 256"
    unfolding unsigned_ucast_eq using fl by (simp add: take_bit_eq_mod)
  have "frame_bytes (core s2) p (?n mod 256) = take (?n mod 256) (frame_bytes (core s2) p ?n)"
    using mod_less_eq_dividend [of ?n 256] by (simp add: frame_bytes_def split_beta min_def)
  also have "frame_bytes (core s2) p ?n = id_bytes (core s) (pkt_id (pkt s p)) @ payload (core s) p"
    using frame_sent [OF len] fl by (simp add: s2_def on_core_def)
  finally have part: "frame_bytes (core s2) p (?n mod 256) = m" unfolding m .
  have "frame_begin (pkt s2 p) = (p, DATA_OFF - hdr_size (core s))" by (simp add: s2_def on_core_def csp_id_prepend_eq)
  then have other: "pkt (upd_pkt q ?h s2) p = pkt s2 p" "frame_bytes (core (upd_pkt q ?h s2)) p k = frame_bytes (core s2) p k" for k
    using qp(1) by (simp_all add: frame_bytes_def)
  have msg: "frame_bytes (core (upd_pkt q ?h s2)) p (unat (ucast (frame_length (pkt (upd_pkt q ?h s2) p)) :: u8)) = m"
    unfolding other cut by (rule part)
  have wr: "on_core (write_data q 0 ct) t = upd_pkt q (\<lambda>k. k\<lparr>pkt_mem := mem_write (pkt_mem k) DATA_OFF ct\<rparr>) t" for ct and t :: "'e node"
    by (simp add: on_core_def write_data_def upd_pkt_def) (subst mem_update, rule refl)
  have run: "tun_outgoing enc conf i p q s = (CSP_ERR_NONE, csp_qfifo_write (Some q) (Some i) False s7)"
    unfolding tun_outgoing_def s2_def [symmetric] Let_def msg split_beta wr upd_pkt_comp s7_def s6_def by simp
  have own6: "own drv_held (tok q f) s6" unfolding s6_def
    by (rule own_free) (use own in \<open>simp add: own_swap [of p] s2_def on_core_def own_core_cong\<close>)
  have own7: "own drv_held (tok q f) s7" using own6 by (simp add: s7_def on_core_def own_core_cong)
  have q6: "pkt s6 q = ?g (fresh_packet q)" using qp by (simp add: s6_def free_pkt_pkt) (simp add: s2_def on_core_def csp_id_prepend_other)
  have same: "qfifo_queue s7 = qfifo_queue s" by (simp add: s7_def s6_def s2_def on_core_def free_pkt_def upd_pkt_def)
  have "pkt_id (pkt s7 q) = ?x" using q6 by (simp add: s7_def on_core_def s2_def) (simp add: fresh_packet_def zero_packet_def zero_id_def)
  moreover have "payload (core s7) q = snd (enc m)"
  proof -
    have "unat (of_int (fst (enc m)) :: u16) = length (snd (enc m))" unfolding enc(1) using enc(2) by (simp add: unat_of_nat_small)
    then have "payload (core s6) q = snd (enc m)" using q6 by (simp add: payload_def data_bytes_def mem_write_same)
    then show ?thesis by (simp add: s7_def on_core_def)
  qed
  ultimately show ?thesis using run queued_write [OF own7 room same, of i] by simp
qed

lemma tun_incoming_queued:
  assumes own: "own drv_held (tok q (tok p f)) s" and qp: "q \<noteq> p" "pkt s q = fresh_packet q"
    and room: "length (queue_list (qfifo_queue s)) < q_size (qfifo_queue s)"
    and pay: "length (payload (core s) p) < 256" "dec (payload (core s) p) = (int (hdr_size (core s) + length body), id_bytes (core s) x @ body)"
    and x: "id_fits (core s) x" "hdr_size (core s) + length body < 2 ^ 16"
  shows "\<exists>s'. tun_incoming dec i p q s = (CSP_ERR_NONE, s') \<and> own drv_held f s' \<and> queued i x body s s'"
proof -
  let ?fr = "id_bytes (core s) x @ body" and ?o = "DATA_OFF - hdr_size (core s)"
  define s1 where "s1 = snd (in_core (csp_id_setup_rx q) s)"
  have s1: "s1 = upd_pkt q (\<lambda>k. k\<lparr>frame_begin := (q, ?o), frame_length := 0\<rparr>) s" unfolding s1_def setup_rx_effect by simp
  have fb1: "frame_begin (pkt s1 q) = (q, ?o)" "pkt s1 p = pkt s p" using qp(1) by (simp_all add: s1)
  have n8: "unat (ucast (pkt_length (pkt s p)) :: u8) = unat (pkt_length (pkt s p))"
    using pay(1) unfolding length_payload unsigned_ucast_eq by (simp add: take_bit_nat_eq_self)
  have cipher: "data_bytes (core s1) p (unat (ucast (pkt_length (pkt s1 p)) :: u8)) = payload (core s) p"
    unfolding fb1(2) n8 payload_def by (simp add: data_bytes_def fb1(2))
  let ?g = "\<lambda>k. k\<lparr>frame_begin := (q, ?o), pkt_mem := mem_write (pkt_mem k) (?o + 0) ?fr, frame_length := of_int (int (hdr_size (core s) + length body))\<rparr>"
  define s4 where "s4 = free_pkt p (upd_pkt q ?g s)"
  define s5 where "s5 = snd (in_core (csp_id_strip q) s4)"
  have st: "upd_pkt q (\<lambda>k. k\<lparr>frame_length := of_int (int (hdr_size (core s) + length body))\<rparr>) (on_core (write_frame q 0 ?fr) s1) = upd_pkt q ?g s"
    unfolding write_frame_upd [OF fb1(1)] unfolding s1 upd_pkt_comp by simp
  have run: "tun_incoming dec i p q s = (CSP_ERR_NONE, csp_qfifo_write (Some q) (Some i) False s5)"
    unfolding tun_incoming_def s1_def [symmetric] Let_def cipher pay(2) prod.case st s5_def s4_def by simp
  have own4: "own drv_held (tok q f) s4" unfolding s4_def by (rule own_free) (use own in \<open>simp add: own_swap [of p]\<close>)
  have own5: "own drv_held (tok q f) s5" using own4 by (simp add: s5_def in_core_def own_core_cong)
  have q4: "pkt s4 q = ?g (fresh_packet q)" using qp by (simp add: s4_def free_pkt_pkt)
  have conf: "csp_version (core s4) = csp_version (core s)" by (simp add: s4_def csp_version_def free_pkt_def on_core_def upd_pkt_def)
  have h4: "hdr_size (core s4) = hdr_size (core s)" "id_bytes (core s4) = id_bytes (core s)" "id_fits (core s4) = id_fits (core s)"
    using conf by (simp_all add: hdr_size_def id_bytes_def id_fits_def fun_eq_iff)
  have "mem_read (mem_write (\<lambda>_. 0) ?o ?fr) ?o (length ?fr) = ?fr" by (rule mem_write_same) simp
  then have "frame_bytes (core s4) q (hdr_size (core s4) + length body) = id_bytes (core s4) x @ body"
    using q4 by (simp add: h4 frame_bytes_def) (simp add: fresh_packet_def zero_packet_def)
  moreover have "frame_begin (packet (core s4) q) = (q, DATA_OFF - hdr_size (core s4))" "frame_length (packet (core s4) q) = of_nat (hdr_size (core s4) + length body)"
    using q4 by (simp_all add: h4)
  ultimately obtain c' where c': "csp_id_strip q (core s4) = (0, c')" "pkt_id (packet c' q) = x" "payload c' q = body"
    using id_strip_received [of "core s4" q body x] x h4 by auto
  have same: "qfifo_queue s5 = qfifo_queue s" by (simp add: s5_def s4_def in_core_def free_pkt_def on_core_def upd_pkt_def)
  have "core s5 = c'" using c'(1) by (simp add: s5_def in_core_def)
  then show ?thesis using run queued_write [OF own5 room same, of i] c'(2,3) by auto
qed

section \<open>Through the tunnel\<close>

text \<open>C36. A packet passes the tunnel unchanged. At the one end it becomes the payload of a packet from one tunnel address
  to the other, with its priority: the encryption of header and payload, cut to the frame length modulo 256, since
  the length is passed as a byte. At the other end a packet with that payload becomes the original packet, with its identifier,
  ports, flags and payload, if the frame and its encryption are shorter than 256 bytes and decryption inverts
  encryption. Both calls give up their packet exactly once.\<close>

theorem csp_tun_transfer:
  fixes s :: "'e node" and t :: "'g node"
  assumes crypto: "\<And>m. fst (enc m) = int (length (snd (enc m)))" "\<And>m. dec (snd (enc m)) = (int (length m), m)"
    and s: "own drv_held (tok p f) s" "free_list (core s) \<noteq> []" "length (queue_list (qfifo_queue s)) < q_size (qfifo_queue s)"
      "uint (id_dst (pkt_id (pkt s p))) \<noteq> tun_src (tun_data (drv s) (the (driver_data (iface s i))))"
    and pk: "unat (pkt_length (pkt s p)) \<le> CSP_BUFFER_SIZE" "id_fits (core s) (pkt_id (pkt s p))"
    and t: "own drv_held (tok p' f') t" "free_list (core t) \<noteq> []" "length (queue_list (qfifo_queue t)) < q_size (qfifo_queue t)"
      "uint (id_dst (pkt_id (pkt t p'))) = tun_src (tun_data (drv t) (the (driver_data (iface t j))))" "csp_version (core t) = csp_version (core s)"
  defines "n \<equiv> hdr_size (core s) + unat (pkt_length (pkt s p))" and "conf \<equiv> tun_data (drv s) (the (driver_data (iface s i)))"
  defines "c \<equiv> snd (enc (take (n mod 256) (id_bytes (core s) (pkt_id (pkt s p)) @ payload (core s) p)))"
  assumes c: "length c < 2 ^ 16"
  shows "(\<exists>s'. csp_if_tun_tx enc dec i via p fm s = Some (CSP_ERR_NONE, s') \<and> own drv_held f s' \<and> queued i
        \<lparr>id_pri = id_pri (pkt_id (pkt s p)), id_flags = 0, id_src = of_int (tun_src conf), id_dst = of_int (tun_dst conf), id_dport = 0, id_sport = 0\<rparr> c s s')
    \<and> (n < 256 \<and> length c < 256 \<and> payload (core t) p' = c \<longrightarrow>
        (\<exists>t'. csp_if_tun_tx enc dec j via' p' fm' t = Some (CSP_ERR_NONE, t') \<and> own drv_held f' t' \<and> queued j (pkt_id (pkt s p)) (payload (core s) p) t t'))"
proof (intro conjI impI)
  have b: "unat (pkt_length (pkt s p)) + hdr_size (core s) < 2 ^ 16" using pk(1) hdr_size_cases [of "core s"] by auto
  obtain q s1 where g: "in_core csp_buffer_get_always s = (Some q, s1)" "own drv_held (tok q (tok p f)) s1" "q \<noteq> p" "s1 = s\<lparr>core := core s1\<rparr>"
      "csp_conf (core s1) = csp_conf (core s)" "pkt s1 q = fresh_packet q" "pkt s1 p = pkt s p"
    using tun_new_buffer [OF s(1,2)] by blast
  have v1: "csp_version (core s1) = csp_version (core s)" using g(5) by (simp add: csp_version_def)
  have h1: "hdr_size (core s1) = hdr_size (core s)" "id_bytes (core s1) = id_bytes (core s)" using v1 by (simp_all add: hdr_size_def id_bytes_def fun_eq_iff)
  have q1: "qfifo_queue s1 = qfifo_queue s" "drv s1 = drv s" "iflist s1 = iflist s" by (subst g(4), simp)+
  have pay1: "payload (core s1) p = payload (core s) p" by (simp add: payload_def data_bytes_def g(7))
  have m1: "take (n mod 256) (id_bytes (core s) (pkt_id (pkt s p)) @ payload (core s) p) =
      take ((hdr_size (core s1) + unat (pkt_length (pkt s1 p))) mod 256) (id_bytes (core s1) (pkt_id (pkt s1 p)) @ payload (core s1) p)"
    by (simp add: n_def h1 g(7) pay1)
  have run1: "csp_if_tun_tx enc dec i via p fm s = Some (tun_outgoing enc conf i p q s1)"
    using s(4) g(7) by (simp add: csp_if_tun_tx_def g(1) conf_def Let_def)
  obtain s' where "tun_outgoing enc conf i p q s1 = (CSP_ERR_NONE, s')" "own drv_held f s'" "queued i
      \<lparr>id_pri = id_pri (pkt_id (pkt s1 p)), id_flags = 0, id_src = of_int (tun_src conf), id_dst = of_int (tun_dst conf), id_dport = 0, id_sport = 0\<rparr> c s1 s'"
    using tun_outgoing_queued [OF g(2,3,6) _ _ m1, of enc conf i] s(3) b c crypto(1) unfolding q1(1) h1 g(7) c_def by auto
  then show "\<exists>s'. csp_if_tun_tx enc dec i via p fm s = Some (CSP_ERR_NONE, s') \<and> own drv_held f s' \<and> queued i
        \<lparr>id_pri = id_pri (pkt_id (pkt s p)), id_flags = 0, id_src = of_int (tun_src conf), id_dst = of_int (tun_dst conf), id_dport = 0, id_sport = 0\<rparr> c s s'"
    using run1 g(7) q1(1) by (auto simp: queued_def)
next
  assume a: "n < 256 \<and> length c < 256 \<and> payload (core t) p' = c"
  let ?fr = "id_bytes (core s) (pkt_id (pkt s p)) @ payload (core s) p"
  obtain q t1 where g: "in_core csp_buffer_get_always t = (Some q, t1)" "own drv_held (tok q (tok p' f')) t1" "q \<noteq> p'" "t1 = t\<lparr>core := core t1\<rparr>"
      "csp_conf (core t1) = csp_conf (core t)" "pkt t1 q = fresh_packet q" "pkt t1 p' = pkt t p'"
    using tun_new_buffer [OF t(1,2)] by blast
  have v1: "csp_version (core t1) = csp_version (core s)" using g(5) t(5) by (simp add: csp_version_def)
  have h1: "hdr_size (core t1) = hdr_size (core s)" "id_bytes (core t1) = id_bytes (core s)" "id_fits (core t1) = id_fits (core s)"
    using v1 by (simp_all add: hdr_size_def id_bytes_def id_fits_def fun_eq_iff)
  have q1: "qfifo_queue t1 = qfifo_queue t" "drv t1 = drv t" "iflist t1 = iflist t" by (subst g(4), simp)+
  have len: "length ?fr = n" "n = hdr_size (core s) + length (payload (core s) p)" by (simp_all add: n_def length_payload)
  have pay1: "payload (core t1) p' = snd (enc ?fr)" using a len by (simp add: payload_def data_bytes_def g(7) c_def)
  then have dec1: "dec (payload (core t1) p') = (int (hdr_size (core t1) + length (payload (core s) p)), id_bytes (core t1) (pkt_id (pkt s p)) @ payload (core s) p)"
    using crypto(2) [of ?fr] len h1 by simp
  have "length (payload (core t1) p') < 256" using a by (simp add: payload_def data_bytes_def g(7))
  from tun_incoming_queued [where dec = dec and i = j, OF g(2,3,6) _ this dec1] obtain t' where "tun_incoming dec j p' q t1 = (CSP_ERR_NONE, t')" "own drv_held f' t'"
      "queued j (pkt_id (pkt s p)) (payload (core s) p) t1 t'"
    using t(3) pk(2) a len(2) by (auto simp: q1 h1)
  then show "\<exists>t'. csp_if_tun_tx enc dec j via' p' fm' t = Some (CSP_ERR_NONE, t') \<and> own drv_held f' t' \<and> queued j (pkt_id (pkt s p)) (payload (core s) p) t t'"
    using t(4) g(1,7) q1 by (simp add: csp_if_tun_tx_def Let_def queued_def)
qed

text \<open>An empty packet, with an encryption that does nothing.\<close>

definition example_tun :: "unit node" where
  "example_tun = upd_pkt 0 (\<lambda>k. k\<lparr>pkt_id := zero_id\<lparr>id_dst := 5\<rparr>, pkt_length := 6,
     pkt_mem := mem_write (pkt_mem k) DATA_OFF (id_bytes (core (example_wired ())) zero_id)\<rparr>) (example_wired ())"

theorem csp_tun_transfer_witness:
  "\<exists>s' t'. csp_if_tun_tx (\<lambda>m. (int (length m), m)) (\<lambda>m. (int (length m), m)) 1 0 0 True (example_wired ()) = Some (CSP_ERR_NONE, s')
     \<and> csp_if_tun_tx (\<lambda>m. (int (length m), m)) (\<lambda>m. (int (length m), m)) 1 0 0 False example_tun = Some (CSP_ERR_NONE, t')
     \<and> queued 1 zero_id [] example_tun t'"
proof -
  let ?s = "example_wired ()" and ?t = "example_tun" and ?e = "\<lambda>m :: u8 list. (int (length m), m)"
  have p: "pkt ?s 0 = fresh_packet 0" "free_list (core ?s) = [1..<15]" by (simp_all add: example_wired_facts(4) example_sender_pkt)
  have x: "pkt_id (pkt ?s 0) = zero_id" "unat (pkt_length (pkt ?s 0)) = 0" by (simp_all add: p fresh_packet_def zero_packet_def)
  have pay: "payload (core ?s) 0 = []" using x(2) length_payload [of "core ?s" 0] by (metis length_0_conv)
  have h: "hdr_size (core ?s) = 6" using example_wired_facts(5) [of "()"] by (simp add: hdr_size_def)
  have tun: "tun_data (drv ?s) d = \<lparr>tun_src = 5, tun_dst = 9\<rparr>" "tun_data (drv ?t) d = \<lparr>tun_src = 5, tun_dst = 9\<rparr>" for d
    by (simp_all add: example_tun_def) (simp_all add: example_wired_def with_drv_def upd_iface_def)
  have room: "length (queue_list (qfifo_queue ?s)) < q_size (qfifo_queue ?s)" "qfifo_queue ?t = qfifo_queue ?s"
    by (simp_all add: example_wired_facts(3) example_tun_def upd_pkt_def on_core_def)
  have fits: "id_fits (core ?s) (pkt_id (pkt ?s 0))" using example_wired_facts(5) [of "()"] by (simp add: id_fits_def x zero_id_def id2_fits_def)
  have own: "own drv_held (tok 0 (\<lambda>_. 0)) ?s" "own drv_held (tok 0 (\<lambda>_. 0)) ?t" using example_wired_facts(1) [of "()"] by (simp_all add: example_tun_def)
  have t: "free_list (core ?t) \<noteq> []" "pkt_id (pkt ?t 0) = zero_id\<lparr>id_dst := 5\<rparr>" "csp_version (core ?t) = csp_version (core ?s)"
    using p(2) by (simp_all add: example_tun_def) (simp_all add: upd_pkt_def on_core_def csp_version_def)
  have pt: "payload (core ?t) 0 = id_bytes (core ?s) zero_id"
    using h by (simp add: example_tun_def payload_def data_bytes_def mem_write_same)
  from csp_tun_transfer [where enc = ?e and dec = ?e and i = 1 and j = 1 and via = 0 and via' = 0 and fm = True and fm' = False, OF _ _ own(1) _ room(1) _ _ fits own(2) t(1) _ _ t(3)]
  show ?thesis using p(2) room x h pay pt t(2) tun by (auto simp: zero_id_def)
qed

end
