(* ===== verification/CSP_Udp.thy ===== *)
theory CSP_Udp
  imports CSP_Pbuf
begin

text \<open>
  The UDP interface, \<^verbatim>\<open>src/src/interfaces/csp_if_udp.c\<close>: a frame per datagram. The system calls \<^verbatim>\<open>sendto\<close> and \<^verbatim>\<open>recvfrom\<close> act on
  the hardware and are the parameters \<open>sto\<close> and \<open>rcv\<close>; the former gets socket, bytes and port, the
  latter socket and size and gives the result and the bytes stored. Left out are the thread,
  the opening of the socket and the address of the peer.
\<close>

section \<open>Operations\<close>

type_synonym 'e sendto_fn = "int \<Rightarrow> u8 list \<Rightarrow> u16 \<Rightarrow> 'e \<Rightarrow> 'e"
type_synonym 'e recvfrom_fn = "int \<Rightarrow> nat \<Rightarrow> 'e \<Rightarrow> (int \<times> u8 list) \<times> 'e"

definition csp_if_udp_tx :: "'e sendto_fn \<Rightarrow> addr \<Rightarrow> u16 \<Rightarrow> addr \<Rightarrow> bool \<Rightarrow> 'e node \<Rightarrow> int \<times> 'e node" where
  "csp_if_udp_tx sto i via p from_me s =
     (let d = the (driver_data (iface s i))
      in if udp_sockfd (udp_data (drv s) d) = 0 then (CSP_ERR_NONE, free_pkt p s)
         else let s = on_core (csp_id_prepend p) s;
                  s = upd_udp d (\<lambda>k. k\<lparr>udp_peer_port := of_int (udp_rport k)\<rparr>) s;
                  ifconf = udp_data (drv s) d;
                  s = upd_hw (sto (udp_sockfd ifconf) (frame_bytes (core s) p (unat (frame_length (pkt s p)))) (udp_peer_port ifconf)) s
              in (CSP_ERR_NONE, free_pkt p s))"

definition csp_if_udp_rx_work :: "'e recvfrom_fn \<Rightarrow> int \<Rightarrow> addr \<Rightarrow> 'e node \<Rightarrow> int \<times> 'e node" where
  "csp_if_udp_rx_work rcv sockfd i s =
     (let (pk, s) = in_core csp_buffer_get s
      in case pk of
           None \<Rightarrow> (CSP_ERR_NOMEM, s)
         | Some p \<Rightarrow>
             let (header_size, s) = in_core (csp_id_setup_rx p) s;
                 ((received_len, bs), e) = rcv sockfd (CSP_BUFFER_SIZE + header_size) (hw (drv s));
                 s = on_core (write_frame p 0 bs) (upd_hw (\<lambda>_. e) s)
             in if received_len < int header_size then (CSP_ERR_NOMEM, free_pkt p s)
                else let s = upd_pkt p (\<lambda>k. k\<lparr>frame_length := of_int received_len\<rparr>) s;
                         (r, s) = in_core (csp_id_strip p) s
                     in if r \<noteq> 0 then (CSP_ERR_INVAL, free_pkt p s)
                        else (CSP_ERR_NONE, csp_qfifo_write (Some p) (Some i) False s))"

text \<open>One round of the second loop of \<^verbatim>\<open>csp_if_udp_rx_loop\<close>; the pause after \<^verbatim>\<open>CSP_ERR_NOMEM\<close> changes nothing.\<close>

definition udp_rx_round :: "'e recvfrom_fn \<Rightarrow> addr \<Rightarrow> 'e node \<Rightarrow> 'e node" where
  "udp_rx_round rcv i s =
     (let (ret, s) = csp_if_udp_rx_work rcv (udp_sockfd (udp_data (drv s) (the (driver_data (iface s i))))) i s
      in if ret = CSP_ERR_INVAL then upd_iface i (\<lambda>k. k\<lparr>if_rx_error := if_rx_error k + 1\<rparr>) s else s)"

text \<open>Registration.\<close>

definition csp_if_udp_init :: "addr \<Rightarrow> addr \<Rightarrow> 'e node \<Rightarrow> 'e node" where
  "csp_if_udp_init i ifconf s =
     (let s = upd_iface i (\<lambda>k. k\<lparr>driver_data := Some ifconf, if_name := Some ''UDP'', if_nexthop := Csp_if_udp_tx\<rparr>) s
      in s\<lparr>iflist := csp_iflist_add (Some i) (iflist s)\<rparr>)"

section \<open>From one node to the other\<close>

lemma udp_rx_buffer:
  fixes s :: "'e node"
  assumes own: "own drv_held f s" and free: "2 \<le> length (free_list (core s))"
    and rcv: "rcv fd (CSP_BUFFER_SIZE + hdr_size (core s)) (hw (drv s)) = ((n, bs), e)"
  shows "\<exists>p s2. (\<exists>c. s2 = upd_hw (\<lambda>_. e) (s\<lparr>core := c\<rparr>)) \<and> own drv_held (tok p f) s2 \<and> csp_conf (core s2) = csp_conf (core s)
    \<and> pkt s2 p = (fresh_packet p)\<lparr>frame_begin := (p, DATA_OFF - hdr_size (core s)), pkt_mem := mem_write (\<lambda>_. 0) (DATA_OFF - hdr_size (core s)) bs\<rparr>
    \<and> csp_if_udp_rx_work rcv fd i s = (if n < int (hdr_size (core s)) then (CSP_ERR_NOMEM, free_pkt p s2)
        else let s = upd_pkt p (\<lambda>k. k\<lparr>frame_length := of_int n\<rparr>) s2; (r, s) = in_core (csp_id_strip p) s
             in if r \<noteq> 0 then (CSP_ERR_INVAL, free_pkt p s) else (CSP_ERR_NONE, csp_qfifo_write (Some p) (Some i) False s))"
proof -
  obtain r s1 where get: "in_core csp_buffer_get s = (r, s1)" by fastforce
  note eff = get_effect [OF own, of False, simplified, OF get]
  then obtain p where r: "r = Some p" using free by (cases r) auto
  have e: "own drv_held (tok p f) s1" "packet (core s1) = (packet (core s))(p := fresh_packet p)" using eff(4) r by simp_all
  have h: "hdr_size (core s1) = hdr_size (core s)" using eff(2) by (simp add: hdr_size_def csp_version_def)
  have d: "drv s1 = drv s" by (subst eff(1)) simp
  let ?o = "DATA_OFF - hdr_size (core s)"
  let ?u = "upd_pkt p (\<lambda>k. k\<lparr>frame_begin := (p, ?o), frame_length := 0\<rparr>) s1"
  let ?s2 = "on_core (write_frame p 0 bs) (upd_hw (\<lambda>_. e) ?u)"
  have fb: "frame_begin (pkt (upd_hw (\<lambda>_. e) ?u) p) = (p, ?o)" by simp
  have w: "?s2 = upd_pkt p (\<lambda>k. k\<lparr>pkt_mem := mem_write (pkt_mem k) (?o + 0) bs\<rparr>) (upd_hw (\<lambda>_. e) ?u)" by (rule write_frame_upd [OF fb])
  have "?s2 = upd_hw (\<lambda>_. e) (s\<lparr>core := core ?s2\<rparr>)" unfolding w by (subst eff(1)) (simp add: upd_pkt_def on_core_def upd_hw_def)
  moreover have "own drv_held (tok p f) ?s2" unfolding w using e(1) by simp
  moreover have "csp_conf (core ?s2) = csp_conf (core s)" unfolding w using eff(2) by (simp add: upd_pkt_def on_core_def)
  moreover have "pkt ?s2 p = (fresh_packet p)\<lparr>frame_begin := (p, ?o), pkt_mem := mem_write (\<lambda>_. 0) ?o bs\<rparr>"
    unfolding w using e(2) by (simp add: fresh_packet_def zero_packet_def)
  moreover have "csp_if_udp_rx_work rcv fd i s = (if n < int (hdr_size (core s)) then (CSP_ERR_NOMEM, free_pkt p ?s2)
        else let s = upd_pkt p (\<lambda>k. k\<lparr>frame_length := of_int n\<rparr>) ?s2; (r, s) = in_core (csp_id_strip p) s
             in if r \<noteq> 0 then (CSP_ERR_INVAL, free_pkt p s) else (CSP_ERR_NONE, csp_qfifo_write (Some p) (Some i) False s))"
    using rcv d by (simp add: csp_if_udp_rx_work_def get r setup_rx_effect h Let_def)
  ultimately show ?thesis by blast
qed

text \<open>A packet that is sent by UDP arrives: the datagram that \<open>csp_if_udp_tx\<close> gives to the socket is the header and
  the payload, and \<open>csp_if_udp_rx_work\<close> of a node with two buffers left that gets it queues a packet with the
  same identifier and payload. On any other datagram, and on an error of \<^verbatim>\<open>recvfrom\<close>, the receiver keeps the accounting,
  and what is shorter than a header is dropped. Both give up their packet exactly once.\<close>

theorem csp_udp_transfer:
  fixes s :: "'e node" and t :: "'g node"
  assumes s: "own drv_held (tok p f) s" "udp_sockfd (udp_data (drv s) (the (driver_data (iface s i)))) \<noteq> 0"
    and pk: "unat (pkt_length (pkt s p)) \<le> CSP_BUFFER_SIZE" "id_fits (core s) (pkt_id (pkt s p))"
    and t: "own drv_held g t" "2 \<le> length (free_list (core t))" "length (queue_list (qfifo_queue t)) < q_size (qfifo_queue t)" "csp_version (core t) = csp_version (core s)"
    and rcv: "rcv fd (CSP_BUFFER_SIZE + hdr_size (core t)) (hw (drv t)) = ((n, bs), e)"
  defines "conf \<equiv> udp_data (drv s) (the (driver_data (iface s i)))" and "dgram \<equiv> id_bytes (core s) (pkt_id (pkt s p)) @ payload (core s) p"
  shows "(\<exists>s'. csp_if_udp_tx sto i via p fm s = (CSP_ERR_NONE, s') \<and> own drv_held f s' \<and> hw (drv s') = sto (udp_sockfd conf) dgram (of_int (udp_rport conf)) (hw (drv s)))
    \<and> (\<exists>r t'. csp_if_udp_rx_work rcv fd j t = (r, t') \<and> own drv_held g t' \<and> hw (drv t') = e
        \<and> (n < int (hdr_size (core t)) \<longrightarrow> r = CSP_ERR_NOMEM \<and> qfifo_queue t' = qfifo_queue t)
        \<and> (n = int (length bs) \<and> bs = dgram \<longrightarrow> r = CSP_ERR_NONE \<and> queued j (pkt_id (pkt s p)) (payload (core s) p) t t'))"
proof (rule conjI)
  let ?d = "the (driver_data (iface s i))"
  have b: "unat (pkt_length (pkt s p)) + hdr_size (core s) < 2 ^ 16" using pk(1) hdr_size_cases [of "core s"] by auto
  define s1 where "s1 = upd_udp ?d (\<lambda>k. k\<lparr>udp_peer_port := of_int (udp_rport k)\<rparr>) (on_core (csp_id_prepend p) s)"
  have fr: "frame_bytes (core s1) p (unat (frame_length (pkt s1 p))) = dgram" using frame_sent [OF b] by (simp add: s1_def dgram_def on_core_def)
  have c1: "udp_sockfd (udp_data (drv s1) ?d) = udp_sockfd conf" "udp_peer_port (udp_data (drv s1) ?d) = of_int (udp_rport conf)" by (simp_all add: s1_def on_core_def conf_def)
  let ?s2 = "upd_hw (sto (udp_sockfd conf) dgram (of_int (udp_rport conf))) s1"
  have "csp_if_udp_tx sto i via p fm s = (CSP_ERR_NONE, free_pkt p ?s2)"
    using s(2) unfolding csp_if_udp_tx_def Let_def s1_def [symmetric] fr c1 by simp
  moreover have "own drv_held f (free_pkt p ?s2)" by (rule own_free) (use s(1) in \<open>simp add: s1_def on_core_def own_core_cong\<close>)
  moreover have "hw (drv (free_pkt p ?s2)) = sto (udp_sockfd conf) dgram (of_int (udp_rport conf)) (hw (drv s))" by (simp add: free_pkt_def on_core_def s1_def)
  ultimately show "\<exists>s'. csp_if_udp_tx sto i via p fm s = (CSP_ERR_NONE, s') \<and> own drv_held f s' \<and> hw (drv s') = sto (udp_sockfd conf) dgram (of_int (udp_rport conf)) (hw (drv s))"
    by blast
next
  let ?h = "hdr_size (core t)"
  obtain q t2 c where q: "t2 = upd_hw (\<lambda>_. e) (t\<lparr>core := c\<rparr>)" "own drv_held (tok q g) t2" "csp_conf (core t2) = csp_conf (core t)"
      "pkt t2 q = (fresh_packet q)\<lparr>frame_begin := (q, DATA_OFF - ?h), pkt_mem := mem_write (\<lambda>_. 0) (DATA_OFF - ?h) bs\<rparr>"
    and run: "csp_if_udp_rx_work rcv fd j t = (if n < int ?h then (CSP_ERR_NOMEM, free_pkt q t2)
        else let s = upd_pkt q (\<lambda>k. k\<lparr>frame_length := of_int n\<rparr>) t2; (r, s) = in_core (csp_id_strip q) s
             in if r \<noteq> 0 then (CSP_ERR_INVAL, free_pkt q s) else (CSP_ERR_NONE, csp_qfifo_write (Some q) (Some j) False s))"
    using udp_rx_buffer [where rcv = rcv and i = j, OF t(1,2) rcv] by blast
  define t3 where "t3 = upd_pkt q (\<lambda>k. k\<lparr>frame_length := of_int n\<rparr>) t2"
  obtain r t4 where strip: "in_core (csp_id_strip q) t3 = (r, t4)" by fastforce
  have own4: "own drv_held (tok q g) t4" using strip q(2) own_core_cong [of "snd (csp_id_strip q (core t3))" t3 drv_held "tok q g"] by (auto simp: in_core_def t3_def split_beta)
  have hw4: "hw (drv t4) = e" "qfifo_queue t4 = qfifo_queue t" using strip by (auto simp: in_core_def t3_def split_beta q(1) upd_pkt_def on_core_def)
  have res: "csp_if_udp_rx_work rcv fd j t = (if n < int ?h then (CSP_ERR_NOMEM, free_pkt q t2)
      else if r \<noteq> 0 then (CSP_ERR_INVAL, free_pkt q t4) else (CSP_ERR_NONE, csp_qfifo_write (Some q) (Some j) False t4))"
    unfolding run t3_def [symmetric] Let_def strip by simp
  note wr = queued_write [OF own4 t(3) hw4(2), of j]
  have drv4: "drv (csp_qfifo_write (Some q) (Some j) False t4) = drv t4" by (rule qfifo_write_same)
  have "r = 0 \<and> pkt_id (pkt t4 q) = pkt_id (pkt s p) \<and> payload (core t4) q = payload (core s) p \<and> \<not> n < int ?h" if a: "n = int (length bs)" "bs = dgram"
  proof -
    have "csp_version (core t3) = csp_version (core s)" using q(3) t(4) by (simp add: csp_version_def t3_def upd_pkt_def on_core_def)
    then have h3: "hdr_size (core t3) = hdr_size (core s)" "?h = hdr_size (core s)" "id_bytes (core t3) = id_bytes (core s)" "id_fits (core t3) = id_fits (core s)"
      using t(4) by (simp_all add: hdr_size_def id_bytes_def id_fits_def fun_eq_iff)
    have len: "length bs = hdr_size (core t3) + length (payload (core s) p)" using a(2) h3 by (simp add: dgram_def)
    have "mem_read (mem_write (\<lambda>_. 0) (DATA_OFF - ?h) bs) (DATA_OFF - ?h) (length bs) = bs" by (rule mem_write_same) simp
    then have "frame_bytes (core t3) q (hdr_size (core t3) + length (payload (core s) p)) = id_bytes (core t3) (pkt_id (pkt s p)) @ payload (core s) p"
      unfolding len [symmetric] h3(3) using q(4) a(2) by (simp add: t3_def frame_bytes_def dgram_def h3(2))
    moreover have "frame_begin (pkt t3 q) = (q, DATA_OFF - hdr_size (core t3))" "frame_length (pkt t3 q) = of_nat (hdr_size (core t3) + length (payload (core s) p))"
      using q(4) a(1) len h3 by (simp_all add: t3_def)
    moreover have "hdr_size (core t3) + length (payload (core s) p) < 2 ^ 16" using pk(1) h3 hdr_size_cases [of "core s"] by (auto simp: length_payload)
    ultimately obtain c' where "csp_id_strip q (core t3) = (0, c')" "pkt_id (packet c' q) = pkt_id (pkt s p)" "payload c' q = payload (core s) p"
      using id_strip_received [of "core t3" q "payload (core s) p" "pkt_id (pkt s p)"] pk(2) h3(4) by auto
    then show ?thesis using strip a(1) len h3 by (auto simp: in_core_def)
  qed
  moreover have "own drv_held g (free_pkt q t2)" "own drv_held g (free_pkt q t4)" using own_free q(2) own4 by blast+
  moreover have "hw (drv (free_pkt q t2)) = e" "qfifo_queue (free_pkt q t2) = qfifo_queue t" "hw (drv (free_pkt q t4)) = e" by (simp_all add: free_pkt_def on_core_def q(1) hw4)
  ultimately show "\<exists>r t'. csp_if_udp_rx_work rcv fd j t = (r, t') \<and> own drv_held g t' \<and> hw (drv t') = e
      \<and> (n < int ?h \<longrightarrow> r = CSP_ERR_NOMEM \<and> qfifo_queue t' = qfifo_queue t)
      \<and> (n = int (length bs) \<and> bs = dgram \<longrightarrow> r = CSP_ERR_NONE \<and> queued j (pkt_id (pkt s p)) (payload (core s) p) t t')"
    using res wr drv4 hw4 by (cases "n < int ?h"; cases "r = 0") auto
qed

end
