(* ===== verification/CSP_Zmq.thy ===== *)
theory CSP_Zmq
  imports CSP_Pbuf
begin

text \<open>
  The ZMQ interface, \<^verbatim>\<open>src/src/interfaces/csp_if_zmqhub.c\<close>: a frame per message, for CSP 1.x with the header in the byte order of the
  host behind a byte with the destination. \<^verbatim>\<open>zmq_send\<close> is the parameter \<open>zs\<close>; a message that \<^verbatim>\<open>zmq_msg_recv\<close> returns
  is the argument \<open>msg\<close> of the receiver. Left out are the sockets, the thread and the initialisation.
\<close>

section \<open>Operations\<close>

abbreviation (input) ZMQ_DEST_ADDR_SIZE_FIXUP_CSPV1 :: nat where "ZMQ_DEST_ADDR_SIZE_FIXUP_CSPV1 \<equiv> 1"

definition csp_zmqhub_fixup_cspv1_add_dest_addr :: "addr \<Rightarrow> csp_core \<Rightarrow> csp_core" where
  "csp_zmqhub_fixup_cspv1_add_dest_addr p s =
     (if csp_version s = 1
      then let s = upd_packet p (\<lambda>k. k\<lparr>frame_begin := (fst (frame_begin k), snd (frame_begin k) - ZMQ_DEST_ADDR_SIZE_FIXUP_CSPV1)\<rparr>) s;
               s = write_frame p 0 [ucast (id_dst (pkt_id (packet s p)))] s
           in upd_packet p (\<lambda>k. k\<lparr>frame_length := frame_length k + of_nat ZMQ_DEST_ADDR_SIZE_FIXUP_CSPV1\<rparr>) s
      else s)"

definition csp_zmqhub_fixup_cspv1_del_dest_addr :: "csp_core \<Rightarrow> u8 list \<Rightarrow> u8 list" where
  "csp_zmqhub_fixup_cspv1_del_dest_addr s rx_data = (if csp_version s = 1 then drop ZMQ_DEST_ADDR_SIZE_FIXUP_CSPV1 rx_data else rx_data)"

definition csp_zmqhub_tx :: "(u8 list \<Rightarrow> 'e \<Rightarrow> int \<times> 'e) \<Rightarrow> addr \<Rightarrow> u16 \<Rightarrow> addr \<Rightarrow> bool \<Rightarrow> 'e node \<Rightarrow> int \<times> 'e node" where
  "csp_zmqhub_tx zs i via p from_me s =
     (let s = on_core (csp_id_prepend_fixup_cspv1 p) s;
          s = on_core (csp_zmqhub_fixup_cspv1_add_dest_addr p) s;
          s = upd_hw (\<lambda>e. snd (zs (frame_bytes (core s) p (unat (frame_length (pkt s p)))) e)) s
      in (CSP_ERR_NONE, free_pkt p s))"

text \<open>One round of the loop of \<^verbatim>\<open>csp_zmqhub_task\<close>, on the message received.\<close>

definition zmq_header_size :: "csp_core \<Rightarrow> nat" where
  "zmq_header_size s = (if csp_version s = 2 then 6 else 4 + ZMQ_DEST_ADDR_SIZE_FIXUP_CSPV1)"

definition zmqhub_task_round :: "addr \<Rightarrow> u8 list \<Rightarrow> 'e node \<Rightarrow> 'e node" where
  "zmqhub_task_round i msg s =
     (if length msg < zmq_header_size (core s) then s
      else let (pk, s) = in_core csp_buffer_get s
           in case pk of
                None \<Rightarrow> s
              | Some p \<Rightarrow>
                  let rx_data = csp_zmqhub_fixup_cspv1_del_dest_addr (core s) msg;
                      s = snd (in_core (csp_id_setup_rx p) s);
                      s = on_core (write_frame p 0 rx_data) s;
                      s = upd_pkt p (\<lambda>k. k\<lparr>frame_length := of_nat (length rx_data)\<rparr>) s;
                      (r, s) = in_core (csp_id_strip_fixup_cspv1 p) s
                  in if r \<noteq> 0 then free_pkt p (upd_iface i (\<lambda>k. k\<lparr>if_rx_error := if_rx_error k + 1\<rparr>) s)
                     else csp_qfifo_write (Some p) (Some i) False s)"

section \<open>Messages sent\<close>

definition zmq_message :: "csp_core \<Rightarrow> csp_id \<Rightarrow> u8 list \<Rightarrow> u8 list" where
  "zmq_message c x pay = (if csp_version c = 1 then ucast (id_dst x) # id1_bytes True x @ pay else id2_bytes x @ pay)"

lemma zmq_frame_sent:
  assumes v: "csp_version c = 1 \<or> csp_version c = 2" and len: "unat (pkt_length (packet c p)) \<le> CSP_BUFFER_SIZE"
  defines "c' \<equiv> csp_zmqhub_fixup_cspv1_add_dest_addr p (csp_id_prepend_fixup_cspv1 p c)"
  shows "frame_bytes c' p (unat (frame_length (packet c' p))) = zmq_message c (pkt_id (packet c p)) (payload c p)"
proof (cases "csp_version c = 1")
  case False
  then have "csp_version c = 2" using v by simp
  then have "c' = csp_id_prepend p c" by (simp add: c'_def csp_zmqhub_fixup_cspv1_add_dest_addr_def csp_id_prepend_fixup_cspv1_def csp_id_prepend_def csp_id2_prepend_eq csp_version_def)
  moreover have "unat (pkt_length (packet c p)) + hdr_size c < 2 ^ 16" using len hdr_size_cases [of c] by auto
  ultimately show ?thesis using frame_sent [of c p] \<open>csp_version c = 2\<close> by (simp add: zmq_message_def id_bytes_def)
next
  case True
  let ?m = "mem_write (mem_write (pkt_mem (packet c p)) 4 (id1_bytes True (pkt_id (packet c p)))) 3 [ucast (id_dst (pkt_id (packet c p)))]"
  have k: "frame_begin (packet c' p) = (p, 3)" "frame_length (packet c' p) = pkt_length (packet c p) + 4 + 1" "pkt_mem (packet c' p) = ?m"
    using True by (simp_all add: c'_def csp_zmqhub_fixup_cspv1_add_dest_addr_def csp_id_prepend_fixup_cspv1_def csp_id1_prepend_eq csp_version_def write_frame_def Let_def)
  have n: "unat (pkt_length (packet c p) + 4 + 1) = 1 + (4 + unat (pkt_length (packet c p)))"
  proof -
    have "unat (pkt_length (packet c p) + 4) = unat (pkt_length (packet c p)) + 4" by (subst unat_add_small) (use len in simp_all)
    then show ?thesis by (subst unat_add_small) (use len in simp_all)
  qed
  have "mem_read ?m 3 (1 + (4 + unat (pkt_length (packet c p)))) = [ucast (id_dst (pkt_id (packet c p)))] @ id1_bytes True (pkt_id (packet c p)) @ payload c p"
    unfolding mem_read_append [of _ 3 1] mem_read_append [of _ "3 + 1" 4] by (simp add: mem_simps payload_def data_bytes_def)
  then show ?thesis using k True unfolding frame_bytes_def k(2) n by (simp add: zmq_message_def)
qed

section \<open>Messages received\<close>

text \<open>The message is stored whole, whatever its length.\<close>

lemma zmq_rx_stored:
  fixes s :: "'e node"
  assumes own: "own drv_held f s" and free: "2 \<le> length (free_list (core s))" and len: "zmq_header_size (core s) \<le> length msg"
  defines "bs \<equiv> csp_zmqhub_fixup_cspv1_del_dest_addr (core s) msg"
  shows "\<exists>p s2. (\<exists>c. s2 = s\<lparr>core := c\<rparr>) \<and> own drv_held (tok p f) s2 \<and> csp_conf (core s2) = csp_conf (core s)
    \<and> pkt s2 p = (fresh_packet p)\<lparr>frame_begin := (p, DATA_OFF - hdr_size (core s)), pkt_mem := mem_write (\<lambda>_. 0) (DATA_OFF - hdr_size (core s)) bs, frame_length := of_nat (length bs)\<rparr>
    \<and> zmqhub_task_round i msg s = (let (r, s) = in_core (csp_id_strip_fixup_cspv1 p) s2
        in if r \<noteq> 0 then free_pkt p (upd_iface i (\<lambda>k. k\<lparr>if_rx_error := if_rx_error k + 1\<rparr>) s) else csp_qfifo_write (Some p) (Some i) False s)"
proof -
  obtain r s1 where get: "in_core csp_buffer_get s = (r, s1)" by fastforce
  note eff = get_effect [OF own, of False, simplified, OF get]
  then obtain p where r: "r = Some p" using free by (cases r) auto
  have e: "own drv_held (tok p f) s1" "packet (core s1) = (packet (core s))(p := fresh_packet p)" using eff(4) r by simp_all
  have v: "csp_version (core s1) = csp_version (core s)" using eff(2) by (simp add: csp_version_def)
  then have h: "hdr_size (core s1) = hdr_size (core s)" "csp_zmqhub_fixup_cspv1_del_dest_addr (core s1) msg = bs"
    by (simp_all add: hdr_size_def csp_zmqhub_fixup_cspv1_del_dest_addr_def bs_def)
  let ?o = "DATA_OFF - hdr_size (core s)"
  let ?u = "upd_pkt p (\<lambda>k. k\<lparr>frame_begin := (p, ?o), frame_length := 0\<rparr>) s1"
  let ?s2 = "upd_pkt p (\<lambda>k. k\<lparr>frame_length := of_nat (length bs)\<rparr>) (on_core (write_frame p 0 bs) ?u)"
  have fb: "frame_begin (pkt ?u p) = (p, ?o)" by simp
  have w: "?s2 = upd_pkt p (\<lambda>k. k\<lparr>frame_begin := (p, ?o), pkt_mem := mem_write (pkt_mem k) (?o + 0) bs, frame_length := of_nat (length bs)\<rparr>) s1"
    unfolding write_frame_upd [OF fb] upd_pkt_comp by simp
  have "?s2 = s\<lparr>core := core ?s2\<rparr>" unfolding w by (subst eff(1)) (simp add: upd_pkt_def on_core_def)
  moreover have "own drv_held (tok p f) ?s2" unfolding w using e(1) by simp
  moreover have "csp_conf (core ?s2) = csp_conf (core s)" unfolding w using eff(2) by (simp add: upd_pkt_def on_core_def)
  moreover have "pkt ?s2 p = (fresh_packet p)\<lparr>frame_begin := (p, ?o), pkt_mem := mem_write (\<lambda>_. 0) ?o bs, frame_length := of_nat (length bs)\<rparr>"
    unfolding w using e(2) by (simp add: fresh_packet_def zero_packet_def)
  moreover have "zmqhub_task_round i msg s = (let (r, s) = in_core (csp_id_strip_fixup_cspv1 p) ?s2
        in if r \<noteq> 0 then free_pkt p (upd_iface i (\<lambda>k. k\<lparr>if_rx_error := if_rx_error k + 1\<rparr>) s) else csp_qfifo_write (Some p) (Some i) False s)"
    using len by (simp add: zmqhub_task_round_def get r setup_rx_effect h Let_def)
  ultimately show ?thesis by blast
qed

lemma strip_fixup_pool [simp]:
  "buf_inv (snd (csp_id_strip_fixup_cspv1 p c)) = buf_inv c" "buf_refs (snd (csp_id_strip_fixup_cspv1 p c)) = buf_refs c"
  "pkt_mem (packet (snd (csp_id_strip_fixup_cspv1 p c)) q) = pkt_mem (packet c q)"
  by (auto simp: csp_id_strip_fixup_cspv1_def csp_id1_strip_eq csp_id2_strip_eq)

lemma strip_fixup_received:
  assumes v: "csp_version c = 1 \<or> csp_version c = 2" and n: "length pay \<le> CSP_BUFFER_SIZE" and fits: "id_fits c x"
  defines "bs \<equiv> csp_zmqhub_fixup_cspv1_del_dest_addr c (zmq_message c x pay)"
  assumes pk: "packet c q = (fresh_packet q)\<lparr>frame_begin := (q, DATA_OFF - hdr_size c), pkt_mem := mem_write (\<lambda>_. 0) (DATA_OFF - hdr_size c) bs, frame_length := of_nat (length bs)\<rparr>"
  shows "\<exists>c'. csp_id_strip_fixup_cspv1 q c = (0, c') \<and> pkt_id (packet c' q) = x \<and> payload c' q = pay"
proof (cases "csp_version c = 1")
  case False
  then have v2: "csp_version c = 2" using v by simp
  then have h: "hdr_size c = 6" "bs = id_bytes c x @ pay" by (simp_all add: hdr_size_def bs_def csp_zmqhub_fixup_cspv1_del_dest_addr_def zmq_message_def id_bytes_def)
  have "frame_bytes c q (hdr_size c + length pay) = id_bytes c x @ pay" using pk h by (simp add: frame_bytes_def mem_write_same)
  then obtain c' where "csp_id_strip q c = (0, c') \<and> pkt_id (packet c' q) = x \<and> payload c' q = pay"
    using id_strip_received [of c q pay x] pk h n fits by auto
  then show ?thesis using v2 by (auto simp: csp_id_strip_def csp_id_strip_fixup_cspv1_def)
next
  case True
  then have h: "hdr_size c = 4" "bs = id1_bytes True x @ pay" by (simp_all add: hdr_size_def bs_def csp_zmqhub_fixup_cspv1_del_dest_addr_def zmq_message_def)
  have fits1: "id1_fits x" using fits True by (simp add: id_fits_def)
  have fl: "frame_length (packet c q) = of_nat (4 + length pay)" using pk h by simp
  then have u: "unat (frame_length (packet c q)) = 4 + length pay" using n by (simp only:) (rule unat_of_nat_small, simp)
  have ul: "unat (frame_length (packet c q) - 4) = length pay" using u by (subst unat_diff_small) (simp_all add: word_le_nat_alt)
  have m: "mem_read (pkt_mem (packet c q)) 4 4 = id1_bytes True x" "mem_read (pkt_mem (packet c q)) 8 (length pay) = pay"
    using pk h by (simp_all add: mem_write_inside)
  have fb: "frame_bytes c q 4 = id1_bytes True x" using pk m(1) h by (simp add: frame_bytes_def)
  have "csp_id_strip_fixup_cspv1 q c = (0, upd_packet q (\<lambda>k. k\<lparr>pkt_length := frame_length k - 4, pkt_id := id1_parse (le_word (frame_bytes c q 4))\<rparr>) c)"
    using True u by (simp add: csp_id_strip_fixup_cspv1_def csp_id1_strip_eq word_less_nat_alt)
  moreover have "id1_parse (le_word (frame_bytes c q 4)) = x" using id1_bytes_parse [OF fits1, of True] fb by simp
  ultimately show ?thesis using ul m(2) by (simp add: payload_def data_bytes_def)
qed

section \<open>From one node to the other\<close>

text \<open>C37. A packet that is published arrives, in both versions: the message that \<open>csp_zmqhub_tx\<close> gives to the socket, received by
  the task of a node with two buffers left, becomes a packet in its router queue with the same identifier and
  payload; both give up their packet exactly once. The transmit function returns \<open>CSP_ERR_NONE\<close> whatever \<^verbatim>\<open>zmq_send\<close> returns, so
  its caller does not learn of an error: the comment at the function promises 1 on success and 0 on error, and the
  type \<^verbatim>\<open>nexthop_t\<close> of transmit functions an error code on failure. A message that is longer than a buffer is stored as well: its
  bytes run over the end of the buffer, since the task checks only the minimum of the length.\<close>

theorem csp_zmq_transfer:
  fixes s :: "'e node" and t :: "'g node"
  assumes s: "own drv_held (tok p f) s" "unat (pkt_length (pkt s p)) \<le> CSP_BUFFER_SIZE" "id_fits (core s) (pkt_id (pkt s p))" "csp_version (core s) = 1 \<or> csp_version (core s) = 2"
    and t: "own drv_held g t" "2 \<le> length (free_list (core t))" "length (queue_list (qfifo_queue t)) < q_size (qfifo_queue t)" "csp_version (core t) = csp_version (core s)"
    and long: "zmq_header_size (core t) + CSP_BUFFER_SIZE < length big"
  defines "msg \<equiv> zmq_message (core s) (pkt_id (pkt s p)) (payload (core s) p)"
  shows "(\<exists>s'. csp_zmqhub_tx zs i via p fm s = (CSP_ERR_NONE, s') \<and> own drv_held f s' \<and> hw (drv s') = snd (zs msg (hw (drv s))))
    \<and> own drv_held g (zmqhub_task_round j msg t) \<and> queued j (pkt_id (pkt s p)) (payload (core s) p) t (zmqhub_task_round j msg t)
    \<and> (\<exists>q. pkt_mem (pkt (zmqhub_task_round j big t) q) DATA_END = big ! (zmq_header_size (core t) + CSP_BUFFER_SIZE))"
proof (intro conjI)
  define s1 where "s1 = on_core (csp_zmqhub_fixup_cspv1_add_dest_addr p) (on_core (csp_id_prepend_fixup_cspv1 p) s)"
  have fr: "frame_bytes (core s1) p (unat (frame_length (pkt s1 p))) = msg" using zmq_frame_sent [OF s(4,2)] by (simp add: s1_def on_core_def msg_def)
  have pool: "buf_inv (csp_zmqhub_fixup_cspv1_add_dest_addr p (csp_id_prepend_fixup_cspv1 p c)) = buf_inv c"
      "buf_refs (csp_zmqhub_fixup_cspv1_add_dest_addr p (csp_id_prepend_fixup_cspv1 p c)) = buf_refs c" for c
    by (simp_all add: csp_zmqhub_fixup_cspv1_add_dest_addr_def csp_id_prepend_fixup_cspv1_def csp_id1_prepend_eq csp_id2_prepend_eq write_frame_def Let_def split_beta)
  have own1: "own drv_held (tok p f) s1" using s(1) pool by (simp add: s1_def on_core_def own_core_cong)
  let ?s2 = "upd_hw (\<lambda>e. snd (zs msg e)) s1"
  have "csp_zmqhub_tx zs i via p fm s = (CSP_ERR_NONE, free_pkt p ?s2)" unfolding csp_zmqhub_tx_def Let_def s1_def [symmetric] fr ..
  moreover have "own drv_held f (free_pkt p ?s2)" by (rule own_free) (use own1 in simp)
  moreover have "hw (drv (free_pkt p ?s2)) = snd (zs msg (hw (drv s)))" by (simp add: free_pkt_def on_core_def s1_def)
  ultimately show "\<exists>s'. csp_zmqhub_tx zs i via p fm s = (CSP_ERR_NONE, s') \<and> own drv_held f s' \<and> hw (drv s') = snd (zs msg (hw (drv s)))" by blast
next
  have same: "zmq_message (core t) = zmq_message (core s)" "id_fits (core t) = id_fits (core s)" using t(4) by (simp_all add: zmq_message_def id_fits_def fun_eq_iff)
  have "zmq_header_size (core t) \<le> length msg" using s(4) t(4) by (auto simp: zmq_header_size_def msg_def zmq_message_def)
  from zmq_rx_stored [OF t(1,2) this, of j] obtain q t2 c where q: "t2 = t\<lparr>core := c\<rparr>" "own drv_held (tok q g) t2" "csp_conf (core t2) = csp_conf (core t)"
      "pkt t2 q = (fresh_packet q)\<lparr>frame_begin := (q, DATA_OFF - hdr_size (core t)), pkt_mem := mem_write (\<lambda>_. 0) (DATA_OFF - hdr_size (core t))
        (csp_zmqhub_fixup_cspv1_del_dest_addr (core t) msg), frame_length := of_nat (length (csp_zmqhub_fixup_cspv1_del_dest_addr (core t) msg))\<rparr>"
    and run: "zmqhub_task_round j msg t = (let (r, s) = in_core (csp_id_strip_fixup_cspv1 q) t2
        in if r \<noteq> 0 then free_pkt q (upd_iface j (\<lambda>k. k\<lparr>if_rx_error := if_rx_error k + 1\<rparr>) s) else csp_qfifo_write (Some q) (Some j) False s)"
    by blast
  have v2: "csp_version (core t2) = csp_version (core t)" using q(3) by (simp add: csp_version_def)
  then have h2: "hdr_size (core t2) = hdr_size (core t)" "csp_zmqhub_fixup_cspv1_del_dest_addr (core t2) = csp_zmqhub_fixup_cspv1_del_dest_addr (core t)"
      "zmq_message (core t2) = zmq_message (core s)" "id_fits (core t2) = id_fits (core s)"
    using same by (simp_all add: hdr_size_def csp_zmqhub_fixup_cspv1_del_dest_addr_def zmq_message_def id_fits_def fun_eq_iff)
  have ver: "csp_version (core t2) = 1 \<or> csp_version (core t2) = 2" "length (payload (core s) p) \<le> CSP_BUFFER_SIZE" "id_fits (core t2) (pkt_id (pkt s p))"
    using s v2 t(4) h2(4) by (simp_all add: length_payload)
  obtain c' where c': "csp_id_strip_fixup_cspv1 q (core t2) = (0, c')" "pkt_id (packet c' q) = pkt_id (pkt s p)" "payload c' q = payload (core s) p"
    using strip_fixup_received [OF ver, of q] q(4) by (auto simp: h2 msg_def)
  let ?t3 = "t2\<lparr>core := c'\<rparr>"
  have strip: "in_core (csp_id_strip_fixup_cspv1 q) t2 = (0, ?t3)" using c'(1) by (simp add: in_core_def)
  have own3: "own drv_held (tok q g) ?t3" using q(2) own_core_cong [of c' t2 drv_held "tok q g"] strip_fixup_pool [of q "core t2"] c'(1) by simp
  have q3: "qfifo_queue ?t3 = qfifo_queue t" by (simp add: q(1))
  have end_run: "zmqhub_task_round j msg t = csp_qfifo_write (Some q) (Some j) False ?t3" unfolding run strip by simp
  show "own drv_held g (zmqhub_task_round j msg t)" "queued j (pkt_id (pkt s p)) (payload (core s) p) t (zmqhub_task_round j msg t)"
    unfolding end_run using queued_write [OF own3 t(3) q3, of j] c'(2,3) by simp_all
next
  let ?bs = "csp_zmqhub_fixup_cspv1_del_dest_addr (core t) big" and ?o = "DATA_OFF - hdr_size (core t)"
  have "zmq_header_size (core t) \<le> length big" using long by simp
  from zmq_rx_stored [OF t(1,2) this, of j] obtain q t2 where
      pk: "pkt t2 q = (fresh_packet q)\<lparr>frame_begin := (q, ?o), pkt_mem := mem_write (\<lambda>_. 0) ?o ?bs, frame_length := of_nat (length ?bs)\<rparr>"
    and run: "zmqhub_task_round j big t = (let (r, s) = in_core (csp_id_strip_fixup_cspv1 q) t2
        in if r \<noteq> 0 then free_pkt q (upd_iface j (\<lambda>k. k\<lparr>if_rx_error := if_rx_error k + 1\<rparr>) s) else csp_qfifo_write (Some q) (Some j) False s)"
    by blast
  have q: "pkt_mem (pkt t2 q) = mem_write (\<lambda>_. 0) ?o ?bs" by (simp add: pk)
  have "pkt_mem (pkt (zmqhub_task_round j big t) q) = pkt_mem (pkt t2 q)"
    unfolding run by (simp add: in_core_def split_beta free_pkt_pkt qfifo_write_same(1))
  moreover have "mem_write (\<lambda>_. 0) ?o ?bs DATA_END = big ! (zmq_header_size (core t) + CSP_BUFFER_SIZE)"
    using long s(4) t(4) by (auto simp: mem_write_def hdr_size_def zmq_header_size_def csp_zmqhub_fixup_cspv1_del_dest_addr_def)
  ultimately show "\<exists>q. pkt_mem (pkt (zmqhub_task_round j big t) q) DATA_END = big ! (zmq_header_size (core t) + CSP_BUFFER_SIZE)" using q by (intro exI [of _ q]) simp
qed

text \<open>An empty packet, and a message of 300 bytes.\<close>

theorem csp_zmq_transfer_witness:
  "\<exists>s'. csp_zmqhub_tx (\<lambda>m e. (0, e @ [m])) 1 0 0 True (example_wired []) = (CSP_ERR_NONE, s') \<and> hw (drv s') = [id2_bytes zero_id]
     \<and> queued 1 zero_id [] (example_wired ()) (zmqhub_task_round 1 (id2_bytes zero_id) (example_wired ()))
     \<and> (\<exists>q. pkt_mem (pkt (zmqhub_task_round 1 (replicate 300 7) (example_wired ())) q) DATA_END = 7)"
proof -
  let ?s = "example_wired [] :: u8 list list node" and ?t = "example_wired () :: unit node"
  have p: "pkt ?s 0 = fresh_packet 0" "free_list (core ?t) = [1..<15]" by (simp_all add: example_wired_facts(4) example_sender_pkt)
  have x: "pkt_id (pkt ?s 0) = zero_id" "unat (pkt_length (pkt ?s 0)) = 0" by (simp_all add: p fresh_packet_def zero_packet_def)
  have pay: "payload (core ?s) 0 = []" using x(2) length_payload [of "core ?s" 0] by (metis length_0_conv)
  have v: "csp_version (core ?s) = 2" "csp_version (core ?t) = csp_version (core ?s)"
    using example_wired_facts(5) [of "[] :: u8 list list"] by (simp_all add: example_wired_facts(4))
  have h: "zmq_header_size (core ?t) = 6" "zmq_message (core ?s) zero_id [] = id2_bytes zero_id" using v by (simp_all add: zmq_header_size_def zmq_message_def)
  have fits: "id_fits (core ?s) (pkt_id (pkt ?s 0))" using v(1) by (simp add: id_fits_def x zero_id_def id2_fits_def)
  have room: "length (queue_list (qfifo_queue ?t)) < q_size (qfifo_queue ?t)" by (simp add: example_wired_facts(3))
  from csp_zmq_transfer [where zs = "\<lambda>m e. (0, e @ [m])" and i = 1 and j = 1 and via = 0 and fm = True and big = "replicate 300 7",
      OF example_wired_facts(1) _ fits _ example_wired_facts(1) _ room v(2)]
  show ?thesis using p(2) x pay h v by (auto simp: example_wired_facts(6))
qed

end
