(* ===== verification/CSP_Rtable_Stdio.thy ===== *)
theory CSP_Rtable_Stdio
  imports CSP_Send_Plan
begin

text \<open>
  Routing tables as text, \<^verbatim>\<open>src/src/csp_rtable_stdio.c\<close>: the parser, which checks or loads a table, and the
  printer. A C string is the list of its characters before the terminator. Of the standard
  library the parser uses \<^verbatim>\<open>strtok_r\<close> and \<^verbatim>\<open>sscanf\<close>, the printer \<^verbatim>\<open>snprintf\<close>; numbers out of range are
  converted as a 64-bit \<^verbatim>\<open>strtoul\<close> and \<^verbatim>\<open>strtol\<close> do.
\<close>

section \<open>Scanning\<close>

definition isspace :: "char \<Rightarrow> bool" where
  "isspace c \<longleftrightarrow> c \<in> {CHR 0x20, CHR 0x09, CHR 0x0A, CHR 0x0B, CHR 0x0C, CHR 0x0D}"

definition isdigit :: "char \<Rightarrow> bool" where
  "isdigit c \<longleftrightarrow> 48 \<le> (of_char c :: nat) \<and> (of_char c :: nat) \<le> 57"

definition dec_value :: "string \<Rightarrow> int" where
  "dec_value ds = foldl (\<lambda>n c. 10 * n + (of_char c - 48)) 0 ds"

text \<open>The conversions of \<^verbatim>\<open>sscanf\<close>: \<^verbatim>\<open>%u\<close>, \<^verbatim>\<open>%d\<close>, \<^verbatim>\<open>%\<close>\<open>w\<close>\<^verbatim>\<open>s\<close>, \<^verbatim>\<open>%n\<close>, white space and other characters.\<close>

datatype scan_fmt = Scan_u | Scan_d | Scan_s nat | Scan_n | Scan_ws | Scan_lit char

datatype scan_val = Val_u (val_u: u32) | Val_d (val_d: int) | Val_s (val_s: string) | Val_n (val_n: nat)

text \<open>Sign, digits and rest of a number.\<close>

definition scan_number :: "string \<Rightarrow> (bool \<times> string \<times> string) option" where
  "scan_number str =
     (let str = dropWhile isspace str;
          (neg, str) = (case str of c # cs \<Rightarrow> if c = CHR ''-'' then (True, cs) else if c = CHR ''+'' then (False, cs) else (False, str)
                        | [] \<Rightarrow> (False, []));
          ds = takeWhile isdigit str
      in if ds = [] then None else Some (neg, ds, dropWhile isdigit str))"

definition conv_u :: "bool \<Rightarrow> int \<Rightarrow> u32" where
  "conv_u neg v = (let w = (if v \<ge> 2 ^ 64 then -1 else if neg then - of_int v else of_int v :: 64 word) in ucast w)"

definition conv_d :: "bool \<Rightarrow> int \<Rightarrow> int" where
  "conv_d neg v = (let i = (if neg then - v else v); i = max (- (2 ^ 63)) (min (2 ^ 63 - 1) i) in sint (of_int i :: 32 word))"

text \<open>The values that are assigned until the first directive that fails; \<open>len\<close> is the length of the whole input.\<close>

fun sscanf :: "nat \<Rightarrow> scan_fmt list \<Rightarrow> string \<Rightarrow> scan_val list" where
  "sscanf len [] str = []"
| "sscanf len (Scan_ws # fs) str = sscanf len fs (dropWhile isspace str)"
| "sscanf len (Scan_lit c # fs) str =
     (case str of x # xs \<Rightarrow> if x = c then sscanf len fs xs else [] | [] \<Rightarrow> [])"
| "sscanf len (Scan_n # fs) str = Val_n (len - length str) # sscanf len fs str"
| "sscanf len (Scan_u # fs) str =
     (case scan_number str of None \<Rightarrow> [] | Some (neg, ds, rest) \<Rightarrow> Val_u (conv_u neg (dec_value ds)) # sscanf len fs rest)"
| "sscanf len (Scan_d # fs) str =
     (case scan_number str of None \<Rightarrow> [] | Some (neg, ds, rest) \<Rightarrow> Val_d (conv_d neg (dec_value ds)) # sscanf len fs rest)"
| "sscanf len (Scan_s w # fs) str =
     (let str = dropWhile isspace str; token = take w (takeWhile (\<lambda>c. \<not> isspace c) str)
      in if token = [] then [] else Val_s token # sscanf len fs (drop (length token) str))"

text \<open>The result of \<^verbatim>\<open>sscanf\<close>: assignments by \<^verbatim>\<open>%n\<close> do not count.\<close>

definition scan_count :: "scan_val list \<Rightarrow> nat" where
  "scan_count vs = length (filter (\<lambda>v. \<not> is_Val_n v) vs)"

definition strtok_r :: "char \<Rightarrow> string \<Rightarrow> (string \<times> string) option" where
  "strtok_r delim str =
     (let str = dropWhile (\<lambda>c. c = delim) str
      in if str = [] then None else Some (takeWhile (\<lambda>c. c \<noteq> delim) str, drop 1 (dropWhile (\<lambda>c. c \<noteq> delim) str)))"

lemma strtok_r_less: "strtok_r delim str = Some (t, rest) \<Longrightarrow> length rest < length str"
proof -
  assume a: "strtok_r delim str = Some (t, rest)"
  define u where "u = dropWhile (\<lambda>c. c = delim) str"
  have u: "u \<noteq> []" "rest = drop 1 (dropWhile (\<lambda>c. c \<noteq> delim) u)" using a by (auto simp: strtok_r_def u_def Let_def split: if_splits)
  have "length (dropWhile (\<lambda>c. c \<noteq> delim) u) \<le> length u" "length u \<le> length str" by (simp_all add: u_def length_dropWhile_le)
  moreover have "0 < length u" using u(1) by simp
  ultimately show ?thesis unfolding u(2) by (simp only: length_drop)
qed

section \<open>Parsing\<close>

abbreviation (input) CSP_RTABLE_STRING_MAX_LEN :: nat where "CSP_RTABLE_STRING_MAX_LEN \<equiv> 100"

text \<open>The four formats of an entry; address, mask, name, gateway and the number of characters used.\<close>

definition rtable_scan :: "nat \<Rightarrow> string \<Rightarrow> (u32 \<times> int \<times> string \<times> u32 \<times> nat) option" where
  "rtable_scan host_bits str =
     (let n = length str;
          a = sscanf n [Scan_u, Scan_lit CHR ''/'', Scan_d, Scan_ws, Scan_s 14, Scan_ws, Scan_u, Scan_ws, Scan_n] str;
          b = sscanf n [Scan_u, Scan_lit CHR ''/'', Scan_d, Scan_ws, Scan_s 14, Scan_ws, Scan_n] str;
          c = sscanf n [Scan_u, Scan_ws, Scan_s 14, Scan_ws, Scan_u, Scan_ws, Scan_n] str;
          d = sscanf n [Scan_u, Scan_ws, Scan_s 14, Scan_ws, Scan_n] str
      in if scan_count a = 4 then Some (val_u (a ! 0), val_d (a ! 1), val_s (a ! 2), val_u (a ! 3), val_n (a ! 4))
         else if scan_count b = 3 then Some (val_u (b ! 0), val_d (b ! 1), val_s (b ! 2), ucast CSP_NO_VIA_ADDRESS, val_n (b ! 3))
         else if scan_count c = 3 then Some (val_u (c ! 0), int host_bits, val_s (c ! 1), val_u (c ! 2), val_n (c ! 3))
         else if scan_count d = 2 then Some (val_u (d ! 0), int host_bits, val_s (d ! 1), ucast CSP_NO_VIA_ADDRESS, val_n (d ! 2))
         else None)"

definition rtable_errno :: "'d csp_state \<Rightarrow> 'd csp_state" where
  "rtable_errno s = s\<lparr>core := (core s)\<lparr>csp_dbg_errno := CSP_DBG_ERR_INVALID_RTABLE_ENTRY\<rparr>\<rparr>"

text \<open>The interface, or whether the name is one of the given names.\<close>

definition rtable_iface :: "string list option \<Rightarrow> string \<Rightarrow> 'd csp_state \<Rightarrow> addr option \<times> bool" where
  "rtable_iface names name s =
     (case names of
        Some ns \<Rightarrow> (None, name \<in> set ns)
      | None \<Rightarrow> let ifc = csp_iflist_get_by_name name (iflist s) in (ifc, ifc \<noteq> None))"

text \<open>One entry.\<close>

definition rtable_parse_entry :: "bool \<Rightarrow> nat \<Rightarrow> string list option \<Rightarrow> string \<Rightarrow> 'd csp_state \<Rightarrow> int \<times> 'd csp_state" where
  "rtable_parse_entry dry_run host_bits names str s =
     (case rtable_scan host_bits str of
        None \<Rightarrow> (CSP_ERR_INVAL, s)
      | Some (address, netmask, name, via, consumed) \<Rightarrow>
          if consumed < length str then (CSP_ERR_INVAL, s)
          else
            let netmask = (if netmask = -1 then int host_bits else netmask);
                (ifc, known) = rtable_iface names name s;
                max_address = push_bit host_bits 1 - 1 :: u32
            in if address > max_address \<or> netmask < 0 \<or> netmask > int host_bits \<or> \<not> known \<or> via \<noteq> ucast CSP_NO_VIA_ADDRESS \<and> via > max_address
               then (CSP_ERR_INVAL, rtable_errno s)
               else if dry_run then (CSP_ERR_NONE, s)
               else let (res, c, t) = csp_rtable_set (ucast address) netmask ifc (ucast via) (core s) (routes s);
                        s = s\<lparr>core := c, routes := t\<rparr>
                    in if res \<noteq> CSP_ERR_NONE then (res, rtable_errno s) else (CSP_ERR_NONE, s))"

function rtable_parse_loop :: "bool \<Rightarrow> nat \<Rightarrow> string list option \<Rightarrow> nat \<Rightarrow> string \<Rightarrow> 'd csp_state \<Rightarrow> int \<times> 'd csp_state" where
  "rtable_parse_loop dry_run host_bits names valid_entries saveptr s =
     (case strtok_r CHR '','' saveptr of
        None \<Rightarrow> (int valid_entries, s)
      | Some (str, saveptr) \<Rightarrow>
          let (res, s) = rtable_parse_entry dry_run host_bits names str s
          in if res \<noteq> CSP_ERR_NONE then (res, s)
             else if Suc valid_entries > CSP_RTABLE_SIZE then (CSP_ERR_NOMEM, s)
             else rtable_parse_loop dry_run host_bits names (Suc valid_entries) saveptr s)"
  by pat_completeness auto
termination by (relation "measure (\<lambda>(_, _, _, _, str, _). length str)") (auto simp: strtok_r_less)

declare rtable_parse_loop.simps [simp del]

definition csp_rtable_parse :: "string option \<Rightarrow> bool \<Rightarrow> nat \<Rightarrow> string list option \<Rightarrow> 'd csp_state \<Rightarrow> int \<times> 'd csp_state" where
  "csp_rtable_parse str dry_run host_bits names s =
     (case str of
        None \<Rightarrow> (CSP_ERR_INVAL, s)
      | Some str \<Rightarrow>
          if length str > CSP_RTABLE_STRING_MAX_LEN then (CSP_ERR_INVAL, s)
          else rtable_parse_loop dry_run host_bits names 0 str s)"

definition csp_rtable_check :: "string option \<Rightarrow> 'd csp_state \<Rightarrow> int \<times> 'd csp_state" where
  "csp_rtable_check str s = csp_rtable_parse str True (csp_id_get_host_bits (ver s)) None s"

definition csp_rtable_load :: "string option \<Rightarrow> 'd csp_state \<Rightarrow> int \<times> 'd csp_state" where
  "csp_rtable_load str s =
     (let (ret, s) = csp_rtable_check str s
      in if ret < 0 then (ret, s) else csp_rtable_parse str False (csp_id_get_host_bits (ver s)) None s)"

definition csp_rtable_check_config :: "string option \<Rightarrow> u8 \<Rightarrow> string list option \<Rightarrow> 'd csp_state \<Rightarrow> int \<times> 'd csp_state" where
  "csp_rtable_check_config str v names s =
     (if v \<noteq> 1 \<and> v \<noteq> 2 \<or> names = None then (CSP_ERR_INVAL, s)
      else csp_rtable_parse str True (if v = 1 then 5 else 14) names s)"

section \<open>Printing\<close>

fun print_u :: "nat \<Rightarrow> string" where
  "print_u n = (if n < 10 then [char_of (48 + n)] else print_u (n div 10) @ [char_of (48 + n mod 10)])"

declare print_u.simps [simp del]

text \<open>The text in the buffer; what is behind its terminator is never read.\<close>

record csp_rtable_save_ctx =
  sv_buffer :: string
  sv_len :: nat
  sv_maxlen :: nat
  sv_error :: int

abbreviation (input) CSP_IF_LOOPBACK_NAME :: string where "CSP_IF_LOOPBACK_NAME \<equiv> ''LOOP''"

text \<open>\<^verbatim>\<open>snprintf\<close> of \<open>text\<close> at the offset \<open>off\<close>: at most \<open>n - 1\<close> characters and a terminator.\<close>

definition snprintf :: "nat \<Rightarrow> nat \<Rightarrow> string \<Rightarrow> string \<Rightarrow> int \<times> string" where
  "snprintf off n txt buf = (int (length txt), if n = 0 then buf else take off buf @ take (n - 1) txt)"

definition rtable_text :: "nat \<Rightarrow> string \<Rightarrow> csp_route \<Rightarrow> string" where
  "rtable_text host_bits name route =
     (let mask_str = (if unat (rt_netmask route) \<noteq> host_bits then CHR ''/'' # print_u (unat (rt_netmask route)) else []);
          via_str = (if rt_via route \<noteq> CSP_NO_VIA_ADDRESS then CHR '' '' # print_u (unat (rt_via route)) else [])
      in print_u (unat (rt_address route)) @ mask_str @ CHR '' '' # name @ via_str)"

definition csp_rtable_save_route :: "nat \<Rightarrow> csp_iflist \<Rightarrow> csp_rtable_save_ctx \<Rightarrow> csp_route \<Rightarrow> bool \<times> csp_rtable_save_ctx" where
  "csp_rtable_save_route host_bits l ctx route =
     (let name = the (if_name (ifaces l (the (rt_iface route))))
      in if name = CSP_IF_LOOPBACK_NAME then (True, ctx)
         else let sep = (if sv_len ctx = 0 then [] else '','');
                  remain_buf_size = sv_maxlen ctx - sv_len ctx;
                  (res, buf) = snprintf (sv_len ctx) remain_buf_size (sep @ rtable_text host_bits name route) (sv_buffer ctx);
                  ctx = ctx\<lparr>sv_buffer := buf\<rparr>
              in if res < 0 \<or> res \<ge> sint (of_nat remain_buf_size :: 32 word) then (False, ctx\<lparr>sv_error := CSP_ERR_NOMEM\<rparr>)
                 else (True, ctx\<lparr>sv_len := sv_len ctx + nat res\<rparr>))"

definition csp_rtable_save :: "nat \<Rightarrow> 'd csp_state \<Rightarrow> int \<times> string" where
  "csp_rtable_save maxlen s =
     (let ctx = csp_rtable_iterate (csp_rtable_save_route (csp_id_get_host_bits (ver s)) (iflist s))
                  \<lparr>sv_buffer = [], sv_len = 0, sv_maxlen = maxlen, sv_error = CSP_ERR_NONE\<rparr> (routes s)
      in (sv_error ctx, sv_buffer ctx))"

section \<open>Reading back a number\<close>

lemma dec_value_snoc: "dec_value (ds @ [c]) = 10 * dec_value ds + (of_char c - 48)"
  by (simp add: dec_value_def)

lemma digit_char: "n < 10 \<Longrightarrow> (of_char (char_of (48 + n :: nat)) :: nat) = 48 + n"
  by simp

lemma digit_char_int: "n < 10 \<Longrightarrow> (of_char (char_of (48 + n :: nat)) :: int) = 48 + int n"
  using digit_char [of n] by (metis of_char_of of_nat_add of_nat_numeral of_nat_of_char)

lemma print_u_digits: "print_u n \<noteq> [] \<and> (\<forall>c\<in>set (print_u n). isdigit c)"
proof (induction n rule: print_u.induct)
  case (1 n)
  then show ?case by (subst (1 2) print_u.simps) (auto simp: isdigit_def)
qed

lemma dec_value_print_u: "dec_value (print_u n) = int n"
proof (induction n rule: print_u.induct)
  case (1 n)
  show ?case
  proof (cases "n < 10")
    case True
    then show ?thesis using dec_value_snoc [of "[]" "char_of (48 + n)"] digit_char_int [OF True] by (subst print_u.simps) (simp add: dec_value_def)
  next
    case False
    then have "dec_value (print_u n) = 10 * int (n div 10) + int (n mod 10)"
      using 1 digit_char_int [of "n mod 10"] by (subst print_u.simps) (simp add: dec_value_snoc)
    then show ?thesis by (simp add: zdiv_int zmod_int)
  qed
qed

lemma digit_not: "isdigit c \<Longrightarrow> \<not> isspace c \<and> c \<noteq> CHR ''-'' \<and> c \<noteq> CHR ''+'' \<and> c \<noteq> CHR '','' \<and> c \<noteq> CHR ''/''"
  by (auto simp: isdigit_def isspace_def)

definition no_digit :: "string \<Rightarrow> bool" where
  "no_digit rest \<longleftrightarrow> (case rest of [] \<Rightarrow> True | c # _ \<Rightarrow> \<not> isdigit c)"

lemma no_digit_simps [simp]: "no_digit []" "no_digit (c # cs) \<longleftrightarrow> \<not> isdigit c"
  by (simp_all add: no_digit_def)

lemma scan_number_print: "no_digit rest \<Longrightarrow> scan_number (print_u n @ rest) = Some (False, print_u n, rest)"
proof -
  assume rest: "no_digit rest"
  have d: "print_u n \<noteq> []" "\<And>c. c \<in> set (print_u n) \<Longrightarrow> isdigit c" using print_u_digits by auto
  then obtain c cs where c: "print_u n = c # cs" "isdigit c" by (cases "print_u n") auto
  have tw: "takeWhile isdigit (print_u n @ rest) = print_u n @ takeWhile isdigit rest" "dropWhile isdigit (print_u n @ rest) = dropWhile isdigit rest"
    using d(2) by (simp_all add: takeWhile_append2 dropWhile_append2)
  have "takeWhile isdigit rest = []" "dropWhile isdigit rest = rest" using rest by (cases rest; simp)+
  then show ?thesis using tw c digit_not [OF c(2)] by (simp add: scan_number_def Let_def)
qed

lemma scan_number_blank: "scan_number (CHR '' '' # str) = scan_number str"
  by (simp add: scan_number_def isspace_def)

lemma conv_u_small: "n < 2 ^ 32 \<Longrightarrow> conv_u False (int n) = of_nat n"
proof -
  assume "n < 2 ^ 32"
  then have "unat (of_nat n :: 64 word) = n" by (intro unat_of_nat_small) simp
  then have "ucast (of_nat n :: 64 word) = (of_nat n :: u32)" by (metis of_nat_unat)
  then show ?thesis using \<open>n < 2 ^ 32\<close> by (simp add: conv_u_def)
qed

lemma conv_d_small: "n < 2 ^ 31 \<Longrightarrow> conv_d False (int n) = int n"
  by (simp add: conv_d_def signed_of_int signed_take_bit_int_eq_self)

section \<open>Reading back an entry\<close>

definition word_name :: "string \<Rightarrow> bool" where
  "word_name name \<longleftrightarrow> name \<noteq> [] \<and> length name \<le> 14 \<and> (\<forall>c\<in>set name. \<not> isspace c \<and> c \<noteq> CHR '','')"

definition at_blank :: "string \<Rightarrow> bool" where
  "at_blank rest \<longleftrightarrow> (case rest of [] \<Rightarrow> True | c # _ \<Rightarrow> isspace c)"

lemma at_blank_simps [simp]: "at_blank []" "at_blank (c # cs) \<longleftrightarrow> isspace c"
  by (simp_all add: at_blank_def)

lemma sscanf_name:
  assumes nm: "word_name name" and rest: "at_blank rest"
  shows "sscanf len (Scan_s 14 # fs) (name @ rest) = Val_s name # sscanf len fs rest"
proof -
  have ns: "\<And>c. c \<in> set name \<Longrightarrow> \<not> isspace c" "name \<noteq> []" "length name \<le> 14" using nm by (simp_all add: word_name_def)
  have drop: "dropWhile isspace (name @ rest) = name @ rest" using ns by (cases name) auto
  have "takeWhile (\<lambda>c. \<not> isspace c) (name @ rest) = name @ takeWhile (\<lambda>c. \<not> isspace c) rest"
    using ns(1) by (simp add: takeWhile_append2)
  moreover have "takeWhile (\<lambda>c. \<not> isspace c) rest = []" using rest by (cases rest) simp_all
  ultimately show ?thesis using ns(2,3) by (simp add: drop)
qed

lemma sscanf_blank_name:
  assumes nm: "word_name name"
  shows "sscanf len (Scan_ws # fs) (CHR '' '' # name @ rest) = sscanf len fs (name @ rest)"
proof -
  have "dropWhile isspace (name @ rest) = name @ rest" using nm by (cases name) (auto simp: word_name_def)
  then show ?thesis by (simp add: isspace_def)
qed

lemma sscanf_blank_number: "sscanf len (Scan_ws # fs) (CHR '' '' # print_u n @ rest) = sscanf len fs (print_u n @ rest)"
proof -
  have "dropWhile isspace (print_u n @ rest) = print_u n @ rest"
    using print_u_digits [of n] digit_not by (cases "print_u n") auto
  then show ?thesis by (simp add: isspace_def)
qed

lemma sscanf_u: "no_digit rest \<Longrightarrow> n < 2 ^ 32 \<Longrightarrow> sscanf len (Scan_u # fs) (print_u n @ rest) = Val_u (of_nat n) # sscanf len fs rest"
  by (simp add: scan_number_print dec_value_print_u conv_u_small)

lemma sscanf_d: "no_digit rest \<Longrightarrow> n < 2 ^ 31 \<Longrightarrow> sscanf len (Scan_d # fs) (print_u n @ rest) = Val_d (int n) # sscanf len fs rest"
  by (simp add: scan_number_print dec_value_print_u conv_d_small)

lemma sscanf_end: "sscanf len [Scan_ws, Scan_n] [] = [Val_n len]" "sscanf len (Scan_ws # Scan_u # fs) [] = []"
  by (simp_all add: scan_number_def)

lemma chars_simps [simp]: "isspace CHR '' ''" "\<not> isdigit CHR '' ''" "\<not> isdigit CHR ''/''"
  by (simp_all add: isspace_def isdigit_def)

lemmas sscanf_text = sscanf_name sscanf_blank_name sscanf_blank_number sscanf_u sscanf_d sscanf_end sscanf.simps(3,4) sscanf_u [of "[]", simplified]

lemma rtable_scan_text:
  assumes nm: "word_name name" and b: "unat (rt_netmask r) < 2 ^ 31"
  shows "rtable_scan host_bits (rtable_text host_bits name r) =
    Some (ucast (rt_address r), int (unat (rt_netmask r)), name, ucast (rt_via r), length (rtable_text host_bits name r))"
proof -
  define A where "A = unat (rt_address r)"
  define M where "M = unat (rt_netmask r)"
  define V where "V = unat (rt_via r)"
  have bd: "A < 2 ^ 32" "M < 2 ^ 31" "V < 2 ^ 32"
    using unsigned_less [of "rt_address r", where ?'a = nat] unsigned_less [of "rt_via r", where ?'a = nat] b by (simp_all add: A_def M_def V_def)
  have uc: "of_nat A = (ucast (rt_address r) :: u32)" "of_nat V = (ucast (rt_via r) :: u32)" by (simp_all add: A_def V_def)
  let ?n = "length (rtable_text host_bits name r)"
  have tx: "rtable_text host_bits name r = print_u A @ (if M \<noteq> host_bits then CHR ''/'' # print_u M else []) @ CHR '' '' # name @
      (if rt_via r \<noteq> CSP_NO_VIA_ADDRESS then CHR '' '' # print_u V else [])"
    by (simp add: rtable_text_def A_def M_def V_def)
  note sc = sscanf_text nm bd uc
  show ?thesis
  proof (cases "M = host_bits"; cases "rt_via r = CSP_NO_VIA_ADDRESS")
    assume m: "M = host_bits" and v: "rt_via r = CSP_NO_VIA_ADDRESS"
    have t: "rtable_text host_bits name r = print_u A @ CHR '' '' # name @ []" using tx m v by simp
    show ?thesis unfolding rtable_scan_def Let_def t using m v sc by (simp del: sscanf.simps append_Nil2 add: scan_count_def M_def [symmetric])
  next
    assume m: "M \<noteq> host_bits" and v: "rt_via r = CSP_NO_VIA_ADDRESS"
    have t: "rtable_text host_bits name r = print_u A @ CHR ''/'' # print_u M @ CHR '' '' # name @ []" using tx m v by simp
    show ?thesis unfolding rtable_scan_def Let_def t using m v sc by (simp del: sscanf.simps append_Nil2 add: scan_count_def M_def [symmetric])
  next
    assume m: "M = host_bits" and v: "rt_via r \<noteq> CSP_NO_VIA_ADDRESS"
    have t: "rtable_text host_bits name r = print_u A @ CHR '' '' # name @ CHR '' '' # print_u V @ []" using tx m v by simp
    show ?thesis unfolding rtable_scan_def Let_def t using m v sc by (simp del: sscanf.simps append_Nil2 add: scan_count_def M_def [symmetric])
  next
    assume m: "M \<noteq> host_bits" and v: "rt_via r \<noteq> CSP_NO_VIA_ADDRESS"
    have t: "rtable_text host_bits name r = print_u A @ CHR ''/'' # print_u M @ CHR '' '' # name @ CHR '' '' # print_u V @ []" using tx m v by simp
    show ?thesis unfolding rtable_scan_def Let_def t using m v sc by (simp del: sscanf.simps append_Nil2 add: scan_count_def M_def [symmetric])
  qed
qed

section \<open>Valid tables\<close>

text \<open>An entry that the parser accepts: in the range of the addresses, with an interface.\<close>

definition route_valid :: "nat \<Rightarrow> csp_route \<Rightarrow> bool" where
  "route_valid host_bits r \<longleftrightarrow> unat (rt_address r) < 2 ^ host_bits \<and> unat (rt_netmask r) \<le> host_bits
     \<and> (rt_via r = CSP_NO_VIA_ADDRESS \<or> unat (rt_via r) < 2 ^ host_bits) \<and> rt_iface r \<noteq> None"

definition table_valid :: "nat \<Rightarrow> csp_rtable \<Rightarrow> bool" where
  "table_valid host_bits t \<longleftrightarrow> rtable_inptr t \<le> CSP_RTABLE_SIZE \<and> (\<forall>i<rtable_inptr t. route_valid host_bits (rtable t i))"

text \<open>The entries in use.\<close>

definition rtable_list :: "csp_rtable \<Rightarrow> csp_route list" where
  "rtable_list t = map (rtable t) [0..<rtable_inptr t]"

lemma host_bits_cases: "csp_id_get_host_bits v = 14 \<or> csp_id_get_host_bits v = 5"
  by (simp add: csp_id_get_host_bits_def)

lemma max_address: "hb \<le> 14 \<Longrightarrow> \<not> a > (push_bit hb 1 - 1 :: u32) \<longleftrightarrow> unat a < 2 ^ hb"
proof -
  assume hb: "hb \<le> 14"
  have p: "(2 :: nat) ^ hb \<le> 2 ^ 14" by (rule power_increasing) (use hb in auto)
  have "unat (push_bit hb 1 - 1 :: u32) = 2 ^ hb - 1"
  proof -
    have "unat (push_bit hb 1 :: u32) = 2 ^ hb"
      using p unat_of_nat_small [of "2 ^ hb", where ?'a = 32] by (simp add: push_bit_eq_mult)
    moreover have "(1 :: u32) \<le> push_bit hb 1" using calculation by (simp add: word_le_nat_alt)
    ultimately show ?thesis by (simp add: unat_diff_small)
  qed
  moreover have "0 < (2 :: nat) ^ hb" by simp
  then have "unat a \<le> 2 ^ hb - 1 \<longleftrightarrow> unat a < 2 ^ hb" by linarith
  ultimately show ?thesis by (simp only: word_less_nat_alt not_less)
qed

text \<open>What is set on a table: an entry changed or appended.\<close>

lemma set_internal_valid:
  assumes "table_valid hb t" "csp_rtable_set_internal a m ifc via t = (res, t')"
    "route_valid hb \<lparr>rt_address = a, rt_netmask = m, rt_via = via, rt_iface = ifc\<rparr>"
  shows "table_valid hb t' \<and> (res = CSP_ERR_NONE \<or> res = CSP_ERR_NOMEM)"
  using assms find_exact_Some [of a m ifc t]
  by (auto simp: csp_rtable_set_internal_def table_valid_def route_valid_def Let_def less_Suc_eq split: option.splits if_splits)

lemma set_internal_append:
  assumes "csp_rtable_find_exact a m ifc t = None" "rtable_inptr t < CSP_RTABLE_SIZE"
  shows "\<exists>t'. csp_rtable_set_internal a m ifc via t = (CSP_ERR_NONE, t') \<and> rtable_inptr t' = Suc (rtable_inptr t)
    \<and> rtable_list t' = rtable_list t @ [\<lparr>rt_address = a, rt_netmask = m, rt_via = via, rt_iface = ifc\<rparr>]"
  using assms by (auto simp: csp_rtable_set_internal_def rtable_list_def)

section \<open>Arbitrary text\<close>

text \<open>A state in which at most the error number and the routes are other ones.\<close>

definition rtable_kept :: "'d csp_state \<Rightarrow> 'd csp_state \<Rightarrow> bool" where
  "rtable_kept s s' \<longleftrightarrow> (\<exists>e t. s' = s\<lparr>core := (core s)\<lparr>csp_dbg_errno := e\<rparr>, routes := t\<rparr>)"

lemma rtable_kept_refl [simp]: "rtable_kept s s"
  unfolding rtable_kept_def by (rule exI [of _ "csp_dbg_errno (core s)"], rule exI [of _ "routes s"]) simp

lemma rtable_kept_trans: "rtable_kept a b \<Longrightarrow> rtable_kept b c \<Longrightarrow> rtable_kept a c"
  by (fastforce simp: rtable_kept_def)

lemma rtable_kept_upds [simp]: "rtable_kept s (rtable_errno s)" "rtable_kept s (s\<lparr>routes := t\<rparr>)"
proof -
  show "rtable_kept s (rtable_errno s)"
    unfolding rtable_kept_def rtable_errno_def by (rule exI, rule exI [of _ "routes s"]) simp
  show "rtable_kept s (s\<lparr>routes := t\<rparr>)"
    unfolding rtable_kept_def by (rule exI [of _ "csp_dbg_errno (core s)"], rule exI [of _ t]) simp
qed

lemma routes_errno [simp]: "routes (rtable_errno s) = routes s"
  by (simp add: rtable_errno_def)

lemma rtable_kept_ver: "rtable_kept s s' \<Longrightarrow> ver s' = ver s \<and> iflist s' = iflist s"
  by (auto simp: rtable_kept_def csp_version_def)

text \<open>One entry: a negative result or success; a valid table stays valid; a dry run sets nothing.\<close>

lemma rtable_parse_entry_valid:
  assumes run: "rtable_parse_entry dry hb names str s = (res, s')" and hb: "hb = csp_id_get_host_bits (ver s) \<or> dry"
  shows "res \<le> 0 \<and> rtable_kept s s' \<and> (dry \<longrightarrow> routes s' = routes s) \<and> (table_valid hb (routes s) \<longrightarrow> table_valid hb (routes s'))"
proof -
  have trivial: ?thesis if "res \<le> 0" "s' = s \<or> s' = rtable_errno s" using that by auto
  show ?thesis
  proof (cases "rtable_scan hb str")
    case None
    then show ?thesis using run trivial by (simp add: rtable_parse_entry_def)
  next
    case (Some x)
    obtain a m nm v n where x: "x = (a, m, nm, v, n)" by (cases x) auto
    define m' where "m' = (if m = -1 then int hb else m)"
    obtain ifc known where ik: "rtable_iface names nm s = (ifc, known)" by fastforce
    define bad where "bad \<longleftrightarrow> a > push_bit hb 1 - 1 \<or> m' < 0 \<or> m' > int hb \<or> \<not> known \<or> v \<noteq> ucast CSP_NO_VIA_ADDRESS \<and> v > push_bit hb 1 - 1"
    have def: "rtable_parse_entry dry hb names str s = (if n < length str then (CSP_ERR_INVAL, s)
        else if bad then (CSP_ERR_INVAL, rtable_errno s)
        else if dry then (CSP_ERR_NONE, s)
        else let (res, c, t) = csp_rtable_set (ucast a) m' ifc (ucast v) (core s) (routes s); s = s\<lparr>core := c, routes := t\<rparr>
             in if res \<noteq> CSP_ERR_NONE then (res, rtable_errno s) else (CSP_ERR_NONE, s))"
      unfolding rtable_parse_entry_def Some x bad_def m'_def option.case prod.case ik Let_def ..
    show ?thesis
    proof (cases "n < length str \<or> bad \<or> dry")
      case True
      then show ?thesis using run trivial unfolding def by (auto split: if_splits)
    next
      case False
      then have hb: "hb = csp_id_get_host_bits (ver s)" using assms(2) by simp
      then have h14: "hb \<le> 14" using host_bits_cases [of "ver s"] by auto
      show ?thesis
      proof (cases "ifc = None")
        case True
        then have "csp_rtable_set (ucast a) m' ifc (ucast v) (core s) (routes s) = (CSP_ERR_INVAL, (core s)\<lparr>csp_dbg_errno := CSP_DBG_ERR_INVALID_RTABLE_ENTRY\<rparr>, routes s)"
          by (simp add: csp_rtable_set_def)
        then have "res = CSP_ERR_INVAL" "s' = rtable_errno s" using run False unfolding def by (auto simp: rtable_errno_def)
        then show ?thesis using trivial by simp
      next
        case some: False
        obtain r t where set: "csp_rtable_set_internal (ucast a) (of_int m') ifc (ucast v) (routes s) = (r, t)" by fastforce
        have mm: "0 \<le> m'" "m' \<le> int hb" using False by (auto simp: bad_def)
        then have "csp_rtable_set (ucast a) m' ifc (ucast v) (core s) (routes s) = (r, core s, t)"
          using some set hb by (auto simp: csp_rtable_set_def Let_def)
        then have s': "res = r" "s' = (if r \<noteq> CSP_ERR_NONE then rtable_errno (s\<lparr>routes := t\<rparr>) else s\<lparr>routes := t\<rparr>)"
          using run False unfolding def by (auto simp: Let_def split: if_splits)
        have ua: "unat a < 2 ^ hb" "v = ucast CSP_NO_VIA_ADDRESS \<or> unat v < 2 ^ hb" using False max_address [OF h14] by (auto simp: bad_def)
        have p: "(2 :: nat) ^ hb \<le> 2 ^ 14" by (rule power_increasing) (use h14 in auto)
        have small: "unat w < 2 ^ hb \<Longrightarrow> unat (ucast w :: u16) = unat w" for w :: u32
          using p by (simp add: unsigned_ucast_eq take_bit_nat_eq_self)
        have um: "unat (of_int m' :: u16) \<le> hb"
        proof -
          have "(of_int m' :: u16) = of_nat (nat m')" using mm(1) by simp
          moreover have "nat m' < 2 ^ 16" using mm h14 by simp
          ultimately show ?thesis using mm unat_of_nat_small [of "nat m'", where ?'a = 16] by simp
        qed
        have "route_valid hb \<lparr>rt_address = ucast a, rt_netmask = of_int m', rt_via = ucast v, rt_iface = ifc\<rparr>"
          using ua small um some by (auto simp: route_valid_def)
        from set_internal_valid [OF _ set this] have "table_valid hb (routes s) \<Longrightarrow> table_valid hb t" by simp
        moreover have "r = CSP_ERR_NONE \<or> r = CSP_ERR_NOMEM" using set by (auto simp: csp_rtable_set_internal_def Let_def split: option.splits if_splits)
        moreover have "rtable_kept s s'" using rtable_kept_trans [of s "s\<lparr>routes := t\<rparr>"] by (auto simp: s'(2))
        moreover have "routes s' = t" by (simp add: s'(2) rtable_errno_def)
        ultimately show ?thesis using False s'(1) by auto
      qed
    qed
  qed
qed

lemma rtable_parse_loop_valid:
  assumes "hb = csp_id_get_host_bits (ver s) \<or> dry" "n \<le> CSP_RTABLE_SIZE" "rtable_parse_loop dry hb names n str s = (res, s')"
  shows "res \<le> int CSP_RTABLE_SIZE \<and> rtable_kept s s' \<and> (dry \<longrightarrow> routes s' = routes s) \<and> (table_valid hb (routes s) \<longrightarrow> table_valid hb (routes s'))"
  using assms
proof (induction dry hb names n str s rule: rtable_parse_loop.induct)
  case (1 dry hb names n str s)
  show ?case
  proof (cases "strtok_r CHR '','' str")
    case None
    then show ?thesis using 1(3,4) by (subst (asm) rtable_parse_loop.simps) auto
  next
    case (Some x)
    obtain e rest where x: "strtok_r CHR '','' str = Some (e, rest)" using Some by (cases x) auto
    obtain r s1 where r: "rtable_parse_entry dry hb names e s = (r, s1)" by fastforce
    note e = rtable_parse_entry_valid [OF r 1(2)]
    have hb1: "hb = csp_id_get_host_bits (ver s1) \<or> dry" using e 1(2) rtable_kept_ver [of s s1] by auto
    show ?thesis
    proof (cases "r \<noteq> CSP_ERR_NONE \<or> Suc n > CSP_RTABLE_SIZE")
      case True
      then show ?thesis using 1(4) e x r by (subst (asm) rtable_parse_loop.simps) (auto split: if_splits)
    next
      case False
      then have run: "rtable_parse_loop dry hb names (Suc n) rest s1 = (res, s')" using 1(4) x r by (subst (asm) rtable_parse_loop.simps) simp
      have "res \<le> int CSP_RTABLE_SIZE \<and> rtable_kept s1 s' \<and> (dry \<longrightarrow> routes s' = routes s1) \<and> (table_valid hb (routes s1) \<longrightarrow> table_valid hb (routes s'))"
        by (rule 1(1) [OF x refl r [symmetric] refl]) (use False hb1 run in auto)
      then show ?thesis using e rtable_kept_trans [of s s1 s'] by auto
    qed
  qed
qed

lemma csp_rtable_parse_valid:
  assumes "hb = csp_id_get_host_bits (ver s) \<or> dry" "csp_rtable_parse str dry hb names s = (res, s')"
  shows "res \<le> int CSP_RTABLE_SIZE \<and> rtable_kept s s' \<and> (dry \<longrightarrow> routes s' = routes s) \<and> (table_valid hb (routes s) \<longrightarrow> table_valid hb (routes s'))"
  using assms rtable_parse_loop_valid [of hb s dry 0 names _ res s'] by (auto simp: csp_rtable_parse_def split: option.splits if_splits)

text \<open>C35. Loading a routing table is safe for every text: \<open>csp_rtable_load\<close> returns, with an error or the number of entries,
  at most ten; it changes nothing but the table and the error number, and a table whose entries are in range
  and have an interface stays so. When the check before rejects the text, no entry is changed. The checks alone
  never change a table.\<close>

theorem csp_rtable_load_safe:
  assumes load: "csp_rtable_load str s = (res, s')" and check: "csp_rtable_check str s = (r, s1)" and conf: "csp_rtable_check_config str v names s = (r', s2)"
  shows "res \<le> int CSP_RTABLE_SIZE \<and> rtable_kept s s' \<and> (r < 0 \<longrightarrow> res = r \<and> routes s' = routes s) \<and> rtable_kept s s1 \<and> routes s1 = routes s
    \<and> rtable_kept s s2 \<and> routes s2 = routes s
    \<and> (table_valid (csp_id_get_host_bits (ver s)) (routes s) \<longrightarrow> table_valid (csp_id_get_host_bits (ver s)) (routes s'))"
proof -
  have one: "r \<le> int CSP_RTABLE_SIZE" "rtable_kept s s1" "routes s1 = routes s" using csp_rtable_parse_valid [OF _ check [unfolded csp_rtable_check_def]] by auto
  note keep = rtable_kept_ver [OF one(2)]
  have two: "rtable_kept s s2 \<and> routes s2 = routes s"
    using conf csp_rtable_parse_valid [of _ s True str names r' s2] by (auto simp: csp_rtable_check_config_def split: if_splits)
  show ?thesis
  proof (cases "r < 0")
    case True
    then have "res = r" "s' = s1" using load check by (simp_all add: csp_rtable_load_def)
    then show ?thesis using one two by auto
  next
    case False
    then have "csp_rtable_parse str False (csp_id_get_host_bits (ver s1)) None s1 = (res, s')" using load check by (simp add: csp_rtable_load_def)
    from csp_rtable_parse_valid [OF _ this] show ?thesis using one two keep False rtable_kept_trans [OF one(2)] by auto
  qed
qed

text \<open>A name that no interface has.\<close>

theorem csp_rtable_load_safe_witness:
  "csp_rtable_load (Some ''8/5 RADIO 3'') example_node = (CSP_ERR_INVAL, rtable_errno example_node)
   \<and> table_valid 14 (routes (snd (csp_rtable_load (Some ''8/5 RADIO 3'') example_node)))"
proof -
  let ?s = "example_node"
  have hb: "csp_id_get_host_bits (ver ?s) = 14" by (simp add: example_node_def csp_id_get_host_bits_def)
  have l: "csp_iflist_get_by_name ''RADIO'' (iflist ?s) = None"
    using csp_iflist_lookup [OF example_iflist_is, of "[]" "[0, 1]" None 0 "''RADIO''" 0 0]
    by (simp add: example_node_def) (simp add: example_iflist_def strncmp_eq_def)
  have sc: "strtok_r CHR '','' ''8/5 RADIO 3'' = Some (''8/5 RADIO 3'', [])" "rtable_scan 14 ''8/5 RADIO 3'' = Some (8, 5, ''RADIO'', 3, 11)"
    by code_simp+
  have check: "csp_rtable_check (Some ''8/5 RADIO 3'') ?s = (CSP_ERR_INVAL, rtable_errno ?s)"
    unfolding csp_rtable_check_def csp_rtable_parse_def hb
    by (simp, subst rtable_parse_loop.simps) (simp add: sc rtable_parse_entry_def rtable_iface_def l)
  have load: "csp_rtable_load (Some ''8/5 RADIO 3'') ?s = (CSP_ERR_INVAL, rtable_errno ?s)" by (simp add: csp_rtable_load_def check)
  obtain r' s2 where conf: "csp_rtable_check_config (Some ''8/5 RADIO 3'') 2 None ?s = (r', s2)" by fastforce
  have "table_valid 14 (routes ?s)" by (simp add: table_valid_def example_node_def empty_rtable_def)
  with csp_rtable_load_safe [OF load check conf] hb load show ?thesis by simp
qed

section \<open>Saving\<close>

fun rtable_join :: "string list \<Rightarrow> string" where
  "rtable_join [] = []"
| "rtable_join (e # es) = e @ concat (map (\<lambda>x. CHR '','' # x) es)"

definition route_name :: "csp_iflist \<Rightarrow> csp_route \<Rightarrow> string" where
  "route_name l r = the (if_name (ifaces l (the (rt_iface r))))"

text \<open>The routes that are saved, and their texts.\<close>

definition routes_saved :: "csp_iflist \<Rightarrow> csp_route list \<Rightarrow> csp_route list" where
  "routes_saved l rs = filter (\<lambda>r. route_name l r \<noteq> CSP_IF_LOOPBACK_NAME) rs"

definition routes_text :: "nat \<Rightarrow> csp_iflist \<Rightarrow> csp_route list \<Rightarrow> string list" where
  "routes_text hb l rs = map (\<lambda>r. rtable_text hb (route_name l r) r) (routes_saved l rs)"

lemma rtable_text_nonempty [simp]: "rtable_text hb nm r \<noteq> []"
  by (simp add: rtable_text_def Let_def)

lemma join_snoc: "rtable_join (es @ [e]) = rtable_join es @ (if es = [] then [] else '','') @ e"
  by (cases es) simp_all

lemma join_Nil_iff: "[] \<notin> set es \<Longrightarrow> rtable_join es = [] \<longleftrightarrow> es = []"
  by (cases es) auto

lemma routes_text_snoc:
  "routes_text hb l (rs @ [r]) = routes_text hb l rs @ (if route_name l r = CSP_IF_LOOPBACK_NAME then [] else [rtable_text hb (route_name l r) r])"
  by (simp add: routes_text_def routes_saved_def)

lemma iterate_list: "csp_rtable_iterate iter ctx t = fold (\<lambda>r c. snd (iter c r)) (rtable_list t) ctx"
  by (simp add: csp_rtable_iterate_def rtable_list_def fold_map comp_def)

lemma save_route_next:
  fixes hb :: nat
  assumes nm: "route_name l r \<noteq> CSP_IF_LOOPBACK_NAME" and len: "sv_len ctx < sv_maxlen ctx" "sv_maxlen ctx < 2 ^ 31" "sv_len ctx \<le> length (sv_buffer ctx)"
  defines "e \<equiv> (if sv_len ctx = 0 then [] else '','') @ rtable_text hb (route_name l r) r"
  shows "snd (csp_rtable_save_route hb l ctx r) = (if sv_len ctx + length e < sv_maxlen ctx
    then ctx\<lparr>sv_buffer := take (sv_len ctx) (sv_buffer ctx) @ e, sv_len := sv_len ctx + length e\<rparr>
    else ctx\<lparr>sv_buffer := take (sv_len ctx) (sv_buffer ctx) @ take (sv_maxlen ctx - sv_len ctx - 1) e, sv_error := CSP_ERR_NOMEM\<rparr>)"
proof -
  let ?n = "sv_maxlen ctx - sv_len ctx"
  have "sint (of_nat k :: 32 word) = int k" if "k < 2 ^ 31" for k using that by (simp add: signed_of_nat signed_take_bit_int_eq_self)
  from this [of ?n] have n: "sint (of_nat ?n :: 32 word) = int ?n" using len(2) by linarith
  have fits: "sv_len ctx + length e < sv_maxlen ctx \<longleftrightarrow> \<not> int (length e) \<ge> int ?n" using len(1) by auto
  show ?thesis
    using nm len(1) unfolding csp_rtable_save_route_def route_name_def [symmetric] Let_def snprintf_def prod.case n e_def [symmetric]
    by (simp add: fits)
qed

lemma save_fold:
  fixes hb :: nat and l :: csp_iflist
  assumes mx: "0 < maxlen" "maxlen < 2 ^ 31"
  defines "run rs \<equiv> fold (\<lambda>r c. snd (csp_rtable_save_route hb l c r)) rs \<lparr>sv_buffer = [], sv_len = 0, sv_maxlen = maxlen, sv_error = CSP_ERR_NONE\<rparr>"
  shows "sv_maxlen (run rs) = maxlen \<and> sv_len (run rs) < maxlen \<and> sv_len (run rs) \<le> length (sv_buffer (run rs)) \<and>
    (if length (rtable_join (routes_text hb l rs)) < maxlen
     then sv_error (run rs) = CSP_ERR_NONE \<and> sv_buffer (run rs) = rtable_join (routes_text hb l rs) \<and> sv_len (run rs) = length (rtable_join (routes_text hb l rs))
     else sv_error (run rs) = CSP_ERR_NOMEM)"
proof (induction rs rule: rev_induct)
  case Nil
  then show ?case using mx by (simp add: run_def routes_text_def routes_saved_def)
next
  case (snoc r rs)
  let ?c = "run rs" and ?J = "rtable_join (routes_text hb l rs)"
  have step: "run (rs @ [r]) = snd (csp_rtable_save_route hb l ?c r)" by (simp add: run_def)
  show ?case
  proof (cases "route_name l r = CSP_IF_LOOPBACK_NAME")
    case True
    then have "run (rs @ [r]) = ?c" unfolding step by (simp add: csp_rtable_save_route_def route_name_def)
    then show ?thesis using snoc True by (simp add: routes_text_snoc)
  next
    case False
    define e where "e = (if sv_len ?c = 0 then [] else '','') @ rtable_text hb (route_name l r) r"
    have next_ctx: "run (rs @ [r]) = (if sv_len ?c + length e < maxlen
      then ?c\<lparr>sv_buffer := take (sv_len ?c) (sv_buffer ?c) @ e, sv_len := sv_len ?c + length e\<rparr>
      else ?c\<lparr>sv_buffer := take (sv_len ?c) (sv_buffer ?c) @ take (maxlen - sv_len ?c - 1) e, sv_error := CSP_ERR_NOMEM\<rparr>)"
      unfolding step e_def using save_route_next [OF False, of ?c hb] snoc mx by simp
    have ne: "[] \<notin> set (routes_text hb l rs)" by (auto simp: routes_text_def dest: sym)
    have J: "rtable_join (routes_text hb l (rs @ [r])) = ?J @ (if ?J = [] then [] else '','') @ rtable_text hb (route_name l r) r"
      using False join_Nil_iff [OF ne] by (simp add: routes_text_snoc join_snoc)
    show ?thesis
    proof (cases "length ?J < maxlen")
      case True
      then have c: "sv_error ?c = CSP_ERR_NONE" "sv_buffer ?c = ?J" "sv_len ?c = length ?J" using snoc by simp_all
      then have "rtable_join (routes_text hb l (rs @ [r])) = ?J @ e" unfolding J e_def by simp
      then show ?thesis unfolding next_ctx using c snoc mx by auto
    next
      case False
      then have "\<not> length (rtable_join (routes_text hb l (rs @ [r]))) < maxlen" unfolding J by simp
      moreover have "sv_error (run (rs @ [r])) = CSP_ERR_NOMEM" unfolding next_ctx using False snoc by simp
      moreover have "sv_maxlen (run (rs @ [r])) = maxlen" "sv_len (run (rs @ [r])) < maxlen" "sv_len (run (rs @ [r])) \<le> length (sv_buffer (run (rs @ [r])))"
        unfolding next_ctx using snoc by auto
      ultimately show ?thesis by simp
    qed
  qed
qed

section \<open>Loading what was saved\<close>

text \<open>A route that can be read back: its values are in range, and its name is found again.\<close>

definition route_readable :: "nat \<Rightarrow> csp_iflist \<Rightarrow> csp_route \<Rightarrow> bool" where
  "route_readable hb l r \<longleftrightarrow> route_valid hb r \<and> word_name (route_name l r) \<and> csp_iflist_get_by_name (route_name l r) l = rt_iface r"

definition route_key :: "csp_route \<Rightarrow> u16 \<times> u16 \<times> addr option" where
  "route_key r = (rt_address r, rt_netmask r, rt_iface r)"

lemma strtok_join:
  assumes "[] \<notin> set (e # es)" "\<And>x. x \<in> set (e # es) \<Longrightarrow> CHR '','' \<notin> set x"
  shows "strtok_r CHR '','' (rtable_join (e # es)) = Some (e, rtable_join es)"
proof -
  obtain c cs where e: "e = c # cs" "c \<noteq> CHR '',''" using assms(1) assms(2) [of e] by (cases e) auto
  have all: "\<And>x. x \<in> set e \<Longrightarrow> x \<noteq> CHR '',''" using assms(2) [of e] by auto
  have "takeWhile (\<lambda>x. x \<noteq> CHR '','') (e @ rest) = e @ takeWhile (\<lambda>x. x \<noteq> CHR '','') rest"
      "dropWhile (\<lambda>x. x \<noteq> CHR '','') (e @ rest) = dropWhile (\<lambda>x. x \<noteq> CHR '','') rest" for rest
    using all by (simp_all add: takeWhile_append2 dropWhile_append2)
  then have "strtok_r CHR '','' (e @ rest) = Some (e @ takeWhile (\<lambda>x. x \<noteq> CHR '','') rest, drop 1 (dropWhile (\<lambda>x. x \<noteq> CHR '','') rest))" for rest
    using e by (simp add: strtok_r_def Let_def)
  note cut = this
  show ?thesis
  proof (cases es)
    case Nil
    then show ?thesis using cut [of "[]"] by simp
  next
    case (Cons x xs)
    then show ?thesis using cut [of "concat (map (\<lambda>x. CHR '','' # x) es)"] by simp
  qed
qed

lemma rtable_text_comma: "word_name nm \<Longrightarrow> CHR '','' \<notin> set (rtable_text hb nm r)"
  using print_u_digits digit_not by (fastforce simp: rtable_text_def word_name_def)

lemma rtable_parse_entry_text:
  assumes r: "route_readable hb (iflist s) r" and hb: "hb = csp_id_get_host_bits (ver s)"
  defines "e \<equiv> rtable_text hb (route_name (iflist s) r) r"
  shows "rtable_parse_entry True hb None e s = (CSP_ERR_NONE, s)"
    "csp_rtable_set_internal (rt_address r) (rt_netmask r) (rt_iface r) (rt_via r) (routes s) = (CSP_ERR_NONE, t) \<Longrightarrow>
      rtable_parse_entry False hb None e s = (CSP_ERR_NONE, s\<lparr>routes := t\<rparr>)"
proof -
  let ?a = "ucast (rt_address r) :: u32" and ?v = "ucast (rt_via r) :: u32" and ?m = "int (unat (rt_netmask r))"
  have v: "unat (rt_address r) < 2 ^ hb" "unat (rt_netmask r) \<le> hb" "rt_via r = CSP_NO_VIA_ADDRESS \<or> unat (rt_via r) < 2 ^ hb" "rt_iface r \<noteq> None"
    using r by (simp_all add: route_readable_def route_valid_def)
  have h14: "hb \<le> 14" using host_bits_cases [of "ver s"] hb by auto
  have sc: "rtable_scan hb e = Some (?a, ?m, route_name (iflist s) r, ?v, length e)"
    unfolding e_def by (rule rtable_scan_text) (use r v(2) h14 in \<open>simp_all add: route_readable_def\<close>)
  have un: "unat (ucast w :: u32) = unat w" for w :: u16
    using unsigned_less [of w, where ?'a = nat] by (simp add: unsigned_ucast_eq take_bit_nat_eq_self)
  have mle: "uint (rt_netmask r) \<le> int hb" using v(2) by (simp only: of_nat_le_iff [symmetric, where ?'a = int] of_nat_unat)
  have ok: "\<not> (?a > push_bit hb 1 - 1 \<or> ?m < 0 \<or> ?m > int hb \<or> \<not> True \<or> ?v \<noteq> ucast CSP_NO_VIA_ADDRESS \<and> ?v > push_bit hb 1 - 1)"
    using v mle max_address [OF h14, of ?a] max_address [OF h14, of ?v] un by auto
  have ik: "rtable_iface None (route_name (iflist s) r) s = (rt_iface r, True)" using r v(4) by (simp add: rtable_iface_def route_readable_def)
  have m1: "(if ?m = -1 then int hb else ?m) = ?m" by (rule if_not_P) linarith
  show "rtable_parse_entry True hb None e s = (CSP_ERR_NONE, s)"
    unfolding rtable_parse_entry_def sc option.case prod.case Let_def ik m1 using ok by simp
  have cast: "ucast (ucast w :: u32) = w" for w :: u16 by (rule bit_word_eqI) (auto simp: bit_simps dest: bit_imp_le_length)
  show "rtable_parse_entry False hb None e s = (CSP_ERR_NONE, s\<lparr>routes := t\<rparr>)"
    if set: "csp_rtable_set_internal (rt_address r) (rt_netmask r) (rt_iface r) (rt_via r) (routes s) = (CSP_ERR_NONE, t)"
  proof -
    have "csp_rtable_set (ucast ?a) ?m (rt_iface r) (ucast ?v) (core s) (routes s) = (CSP_ERR_NONE, core s, t)"
      using v(4) mle hb set unfolding cast csp_rtable_set_def by (auto simp: Let_def)
    then show ?thesis unfolding rtable_parse_entry_def sc option.case prod.case Let_def ik m1 using ok by simp
  qed
qed

lemma find_exact_list: "csp_rtable_find_exact a m ifc t = None \<longleftrightarrow> (a, m, ifc) \<notin> route_key ` set (rtable_list t)"
  by (auto simp: find_exact_None rtable_list_def route_key_def)

lemma rtable_load_texts:
  assumes "hb = csp_id_get_host_bits (ver s)" "\<And>r. r \<in> set rs \<Longrightarrow> route_readable hb (iflist s) r"
    "n + length rs \<le> CSP_RTABLE_SIZE" "\<not> dry \<Longrightarrow> rtable_inptr (routes s) = n" "\<not> dry \<Longrightarrow> distinct (map route_key (rtable_list (routes s) @ rs))"
  shows "\<exists>t. rtable_parse_loop dry hb None n (rtable_join (map (\<lambda>r. rtable_text hb (route_name (iflist s) r) r) rs)) s = (int (n + length rs), s\<lparr>routes := t\<rparr>)
    \<and> (if dry then t = routes s else rtable_list t = rtable_list (routes s) @ rs)"
  using assms
proof (induction rs arbitrary: s n)
  case Nil
  then show ?case by (intro exI [of _ "routes s"]) (subst rtable_parse_loop.simps, simp add: strtok_r_def)
next
  case (Cons r rs)
  let ?txt = "\<lambda>r. rtable_text hb (route_name (iflist s) r) r"
  have "CHR '','' \<notin> set (?txt x)" if "x \<in> set (r # rs)" for x using rtable_text_comma Cons.prems(2) [OF that] by (simp add: route_readable_def)
  then have tk: "strtok_r CHR '','' (rtable_join (map ?txt (r # rs))) = Some (?txt r, rtable_join (map ?txt rs))"
    unfolding list.map by (intro strtok_join) (auto dest: sym)
  note entry = rtable_parse_entry_text [OF Cons.prems(2) [of r] Cons.prems(1)]
  have n: "\<not> Suc n > CSP_RTABLE_SIZE" using Cons.prems(3) by simp
  show ?case
  proof (cases dry)
    case True
    then have "rtable_parse_loop dry hb None n (rtable_join (map ?txt (r # rs))) s = rtable_parse_loop dry hb None (Suc n) (rtable_join (map ?txt rs)) s"
      using n entry(1) by (subst rtable_parse_loop.simps) (simp add: tk del: rtable_join.simps list.map)
    moreover obtain t where "rtable_parse_loop dry hb None (Suc n) (rtable_join (map ?txt rs)) s = (int (Suc n + length rs), s\<lparr>routes := t\<rparr>)" "t = routes s"
      using Cons.IH [of s "Suc n"] Cons.prems True by auto
    ultimately show ?thesis using True by auto
  next
    case False
    have inp: "rtable_inptr (routes s) = n" "rtable_inptr (routes s) < CSP_RTABLE_SIZE" using Cons.prems(3,4) False by simp_all
    have "csp_rtable_find_exact (rt_address r) (rt_netmask r) (rt_iface r) (routes s) = None"
      using Cons.prems(5) [OF False] unfolding find_exact_list by (auto simp: route_key_def)
    from set_internal_append [OF this inp(2), of "rt_via r"] obtain t where t: "csp_rtable_set_internal (rt_address r) (rt_netmask r) (rt_iface r) (rt_via r) (routes s) = (CSP_ERR_NONE, t)"
        "rtable_inptr t = Suc n" "rtable_list t = rtable_list (routes s) @ [r]" using inp(1) by auto
    let ?s = "s\<lparr>routes := t\<rparr>"
    have "rtable_parse_loop dry hb None n (rtable_join (map ?txt (r # rs))) s = rtable_parse_loop dry hb None (Suc n) (rtable_join (map ?txt rs)) ?s"
      using n entry(2) [OF _ t(1)] False by (subst rtable_parse_loop.simps) (simp add: tk del: rtable_join.simps list.map)
    moreover obtain t' where "rtable_parse_loop dry hb None (Suc n) (rtable_join (map ?txt rs)) ?s = (int (Suc n + length rs), ?s\<lparr>routes := t'\<rparr>)"
        "rtable_list t' = rtable_list t @ rs"
      using Cons.IH [of ?s "Suc n"] Cons.prems False t by auto
    ultimately show ?thesis using False t(3) by auto
  qed
qed

text \<open>C34. A routing table survives saving and loading. \<open>csp_rtable_save\<close> writes the routes that do not lead to the loopback
  interface, or reports \<^verbatim>\<open>CSP_ERR_NOMEM\<close> exactly when the text and its terminator do not fit the buffer. Loaded into an
  empty table, the text gives the same routes in the same order, provided that it has at most 100 characters;
  a longer one, which \<open>csp_rtable_save\<close> writes without complaint, is rejected. The names of the interfaces must be
  words of at most 14 characters without commas that are found again, and no route may occur twice.\<close>

theorem csp_rtable_save_load:
  fixes s :: "'d csp_state"
  defines "hb \<equiv> csp_id_get_host_bits (ver s)" and "saved \<equiv> routes_saved (iflist s) (rtable_list (routes s))"
    and "full \<equiv> rtable_join (routes_text (csp_id_get_host_bits (ver s)) (iflist s) (rtable_list (routes s)))"
  assumes tab: "\<And>r. r \<in> set saved \<Longrightarrow> route_readable hb (iflist s) r" "rtable_inptr (routes s) \<le> CSP_RTABLE_SIZE" "distinct (map route_key saved)"
    and mx: "0 < maxlen" "maxlen < 2 ^ 31"
  shows "if length full < maxlen
    then csp_rtable_save maxlen s = (CSP_ERR_NONE, full)
      \<and> (if length full \<le> 100
         then \<exists>t. csp_rtable_load (Some full) (s\<lparr>routes := csp_rtable_free (routes s)\<rparr>) = (int (length saved), s\<lparr>routes := t\<rparr>) \<and> rtable_list t = saved
         else csp_rtable_load (Some full) (s\<lparr>routes := csp_rtable_free (routes s)\<rparr>) = (CSP_ERR_INVAL, s\<lparr>routes := csp_rtable_free (routes s)\<rparr>))
    else fst (csp_rtable_save maxlen s) = CSP_ERR_NOMEM"
proof -
  define s0 where "s0 = s\<lparr>routes := csp_rtable_free (routes s)\<rparr>"
  define rs where "rs = rtable_list (routes s)"
  have join: "full = rtable_join (map (\<lambda>r. rtable_text hb (route_name (iflist s0) r) r) saved)" by (simp add: full_def routes_text_def saved_def hb_def s0_def)
  note sv = save_fold [OF mx, of hb "iflist s" rs]
  have save: "if length full < maxlen then csp_rtable_save maxlen s = (CSP_ERR_NONE, full) else fst (csp_rtable_save maxlen s) = CSP_ERR_NOMEM"
    unfolding csp_rtable_save_def hb_def [symmetric] Let_def iterate_list full_def rs_def [symmetric] using sv by auto
  have conf: "hb = csp_id_get_host_bits (ver s0)" "rtable_list (routes s0) = []" "rtable_inptr (routes s0) = 0" by (simp_all add: hb_def s0_def rtable_list_def csp_rtable_free_def)
  have len: "0 + length saved \<le> CSP_RTABLE_SIZE"
  proof -
    have "length saved \<le> length rs" by (simp only: saved_def routes_saved_def rs_def length_filter_le)
    moreover have "length rs = rtable_inptr (routes s)" by (simp add: rs_def rtable_list_def)
    ultimately show ?thesis using tab(2) by simp
  qed
  have rd: "\<And>r. r \<in> set saved \<Longrightarrow> route_readable hb (iflist s0) r" using tab(1) by (simp add: s0_def)
  have dist: "distinct (map route_key (rtable_list (routes s0) @ saved))" using tab(3) conf(2) by simp
  have load: "\<exists>t. csp_rtable_load (Some full) s0 = (int (length saved), s\<lparr>routes := t\<rparr>) \<and> rtable_list t = saved" if "length full \<le> 100"
  proof -
    have "csp_rtable_check (Some full) s0 = (int (length saved), s0)"
      using rtable_load_texts [OF conf(1) rd len, of True] that unfolding csp_rtable_check_def csp_rtable_parse_def conf(1) [symmetric] join by auto
    moreover obtain t where "rtable_parse_loop False hb None 0 full s0 = (int (length saved), s0\<lparr>routes := t\<rparr>)" and t: "rtable_list t = saved"
      using rtable_load_texts [OF conf(1) rd len conf(3) dist, of False] conf(2) unfolding join by auto
    then have "csp_rtable_parse (Some full) False hb None s0 = (int (length saved), s0\<lparr>routes := t\<rparr>)" using that by (simp add: csp_rtable_parse_def)
    ultimately show ?thesis using t conf(1) by (auto simp: csp_rtable_load_def s0_def)
  qed
  have "csp_rtable_load (Some full) s0 = (CSP_ERR_INVAL, s0)" if "\<not> length full \<le> 100"
    using that by (simp add: csp_rtable_load_def csp_rtable_check_def csp_rtable_parse_def)
  with save load show ?thesis unfolding s0_def [symmetric] by auto
qed

text \<open>A table with one route on the example node.\<close>

theorem csp_rtable_save_load_witness:
  "\<exists>(s :: unit csp_state) t. rtable_list (routes s) = [\<lparr>rt_address = 8, rt_netmask = 5, rt_via = 3, rt_iface = Some 1\<rparr>]
     \<and> csp_rtable_save 20 s = (CSP_ERR_NONE, ''8/5 CAN 3'')
     \<and> csp_rtable_load (Some ''8/5 CAN 3'') (s\<lparr>routes := csp_rtable_free (routes s)\<rparr>) = (1, s\<lparr>routes := t\<rparr>)
     \<and> rtable_list t = rtable_list (routes s)"
proof -
  let ?r = "\<lparr>rt_address = 8, rt_netmask = 5, rt_via = 3, rt_iface = Some 1\<rparr>"
  let ?s = "example_node\<lparr>routes := \<lparr>rtable = (\<lambda>_. ?r), rtable_inptr = 1\<rparr>\<rparr>"
  have rs: "rtable_list (routes ?s) = [?r]" by (simp add: rtable_list_def)
  have hb: "csp_id_get_host_bits (ver ?s) = 14" by (simp add: example_node_def csp_id_get_host_bits_def)
  have nm: "route_name (iflist example_node) ?r = ''CAN''" by (simp add: route_name_def example_node_def example_iflist_def)
  have l: "csp_iflist_get_by_name ''CAN'' (iflist ?s) = Some 1"
    using csp_iflist_lookup [OF example_iflist_is, of "[]" "[0, 1]" None 0 "''CAN''" 0 0]
    by (simp add: example_node_def) (simp add: example_iflist_def strncmp_eq_def)
  have sv: "routes_saved (iflist ?s) (rtable_list (routes ?s)) = [?r]" unfolding rs by (simp add: routes_saved_def nm del: One_nat_def)
  have "rtable_text 14 ''CAN'' ?r = ''8/5 CAN 3''" by code_simp
  then have full: "rtable_join (routes_text (csp_id_get_host_bits (ver ?s)) (iflist ?s) (rtable_list (routes ?s))) = ''8/5 CAN 3''"
    unfolding routes_text_def sv hb by (simp add: nm del: One_nat_def)
  have word: "word_name ''CAN''" by code_simp
  have rd: "route_readable (csp_id_get_host_bits (ver ?s)) (iflist ?s) ?r" unfolding hb route_readable_def using word l by (simp add: nm route_valid_def del: One_nat_def)
  have inp: "rtable_inptr (routes ?s) \<le> CSP_RTABLE_SIZE" by simp
  have "\<exists>t. csp_rtable_save 20 ?s = (CSP_ERR_NONE, ''8/5 CAN 3'') \<and> csp_rtable_load (Some ''8/5 CAN 3'') (?s\<lparr>routes := csp_rtable_free (routes ?s)\<rparr>) = (1, ?s\<lparr>routes := t\<rparr>)
     \<and> rtable_list t = [?r]"
    using csp_rtable_save_load [where s = ?s and maxlen = 20, unfolded full sv, OF _ inp] rd by simp
  then show ?thesis using rs by (intro exI [of _ ?s]) (simp only: rs simp_thms)
qed

end
