(* ===== verification/Spec2Isabelle.thy ===== *)
theory Spec2Isabelle
  imports CSP_Node CSP_Secure CSP_Kiss_Link CSP_Can_Link1 CSP_Eth_Link CSP_I2c CSP_Sfp CSP_Tun CSP_Udp CSP_Zmq CSP_Rtable_Stdio
begin

text \<open>
  \<^bold>\<open>A verification of libcsp, the Cubesat Space Protocol stack.\<close>

  The library runs on the nodes of a small network. Packets live in a static pool of
  reference-counted buffers and are passed by pointer: from an interface driver into the
  router queue, from the router to a callback, a socket, a connection, the RDP reordering
  queue or another interface, and to the application, which frees them. The theories
  follow this structure, model the functions of \<^verbatim>\<open>src/src\<close> under their own names, and prove
  what each component promises and that the components together neither lose a buffer nor
  free one that is in use.

  \<^bold>\<open>Theories and sources\<close> (the functions are named as in the C files).

  \<^item> \<open>CSP_Prelude\<close>: machine integers, byte memories, byte orders, error codes, shared lemmas
    and the collections \<open>mem_simps\<close> and \<open>frame_simps\<close>.
  \<^item> \<open>CSP_Queue\<close>: \<^verbatim>\<open>arch/posix/pthread_queue.c\<close> and \<^verbatim>\<open>arch/posix/csp_queue.c\<close>. The ring buffer
    implements the locale \<open>fifo_queue\<close> (interpretation \<open>csp_q\<close>), through which all other
    components reason about their queues.
  \<^item> \<open>CSP_Packet\<close>: identifiers, packets, configuration (\<^verbatim>\<open>csp_types.h\<close>, \<^verbatim>\<open>csp.h\<close>).
  \<^item> \<open>CSP_Buffer\<close>: \<^verbatim>\<open>csp_buffer.c\<close>. The locale \<open>refcounted_pool\<close>, interpreted on the two ways to
    allocate; reachable pools are an inductive predicate.
  \<^item> \<open>CSP_Id\<close>, \<open>CSP_Crc32\<close>, \<open>CSP_Sha1\<close>, \<open>CSP_Hmac\<close>, \<open>CSP_Dedup\<close>: \<^verbatim>\<open>csp_id.c\<close>, \<^verbatim>\<open>csp_crc32.c\<close>,
    \<^verbatim>\<open>crypto/csp_sha1.c\<close>, \<^verbatim>\<open>crypto/csp_hmac.c\<close>, \<^verbatim>\<open>csp_dedup.c\<close>: round trips of the header codecs,
    equivalence of the table-driven and unrolled routines with bitwise CRC-32C, textbook
    SHA-1 and RFC 2104, refinement of a history of packets by the ring of checksums.
  \<^item> \<open>CSP_Iflist\<close>, \<open>CSP_Rtable\<close>: \<^verbatim>\<open>csp_iflist.c\<close> and \<^verbatim>\<open>csp_rtable_cidr.c\<close>: searches in the linked list
    of interfaces, longest prefix match.
  \<^item> \<open>CSP_State\<close>: the record \<open>csp_state\<close> of all static variables of the stack, and the accounting:
    \<open>held\<close> counts the references to each buffer in every queue of the node, \<open>own dh f s\<close> says
    that the reference counts of the pool are exactly those plus the references \<open>f\<close> of the
    caller plus those of the drivers (\<open>dh\<close>); \<open>own_leak dh X f s\<close> that one further buffer, out of the set \<open>X\<close>, may
    be lost, and \<open>safe\<close> that the counts are at least these: nothing in use is free.
  \<^item> \<open>CSP_Qfifo\<close>: \<^verbatim>\<open>csp_qfifo.c\<close>, \<^verbatim>\<open>csp_promisc.c\<close>, \<^verbatim>\<open>interfaces/csp_if_lo.c\<close>.
  \<^item> \<open>CSP_Send\<close>, \<open>CSP_Send_Plan\<close>: \<^verbatim>\<open>csp_send_direct\<close> and \<^verbatim>\<open>csp_send_direct_iface\<close> of \<^verbatim>\<open>csp_io.c\<close>. The
    transmit functions of the interfaces are the locale \<open>nexthop_contract\<close>, with the loopback
    driver as an interpretation (\<open>lo_tx\<close>); the loops refine an abstract plan of copies.
  \<^item> \<open>CSP_Rdp_Queue\<close>, \<open>CSP_Rdp_Cmp\<close>, \<open>CSP_Rdp\<close>: \<^verbatim>\<open>csp_rdp_queue.c\<close>, \<^verbatim>\<open>arch/posix/csp_semaphore.c\<close> and
    \<^verbatim>\<open>csp_rdp.c\<close>. \<open>CSP_Conn\<close>: \<^verbatim>\<open>csp_conn.c\<close>.
  \<^item> \<open>CSP_Rdp_Own\<close>, \<open>CSP_Rdp_Machine\<close>, \<open>CSP_Rdp_Order\<close>, \<open>CSP_Rdp_Props\<close>: accounting of RDP; its state
    diagram as the step relation \<open>rdp_step\<close>; delivery in sequence; the transmit window, the
    acknowledgement that ends the wait of a sender, and the peer that never sends one. The only buffer that RDP may lose
    is a packet it allocates to answer a SYN (\<open>answers_syn\<close>). The locale \<open>task_env\<close> is the contract of the other tasks
    that run while a call waits.
  \<^item> \<open>CSP_Port\<close>, \<open>CSP_Io\<close>: \<^verbatim>\<open>csp_port.c\<close>, the application calls of \<^verbatim>\<open>csp_io.c\<close> and \<^verbatim>\<open>csp_connect\<close>. The
    locale \<open>leak_env\<close> is a wait in which other tasks may lose the buffers that a function of the set \<open>L\<close> counts;
    tasks that lose nothing (\<open>timers\<close>) and tasks that may lose anything (\<open>lossy\<close>) are
    two instances (a \<open>sublocale\<close> each).
  \<^item> \<open>CSP_Route\<close>: \<^verbatim>\<open>csp_route.c\<close>, with the locale \<open>router_env\<close> for the callbacks bound to ports, which keep exact
    accounts. Sockets that are bound must have been passed to \<open>csp_listen\<close> (\<open>sock_ready\<close>): \<open>csp_route_unlistened\<close>
    shows what happens otherwise.
  \<^item> \<open>CSP_Service\<close>: \<^verbatim>\<open>csp_service_handler.c\<close> and \<^verbatim>\<open>csp_services.c\<close>. The hooks satisfy \<open>service_env\<close>; when the
    hook of the process list answers the request itself as well (\<open>service_answers\<close>), the handler is a callback in the
    sense of \<open>router_env\<close> (a \<open>sublocale\<close>). Both are interpreted, the first on a hook that
    returns 0, as the default one does.
  \<^item> \<open>CSP_Node\<close>: \<^verbatim>\<open>csp_init.c\<close>, \<^verbatim>\<open>csp_bridge.c\<close>, and the router as the task behind every wait
    (\<open>router_loop\<close>, a \<open>sublocale\<close> of \<open>task_env\<close>), interpreted on a node with the service handler.
  \<^item> \<open>CSP_Secure\<close>: HMAC and CRC from a sender to the router of a receiver.
  \<^item> \<open>CSP_Drivers\<close>: the interface data of the drivers as the component \<open>drv\<close> of a node, with the
    packets in reception in its accounting (\<open>drv_held\<close>). \<open>CSP_Frames\<close>: what the interfaces share.
  \<^item> \<open>CSP_Kiss\<close>, \<open>CSP_Kiss_Link\<close>: \<^verbatim>\<open>interfaces/csp_if_kiss.c\<close>: the receiver on arbitrary bytes, and a line
    between two nodes, which delivers payloads of up to 251 bytes and loses those of 252 to 256.
  \<^item> \<open>CSP_Pbuf\<close>: the linked lists of packets in reception that CAN and Ethernet have, as lists
    (\<open>pchain\<close>), with the locale \<open>pbuf_list\<close> for the interface data that holds the head, interpreted
    for both (\<open>can_pb\<close>, \<open>eth_pb\<close>). Removing old packets needs that no two neighbours are old (\<open>apart\<close>), which
    follows from there being at most one (\<open>one_expired\<close>); reception keeps the latter (\<open>refreshed\<close>).
  \<^item> \<open>CSP_Can_Pbuf\<close>, \<open>CSP_Can\<close>, \<open>CSP_Can_Rx\<close>, \<open>CSP_Can_Tx\<close>, \<open>CSP_Can_Frag\<close>, \<open>CSP_Can_Link\<close>, \<open>CSP_Can_Link1\<close>:
    \<^verbatim>\<open>interfaces/csp_if_can_pbuf.c\<close> and \<^verbatim>\<open>interfaces/csp_if_can.c\<close>. The
    receivers on arbitrary frames, the transmit functions as senders of the fragments of a packet, and a bus between two nodes for both versions of
    the fragmentation protocol. The transmit functions of KISS and CAN are interpretations
    of \<open>nexthop_contract\<close>.
  \<^item> \<open>CSP_Eth\<close>, \<open>CSP_Eth_Rx\<close>, \<open>CSP_Eth_Tx\<close>, \<open>CSP_Eth_Link\<close>: \<^verbatim>\<open>interfaces/csp_if_eth.c\<close> and
    \<^verbatim>\<open>interfaces/csp_if_eth_pbuf.c\<close>: the table of Ethernet addresses, the receiver on arbitrary frames, when
    the transmit loop ends, and an Ethernet between two nodes.
  \<^item> \<open>CSP_I2c\<close>: \<^verbatim>\<open>interfaces/csp_if_i2c.c\<close>: transmit, receive, and what happens to short frames.
  \<^item> \<open>CSP_Sfp\<close>: \<^verbatim>\<open>csp_sfp.c\<close>: a block of memory as a sequence of frames, their transmission and
    reassembly, and the receiver on arbitrary packets.
  \<^item> \<open>CSP_Tun\<close>, \<open>CSP_Udp\<close>, \<open>CSP_Zmq\<close>: \<^verbatim>\<open>interfaces/csp_if_tun.c\<close>, \<^verbatim>\<open>interfaces/csp_if_udp.c\<close> and \<^verbatim>\<open>interfaces/csp_if_zmqhub.c\<close>:
    packets through an encrypted tunnel, in datagrams and in messages.
  \<^item> \<open>CSP_Rtable_Stdio\<close>: \<^verbatim>\<open>csp_rtable_stdio.c\<close>: routing tables as text, with the conversions of \<^verbatim>\<open>sscanf\<close> that the
    parser uses; loading arbitrary text, and saving and loading a table.
  \<^item> This theory: the router and the services over all components.

  \<^bold>\<open>Modelling.\<close> A pointer to a packet, interface, connection or socket is the address of the
  object, \<open>None\<close> is \<^verbatim>\<open>NULL\<close>. Integers have the width of the sources. A packet is a byte memory
  with the header space in front of the data, so that the codecs and the overlay of headers
  and payload are those of the C structure. Multi-byte header fields of RDP are stored as
  a little-endian host stores them. Each call is one step of the node; the mutex of the
  queues and the single router task justify this for queue operations, and the parameter \<open>wt\<close>
  stands for all other tasks during a wait. The clock \<open>csp_ms\<close> is part of the state and
  advances only in waits. The configuration is the default one of \<^verbatim>\<open>CMakeLists.txt\<close> with RDP,
  HMAC, promiscuous mode and the routing table compiled in. Results of type \<open>option\<close> are
  \<open>None\<close> where the C code loops for ever or uses a queue that was never created. What no caller in the
  sources relies on is left out: the checks of \<^verbatim>\<open>csp_hmac.c\<close> for null pointers and the unused member \<^verbatim>\<open>callback\<close> of a
  connection. A route without an interface, which \<open>csp_rtable_set\<close> does not store, is skipped where C would
  follow a null pointer, and a shift by a netmask longer than a host address, undefined in C, gives 0.

  Parameters: \<open>nh\<close>, the transmit functions behind \<^verbatim>\<open>nexthop\<close>; \<open>dh\<close>, the references drivers keep;
  \<open>mc\<close> and \<open>ml\<close>, the copy function of a sender and \<^verbatim>\<open>malloc\<close>; \<open>rnd\<close>, the generator \<^verbatim>\<open>rand_r\<close>; \<open>cb\<close>, the callbacks of the application; \<open>wt\<close>, other tasks; the
  record \<open>csp_hooks\<close> of the hooks, the clock and the memory of peek and poke; \<open>tf\<close>, the functions
  with which a driver sends bytes or frames, acting on the hardware \<open>hw\<close>, as do \<open>sto\<close>, \<open>rcv\<close> and \<open>zs\<close> for the sockets
  of UDP and ZMQ; \<open>enc\<close> and \<open>dec\<close>, the encryption of a tunnel.

  \<^bold>\<open>Bounds.\<close> Loops over linked interfaces have fuel \<open>IF_MAX\<close> (256, more than the interface
  objects of the model, so a chain without repetition ends earlier); loops over queues have
  the length of the queue as fuel, as in the sources; the scan for duplicates has sixteen
  rounds, one per slot. The lemmas of each theory show that the fuel is enough. Loops that may
  not end (\<^verbatim>\<open>csp_rdp_send\<close>, \<^verbatim>\<open>csp_ps\<close>, the walks along the packets of the CAN and Ethernet
  interfaces, \<^verbatim>\<open>csp_eth_tx\<close>, the loops of \<^verbatim>\<open>csp_sfp.c\<close>) are partial functions to \<open>option\<close>; that \<^verbatim>\<open>csp_rdp_send\<close> returns after an
  acknowledgement and waits for ever without one, and when \<^verbatim>\<open>csp_eth_tx\<close> returns, are properties.

  \<^bold>\<open>Not modelled.\<close> Printing, hex dumps and debug text; the drivers in \<^verbatim>\<open>drivers/\<close> and the ports in
  \<^verbatim>\<open>arch/\<close> other than the POSIX queue and semaphore (system calls); the Python bindings; \<^verbatim>\<open>csp_yaml.c\<close>
  (libyaml); the sockets, threads and the initialisation of the UDP and ZMQ interfaces. What is left
  of the repository is system calls, hardware access, output and glue.
\<close>

section \<open>The router over all components\<close>





text \<open>C20. The services of a node consume the request: for every port and every request, valid or
  not, \<open>csp_service_handler\<close> gives up exactly the reference to the request packet (it
  frees it, or sends it back as the reply) and leaks or frees nothing else, for transmit
  functions and hooks that keep the accounting, except for a request for the process list when
  \<open>csp_ps_hook\<close> returns 0, as the hooks of all ports in the repository do: then the reference is given up
  first, and the handler still sends the packet it no longer owns.\<close>

theorem csp_service_handler_ownership:
  assumes env: "service_env nh dh hk" and own: "own dh (tok p f) s"
  shows "if id_dport (pkt_id (pkt s p)) = 2 \<and> (ucast (fst (csp_ps_hook hk p s)) :: u16) = 0
    then \<exists>t. own dh f t \<and> csp_service_handler nh hk p s = csp_sendto_reply nh (Some p) p CSP_O_SAME t
    else own dh f (csp_service_handler nh hk p s)"
  using service_env.service_handler_own [OF env own] service_env.service_handler_ps_empty [OF env own]
  by (auto simp: ps_empty_def handler_reply_def)

text \<open>A request for port 0, and with the hooks of the ports one for the process list.\<close>

theorem csp_service_handler_ownership_witness:
  "own no_driver (\<lambda>_. 0) (csp_service_handler (\<lambda>_. csp_lo_tx) silent_hooks 0 example_sender)
   \<and> (let s = upd_pkt 0 (\<lambda>k. k\<lparr>pkt_id := (pkt_id k)\<lparr>id_dport := 2\<rparr>\<rparr>) example_sender
      in \<exists>t. own no_driver (\<lambda>_. 0) t \<and> csp_service_handler (\<lambda>_. csp_lo_tx) silent_hooks 0 s = csp_sendto_reply (\<lambda>_. csp_lo_tx) (Some 0) 0 CSP_O_SAME t)"
proof -
  let ?s = "upd_pkt 0 (\<lambda>k. k\<lparr>pkt_id := (pkt_id k)\<lparr>id_dport := 2\<rparr>\<rparr>) example_sender"
  have "id_dport (pkt_id (pkt example_sender 0)) = 0" by (simp add: example_sender_pkt fresh_packet_def zero_packet_def zero_id_def)
  moreover have "own no_driver (tok 0 (\<lambda>_. 0)) ?s" using example_sender_own by simp
  moreover have "id_dport (pkt_id (pkt ?s 0)) = 2" by (simp add: upd_pkt_def on_core_def)
  ultimately show ?thesis
    using csp_service_handler_ownership [OF silent.service_env_axioms example_sender_own]
      csp_service_handler_ownership [OF silent.service_env_axioms, of no_driver 0 "\<lambda>_. 0" ?s]
    by (simp add: silent_hooks_def)
qed

end
